(* ===== verification/Prelude.thy ===== *)
theory Prelude
  imports Main "HOL-Library.Word" "HOL-Library.Multiset"
begin

text \<open>
  Shared vocabulary of the development: results (\<open>anyhow::Result\<close>), checked machine
  arithmetic on \<open>u128\<close>, \<open>u64\<close> and \<open>usize\<close>, byte strings with their big- and little-endian
  readings, slices, and text.  A Rust \<open>?\<close> is \<open>bindE\<close>, \<open>ensure!\<close> is an \<open>if\<close> whose
  failing branch is \<open>Fail\<close> with the source's message, and an operation that leaves its
  integer type or its slice is \<open>Panic\<close> (a panic in the checked profile, a silent wrap
  in the unchecked one), so that "the code never gets there" is a theorem and not an
  assumption.
\<close>

named_theorems res_simps "inversion of results and of their combinators"
named_theorems byte_simps "lengths and readings of byte strings"

section \<open>Results\<close>

datatype error =
    Fail String.literal  \<comment> \<open>an \<open>anyhow\<close> error with its message\<close>
  | Panic                \<comment> \<open>arithmetic outside its type, or a slice outside its bounds\<close>

type_synonym 'a res = "error + 'a"

definition bindE :: "'a res \<Rightarrow> ('a \<Rightarrow> 'b res) \<Rightarrow> 'b res" where
  "bindE m f = (case m of Inl e \<Rightarrow> Inl e | Inr x \<Rightarrow> f x)"

abbreviation ensure :: "bool \<Rightarrow> String.literal \<Rightarrow> 'a res \<Rightarrow> 'a res" where
  "ensure c msg k \<equiv> (if c then k else Inl (Fail msg))"

text \<open>\<open>Option::context\<close>: the message becomes the error of a \<open>None\<close>.\<close>

definition contextE :: "'a option \<Rightarrow> String.literal \<Rightarrow> 'a res" where
  "contextE x msg = (case x of None \<Rightarrow> Inl (Fail msg) | Some v \<Rightarrow> Inr v)"

text \<open>An iterator of fallible steps collected into a \<open>Result<Vec<_>>\<close>: the first error wins.\<close>

fun mapE :: "('a \<Rightarrow> 'b res) \<Rightarrow> 'a list \<Rightarrow> 'b list res" where
  "mapE f [] = Inr []"
| "mapE f (x # xs) = bindE (f x) (\<lambda>y. bindE (mapE f xs) (\<lambda>ys. Inr (y # ys)))"

text \<open>A fallible fold: the loop \<open>for x in xs { s = f(s, x)?; }\<close>.\<close>

fun foldE :: "('s \<Rightarrow> 'a \<Rightarrow> 's res) \<Rightarrow> 's \<Rightarrow> 'a list \<Rightarrow> 's res" where
  "foldE f s [] = Inr s"
| "foldE f s (x # xs) = bindE (f s x) (\<lambda>s'. foldE f s' xs)"

lemma bindE_Inl [simp]: "bindE (Inl e) f = Inl e"
  by (simp add: bindE_def)

lemma bindE_Inr [simp]: "bindE (Inr x) f = f x"
  by (simp add: bindE_def)

lemma bindE_cong [fundef_cong]:
  "m = m' \<Longrightarrow> (\<And>x. m' = Inr x \<Longrightarrow> f x = f' x) \<Longrightarrow> bindE m f = bindE m' f'"
  by (cases m') (auto simp: bindE_def)

text \<open>Used with \<open>cong:\<close> to evaluate closed programs from the outside in.\<close>

lemma bindE_weak_cong: "m = m' \<Longrightarrow> bindE m f = bindE m' f"
  by simp

lemma bindE_eq_Inr [res_simps]: "bindE m f = Inr y \<longleftrightarrow> (\<exists>x. m = Inr x \<and> f x = Inr y)"
  by (cases m) auto

lemma bindE_eq_Inl [res_simps]:
  "bindE m f = Inl e \<longleftrightarrow> m = Inl e \<or> (\<exists>x. m = Inr x \<and> f x = Inl e)"
  by (cases m) auto

lemma contextE_eq_Inr [res_simps]: "contextE x msg = Inr v \<longleftrightarrow> x = Some v"
  by (cases x) (auto simp: contextE_def)

lemma contextE_eq_Inl [res_simps]: "contextE x msg = Inl e \<longleftrightarrow> x = None \<and> e = Fail msg"
  by (cases x) (auto simp: contextE_def)

lemma contextE_simps [simp]:
  "contextE None msg = Inl (Fail msg)" "contextE (Some v) msg = Inr v"
  by (simp_all add: contextE_def)

lemma ensure_eq_Inr [res_simps]: "ensure c msg k = Inr v \<longleftrightarrow> c \<and> k = Inr v"
  by simp

lemma ensure_eq_Panic [res_simps]: "ensure c msg k = Inl Panic \<longleftrightarrow> c \<and> k = Inl Panic"
  by simp

lemma mapE_cong [fundef_cong]:
  "xs = ys \<Longrightarrow> (\<And>x. x \<in> set ys \<Longrightarrow> f x = g x) \<Longrightarrow> mapE f xs = mapE g ys"
  by (induction xs arbitrary: ys) auto

lemma mapE_eq_Inr: "mapE f xs = Inr ys \<longleftrightarrow> list_all2 (\<lambda>x y. f x = Inr y) xs ys"
  by (induction xs arbitrary: ys) (auto simp: res_simps list_all2_Cons1)

lemma mapE_length: "mapE f xs = Inr ys \<Longrightarrow> length ys = length xs"
  by (auto simp: mapE_eq_Inr dest: list_all2_lengthD)

lemma mapE_inj:
  assumes "mapE f xs = Inr zs" and "mapE f ys = Inr zs"
    and inj: "\<And>x y z. f x = Inr z \<Longrightarrow> f y = Inr z \<Longrightarrow> x = y"
  shows "xs = ys"
  using assms(1,2)
proof (induction xs arbitrary: ys zs)
  case Nil
  then show ?case by (cases ys) (auto simp: res_simps)
next
  case (Cons x xs)
  then show ?case by (cases ys) (auto simp: res_simps dest: inj)
qed

lemma mapE_no_panic: "(\<And>x. x \<in> set xs \<Longrightarrow> f x \<noteq> Inl Panic) \<Longrightarrow> mapE f xs \<noteq> Inl Panic"
  by (induction xs) (auto simp: res_simps)

lemma foldE_append: "foldE f s (xs @ ys) = bindE (foldE f s xs) (\<lambda>s'. foldE f s' ys)"
proof (induction xs arbitrary: s)
  case (Cons x xs)
  then show ?case by (cases "f s x") auto
qed simp

lemma foldE_invariant:
  assumes "foldE f s xs = Inr t" and "I s"
    and "\<And>s x s'. x \<in> set xs \<Longrightarrow> I s \<Longrightarrow> f s x = Inr s' \<Longrightarrow> I s'"
  shows "I t"
  using assms by (induction xs arbitrary: s) (auto simp: res_simps)

section \<open>Machine integers\<close>

text \<open>
  Unsigned integers are natural numbers below their bound.  A plain \<open>+\<close>, \<open>-\<close> or \<open>*\<close> of the
  source is checked here; \<open>checked_add\<close>, \<open>checked_sub\<close> and \<open>checked_mul\<close> of the source are
  the \<open>option\<close>-valued forms, \<open>saturating_sub\<close> is subtraction on \<open>nat\<close>.
\<close>

definition U128 :: nat where "U128 = 2 ^ 128"
definition U64 :: nat where "U64 = 2 ^ 64"
definition U32 :: nat where "U32 = 2 ^ 32"
definition U16 :: nat where "U16 = 2 ^ 16"
definition U8 :: nat where "U8 = 2 ^ 8"

text \<open>\<open>usize\<close> on the 64-bit targets the gateway is built for.\<close>

abbreviation USIZE :: nat where "USIZE \<equiv> U64"

definition checked_add :: "nat \<Rightarrow> nat \<Rightarrow> nat \<Rightarrow> nat option" where
  "checked_add bound a b = (if a + b < bound then Some (a + b) else None)"

definition checked_sub :: "nat \<Rightarrow> nat \<Rightarrow> nat option" where
  "checked_sub a b = (if b \<le> a then Some (a - b) else None)"

definition checked_mul :: "nat \<Rightarrow> nat \<Rightarrow> nat \<Rightarrow> nat option" where
  "checked_mul bound a b = (if a * b < bound then Some (a * b) else None)"

definition addE :: "nat \<Rightarrow> nat \<Rightarrow> nat \<Rightarrow> nat res" where
  "addE bound a b = (if a + b < bound then Inr (a + b) else Inl Panic)"

definition subE :: "nat \<Rightarrow> nat \<Rightarrow> nat res" where
  "subE a b = (if b \<le> a then Inr (a - b) else Inl Panic)"

definition mulE :: "nat \<Rightarrow> nat \<Rightarrow> nat \<Rightarrow> nat res" where
  "mulE bound a b = (if a * b < bound then Inr (a * b) else Inl Panic)"

definition saturating_add :: "nat \<Rightarrow> nat \<Rightarrow> nat \<Rightarrow> nat" where
  "saturating_add bound a b = (if a + b < bound then a + b else bound - 1)"

definition saturating_mul :: "nat \<Rightarrow> nat \<Rightarrow> nat \<Rightarrow> nat" where
  "saturating_mul bound a b = (if a * b < bound then a * b else bound - 1)"

definition div_ceil :: "nat \<Rightarrow> nat \<Rightarrow> nat" where
  "div_ceil a b = (a + (b - 1)) div b"

lemma checked_add_eq [res_simps]: "checked_add w a b = Some c \<longleftrightarrow> a + b < w \<and> c = a + b"
  by (auto simp: checked_add_def)

lemma checked_add_None [res_simps]: "checked_add w a b = None \<longleftrightarrow> w \<le> a + b"
  by (auto simp: checked_add_def)

lemma checked_sub_eq [res_simps]: "checked_sub a b = Some c \<longleftrightarrow> b \<le> a \<and> c = a - b"
  by (auto simp: checked_sub_def)

lemma checked_mul_eq [res_simps]: "checked_mul w a b = Some c \<longleftrightarrow> a * b < w \<and> c = a * b"
  by (auto simp: checked_mul_def)

lemma addE_eq_Inr [res_simps]: "addE w a b = Inr c \<longleftrightarrow> a + b < w \<and> c = a + b"
  by (auto simp: addE_def)

lemma addE_eq_Inl [res_simps]: "addE w a b = Inl e \<longleftrightarrow> w \<le> a + b \<and> e = Panic"
  by (auto simp: addE_def)

lemma subE_eq_Inr [res_simps]: "subE a b = Inr c \<longleftrightarrow> b \<le> a \<and> c = a - b"
  by (auto simp: subE_def)

lemma subE_eq_Inl [res_simps]: "subE a b = Inl e \<longleftrightarrow> a < b \<and> e = Panic"
  by (auto simp: subE_def)

lemma mulE_eq_Inr [res_simps]: "mulE w a b = Inr c \<longleftrightarrow> a * b < w \<and> c = a * b"
  by (auto simp: mulE_def)

lemma mulE_eq_Inl [res_simps]: "mulE w a b = Inl e \<longleftrightarrow> w \<le> a * b \<and> e = Panic"
  by (auto simp: mulE_def)

section \<open>Byte strings\<close>

type_synonym byte = "8 word"
type_synonym bytes = "byte list"

definition be_nat :: "bytes \<Rightarrow> nat" where
  "be_nat bs = foldl (\<lambda>a b. a * 256 + unat b) 0 bs"

definition le_nat :: "bytes \<Rightarrow> nat" where
  "le_nat bs = be_nat (rev bs)"

fun be_bytes :: "nat \<Rightarrow> nat \<Rightarrow> bytes" where
  "be_bytes 0 n = []"
| "be_bytes (Suc w) n = be_bytes w (n div 256) @ [word_of_nat n]"

definition le_bytes :: "nat \<Rightarrow> nat \<Rightarrow> bytes" where
  "le_bytes w n = rev (be_bytes w n)"

lemma unat_byte_less [simp]: "unat (b :: byte) < 256"
  using unsigned_less [of b] by simp

lemma be_nat_Nil [simp, byte_simps]: "be_nat [] = 0"
  by (simp add: be_nat_def)

lemma be_nat_snoc [simp, byte_simps]: "be_nat (bs @ [b]) = be_nat bs * 256 + unat b"
  by (simp add: be_nat_def)

lemma be_bytes_length [simp, byte_simps]: "length (be_bytes w n) = w"
  by (induction w arbitrary: n) auto

lemma le_bytes_length [simp, byte_simps]: "length (le_bytes w n) = w"
  by (simp add: le_bytes_def)

lemma be_nat_bound: "be_nat bs < 256 ^ length bs"
proof (induction bs rule: rev_induct)
  case (snoc b bs)
  have "be_nat bs * 256 + unat b < (be_nat bs + 1) * 256"
    using unat_byte_less [of b] by (simp add: algebra_simps)
  also have "\<dots> \<le> 256 ^ length bs * 256"
    using snoc by (intro mult_le_mono1) simp
  finally show ?case by (simp add: mult.commute)
qed simp

lemma unat_word_of_nat_byte [simp]: "unat (word_of_nat n :: byte) = n mod 256"
  by (simp add: unat_of_nat)

lemma byte_mod: "unat (b :: byte) mod 256 = unat b"
  by simp

lemma be_nat_be_bytes [byte_simps]: "be_nat (be_bytes w n) = n mod 256 ^ w"
proof (induction w arbitrary: n)
  case (Suc w)
  have "n div 256 mod 256 ^ w * 256 + n mod 256 = n mod (256 * 256 ^ w)"
    by (simp add: mod_mult2_eq)
  then show ?case by (simp add: Suc)
qed simp

lemma be_bytes_be_nat [simp, byte_simps]: "be_bytes (length bs) (be_nat bs) = bs"
proof (induction bs rule: rev_induct)
  case (snoc b bs)
  have "(be_nat bs * 256 + unat b) div 256 = be_nat bs"
    using unat_byte_less [of b] by simp
  moreover have "word_of_nat (be_nat bs * 256 + unat b) = b"
    by (rule word_unat_eq_iff [THEN iffD2]) (simp only: unat_word_of_nat_byte mod_mult_self3 byte_mod)
  ultimately show ?case using snoc by simp
qed simp

lemma be_nat_inj: "length xs = length ys \<Longrightarrow> be_nat xs = be_nat ys \<Longrightarrow> xs = ys"
  by (metis be_bytes_be_nat)

lemma le_nat_bound: "le_nat bs < 256 ^ length bs"
  using be_nat_bound [of "rev bs"] by (simp add: le_nat_def)

lemma le_nat_le_bytes [byte_simps]: "n < 256 ^ w \<Longrightarrow> le_nat (le_bytes w n) = n"
  by (simp add: le_nat_def le_bytes_def be_nat_be_bytes)

lemma le_bytes_le_nat [simp, byte_simps]: "le_bytes (length bs) (le_nat bs) = bs"
  by (metis be_bytes_be_nat le_bytes_def le_nat_def length_rev rev_rev_ident)

lemma be_nat_append: "be_nat (xs @ ys) = be_nat xs * 256 ^ length ys + be_nat ys"
proof (induction ys rule: rev_induct)
  case (snoc b ys)
  then show ?case
    using be_nat_snoc [of "xs @ ys" b] by (simp add: algebra_simps)
qed simp

lemma be_nat_replicate_zero [simp]: "be_nat (replicate n 0) = 0"
proof (induction n)
  case (Suc n)
  have "be_nat (replicate (Suc n) 0) = be_nat (replicate n 0 @ [0])"
    by (simp add: replicate_append_same)
  then show ?case using Suc by simp
qed simp

lemma be_bytes_pad: "n < 256 ^ w \<Longrightarrow> be_bytes (k + w) n = replicate k 0 @ be_bytes w n"
proof -
  assume n: "n < 256 ^ w"
  also have "(256 :: nat) ^ w \<le> 256 ^ (k + w)" by (intro power_increasing) simp_all
  finally show ?thesis
    using n by (intro be_nat_inj) (simp_all add: be_nat_append be_nat_be_bytes)
qed

lemma list_all_replicate [simp]: "P x \<Longrightarrow> list_all P (replicate n x)"
  by (simp add: list_all_iff)

text \<open>Indexing ranges \<open>bs[a..b]\<close> panic outside the slice; \<open>bs.get(a..b)\<close> is an \<open>Option\<close>.\<close>

definition sub_bytes :: "'a list \<Rightarrow> nat \<Rightarrow> nat \<Rightarrow> 'a list" where
  "sub_bytes bs a b = take (b - a) (drop a bs)"

definition slice :: "'a list \<Rightarrow> nat \<Rightarrow> nat \<Rightarrow> 'a list res" where
  "slice bs a b = (if a \<le> b \<and> b \<le> length bs then Inr (sub_bytes bs a b) else Inl Panic)"

definition get_range :: "'a list \<Rightarrow> nat \<Rightarrow> nat \<Rightarrow> 'a list option" where
  "get_range bs a b = (if a \<le> b \<and> b \<le> length bs then Some (sub_bytes bs a b) else None)"

lemma slice_eq_Inr [res_simps]:
  "slice bs a b = Inr s \<longleftrightarrow> a \<le> b \<and> b \<le> length bs \<and> s = sub_bytes bs a b"
  by (auto simp: slice_def)

text \<open>Indexing panics outside the slice.\<close>

definition nthE :: "'a list \<Rightarrow> nat \<Rightarrow> 'a res" where
  "nthE xs i = (if i < length xs then Inr (xs ! i) else Inl Panic)"

lemma nthE_eq_Inr [res_simps]: "nthE xs i = Inr x \<longleftrightarrow> i < length xs \<and> x = xs ! i"
  by (auto simp: nthE_def)

lemma nthE_eq_Inl [res_simps]: "nthE xs i = Inl e \<longleftrightarrow> length xs \<le> i \<and> e = Panic"
  by (auto simp: nthE_def)

lemma nthE_ok [simp]: "i < length xs \<Longrightarrow> nthE xs i = Inr (xs ! i)"
  by (simp add: nthE_def)

lemma slice_eq_Inl [res_simps]:
  "slice bs a b = Inl e \<longleftrightarrow> \<not> (a \<le> b \<and> b \<le> length bs) \<and> e = Panic"
  by (auto simp: slice_def)

lemma slice_ok [simp]: "a \<le> b \<Longrightarrow> b \<le> length bs \<Longrightarrow> slice bs a b = Inr (sub_bytes bs a b)"
  by (simp add: slice_def)

lemma get_range_eq [res_simps]:
  "get_range bs a b = Some s \<longleftrightarrow> a \<le> b \<and> b \<le> length bs \<and> s = sub_bytes bs a b"
  by (auto simp: get_range_def)

lemma sub_bytes_length [simp, byte_simps]: "b \<le> length bs \<Longrightarrow> length (sub_bytes bs a b) = b - a"
  by (simp add: sub_bytes_def)

lemma sub_bytes_drop: "sub_bytes (drop c bs) a b = sub_bytes bs (c + a) (c + b)"
  by (simp add: sub_bytes_def add.commute)

lemma sub_bytes_append: "b \<le> length xs \<Longrightarrow> sub_bytes (xs @ ys) a b = sub_bytes xs a b"
  by (simp add: sub_bytes_def)

lemma sub_bytes_split: "a \<le> b \<Longrightarrow> b \<le> c \<Longrightarrow> sub_bytes bs a b @ sub_bytes bs b c = sub_bytes bs a c"
proof -
  assume "a \<le> b" "b \<le> c"
  then have "c - a = (b - a) + (c - b)" and "b = (b - a) + a" by simp_all
  then show ?thesis
    by (metis sub_bytes_def take_add drop_drop)
qed

text \<open>Decimal and hexadecimal text; \<open>str::as_bytes\<close>.\<close>

type_synonym str = string

definition digit_char :: "nat \<Rightarrow> char" where
  "digit_char n = char_of (48 + n)"

fun show_nat :: "nat \<Rightarrow> str" where
  "show_nat n = (if n < 10 then [digit_char n] else show_nat (n div 10) @ [digit_char (n mod 10)])"

declare show_nat.simps [simp del]

definition byte_of_char :: "char \<Rightarrow> byte" where
  "byte_of_char c = word_of_nat (of_char c)"

definition as_bytes :: "str \<Rightarrow> bytes" where
  "as_bytes s = map byte_of_char s"

definition is_ascii_digit :: "char \<Rightarrow> bool" where
  "is_ascii_digit c \<longleftrightarrow> 48 \<le> (of_char c :: nat) \<and> (of_char c :: nat) \<le> 57"

definition digit_value :: "char \<Rightarrow> nat" where
  "digit_value c = of_char c - 48"

text \<open>ASCII case folding of bytes (\<open>eq_ignore_ascii_case\<close>).\<close>

definition ascii_lower :: "byte \<Rightarrow> byte" where
  "ascii_lower b = (if 65 \<le> unat b \<and> unat b \<le> 90 then b + 32 else b)"

definition eq_ignore_ascii_case :: "bytes \<Rightarrow> bytes \<Rightarrow> bool" where
  "eq_ignore_ascii_case xs ys \<longleftrightarrow> map ascii_lower xs = map ascii_lower ys"

lemma inj_byte_of_char: "byte_of_char c = byte_of_char d \<Longrightarrow> c = d"
proof -
  assume "byte_of_char c = byte_of_char d"
  then have "unat (byte_of_char c) = unat (byte_of_char d)" by simp
  then show "c = d"
    by (simp add: byte_of_char_def unat_of_nat take_bit_eq_mod [symmetric] of_char_eq_iff
        flip: take_bit_eq_mod)
qed

lemma as_bytes_inj: "as_bytes s = as_bytes t \<Longrightarrow> s = t"
  by (simp add: as_bytes_def) (metis inj_byte_of_char inj_onI list.inj_map_strong)

lemma as_bytes_append: "as_bytes (s @ t) = as_bytes s @ as_bytes t"
  by (simp add: as_bytes_def)

definition strip_prefix :: "str \<Rightarrow> str \<Rightarrow> str option" where
  "strip_prefix p s = (if take (length p) s = p then Some (drop (length p) s) else None)"

lemma strip_prefix_eq: "strip_prefix p s = Some r \<longleftrightarrow> s = p @ r"
  by (auto simp: strip_prefix_def) (metis append_take_drop_id)

section \<open>Sorting\<close>

text \<open>
  \<open>sort_unstable\<close> by a total order: equal keys of the sources are equal values or cannot occur
  twice, so that insertion sort gives the same list.
\<close>

text \<open>The order of byte slices.\<close>

fun bytes_le :: "bytes \<Rightarrow> bytes \<Rightarrow> bool" where
  "bytes_le [] ys = True"
| "bytes_le (x # xs) [] = False"
| "bytes_le (x # xs) (y # ys) = (x < y \<or> (x = y \<and> bytes_le xs ys))"

fun insert_by :: "('a \<Rightarrow> 'a \<Rightarrow> bool) \<Rightarrow> 'a \<Rightarrow> 'a list \<Rightarrow> 'a list" where
  "insert_by le x [] = [x]"
| "insert_by le x (y # ys) = (if le x y then x # y # ys else y # insert_by le x ys)"

definition sort_by :: "('a \<Rightarrow> 'a \<Rightarrow> bool) \<Rightarrow> 'a list \<Rightarrow> 'a list" where
  "sort_by le xs = foldr (insert_by le) xs []"

lemma mset_sort_by [simp]: "mset (sort_by le xs) = mset xs"
proof -
  have "mset (insert_by le x ys) = add_mset x (mset ys)" for x ys
    by (induction ys) auto
  then show ?thesis by (induction xs) (auto simp: sort_by_def)
qed

lemma set_sort_by [simp]: "set (sort_by le xs) = set xs"
  by (metis mset_sort_by set_mset_mset)

lemma length_sort_by [simp]: "length (sort_by le xs) = length xs"
  by (metis mset_sort_by size_mset)

lemma sorted_sort_by:
  assumes "\<And>x y. le x y \<or> le y x" and "\<And>x y z. le x y \<Longrightarrow> le y z \<Longrightarrow> le x z"
  shows "sorted_wrt le (sort_by le xs)"
proof -
  have s: "set (insert_by le x ys) = insert x (set ys)" for x ys
    by (induction ys) auto
  have "sorted_wrt le (insert_by le x ys)" if "sorted_wrt le ys" for x ys
    using that
  proof (induction ys)
    case (Cons y ys)
    then show ?case using assms by (simp add: s) meson
  qed simp
  then show ?thesis by (induction xs) (auto simp: sort_by_def)
qed

lemma sorted_unique_by:
  assumes "sorted_wrt le xs" "sorted_wrt le ys" "mset xs = mset ys"
    and "\<And>x y. x \<in> set xs \<Longrightarrow> y \<in> set xs \<Longrightarrow> le x y \<Longrightarrow> le y x \<Longrightarrow> x = y"
  shows "xs = ys"
  using assms
proof (induction xs arbitrary: ys)
  case (Cons x xs)
  then obtain y zs where ys: "ys = y # zs" by (cases ys) auto
  have eq: "x = y"
  proof (rule ccontr)
    assume n: "x \<noteq> y"
    have "x \<in> set ys" "y \<in> set (x # xs)"
      using Cons.prems(3) ys by (metis list.set_intros(1) set_mset_mset)+
    then have "le y x" "le x y" using n ys Cons.prems(1,2) by auto
    then show False using n Cons.prems(4) \<open>y \<in> set (x # xs)\<close> by auto
  qed
  moreover have "xs = zs"
    by (rule Cons.IH) (use Cons.prems ys eq in auto)
  ultimately show ?case by (simp add: ys)
qed simp

lemma bytes_le_total: "bytes_le xs ys \<or> bytes_le ys xs"
  by (induction xs ys rule: bytes_le.induct) auto

lemma bytes_le_trans: "bytes_le xs ys \<Longrightarrow> bytes_le ys zs \<Longrightarrow> bytes_le xs zs"
proof (induction xs ys arbitrary: zs rule: bytes_le.induct)
  case (3 x xs y ys)
  then show ?case by (cases zs) auto
qed auto

lemma bytes_le_antisym: "bytes_le xs ys \<Longrightarrow> bytes_le ys xs \<Longrightarrow> xs = ys"
proof (induction xs ys rule: bytes_le.induct)
  case (1 ys)
  then show ?case by (cases ys) auto
qed auto

end
