(* ===== verification/Codec.thy ===== *)
theory Codec
  imports Prelude
begin

unbundle bit_operations_syntax

text \<open>
  The byte readers and text codecs of \<open>src/src/lib.rs\<close>: \<open>take\<close>, \<open>read_le_u16\<close>,
  \<open>read_le_u64\<close>, \<open>read_u256_usize\<close>, \<open>read_optional_32\<close>, \<open>read_avro_long\<close>,
  \<open>read_avro_length\<close>, \<open>note_to_u128\<close>, \<open>decode_b64\<close>, \<open>decode_fixed\<close>, \<open>parse_u128\<close>,
  \<open>hex\<close> and the hash wrappers.  The record \<open>deps\<close> collects the third-party functions
  (hashes, base64, big integers) as parameters.  The locale \<open>reader\<close> is the interface
  every cursor-based parser of the gateway keeps: it never panics, the cursor only moves
  forward and stays inside the buffer, and a successful read does not depend on what follows.
\<close>

section \<open>Third-party functions\<close>

record deps =
  x_sha256 :: "bytes \<Rightarrow> bytes"             \<comment> \<open>\<open>sha2::Sha256\<close>\<close>
  x_sha384 :: "bytes \<Rightarrow> bytes"             \<comment> \<open>\<open>sha2::Sha384\<close>\<close>
  x_keccak256 :: "bytes \<Rightarrow> bytes"          \<comment> \<open>\<open>sha3::Keccak256\<close>\<close>
  x_b64_decode :: "str \<Rightarrow> bytes option"    \<comment> \<open>\<open>URL_SAFE_NO_PAD.decode\<close>\<close>
  x_b64_encode :: "bytes \<Rightarrow> str"           \<comment> \<open>\<open>URL_SAFE_NO_PAD.encode\<close>\<close>
  x_big_parse :: "str \<Rightarrow> nat option"       \<comment> \<open>\<open>BigUint::parse_bytes(_, 10)\<close>\<close>
  x_big_bytes :: "nat \<Rightarrow> bytes"            \<comment> \<open>\<open>BigUint::to_bytes_be\<close>\<close>
  x_big_str :: "nat \<Rightarrow> str"                \<comment> \<open>\<open>BigUint::to_str_radix(10)\<close>\<close>

definition sha256 :: "deps \<Rightarrow> bytes list \<Rightarrow> bytes" where
  "sha256 E parts = x_sha256 E (concat parts)"

definition sha384 :: "deps \<Rightarrow> bytes list \<Rightarrow> bytes" where
  "sha384 E parts = x_sha384 E (concat parts)"

definition keccak256 :: "deps \<Rightarrow> bytes list \<Rightarrow> bytes" where
  "keccak256 E parts = x_keccak256 E (concat parts)"

text \<open>The documented output widths of the hash functions.\<close>

definition hash_widths :: "deps \<Rightarrow> bool" where
  "hash_widths E \<longleftrightarrow> (\<forall>x. length (x_sha256 E x) = 32) \<and> (\<forall>x. length (x_sha384 E x) = 48)
     \<and> (\<forall>x. length (x_keccak256 E x) = 32)"

lemma sha256_length [simp]: "hash_widths E \<Longrightarrow> length (sha256 E ps) = 32"
  by (simp add: sha256_def hash_widths_def)

lemma sha384_length [simp]: "hash_widths E \<Longrightarrow> length (sha384 E ps) = 48"
  by (simp add: sha384_def hash_widths_def)

lemma keccak256_length [simp]: "hash_widths E \<Longrightarrow> length (keccak256 E ps) = 32"
  by (simp add: keccak256_def hash_widths_def)

text \<open>Documented behaviour of the big-integer crate: it reads back what it and \<open>to_string\<close> write.\<close>

definition decimal_codec :: "deps \<Rightarrow> bool" where
  "decimal_codec E \<longleftrightarrow> (\<forall>n. x_big_parse E (show_nat n) = Some n \<and> be_nat (x_big_bytes E n) = n)"

section \<open>Reading at a cursor\<close>

definition take_bytes :: "bytes \<Rightarrow> nat \<Rightarrow> nat \<Rightarrow> String.literal \<Rightarrow> (bytes \<times> nat) res" where
  "take_bytes bs cursor len label =
     bindE (contextE (checked_add USIZE cursor len) (label + STR '' offset overflow'')) (\<lambda>end.
     bindE (contextE (get_range bs cursor end) (label + STR '' is truncated'')) (\<lambda>value.
     Inr (value, end)))"

definition read_le_u16 :: "bytes \<Rightarrow> nat \<Rightarrow> String.literal \<Rightarrow> (nat \<times> nat) res" where
  "read_le_u16 bs cursor label =
     bindE (take_bytes bs cursor 2 label) (\<lambda>(b, c). Inr (le_nat b, c))"

definition read_le_u64 :: "bytes \<Rightarrow> nat \<Rightarrow> String.literal \<Rightarrow> (nat \<times> nat) res" where
  "read_le_u64 bs cursor label =
     bindE (take_bytes bs cursor 8 label) (\<lambda>(b, c). Inr (le_nat b, c))"

definition read_optional_32 :: "bytes \<Rightarrow> nat \<Rightarrow> String.literal \<Rightarrow> (bytes \<times> nat) res" where
  "read_optional_32 bs cursor label =
     bindE (take_bytes bs cursor 1 label) (\<lambda>(b, c).
       if b ! 0 = 0 then Inr ([], c)
       else if b ! 0 = 1 then take_bytes bs c 32 label
       else Inl (Fail (label + STR '' flag is invalid'')))"

text \<open>
  The loop of \<open>read_avro_long\<close>, from \<open>index\<close> on: seven bits a byte, least significant
  first, at most ten bytes, the tenth at most 1; the accumulator is the \<open>u64\<close> \<open>encoded\<close>.
  The result is zig-zag decoded to an \<open>i64\<close>.
\<close>

definition zigzag_decode :: "64 word \<Rightarrow> int" where
  "zigzag_decode encoded = sint (drop_bit 1 encoded XOR (- (encoded AND 1)))"

fun read_avro_loop :: "nat \<Rightarrow> nat \<Rightarrow> 64 word \<Rightarrow> bytes \<Rightarrow> nat \<Rightarrow> (int \<times> nat) res" where
  "read_avro_loop 0 index encoded bs cursor = Inl (Fail STR ''Avro long is malformed'')"
| "read_avro_loop (Suc left) index encoded bs cursor =
     bindE (take_bytes bs cursor 1 STR ''Avro long'') (\<lambda>(b, c).
       let byte = b ! 0 in
       ensure (index = 9 \<longrightarrow> byte \<le> 1) STR ''Avro long overflows i64''
       (let encoded' = encoded OR push_bit (index * 7) (ucast (byte AND 0x7f)) in
        if byte AND 0x80 = 0 then Inr (zigzag_decode encoded', c)
        else read_avro_loop left (Suc index) encoded' bs c))"

definition read_avro_long :: "bytes \<Rightarrow> nat \<Rightarrow> (int \<times> nat) res" where
  "read_avro_long bs cursor = read_avro_loop 10 0 0 bs cursor"

text \<open>\<open>usize::try_from\<close> of a non-negative \<open>i64\<close> cannot fail on a 64-bit target.\<close>

definition read_avro_length :: "bytes \<Rightarrow> nat \<Rightarrow> String.literal \<Rightarrow> (nat \<times> nat) res" where
  "read_avro_length bs cursor label =
     bindE (read_avro_long bs cursor) (\<lambda>(n, c).
     ensure (0 \<le> n) (label + STR '' length is negative'')
     (ensure (nat n < USIZE) (label + STR '' length is too large'')
     (Inr (nat n, c))))"

section \<open>Fixed-width integers and text\<close>

definition read_u256_usize :: "bytes \<Rightarrow> String.literal \<Rightarrow> nat res" where
  "read_u256_usize bs label =
     ensure (length bs = 32) (label + STR '' has the wrong width'')
     (ensure (list_all (\<lambda>b. b = 0) (drop 8 bs)) (label + STR '' exceeds u64'')
     (ensure (le_nat (take 8 bs) < USIZE) (label + STR '' exceeds usize'')
     (Inr (le_nat (take 8 bs)))))"

definition NOTE_SIZE :: nat where "NOTE_SIZE = 32"

definition note_to_u128 :: "bytes \<Rightarrow> nat res" where
  "note_to_u128 note =
     ensure (length note = NOTE_SIZE) STR ''invalid Merkle note length''
     (ensure (list_all (\<lambda>b. b = 0) (take (NOTE_SIZE - 16) note)) STR ''Merkle note exceeds u128''
     (Inr (be_nat (drop (NOTE_SIZE - 16) note))))"

text \<open>\<open>transactions::note\<close>: the 32-byte big-endian note of a \<open>u128\<close>.\<close>

definition note_bytes :: "nat \<Rightarrow> bytes" where
  "note_bytes value = replicate 16 0 @ be_bytes 16 value"

definition decode_b64 :: "deps \<Rightarrow> str \<Rightarrow> String.literal \<Rightarrow> bytes res" where
  "decode_b64 E value label =
     bindE (contextE (x_b64_decode E value) (STR ''invalid base64url '' + label)) (\<lambda>decoded.
     ensure (x_b64_encode E decoded = value) (STR ''non-canonical base64url '' + label)
     (Inr decoded))"

definition decode_fixed :: "deps \<Rightarrow> nat \<Rightarrow> str \<Rightarrow> String.literal \<Rightarrow> bytes res" where
  "decode_fixed E n value label =
     bindE (decode_b64 E value label) (\<lambda>decoded.
     ensure (length decoded = n) (STR ''invalid '' + label + STR '' length'')
     (Inr decoded))"

text \<open>\<open>str::parse::<u128>\<close> of the standard library: an optional \<open>+\<close>, then digits, in range.\<close>

definition digits_value :: "str \<Rightarrow> nat" where
  "digits_value s = foldl (\<lambda>a c. a * 10 + digit_value c) 0 s"

definition parse_unsigned :: "nat \<Rightarrow> str \<Rightarrow> nat option" where
  "parse_unsigned bound s =
     (let d = (case s of c # r \<Rightarrow> if c = CHR ''+'' then r else s | [] \<Rightarrow> s) in
      if d \<noteq> [] \<and> list_all is_ascii_digit d \<and> digits_value d < bound
      then Some (digits_value d) else None)"

definition parse_u128 :: "str \<Rightarrow> String.literal \<Rightarrow> nat res" where
  "parse_u128 value label = contextE (parse_unsigned U128 value) (STR ''invalid '' + label)"

definition hex_digit :: "nat \<Rightarrow> char" where
  "hex_digit n = (if n < 10 then char_of (48 + n) else char_of (87 + n))"

definition hex :: "bytes \<Rightarrow> str" where
  "hex bs = concat (map (\<lambda>b. [hex_digit (unat b div 16), hex_digit (unat b mod 16)]) bs)"

section \<open>UTF-8\<close>

text \<open>\<open>std::str::from_utf8\<close>: the well-formed sequences of the Unicode standard.\<close>

definition cont :: "byte \<Rightarrow> bool" where
  "cont b \<longleftrightarrow> 0x80 \<le> b \<and> b \<le> 0xBF"

fun utf8_valid :: "bytes \<Rightarrow> bool" where
  "utf8_valid [] = True"
| "utf8_valid (b0 # r) =
     (if b0 < 0x80 then utf8_valid r
      else case r of
        [] \<Rightarrow> False
      | b1 # r1 \<Rightarrow>
          if 0xC2 \<le> b0 \<and> b0 \<le> 0xDF then cont b1 \<and> utf8_valid r1
          else case r1 of
            [] \<Rightarrow> False
          | b2 # r2 \<Rightarrow>
              if 0xE0 \<le> b0 \<and> b0 \<le> 0xEF
              then cont b1 \<and> (b0 = 0xE0 \<longrightarrow> 0xA0 \<le> b1) \<and> (b0 = 0xED \<longrightarrow> b1 \<le> 0x9F)
                     \<and> cont b2 \<and> utf8_valid r2
              else case r2 of
                [] \<Rightarrow> False
              | b3 # r3 \<Rightarrow>
                  0xF0 \<le> b0 \<and> b0 \<le> 0xF4 \<and> cont b1 \<and> (b0 = 0xF0 \<longrightarrow> 0x90 \<le> b1)
                    \<and> (b0 = 0xF4 \<longrightarrow> b1 \<le> 0x8F) \<and> cont b2 \<and> cont b3 \<and> utf8_valid r3)"

definition char_of_byte :: "byte \<Rightarrow> char" where
  "char_of_byte b = char_of (unat b)"

definition from_utf8 :: "bytes \<Rightarrow> str option" where
  "from_utf8 bs = (if utf8_valid bs then Some (map char_of_byte bs) else None)"

section \<open>The reader interface\<close>

locale reader =
  fixes rd :: "bytes \<Rightarrow> nat \<Rightarrow> ('a \<times> nat) res"
  assumes rd_advances: "c \<le> length bs \<Longrightarrow> rd bs c = Inr (v, c') \<Longrightarrow> c \<le> c' \<and> c' \<le> length bs"
    and rd_extend: "rd bs c = Inr (v, c') \<Longrightarrow> rd (bs @ ys) c = Inr (v, c')"
    and rd_no_panic: "rd bs c \<noteq> Inl Panic"
begin

lemma prefix_free:
  assumes "rd bs 0 = Inr (v, length bs)" and "rd bs' 0 = Inr (v', length bs')"
    and "bs @ ys = bs' @ ys'"
  shows "bs = bs' \<and> v = v'"
proof -
  from assms(1) have "rd (bs @ ys) 0 = Inr (v, length bs)" by (rule rd_extend)
  moreover from assms(2) have "rd (bs' @ ys') 0 = Inr (v', length bs')" by (rule rd_extend)
  ultimately have "length bs = length bs'" and "v = v'" using assms(3) by simp_all
  with assms(3) show ?thesis by simp
qed

end

text \<open>Reading a value \<open>n\<close> times, the loop \<open>for _ in 0..count\<close> around a reader.\<close>

fun read_times :: "(bytes \<Rightarrow> nat \<Rightarrow> ('a \<times> nat) res) \<Rightarrow> nat \<Rightarrow> bytes \<Rightarrow> nat \<Rightarrow> ('a list \<times> nat) res" where
  "read_times rd 0 bs c = Inr ([], c)"
| "read_times rd (Suc n) bs c =
     bindE (rd bs c) (\<lambda>(v, c'). bindE (read_times rd n bs c') (\<lambda>(vs, c''). Inr (v # vs, c'')))"

lemma reader_return: "reader (\<lambda>bs c. Inr (v, c))"
  by unfold_locales auto

lemma reader_fail: "reader (\<lambda>bs c. Inl (Fail m))"
  by unfold_locales auto

lemma reader_ensure: "reader r \<Longrightarrow> reader (\<lambda>bs c. ensure P m (r bs c))"
  by (cases P) (auto simp: reader_fail)

lemma reader_if: "reader r \<Longrightarrow> reader s \<Longrightarrow> reader (\<lambda>bs c. if P then r bs c else s bs c)"
  by (cases P) auto

lemma reader_bind:
  assumes "reader r" and "\<And>v. reader (s v)"
  shows "reader (\<lambda>bs c. bindE (r bs c) (\<lambda>(v, c'). s v bs c'))"
proof (unfold_locales, goal_cases)
  case (1 c bs v c')
  then obtain w d where "r bs c = Inr (w, d)" "s w bs d = Inr (v, c')"
    by (auto simp: res_simps)
  with assms 1(1) show ?case
    using reader.rd_advances [OF assms(1)] reader.rd_advances [OF assms(2)] by (meson le_trans)
next
  case (2 bs c v c' ys)
  then obtain w d where "r bs c = Inr (w, d)" "s w bs d = Inr (v, c')"
    by (auto simp: res_simps)
  then show ?case
    using reader.rd_extend [OF assms(1)] reader.rd_extend [OF assms(2)] by simp
next
  case (3 bs c)
  then show ?case
    using reader.rd_no_panic [OF assms(1)] reader.rd_no_panic [OF assms(2)]
    by (auto simp: res_simps)
qed

lemma reader_times: "reader r \<Longrightarrow> reader (read_times r n)"
proof (induction n)
  case 0
  then show ?case using reader_return by (simp add: fun_eq_iff eta_contract_eq)
next
  case (Suc n)
  then have "reader (\<lambda>bs c. bindE (r bs c) (\<lambda>(v, c').
      bindE (read_times r n bs c') (\<lambda>(vs, c''). Inr (v # vs, c''))))"
    by (intro reader_bind reader_return)
  then show ?case by simp
qed

lemma take_bytes_eq:
  "take_bytes bs c n lbl = Inr (v, c') \<longleftrightarrow>
     c + n < USIZE \<and> c + n \<le> length bs \<and> v = take n (drop c bs) \<and> c' = c + n"
  by (auto simp: take_bytes_def res_simps sub_bytes_def)

lemma take_bytes_not_panic [simp]: "take_bytes bs c n lbl \<noteq> Inl Panic"
  by (auto simp: take_bytes_def res_simps)

interpretation take_rd: reader "\<lambda>bs c. take_bytes bs c n lbl" for n lbl
  by unfold_locales (auto simp: take_bytes_eq)

lemmas reader_intros = reader_bind reader_return reader_fail reader_ensure reader_if
  take_rd.reader_axioms

interpretation u16_rd: reader "\<lambda>bs c. read_le_u16 bs c lbl" for lbl
  unfolding read_le_u16_def by (intro reader_intros)

interpretation u64_rd: reader "\<lambda>bs c. read_le_u64 bs c lbl" for lbl
  unfolding read_le_u64_def by (intro reader_intros)

interpretation opt32_rd: reader "\<lambda>bs c. read_optional_32 bs c lbl" for lbl
  unfolding read_optional_32_def by (intro reader_intros)

lemma avro_loop_reader: "reader (\<lambda>bs c. read_avro_loop n i e bs c)"
proof (induction n arbitrary: i e)
  case (Suc n)
  show ?case unfolding read_avro_loop.simps Let_def by (intro reader_intros Suc)
next
  case 0
  show ?case unfolding read_avro_loop.simps by (rule reader_fail)
qed

interpretation avro_long_rd: reader read_avro_long
  using avro_loop_reader [of 10 0 0] by (simp add: read_avro_long_def [abs_def])

interpretation avro_length_rd: reader "\<lambda>bs c. read_avro_length bs c lbl" for lbl
  unfolding read_avro_length_def by (intro reader_intros avro_long_rd.reader_axioms)

section \<open>Codec laws\<close>

lemma note_to_u128_eq:
  "note_to_u128 n = Inr v \<longleftrightarrow> v < U128 \<and> n = note_bytes v"
proof
  assume "note_to_u128 n = Inr v"
  then have l: "length n = 32" and z: "list_all (\<lambda>b. b = 0) (take 16 n)" and v: "v = be_nat (drop 16 n)"
    by (auto simp: note_to_u128_def NOTE_SIZE_def split: if_splits)
  have "take 16 n = replicate 16 0"
    using z l by (intro replicate_eqI) (auto simp: list_all_iff)
  moreover have "be_bytes 16 v = drop 16 n"
    using be_bytes_be_nat [of "drop 16 n"] l v by simp
  ultimately have "n = note_bytes v"
    unfolding note_bytes_def by (metis append_take_drop_id)
  moreover have "v < U128"
    using be_nat_bound [of "drop 16 n"] l v by (simp add: U128_def)
  ultimately show "v < U128 \<and> n = note_bytes v" by simp
next
  assume "v < U128 \<and> n = note_bytes v"
  then show "note_to_u128 n = Inr v"
    by (simp add: note_to_u128_def NOTE_SIZE_def note_bytes_def be_nat_be_bytes U128_def)
qed

lemma note_bytes_length [simp, byte_simps]: "length (note_bytes v) = 32"
  by (simp add: note_bytes_def)

lemma note_to_u128_no_panic [simp]: "note_to_u128 n \<noteq> Inl Panic"
  by (simp add: note_to_u128_def)

lemma note_bytes_inj: "note_bytes v = note_bytes w \<Longrightarrow> v < U128 \<Longrightarrow> w < U128 \<Longrightarrow> v = w"
  by (metis note_to_u128_eq Inr_inject)

lemma decode_b64_eq:
  "decode_b64 E v l = Inr d \<longleftrightarrow> x_b64_decode E v = Some d \<and> x_b64_encode E d = v"
  by (auto simp: decode_b64_def res_simps split: if_splits)

lemma decode_b64_inj: "decode_b64 E v l = Inr d \<Longrightarrow> decode_b64 E w l' = Inr d \<Longrightarrow> v = w"
  by (simp add: decode_b64_eq)

lemma decode_b64_no_panic [simp]: "decode_b64 E v l \<noteq> Inl Panic"
  by (auto simp: decode_b64_def res_simps)

lemma decode_fixed_eq:
  "decode_fixed E n v l = Inr d \<longleftrightarrow> decode_b64 E v l = Inr d \<and> length d = n"
  by (auto simp: decode_fixed_def res_simps split: if_splits)

lemma decode_fixed_no_panic [simp]: "decode_fixed E n v l \<noteq> Inl Panic"
  by (auto simp: decode_fixed_def res_simps)

lemma parse_u128_bound: "parse_u128 v l = Inr n \<Longrightarrow> n < U128"
  by (auto simp: parse_u128_def parse_unsigned_def res_simps Let_def split: if_splits)

lemma parse_u128_no_panic [simp]: "parse_u128 v l \<noteq> Inl Panic"
  by (simp add: parse_u128_def res_simps)

lemma read_u256_usize_eq:
  "read_u256_usize bs l = Inr n \<longleftrightarrow> n < USIZE \<and> bs = le_bytes 32 n"
proof
  assume "read_u256_usize bs l = Inr n"
  then have len: "length bs = 32" and z: "list_all (\<lambda>b. b = 0) (drop 8 bs)"
    and n: "n = le_nat (take 8 bs)" "n < USIZE"
    by (auto simp: read_u256_usize_def split: if_splits)
  have d: "drop 8 bs = replicate 24 0"
    using z len by (intro replicate_eqI) (auto simp: list_all_iff)
  have "le_nat bs = be_nat (rev (drop 8 bs) @ rev (take 8 bs))"
    unfolding le_nat_def by (metis append_take_drop_id rev_append)
  also have "\<dots> = n" by (simp add: be_nat_append d n le_nat_def)
  finally have "le_bytes 32 n = bs" using le_bytes_le_nat [of bs] len by simp
  with n show "n < USIZE \<and> bs = le_bytes 32 n" by simp
next
  assume a: "n < USIZE \<and> bs = le_bytes 32 n"
  then have len: "length bs = 32" by simp
  have "be_nat (be_bytes 32 n) = n" using a by (simp add: be_nat_be_bytes U64_def)
  have split: "le_bytes 32 n = le_bytes 8 n @ replicate 24 0"
    using be_bytes_pad [of n 8 24] a by (simp add: le_bytes_def U64_def)
  show "read_u256_usize bs l = Inr n"
    using a by (simp add: read_u256_usize_def split le_nat_le_bytes U64_def list_all_iff)
qed

lemma read_u256_usize_no_panic [simp]: "read_u256_usize bs l \<noteq> Inl Panic"
  by (simp add: read_u256_usize_def)

section \<open>Avro integers\<close>

lemma unat_low7: "unat ((b :: byte) AND 0x7f) = unat b mod 128"
proof -
  have "(0x7f :: byte) = mask 7" by (simp add: mask_eq_exp_minus_1)
  then have "b AND 0x7f = take_bit 7 b" by (simp add: take_bit_eq_mask)
  then have "unat (b AND 0x7f) = take_bit 7 (unat b)" by (simp only: unsigned_take_bit_eq)
  then show ?thesis by (simp add: take_bit_eq_mod)
qed

lemma high_bit_clear: "((b :: byte) AND 0x80 = 0) = (unat b < 128)"
proof -
  have "(0x80 :: byte) = push_bit 7 1" by simp
  have "b AND 0x80 = 0 \<longleftrightarrow> \<not> bit b 7"
    by (metis (no_types) \<open>0x80 = push_bit 7 1\<close> and_exp_eq_0_iff_not_bit push_bit_of_1)
  also have "\<dots> \<longleftrightarrow> unat b < 128"
  proof -
    have "bit b 7 \<longleftrightarrow> odd (unat b div 128)"
      by (simp add: bit_unsigned_iff flip: bit_iff_odd [of "unat b" 7, simplified])
    moreover have "unat b div 128 = 0 \<and> unat b < 128 \<or> unat b div 128 = 1 \<and> \<not> unat b < 128"
      using unat_byte_less [of b] by linarith
    ultimately show ?thesis by auto
  qed
  finally show ?thesis .
qed

lemma nat_or_disjoint: "(a::nat) < 2 ^ n \<Longrightarrow> a OR push_bit n b = a + push_bit n b"
proof -
  assume a: "a < 2 ^ n"
  have "\<not> bit a m \<or> \<not> bit (push_bit n b) m" for m
  proof (cases "m < n")
    case True
    then show ?thesis by (simp add: bit_push_bit_iff)
  next
    case False
    then have "a < 2 ^ m" using a
      by (meson le_trans not_le power_increasing one_le_numeral order_less_le_trans)
    then show ?thesis by (simp add: bit_iff_odd)
  qed
  then show ?thesis by (simp add: disjunctive_add)
qed

lemma avro_accumulate:
  assumes "unat (e :: 64 word) < 128 ^ i" and "(unat (b :: byte) mod 128) * 128 ^ i < 2 ^ 64"
  shows "unat (e OR push_bit (i * 7) (ucast (b AND 0x7f))) = unat e + (unat b mod 128) * 128 ^ i"
proof -
  have p: "(128::nat) ^ i = 2 ^ (i * 7)"
    by (simp add: power_mult mult.commute [of i])
  have "unat (ucast (b AND 0x7f) :: 64 word) = unat b mod 128"
    by (simp add: unat_low7 unsigned_ucast_eq take_bit_nat_eq_self)
  then have "unat (push_bit (i * 7) (ucast (b AND 0x7f)) :: 64 word) = push_bit (i * 7) (unat b mod 128)"
    using assms(2) p
    by (subst unsigned_push_bit_eq) (simp add: push_bit_eq_mult take_bit_nat_eq_self)
  then show ?thesis
    using assms(1) p by (simp only: unsigned_or_eq nat_or_disjoint) (simp add: push_bit_eq_mult)
qed

lemma zigzag_decode_nat:
  assumes "n < 2 ^ 64"
  shows "zigzag_decode (word_of_nat n) = (if even n then int (n div 2) else - int (n div 2) - 1)"
proof -
  let ?e = "word_of_nat n :: 64 word"
  have u: "unat ?e = n" using assms by (simp add: unat_of_nat)
  have d: "unat (drop_bit 1 ?e) = n div 2"
    using assms by (simp only: unsigned_drop_bit_eq u) (simp add: drop_bit_eq_div take_bit_nat_eq_self)
  have s: "sint (drop_bit 1 ?e) = int (n div 2)"
  proof -
    have "uint (drop_bit 1 ?e) = int (n div 2)" using d by (metis uint_nat)
    then show ?thesis using assms by (simp add: sint_uint signed_take_bit_int_eq_self)
  qed
  have o: "odd ?e \<longleftrightarrow> odd n"
    using bit_unsigned_iff [of ?e 0, where ?'a = nat] by (simp add: u bit_0)
  show ?thesis
  proof (cases "even n")
    case True
    then have "?e AND 1 = 0" using o by (simp add: and_one_eq mod_2_eq_odd) 
    then show ?thesis using True s by (simp add: zigzag_decode_def)
  next
    case False
    then have "?e AND 1 = 1" using o by (simp add: and_one_eq mod_2_eq_odd)
    moreover have "sint (NOT (drop_bit 1 ?e)) = - int (n div 2) - 1"
      using assms by (subst signed_not_eq) (simp add: s [simplified] not_int_def signed_take_bit_int_eq_self)
    ultimately show ?thesis using False by (simp add: zigzag_decode_def)
  qed
qed
text \<open>
  The reference encoding of an Avro \<open>long\<close>: zig-zag, then base 128, least significant group
  first, with the continuation bit on every byte but the last.
\<close>

fun varint :: "nat \<Rightarrow> bytes" where
  "varint n = (if n < 128 then [word_of_nat n] else word_of_nat (128 + n mod 128) # varint (n div 128))"
declare varint.simps [simp del]

definition zigzag :: "int \<Rightarrow> nat" where
  "zigzag i = (if 0 \<le> i then 2 * nat i else 2 * nat (- i) - 1)"

lemma zigzag_decode_zigzag:
  "- (2 ^ 63) \<le> i \<Longrightarrow> i < 2 ^ 63 \<Longrightarrow> zigzag_decode (word_of_nat (zigzag i)) = i"
proof -
  assume i: "- (2 ^ 63) \<le> i" "i < 2 ^ 63"
  then have "zigzag i < 2 ^ 64" by (auto simp: zigzag_def)
  moreover have "even (zigzag i) \<longleftrightarrow> 0 \<le> i" by (auto simp: zigzag_def)
  moreover have "\<not> 0 \<le> i \<Longrightarrow> int (zigzag i div 2) = - i - 1" by (simp add: zigzag_def)
  ultimately show ?thesis by (auto simp: zigzag_decode_nat zigzag_def)
qed

lemma read_avro_loop_varint:
  assumes "left + i = 10" and "unat e < 128 ^ i" and "unat e + n * 128 ^ i < 2 ^ 64"
    and "length pre + length (varint n) < USIZE" and "0 < left"
  shows "read_avro_loop left i e (pre @ varint n @ rest) (length pre) =
     Inr (zigzag_decode (word_of_nat (unat e + n * 128 ^ i)), length pre + length (varint n))"
  using assms
proof (induction left arbitrary: i e n pre)
  case (Suc left)
  have bound: "n * 128 ^ i < 2 ^ 64" using Suc.prems(3) by simp
  have lst: "i = 9 \<Longrightarrow> n < 2"
    using bound by (simp)
  define b :: byte where "b = (if n < 128 then word_of_nat n else word_of_nat (128 + n mod 128))"
  have ub: "unat b = (if n < 128 then n else 128 + n mod 128)"
    using unat_word_of_nat_byte [of n] unat_word_of_nat_byte [of "128 + n mod 128"]
    by (simp add: b_def del: unat_word_of_nat_byte of_nat_add)
  have lowb: "unat b mod 128 = n mod 128" by (simp add: ub)
  have vn: "varint n = b # (if n < 128 then [] else varint (n div 128))"
    by (subst varint.simps) (simp add: b_def)
  have tk: "take_bytes (pre @ varint n @ rest) (length pre) 1 lbl = Inr ([b], Suc (length pre))" for lbl
    using Suc.prems(4) by (auto simp: take_bytes_eq vn split: if_splits)
  have "n mod 128 * 128 ^ i \<le> n * 128 ^ i" by simp
  then have m: "n mod 128 * 128 ^ i < 2 ^ 64" using bound by (rule le_less_trans)
  let ?e = "e OR push_bit (i * 7) (ucast (b AND 0x7f)) :: 64 word"
  have acc: "unat ?e = unat e + n mod 128 * 128 ^ i"
    using avro_accumulate [of e i b] Suc.prems(2) m lowb by simp
  have nine: "i = 9 \<longrightarrow> b \<le> 1"
    using lst ub by (auto simp: word_le_nat_alt)
  show ?case
  proof (cases "n < 128")
    case True
    have "?e = word_of_nat (unat ?e)" by simp
    also have "unat ?e = unat e + n * 128 ^ i" using acc True by simp
    finally have "word_of_nat (unat e + n * 128 ^ i) = ?e" by (rule sym)
    then show ?thesis using True nine tk ub vn
      by (simp add: high_bit_clear Let_def del: of_nat_add of_nat_mult)
  next
    case False
    have "unat e + n mod 128 * 128 ^ i + n div 128 * 128 ^ Suc i = unat e + n * 128 ^ i"
    proof -
      have "n * 128 ^ i = (n div 128 * 128 + n mod 128) * 128 ^ i" by (simp only: div_mult_mod_eq)
      then show ?thesis by (simp only: distrib_right power_Suc mult.assoc add.assoc add.commute)
    qed
    moreover have "unat e + n mod 128 * 128 ^ i < 128 ^ Suc i"
    proof -
      have "n mod 128 * 128 ^ i \<le> 127 * 128 ^ i"
        using mod_less_divisor [of 128 n] by (intro mult_le_mono1) linarith
      with Suc.prems(2) have "unat e + n mod 128 * 128 ^ i < 128 ^ i + 127 * 128 ^ i" by linarith
      then show ?thesis by simp
    qed
    moreover have "0 < left" using False lst Suc.prems(1) by (cases left) auto
    moreover have "length (pre @ [b]) + length (varint (n div 128)) < USIZE"
      using Suc.prems(4) vn False by simp
    moreover have "left + Suc i = 10" using Suc.prems(1) by simp
    ultimately have IH: "read_avro_loop left (Suc i) ?e ((pre @ [b]) @ varint (n div 128) @ rest) (length (pre @ [b])) =
        Inr (zigzag_decode (word_of_nat (unat e + n * 128 ^ i)), length (pre @ [b]) + length (varint (n div 128)))"
      using Suc.IH [of "Suc i" ?e "n div 128" "pre @ [b]"] Suc.prems(3) acc by (simp only: acc)
    have "\<not> unat b < 128" using ub False by simp
    then have "read_avro_loop (Suc left) i e (pre @ varint n @ rest) (length pre) =
        read_avro_loop left (Suc i) ?e (pre @ varint n @ rest) (Suc (length pre))"
      using nine tk by (simp add: high_bit_clear Let_def del: varint.simps)
    with IH show ?thesis using vn False by simp
  qed
qed simp

lemma read_avro_long_varint:
  assumes "- (2 ^ 63) \<le> i" and "i < 2 ^ 63" and "length pre + length (varint (zigzag i)) < USIZE"
  shows "read_avro_long (pre @ varint (zigzag i) @ rest) (length pre) =
     Inr (i, length pre + length (varint (zigzag i)))"
proof -
  have "zigzag i < 2 ^ 64" using assms by (auto simp: zigzag_def)
  then show ?thesis
    using read_avro_loop_varint [of 10 0 0 "zigzag i" pre rest] assms
    by (simp add: read_avro_long_def zigzag_decode_zigzag)
qed

section \<open>Decimal text\<close>

lemma of_char_char_of_less: "n < 256 \<Longrightarrow> (of_char (char_of n) :: nat) = n"
  by (simp add: of_char_of)

lemma digit_char_ok [simp]: "k < 10 \<Longrightarrow> is_ascii_digit (digit_char k)" "k < 10 \<Longrightarrow> digit_value (digit_char k) = k"
  by (simp_all add: is_ascii_digit_def digit_value_def digit_char_def of_char_of)

lemma digits_value_snoc: "digits_value (s @ [c]) = digits_value s * 10 + digit_value c"
  by (simp add: digits_value_def)

lemma show_nat_ok: "show_nat n \<noteq> [] \<and> list_all is_ascii_digit (show_nat n) \<and> digits_value (show_nat n) = n"
proof (induction n rule: show_nat.induct)
  case (1 n)
  have d: "n mod 10 < 10" by simp
  show ?case
  proof (cases "n < 10")
    case True
    then show ?thesis by (subst (1 2 3) show_nat.simps) (simp add: digits_value_def)
  next
    case False
    then show ?thesis
      using 1 d by (subst (1 2 3) show_nat.simps) (simp add: digits_value_snoc)
  qed
qed

lemma show_nat_inj: "show_nat m = show_nat n \<Longrightarrow> m = n"
  by (metis show_nat_ok)

lemma parse_unsigned_show: "n < w \<Longrightarrow> parse_unsigned w (show_nat n) = Some n"
proof -
  assume "n < w"
  obtain c r where s: "show_nat n = c # r" using show_nat_ok [of n] by (cases "show_nat n") auto
  then have "is_ascii_digit c" using show_nat_ok [of n] by simp
  then have "c \<noteq> CHR ''+''" by (auto simp: is_ascii_digit_def)
  with s \<open>n < w\<close> show ?thesis using show_nat_ok [of n] by (simp add: parse_unsigned_def)
qed

lemma byte_of_char_of_byte [simp]: "byte_of_char (char_of_byte b) = b"
  by (simp add: byte_of_char_def char_of_byte_def)

end
