(* ===== verification/Merkle.thy ===== *)
theory Merkle
  imports Codec
begin

text \<open>
  Merkle proofs of \<open>src/src/lib.rs\<close>: the node hashes (\<open>hash_branch\<close>, \<open>hash_leaf\<close>), the
  transaction path of a block (\<open>validate_tx_path\<close>) and the data path of a transaction
  (\<open>validate_data_path\<close>, \<open>walk_rebased_data_path\<close>, \<open>walk_data_path\<close>, \<open>validate_split\<close>).
  Both walks refine one abstract descent through a parsed proof (\<open>descend\<close> over
  \<open>split_path\<close>); bounds and binding are proved there once.
\<close>

section \<open>Constants and node hashes\<close>

definition HASH_SIZE :: nat where "HASH_SIZE = 32"
definition BRANCH_SIZE :: nat where "BRANCH_SIZE = HASH_SIZE * 2 + NOTE_SIZE"
definition LEAF_SIZE :: nat where "LEAF_SIZE = HASH_SIZE + NOTE_SIZE"
definition MAX_CHUNK_SIZE :: nat where "MAX_CHUNK_SIZE = 256 * 1024"
definition STRICT_DATA_SPLIT_THRESHOLD :: nat where
  "STRICT_DATA_SPLIT_THRESHOLD = 30607159107830"
definition MERKLE_REBASE_SUPPORT_THRESHOLD :: nat where
  "MERKLE_REBASE_SUPPORT_THRESHOLD = 151066495197430"

lemmas size_defs = HASH_SIZE_def NOTE_SIZE_def BRANCH_SIZE_def LEAF_SIZE_def

definition hash_branch :: "deps \<Rightarrow> bytes \<Rightarrow> bytes \<Rightarrow> bytes \<Rightarrow> bytes" where
  "hash_branch E left right nt =
     (let left = sha256 E [left]; right = sha256 E [right]; nt = sha256 E [nt]
      in sha256 E [left, right, nt])"

definition hash_leaf :: "deps \<Rightarrow> bytes \<Rightarrow> bytes \<Rightarrow> bytes" where
  "hash_leaf E data_hash nt =
     (let data_hash = sha256 E [data_hash]; nt = sha256 E [nt] in sha256 E [data_hash, nt])"

section \<open>The transaction path\<close>

record TxPath =
  tp_data_root :: bytes
  tp_start_bound :: nat
  tp_end_offset :: nat
  tp_size :: nat

text \<open>
  The \<open>while\<close> loop of \<open>validate_tx_path\<close>: its state is the cursor, the hash the next node
  must have, and the bounds.
\<close>

function tx_walk ::
  "deps \<Rightarrow> bytes \<Rightarrow> nat \<Rightarrow> nat \<Rightarrow> bytes \<Rightarrow> nat \<Rightarrow> nat \<Rightarrow> (nat \<times> bytes \<times> nat \<times> nat) res" where
  "tx_walk E path target cursor current_hash left_bound right_bound =
     bindE (subE (length path) cursor) (\<lambda>remaining.
     if remaining > LEAF_SIZE then
       ensure (cursor + BRANCH_SIZE \<le> length path) STR ''truncated tx_path branch''
       (bindE (slice path cursor (cursor + HASH_SIZE)) (\<lambda>left.
        bindE (slice path (cursor + HASH_SIZE) (cursor + HASH_SIZE * 2)) (\<lambda>right.
        bindE (slice path (cursor + HASH_SIZE * 2) (cursor + BRANCH_SIZE)) (\<lambda>nt.
        ensure (hash_branch E left right nt = current_hash) STR ''invalid tx_path branch''
        (bindE (note_to_u128 nt) (\<lambda>offset.
         if target < offset
         then tx_walk E path target (cursor + BRANCH_SIZE) left left_bound (min right_bound offset)
         else tx_walk E path target (cursor + BRANCH_SIZE) right (max left_bound offset) right_bound))))))
     else Inr (cursor, current_hash, left_bound, right_bound))"
  by pat_completeness auto
termination
  by (relation "measure (\<lambda>(E, path, target, cursor, h, l, r). length path - cursor)")
    (auto simp: size_defs res_simps)

declare tx_walk.simps [simp del]

definition validate_tx_path ::
  "deps \<Rightarrow> bytes \<Rightarrow> nat \<Rightarrow> nat \<Rightarrow> nat \<Rightarrow> bytes \<Rightarrow> TxPath res" where
  "validate_tx_path E tx_root absolute_offset block_weave_size previous_weave_size path =
     ensure (length path \<ge> LEAF_SIZE) STR ''tx_path is too short''
     (ensure ((length path - LEAF_SIZE) mod BRANCH_SIZE = 0) STR ''tx_path length is malformed''
     (ensure (block_weave_size > previous_weave_size) STR ''invalid block size''
     (ensure (absolute_offset > previous_weave_size \<and> absolute_offset \<le> block_weave_size)
        STR ''requested offset is outside block''
     (bindE (subE block_weave_size previous_weave_size) (\<lambda>block_size.
      bindE (subE absolute_offset previous_weave_size) (\<lambda>above.
      bindE (subE above 1) (\<lambda>target.
      bindE (tx_walk E path target 0 tx_root 0 block_size)
        (\<lambda>(cursor, current_hash, left_bound, right_bound).
      ensure (cursor + LEAF_SIZE = length path) STR ''truncated tx_path leaf''
      (bindE (slice path cursor (cursor + HASH_SIZE)) (\<lambda>data_root.
       bindE (slice path (cursor + HASH_SIZE) (cursor + LEAF_SIZE)) (\<lambda>nt.
       ensure (hash_leaf E data_root nt = current_hash) STR ''invalid tx_path leaf''
       (bindE (note_to_u128 nt) (\<lambda>relative_end.
        ensure (relative_end > left_bound) STR ''tx_path has an empty transaction''
        (ensure (relative_end \<le> right_bound) STR ''tx_path end exceeds its branch''
        (bindE (addE U128 previous_weave_size left_bound) (\<lambda>start_bound.
         bindE (addE U128 previous_weave_size relative_end) (\<lambda>end_offset.
         bindE (subE relative_end left_bound) (\<lambda>size.
         Inr \<lparr>tp_data_root = data_root, tp_start_bound = start_bound,
              tp_end_offset = end_offset, tp_size = size\<rparr>))))))))))))))))))"

section \<open>The data path\<close>

datatype SplitCheck = NoCheck | Strict | Relaxed

record DataContext =
  dc_data_size :: nat
  dc_is_rightmost :: "bool option"
  dc_left_shift :: nat
  dc_check_borders :: bool
  dc_check_split :: SplitCheck
  dc_allow_rebase :: bool
  dc_rebase_depth :: nat

record DataPath =
  dp_start :: nat
  dp_end :: nat
  dp_data_hash :: bytes

definition validate_split ::
  "nat \<Rightarrow> nat \<Rightarrow> nat \<Rightarrow> bool option \<Rightarrow> DataContext \<Rightarrow> unit res" where
  "validate_split leaf_end left right is_rightmost context =
     (case dc_check_split context of
        NoCheck \<Rightarrow> Inr ()
      | Strict \<Rightarrow>
          ensure (leaf_end \<ge> left) STR ''invalid strict split bounds''
          (bindE (subE leaf_end left) (\<lambda>size.
           let valid =
             (if size = MAX_CHUNK_SIZE then left mod MAX_CHUNK_SIZE = 0
              else if leaf_end = dc_data_size context then
                (let border = (right div MAX_CHUNK_SIZE) * MAX_CHUNK_SIZE
                 in right mod MAX_CHUNK_SIZE \<noteq> 0 \<and> left \<le> border)
              else left mod MAX_CHUNK_SIZE = 0
                \<and> dc_data_size context - left > MAX_CHUNK_SIZE
                \<and> dc_data_size context - left < MAX_CHUNK_SIZE * 2)
           in ensure valid STR ''data_path violates strict data split'' (Inr ())))
      | Relaxed \<Rightarrow>
          bindE (addE U128 (dc_left_shift context) left) (\<lambda>shifted_left.
          bindE (addE U128 (dc_left_shift context) leaf_end) (\<lambda>shifted_end.
          let valid =
            (if is_rightmost = Some True then
               shifted_left mod MAX_CHUNK_SIZE = 0
               \<or> (shifted_left div MAX_CHUNK_SIZE + 1 = shifted_end div MAX_CHUNK_SIZE
                   \<and> shifted_end mod MAX_CHUNK_SIZE \<noteq> 0)
             else shifted_left mod MAX_CHUNK_SIZE = 0)
          in ensure valid STR ''data_path violates relaxed data split'' (Inr ()))))"

text \<open>The loop of \<open>walk_data_path\<close>: cursor, expected hash, bounds, rightmost flag.\<close>

function data_walk ::
  "deps \<Rightarrow> bytes \<Rightarrow> nat \<Rightarrow> nat \<Rightarrow> bytes \<Rightarrow> nat \<Rightarrow> nat \<Rightarrow> bool option
     \<Rightarrow> (nat \<times> bytes \<times> nat \<times> nat \<times> bool option) res" where
  "data_walk E path target cursor current_hash left right is_rightmost =
     bindE (subE (length path) cursor) (\<lambda>remaining.
     if remaining > LEAF_SIZE then
       ensure (cursor + BRANCH_SIZE \<le> length path) STR ''truncated data_path branch''
       (bindE (slice path cursor (cursor + HASH_SIZE)) (\<lambda>left_hash.
        bindE (slice path (cursor + HASH_SIZE) (cursor + HASH_SIZE * 2)) (\<lambda>right_hash.
        bindE (slice path (cursor + HASH_SIZE * 2) (cursor + BRANCH_SIZE)) (\<lambda>nt.
        ensure (hash_branch E left_hash right_hash nt = current_hash) STR ''invalid data_path branch''
        (bindE (note_to_u128 nt) (\<lambda>boundary.
         if target < boundary
         then data_walk E path target (cursor + BRANCH_SIZE) left_hash left (min right boundary)
                (Some False)
         else data_walk E path target (cursor + BRANCH_SIZE) right_hash (max left boundary) right
                (if is_rightmost = None then Some True else is_rightmost)))))))
     else Inr (cursor, current_hash, left, right, is_rightmost))"
  by pat_completeness auto
termination
  by (relation "measure (\<lambda>(E, path, target, cursor, h, l, r, m). length path - cursor)")
    (auto simp: size_defs res_simps)

declare data_walk.simps [simp del]

definition walk_data_path ::
  "deps \<Rightarrow> bytes \<Rightarrow> nat \<Rightarrow> nat \<Rightarrow> nat \<Rightarrow> bytes \<Rightarrow> DataContext \<Rightarrow> DataPath res" where
  "walk_data_path E root target left_bound right_bound path context =
     ensure (right_bound > 0) STR ''data_path has empty bounds''
     (bindE (data_walk E path target 0 root left_bound right_bound (dc_is_rightmost context))
        (\<lambda>(cursor, current_hash, left, right, is_rightmost).
      ensure (cursor + LEAF_SIZE = length path) STR ''truncated data_path leaf''
      (bindE (slice path cursor (cursor + HASH_SIZE)) (\<lambda>data_hash.
       bindE (slice path (cursor + HASH_SIZE) (cursor + LEAF_SIZE)) (\<lambda>nt.
       bindE (note_to_u128 nt) (\<lambda>leaf_end.
       ensure (hash_leaf E data_hash nt = current_hash) STR ''invalid data_path leaf''
       (ensure (dc_check_borders context \<longrightarrow>
           leaf_end - left \<le> MAX_CHUNK_SIZE \<and> right - left \<le> MAX_CHUNK_SIZE)
          STR ''data_path violates chunk borders''
       (bindE (validate_split leaf_end left right is_rightmost context) (\<lambda>_.
        bindE (addE U128 (dc_left_shift context) left) (\<lambda>start.
        bindE (addE U128 left 1) (\<lambda>next.
        bindE (addE U128 (dc_left_shift context) (max (min right leaf_end) next)) (\<lambda>end_offset.
        ensure (end_offset > start) STR ''data_path made no forward progress''
        (Inr \<lparr>dp_start = start, dp_end = end_offset, dp_data_hash = data_hash\<rparr>)))))))))))))"

function walk_rebased_data_path ::
  "deps \<Rightarrow> bytes option \<Rightarrow> nat \<Rightarrow> nat \<Rightarrow> nat \<Rightarrow> bytes \<Rightarrow> DataContext \<Rightarrow> DataPath res" where
  "walk_rebased_data_path E root target left_bound right_bound path context =
     (if \<not> (dc_allow_rebase context \<and> length path \<ge> 128
             \<and> list_all (\<lambda>b. b = 0) (take 32 path))
      then bindE (contextE root STR ''missing data_path root'') (\<lambda>root.
           walk_data_path E root target left_bound right_bound path context)
      else
        ensure (dc_rebase_depth context < 64) STR ''data_path rebasing depth exceeded''
        (bindE (slice path 32 64) (\<lambda>left.
         bindE (slice path 64 96) (\<lambda>right.
         bindE (slice path 96 128) (\<lambda>nt.
         ensure (case root of None \<Rightarrow> True | Some r \<Rightarrow> hash_branch E left right nt = r)
           STR ''invalid rebase branch''
         (bindE (note_to_u128 nt) (\<lambda>boundary.
          bindE
            (if target < boundary then
               (let adjusted = min right_bound boundary in
                ensure (adjusted \<ge> left_bound) STR ''invalid left rebase boundary''
                (bindE (contextE (checked_sub target left_bound) STR ''rebase target underflow'') (\<lambda>t.
                 bindE (subE adjusted left_bound) (\<lambda>r.
                 bindE (addE U128 (dc_left_shift context) left_bound) (\<lambda>s.
                 Inr (left, t, r, s))))))
             else
               (let adjusted = max left_bound boundary in
                ensure (right_bound \<ge> adjusted) STR ''invalid right rebase boundary''
                (bindE (contextE (checked_sub target adjusted) STR ''rebase target underflow'') (\<lambda>t.
                 bindE (subE right_bound adjusted) (\<lambda>r.
                 bindE (addE U128 (dc_left_shift context) adjusted) (\<lambda>s.
                 Inr (right, t, r, s)))))))
            (\<lambda>(next_root, next_target, next_right, next_shift).
          walk_rebased_data_path E (Some next_root) next_target 0 next_right (drop 128 path)
            (context\<lparr>dc_left_shift := next_shift, dc_is_rightmost := None,
                     dc_rebase_depth := dc_rebase_depth context + 1\<rparr>)))))))))"
  by pat_completeness auto
termination
  by (relation "measure (\<lambda>(E, root, t, l, r, path, c). length path)") (auto simp: res_simps)

declare walk_rebased_data_path.simps [simp del]

definition validate_data_path ::
  "deps \<Rightarrow> bytes \<Rightarrow> nat \<Rightarrow> nat \<Rightarrow> nat \<Rightarrow> bytes \<Rightarrow> DataPath res" where
  "validate_data_path E data_root data_size relative_offset absolute_offset path =
     ensure (data_size > 0) STR ''data_path has zero data size''
     (ensure (relative_offset < data_size) STR ''data_path offset is outside transaction''
     (ensure (length path \<ge> LEAF_SIZE) STR ''data_path is too short''
     (let (check_borders, check_split, allow_rebase) =
        (if absolute_offset \<ge> MERKLE_REBASE_SUPPORT_THRESHOLD then (True, Relaxed, True)
         else if absolute_offset \<ge> STRICT_DATA_SPLIT_THRESHOLD then (True, Strict, False)
         else (False, NoCheck, False))
      in walk_rebased_data_path E (Some data_root) relative_offset 0 data_size path
           \<lparr>dc_data_size = data_size, dc_is_rightmost = None, dc_left_shift = 0,
            dc_check_borders = check_borders, dc_check_split = check_split,
            dc_allow_rebase = allow_rebase, dc_rebase_depth = 0\<rparr>)))"

section \<open>Parsed proofs and the abstract descent\<close>

type_synonym branch = "bytes \<times> bytes \<times> bytes"

function split_path :: "bytes \<Rightarrow> branch list \<times> bytes" where
  "split_path bs =
     (if length bs \<ge> BRANCH_SIZE then
        (let (brs, rest) = split_path (drop BRANCH_SIZE bs)
         in ((sub_bytes bs 0 32, sub_bytes bs 32 64, sub_bytes bs 64 96) # brs, rest))
      else ([], bs))"
  by pat_completeness auto
termination
  by (relation "measure length") (auto simp: size_defs)

declare split_path.simps [simp del]

fun descend ::
  "deps \<Rightarrow> nat \<Rightarrow> branch list \<Rightarrow> bytes \<times> nat \<times> nat \<times> bool option
     \<Rightarrow> (bytes \<times> nat \<times> nat \<times> bool option) option" where
  "descend E t [] s = Some s"
| "descend E t ((l, r, n) # brs) (h, lb, rb, m) =
     (if hash_branch E l r n = h then
        (case note_to_u128 n of
           Inl _ \<Rightarrow> None
         | Inr off \<Rightarrow>
             if t < off then descend E t brs (l, lb, min rb off, Some False)
             else descend E t brs (r, max lb off, rb, if m = None then Some True else m))
      else None)"

lemma split_path_Cons:
  assumes "c + 96 \<le> length path"
  shows "split_path (drop c path) =
     ((sub_bytes path c (c + 32), sub_bytes path (c + 32) (c + 64), sub_bytes path (c + 64) (c + 96))
        # fst (split_path (drop (c + 96) path)), snd (split_path (drop (c + 96) path)))"
  using assms
  by (subst split_path.simps) (simp add: size_defs sub_bytes_drop split_beta add.commute)

lemma step_guard: "c + 96 \<le> (k :: nat) \<Longrightarrow> 64 < k - c"
  by linarith

lemma tx_walk_step:
  "c + 96 \<le> length path \<Longrightarrow> tx_walk E path t c h lb rb =
     (let l = sub_bytes path c (c + 32); r = sub_bytes path (c + 32) (c + 64);
          n = sub_bytes path (c + 64) (c + 96) in
      if hash_branch E l r n \<noteq> h then Inl (Fail STR ''invalid tx_path branch'')
      else bindE (note_to_u128 n) (\<lambda>off.
         if t < off then tx_walk E path t (c + 96) l lb (min rb off)
         else tx_walk E path t (c + 96) r (max lb off) rb))"
  by (subst tx_walk.simps, unfold size_defs Let_def) (simp add: subE_def step_guard cong: if_cong)

lemma tx_walk_stop:
  "c \<le> length path \<Longrightarrow> \<not> c + 96 \<le> length path \<Longrightarrow> tx_walk E path t c h lb rb =
     (if length path - c > 64 then Inl (Fail STR ''truncated tx_path branch'')
      else Inr (c, h, lb, rb))"
  by (subst tx_walk.simps) (auto simp add: subE_def size_defs Let_def)

lemma data_walk_step:
  "c + 96 \<le> length path \<Longrightarrow> data_walk E path t c h lb rb m =
     (let l = sub_bytes path c (c + 32); r = sub_bytes path (c + 32) (c + 64);
          n = sub_bytes path (c + 64) (c + 96) in
      if hash_branch E l r n \<noteq> h then Inl (Fail STR ''invalid data_path branch'')
      else bindE (note_to_u128 n) (\<lambda>off.
         if t < off then data_walk E path t (c + 96) l lb (min rb off) (Some False)
         else data_walk E path t (c + 96) r (max lb off) rb (if m = None then Some True else m)))"
  by (subst data_walk.simps, unfold size_defs Let_def) (simp add: subE_def step_guard cong: if_cong)

lemma data_walk_stop:
  "c \<le> length path \<Longrightarrow> \<not> c + 96 \<le> length path \<Longrightarrow> data_walk E path t c h lb rb m =
     (if length path - c > 64 then Inl (Fail STR ''truncated data_path branch'')
      else Inr (c, h, lb, rb, m))"
  by (subst data_walk.simps) (auto simp add: subE_def size_defs Let_def)

lemma split_path_stop: "length bs < 96 \<Longrightarrow> split_path bs = ([], bs)"
  by (subst split_path.simps) (simp add: size_defs)

text \<open>Cursor induction: from the end of the path backwards, in steps of a branch.\<close>

lemma cursor_induct [consumes 1, case_names stop step]:
  assumes "c \<le> length path"
    and stop: "\<And>c. c \<le> length path \<Longrightarrow> \<not> c + 96 \<le> length path \<Longrightarrow> P c"
    and step: "\<And>c. c + 96 \<le> length path \<Longrightarrow> P (c + 96) \<Longrightarrow> P c"
  shows "P c"
  using assms(1)
proof (induction "length path - c" arbitrary: c rule: less_induct)
  case less
  show ?case
  proof (cases "c + 96 \<le> length path")
    case True
    show ?thesis by (rule step [OF True], rule less) (use True in auto)
  next
    case False
    show ?thesis by (rule stop [OF less.prems False])
  qed
qed

theorem tx_walk_refines:
  assumes "c \<le> length path"
  shows "tx_walk E path t c h lb rb = Inr (c', h', lb', rb') \<longleftrightarrow>
     (\<exists>m'. descend E t (fst (split_path (drop c path))) (h, lb, rb, m) = Some (h', lb', rb', m'))
     \<and> length (snd (split_path (drop c path))) \<le> 64
     \<and> c' + length (snd (split_path (drop c path))) = length path"
  using assms
proof (induction c arbitrary: h lb rb m rule: cursor_induct)
  case (stop c)
  then show ?case by (auto simp: tx_walk_stop split_path_stop)
next
  case (step c)
  show ?case
    using step(1)
    by (cases "note_to_u128 (sub_bytes path (c + 64) (c + 96))")
      (simp_all add: tx_walk_step split_path_Cons Let_def step.IH)
qed

theorem data_walk_refines:
  assumes "c \<le> length path"
  shows "data_walk E path t c h lb rb m = Inr (c', h', lb', rb', m') \<longleftrightarrow>
     descend E t (fst (split_path (drop c path))) (h, lb, rb, m) = Some (h', lb', rb', m')
     \<and> length (snd (split_path (drop c path))) \<le> 64
     \<and> c' + length (snd (split_path (drop c path))) = length path"
  using assms
proof (induction c arbitrary: h lb rb m rule: cursor_induct)
  case (stop c)
  then show ?case by (auto simp: data_walk_stop split_path_stop)
next
  case (step c)
  show ?case
    using step(1)
    by (cases "note_to_u128 (sub_bytes path (c + 64) (c + 96))")
      (simp_all add: data_walk_step split_path_Cons Let_def step.IH)
qed

lemma tx_walk_no_panic: "c \<le> length path \<Longrightarrow> tx_walk E path t c h lb rb \<noteq> Inl Panic"
proof (induction c arbitrary: h lb rb rule: cursor_induct)
  case (stop c)
  then show ?case by (simp add: tx_walk_stop)
next
  case (step c)
  then show ?case by (auto simp: tx_walk_step Let_def res_simps)
qed

lemma data_walk_no_panic: "c \<le> length path \<Longrightarrow> data_walk E path t c h lb rb m \<noteq> Inl Panic"
proof (induction c arbitrary: h lb rb m rule: cursor_induct)
  case (stop c)
  then show ?case by (simp add: data_walk_stop)
next
  case (step c)
  then show ?case by (auto simp: data_walk_step Let_def res_simps)
qed

text \<open>The bounds of a descent bracket its target.\<close>

lemma descend_bounds:
  assumes "descend E t brs (h, lb, rb, m) = Some (h', lb', rb', m')"
    and "lb \<le> t" and "t < rb"
  shows "lb \<le> lb' \<and> lb' \<le> t \<and> t < rb' \<and> rb' \<le> rb"
  using assms
proof (induction brs arbitrary: h lb rb m)
  case (Cons b brs)
  obtain l r n where b: "b = (l, r, n)" by (cases b) auto
  from Cons.prems show ?case
    by (fastforce simp: b split: if_splits sum.splits dest: Cons.IH)
qed auto

section \<open>Collision freedom, bounds and binding of transaction paths\<close>

definition branch_inputs :: "deps \<Rightarrow> branch \<Rightarrow> bytes list" where
  "branch_inputs E = (\<lambda>(l, r, n). [l, r, n, sha256 E [l] @ sha256 E [r] @ sha256 E [n]])"

definition leaf_inputs :: "deps \<Rightarrow> bytes \<Rightarrow> bytes \<Rightarrow> bytes list" where
  "leaf_inputs E d n = [d, n, sha256 E [d] @ sha256 E [n]]"

definition path_inputs :: "deps \<Rightarrow> bytes \<Rightarrow> bytes list" where
  "path_inputs E path =
     concat (map (branch_inputs E) (fst (split_path path)))
     @ leaf_inputs E (take 32 (snd (split_path path))) (drop 32 (snd (split_path path)))"

definition collision_free :: "deps \<Rightarrow> bytes list \<Rightarrow> bool" where
  "collision_free E xs \<longleftrightarrow> inj_on (x_sha256 E) (set xs)"

lemma collision_freeD:
  "collision_free E xs \<Longrightarrow> x \<in> set xs \<Longrightarrow> y \<in> set xs \<Longrightarrow> x_sha256 E x = x_sha256 E y \<Longrightarrow> x = y"
  by (auto simp: collision_free_def dest: inj_onD)

lemma collision_free_sha:
  "collision_free E xs \<Longrightarrow> x \<in> set xs \<Longrightarrow> y \<in> set xs \<Longrightarrow> sha256 E [x] = sha256 E [y] \<Longrightarrow> x = y"
  by (simp add: sha256_def collision_freeD)

lemma split_path_suffix: "\<exists>k \<le> length bs. snd (split_path bs) = drop k bs"
proof (induction bs rule: split_path.induct)
  case (1 bs)
  show ?case
  proof (cases "length bs \<ge> BRANCH_SIZE")
    case True
    then obtain k where "k \<le> length (drop BRANCH_SIZE bs)"
      "snd (split_path (drop BRANCH_SIZE bs)) = drop k (drop BRANCH_SIZE bs)"
      using 1 by blast
    with True show ?thesis
      by (intro exI [of _ "k + BRANCH_SIZE"]) (simp add: split_path.simps [of bs] split_beta)
  next
    case False
    then show ?thesis by (intro exI [of _ 0]) (simp add: split_path.simps [of bs])
  qed
qed

lemma split_path_length: "length bs = 96 * length (fst (split_path bs)) + length (snd (split_path bs))"
proof (induction bs rule: split_path.induct)
  case (1 bs)
  then show ?case
    by (subst (1 2) split_path.simps) (auto simp: size_defs split_beta Let_def)
qed

lemma split_path_rest:
  assumes "c + length (snd (split_path path)) = length path"
  shows "snd (split_path path) = drop c path"
proof -
  obtain k where k: "k \<le> length path" "snd (split_path path) = drop k path"
    using split_path_suffix by blast
  with assms have "c + (length path - k) = length path" by simp
  with k have "c = k" by linarith
  with k show ?thesis by simp
qed

lemma hash_branch_inj:
  assumes "hash_widths E" "collision_free E xs"
    and "set (branch_inputs E (l, r, n)) \<subseteq> set xs" "set (branch_inputs E (l', r', n')) \<subseteq> set xs"
    and eq: "hash_branch E l r n = hash_branch E l' r' n'"
  shows "l = l' \<and> r = r' \<and> n = n'"
proof -
  have "sha256 E [l] @ sha256 E [r] @ sha256 E [n] = sha256 E [l'] @ sha256 E [r'] @ sha256 E [n']"
    using eq assms(3,4)
    by - (rule collision_freeD [OF assms(2)],
      auto simp: branch_inputs_def hash_branch_def sha256_def Let_def)
  then have "sha256 E [l] = sha256 E [l'] \<and> sha256 E [r] = sha256 E [r'] \<and> sha256 E [n] = sha256 E [n']"
    using assms(1) by simp
  then show ?thesis
    using assms(3,4) by (simp add: branch_inputs_def) (meson collision_free_sha [OF assms(2)])
qed

lemma hash_leaf_inj:
  assumes "hash_widths E" "collision_free E xs"
    and "set (leaf_inputs E d n) \<subseteq> set xs" "set (leaf_inputs E d' n') \<subseteq> set xs"
    and eq: "hash_leaf E d n = hash_leaf E d' n'"
  shows "d = d' \<and> n = n'"
proof -
  have "sha256 E [d] @ sha256 E [n] = sha256 E [d'] @ sha256 E [n']"
    using eq assms(3,4)
    by - (rule collision_freeD [OF assms(2)],
      auto simp: leaf_inputs_def hash_leaf_def sha256_def Let_def)
  then have "sha256 E [d] = sha256 E [d'] \<and> sha256 E [n] = sha256 E [n']"
    using assms(1) by simp
  then show ?thesis
    using assms(3,4) by (simp add: leaf_inputs_def) (meson collision_free_sha [OF assms(2)])
qed

text \<open>Leaf inputs have 64 bytes, branch inputs 96: a leaf never passes for a branch.\<close>

lemma hash_branch_not_leaf:
  assumes "hash_widths E" "collision_free E xs"
    and "set (branch_inputs E (l, r, n)) \<subseteq> set xs" "set (leaf_inputs E d m) \<subseteq> set xs"
  shows "hash_branch E l r n \<noteq> hash_leaf E d m"
proof
  assume "hash_branch E l r n = hash_leaf E d m"
  then have "sha256 E [l] @ sha256 E [r] @ sha256 E [n] = sha256 E [d] @ sha256 E [m]"
    using assms(3,4)
    by - (rule collision_freeD [OF assms(2)],
      auto simp: branch_inputs_def leaf_inputs_def hash_branch_def hash_leaf_def sha256_def Let_def)
  then have "length (sha256 E [l] @ sha256 E [r] @ sha256 E [n]) = length (sha256 E [d] @ sha256 E [m])"
    by simp
  then show False using assms(1) by simp
qed

lemma descend_binding:
  assumes w: "hash_widths E" and cf: "collision_free E xs"
    and "\<And>b. b \<in> set brs \<union> set brs' \<Longrightarrow> set (branch_inputs E b) \<subseteq> set xs"
    and leaves: "set (leaf_inputs E d n) \<subseteq> set xs" "set (leaf_inputs E d' n') \<subseteq> set xs"
    and "descend E t brs (h, lb, rb, m) = Some (hash_leaf E d n, lb1, rb1, m1)"
    and "descend E t brs' (h, lb, rb, m) = Some (hash_leaf E d' n', lb2, rb2, m2)"
  shows "brs = brs' \<and> d = d' \<and> n = n'"
  using assms(3,6,7)
proof (induction brs arbitrary: brs' h lb rb m)
  case Nil
  then have h: "h = hash_leaf E d n" by simp
  show ?case
  proof (cases brs')
    case Nil
    with h Nil.prems have "hash_leaf E d n = hash_leaf E d' n'" by simp
    with Nil show ?thesis using hash_leaf_inj [OF w cf leaves] by simp
  next
    case (Cons b cs)
    obtain l r k where "b = (l, r, k)" by (cases b) auto
    with Cons h Nil.prems show ?thesis
      using hash_branch_not_leaf [OF w cf _ leaves(1), of l r k] by (auto split: if_splits)
  qed
next
  case (Cons b cs)
  obtain l r k where b: "b = (l, r, k)" by (cases b) auto
  from Cons.prems(2) b have h: "hash_branch E l r k = h" by (simp split: if_splits)
  show ?case
  proof (cases brs')
    case Nil
    with h Cons.prems b show ?thesis
      using hash_branch_not_leaf [OF w cf _ leaves(2), of l r k] by auto
  next
    case c: (Cons b' cs')
    obtain l' r' k' where b': "b' = (l', r', k')" by (cases b') auto
    from Cons.prems(3) c b' have h': "hash_branch E l' r' k' = h" by (simp split: if_splits)
    have eq: "l = l'" "r = r'" "k = k'"
      using hash_branch_inj [OF w cf, of l r k l' r' k'] h h' Cons.prems(1) b b' c by auto
    from h Cons.prems(2) b obtain off where off: "note_to_u128 k = Inr off"
      by (auto split: sum.splits)
    have sub: "set (branch_inputs E x) \<subseteq> set xs" if "x \<in> set cs \<union> set cs'" for x
      using that Cons.prems(1) [of x] c by auto
    show ?thesis
    proof (cases "t < off")
      case True
      with Cons.prems(2,3) b b' c h h' eq off Cons.IH [OF sub] show ?thesis by simp
    next
      case False
      with Cons.prems(2,3) b b' c h h' eq off Cons.IH [OF sub] show ?thesis by simp
    qed
  qed
qed

text \<open>What an accepted transaction path says, over the parsed proof.\<close>

lemma validate_tx_path_parsed:
  assumes "validate_tx_path E root off bws pws path = Inr p"
  obtains brs leaf h lb rb m e where
    "split_path path = (brs, leaf)" "length leaf = 64"
    "descend E (off - pws - 1) brs (root, 0, bws - pws, None) = Some (h, lb, rb, m)"
    "h = hash_leaf E (take 32 leaf) (drop 32 leaf)"
    "note_to_u128 (drop 32 leaf) = Inr e" "lb < e" "e \<le> rb"
    "pws < off" "off \<le> bws" "pws + e < U128"
    "p = \<lparr>tp_data_root = take 32 leaf, tp_start_bound = pws + lb, tp_end_offset = pws + e, tp_size = e - lb\<rparr>"
proof -
  obtain brs leaf where sp: "split_path path = (brs, leaf)" by (cases "split_path path") auto
  from assms obtain c h lb rb e where
    len: "length path \<ge> 64" "pws < off" "off \<le> bws"
    and walk: "tx_walk E path (off - pws - 1) 0 root 0 (bws - pws) = Inr (c, h, lb, rb)"
    and c: "c + 64 = length path"
    and leaf: "hash_leaf E (sub_bytes path c (c + 32)) (sub_bytes path (c + 32) (c + 64)) = h"
      "note_to_u128 (sub_bytes path (c + 32) (c + 64)) = Inr e" "lb < e" "e \<le> rb" "pws + e < U128"
    and p: "p = \<lparr>tp_data_root = sub_bytes path c (c + 32), tp_start_bound = pws + lb,
        tp_end_offset = pws + e, tp_size = e - lb\<rparr>"
    unfolding validate_tx_path_def size_defs by (auto simp: res_simps split: if_splits)
  from walk sp obtain m where
    m: "descend E (off - pws - 1) brs (root, 0, bws - pws, None) = Some (h, lb, rb, m)"
    and "c + length leaf = length path"
    using tx_walk_refines [of 0 path E "off - pws - 1" root 0 "bws - pws" c h lb rb None] by auto
  then have d: "drop c path = leaf" and l: "length leaf = 64"
    using c sp split_path_rest [of c path] by auto
  have s: "sub_bytes path c (c + 32) = take 32 leaf" "sub_bytes path (c + 32) (c + 64) = drop 32 leaf"
    using d l by (auto simp: sub_bytes_def add.commute)
  show thesis
    by (rule that [OF sp l m _ _ leaf(3,4) len(2,3) leaf(5)]) (use leaf s p in simp_all)
qed

text \<open>Two accepted paths for one offset of one block prove the same transaction.\<close>

lemma validate_tx_path_parses:
  "validate_tx_path E root off bws pws path = Inr p \<longleftrightarrow>
     pws < off \<and> off \<le> bws \<and>
     (\<exists>brs d n lb rb m e. split_path path = (brs, d @ n) \<and> length d = 32 \<and> length n = 32
        \<and> descend E (off - pws - 1) brs (root, 0, bws - pws, None) = Some (hash_leaf E d n, lb, rb, m)
        \<and> note_to_u128 n = Inr e \<and> lb < e \<and> e \<le> rb \<and> pws + e < U128
        \<and> p = \<lparr>tp_data_root = d, tp_start_bound = pws + lb, tp_end_offset = pws + e, tp_size = e - lb\<rparr>)"
  (is "?L \<longleftrightarrow> ?R")
proof
  assume ?L
  then show ?R
  proof (rule validate_tx_path_parsed)
    fix brs leaf h lb rb m e
    assume "split_path path = (brs, leaf)" "length leaf = 64"
      "descend E (off - pws - 1) brs (root, 0, bws - pws, None) = Some (h, lb, rb, m)"
      "h = hash_leaf E (take 32 leaf) (drop 32 leaf)"
      "note_to_u128 (drop 32 leaf) = Inr e" "lb < e" "e \<le> rb" "pws < off" "off \<le> bws" "pws + e < U128"
      "p = \<lparr>tp_data_root = take 32 leaf, tp_start_bound = pws + lb, tp_end_offset = pws + e, tp_size = e - lb\<rparr>"
    then show ?R
      by (intro conjI exI [of _ brs] exI [of _ "take 32 leaf"] exI [of _ "drop 32 leaf"] exI [of _ lb]
          exI [of _ rb] exI [of _ m] exI [of _ e]) simp_all
  qed
next
  assume ?R
  then obtain brs d n lb rb m e where b: "pws < off" "off \<le> bws"
    and sp: "split_path path = (brs, d @ n)" and l: "length d = 32" "length n = 32"
    and walk: "descend E (off - pws - 1) brs (root, 0, bws - pws, None) = Some (hash_leaf E d n, lb, rb, m)"
    and e: "note_to_u128 n = Inr e" "lb < e" "e \<le> rb" "pws + e < U128"
    and p: "p = \<lparr>tp_data_root = d, tp_start_bound = pws + lb, tp_end_offset = pws + e, tp_size = e - lb\<rparr>"
    by blast
  have len: "length path = 96 * length brs + 64" using split_path_length [of path] sp l by simp
  have w: "tx_walk E path (off - pws - 1) 0 root 0 (bws - pws) = Inr (96 * length brs, hash_leaf E d n, lb, rb)"
    using tx_walk_refines [of 0 path E "off - pws - 1" root 0 "bws - pws" _ _ _ _ None, THEN iffD2] walk sp l len by auto
  have "drop (96 * length brs) path = d @ n" using split_path_rest [of "96 * length brs" path] sp len l by simp
  then have sub: "sub_bytes path (96 * length brs) (96 * length brs + 32) = d"
    "sub_bytes path (96 * length brs + 32) (96 * length brs + 64) = n"
    using l by (auto simp: sub_bytes_def add.commute simp flip: drop_drop)
  show ?L
    unfolding validate_tx_path_def size_defs
    using b w sub e len by (simp add: subE_def addE_def p)
qed

lemma tx_path_binding_aux:
  assumes "hash_widths E" and "collision_free E (path_inputs E path @ path_inputs E path')"
    and "validate_tx_path E root off bws pws path = Inr p"
    and "validate_tx_path E root off bws pws path' = Inr p'"
  shows "p = p'"
proof -
  from assms(3) obtain brs leaf h lb rb m e where
    1: "split_path path = (brs, leaf)" "length leaf = 64"
    "descend E (off - pws - 1) brs (root, 0, bws - pws, None) = Some (h, lb, rb, m)"
    "h = hash_leaf E (take 32 leaf) (drop 32 leaf)" "note_to_u128 (drop 32 leaf) = Inr e"
    "p = \<lparr>tp_data_root = take 32 leaf, tp_start_bound = pws + lb, tp_end_offset = pws + e, tp_size = e - lb\<rparr>"
    by (rule validate_tx_path_parsed)
  from assms(4) obtain brs' leaf' h' lb' rb' m' e' where
    2: "split_path path' = (brs', leaf')" "length leaf' = 64"
    "descend E (off - pws - 1) brs' (root, 0, bws - pws, None) = Some (h', lb', rb', m')"
    "h' = hash_leaf E (take 32 leaf') (drop 32 leaf')" "note_to_u128 (drop 32 leaf') = Inr e'"
    "p' = \<lparr>tp_data_root = take 32 leaf', tp_start_bound = pws + lb', tp_end_offset = pws + e', tp_size = e' - lb'\<rparr>"
    by (rule validate_tx_path_parsed)
  have "brs = brs' \<and> take 32 leaf = take 32 leaf' \<and> drop 32 leaf = drop 32 leaf'"
    using 1(1,3,4) 2(1,3,4)
    by (intro descend_binding [OF assms(1,2)]) (auto simp: path_inputs_def)
  with 1 2 show ?thesis by simp
qed

lemma validate_tx_path_bounds_aux:
  assumes "validate_tx_path E root off bws pws path = Inr p"
  shows "pws \<le> tp_start_bound p \<and> tp_start_bound p < off \<and> tp_start_bound p < tp_end_offset p
    \<and> tp_end_offset p \<le> bws \<and> tp_start_bound p + tp_size p = tp_end_offset p"
  using assms
proof (rule validate_tx_path_parsed)
  fix brs leaf h lb rb m e
  assume "descend E (off - pws - 1) brs (root, 0, bws - pws, None) = Some (h, lb, rb, m)"
    "lb < e" "e \<le> rb" "pws < off" "off \<le> bws"
    "p = \<lparr>tp_data_root = take 32 leaf, tp_start_bound = pws + lb, tp_end_offset = pws + e, tp_size = e - lb\<rparr>"
  then show ?thesis
    using descend_bounds [of E "off - pws - 1" brs root 0 "bws - pws" None h lb rb m] by simp linarith
qed

lemma tx_walk_bounds:
  assumes "tx_walk E path t 0 h lb rb = Inr (c, h', lb', rb')" and "lb \<le> t" and "t < rb"
  shows "lb \<le> lb' \<and> lb' \<le> t \<and> t < rb' \<and> rb' \<le> rb"
proof -
  obtain m where "descend E t (fst (split_path path)) (h, lb, rb, None) = Some (h', lb', rb', m)"
    using assms(1) tx_walk_refines [of 0 path E t h lb rb c h' lb' rb' None] by auto
  then show ?thesis using assms(2,3) by (rule descend_bounds)
qed

lemma validate_tx_path_no_panic_aux:
  assumes "bws < U128"
  shows "validate_tx_path E root off bws pws path \<noteq> Inl Panic"
proof
  assume P: "validate_tx_path E root off bws pws path = Inl Panic"
  show False
  proof (cases "length path \<ge> 64 \<and> pws < off \<and> off \<le> bws")
    case False
    with P show False by (auto simp: validate_tx_path_def size_defs res_simps split: if_splits)
  next
    case True
    have bd: "rb \<le> bws - pws"
      if "tx_walk E path (off - Suc pws) 0 root 0 (bws - pws) = Inr (c, h, lb, rb)" for c h lb rb
      using tx_walk_bounds [OF that] True by linarith
    from P True show False
      using tx_walk_no_panic [of 0 path] assms
      by (auto simp: validate_tx_path_def size_defs res_simps split: if_splits dest!: bd)
  qed
qed

section \<open>Data paths: one level\<close>

definition rebased :: "bool \<Rightarrow> bytes \<Rightarrow> bool" where
  "rebased allow path \<longleftrightarrow> allow \<and> length path \<ge> 128 \<and> list_all (\<lambda>b. b = 0) (take 32 path)"

text \<open>The number of rebase headers a data path opens with.\<close>

function rebase_headers :: "bool \<Rightarrow> bytes \<Rightarrow> nat" where
  "rebase_headers allow path =
     (if rebased allow path then Suc (rebase_headers allow (drop 128 path)) else 0)"
  by pat_completeness auto
termination by (relation "measure (\<lambda>(a, p). length p)") (auto simp: rebased_def)

declare rebase_headers.simps [simp del]

function data_inputs :: "deps \<Rightarrow> bool \<Rightarrow> bytes \<Rightarrow> bytes list" where
  "data_inputs E allow path =
     (if rebased allow path
      then branch_inputs E (sub_bytes path 32 64, sub_bytes path 64 96, sub_bytes path 96 128)
             @ data_inputs E allow (drop 128 path)
      else path_inputs E path)"
  by pat_completeness auto
termination by (relation "measure (\<lambda>(E, a, p). length p)") (auto simp: rebased_def)

declare data_inputs.simps [simp del]

lemma walk_data_path_parsed:
  assumes "walk_data_path E root t lb rb path ctx = Inr d"
  obtains brs leaf h lb' rb' m e where
    "split_path path = (brs, leaf)" "length leaf = 64"
    "descend E t brs (root, lb, rb, dc_is_rightmost ctx) = Some (h, lb', rb', m)"
    "h = hash_leaf E (take 32 leaf) (drop 32 leaf)"
    "note_to_u128 (drop 32 leaf) = Inr e"
    "dc_check_borders ctx \<Longrightarrow> e - lb' \<le> MAX_CHUNK_SIZE \<and> rb' - lb' \<le> MAX_CHUNK_SIZE"
    "validate_split e lb' rb' m ctx = Inr ()"
    "d = \<lparr>dp_start = dc_left_shift ctx + lb',
          dp_end = dc_left_shift ctx + max (min rb' e) (lb' + 1), dp_data_hash = take 32 leaf\<rparr>"
proof -
  obtain brs leaf where sp: "split_path path = (brs, leaf)" by (cases "split_path path") auto
  from assms obtain c h lb' rb' m e where
    walk: "data_walk E path t 0 root lb rb (dc_is_rightmost ctx) = Inr (c, h, lb', rb', m)"
    and c: "c + 64 = length path"
    and leaf: "hash_leaf E (sub_bytes path c (c + 32)) (sub_bytes path (c + 32) (c + 64)) = h"
      "note_to_u128 (sub_bytes path (c + 32) (c + 64)) = Inr e"
    and v: "dc_check_borders ctx \<Longrightarrow> e - lb' \<le> MAX_CHUNK_SIZE \<and> rb' - lb' \<le> MAX_CHUNK_SIZE"
      "validate_split e lb' rb' m ctx = Inr ()"
    and d: "d = \<lparr>dp_start = dc_left_shift ctx + lb', dp_end = dc_left_shift ctx + max (min rb' e) (lb' + 1),
        dp_data_hash = sub_bytes path c (c + 32)\<rparr>"
    unfolding walk_data_path_def size_defs by (auto simp: res_simps split: if_splits)
  from walk sp have m: "descend E t brs (root, lb, rb, dc_is_rightmost ctx) = Some (h, lb', rb', m)"
    and "c + length leaf = length path"
    using data_walk_refines [of 0 path E t root lb rb "dc_is_rightmost ctx" c h lb' rb' m] by auto
  then have dl: "drop c path = leaf" and l: "length leaf = 64"
    using c sp split_path_rest [of c path] by auto
  have s: "sub_bytes path c (c + 32) = take 32 leaf" "sub_bytes path (c + 32) (c + 64) = drop 32 leaf"
    using dl l by (auto simp: sub_bytes_def add.commute)
  show thesis
    by (rule that [OF sp l m _ _ v(1,2)]) (use leaf s d in simp_all)
qed

definition rebase_inv :: "nat \<Rightarrow> nat \<Rightarrow> nat \<Rightarrow> nat \<Rightarrow> nat \<Rightarrow> nat \<Rightarrow> bool" where
  "rebase_inv rel sz shift t lb rb \<longleftrightarrow> lb \<le> t \<and> t < rb \<and> shift + t = rel \<and> shift + rb \<le> sz"

lemma walk_data_path_bounds:
  assumes "walk_data_path E root t lb rb path ctx = Inr d"
    and "rebase_inv rel sz (dc_left_shift ctx) t lb rb"
  shows "dp_start d \<le> rel \<and> dp_start d < dp_end d \<and> dp_end d \<le> sz
    \<and> (dc_check_borders ctx \<longrightarrow> dp_end d - dp_start d \<le> MAX_CHUNK_SIZE)"
  using assms(1)
proof (rule walk_data_path_parsed)
  fix brs leaf h lb' rb' m e
  assume "descend E t brs (root, lb, rb, dc_is_rightmost ctx) = Some (h, lb', rb', m)"
    and b: "dc_check_borders ctx \<Longrightarrow> e - lb' \<le> MAX_CHUNK_SIZE \<and> rb' - lb' \<le> MAX_CHUNK_SIZE"
    and d: "d = \<lparr>dp_start = dc_left_shift ctx + lb',
          dp_end = dc_left_shift ctx + max (min rb' e) (lb' + 1), dp_data_hash = take 32 leaf\<rparr>"
  then have "lb \<le> lb' \<and> lb' \<le> t \<and> t < rb' \<and> rb' \<le> rb"
    using descend_bounds assms(2) unfolding rebase_inv_def by blast
  moreover have "1 \<le> MAX_CHUNK_SIZE" by (simp add: MAX_CHUNK_SIZE_def)
  ultimately show ?thesis
    using assms(2) b d by (auto simp: rebase_inv_def)
qed

lemma validate_split_no_panic:
  assumes "dc_left_shift ctx + max leaf_end left < U128"
  shows "validate_split leaf_end left right m ctx \<noteq> Inl Panic"
  using assms by (auto simp: validate_split_def res_simps Let_def split: SplitCheck.splits)

lemma walk_data_path_no_panic:
  assumes inv: "rebase_inv rel sz (dc_left_shift ctx) t lb rb"
    and sz: "sz + MAX_CHUNK_SIZE \<le> U128" and "dc_check_split ctx = NoCheck \<or> dc_check_borders ctx"
  shows "walk_data_path E root t lb rb path ctx \<noteq> Inl Panic"
proof (cases "data_walk E path t 0 root lb rb (dc_is_rightmost ctx)")
  case (Inl e)
  then show ?thesis using data_walk_no_panic [of 0 path] by (auto simp: walk_data_path_def)
next
  case (Inr s)
  then obtain c h lb' rb' m
    where w: "data_walk E path t 0 root lb rb (dc_is_rightmost ctx) = Inr (c, h, lb', rb', m)"
    by (cases s) auto
  then have "descend E t (fst (split_path path)) (root, lb, rb, dc_is_rightmost ctx) = Some (h, lb', rb', m)"
    using data_walk_refines [of 0 path E t root lb rb "dc_is_rightmost ctx" c h lb' rb' m] by auto
  then have bd: "lb \<le> lb' \<and> lb' \<le> t \<and> t < rb' \<and> rb' \<le> rb"
    using descend_bounds inv unfolding rebase_inv_def by blast
  have small: "sz < U128" using sz by (simp add: MAX_CHUNK_SIZE_def)
  have "dc_left_shift ctx + max e lb' < U128 \<or> dc_check_split ctx = NoCheck"
    if "dc_check_borders ctx \<longrightarrow> e - lb' \<le> MAX_CHUNK_SIZE" for e
    using that bd inv sz assms(3) by (auto simp: rebase_inv_def)
  moreover have "dc_check_split ctx = NoCheck \<Longrightarrow> validate_split e lb' rb' m ctx \<noteq> Inl Panic" for e
    by (simp add: validate_split_def)
  ultimately have sp: "validate_split e lb' rb' m ctx \<noteq> Inl Panic"
    if "dc_check_borders ctx \<longrightarrow> e - lb' \<le> MAX_CHUNK_SIZE" for e
    using that validate_split_no_panic [of ctx e lb'] by blast
  have fin: "dc_left_shift ctx + lb' < U128" "lb' + 1 < U128"
      "dc_left_shift ctx + max (min rb' e) (lb' + 1) < U128" for e
    using bd inv small by (auto simp: rebase_inv_def)
  show ?thesis
    using sp fin by (auto simp: walk_data_path_def w size_defs res_simps simp flip: not_less)
qed

text \<open>The rebased walk: one header shifts the frame, the invariant is kept.\<close>

lemma walk_rebased_step:
  assumes "rebased (dc_allow_rebase ctx) path" and inv: "rebase_inv rel sz (dc_left_shift ctx) t lb rb"
    and "sz < U128"
  shows "walk_rebased_data_path E root t lb rb path ctx =
     ensure (dc_rebase_depth ctx < 64) STR ''data_path rebasing depth exceeded''
     (let l = sub_bytes path 32 64; r = sub_bytes path 64 96; n = sub_bytes path 96 128 in
      ensure (case root of None \<Rightarrow> True | Some h \<Rightarrow> hash_branch E l r n = h)
        STR ''invalid rebase branch''
      (bindE (note_to_u128 n) (\<lambda>b.
         let left = t < b;
             base = (if left then lb else max lb b);
             top = (if left then min rb b else rb)
         in walk_rebased_data_path E (Some (if left then l else r)) (t - base) 0 (top - base) (drop 128 path)
              (ctx\<lparr>dc_left_shift := dc_left_shift ctx + base, dc_is_rightmost := None,
                   dc_rebase_depth := dc_rebase_depth ctx + 1\<rparr>))))"
proof -
  have len: "length path \<ge> 128" using assms(1) by (simp add: rebased_def)
  have *: "bindE (note_to_u128 n) f = bindE (note_to_u128 n) g" if "\<And>x. f x = g x"
    for n and f g :: "nat \<Rightarrow> DataPath res"
    using that by presburger
  show ?thesis
    using assms(1) len inv assms(3)
    by (subst walk_rebased_data_path.simps)
      (auto simp: Let_def rebased_def rebase_inv_def checked_sub_def subE_def addE_def intro!: * cong: if_cong)
qed

section \<open>Data paths: rebase headers\<close>

lemma rebase_inv_step:
  assumes "rebase_inv rel sz s t lb rb"
    and "base = (if t < b then lb else max lb b)" and "hi = (if t < b then min rb b else rb)"
  shows "rebase_inv rel sz (s + base) (t - base) 0 (hi - base)"
  using assms by (auto simp: rebase_inv_def)

lemma walk_rebased_plain:
  "\<not> rebased (dc_allow_rebase ctx) path \<Longrightarrow>
     walk_rebased_data_path E (Some root) t lb rb path ctx = walk_data_path E root t lb rb path ctx"
  by (subst walk_rebased_data_path.simps) (auto simp: rebased_def)

text \<open>
  Induction along the rebase headers.  A property of a walk that holds for the plain walk and
  is passed on by a header holds for every data path.
\<close>

lemma rebased_induct [case_names plain header]:
  fixes path :: bytes
  assumes "\<And>path. \<not> rebased allow path \<Longrightarrow> P path"
    and "\<And>path. rebased allow path \<Longrightarrow> P (drop 128 path) \<Longrightarrow> P path"
  shows "P path"
proof (induction path rule: measure_induct_rule [of length])
  case (less path)
  show ?case
  proof (cases "rebased allow path")
    case True
    then have "length (drop 128 path) < length path" by (simp add: rebased_def) linarith
    with less True assms(2) show ?thesis by blast
  qed (rule assms(1))
qed

text \<open>What a header of an accepted walk does to the frame.\<close>

lemma walk_rebased_header:
  assumes "rebased (dc_allow_rebase ctx) path" and "rebase_inv rel sz (dc_left_shift ctx) t lb rb"
    and "sz < U128" and "walk_rebased_data_path E (Some root) t lb rb path ctx = r" and "\<And>m. r \<noteq> Inl (Fail m)"
  obtains b base hi where
    "hash_branch E (sub_bytes path 32 64) (sub_bytes path 64 96) (sub_bytes path 96 128) = root"
    "note_to_u128 (sub_bytes path 96 128) = Inr b"
    "base = (if t < b then lb else max lb b)" "hi = (if t < b then min rb b else rb)"
    "walk_rebased_data_path E (Some (if t < b then sub_bytes path 32 64 else sub_bytes path 64 96))
       (t - base) 0 (hi - base) (drop 128 path)
       (ctx\<lparr>dc_left_shift := dc_left_shift ctx + base, dc_is_rightmost := None,
            dc_rebase_depth := dc_rebase_depth ctx + 1\<rparr>) = r"
proof -
  let ?n = "sub_bytes path 96 128"
  note s = walk_rebased_step [OF assms(1-3), of E "Some root", unfolded Let_def assms(4) option.case]
  have g: "dc_rebase_depth ctx < 64" "hash_branch E (sub_bytes path 32 64) (sub_bytes path 64 96) ?n = root"
    using s assms(5) by (auto split: if_splits)
  obtain b where b: "note_to_u128 ?n = Inr b"
    using s g assms(5) by (cases "note_to_u128 ?n") (auto simp: note_to_u128_def split: if_splits)
  show thesis
    by (rule that [OF g(2) b refl refl]) (use s g b in \<open>simp split del: if_split\<close>)
qed

lemma walk_rebased_bounds:
  assumes "walk_rebased_data_path E (Some root) t lb rb path ctx = Inr d"
    and "rebase_inv rel sz (dc_left_shift ctx) t lb rb" and sz: "sz < U128"
    and "dc_allow_rebase ctx = allow" "dc_check_borders ctx = borders"
  shows "dp_start d \<le> rel \<and> dp_start d < dp_end d \<and> dp_end d \<le> sz
    \<and> (borders \<longrightarrow> dp_end d - dp_start d \<le> MAX_CHUNK_SIZE)"
  using assms(1,2,4,5)
proof (induction path arbitrary: root t lb rb ctx rule: rebased_induct [of allow])
  case (plain path)
  then show ?case using walk_data_path_bounds by (auto simp: walk_rebased_plain)
next
  case (header path)
  have r: "rebased (dc_allow_rebase ctx) path" using header by simp
  obtain b base hi where frame: "base = (if t < b then lb else max lb b)" "hi = (if t < b then min rb b else rb)"
    and w: "walk_rebased_data_path E (Some (if t < b then sub_bytes path 32 64 else sub_bytes path 64 96))
       (t - base) 0 (hi - base) (drop 128 path)
       (ctx\<lparr>dc_left_shift := dc_left_shift ctx + base, dc_is_rightmost := None,
            dc_rebase_depth := dc_rebase_depth ctx + 1\<rparr>) = Inr d"
    by (rule walk_rebased_header [OF r header.prems(2) sz header.prems(1)]) auto
  show ?case
    by (rule header.IH [OF w]) (use rebase_inv_step [OF header.prems(2) frame] header.prems in simp_all)
qed

lemma walk_rebased_no_panic:
  assumes "rebase_inv rel sz (dc_left_shift ctx) t lb rb" and sz: "sz + MAX_CHUNK_SIZE \<le> U128"
    and "dc_allow_rebase ctx = allow" and "dc_check_split ctx = NoCheck \<or> dc_check_borders ctx"
  shows "walk_rebased_data_path E (Some root) t lb rb path ctx \<noteq> Inl Panic"
  using assms(1,3,4)
proof (induction path arbitrary: root t lb rb ctx rule: rebased_induct [of allow])
  case (plain path)
  then show ?case using walk_data_path_no_panic sz by (auto simp: walk_rebased_plain)
next
  case (header path)
  have r: "rebased (dc_allow_rebase ctx) path" using header by simp
  have small: "sz < U128" using sz by (simp add: MAX_CHUNK_SIZE_def)
  show ?case
  proof
    assume p: "walk_rebased_data_path E (Some root) t lb rb path ctx = Inl Panic"
    obtain b base hi where frame: "base = (if t < b then lb else max lb b)" "hi = (if t < b then min rb b else rb)"
      and w: "walk_rebased_data_path E (Some (if t < b then sub_bytes path 32 64 else sub_bytes path 64 96))
         (t - base) 0 (hi - base) (drop 128 path)
         (ctx\<lparr>dc_left_shift := dc_left_shift ctx + base, dc_is_rightmost := None,
              dc_rebase_depth := dc_rebase_depth ctx + 1\<rparr>) = Inl Panic"
      by (rule walk_rebased_header [OF r header.prems(1) small p]) auto
    show False
      by (rule notE [OF header.IH w]) (use rebase_inv_step [OF header.prems(1) frame] header.prems in simp_all)
  qed
qed

text \<open>Two plain walks of the same frame that are accepted prove the same leaf.\<close>

lemma walk_data_path_binding:
  assumes "hash_widths E" and "collision_free E xs"
    and "set (path_inputs E path) \<subseteq> set xs" "set (path_inputs E path') \<subseteq> set xs"
    and "walk_data_path E root t lb rb path ctx = Inr d"
    and "walk_data_path E root t lb rb path' ctx = Inr d'"
  shows "d = d'"
proof -
  from assms(5) obtain brs leaf h lb1 rb1 m e where
    1: "split_path path = (brs, leaf)" "length leaf = 64"
    "descend E t brs (root, lb, rb, dc_is_rightmost ctx) = Some (h, lb1, rb1, m)"
    "h = hash_leaf E (take 32 leaf) (drop 32 leaf)" "note_to_u128 (drop 32 leaf) = Inr e"
    "d = \<lparr>dp_start = dc_left_shift ctx + lb1,
          dp_end = dc_left_shift ctx + max (min rb1 e) (lb1 + 1), dp_data_hash = take 32 leaf\<rparr>"
    by (rule walk_data_path_parsed)
  from assms(6) obtain brs' leaf' h' lb2 rb2 m' e' where
    2: "split_path path' = (brs', leaf')" "length leaf' = 64"
    "descend E t brs' (root, lb, rb, dc_is_rightmost ctx) = Some (h', lb2, rb2, m')"
    "h' = hash_leaf E (take 32 leaf') (drop 32 leaf')" "note_to_u128 (drop 32 leaf') = Inr e'"
    "d' = \<lparr>dp_start = dc_left_shift ctx + lb2,
          dp_end = dc_left_shift ctx + max (min rb2 e') (lb2 + 1), dp_data_hash = take 32 leaf'\<rparr>"
    by (rule walk_data_path_parsed)
  have "brs = brs' \<and> take 32 leaf = take 32 leaf' \<and> drop 32 leaf = drop 32 leaf'"
    using 1(1,3,4) 2(1,3,4) assms(3,4)
    by (intro descend_binding [OF assms(1,2)]) (auto simp: path_inputs_def)
  with 1 2 show ?thesis by simp
qed

lemma walk_rebased_binding:
  assumes w: "hash_widths E" and cf: "collision_free E xs" and sz: "sz < U128"
    and "set (data_inputs E allow path) \<subseteq> set xs" "set (data_inputs E allow path') \<subseteq> set xs"
    and "rebase_headers allow path = rebase_headers allow path'"
    and "walk_rebased_data_path E (Some root) t lb rb path ctx = Inr d"
    and "walk_rebased_data_path E (Some root) t lb rb path' ctx = Inr d'"
    and "rebase_inv rel sz (dc_left_shift ctx) t lb rb" and "dc_allow_rebase ctx = allow"
  shows "d = d'"
  using assms(4-)
proof (induction path arbitrary: path' root t lb rb ctx rule: rebased_induct [of allow])
  case (plain path)
  then have "\<not> rebased allow path'"
    by (auto simp: rebase_headers.simps [of allow path] rebase_headers.simps [of allow path'] split: if_splits)
  with plain show ?case
    using walk_data_path_binding [OF w cf, of path path' root t lb rb ctx d d']
    by (simp add: walk_rebased_plain data_inputs.simps [of E allow path] data_inputs.simps [of E allow path'])
next
  case (header path)
  then have r': "rebased allow path'"
    by (auto simp: rebase_headers.simps [of allow path] rebase_headers.simps [of allow path'] split: if_splits)
  have r: "rebased (dc_allow_rebase ctx) path" "rebased (dc_allow_rebase ctx) path'"
    using header r' by auto
  obtain b base hi where
    h: "hash_branch E (sub_bytes path 32 64) (sub_bytes path 64 96) (sub_bytes path 96 128) = root"
      "note_to_u128 (sub_bytes path 96 128) = Inr b"
    and frame: "base = (if t < b then lb else max lb b)" "hi = (if t < b then min rb b else rb)"
    and wk: "walk_rebased_data_path E (Some (if t < b then sub_bytes path 32 64 else sub_bytes path 64 96))
       (t - base) 0 (hi - base) (drop 128 path)
       (ctx\<lparr>dc_left_shift := dc_left_shift ctx + base, dc_is_rightmost := None,
            dc_rebase_depth := dc_rebase_depth ctx + 1\<rparr>) = Inr d"
    by (rule walk_rebased_header [OF r(1) header.prems(6) sz header.prems(4)]) auto
  obtain b' base' hi' where
    h': "hash_branch E (sub_bytes path' 32 64) (sub_bytes path' 64 96) (sub_bytes path' 96 128) = root"
      "note_to_u128 (sub_bytes path' 96 128) = Inr b'"
    and frame': "base' = (if t < b' then lb else max lb b')" "hi' = (if t < b' then min rb b' else rb)"
    and wk': "walk_rebased_data_path E (Some (if t < b' then sub_bytes path' 32 64 else sub_bytes path' 64 96))
       (t - base') 0 (hi' - base') (drop 128 path')
       (ctx\<lparr>dc_left_shift := dc_left_shift ctx + base', dc_is_rightmost := None,
            dc_rebase_depth := dc_rebase_depth ctx + 1\<rparr>) = Inr d'"
    by (rule walk_rebased_header [OF r(2) header.prems(6) sz header.prems(5)]) auto
  have eq: "sub_bytes path 32 64 = sub_bytes path' 32 64" "sub_bytes path 64 96 = sub_bytes path' 64 96"
    "sub_bytes path 96 128 = sub_bytes path' 96 128"
    using hash_branch_inj [OF w cf, of "sub_bytes path 32 64" "sub_bytes path 64 96" "sub_bytes path 96 128"
        "sub_bytes path' 32 64" "sub_bytes path' 64 96" "sub_bytes path' 96 128"] h h' header.prems(1,2) header.hyps r'
    by (auto simp: data_inputs.simps [of E allow path] data_inputs.simps [of E allow path'])
  then have bb: "b' = b" using h(2) h'(2) by simp
  then have fr: "base' = base" "hi' = hi" using frame frame' by simp_all
  have wk2: "walk_rebased_data_path E (Some (if t < b then sub_bytes path 32 64 else sub_bytes path 64 96))
       (t - base) 0 (hi - base) (drop 128 path')
       (ctx\<lparr>dc_left_shift := dc_left_shift ctx + base, dc_is_rightmost := None,
            dc_rebase_depth := dc_rebase_depth ctx + 1\<rparr>) = Inr d'"
    using wk' by (simp only: eq bb fr)
  show ?case
    by (rule header.IH [OF _ _ _ wk wk2])
      (use rebase_inv_step [OF header.prems(6) frame] header.prems header.hyps r' in
        \<open>auto simp: data_inputs.simps [of E allow path] data_inputs.simps [of E allow path']
           rebase_headers.simps [of allow path] rebase_headers.simps [of allow path']\<close>)
qed

end
