(* ===== verification/Packing.thy ===== *)
theory Packing
  imports Merkle
begin

unbundle bit_operations_syntax

text \<open>
  Replica packing of \<open>src/src/packing.rs\<close>: the packing name (\<open>Packing::parse\<close>), the position
  of a chunk in its partition (\<open>chunk_bucket\<close>, \<open>position\<close>, \<open>footprint_offset\<close>), the entropy
  keys and \<open>unpack\<close>.  The native entropy generator, the CPU check, the worker and the
  cancellation token are the record \<open>replica\<close>, a parameter.
\<close>

section \<open>Positions\<close>

definition MAX_PACKING_LEN :: nat where "MAX_PACKING_LEN = 12 + 43"
definition SUB_CHUNK_SIZE :: nat where "SUB_CHUNK_SIZE = 8192"
definition PARTITION_SIZE :: nat where "PARTITION_SIZE = 3600000000000"
definition SECTOR_SIZE :: nat where "SECTOR_SIZE = 429184 * SUB_CHUNK_SIZE"
definition FOOTPRINT_SIZE :: nat where "FOOTPRINT_SIZE = 1024"
definition FOOTPRINTS_PER_PARTITION :: nat where
  "FOOTPRINTS_PER_PARTITION = SECTOR_SIZE div MAX_CHUNK_SIZE"

definition CHUNKS_PER_PARTITION :: nat where
  "CHUNKS_PER_PARTITION = div_ceil PARTITION_SIZE (MAX_CHUNK_SIZE * FOOTPRINT_SIZE) * FOOTPRINT_SIZE"

lemmas packing_defs = SUB_CHUNK_SIZE_def PARTITION_SIZE_def SECTOR_SIZE_def FOOTPRINT_SIZE_def
  FOOTPRINTS_PER_PARTITION_def CHUNKS_PER_PARTITION_def MAX_CHUNK_SIZE_def
  STRICT_DATA_SPLIT_THRESHOLD_def div_ceil_def

definition chunk_bucket :: "nat \<Rightarrow> (nat \<times> nat) res" where
  "chunk_bucket absolute_end =
     ensure (absolute_end > 0) STR ''invalid replica chunk end offset''
     (let threshold = STRICT_DATA_SPLIT_THRESHOLD; chunk_size = MAX_CHUNK_SIZE in
      bindE
        (if absolute_end > threshold then
           (let buckets = (absolute_end - threshold - 1) div chunk_size + 1 in
            contextE
              (case checked_mul U128 buckets chunk_size of
                 None \<Rightarrow> None
               | Some v \<Rightarrow> checked_add U128 threshold v)
              STR ''replica chunk offset overflow'')
         else Inr absolute_end) (\<lambda>padded.
      let bucket = (padded - chunk_size) div chunk_size * chunk_size in
      Inr (padded, bucket)))"

definition position :: "nat \<Rightarrow> (nat \<times> nat \<times> nat) res" where
  "position absolute_end =
     bindE (chunk_bucket absolute_end) (\<lambda>(_, bucket).
     let partition = bucket div PARTITION_SIZE;
         relative = bucket mod PARTITION_SIZE;
         slice_index = (relative div SECTOR_SIZE) mod FOOTPRINT_SIZE;
         first_entropy = (relative mod SECTOR_SIZE) div MAX_CHUNK_SIZE * 32
     in Inr (partition, first_entropy, slice_index))"

text \<open>\<open>.ok()?\<close> turns an error into \<open>None\<close>; the sums are checked as machine sums.\<close>

definition footprint_offset :: "nat \<Rightarrow> nat option res" where
  "footprint_offset offset =
     (case chunk_bucket offset of
        Inl _ \<Rightarrow> Inr None
      | Inr (padded, bucket) \<Rightarrow>
          let partition = bucket div PARTITION_SIZE in
          bindE (mulE U128 partition PARTITION_SIZE) (\<lambda>base.
          bindE (subE padded base) (\<lambda>above.
          case checked_sub (above div MAX_CHUNK_SIZE) 1 of
            None \<Rightarrow> Inr None
          | Some relative \<Rightarrow>
              (let footprint = relative mod FOOTPRINTS_PER_PARTITION;
                   within = relative div FOOTPRINTS_PER_PARTITION in
               bindE (mulE U128 partition CHUNKS_PER_PARTITION) (\<lambda>a.
               bindE (mulE U128 footprint FOOTPRINT_SIZE) (\<lambda>b.
               bindE (addE U128 a b) (\<lambda>ab.
               bindE (addE U128 ab within) (\<lambda>abw.
               bindE (addE U128 abw 1) (\<lambda>r.
               Inr (Some r))))))))))"

section \<open>Packing names and unpacking\<close>

datatype Packing = Unpacked | Replica29 bytes

definition packing_parse :: "deps \<Rightarrow> str \<Rightarrow> Packing res" where
  "packing_parse E value =
     (if value = ''unpacked'' then Inr Unpacked
      else case strip_prefix ''replica_2_9_'' value of
        Some address \<Rightarrow>
          ensure (length value = MAX_PACKING_LEN) STR ''invalid replica packing address''
          (bindE (decode_fixed E 32 address STR ''replica packing address'') (\<lambda>a.
           Inr (Replica29 a)))
      | None \<Rightarrow> Inl (Fail STR ''unsupported chunk packing format''))"

definition entropy_key :: "deps \<Rightarrow> bytes \<Rightarrow> nat \<Rightarrow> nat \<Rightarrow> bytes" where
  "entropy_key E address part index =
     sha256 E [note_bytes part, note_bytes index, address]"

record replica =
  rp_sse42 :: bool                             \<comment> \<open>\<open>is_x86_feature_detected!("sse4.2")\<close>\<close>
  rp_worker :: bool                            \<comment> \<open>the worker's mutex is not poisoned\<close>
  rp_created :: bool                           \<comment> \<open>\<open>ar_io_replica_create\<close> returned a state\<close>
  rp_entropy :: "bytes \<Rightarrow> nat \<Rightarrow> bytes option" \<comment> \<open>\<open>ar_io_replica_slice\<close>: seeds, slice index\<close>
  rp_cancelled :: "nat \<Rightarrow> bool"                \<comment> \<open>the token's state at the n-th check of the job\<close>

fun chunks_exact :: "nat \<Rightarrow> bytes \<Rightarrow> bytes list" where
  "chunks_exact n bs =
     (if n = 0 \<or> length bs < n then [] else take n bs # chunks_exact n (drop n bs))"

declare chunks_exact.simps [simp del]

definition xor_bytes :: "bytes \<Rightarrow> bytes \<Rightarrow> bytes" where
  "xor_bytes xs ys = map2 (XOR) xs ys"

definition replica_seeds :: "deps \<Rightarrow> bytes \<Rightarrow> bytes" where
  "replica_seeds E key = concat (map (\<lambda>lane. sha256 E [key, [word_of_nat lane + 1]]) [0, 1, 2, 3])"

text \<open>The loop over the sub-chunks; the two checks of sub-chunk \<open>index\<close> have numbers from 2 on.\<close>

fun unpack_loop ::
  "deps \<Rightarrow> replica \<Rightarrow> bytes \<Rightarrow> nat \<Rightarrow> nat \<Rightarrow> nat \<Rightarrow> nat \<Rightarrow> nat \<Rightarrow> bytes list \<Rightarrow> bytes res" where
  "unpack_loop E R address part first_entropy slice_index sz index [] = Inr []"
| "unpack_loop E R address part first_entropy slice_index sz index (packed # rest) =
     ensure (\<not> rp_cancelled R (2 + 2 * index)) STR ''replica unpacking cancelled''
     (bindE (addE U128 first_entropy index) (\<lambda>number.
      let key = entropy_key E address part number; seeds = replica_seeds E key in
      bindE (contextE (rp_entropy R seeds slice_index) STR ''replica entropy generation failed'') (\<lambda>entropy.
      ensure (\<not> rp_cancelled R (3 + 2 * index)) STR ''replica unpacking cancelled''
      (let used = min (sz - index * SUB_CHUNK_SIZE) SUB_CHUNK_SIZE;
           plain = xor_bytes packed entropy in
       ensure (list_all (\<lambda>b. b = 0) (drop used plain)) STR ''invalid packed chunk padding''
       (bindE (unpack_loop E R address part first_entropy slice_index sz (Suc index) rest)
         (\<lambda>output. Inr (take used plain @ output)))))))"

definition unpack :: "deps \<Rightarrow> replica \<Rightarrow> bytes \<Rightarrow> bytes \<Rightarrow> nat \<Rightarrow> nat \<Rightarrow> bytes res" where
  "unpack E R bs address absolute_end sz =
     ensure (length bs = MAX_CHUNK_SIZE) STR ''invalid replica packed chunk size''
     (ensure (sz > 0 \<and> sz \<le> length bs) STR ''invalid replica unpacked chunk size''
     (ensure (rp_sse42 R) STR ''replica unpacking requires SSE4.2''
     (ensure (\<not> rp_cancelled R 0) STR ''replica unpacking cancelled''
     (bindE (position absolute_end) (\<lambda>(part, first_entropy, slice_index).
      ensure (rp_worker R) STR ''replica unpacking worker failed''
      (ensure (\<not> rp_cancelled R 1) STR ''replica unpacking cancelled''
      (ensure (rp_created R) STR ''replica unpacking initialization failed''
      (unpack_loop E R address part first_entropy slice_index sz 0
        (chunks_exact SUB_CHUNK_SIZE bs)))))))))"

section \<open>Positions: bounds and distinctness\<close>

lemma packing_numbers [simp]:
  "SECTOR_SIZE = 3515875328" "FOOTPRINTS_PER_PARTITION = 13412" "CHUNKS_PER_PARTITION = 13733888"
  "FOOTPRINT_SIZE = 1024" "PARTITION_SIZE = 3600000000000" "MAX_CHUNK_SIZE = 262144"
  by (simp_all add: packing_defs)

lemma chunk_bucket_no_panic [simp]: "chunk_bucket off \<noteq> Inl Panic"
  by (auto simp: chunk_bucket_def res_simps Let_def)

lemma chunk_bucket_eq:
  assumes "chunk_bucket off = Inr (padded, bucket)"
  shows "0 < off" and "off \<le> padded" and "padded < off + 262144"
    and "off > STRICT_DATA_SPLIT_THRESHOLD \<Longrightarrow> (padded - STRICT_DATA_SPLIT_THRESHOLD) mod 262144 = 0
      \<and> STRICT_DATA_SPLIT_THRESHOLD < padded"
    and "bucket = (padded - 262144) div 262144 * 262144"
    and "off < U128 \<Longrightarrow> padded < U128"
proof -
  have pos: "0 < off" and bk: "bucket = (padded - 262144) div 262144 * 262144"
    and c: "(off \<le> STRICT_DATA_SPLIT_THRESHOLD \<and> padded = off) \<or>
       (off > STRICT_DATA_SPLIT_THRESHOLD \<and>
        padded = STRICT_DATA_SPLIT_THRESHOLD + ((off - STRICT_DATA_SPLIT_THRESHOLD - 1) div 262144 + 1) * 262144
        \<and> padded < U128)"
    using assms by (auto simp: chunk_bucket_def res_simps Let_def split: if_splits option.splits)
  show "0 < off" by (rule pos)
  show "bucket = (padded - 262144) div 262144 * 262144" by (rule bk)
  have d: "(x div 262144 + 1) * 262144 \<le> x + 262144 \<and> x < (x div 262144 + 1) * 262144" for x :: nat
    using div_mult_mod_eq [of x 262144] mod_less_divisor [of 262144 x] by simp
  show "off \<le> padded" and "padded < off + 262144" using c d [of "off - STRICT_DATA_SPLIT_THRESHOLD - 1"]
    by linarith+
  show "(padded - STRICT_DATA_SPLIT_THRESHOLD) mod 262144 = 0 \<and> STRICT_DATA_SPLIT_THRESHOLD < padded"
    if "off > STRICT_DATA_SPLIT_THRESHOLD" using c that by auto
  show "padded < U128" if "off < U128" using c that by auto
qed

lemma position_eq:
  assumes "position off = Inr (p, f, s)"
  obtains padded bucket where "chunk_bucket off = Inr (padded, bucket)"
    "p = bucket div 3600000000000" "f = bucket mod 3600000000000 mod 3515875328 div 262144 * 32"
    "s = bucket mod 3600000000000 div 3515875328 mod 1024"
  using assms by (auto simp: position_def res_simps Let_def)

lemma position_bounds_aux:
  assumes "position off = Inr (p, f, s)"
  shows "s < 1024 \<and> f + 32 \<le> 13412 * 32 \<and> f mod 32 = 0"
proof -
  obtain bucket where f: "f = bucket mod 3600000000000 mod 3515875328 div 262144 * 32"
    and s: "s = bucket mod 3600000000000 div 3515875328 mod 1024"
    using position_eq [OF assms] by metis
  have "bucket mod 3600000000000 mod 3515875328 < (3515875328 :: nat)" by simp
  then have "bucket mod 3600000000000 mod 3515875328 div 262144 < (13412 :: nat)" by linarith
  moreover have "s < 1024" unfolding s by (rule mod_less_divisor) simp
  ultimately show ?thesis using f by simp
qed

lemma footprint_offset_eq:
  assumes "footprint_offset off = Inr (Some r)"
  obtains padded bucket p rel where "chunk_bucket off = Inr (padded, bucket)"
    "p = bucket div 3600000000000" "p * 3600000000000 \<le> padded"
    "(padded - p * 3600000000000) div 262144 = Suc rel"
    "r = p * 13733888 + rel mod 13412 * 1024 + rel div 13412 + 1"
proof (cases "chunk_bucket off")
  case (Inl e)
  with assms show thesis by (simp add: footprint_offset_def)
next
  case (Inr a)
  obtain padded bucket where pb: "chunk_bucket off = Inr (padded, bucket)" using Inr by (cases a) auto
  let ?p = "bucket div 3600000000000"
  let ?k = "(padded - ?p * 3600000000000) div 262144"
  note u = assms [unfolded footprint_offset_def pb sum.case prod.case Let_def packing_numbers]
  from u obtain base above where ba: "mulE U128 ?p 3600000000000 = Inr base" "subE padded base = Inr above"
    and c: "(case checked_sub (above div 262144) 1 of None \<Rightarrow> Inr None
      | Some relative \<Rightarrow> bindE (mulE U128 ?p 13733888) (\<lambda>a.
          bindE (mulE U128 (relative mod 13412) 1024) (\<lambda>b. bindE (addE U128 a b) (\<lambda>ab.
          bindE (addE U128 ab (relative div 13412)) (\<lambda>abw. bindE (addE U128 abw 1) (\<lambda>r. Inr (Some r))))))) = Inr (Some r)"
    unfolding bindE_eq_Inr by blast
  from c obtain rel where rel: "checked_sub (above div 262144) 1 = Some rel"
    by (cases "checked_sub (above div 262144) 1") simp_all
  have le: "?p * 3600000000000 \<le> padded" and k: "?k = Suc rel"
    using ba rel by (auto simp: mulE_def subE_def checked_sub_def split: if_splits)
  have r: "r = ?p * 13733888 + rel mod 13412 * 1024 + rel div 13412 + 1"
    using c unfolding rel option.case bindE_eq_Inr addE_eq_Inr mulE_eq_Inr by blast
  show thesis by (rule that [OF pb refl le k r])
qed

lemma relative_bound:
  assumes "bucket = (padded - 262144) div 262144 * 262144" "p = bucket div 3600000000000"
    "(padded - p * 3600000000000) div 262144 = Suc rel"
  shows "rel < 13733888"
proof -
  have "padded - 262144 < bucket + 262144"
    using assms(1) div_mult_mod_eq [of "padded - 262144" 262144] mod_less_divisor [of 262144 "padded - 262144"]
    by linarith
  moreover have "bucket < p * 3600000000000 + 3600000000000"
    using assms(2) div_mult_mod_eq [of bucket 3600000000000] mod_less_divisor [of 3600000000000 bucket]
    by linarith
  ultimately have "padded - p * 3600000000000 < 3600000000000 + 2 * 262144" by linarith
  then have "(padded - p * 3600000000000) div 262144 < 13732913" by linarith
  then show ?thesis using assms(3) by linarith
qed

lemma footprint_injective_aux:
  fixes p p' rel rel' :: nat
  assumes "p * 13733888 + rel mod 13412 * 1024 + rel div 13412 + 1
      = p' * 13733888 + rel' mod 13412 * 1024 + rel' div 13412 + 1"
    and "rel < 13733888" "rel' < 13733888"
  shows "p = p' \<and> rel = rel'"
proof -
  define q where "q r = r mod 13412 * 1024 + r div 13412" for r :: nat
  have w: "r div 13412 < 1024" if "r < 13733888" for r :: nat using that by linarith
  have b: "q r < 13733888" if "r < 13733888" for r
    using w [OF that] mod_less_divisor [of 13412 r] by (simp add: q_def)
  have e: "p * 13733888 + q rel = p' * 13733888 + q rel'" using assms(1) by (simp add: q_def)
  have "p = (p * 13733888 + q rel) div 13733888" using b [OF assms(2)] by simp
  also have "\<dots> = p'" unfolding e using b [OF assms(3)] by simp
  finally have p: "p = p'" .
  then have q: "q rel = q rel'" using e by simp
  have "r mod 13412 = q r div 1024 \<and> r div 13412 = q r mod 1024" if "r < 13733888" for r
    using w [OF that] by (simp add: q_def)
  then have "rel mod 13412 = rel' mod 13412 \<and> rel div 13412 = rel' div 13412"
    using assms(2,3) q by metis
  then have "rel = rel'" by (metis div_mult_mod_eq)
  with p show ?thesis by simp
qed

lemma same_cell:
  fixes base T k l :: nat
  assumes "base \<le> T + 262144 * k" "(T + 262144 * k - base) div 262144 = (T + 262144 * l - base) div 262144"
  shows "l \<le> k"
proof (rule ccontr)
  assume "\<not> l \<le> k"
  then have "T + 262144 * k - base + 262144 \<le> T + 262144 * l - base" using assms(1) by linarith
  then show False using assms(2) by linarith
qed

lemma footprint_offset_inj_aux:
  assumes "footprint_offset a = Inr (Some r)" "footprint_offset b = Inr (Some r)"
    and "a > STRICT_DATA_SPLIT_THRESHOLD" "b > STRICT_DATA_SPLIT_THRESHOLD"
  shows "chunk_bucket a = chunk_bucket b"
proof -
  obtain pa ba p rel where 1: "chunk_bucket a = Inr (pa, ba)" "p = ba div 3600000000000"
    "p * 3600000000000 \<le> pa" "(pa - p * 3600000000000) div 262144 = Suc rel"
    "r = p * 13733888 + rel mod 13412 * 1024 + rel div 13412 + 1"
    using footprint_offset_eq [OF assms(1)] by metis
  obtain pb bb p' rel' where 2: "chunk_bucket b = Inr (pb, bb)" "p' = bb div 3600000000000"
    "p' * 3600000000000 \<le> pb" "(pb - p' * 3600000000000) div 262144 = Suc rel'"
    "r = p' * 13733888 + rel' mod 13412 * 1024 + rel' div 13412 + 1"
    using footprint_offset_eq [OF assms(2)] by metis
  have eq: "p = p'" "rel = rel'"
    using footprint_injective_aux [of p rel p' rel'] 1(5) 2(5)
      relative_bound [OF chunk_bucket_eq(5) [OF 1(1)] 1(2,4)]
      relative_bound [OF chunk_bucket_eq(5) [OF 2(1)] 2(2,4)] by auto
  let ?T = "STRICT_DATA_SPLIT_THRESHOLD"
  have ma: "(pa - ?T) mod 262144 = 0" "?T < pa" using chunk_bucket_eq(4) [OF 1(1) assms(3)] by auto
  have mb: "(pb - ?T) mod 262144 = 0" "?T < pb" using chunk_bucket_eq(4) [OF 2(1) assms(4)] by auto
  obtain k l where k: "pa = ?T + 262144 * k" "pb = ?T + 262144 * l"
    using ma mb by (auto simp: mod_eq_0_iff_dvd dvd_def) (metis le_add_diff_inverse less_imp_le)
  have "(pa - p * 3600000000000) div 262144 = (pb - p * 3600000000000) div 262144"
    using 1(4) 2(4) eq by simp
  then have "k = l"
    using same_cell [of "p * 3600000000000" ?T k l] same_cell [of "p * 3600000000000" ?T l k]
      1(3) 2(3) eq k by simp
  with k have "pa = pb" by simp
  then show ?thesis using 1(1) 2(1) chunk_bucket_eq(5) [OF 1(1)] chunk_bucket_eq(5) [OF 2(1)] by simp
qed

section \<open>Unpacking is the inverse of packing\<close>

text \<open>The native generator writes the whole 8 KiB slice.\<close>

definition entropy_width :: "replica \<Rightarrow> bool" where
  "entropy_width R \<longleftrightarrow> (\<forall>seeds s e. rp_entropy R seeds s = Some e \<longrightarrow> length e = SUB_CHUNK_SIZE)"

definition entropy_at :: "deps \<Rightarrow> replica \<Rightarrow> bytes \<Rightarrow> nat \<Rightarrow> nat \<Rightarrow> nat \<Rightarrow> bytes option" where
  "entropy_at E R address part slice_index number =
     rp_entropy R (replica_seeds E (entropy_key E address part number)) slice_index"

fun entropy_stream :: "deps \<Rightarrow> replica \<Rightarrow> bytes \<Rightarrow> nat \<Rightarrow> nat \<Rightarrow> nat \<Rightarrow> nat \<Rightarrow> bytes" where
  "entropy_stream E R address part slice_index number 0 = []"
| "entropy_stream E R address part slice_index number (Suc n) =
     the (entropy_at E R address part slice_index number)
       @ entropy_stream E R address part slice_index (Suc number) n"

lemma xor_bytes_length [simp]: "length (xor_bytes xs ys) = min (length xs) (length ys)"
  by (simp add: xor_bytes_def)

lemma xor_bytes_append:
  "length xs = length ys \<Longrightarrow> xor_bytes (xs @ xs') (ys @ ys') = xor_bytes xs ys @ xor_bytes xs' ys'"
  by (simp add: xor_bytes_def)

lemma xor_bytes_cancel: "length xs = length ys \<Longrightarrow> xor_bytes (xor_bytes xs ys) ys = xs"
  by (rule nth_equalityI) (simp_all add: xor_bytes_def xor.assoc)

lemma chunks_exact_length: "c \<in> set (chunks_exact n bs) \<Longrightarrow> length c = n"
proof (induction n bs rule: chunks_exact.induct)
  case (1 n bs)
  then show ?case by (subst (asm) chunks_exact.simps) (auto split: if_splits)
qed

lemma chunks_exact_append:
  "0 < n \<Longrightarrow> length xs = n \<Longrightarrow> chunks_exact n (xs @ ys) = xs # chunks_exact n ys"
  by (subst chunks_exact.simps) simp

lemma chunks_exact_concat:
  "0 < n \<Longrightarrow> length bs = k * n \<Longrightarrow> concat (chunks_exact n bs) = bs \<and> length (chunks_exact n bs) = k"
proof (induction k arbitrary: bs)
  case 0
  then show ?case by (simp add: chunks_exact.simps [of n "[]"])
next
  case (Suc k)
  then have "length (drop n bs) = k * n" by simp
  with Suc show ?case
    using chunks_exact_append [of n "take n bs" "drop n bs"] by (auto simp: Suc.IH)
qed

lemma zero_suffix:
  "list_all (\<lambda>b. b = (0::byte)) (drop n xs) \<Longrightarrow> take n xs @ replicate (length xs - n) 0 = xs"
proof -
  assume "list_all (\<lambda>b. b = 0) (drop n xs)"
  then have "drop n xs = replicate (length (drop n xs)) 0"
    by (metis (full_types) list_all_iff replicate_eqI)
  then show ?thesis by (metis append_take_drop_id length_drop)
qed

lemma unpack_loop_sound:
  assumes "entropy_width R" and "\<And>c. c \<in> set chunks \<Longrightarrow> length c = SUB_CHUNK_SIZE"
    and "unpack_loop E R address part first si sz index chunks = Inr out"
  shows "out @ replicate (length chunks * SUB_CHUNK_SIZE - (sz - index * SUB_CHUNK_SIZE)) 0 =
       xor_bytes (concat chunks) (entropy_stream E R address part si (first + index) (length chunks))
     \<and> length out = min (sz - index * SUB_CHUNK_SIZE) (length chunks * SUB_CHUNK_SIZE)"
  using assms(2,3)
proof (induction chunks arbitrary: index out)
  case Nil
  then show ?case by (simp add: xor_bytes_def)
next
  case (Cons c cs)
  let ?U = "min (sz - index * SUB_CHUNK_SIZE) SUB_CHUNK_SIZE"
  from Cons.prems(2) obtain e rest where
    e: "entropy_at E R address part si (first + index) = Some e"
    and z: "list_all (\<lambda>b. b = 0) (drop ?U (xor_bytes c e))"
    and r: "unpack_loop E R address part first si sz (Suc index) cs = Inr rest"
    and out: "out = take ?U (xor_bytes c e) @ rest"
    by (auto simp: res_simps Let_def entropy_at_def split: if_splits)
  have le: "length e = SUB_CHUNK_SIZE" using e assms(1) by (auto simp: entropy_width_def entropy_at_def)
  have lc: "length c = SUB_CHUNK_SIZE" using Cons.prems(1) by simp
  have plain: "take ?U (xor_bytes c e) @ replicate (SUB_CHUNK_SIZE - ?U) 0 = xor_bytes c e"
    using zero_suffix [OF z] le lc by simp
  let ?left = "length cs * SUB_CHUNK_SIZE - (sz - Suc index * SUB_CHUNK_SIZE)"
  have IH: "rest @ replicate ?left 0 =
       xor_bytes (concat cs) (entropy_stream E R address part si (first + Suc index) (length cs))"
    "length rest = min (sz - Suc index * SUB_CHUNK_SIZE) (length cs * SUB_CHUNK_SIZE)"
    using Cons.IH [OF _ r] Cons.prems(1) by auto
  have out2: "out @ replicate (length (c # cs) * SUB_CHUNK_SIZE - (sz - index * SUB_CHUNK_SIZE)) 0 =
      xor_bytes c e @ rest @ replicate ?left 0"
  proof (cases "SUB_CHUNK_SIZE \<le> sz - index * SUB_CHUNK_SIZE")
    case True
    then have "?U = SUB_CHUNK_SIZE"
      and "length (c # cs) * SUB_CHUNK_SIZE - (sz - index * SUB_CHUNK_SIZE) = ?left" by simp_all
    then show ?thesis using out le lc by simp
  next
    case False
    then have rest: "rest = []" and "?left = length cs * SUB_CHUNK_SIZE" using IH(2) by simp_all
    moreover have "length (c # cs) * SUB_CHUNK_SIZE - (sz - index * SUB_CHUNK_SIZE) =
        SUB_CHUNK_SIZE - ?U + length cs * SUB_CHUNK_SIZE" using False by simp
    ultimately have "out @ replicate (length (c # cs) * SUB_CHUNK_SIZE - (sz - index * SUB_CHUNK_SIZE)) 0 =
        (take ?U (xor_bytes c e) @ replicate (SUB_CHUNK_SIZE - ?U) 0) @ replicate ?left 0"
      using out by (simp only: replicate_add append_assoc append_Nil2)
    then show ?thesis using plain rest by simp
  qed
  have "length out = min (sz - index * SUB_CHUNK_SIZE) (length (c # cs) * SUB_CHUNK_SIZE)"
    using out IH(2) le lc by auto
  with out2 IH(1) e le lc show ?case by (simp add: xor_bytes_append)
qed

text \<open>Completeness: what is the exclusive or of zero-padded data with the stream unpacks.\<close>

lemma unpack_loop_complete:
  assumes "entropy_width R" and ok: "\<And>k. \<not> rp_cancelled R k"
    and "\<And>n. n < length chunks \<Longrightarrow> entropy_at E R address part si (first + index + n) \<noteq> None"
    and "\<And>c. c \<in> set chunks \<Longrightarrow> length c = SUB_CHUNK_SIZE"
    and "first + index + length chunks < U128"
    and "xor_bytes (concat chunks) (entropy_stream E R address part si (first + index) (length chunks))
       = out @ replicate k 0"
    and "length out = min (sz - index * SUB_CHUNK_SIZE) (length chunks * SUB_CHUNK_SIZE)"
  shows "unpack_loop E R address part first si sz index chunks = Inr out"
  using assms(3-)
proof (induction chunks arbitrary: index out k)
  case Nil
  then show ?case by simp
next
  case (Cons c cs)
  let ?U = "min (sz - index * SUB_CHUNK_SIZE) SUB_CHUNK_SIZE"
  from Cons.prems(1) [of 0] obtain e where e: "entropy_at E R address part si (first + index) = Some e"
    by auto
  have le: "length e = SUB_CHUNK_SIZE" using e assms(1) by (auto simp: entropy_width_def entropy_at_def)
  have lc: "length c = SUB_CHUNK_SIZE" using Cons.prems(2) by simp
  define tl where "tl = xor_bytes (concat cs) (entropy_stream E R address part si (first + Suc index) (length cs))"
  have x: "xor_bytes c e @ tl = out @ replicate k 0"
    using Cons.prems(4) e le lc by (simp add: xor_bytes_append tl_def)
  have tk: "take ?U (xor_bytes c e) = take ?U out"
  proof -
    have "take ?U (xor_bytes c e @ tl) = take ?U (out @ replicate k 0)" using x by simp
    moreover have "?U \<le> length out" using Cons.prems(5) by auto
    ultimately show ?thesis using le lc by simp
  qed
  have z: "list_all (\<lambda>b. b = 0) (drop ?U (xor_bytes c e))"
  proof (cases "SUB_CHUNK_SIZE \<le> sz - index * SUB_CHUNK_SIZE")
    case True
    then show ?thesis using le lc by simp
  next
    case False
    then have lo: "length out = ?U" using Cons.prems(5) by auto
    have "drop ?U (xor_bytes c e @ tl) = replicate k 0" using x lo by simp
    then have "drop ?U (xor_bytes c e) @ drop (?U - SUB_CHUNK_SIZE) tl = replicate k 0" using le lc by simp
    moreover have "set (replicate k (0 :: byte)) \<subseteq> {0}" by auto
    ultimately have "set (drop ?U (xor_bytes c e) @ drop (?U - SUB_CHUNK_SIZE) tl) \<subseteq> {0}" by simp
    then have "set (drop ?U (xor_bytes c e)) \<subseteq> {0}" by simp
    then show ?thesis by (auto simp: list_all_iff)
  qed
  have rest: "unpack_loop E R address part first si sz (Suc index) cs = Inr (drop SUB_CHUNK_SIZE out)"
  proof (rule Cons.IH)
    show "entropy_at E R address part si (first + Suc index + n) \<noteq> None" if "n < length cs" for n
      using Cons.prems(1) [of "Suc n"] that by simp
    show "length d = SUB_CHUNK_SIZE" if "d \<in> set cs" for d using Cons.prems(2) that by simp
    show "first + Suc index + length cs < U128" using Cons.prems(3) by simp
    show "length (drop SUB_CHUNK_SIZE out) = min (sz - Suc index * SUB_CHUNK_SIZE) (length cs * SUB_CHUNK_SIZE)"
      using Cons.prems(5) by simp
    have "tl = drop SUB_CHUNK_SIZE (xor_bytes c e @ tl)" using le lc by simp
    also have "\<dots> = drop SUB_CHUNK_SIZE out @ replicate (k - (SUB_CHUNK_SIZE - length out)) 0"
      unfolding x by simp
    finally show "xor_bytes (concat cs) (entropy_stream E R address part si (first + Suc index) (length cs)) =
        drop SUB_CHUNK_SIZE out @ replicate (k - (SUB_CHUNK_SIZE - length out)) 0"
      by (simp add: tl_def)
  qed
  have "take ?U out @ drop SUB_CHUNK_SIZE out = out"
  proof (cases "SUB_CHUNK_SIZE \<le> sz - index * SUB_CHUNK_SIZE")
    case False
    then have "length out = ?U" using Cons.prems(5) by auto
    then show ?thesis using False by simp
  qed (simp add: min_absorb2)
  moreover have "rp_entropy R (replica_seeds E (entropy_key E address part (first + index))) si = Some e"
    using e by (simp add: entropy_at_def)
  ultimately show ?case
    using rest tk z ok Cons.prems(3) by (simp add: Let_def addE_def)
qed

text \<open>The whole of \<open>unpack\<close>.\<close>

definition replica_ready :: "replica \<Rightarrow> bool" where
  "replica_ready R \<longleftrightarrow> rp_sse42 R \<and> rp_worker R \<and> rp_created R \<and> (\<forall>k. \<not> rp_cancelled R k)
     \<and> entropy_width R \<and> (\<forall>seeds s. rp_entropy R seeds s \<noteq> None)"

text \<open>The reference packing: zero padding to a full chunk, exclusive or with the position's stream.\<close>

definition pack_reference :: "deps \<Rightarrow> replica \<Rightarrow> bytes \<Rightarrow> nat \<times> nat \<times> nat \<Rightarrow> bytes \<Rightarrow> bytes" where
  "pack_reference E R address = (\<lambda>(part, first, si) plain.
     xor_bytes (plain @ replicate (MAX_CHUNK_SIZE - length plain) 0)
       (entropy_stream E R address part si first 32))"

lemma entropy_stream_length:
  "entropy_width R \<Longrightarrow> (\<And>i. i < n \<Longrightarrow> entropy_at E R address part si (number + i) \<noteq> None) \<Longrightarrow>
     length (entropy_stream E R address part si number n) = n * SUB_CHUNK_SIZE"
proof (induction n arbitrary: number)
  case (Suc n)
  obtain e where e: "entropy_at E R address part si number = Some e" using Suc.prems(2) [of 0] by auto
  moreover have "length e = SUB_CHUNK_SIZE" using e Suc.prems(1) by (auto simp: entropy_width_def entropy_at_def)
  moreover have "entropy_at E R address part si (Suc number + i) \<noteq> None" if "i < n" for i
    using Suc.prems(2) [of "Suc i"] that by simp
  ultimately show ?case using Suc.IH [of "Suc number"] Suc.prems(1) by simp
qed simp

lemma chunk_count: "length bs = MAX_CHUNK_SIZE \<Longrightarrow>
    concat (chunks_exact SUB_CHUNK_SIZE bs) = bs \<and> length (chunks_exact SUB_CHUNK_SIZE bs) = 32"
  by (rule chunks_exact_concat) (simp_all add: SUB_CHUNK_SIZE_def)

lemma unpack_sound_aux:
  assumes "entropy_width R" and "unpack E R bs address absolute_end sz = Inr out"
  obtains part first si where "position absolute_end = Inr (part, first, si)"
    "length bs = MAX_CHUNK_SIZE" "length out = sz"
    "out @ replicate (MAX_CHUNK_SIZE - sz) 0 = xor_bytes bs (entropy_stream E R address part si first 32)"
proof -
  from assms(2) obtain part first si where p: "position absolute_end = Inr (part, first, si)"
    and l: "length bs = MAX_CHUNK_SIZE" "sz \<le> length bs"
    and u: "unpack_loop E R address part first si sz 0 (chunks_exact SUB_CHUNK_SIZE bs) = Inr out"
    by (auto simp: unpack_def res_simps split: if_splits)
  have "32 * SUB_CHUNK_SIZE = MAX_CHUNK_SIZE" by (simp add: SUB_CHUNK_SIZE_def)
  with unpack_loop_sound [OF assms(1) chunks_exact_length u] chunk_count [OF l(1)] l(2) l(1)
  show thesis by (intro that [OF p l(1)]) auto
qed

lemma unpack_pack_aux:
  assumes r: "replica_ready R" and "plain \<noteq> []" and len: "length plain \<le> MAX_CHUNK_SIZE"
    and p: "position absolute_end = Inr pos"
  shows "unpack E R (pack_reference E R address pos plain) address absolute_end (length plain) = Inr plain"
proof -
  obtain part first si where pos: "pos = (part, first, si)" by (cases pos) auto
  have ew: "entropy_width R" and some: "entropy_at E R address part si n \<noteq> None" for n
    using r by (auto simp: replica_ready_def entropy_at_def)
  let ?stream = "entropy_stream E R address part si first 32"
  let ?padded = "plain @ replicate (MAX_CHUNK_SIZE - length plain) 0"
  let ?bs = "pack_reference E R address pos plain"
  have sl: "length ?stream = MAX_CHUNK_SIZE"
    using entropy_stream_length [OF ew, of 32] some by (simp add: SUB_CHUNK_SIZE_def)
  have pl: "length ?padded = MAX_CHUNK_SIZE" using len by simp
  have bl: "length ?bs = MAX_CHUNK_SIZE" using sl pl by (simp add: pack_reference_def pos)
  have x: "xor_bytes ?bs ?stream = ?padded"
    using xor_bytes_cancel sl pl by (simp add: pack_reference_def pos)
  have "first + 32 \<le> 13412 * 32" using position_bounds_aux p pos by auto
  then have small: "first + 0 + 32 < U128" by (simp add: U128_def)
  have "unpack_loop E R address part first si (length plain) 0 (chunks_exact SUB_CHUNK_SIZE ?bs) = Inr plain"
    using chunk_count [OF bl] x small some r len
    by (intro unpack_loop_complete [OF ew, where k = "MAX_CHUNK_SIZE - length plain"])
      (auto simp: replica_ready_def SUB_CHUNK_SIZE_def dest: chunks_exact_length)
  then show ?thesis
    using r p pos bl len assms(2) by (simp add: unpack_def replica_ready_def Suc_le_eq)
qed

lemma unpack_loop_no_panic:
  "first + index + length chunks < U128 \<Longrightarrow>
     unpack_loop E R address part first si sz index chunks \<noteq> Inl Panic"
proof (induction chunks arbitrary: index)
  case (Cons c cs)
  then show ?case by (auto simp: res_simps Let_def)
qed simp

lemma position_no_panic [simp]: "position off \<noteq> Inl Panic"
  by (auto simp: position_def res_simps Let_def)

lemma unpack_no_panic_aux: "unpack E R bs address absolute_end sz \<noteq> Inl Panic"
proof
  assume "unpack E R bs address absolute_end sz = Inl Panic"
  then obtain part first si where p: "position absolute_end = Inr (part, first, si)"
    and l: "length bs = MAX_CHUNK_SIZE"
    and u: "unpack_loop E R address part first si sz 0 (chunks_exact SUB_CHUNK_SIZE bs) = Inl Panic"
    by (auto simp: unpack_def res_simps split: if_splits)
  have "first + 32 \<le> 13412 * 32" using position_bounds_aux p by auto
  then have "first + 0 + length (chunks_exact SUB_CHUNK_SIZE bs) < U128"
    using chunk_count [OF l] by (simp add: U128_def)
  with u show False using unpack_loop_no_panic by blast
qed

end
