(* ===== verification/Chunk.thy ===== *)
theory Chunk
  imports Packing
begin

text \<open>
  Chunks of \<open>src/src/lib.rs\<close>: the binary chunk response (\<open>decode_binary_chunk\<close>), the proof
  check of one chunk against a block's geometry (\<open>verify_chunk_proof\<close>) and against a
  transaction's (\<open>check_chunk_geometry\<close>).
\<close>

section \<open>The chunk response\<close>

record Chunk =
  ck_chunk :: bytes
  ck_data_path :: bytes
  ck_tx_path :: bytes
  ck_packing :: Packing

definition MAX_PROOF_BYTES :: nat where "MAX_PROOF_BYTES = 64 * 1024"

text \<open>The closure \<open>field\<close>: a big-endian length of \<open>width\<close> bytes, its limit, the bytes.\<close>

definition chunk_field :: "nat \<Rightarrow> nat \<Rightarrow> bytes \<Rightarrow> nat \<Rightarrow> (bytes \<times> nat) res" where
  "chunk_field width limit body cursor =
     bindE (take_bytes body cursor width STR ''binary chunk field length'') (\<lambda>(prefix, cursor).
     let len = be_nat prefix in
     ensure (len \<le> limit) STR ''binary chunk field exceeds size limit''
     (take_bytes body cursor len STR ''binary chunk field''))"

definition decode_binary_chunk :: "deps \<Rightarrow> bytes \<Rightarrow> Chunk res" where
  "decode_binary_chunk E body =
     bindE (chunk_field 3 MAX_CHUNK_SIZE body 0) (\<lambda>(chunk, c1).
     bindE (chunk_field 3 MAX_PROOF_BYTES body c1) (\<lambda>(tx_path, c2).
     bindE (chunk_field 3 MAX_PROOF_BYTES body c2) (\<lambda>(data_path, c3).
     bindE (chunk_field 1 MAX_PACKING_LEN body c3) (\<lambda>(name, c4).
     bindE (contextE (from_utf8 name) STR ''invalid chunk packing encoding'') (\<lambda>name.
     bindE (packing_parse E name) (\<lambda>packing.
     ensure (c4 = length body) STR ''binary chunk response has trailing bytes''
     (Inr \<lparr>ck_chunk = chunk, ck_data_path = data_path, ck_tx_path = tx_path,
           ck_packing = packing\<rparr>)))))))"

section \<open>Chunk proofs\<close>

record BlockGeometry =
  bg_tx_root :: bytes
  bg_block_weave_size :: nat
  bg_previous_weave_size :: nat

record Geometry =
  g_tx_root :: bytes
  g_data_root :: bytes
  g_block_weave_size :: nat
  g_previous_weave_size :: nat
  g_first_offset :: nat
  g_end_offset :: nat
  g_data_size :: nat

record ProvenChunk =
  pc_bytes :: bytes
  pc_data_path :: bytes
  pc_tx_path :: bytes
  pc_transaction :: TxPath
  pc_data :: DataPath
  pc_relative_offset :: nat
  pc_first_offset :: nat

definition verify_chunk_proof ::
  "deps \<Rightarrow> Chunk \<Rightarrow> nat \<Rightarrow> BlockGeometry \<Rightarrow> replica option \<Rightarrow> ProvenChunk res" where
  "verify_chunk_proof E chunk absolute_offset geometry job =
     ensure (length (ck_chunk chunk) \<le> MAX_CHUNK_SIZE) STR ''chunk exceeds protocol limit''
     (ensure (length (ck_data_path chunk) \<le> MAX_PROOF_BYTES) STR ''data_path exceeds size limit''
     (ensure (length (ck_tx_path chunk) \<le> MAX_PROOF_BYTES) STR ''tx_path exceeds size limit''
     (bindE (validate_tx_path E (bg_tx_root geometry) absolute_offset (bg_block_weave_size geometry)
               (bg_previous_weave_size geometry) (ck_tx_path chunk)) (\<lambda>transaction.
      bindE (contextE (checked_add U128 (tp_start_bound transaction) 1)
               STR ''transaction start offset overflow'') (\<lambda>first_offset.
      bindE (contextE (checked_sub absolute_offset first_offset)
               STR ''requested offset precedes transaction'') (\<lambda>relative_offset.
      bindE (validate_data_path E (tp_data_root transaction) (tp_size transaction) relative_offset
               absolute_offset (ck_data_path chunk)) (\<lambda>data.
      ensure (dp_start data \<le> relative_offset \<and> relative_offset < dp_end data)
        STR ''data_path does not contain requested offset''
      (ensure (dp_end data \<le> tp_size transaction) STR ''data_path ends after transaction''
      (bindE (subE (dp_end data) (dp_start data)) (\<lambda>proven_size.
       ensure (proven_size < USIZE) STR ''chunk size overflow''
       (bindE (case ck_packing chunk of
                 Unpacked \<Rightarrow> Inr (ck_chunk chunk)
               | Replica29 address \<Rightarrow>
                   bindE (subE (dp_end data) 1) (\<lambda>last.
                   bindE (contextE (checked_add U128 first_offset last)
                            STR ''replica chunk end offset overflow'') (\<lambda>absolute_end.
                   bindE (contextE job STR ''replica unpacking not admitted'') (\<lambda>R.
                   unpack E R (ck_chunk chunk) address absolute_end proven_size)))) (\<lambda>bs.
        ensure (length bs = proven_size) STR ''chunk length does not match data_path''
        (ensure (sha256 E [bs] = dp_data_hash data) STR ''chunk hash does not match data_path''
        (Inr \<lparr>pc_bytes = bs, pc_data_path = ck_data_path chunk, pc_tx_path = ck_tx_path chunk,
              pc_transaction = transaction, pc_data = data, pc_relative_offset = relative_offset,
              pc_first_offset = first_offset\<rparr>))))))))))))))"

definition check_chunk_geometry :: "ProvenChunk \<Rightarrow> nat \<Rightarrow> Geometry \<Rightarrow> unit res" where
  "check_chunk_geometry proof relative_offset geometry =
     ensure (tp_data_root (pc_transaction proof) = g_data_root geometry)
       STR ''tx_path data root mismatch''
     (ensure (tp_end_offset (pc_transaction proof) = g_end_offset geometry)
       STR ''tx_path end offset mismatch''
     (ensure (tp_size (pc_transaction proof) = g_data_size geometry)
       STR ''tx_path transaction size mismatch''
     (ensure (pc_first_offset proof = g_first_offset geometry) STR ''tx_path start offset mismatch''
     (ensure (pc_relative_offset proof = relative_offset) STR ''tx_path relative offset mismatch''
     (Inr ())))))"

section \<open>Chunk responses: decoding inverts encoding\<close>

interpretation chunk_field_rd: reader "chunk_field w l" for w l
  unfolding chunk_field_def [abs_def] Let_def by (intro reader_intros)

text \<open>The reference encoding of a response with packing name \<open>name\<close>.\<close>

definition encode_chunk_field :: "nat \<Rightarrow> bytes \<Rightarrow> bytes" where
  "encode_chunk_field width bs = be_bytes width (length bs) @ bs"

definition encode_binary_chunk :: "bytes \<Rightarrow> bytes \<Rightarrow> bytes \<Rightarrow> bytes \<Rightarrow> bytes" where
  "encode_binary_chunk chunk tx_path data_path name =
     encode_chunk_field 3 chunk @ encode_chunk_field 3 tx_path
       @ encode_chunk_field 3 data_path @ encode_chunk_field 1 name"

lemma chunk_field_eq:
  "chunk_field w l body c = Inr (v, c') \<longleftrightarrow>
     c' < USIZE \<and> c' \<le> length body \<and> length v \<le> l \<and> length v < 256 ^ w
     \<and> sub_bytes body c c' = encode_chunk_field w v \<and> c' = c + w + length v"
proof
  assume "chunk_field w l body c = Inr (v, c')"
  then obtain n where n: "n = be_nat (take w (drop c body))" "n \<le> l"
    and b: "c + w \<le> length body" "c + w + n < USIZE" "c + w + n \<le> length body"
    and v: "v = take n (drop (c + w) body)" "c' = c + w + n"
    by (auto simp: chunk_field_def res_simps take_bytes_eq Let_def split: if_splits)
  have l: "length v = n" using v b by simp
  have "n < 256 ^ w" using be_nat_bound [of "take w (drop c body)"] n b by simp
  moreover have "be_bytes w n = take w (drop c body)"
    using be_bytes_be_nat [of "take w (drop c body)"] n b by simp
  moreover have "sub_bytes body c c' = take w (drop c body) @ take n (drop (c + w) body)"
    using v by (simp add: sub_bytes_def take_add add.commute [of w c] add.assoc)
  ultimately show "c' < USIZE \<and> c' \<le> length body \<and> length v \<le> l \<and> length v < 256 ^ w
     \<and> sub_bytes body c c' = encode_chunk_field w v \<and> c' = c + w + length v"
    using l v n b by (simp add: encode_chunk_field_def)
next
  assume a: "c' < USIZE \<and> c' \<le> length body \<and> length v \<le> l \<and> length v < 256 ^ w
     \<and> sub_bytes body c c' = encode_chunk_field w v \<and> c' = c + w + length v"
  then have s: "take (w + length v) (drop c body) = be_bytes w (length v) @ v"
    by (auto simp: sub_bytes_def encode_chunk_field_def add.assoc)
  have "take w (take (w + length v) (drop c body)) = be_bytes w (length v)"
    and "drop w (take (w + length v) (drop c body)) = v"
    unfolding s by simp_all
  then have "take w (drop c body) = be_bytes w (length v)"
    and "take (length v) (drop (c + w) body) = v"
    by (simp_all add: drop_take add.commute [of c w])
  then show "chunk_field w l body c = Inr (v, c')"
    using a by (simp add: chunk_field_def take_bytes_eq [THEN iffD2] be_nat_be_bytes)
qed

lemma decode_encode_binary_chunk:
  assumes l: "length body < USIZE" "length (ck_chunk ck) \<le> MAX_CHUNK_SIZE"
      "length (ck_tx_path ck) \<le> MAX_PROOF_BYTES" "length (ck_data_path ck) \<le> MAX_PROOF_BYTES"
    and n: "length name \<le> MAX_PACKING_LEN" "from_utf8 name = Some s" "packing_parse E s = Inr (ck_packing ck)"
    and body: "body = encode_binary_chunk (ck_chunk ck) (ck_tx_path ck) (ck_data_path ck) name"
  shows "decode_binary_chunk E body = Inr ck"
proof -
  define A B C D where "A = encode_chunk_field 3 (ck_chunk ck)" and "B = encode_chunk_field 3 (ck_tx_path ck)"
    and "C = encode_chunk_field 3 (ck_data_path ck)" and "D = encode_chunk_field 1 name"
  note abcd = A_def B_def C_def D_def
  have e: "encode_chunk_field 3 (ck_chunk ck) = A" "encode_chunk_field 3 (ck_tx_path ck) = B"
    "encode_chunk_field 3 (ck_data_path ck) = C" "encode_chunk_field (Suc 0) name = D"
    by (simp_all add: abcd)
  have b: "body = A @ B @ C @ D" using body by (simp add: encode_binary_chunk_def abcd)
  have len: "length A = 3 + length (ck_chunk ck)" "length B = 3 + length (ck_tx_path ck)"
    "length C = 3 + length (ck_data_path ck)" "length D = 1 + length name"
    by (simp_all add: abcd encode_chunk_field_def)
  have sub: "sub_bytes body 0 (length A) = A" "sub_bytes body (length A) (length A + length B) = B"
    "sub_bytes body (length A + length B) (length A + length B + length C) = C"
    "sub_bytes body (length A + length B + length C) (length body) = D"
    by (simp_all add: b sub_bytes_def)
  have tot: "length body = length A + length B + length C + length D" by (simp add: b)
  have f: "chunk_field 3 MAX_CHUNK_SIZE body 0 = Inr (ck_chunk ck, length A)"
    "chunk_field 3 MAX_PROOF_BYTES body (length A) = Inr (ck_tx_path ck, length A + length B)"
    "chunk_field 3 MAX_PROOF_BYTES body (length A + length B) = Inr (ck_data_path ck, length A + length B + length C)"
    "chunk_field 1 MAX_PACKING_LEN body (length A + length B + length C) = Inr (name, length body)"
    unfolding chunk_field_eq using sub l n len tot
    by (simp_all add: e MAX_PROOF_BYTES_def MAX_PACKING_LEN_def)
  show ?thesis using f n by (simp add: decode_binary_chunk_def)
qed

text \<open>A binary chunk response is accepted exactly when it is the length-prefixed encoding of
  its four fields within their limits, with a packing name that parses and nothing behind it.\<close>

theorem decode_binary_chunk_iff:
  "decode_binary_chunk E body = Inr ck \<longleftrightarrow>
     length body < USIZE
     \<and> length (ck_chunk ck) \<le> MAX_CHUNK_SIZE \<and> length (ck_tx_path ck) \<le> MAX_PROOF_BYTES
     \<and> length (ck_data_path ck) \<le> MAX_PROOF_BYTES
     \<and> (\<exists>name s. length name \<le> MAX_PACKING_LEN \<and> from_utf8 name = Some s
          \<and> packing_parse E s = Inr (ck_packing ck)
          \<and> body = encode_binary_chunk (ck_chunk ck) (ck_tx_path ck) (ck_data_path ck) name)"
  (is "?L \<longleftrightarrow> ?R")
proof
  assume ?L
  then obtain ch c1 tx c2 dp c3 name c4 s p where
    f: "chunk_field 3 MAX_CHUNK_SIZE body 0 = Inr (ch, c1)"
      "chunk_field 3 MAX_PROOF_BYTES body c1 = Inr (tx, c2)"
      "chunk_field 3 MAX_PROOF_BYTES body c2 = Inr (dp, c3)"
      "chunk_field 1 MAX_PACKING_LEN body c3 = Inr (name, c4)"
    and n: "from_utf8 name = Some s" "packing_parse E s = Inr p" "c4 = length body"
    and ck: "ck = \<lparr>ck_chunk = ch, ck_data_path = dp, ck_tx_path = tx, ck_packing = p\<rparr>"
    by (auto simp: decode_binary_chunk_def res_simps split: if_splits)
  note g = f [unfolded chunk_field_eq]
  have "body = sub_bytes body 0 c1 @ sub_bytes body c1 c2 @ sub_bytes body c2 c3 @ sub_bytes body c3 c4"
    using g n(3) by (simp add: sub_bytes_split) (simp add: sub_bytes_def)
  moreover have "sub_bytes body 0 c1 = encode_chunk_field 3 ch" "sub_bytes body c1 c2 = encode_chunk_field 3 tx"
    "sub_bytes body c2 c3 = encode_chunk_field 3 dp" "sub_bytes body c3 c4 = encode_chunk_field 1 name"
    using g by blast+
  ultimately have "body = encode_binary_chunk ch tx dp name" by (simp only: encode_binary_chunk_def)
  moreover have "length body < USIZE" using g n by simp
  ultimately show ?R using g n ck by auto
next
  assume ?R
  then show ?L using decode_encode_binary_chunk by blast
qed

lemma packing_parse_no_panic [simp]: "packing_parse E s \<noteq> Inl Panic"
  by (auto simp: packing_parse_def res_simps split: option.splits)

lemma decode_binary_chunk_no_panic [simp]: "decode_binary_chunk E body \<noteq> Inl Panic"
  using chunk_field_rd.rd_no_panic by (auto simp: decode_binary_chunk_def res_simps)

section \<open>What an accepted chunk proof says\<close>

text \<open>The context the walk of a transaction of \<open>sz\<close> bytes starts with at offset \<open>off\<close>.\<close>

definition data_context :: "nat \<Rightarrow> nat \<Rightarrow> DataContext" where
  "data_context sz off =
     \<lparr>dc_data_size = sz, dc_is_rightmost = None, dc_left_shift = 0,
      dc_check_borders = (STRICT_DATA_SPLIT_THRESHOLD \<le> off),
      dc_check_split = (if MERKLE_REBASE_SUPPORT_THRESHOLD \<le> off then Relaxed
         else if STRICT_DATA_SPLIT_THRESHOLD \<le> off then Strict else NoCheck),
      dc_allow_rebase = (MERKLE_REBASE_SUPPORT_THRESHOLD \<le> off), dc_rebase_depth = 0\<rparr>"

lemma data_context_simps [simp]:
  "dc_left_shift (data_context sz off) = 0"
  "dc_check_borders (data_context sz off) = (STRICT_DATA_SPLIT_THRESHOLD \<le> off)"
  "dc_allow_rebase (data_context sz off) = (MERKLE_REBASE_SUPPORT_THRESHOLD \<le> off)"
  "dc_check_split (data_context sz off) = NoCheck \<or> STRICT_DATA_SPLIT_THRESHOLD \<le> off"
  by (auto simp: data_context_def MERKLE_REBASE_SUPPORT_THRESHOLD_def STRICT_DATA_SPLIT_THRESHOLD_def)

lemma validate_data_path_walk:
  assumes "validate_data_path E root sz rel off path = r" and "\<And>m. r \<noteq> Inl (Fail m)"
  shows "rel < sz"
    and "walk_rebased_data_path E (Some root) rel 0 sz path (data_context sz off) = r"
  using assms
  by (auto simp: validate_data_path_def data_context_def MERKLE_REBASE_SUPPORT_THRESHOLD_def
      STRICT_DATA_SPLIT_THRESHOLD_def split: if_splits)

lemma rebase_inv_init: "rel < sz \<Longrightarrow> rebase_inv rel sz (dc_left_shift (data_context sz off)) rel 0 sz"
  by (simp add: rebase_inv_def)

lemma validate_data_path_bounds_aux:
  assumes "validate_data_path E root sz rel off path = Inr d" and "sz < U128"
  shows "dp_start d \<le> rel \<and> dp_start d < dp_end d \<and> dp_end d \<le> sz
    \<and> (STRICT_DATA_SPLIT_THRESHOLD \<le> off \<longrightarrow> dp_end d - dp_start d \<le> MAX_CHUNK_SIZE)"
proof -
  have w: "rel < sz" "walk_rebased_data_path E (Some root) rel 0 sz path (data_context sz off) = Inr d"
    using validate_data_path_walk [OF assms(1)] by auto
  show ?thesis
    using walk_rebased_bounds [OF w(2) rebase_inv_init [OF w(1)] assms(2) refl refl] by simp
qed

lemma validate_data_path_no_panic_aux:
  assumes "sz + MAX_CHUNK_SIZE \<le> U128"
  shows "validate_data_path E root sz rel off path \<noteq> Inl Panic"
proof
  assume p: "validate_data_path E root sz rel off path = Inl Panic"
  have w: "rel < sz" "walk_rebased_data_path E (Some root) rel 0 sz path (data_context sz off) = Inl Panic"
    using validate_data_path_walk [OF p] by auto
  show False
    using walk_rebased_no_panic [OF rebase_inv_init [OF w(1)] assms refl] w(2) by simp
qed

lemma validate_data_path_binding_aux:
  assumes "hash_widths E" "sz < U128"
    and "collision_free E xs" "set (data_inputs E (MERKLE_REBASE_SUPPORT_THRESHOLD \<le> off) path) \<subseteq> set xs"
    and "set (data_inputs E (MERKLE_REBASE_SUPPORT_THRESHOLD \<le> off) path') \<subseteq> set xs"
    and "rebase_headers (MERKLE_REBASE_SUPPORT_THRESHOLD \<le> off) path =
         rebase_headers (MERKLE_REBASE_SUPPORT_THRESHOLD \<le> off) path'"
    and p: "validate_data_path E root sz rel off path = Inr d"
    and p': "validate_data_path E root sz rel off path' = Inr d'"
  shows "d = d'"
proof -
  have w: "rel < sz" "walk_rebased_data_path E (Some root) rel 0 sz path (data_context sz off) = Inr d"
    "walk_rebased_data_path E (Some root) rel 0 sz path' (data_context sz off) = Inr d'"
    using validate_data_path_walk [OF p] validate_data_path_walk [OF p'] by auto
  show ?thesis
    by (rule walk_rebased_binding [OF assms(1,3,2,4,5,6) w(2,3) rebase_inv_init [OF w(1)]]) simp
qed

text \<open>The steps of an accepted chunk.\<close>

lemma verify_chunk_proof_steps:
  assumes "verify_chunk_proof E ck off g job = Inr p"
  obtains "validate_tx_path E (bg_tx_root g) off (bg_block_weave_size g) (bg_previous_weave_size g)
             (ck_tx_path ck) = Inr (pc_transaction p)"
    "pc_first_offset p = tp_start_bound (pc_transaction p) + 1"
    "pc_relative_offset p = off - pc_first_offset p" "pc_first_offset p \<le> off"
    "validate_data_path E (tp_data_root (pc_transaction p)) (tp_size (pc_transaction p))
       (pc_relative_offset p) off (ck_data_path ck) = Inr (pc_data p)"
    "dp_start (pc_data p) \<le> pc_relative_offset p" "pc_relative_offset p < dp_end (pc_data p)"
    "dp_end (pc_data p) \<le> tp_size (pc_transaction p)"
    "length (pc_bytes p) = dp_end (pc_data p) - dp_start (pc_data p)"
    "sha256 E [pc_bytes p] = dp_data_hash (pc_data p)"
    "ck_packing ck = Unpacked \<Longrightarrow> pc_bytes p = ck_chunk ck"
    "\<And>a. ck_packing ck = Replica29 a \<Longrightarrow> \<exists>R. job = Some R \<and>
       unpack E R (ck_chunk ck) a (pc_first_offset p + (dp_end (pc_data p) - 1)) (length (pc_bytes p))
         = Inr (pc_bytes p)"
    "length (pc_bytes p) \<le> MAX_CHUNK_SIZE"
    "pc_data_path p = ck_data_path ck" "pc_tx_path p = ck_tx_path ck"
proof -
  from assms obtain tx d bs where
    "length (ck_chunk ck) \<le> MAX_CHUNK_SIZE"
    "validate_tx_path E (bg_tx_root g) off (bg_block_weave_size g) (bg_previous_weave_size g) (ck_tx_path ck) = Inr tx"
    "tp_start_bound tx + 1 \<le> off"
    "validate_data_path E (tp_data_root tx) (tp_size tx) (off - (tp_start_bound tx + 1)) off (ck_data_path ck) = Inr d"
    "dp_start d \<le> off - (tp_start_bound tx + 1)" "off - (tp_start_bound tx + 1) < dp_end d" "dp_end d \<le> tp_size tx"
    "length bs = dp_end d - dp_start d" "sha256 E [bs] = dp_data_hash d"
    and src: "(case ck_packing ck of Unpacked \<Rightarrow> Inr (ck_chunk ck)
       | Replica29 address \<Rightarrow> bindE (subE (dp_end d) 1) (\<lambda>last.
           bindE (contextE (checked_add U128 (tp_start_bound tx + 1) last)
                    STR ''replica chunk end offset overflow'') (\<lambda>absolute_end.
           bindE (contextE job STR ''replica unpacking not admitted'') (\<lambda>R.
           unpack E R (ck_chunk ck) address absolute_end (dp_end d - dp_start d))))) = Inr bs"
    and p: "p = \<lparr>pc_bytes = bs, pc_data_path = ck_data_path ck, pc_tx_path = ck_tx_path ck,
        pc_transaction = tx, pc_data = d, pc_relative_offset = off - (tp_start_bound tx + 1),
        pc_first_offset = tp_start_bound tx + 1\<rparr>"
    unfolding verify_chunk_proof_def by (auto simp only: res_simps split: if_splits)
  moreover have "length bs \<le> MAX_CHUNK_SIZE"
  proof (cases "ck_packing ck")
    case Unpacked
    then show ?thesis using src calculation(1) by simp
  next
    case (Replica29 a)
    then show ?thesis using src calculation(8) by (auto simp: res_simps unpack_def split: if_splits)
  qed
  ultimately show thesis
    by (intro that) (auto simp: res_simps split: Packing.Packing.splits)
qed

end
