(* ===== verification/Stream.thy ===== *)
theory Stream
  imports Chunk
begin

text \<open>
  Streamed content, \<open>src/src/streaming.rs\<close>, and the fetch of one proven chunk behind it
  (\<open>fetch_verified_chunk_inner\<close> of \<open>src/src/lib.rs\<close>, \<open>load_chunk_bytes\<close> of \<open>src/src/disk_cache.rs\<close>): a
  content whose bytes are fetched again from untrusted peers, chunk by chunk, whenever they are
  read.  What the store, the disk and the peers answer is the record \<open>network\<close>, a parameter.
\<close>

section \<open>The answers of the network\<close>

record CachedChunk =
  cc_hash :: bytes
  cc_start :: nat
  cc_end :: nat
  cc_data_path :: bytes
  cc_tx_path :: bytes
  cc_source_host :: str

text \<open>A request for a chunk: a 404, any other error, or a chunk with the job that may unpack it.\<close>

datatype answer = ChunkMissing | ChunkError error | ChunkAnswer Chunk replica

record network =
  n_rows :: "nat \<Rightarrow> BlockGeometry \<Rightarrow> CachedChunk res list" \<comment> \<open>what \<open>store.cached_chunk\<close> returns, call by call\<close>
  n_file :: "bytes \<Rightarrow> bytes option res"                  \<comment> \<open>the cached file of a hash, if it can be read and locked\<close>
  n_forget :: "CachedChunk \<Rightarrow> unit res"                 \<comment> \<open>\<open>store.forget_cached_chunk\<close>\<close>
  n_chunks :: "nat \<Rightarrow> (str \<times> answer) list"              \<comment> \<open>the answers of \<open>hedged_requests\<close> in their order\<close>
  n_host :: "str \<Rightarrow> str res"                             \<comment> \<open>the host of a source's URL\<close>

record ChunkFetch =
  cf_proof :: ProvenChunk
  cf_source_host :: str
  cf_cache_hit :: bool

section \<open>Fetching a proven chunk\<close>

text \<open>A panic of the work ends its task with an error.\<close>

definition cpu_work :: "'a res \<Rightarrow> 'a res" where
  "cpu_work r = (case r of Inl Panic \<Rightarrow> Inl (Fail STR ''CPU verification task failed'') | _ \<Rightarrow> r)"

definition load_chunk_bytes :: "deps \<Rightarrow> network \<Rightarrow> bytes \<Rightarrow> nat \<Rightarrow> bytes option res" where
  "load_chunk_bytes E N hash n =
     ensure (n \<le> MAX_CHUNK_SIZE) STR ''cached chunk exceeds size limit''
     (bindE (n_file N hash) (\<lambda>file. case file of
        None \<Rightarrow> Inr None
      | Some bs \<Rightarrow> Inr (if length bs \<noteq> n \<or> sha256 E [bs] \<noteq> hash then None else Some bs)))"

definition cached_candidate ::
  "deps \<Rightarrow> network \<Rightarrow> nat \<Rightarrow> BlockGeometry \<Rightarrow> CachedChunk \<Rightarrow> ProvenChunk option res" where
  "cached_candidate E N offset geometry entry =
     bindE (subE (cc_end entry) (cc_start entry)) (\<lambda>n.
     ensure (n < USIZE) STR ''out of range integral type conversion attempted''
     (bindE (load_chunk_bytes E N (cc_hash entry) n) (\<lambda>loaded. case loaded of
        None \<Rightarrow> Inr None
      | Some bs \<Rightarrow>
          let chunk = \<lparr>ck_chunk = bs, ck_data_path = cc_data_path entry, ck_tx_path = cc_tx_path entry,
                       ck_packing = Unpacked\<rparr> in
          bindE (cpu_work (verify_chunk_proof E chunk offset geometry None)) (\<lambda>proof.
          ensure (checked_add U128 (pc_first_offset proof) (dp_start (pc_data proof)) = Some (cc_start entry)
              \<and> checked_add U128 (pc_first_offset proof) (dp_end (pc_data proof)) = Some (cc_end entry)
              \<and> dp_data_hash (pc_data proof) = cc_hash entry) STR ''cached chunk interval mismatch''
          (Inr (Some proof))))))"

text \<open>The rows of the store one after the other; an invalid one is forgotten.\<close>

fun cached_lookup ::
  "deps \<Rightarrow> network \<Rightarrow> nat \<Rightarrow> BlockGeometry \<Rightarrow> CachedChunk res list \<Rightarrow> ChunkFetch option res" where
  "cached_lookup E N offset geometry [] = Inr None"
| "cached_lookup E N offset geometry (row # rows) =
     bindE row (\<lambda>entry.
     case cached_candidate E N offset geometry entry of
       Inr (Some proof) \<Rightarrow> Inr (Some \<lparr>cf_proof = proof, cf_source_host = cc_source_host entry, cf_cache_hit = True\<rparr>)
     | Inl Panic \<Rightarrow> Inl Panic
     | _ \<Rightarrow> bindE (n_forget N entry) (\<lambda>_. cached_lookup E N offset geometry rows))"

text \<open>The job of a request is acquired for packed chunks only.\<close>

definition request_job :: "Chunk \<Rightarrow> replica \<Rightarrow> replica option" where
  "request_job chunk job = (if ck_packing chunk \<noteq> Unpacked then Some job else None)"

fun first_valid ::
  "deps \<Rightarrow> network \<Rightarrow> nat \<Rightarrow> BlockGeometry \<Rightarrow> bool \<Rightarrow> (str \<times> answer) list \<Rightarrow> ChunkFetch option res" where
  "first_valid E N offset geometry invalid [] =
     (if invalid then Inl (Fail STR ''all chunk candidates failed'') else Inr None)"
| "first_valid E N offset geometry invalid ((source, a) # rest) = (case a of
     ChunkMissing \<Rightarrow> first_valid E N offset geometry invalid rest
   | ChunkError _ \<Rightarrow> first_valid E N offset geometry True rest
   | ChunkAnswer chunk job \<Rightarrow>
       (case cpu_work (verify_chunk_proof E chunk offset geometry (request_job chunk job)) of
          Inl _ \<Rightarrow> first_valid E N offset geometry True rest
        | Inr proof \<Rightarrow> bindE (n_host N source) (\<lambda>host.
            Inr (Some \<lparr>cf_proof = proof, cf_source_host = host, cf_cache_hit = False\<rparr>))))"

definition fetch_verified_chunk :: "deps \<Rightarrow> network \<Rightarrow> nat \<Rightarrow> BlockGeometry \<Rightarrow> ChunkFetch option res" where
  "fetch_verified_chunk E N offset geometry =
     (case cached_lookup E N offset geometry (n_rows N offset geometry) of
        Inr (Some chunk) \<Rightarrow> Inr (Some chunk)
      | Inl Panic \<Rightarrow> Inl Panic
      | _ \<Rightarrow> first_valid E N offset geometry False (n_chunks N offset))"

section \<open>A streamed content\<close>

text \<open>The two chunks read last are kept: start, bytes, hash.\<close>

record ChunkSource =
  cs_geometry :: Geometry
  cs_cached :: "(nat \<times> bytes \<times> bytes) list"

definition source_new :: "Geometry \<Rightarrow> ChunkSource" where
  "source_new geometry = \<lparr>cs_geometry = geometry, cs_cached = []\<rparr>"

definition block_geometry :: "Geometry \<Rightarrow> BlockGeometry" where
  "block_geometry g = \<lparr>bg_tx_root = g_tx_root g, bg_block_weave_size = g_block_weave_size g,
     bg_previous_weave_size = g_previous_weave_size g\<rparr>"

definition stream_fetch :: "deps \<Rightarrow> network \<Rightarrow> Geometry \<Rightarrow> nat \<Rightarrow> (nat \<times> bytes \<times> bytes) res" where
  "stream_fetch E N g pos =
     bindE (contextE (checked_add U128 (g_first_offset g) pos) STR ''stream chunk offset overflow'') (\<lambda>absolute.
     bindE (fetch_verified_chunk E N absolute (block_geometry g)) (\<lambda>fetched.
     bindE (contextE fetched STR ''missing chunk'') (\<lambda>fetched.
     bindE (check_chunk_geometry (cf_proof fetched) pos g) (\<lambda>_.
     ensure (dp_start (pc_data (cf_proof fetched)) < USIZE) STR ''out of range integral type conversion attempted''
     (Inr (dp_start (pc_data (cf_proof fetched)), pc_bytes (cf_proof fetched),
           dp_data_hash (pc_data (cf_proof fetched))))))))"

text \<open>A kept chunk that holds the position, or a fetched one, moves to the front.\<close>

definition covers :: "nat \<Rightarrow> nat \<times> bytes \<times> bytes \<Rightarrow> bool" where
  "covers pos c = (case c of (start, bs, _) \<Rightarrow> start \<le> pos \<and> pos - start < length bs)"

fun remove_start :: "nat \<Rightarrow> (nat \<times> bytes \<times> bytes) list \<Rightarrow> (nat \<times> bytes \<times> bytes) list" where
  "remove_start start [] = []"
| "remove_start start (c # cs) = (if fst c = start then cs else c # remove_start start cs)"

definition remember :: "nat \<times> bytes \<times> bytes \<Rightarrow> (nat \<times> bytes \<times> bytes) list \<Rightarrow> (nat \<times> bytes \<times> bytes) list" where
  "remember c cached =
     (let cached = remove_start (fst c) cached in
      c # (if length cached = 2 then butlast cached else cached))"

definition chunk_at :: "deps \<Rightarrow> network \<Rightarrow> ChunkSource \<Rightarrow> nat \<Rightarrow> (nat \<times> bytes) res \<times> ChunkSource" where
  "chunk_at E N s pos =
     (case (case List.find (covers pos) (cs_cached s) of
              Some chunk \<Rightarrow> Inr chunk
            | None \<Rightarrow> stream_fetch E N (cs_geometry s) pos) of
        Inl e \<Rightarrow> (Inl e, s)
      | Inr (start, bs, hash) \<Rightarrow> (Inr (start, bs), s\<lparr>cs_cached := remember (start, bs, hash) (cs_cached s)\<rparr>))"

definition stream_piece :: "nat \<Rightarrow> nat \<Rightarrow> nat \<Rightarrow> bytes \<Rightarrow> bytes res" where
  "stream_piece pos stop start bs =
     bindE (subE pos start) (\<lambda>within.
     bindE (subE (length bs) within) (\<lambda>room.
     let n = min (stop - pos) room in
     ensure (n > 0) STR ''verified stream made no progress'' (slice bs within (within + n))))"

lemma window: "sub_bytes bs a (a + min k (length bs - a)) = take k (drop a bs)"
  by (simp add: sub_bytes_def min_def)

lemma slice_window:
  "a \<le> length bs \<Longrightarrow> slice bs a (a + min k (length bs - a)) = Inr (take k (drop a bs))"
  by (simp add: window del: diff_add_inverse)

lemma stream_piece_eq:
  "stream_piece pos stop start bs = Inr piece \<longleftrightarrow>
     start \<le> pos \<and> pos < start + length bs \<and> pos < stop
     \<and> piece = take (stop - pos) (drop (pos - start) bs)"
proof -
  define w where "w = pos - start"
  show ?thesis
  proof (cases "start \<le> pos \<and> w \<le> length bs")
    case True
    then show ?thesis
      by (auto simp: stream_piece_def subE_def Let_def slice_window w_def [symmetric]) (auto simp: w_def)
  qed (auto simp: stream_piece_def res_simps w_def)
qed

lemma stream_piece_length:
  "stream_piece pos stop start bs = Inr piece \<Longrightarrow>
     0 < length piece \<and> pos + length piece \<le> stop"
  by (auto simp: stream_piece_eq)

function read_loop ::
  "deps \<Rightarrow> network \<Rightarrow> ChunkSource \<Rightarrow> nat \<Rightarrow> nat \<Rightarrow> bytes \<Rightarrow> bytes res \<times> ChunkSource" where
  "read_loop E N s pos stop output =
     (if pos < stop then
        (case chunk_at E N s pos of
           (Inl e, s') \<Rightarrow> (Inl e, s')
         | (Inr (start, bs), s') \<Rightarrow>
             (case stream_piece pos stop start bs of
                Inl e \<Rightarrow> (Inl e, s')
              | Inr piece \<Rightarrow> read_loop E N s' (pos + length piece) stop (output @ piece)))
      else (Inr output, s))"
  by pat_completeness auto
termination
  by (relation "measure (\<lambda>(E, N, s, pos, stop, out). stop - pos)")
    (simp, clarsimp, drule stream_piece_length, linarith)

declare read_loop.simps [simp del]

definition stream_read_at :: "deps \<Rightarrow> network \<Rightarrow> ChunkSource \<Rightarrow> nat \<Rightarrow> nat \<Rightarrow> bytes res \<times> ChunkSource" where
  "stream_read_at E N s offset n =
     (case contextE (checked_add USIZE offset n) STR ''stream range overflow'' of
        Inl e \<Rightarrow> (Inl e, s)
      | Inr stop \<Rightarrow>
          if stop \<le> g_data_size (cs_geometry s) then read_loop E N s offset stop []
          else (Inl (Fail STR ''stream range exceeds transaction''), s))"

section \<open>Reading ahead\<close>

text \<open>
  The chunks at positions a maximum chunk apart are read concurrently and taken in order; a gap in
  front of the next one is read on its own.  \<open>read\<close> is the chunk each task obtains.
\<close>

definition ahead_positions :: "nat \<Rightarrow> nat \<Rightarrow> nat list" where
  "ahead_positions offset stop =
     map (\<lambda>k. offset + k * MAX_CHUNK_SIZE) [0..<(stop - offset + MAX_CHUNK_SIZE - 1) div MAX_CHUNK_SIZE]"

definition ahead_next ::
  "(nat \<Rightarrow> (nat \<times> bytes) res) \<Rightarrow> nat list \<Rightarrow> (nat \<times> bytes) option \<Rightarrow> ((nat \<times> bytes) option \<times> nat list) res" where
  "ahead_next read pending upcoming = (case (upcoming, pending) of
     (None, p # ps) \<Rightarrow> bindE (read p) (\<lambda>chunk. Inr (Some chunk, ps))
   | _ \<Rightarrow> Inr (upcoming, pending))"

definition ahead_take ::
  "(nat \<Rightarrow> (nat \<times> bytes) res) \<Rightarrow> nat \<Rightarrow> (nat \<times> bytes) option \<Rightarrow> ((nat \<times> bytes) \<times> (nat \<times> bytes) option) res" where
  "ahead_take read pos upcoming = (case upcoming of
     Some (start, bs) \<Rightarrow>
       if start \<le> pos then Inr ((start, bs), None)
       else bindE (read pos) (\<lambda>chunk. Inr (chunk, upcoming))
   | None \<Rightarrow> bindE (read pos) (\<lambda>chunk. Inr (chunk, None)))"

definition ahead_piece :: "nat \<Rightarrow> nat \<Rightarrow> nat \<Rightarrow> bytes \<Rightarrow> bytes res" where
  "ahead_piece pos stop start bs =
     ensure (start \<le> pos \<and> pos - start < length bs) STR ''verified stream made no progress''
     (bindE (subE stop pos) (\<lambda>left.
      let within = pos - start; n = min left (length bs - within) in
      slice bs within (within + n)))"

lemma ahead_piece_eq:
  "ahead_piece pos stop start bs = Inr piece \<longleftrightarrow>
     start \<le> pos \<and> pos < start + length bs \<and> pos \<le> stop
     \<and> piece = take (stop - pos) (drop (pos - start) bs)"
proof -
  define w where "w = pos - start"
  show ?thesis
  proof (cases "start \<le> pos \<and> w < length bs \<and> pos \<le> stop")
    case True
    then show ?thesis
      by (auto simp: ahead_piece_def subE_def Let_def slice_window w_def [symmetric]) (auto simp: w_def)
  qed (auto simp: ahead_piece_def res_simps w_def)
qed

function ahead_loop ::
  "(nat \<Rightarrow> (nat \<times> bytes) res) \<Rightarrow> nat list \<Rightarrow> (nat \<times> bytes) option \<Rightarrow> nat \<Rightarrow> nat \<Rightarrow> bytes res" where
  "ahead_loop read pending upcoming pos stop =
     (if pos = stop then Inr []
      else
        bindE (ahead_next read pending upcoming) (\<lambda>(upcoming, pending).
        bindE (ahead_take read pos upcoming) (\<lambda>((start, bs), upcoming).
        bindE (ahead_piece pos stop start bs) (\<lambda>piece.
        bindE (ahead_loop read pending upcoming (pos + length piece) stop) (\<lambda>rest.
        Inr (piece @ rest))))))"
  by pat_completeness auto
termination
  by (relation "measure (\<lambda>(read, pending, upcoming, pos, stop). stop - pos)")
    (auto simp: ahead_piece_eq)

declare ahead_loop.simps [simp del]

definition read_ahead :: "(nat \<Rightarrow> (nat \<times> bytes) res) \<Rightarrow> Geometry \<Rightarrow> nat \<Rightarrow> nat \<Rightarrow> bytes res" where
  "read_ahead read g offset n =
     bindE (contextE (checked_add USIZE offset n) STR ''stream range overflow'') (\<lambda>stop.
     ensure (stop \<le> g_data_size g) STR ''stream range exceeds transaction''
     (ahead_loop read (ahead_positions offset stop) None offset stop))"

end
