(* ===== verification/Json.thy ===== *)
theory Json
  imports Codec
begin

text \<open>
  \<open>serde_json::Value\<close> as the gateway is built: \<open>arbitrary_precision\<close> keeps a number as its text,
  \<open>preserve_order\<close> keeps an object as the sequence of its entries, keys distinct.
\<close>

datatype json =
    JNull
  | JBool bool
  | JNumber str
  | JString str
  | JArray "json list"
  | JObject "(str \<times> json) list"

text \<open>\<open>Value::get\<close> with a string key, and the accessors.\<close>

fun json_get :: "json \<Rightarrow> str \<Rightarrow> json option" where
  "json_get (JObject fs) name = map_of fs name"
| "json_get _ name = None"

fun as_str :: "json \<Rightarrow> str option" where
  "as_str (JString s) = Some s"
| "as_str _ = None"

fun as_array :: "json \<Rightarrow> json list option" where
  "as_array (JArray xs) = Some xs"
| "as_array _ = None"

fun as_object :: "json \<Rightarrow> (str \<times> json) list option" where
  "as_object (JObject fs) = Some fs"
| "as_object _ = None"

text \<open>\<open>Map::insert\<close>: an existing entry keeps its place, a new one goes to the end.\<close>

fun json_insert :: "str \<Rightarrow> json \<Rightarrow> (str \<times> json) list \<Rightarrow> (str \<times> json) list" where
  "json_insert k v [] = [(k, v)]"
| "json_insert k v ((k', v') # fs) =
     (if k' = k then (k, v) # fs else (k', v') # json_insert k v fs)"

lemma as_str_eq: "as_str v = Some s \<longleftrightarrow> v = JString s"
  by (cases v) auto

lemma map_of_json_insert [simp]: "map_of (json_insert k v fs) = (map_of fs)(k \<mapsto> v)"
  by (induction k v fs rule: json_insert.induct) (auto simp: fun_upd_twist)

end
