(* ===== verification/DeepHash.thy ===== *)
theory DeepHash
  imports Json
begin

text \<open>
  The deep hash of \<open>src/src/lib.rs\<close> (\<open>deep_hash_blob\<close>, \<open>deep_hash_list\<close> and their decimal and
  base64 forms), and its abstract specification: a hash of a tree of byte strings that determines
  the tree.
\<close>

section \<open>Deep hash\<close>

definition deep_hash_blob :: "deps \<Rightarrow> bytes \<Rightarrow> bytes" where
  "deep_hash_blob E bs =
     (let tag = sha384 E [as_bytes (''blob'' @ show_nat (length bs))]; data = sha384 E [bs]
      in sha384 E [tag, data])"

definition deep_hash_list :: "deps \<Rightarrow> bytes list \<Rightarrow> bytes" where
  "deep_hash_list E items =
     foldl (\<lambda>accumulator item. sha384 E [accumulator, item])
       (sha384 E [as_bytes (''list'' @ show_nat (length items))]) items"

definition parse_biguint :: "deps \<Rightarrow> str \<Rightarrow> String.literal \<Rightarrow> nat res" where
  "parse_biguint E value label =
     ensure (value \<noteq> [] \<and> list_all is_ascii_digit value) (STR ''invalid '' + label)
     (contextE (x_big_parse E value) (STR ''invalid '' + label))"

definition deep_hash_decimal :: "deps \<Rightarrow> str \<Rightarrow> String.literal \<Rightarrow> bytes res" where
  "deep_hash_decimal E value label =
     bindE (parse_biguint E value label) (\<lambda>n. Inr (deep_hash_blob E (as_bytes (x_big_str E n))))"

definition deep_hash_b64 :: "deps \<Rightarrow> str \<Rightarrow> String.literal \<Rightarrow> bytes res" where
  "deep_hash_b64 E value label =
     bindE (decode_b64 E value label) (\<lambda>d. Inr (deep_hash_blob E d))"

definition deep_hash_b64_list :: "deps \<Rightarrow> str list \<Rightarrow> String.literal \<Rightarrow> bytes res" where
  "deep_hash_b64_list E values label =
     bindE (mapE (\<lambda>value. deep_hash_b64 E value label) values) (\<lambda>hashes.
     Inr (deep_hash_list E hashes))"

definition deep_hash_decimals :: "deps \<Rightarrow> (str \<times> String.literal) list \<Rightarrow> bytes list res" where
  "deep_hash_decimals E vs = mapE (\<lambda>(value, label). deep_hash_decimal E value label) vs"

section \<open>The deep hash determines its tree\<close>

datatype tree = Blob bytes | Node "tree list"

fun tree_hash :: "deps \<Rightarrow> tree \<Rightarrow> bytes" where
  "tree_hash E (Blob b) = deep_hash_blob E b"
| "tree_hash E (Node ts) = deep_hash_list E (map (tree_hash E) ts)"

definition blob_tag :: "nat \<Rightarrow> bytes" where "blob_tag n = as_bytes (''blob'' @ show_nat n)"
definition list_tag :: "nat \<Rightarrow> bytes" where "list_tag n = as_bytes (''list'' @ show_nat n)"

fun chain_inputs :: "deps \<Rightarrow> bytes \<Rightarrow> bytes list \<Rightarrow> bytes list" where
  "chain_inputs E acc [] = []"
| "chain_inputs E acc (x # xs) = (acc @ x) # chain_inputs E (sha384 E [acc, x]) xs"

text \<open>Everything SHA-384 is applied to for a tree.\<close>

fun tree_inputs :: "deps \<Rightarrow> tree \<Rightarrow> bytes list" where
  "tree_inputs E (Blob b) = [blob_tag (length b), b] @ chain_inputs E (sha384 E [blob_tag (length b)]) [sha384 E [b]]"
| "tree_inputs E (Node ts) = [list_tag (length ts)]
     @ chain_inputs E (sha384 E [list_tag (length ts)]) (map (tree_hash E) ts) @ concat (map (tree_inputs E) ts)"

text \<open>Lengths and counts are \<open>usize\<close> values.\<close>

fun tree_fits :: "tree \<Rightarrow> bool" where
  "tree_fits (Blob b) \<longleftrightarrow> length b < USIZE"
| "tree_fits (Node ts) \<longleftrightarrow> length ts < USIZE \<and> list_all tree_fits ts"

definition collision_free_384 :: "deps \<Rightarrow> bytes list \<Rightarrow> bool" where
  "collision_free_384 E xs \<longleftrightarrow> inj_on (x_sha384 E) (set xs)"

abbreviation chain :: "deps \<Rightarrow> bytes \<Rightarrow> bytes list \<Rightarrow> bytes" where
  "chain E acc xs \<equiv> foldl (\<lambda>accumulator item. sha384 E [accumulator, item]) acc xs"

lemma tree_hash_chain:
  "deep_hash_blob E b = chain E (sha384 E [blob_tag (length b)]) [sha384 E [b]]"
  "deep_hash_list E xs = chain E (sha384 E [list_tag (length xs)]) xs"
  by (simp_all add: deep_hash_blob_def deep_hash_list_def blob_tag_def list_tag_def Let_def)

lemma show_nat_length: "n < 10 ^ Suc k \<Longrightarrow> length (show_nat n) \<le> Suc k"
proof (induction k arbitrary: n)
  case (Suc k)
  then show ?case by (subst show_nat.simps) auto
qed (simp add: show_nat.simps)

lemma tag_length:
  assumes "n < USIZE"
  shows "length (blob_tag n) < 96" "length (list_tag n) < 96"
proof -
  have "length (show_nat n) \<le> 20"
    using show_nat_length [of n 19] assms by (simp add: U64_def)
  then show "length (blob_tag n) < 96" "length (list_tag n) < 96"
    by (simp_all add: blob_tag_def list_tag_def as_bytes_def)
qed

lemma tags_differ [simp]: "blob_tag n \<noteq> list_tag m" "list_tag m \<noteq> blob_tag n"
  unfolding blob_tag_def list_tag_def using as_bytes_inj by fastforce+

lemma chain_inputs_snoc:
  "chain_inputs E acc (xs @ [x]) = chain_inputs E acc xs @ [chain E acc xs @ x]"
  by (induction xs arbitrary: acc) auto

lemma chain_length: "hash_widths E \<Longrightarrow> length acc = 48 \<Longrightarrow> length (chain E acc xs) = 48"
  by (cases xs rule: rev_cases) auto

lemma collision_free_384D:
  "collision_free_384 E zs \<Longrightarrow> x \<in> set zs \<Longrightarrow> y \<in> set zs \<Longrightarrow> sha384 E [x] = sha384 E [y] \<Longrightarrow> x = y"
  by (auto simp: collision_free_384_def sha384_def dest: inj_onD)

lemma chain_inj:
  assumes "hash_widths E" "collision_free_384 E zs"
    and "t \<in> set zs" "t' \<in> set zs" "length t < 96" "length t' < 96"
    and "set (chain_inputs E (sha384 E [t]) xs) \<subseteq> set zs" "set (chain_inputs E (sha384 E [t']) ys) \<subseteq> set zs"
    and "\<And>x. x \<in> set xs \<union> set ys \<Longrightarrow> length x = 48"
    and "chain E (sha384 E [t]) xs = chain E (sha384 E [t']) ys"
  shows "t = t' \<and> xs = ys"
  using assms(7-10)
proof (induction xs arbitrary: ys rule: rev_induct)
  case Nil
  show ?case
  proof (cases ys rule: rev_cases)
    case Nil
    then show ?thesis using Nil.prems assms(2,3,4) by (auto intro: collision_free_384D)
  next
    case (snoc zs' y)
    then have "sha384 E [t] = sha384 E [chain E (sha384 E [t']) zs' @ y]"
      using Nil.prems by (simp add: sha384_def)
    then have "t = chain E (sha384 E [t']) zs' @ y"
      using collision_free_384D [OF assms(2,3)] Nil.prems snoc by (simp add: chain_inputs_snoc)
    then have "length t = 96" using Nil.prems snoc chain_length [OF assms(1)] assms(1) by simp
    then show ?thesis using assms by simp
  qed
next
  case (snoc x xs)
  show ?case
  proof (cases ys rule: rev_cases)
    case Nil
    then have "sha384 E [chain E (sha384 E [t]) xs @ x] = sha384 E [t']"
      using snoc.prems by (simp add: sha384_def)
    then have "chain E (sha384 E [t]) xs @ x = t'"
      using collision_free_384D [OF assms(2) _ assms(4)] snoc.prems by (simp add: chain_inputs_snoc)
    then have "length t' = 96" using snoc.prems chain_length [OF assms(1)] assms(1) by auto
    then show ?thesis using assms by simp
  next
    case s': (snoc ys' y)
    then have "sha384 E [chain E (sha384 E [t]) xs @ x] = sha384 E [chain E (sha384 E [t']) ys' @ y]"
      using snoc.prems by (simp add: sha384_def)
    then have e: "chain E (sha384 E [t]) xs @ x = chain E (sha384 E [t']) ys' @ y"
      using collision_free_384D [OF assms(2)] snoc.prems s' by (simp add: chain_inputs_snoc)
    then have "chain E (sha384 E [t]) xs = chain E (sha384 E [t']) ys' \<and> x = y"
      using snoc.prems s' by simp
    moreover from this have "t = t' \<and> xs = ys'"
      using snoc.prems s' by (intro snoc.IH) (auto simp: chain_inputs_snoc)
    ultimately show ?thesis using s' by simp
  qed
qed

lemma tree_hash_length: "hash_widths E \<Longrightarrow> length (tree_hash E t) = 48"
  by (cases t) (simp_all add: tree_hash_chain chain_length)

lemma tree_hash_inj:
  assumes "hash_widths E" "collision_free_384 E zs"
    and "set (tree_inputs E t) \<subseteq> set zs" "set (tree_inputs E u) \<subseteq> set zs" "tree_fits t" "tree_fits u"
    and "tree_hash E t = tree_hash E u"
  shows "t = u"
  using assms(3-7)
proof (induction t arbitrary: u)
  case (Blob b)
  note inj = chain_inj [OF assms(1,2), of "blob_tag (length b)" _ "[sha384 E [b]]"]
  show ?case
  proof (cases u)
    case (Blob c)
    have "blob_tag (length b) = blob_tag (length c) \<and> [sha384 E [b]] = [sha384 E [c]]"
      by (rule inj) (use Blob.prems Blob assms(1) tag_length in \<open>auto simp: tree_hash_chain simp del: foldl.simps\<close>)
    then have "b = c" using collision_free_384D [OF assms(2), of b c] Blob.prems Blob by simp
    then show ?thesis using Blob by simp
  next
    case (Node us)
    have "blob_tag (length b) = list_tag (length us) \<and> [sha384 E [b]] = map (tree_hash E) us"
      by (rule inj) (use Blob.prems Node assms(1) tag_length in \<open>auto simp: tree_hash_chain tree_hash_length simp del: foldl.simps tags_differ\<close>)
    then show ?thesis by simp
  qed
next
  case (Node ts)
  note inj = chain_inj [OF assms(1,2), of "list_tag (length ts)" _ "map (tree_hash E) ts"]
  show ?case
  proof (cases u)
    case (Blob c)
    have "list_tag (length ts) = blob_tag (length c) \<and> map (tree_hash E) ts = [sha384 E [c]]"
      by (rule inj) (use Node.prems Blob assms(1) tag_length in \<open>auto simp: tree_hash_chain tree_hash_length simp del: foldl.simps tags_differ\<close>)
    then show ?thesis by simp
  next
    case u: (Node us)
    have "list_tag (length ts) = list_tag (length us) \<and> map (tree_hash E) ts = map (tree_hash E) us"
      by (rule inj) (use Node.prems u assms(1) tag_length in \<open>auto simp: tree_hash_chain tree_hash_length simp del: foldl.simps tags_differ\<close>)
    then have m: "map (tree_hash E) ts = map (tree_hash E) us" by blast
    have "ts = us"
    proof (rule nth_equalityI)
      show l: "length ts = length us" using m by (metis length_map)
      fix i assume i: "i < length ts"
      then have "ts ! i \<in> set ts" "us ! i \<in> set us" using l by auto
      moreover have "tree_hash E (ts ! i) = tree_hash E (us ! i)" using m i l by (metis nth_map)
      ultimately show "ts ! i = us ! i"
        using Node.prems u by (intro Node.IH) (auto simp: list_all_iff)
    qed
    then show ?thesis using u by simp
  qed
qed

end
