(* ===== verification/Header.thy ===== *)
theory Header
  imports DeepHash
begin

text \<open>
  Block headers of \<open>src/src/lib.rs\<close>: the independent hash of a header between
  forks 2.5 and 2.6 (\<open>pre_2_6_indep_hash\<close>), the signed segment from fork 2.6 on
  (\<open>post_2_6_signed_hash\<close> and its \<open>append_*\<close> encoders).
\<close>

section \<open>Constants\<close>

definition FORK_2_5_HEIGHT :: nat where "FORK_2_5_HEIGHT = 812970"
definition FORK_2_6_HEIGHT :: nat where "FORK_2_6_HEIGHT = 1132210"
definition FORK_2_7_HEIGHT :: nat where "FORK_2_7_HEIGHT = 1275480"
definition FORK_2_8_HEIGHT :: nat where "FORK_2_8_HEIGHT = 1547120"
definition FORK_2_9_HEIGHT :: nat where "FORK_2_9_HEIGHT = 1602350"

section \<open>Header data\<close>

record BlockPoa =
  poa_option :: str
  poa_tx_path :: str
  poa_data_path :: str
  poa_chunk :: str

record NonceLimiterInfo =
  nl_output :: str
  nl_global_step_number :: nat
  nl_seed :: str
  nl_next_seed :: str
  nl_zone_upper_bound :: nat
  nl_next_zone_upper_bound :: nat
  nl_prev_output :: str
  nl_checkpoints :: "str list"
  nl_last_step_checkpoints :: "str list"
  nl_vdf_difficulty :: str
  nl_next_vdf_difficulty :: str

record LegacyWallet =
  lw_address :: str
  lw_balance :: str
  lw_last_tx :: str

record BlockHeader =
  bh_indep_hash :: str
  bh_height :: nat
  bh_previous_block :: str
  bh_timestamp :: nat
  bh_nonce :: str
  bh_last_retarget :: nat
  bh_diff :: str
  bh_cumulative_diff :: str
  bh_reward_pool :: str
  bh_wallet_list :: str
  bh_legacy_wallets :: "LegacyWallet list option"
  bh_hash_list :: "str list"
  bh_hash_list_merkle :: str
  bh_hash :: str
  bh_block_size :: str
  bh_weave_size :: str
  bh_tx_root :: str
  bh_reward_addr :: str
  bh_tags :: "json list"
  bh_txs :: "str list"
  bh_packing_2_5_threshold :: str
  bh_strict_data_split_threshold :: str
  bh_usd_to_ar_rate :: "str \<times> str"
  bh_scheduled_usd_to_ar_rate :: "str \<times> str"
  bh_poa :: BlockPoa
  bh_signature :: str
  bh_reward :: str
  bh_recall_byte :: str
  bh_recall_byte2 :: str
  bh_hash_preimage :: str
  bh_reward_key :: str
  bh_partition_number :: nat
  bh_nonce_limiter_info :: NonceLimiterInfo
  bh_previous_solution_hash :: str
  bh_price_per_gib_minute :: str
  bh_scheduled_price_per_gib_minute :: str
  bh_reward_history_hash :: str
  bh_block_time_history_hash :: str
  bh_debt_supply :: str
  bh_kryder_plus_rate_multiplier :: str
  bh_kryder_plus_rate_multiplier_latch :: str
  bh_denomination :: str
  bh_redenomination_height :: nat
  bh_double_signing_proof :: json
  bh_previous_cumulative_diff :: str
  bh_merkle_rebase_support_threshold :: str
  bh_poa2 :: BlockPoa
  bh_chunk_hash :: str
  bh_chunk2_hash :: str
  bh_packing_difficulty :: byte
  bh_unpacked_chunk_hash :: str
  bh_unpacked_chunk2_hash :: str
  bh_replica_format :: byte

record BlockIndexEntry =
  bi_tx_root :: str
  bi_weave_size :: str
  bi_hash :: str

section \<open>Reward addresses\<close>

definition reward_address :: "deps \<Rightarrow> str \<Rightarrow> bool \<Rightarrow> bytes res" where
  "reward_address E value post_2_6 =
     (if value = ''unclaimed'' then Inr (if post_2_6 then [] else as_bytes ''unclaimed'')
      else decode_b64 E value STR ''reward address'')"

section \<open>The encoders of the signed segment\<close>

text \<open>\<open>1u128.checked_shl((bytes * 8) as u32).unwrap_or(u128::MAX)\<close>.\<close>

definition prefix_limit :: "nat \<Rightarrow> nat res" where
  "prefix_limit w =
     bindE (mulE USIZE w 8) (\<lambda>bits.
     Inr (if bits mod U32 < 128 then 2 ^ (bits mod U32) else U128 - 1))"

definition append_size :: "bytes \<Rightarrow> nat \<Rightarrow> nat \<Rightarrow> bytes res" where
  "append_size output value w =
     ensure (w > 0 \<and> w \<le> 16) STR ''invalid size prefix width''
     (bindE (prefix_limit w) (\<lambda>max.
      ensure (value < max) STR ''encoded size exceeds prefix width''
      (let encoded = be_bytes 16 value in
       bindE (slice encoded (16 - w) 16) (\<lambda>prefix. Inr (output @ prefix)))))"

definition append_bytes :: "bytes \<Rightarrow> bytes \<Rightarrow> nat \<Rightarrow> bytes res" where
  "append_bytes output value w =
     bindE (prefix_limit w) (\<lambda>max.
     ensure (length value < max) STR ''value exceeds size prefix''
     (bindE (append_size output (length value) w) (\<lambda>output. Inr (output @ value))))"

definition append_b64 :: "deps \<Rightarrow> bytes \<Rightarrow> str \<Rightarrow> nat \<Rightarrow> String.literal \<Rightarrow> bytes res" where
  "append_b64 E output value w label =
     bindE (decode_b64 E value label) (\<lambda>d. append_bytes output d w)"

definition append_optional_b64 :: "deps \<Rightarrow> bytes \<Rightarrow> str \<Rightarrow> nat \<Rightarrow> String.literal \<Rightarrow> bytes res" where
  "append_optional_b64 E output value w label =
     (if value = [] then append_bytes output [] w else append_b64 E output value w label)"

definition append_decimal :: "deps \<Rightarrow> bytes \<Rightarrow> str \<Rightarrow> nat \<Rightarrow> String.literal \<Rightarrow> bytes res" where
  "append_decimal E output value w label =
     bindE (parse_biguint E value label) (\<lambda>n.
     let encoded = x_big_bytes E n; encoded = (if encoded = [] then [0] else encoded)
     in append_bytes output encoded w)"

definition append_optional_decimal :: "deps \<Rightarrow> bytes \<Rightarrow> str \<Rightarrow> nat \<Rightarrow> String.literal \<Rightarrow> bytes res" where
  "append_optional_decimal E output value w label =
     (if value = [] then append_bytes output [] w else append_decimal E output value w label)"

definition append_u64 :: "deps \<Rightarrow> bytes \<Rightarrow> nat \<Rightarrow> nat \<Rightarrow> bytes res" where
  "append_u64 E output value w = append_decimal E output (show_nat value) w STR ''integer''"

definition append_fixed_decimal :: "deps \<Rightarrow> bytes \<Rightarrow> str \<Rightarrow> nat \<Rightarrow> String.literal \<Rightarrow> bytes res" where
  "append_fixed_decimal E output value n label =
     bindE (parse_biguint E value label) (\<lambda>v.
     let encoded = x_big_bytes E v in
     ensure (length encoded \<le> n) (label + STR '' exceeds fixed width'')
     (Inr (output @ replicate (n - length encoded) 0 @ encoded)))"

definition append_fixed_u64 :: "deps \<Rightarrow> bytes \<Rightarrow> nat \<Rightarrow> nat \<Rightarrow> bytes res" where
  "append_fixed_u64 E output value n =
     append_fixed_decimal E output (show_nat value) n STR ''integer''"

definition append_fixed_b64 :: "deps \<Rightarrow> bytes \<Rightarrow> str \<Rightarrow> nat \<Rightarrow> String.literal \<Rightarrow> bytes res" where
  "append_fixed_b64 E output value n label =
     bindE (decode_b64 E value label) (\<lambda>decoded.
     ensure (length decoded = n) (STR ''invalid '' + label + STR '' length'')
     (Inr (output @ decoded)))"

definition append_b64_list ::
  "deps \<Rightarrow> bytes \<Rightarrow> str list \<Rightarrow> nat \<Rightarrow> nat \<Rightarrow> String.literal \<Rightarrow> bytes res" where
  "append_b64_list E output values list_w w label =
     bindE (append_size output (length values) list_w) (\<lambda>output.
     foldE (\<lambda>output value. append_b64 E output value w label) output (rev values))"

definition append_hashes :: "deps \<Rightarrow> bytes \<Rightarrow> str list \<Rightarrow> String.literal \<Rightarrow> bytes res" where
  "append_hashes E output values label =
     bindE (append_size output (length values) 2) (\<lambda>output.
     foldE (\<lambda>output value. append_fixed_b64 E output value 32 label) output values)"

text \<open>The loop over the block's tags; each must be a JSON string.\<close>

definition append_tags :: "deps \<Rightarrow> bytes \<Rightarrow> json list \<Rightarrow> bytes res" where
  "append_tags E output tags =
     bindE (append_size output (length tags) 2) (\<lambda>output.
     foldE (\<lambda>output tag. bindE (contextE (as_str tag) STR ''invalid block tag'') (\<lambda>t.
              append_b64 E output t 2 STR ''block tag'')) output (rev tags))"

definition proof_field :: "json \<Rightarrow> String.literal \<Rightarrow> str res" where
  "proof_field proof name =
     contextE (case json_get proof (String.explode name) of None \<Rightarrow> None | Some v \<Rightarrow> as_str v)
       (STR ''invalid double-signing proof field '' + name)"

definition append_proof_part ::
  "deps \<Rightarrow> json \<Rightarrow> bool \<Rightarrow> nat \<Rightarrow> bytes
     \<Rightarrow> String.literal \<times> String.literal \<times> String.literal \<times> String.literal \<Rightarrow> bytes res" where
  "append_proof_part E proof length_prefixed signature_size output =
     (\<lambda>(signature, difficulty, previous_difficulty, preimage).
     bindE (proof_field proof signature) (\<lambda>s.
     bindE (decode_b64 E s STR ''double-signing signature'') (\<lambda>sg.
     ensure (length sg = signature_size) STR ''invalid double-signing signature length''
     (bindE (if length_prefixed then append_bytes output sg 2 else Inr (output @ sg)) (\<lambda>output.
      bindE (proof_field proof difficulty) (\<lambda>d.
      bindE (append_decimal E output d 2 difficulty) (\<lambda>output.
      bindE (proof_field proof previous_difficulty) (\<lambda>d.
      bindE (append_decimal E output d 2 previous_difficulty) (\<lambda>output.
      bindE (proof_field proof preimage) (\<lambda>d.
      append_fixed_b64 E output d 64 preimage))))))))))"

definition append_double_signing_proof :: "deps \<Rightarrow> bytes \<Rightarrow> json \<Rightarrow> nat \<Rightarrow> bytes res" where
  "append_double_signing_proof E output proof height =
     (if proof = JNull \<or> as_object proof = Some [] then Inr (output @ [0])
      else
        bindE (proof_field proof STR ''pub_key'') (\<lambda>k.
        bindE (decode_b64 E k STR ''double-signing public key'') (\<lambda>key.
        let length_prefixed = (height \<ge> FORK_2_9_HEIGHT) in
        bindE (if length key = 512 then Inr 512
               else if length key = 33 \<and> length_prefixed then Inr 65
               else Inl (Fail STR ''invalid double-signing public key length'')) (\<lambda>signature_size.
        let output = output @ [1] in
        bindE (if length_prefixed then append_bytes output key 2 else Inr (output @ key)) (\<lambda>output.
        foldE (append_proof_part E proof length_prefixed signature_size) output
          [(STR ''sig1'', STR ''cdiff1'', STR ''prev_cdiff1'', STR ''preimage1''),
           (STR ''sig2'', STR ''cdiff2'', STR ''prev_cdiff2'', STR ''preimage2'')])))))"

section \<open>Hashes of a header\<close>

definition pre_2_6_core :: "deps \<Rightarrow> BlockHeader \<Rightarrow> bytes list res" where
  "pre_2_6_core E block =
     bindE (deep_hash_decimal E (show_nat (bh_height block)) STR ''block height'') (\<lambda>height.
     bindE (deep_hash_b64 E (bh_previous_block block) STR ''previous block'') (\<lambda>previous.
     bindE (deep_hash_b64 E (bh_tx_root block) STR ''block tx_root'') (\<lambda>tx_root.
     bindE (deep_hash_b64_list E (bh_txs block) STR ''block transaction ID'') (\<lambda>txs.
     bindE (deep_hash_decimal E (bh_block_size block) STR ''block size'') (\<lambda>block_size.
     bindE (deep_hash_decimal E (bh_weave_size block) STR ''block weave size'') (\<lambda>weave_size.
     bindE (reward_address E (bh_reward_addr block) False) (\<lambda>address.
     bindE (mapE (\<lambda>tag. bindE (contextE (as_str tag) STR ''invalid block tag'') (\<lambda>t.
                    deep_hash_b64 E t STR ''block tag'')) (bh_tags block)) (\<lambda>tags.
     Inr [height, previous, tx_root, txs, block_size, weave_size, deep_hash_blob E address,
          deep_hash_list E tags]))))))))"

definition pre_2_6_indep_hash :: "deps \<Rightarrow> BlockHeader \<Rightarrow> bytes res" where
  "pre_2_6_indep_hash E block =
     bindE (pre_2_6_core E block) (\<lambda>core.
     bindE (deep_hash_decimals E
       [(fst (bh_usd_to_ar_rate block), STR ''USD rate dividend''),
        (snd (bh_usd_to_ar_rate block), STR ''USD rate divisor''),
        (fst (bh_scheduled_usd_to_ar_rate block), STR ''scheduled USD rate dividend''),
        (snd (bh_scheduled_usd_to_ar_rate block), STR ''scheduled USD rate divisor''),
        (bh_packing_2_5_threshold block, STR ''packing threshold''),
        (bh_strict_data_split_threshold block, STR ''strict data split threshold'')]) (\<lambda>base.
     let base_hash = deep_hash_list E (base @ core) in
     bindE (deep_hash_decimals E
       [(show_nat (bh_timestamp block), STR ''block timestamp''),
        (show_nat (bh_last_retarget block), STR ''last retarget''),
        (bh_diff block, STR ''block difficulty''),
        (bh_cumulative_diff block, STR ''cumulative difficulty''),
        (bh_reward_pool block, STR ''reward pool'')]) (\<lambda>numbers.
     bindE (deep_hash_b64 E (bh_wallet_list block) STR ''wallet list'') (\<lambda>wallet_list.
     bindE (deep_hash_b64 E (bh_hash_list_merkle block) STR ''hash_list_merkle'') (\<lambda>hash_list_merkle.
     let data_segment = deep_hash_list E
           ([deep_hash_blob E base_hash] @ numbers @ [wallet_list, hash_list_merkle]) in
     bindE (deep_hash_decimal E (poa_option (bh_poa block)) STR ''proof option'') (\<lambda>opt.
     bindE (deep_hash_b64 E (poa_tx_path (bh_poa block)) STR ''block tx_path'') (\<lambda>tx_path.
     bindE (deep_hash_b64 E (poa_data_path (bh_poa block)) STR ''block data_path'') (\<lambda>data_path.
     bindE (deep_hash_b64 E (poa_chunk (bh_poa block)) STR ''block chunk'') (\<lambda>chunk.
     let poa = deep_hash_list E [opt, tx_path, data_path, chunk] in
     bindE (deep_hash_b64 E (bh_hash block) STR ''block hash'') (\<lambda>hash.
     bindE (deep_hash_b64 E (bh_nonce block) STR ''block nonce'') (\<lambda>nonce.
     Inr (deep_hash_list E [deep_hash_blob E data_segment, hash, nonce, poa]))))))))))))"

text \<open>
  \<open>post_2_6_signed_hash\<close> threads one output vector through a sequence of encoders, each ending
  with \<open>?\<close>: the sequence is a list of steps, run from left to right.
\<close>

type_synonym step = "bytes \<Rightarrow> bytes res"

definition run_steps :: "step list \<Rightarrow> bytes \<Rightarrow> bytes res" where
  "run_steps steps output = foldE (\<lambda>output step. step output) output steps"

definition strip_nonce :: "bytes \<Rightarrow> bytes" where
  "strip_nonce nonce =
     (if list_all (\<lambda>b. b = 0) nonce then drop (length nonce - 1) nonce
      else dropWhile (\<lambda>b. b = 0) nonce)"

definition signed_steps_2_6 :: "deps \<Rightarrow> BlockHeader \<Rightarrow> bytes \<Rightarrow> step list" where
  "signed_steps_2_6 E block nonce =
     (let info = bh_nonce_limiter_info block in
     [\<lambda>o'. append_b64 E o' (bh_previous_block block) 1 STR ''previous block'',
      \<lambda>o'. append_u64 E o' (bh_timestamp block) 1,
      \<lambda>o'. append_bytes o' nonce 2,
      \<lambda>o'. append_u64 E o' (bh_height block) 1,
      \<lambda>o'. append_decimal E o' (bh_diff block) 2 STR ''block difficulty'',
      \<lambda>o'. append_decimal E o' (bh_cumulative_diff block) 2 STR ''cumulative difficulty'',
      \<lambda>o'. append_u64 E o' (bh_last_retarget block) 1,
      \<lambda>o'. append_b64 E o' (bh_hash block) 1 STR ''block hash'',
      \<lambda>o'. append_decimal E o' (bh_block_size block) 2 STR ''block size'',
      \<lambda>o'. append_decimal E o' (bh_weave_size block) 2 STR ''block weave size'',
      \<lambda>o'. bindE (reward_address E (bh_reward_addr block) True) (\<lambda>a. append_bytes o' a 1),
      \<lambda>o'. append_b64 E o' (bh_tx_root block) 1 STR ''block tx_root'',
      \<lambda>o'. append_b64 E o' (bh_wallet_list block) 1 STR ''wallet list'',
      \<lambda>o'. append_b64 E o' (bh_hash_list_merkle block) 1 STR ''hash_list_merkle'',
      \<lambda>o'. append_decimal E o' (bh_reward_pool block) 1 STR ''reward pool'',
      \<lambda>o'. append_decimal E o' (bh_packing_2_5_threshold block) 1 STR ''packing threshold'',
      \<lambda>o'. append_decimal E o' (bh_strict_data_split_threshold block) 1
              STR ''strict data split threshold'',
      \<lambda>o'. append_decimal E o' (fst (bh_usd_to_ar_rate block)) 1 STR ''USD rate dividend'',
      \<lambda>o'. append_decimal E o' (snd (bh_usd_to_ar_rate block)) 1 STR ''USD rate divisor'',
      \<lambda>o'. append_decimal E o' (fst (bh_scheduled_usd_to_ar_rate block)) 1
              STR ''scheduled USD rate dividend'',
      \<lambda>o'. append_decimal E o' (snd (bh_scheduled_usd_to_ar_rate block)) 1
              STR ''scheduled USD rate divisor'',
      \<lambda>o'. append_tags E o' (bh_tags block),
      \<lambda>o'. append_b64_list E o' (bh_txs block) 2 1 STR ''block transaction ID'',
      \<lambda>o'. append_decimal E o' (bh_reward block) 1 STR ''block reward'',
      \<lambda>o'. append_decimal E o' (bh_recall_byte block) 2 STR ''recall byte'',
      \<lambda>o'. append_b64 E o' (bh_hash_preimage block) 1 STR ''hash preimage'',
      \<lambda>o'. append_optional_decimal E o' (bh_recall_byte2 block) 2 STR ''second recall byte'',
      \<lambda>o'. append_b64 E o' (bh_reward_key block) 2 STR ''reward key'',
      \<lambda>o'. append_u64 E o' (bh_partition_number block) 1,
      \<lambda>o'. append_fixed_b64 E o' (nl_output info) 32 STR ''VDF output'',
      \<lambda>o'. append_fixed_u64 E o' (nl_global_step_number info) 8,
      \<lambda>o'. append_fixed_b64 E o' (nl_seed info) 48 STR ''VDF seed'',
      \<lambda>o'. append_fixed_b64 E o' (nl_next_seed info) 48 STR ''next VDF seed'',
      \<lambda>o'. append_fixed_u64 E o' (nl_zone_upper_bound info) 32,
      \<lambda>o'. append_fixed_u64 E o' (nl_next_zone_upper_bound info) 32,
      \<lambda>o'. append_b64 E o' (nl_prev_output info) 1 STR ''previous VDF output'',
      \<lambda>o'. append_hashes E o' (nl_checkpoints info) STR ''VDF checkpoint'',
      \<lambda>o'. append_hashes E o' (nl_last_step_checkpoints info) STR ''last VDF checkpoint'',
      \<lambda>o'. append_b64 E o' (bh_previous_solution_hash block) 1 STR ''previous solution hash'',
      \<lambda>o'. append_decimal E o' (bh_price_per_gib_minute block) 1 STR ''price per GiB minute'',
      \<lambda>o'. append_decimal E o' (bh_scheduled_price_per_gib_minute block) 1
              STR ''scheduled price per GiB minute'',
      \<lambda>o'. append_fixed_b64 E o' (bh_reward_history_hash block) 32 STR ''reward history hash'',
      \<lambda>o'. append_decimal E o' (bh_debt_supply block) 1 STR ''debt supply'',
      \<lambda>o'. append_fixed_decimal E o' (bh_kryder_plus_rate_multiplier block) 3
              STR ''Kryder+ rate multiplier'',
      \<lambda>o'. append_fixed_decimal E o' (bh_kryder_plus_rate_multiplier_latch block) 1
              STR ''Kryder+ rate multiplier latch'',
      \<lambda>o'. append_fixed_decimal E o' (bh_denomination block) 3 STR ''denomination'',
      \<lambda>o'. append_u64 E o' (bh_redenomination_height block) 1,
      \<lambda>o'. append_double_signing_proof E o' (bh_double_signing_proof block) (bh_height block),
      \<lambda>o'. append_decimal E o' (bh_previous_cumulative_diff block) 2
              STR ''previous cumulative difficulty''])"

definition signed_steps_2_7 :: "deps \<Rightarrow> BlockHeader \<Rightarrow> step list" where
  "signed_steps_2_7 E block =
     (if bh_height block \<ge> FORK_2_7_HEIGHT then
     [\<lambda>o'. append_decimal E o' (bh_merkle_rebase_support_threshold block) 2
              STR ''Merkle rebase threshold'',
      \<lambda>o'. append_b64 E o' (poa_data_path (bh_poa block)) 3 STR ''block data_path'',
      \<lambda>o'. append_b64 E o' (poa_tx_path (bh_poa block)) 3 STR ''block tx_path'',
      \<lambda>o'. append_b64 E o' (poa_data_path (bh_poa2 block)) 3 STR ''second block data_path'',
      \<lambda>o'. append_b64 E o' (poa_tx_path (bh_poa2 block)) 3 STR ''second block tx_path'',
      \<lambda>o'. append_fixed_b64 E o' (bh_chunk_hash block) 32 STR ''chunk hash'',
      \<lambda>o'. append_optional_b64 E o' (bh_chunk2_hash block) 1 STR ''second chunk hash'',
      \<lambda>o'. append_fixed_b64 E o' (bh_block_time_history_hash block) 32
              STR ''block time history hash'',
      \<lambda>o'. append_decimal E o' (nl_vdf_difficulty (bh_nonce_limiter_info block)) 1
              STR ''VDF difficulty'',
      \<lambda>o'. append_decimal E o' (nl_next_vdf_difficulty (bh_nonce_limiter_info block)) 1
              STR ''next VDF difficulty'']
     else [])"

definition signed_steps_2_8 :: "deps \<Rightarrow> BlockHeader \<Rightarrow> step list" where
  "signed_steps_2_8 E block =
     (if bh_height block \<ge> FORK_2_8_HEIGHT then
     [\<lambda>o'. Inr (o' @ [bh_packing_difficulty block]),
      \<lambda>o'. append_optional_b64 E o' (bh_unpacked_chunk_hash block) 1 STR ''unpacked chunk hash'',
      \<lambda>o'. append_optional_b64 E o' (bh_unpacked_chunk2_hash block) 1
              STR ''second unpacked chunk hash'']
     else [])"

definition signed_steps_2_9 :: "BlockHeader \<Rightarrow> step list" where
  "signed_steps_2_9 block =
     (if bh_height block \<ge> FORK_2_9_HEIGHT then [\<lambda>o'. Inr (o' @ [bh_replica_format block])] else [])"

definition signed_segment :: "deps \<Rightarrow> BlockHeader \<Rightarrow> bytes res" where
  "signed_segment E block =
     bindE (decode_b64 E (bh_nonce block) STR ''block nonce'') (\<lambda>nonce.
     ensure (nonce \<noteq> []) STR ''block nonce is empty''
     (run_steps (signed_steps_2_6 E block (strip_nonce nonce) @ signed_steps_2_7 E block
        @ signed_steps_2_8 E block @ signed_steps_2_9 block) []))"

definition post_2_6_signed_hash :: "deps \<Rightarrow> BlockHeader \<Rightarrow> bytes res" where
  "post_2_6_signed_hash E block =
     bindE (signed_segment E block) (\<lambda>segment. Inr (sha256 E [segment]))"

end
