(* ===== verification/Historical.thy ===== *)
theory Historical
  imports Header
begin

text \<open>
  Headers before fork 2.5, \<open>src/src/historical.rs\<close>: the three preimages (\<open>indep_hash\<close>), the
  canonical JSON of the first node with its number and string forms (\<open>JiffyFormatter\<close>), and the
  check of a pre-2.0 header against the table of recomputed hashes
  (\<open>verify_legacy_header_hash\<close>).
\<close>

definition FORK_1_6_HEIGHT :: nat where "FORK_1_6_HEIGHT = 95000"
definition FORK_2_0_HEIGHT :: nat where "FORK_2_0_HEIGHT = 422250"
definition FORK_2_4_HEIGHT :: nat where "FORK_2_4_HEIGHT = 633720"

section \<open>The canonical JSON of the first node\<close>

text \<open>
  \<open>value.parse::<f64>()\<close> with the shortest text of its absolute value
  (\<open>CompactFormatter.write_f64\<close>) is the argument \<open>F\<close>: \<open>None\<close> for an unreadable number, the sign
  and \<open>None\<close> for an infinite one, else the sign and the text.
\<close>

type_synonym float_text = "str \<Rightarrow> (bool \<times> str option) option"

definition split_exponent :: "str \<Rightarrow> (str \<times> int) res" where
  "split_exponent shortest =
     (if CHR ''e'' \<in> set shortest then
        (let mantissa = takeWhile (\<lambda>c. c \<noteq> CHR ''e'') shortest;
             e = tl (dropWhile (\<lambda>c. c \<noteq> CHR ''e'') shortest);
             digits = (case e of c # r \<Rightarrow> if c = CHR ''-'' \<or> c = CHR ''+'' then r else e | [] \<Rightarrow> []) in
         if digits \<noteq> [] \<and> list_all is_ascii_digit digits \<and> digits_value digits < 2 ^ 31
         then Inr (mantissa, (if hd e = CHR ''-'' then - int (digits_value digits)
                              else int (digits_value digits)))
         else Inl Panic)
      else Inr (shortest, 0))"

definition show_signed :: "int \<Rightarrow> str" where
  "show_signed i = (if i < 0 then ''-'' @ show_nat (nat (- i)) else ''+'' @ show_nat (nat i))"

definition trim_zeros :: "str \<Rightarrow> str" where
  "trim_zeros s = rev (dropWhile (\<lambda>c. c = CHR ''0'') (rev (dropWhile (\<lambda>c. c = CHR ''0'') s)))"

definition zeros :: "int \<Rightarrow> str res" where
  "zeros n = (if 0 \<le> n \<and> n \<le> 20 then Inr (replicate (nat n) (CHR ''0'')) else Inl Panic)"

text \<open>The layout of \<open>write_f64\<close> from the shortest digits and the place of the point.\<close>

definition float_layout :: "bool \<Rightarrow> str \<Rightarrow> int \<Rightarrow> str res" where
  "float_layout negative digits point =
     (let sign = (if negative then ''-'' else ''''); exponent = point - 1 in
      if \<not> (- 6 \<le> exponent \<and> exponent < 21) then
        Inr (sign @ take 1 digits @ (if length digits > 1 then ''.'' @ drop 1 digits else '''')
               @ ''e'' @ show_signed exponent)
      else if point \<le> 0 then
        bindE (zeros (- point)) (\<lambda>z. Inr (sign @ ''0.'' @ z @ digits))
      else if nat point \<ge> length digits then
        bindE (zeros (point - int (length digits))) (\<lambda>z. Inr (sign @ digits @ z @ ''.0''))
      else Inr (sign @ take (nat point) digits @ ''.'' @ drop (nat point) digits))"

definition write_f64 :: "bool \<Rightarrow> str option \<Rightarrow> str res" where
  "write_f64 negative text =
     (case text of
        None \<Rightarrow> Inl (Fail STR ''non-finite historical JSON number'')
      | Some shortest \<Rightarrow>
          if shortest = ''0.0'' then Inr ''0.0''
          else
            bindE (split_exponent shortest) (\<lambda>(mantissa, exponent).
            let point = int (length (takeWhile (\<lambda>c. c \<noteq> CHR ''.'') mantissa)) + exponent;
                all_digits = filter (\<lambda>c. c \<noteq> CHR ''.'') mantissa;
                start = length (takeWhile (\<lambda>c. c = CHR ''0'') all_digits) in
            if list_all (\<lambda>c. c = CHR ''0'') all_digits then Inl Panic
            else float_layout negative (trim_zeros all_digits) (point - int start)))"

definition write_number_str :: "float_text \<Rightarrow> str \<Rightarrow> str res" where
  "write_number_str F value =
     (let digits = (case strip_prefix ''-'' value of Some d \<Rightarrow> d | None \<Rightarrow> value) in
      if digits \<noteq> [] \<and> list_all is_ascii_digit digits
      then Inr (if value = ''-0'' then ''0'' else value)
      else case F value of
             None \<Rightarrow> Inl (Fail STR ''invalid float literal'')
           | Some (negative, text) \<Rightarrow> write_f64 negative text)"

definition hex_upper :: "nat \<Rightarrow> char" where
  "hex_upper n = (if n < 10 then char_of (48 + n) else char_of (55 + n))"

text \<open>The escapes of serde's compact strings, with the control escape of \<open>JiffyFormatter\<close>.\<close>

definition escape_char :: "char \<Rightarrow> str" where
  "escape_char c =
     (let n = of_char c :: nat in
      if c = CHR 0x22 then [CHR 0x5C, CHR 0x22] else if c = CHR 0x5C then [CHR 0x5C, CHR 0x5C]
      else if n = 8 then [CHR 0x5C, CHR ''b''] else if n = 9 then [CHR 0x5C, CHR ''t'']
      else if n = 10 then [CHR 0x5C, CHR ''n''] else if n = 12 then [CHR 0x5C, CHR ''f'']
      else if n = 13 then [CHR 0x5C, CHR ''r'']
      else if n < 32 then [CHR 0x5C, CHR ''u'', CHR ''0'', CHR ''0'', hex_upper (n div 16), hex_upper (n mod 16)]
      else [c])"

definition json_string :: "str \<Rightarrow> str" where
  "json_string s = [CHR 0x22] @ concat (map escape_char s) @ [CHR 0x22]"

definition join_comma :: "str list \<Rightarrow> str" where
  "join_comma xs = concat (case xs of [] \<Rightarrow> [] | y # ys \<Rightarrow> y # map (\<lambda>z. '','' @ z) ys)"

text \<open>The compact serialization of a value with the number and escape forms above.\<close>

fun jiffy :: "float_text \<Rightarrow> json \<Rightarrow> str res"
  and jiffy_list :: "float_text \<Rightarrow> json list \<Rightarrow> str list res"
  and jiffy_fields :: "float_text \<Rightarrow> (str \<times> json) list \<Rightarrow> str list res" where
  "jiffy F JNull = Inr ''null''"
| "jiffy F (JBool b) = Inr (if b then ''true'' else ''false'')"
| "jiffy F (JNumber n) = write_number_str F n"
| "jiffy F (JString s) = Inr (json_string s)"
| "jiffy F (JArray vs) = bindE (jiffy_list F vs) (\<lambda>ts. Inr (''['' @ join_comma ts @ '']''))"
| "jiffy F (JObject fs) = bindE (jiffy_fields F fs) (\<lambda>ts. Inr (''{'' @ join_comma ts @ ''}''))"
| "jiffy_list F [] = Inr []"
| "jiffy_list F (v # vs) = bindE (jiffy F v) (\<lambda>t. bindE (jiffy_list F vs) (\<lambda>ts. Inr (t # ts)))"
| "jiffy_fields F [] = Inr []"
| "jiffy_fields F ((k, v) # fs) =
     bindE (jiffy F v) (\<lambda>t. bindE (jiffy_fields F fs) (\<lambda>ts. Inr ((json_string k @ '':'' @ t) # ts)))"

definition required_wallets :: "BlockHeader \<Rightarrow> LegacyWallet list res" where
  "required_wallets block =
     contextE (bh_legacy_wallets block) STR ''missing full ordered historical wallet list''"

text \<open>A decimal as a \<open>serde_json::Number\<close>, kept as its text.\<close>

definition decimal_number :: "deps \<Rightarrow> str \<Rightarrow> String.literal \<Rightarrow> json res" where
  "decimal_number E value label =
     bindE (parse_biguint E value label) (\<lambda>n.
     let text = x_big_str E n in
     ensure (text \<noteq> [] \<and> list_all is_ascii_digit text \<and> (hd text = CHR ''0'' \<longrightarrow> text = ''0''))
       (STR ''invalid '' + label) (Inr (JNumber text)))"

definition wallet_json :: "LegacyWallet \<Rightarrow> json" where
  "wallet_json w = JObject [(''wallet'', JString (lw_address w)), (''quantity'', JNumber (lw_balance w)),
     (''last_tx'', JString (lw_last_tx w))]"

text \<open>\<open>CanonicalBlock\<close>, in the order of its fields.\<close>

definition canonical_block ::
  "BlockHeader \<Rightarrow> LegacyWallet list \<Rightarrow> json \<Rightarrow> json \<Rightarrow> json \<Rightarrow> json \<Rightarrow> json" where
  "canonical_block block wallets diff reward_pool weave_size block_size = JObject
     [(''nonce'', JString (bh_nonce block)), (''previous_block'', JString (bh_previous_block block)),
      (''timestamp'', JNumber (show_nat (bh_timestamp block))),
      (''last_retarget'', JNumber (show_nat (bh_last_retarget block))),
      (''diff'', diff), (''height'', JNumber (show_nat (bh_height block))),
      (''hash'', JString (bh_hash block)), (''indep_hash'', JString ''''),
      (''txs'', JArray (map JString (bh_txs block))),
      (''hash_list'', JArray (map JString (bh_hash_list block))),
      (''wallet_list'', JArray (map wallet_json wallets)),
      (''reward_addr'', JString (bh_reward_addr block)), (''tags'', JArray (bh_tags block)),
      (''reward_pool'', reward_pool), (''weave_size'', weave_size), (''block_size'', block_size)]"

definition canonical_preimage :: "deps \<Rightarrow> float_text \<Rightarrow> BlockHeader \<Rightarrow> bytes res" where
  "canonical_preimage E F block =
     bindE (required_wallets block) (\<lambda>wallets.
     ensure (length (bh_hash_list block) = bh_height block)
       STR ''missing or incomplete historical hash_list: expected every predecessor through H0''
     (bindE
       (if bh_height block = 0
        then ensure (bh_previous_block block = []) STR ''genesis has a predecessor'' (Inr ())
        else ensure (case bh_hash_list block of [] \<Rightarrow> False | h # _ \<Rightarrow> h = bh_previous_block block)
          STR ''historical hash_list must start with the previous block and end with H0'' (Inr ())) (\<lambda>_.
      bindE (mapE (\<lambda>h. decode_fixed E 48 h STR ''historical predecessor hash'') (bh_hash_list block)) (\<lambda>_.
      bindE (mapE (\<lambda>i. decode_fixed E 32 i STR ''block transaction ID'') (bh_txs block)) (\<lambda>_.
      bindE (mapE (\<lambda>w. bindE (decode_b64 E (lw_address w) STR ''wallet address'') (\<lambda>_.
                   decode_b64 E (lw_last_tx w) STR ''wallet last_tx'')) wallets) (\<lambda>_.
      bindE (decode_b64 E (bh_nonce block) STR ''block nonce'') (\<lambda>_.
      bindE (decode_b64 E (bh_hash block) STR ''block hash'') (\<lambda>_.
      bindE (reward_address E (bh_reward_addr block) False) (\<lambda>_.
      bindE (decimal_number E (bh_diff block) STR ''block difficulty'') (\<lambda>diff.
      bindE (decimal_number E (bh_reward_pool block) STR ''reward pool'') (\<lambda>reward_pool.
      bindE (decimal_number E (bh_weave_size block) STR ''block weave size'') (\<lambda>weave_size.
      bindE (decimal_number E (bh_block_size block) STR ''block size'') (\<lambda>block_size.
      bindE (jiffy F (canonical_block block wallets diff reward_pool weave_size block_size)) (\<lambda>text.
      Inr (as_bytes text)))))))))))))))"

section \<open>Independent hashes before fork 2.5\<close>

definition wallet_hash :: "deps \<Rightarrow> LegacyWallet \<Rightarrow> bytes res" where
  "wallet_hash E wallet =
     bindE (deep_hash_b64 E (lw_address wallet) STR ''wallet address'') (\<lambda>address.
     bindE (deep_hash_b64 E (lw_last_tx wallet) STR ''wallet last_tx'') (\<lambda>last_tx.
     Inr (deep_hash_list E [address, deep_hash_blob E (as_bytes (lw_balance wallet)), last_tx])))"

definition modern_indep_hash :: "deps \<Rightarrow> BlockHeader \<Rightarrow> bytes \<Rightarrow> bytes res" where
  "modern_indep_hash E block transaction_hash =
     bindE (deep_hash_decimal E (poa_option (bh_poa block)) STR ''proof option'') (\<lambda>opt.
     bindE (deep_hash_b64 E (poa_tx_path (bh_poa block)) STR ''block tx_path'') (\<lambda>tx_path.
     bindE (deep_hash_b64 E (poa_data_path (bh_poa block)) STR ''block data_path'') (\<lambda>data_path.
     bindE (deep_hash_b64 E (poa_chunk (bh_poa block)) STR ''block chunk'') (\<lambda>chunk.
     let poa = deep_hash_list E [opt, tx_path, data_path, chunk] in
     bindE (deep_hash_b64 E (bh_previous_block block) STR ''previous block'') (\<lambda>previous.
     bindE (deep_hash_b64 E (bh_tx_root block) STR ''block tx_root'') (\<lambda>tx_root.
     bindE (deep_hash_decimal E (bh_block_size block) STR ''block size'') (\<lambda>block_size.
     bindE (deep_hash_decimal E (bh_weave_size block) STR ''block weave size'') (\<lambda>weave_size.
     bindE (reward_address E (bh_reward_addr block) False) (\<lambda>address.
     let base = [deep_hash_blob E (as_bytes (show_nat (bh_height block))), previous, tx_root,
                 transaction_hash, block_size, weave_size, deep_hash_blob E address,
                 deep_hash_list E [], poa];
         base_hash = deep_hash_list E (if bh_height block < FORK_2_4_HEIGHT then base else take 8 base) in
     bindE (deep_hash_decimals E
       [(bh_diff block, STR ''block difficulty''), (bh_cumulative_diff block, STR ''cumulative difficulty''),
        (bh_reward_pool block, STR ''reward pool'')]) (\<lambda>numbers.
     bindE (deep_hash_b64 E (bh_wallet_list block) STR ''wallet-list root'') (\<lambda>wallet_list.
     bindE (deep_hash_b64 E (bh_hash_list_merkle block) STR ''hash_list_merkle'') (\<lambda>hash_list_merkle.
     let data = deep_hash_list E
           ([deep_hash_blob E base_hash, deep_hash_blob E (as_bytes (show_nat (bh_timestamp block))),
             deep_hash_blob E (as_bytes (show_nat (bh_last_retarget block)))]
            @ numbers @ [wallet_list, hash_list_merkle]) in
     bindE (deep_hash_b64 E (bh_hash block) STR ''block hash'') (\<lambda>hash.
     bindE (deep_hash_b64 E (bh_nonce block) STR ''block nonce'') (\<lambda>nonce.
     let independent = [deep_hash_blob E data, hash, nonce, poa] in
     Inr (deep_hash_list E (if bh_height block < FORK_2_4_HEIGHT then take 3 independent
                            else independent))))))))))))))))"

definition wallet_list_indep_hash :: "deps \<Rightarrow> BlockHeader \<Rightarrow> bytes res" where
  "wallet_list_indep_hash E block =
     bindE (required_wallets block) (\<lambda>wallets.
     bindE (mapE (wallet_hash E) wallets) (\<lambda>wallet_hashes.
     bindE (deep_hash_b64 E (bh_nonce block) STR ''block nonce'') (\<lambda>nonce.
     bindE (deep_hash_b64 E (bh_previous_block block) STR ''previous block'') (\<lambda>previous.
     bindE (deep_hash_decimals E
       [(bh_diff block, STR ''block difficulty''), (bh_cumulative_diff block, STR ''cumulative difficulty'')])
       (\<lambda>diffs.
     bindE (deep_hash_b64 E (bh_hash block) STR ''block hash'') (\<lambda>hash.
     bindE (deep_hash_b64 E (bh_hash_list_merkle block) STR ''hash_list_merkle'') (\<lambda>hash_list_merkle.
     bindE (deep_hash_b64_list E (bh_txs block) STR ''block transaction ID'') (\<lambda>txs.
     bindE (reward_address E (bh_reward_addr block) False) (\<lambda>address.
     bindE (deep_hash_decimals E
       [(bh_reward_pool block, STR ''reward pool''), (bh_weave_size block, STR ''block weave size''),
        (bh_block_size block, STR ''block size'')]) (\<lambda>sizes.
     Inr (deep_hash_list E
       ([nonce, previous, deep_hash_blob E (as_bytes (show_nat (bh_timestamp block))),
         deep_hash_blob E (as_bytes (show_nat (bh_last_retarget block)))] @ diffs
        @ [deep_hash_blob E (as_bytes (show_nat (bh_height block))), hash, hash_list_merkle, txs,
           deep_hash_list E wallet_hashes, deep_hash_blob E address, deep_hash_list E []]
        @ sizes))))))))))))"

definition historical_indep_hash :: "deps \<Rightarrow> float_text \<Rightarrow> BlockHeader \<Rightarrow> bytes res" where
  "historical_indep_hash E F block =
     ensure (bh_height block < FORK_2_5_HEIGHT) STR ''not a pre-2.5 block''
     (if bh_height block < FORK_1_6_HEIGHT
      then bindE (canonical_preimage E F block) (\<lambda>preimage. Inr (sha384 E [preimage]))
      else if bh_height block < FORK_2_0_HEIGHT then wallet_list_indep_hash E block
      else bindE (deep_hash_b64_list E (bh_txs block) STR ''block transaction ID'') (\<lambda>txs.
           modern_indep_hash E block txs))"

section \<open>Pre-2.0 headers against the table of hashes\<close>

definition legacy_hash_index :: "nat \<Rightarrow> nat res" where
  "legacy_hash_index height = contextE (checked_sub (FORK_2_0_HEIGHT - 1) height) STR ''not a pre-2.0 block''"

definition verify_legacy_header_hash ::
  "deps \<Rightarrow> BlockHeader \<Rightarrow> BlockIndexEntry \<Rightarrow> bytes \<Rightarrow> BlockHeader res" where
  "verify_legacy_header_hash E block entry expected_h2 =
     bindE (legacy_hash_index (bh_height block)) (\<lambda>_.
     bindE (decode_fixed E 48 (bh_indep_hash block) STR ''block indep_hash'') (\<lambda>claimed.
     bindE (decode_fixed E 48 (bi_hash entry) STR ''trusted block hash'') (\<lambda>trusted.
     ensure (claimed = trusted) STR ''block header identifier mismatch''
     (bindE (parse_u128 (bh_weave_size block) STR ''block weave size'') (\<lambda>weave_size.
      bindE (parse_u128 (bi_weave_size entry) STR ''trusted block weave size'') (\<lambda>trusted_size.
      ensure (weave_size = trusted_size) STR ''block weave size does not match trusted index''
      (bindE (decode_b64 E (bi_tx_root entry) STR ''trusted block tx_root'') (\<lambda>tx_root.
       ensure (length tx_root = 0 \<or> length tx_root = 32) STR ''invalid trusted block tx_root length''
       (let block = block\<lparr>bh_tx_root := bi_tx_root entry\<rparr> in
        bindE (mapE (\<lambda>i. decode_fixed E 32 i STR ''block transaction ID'') (bh_txs block)) (\<lambda>transactions.
        let transaction_hashes = map (deep_hash_blob E) (sort_by bytes_le transactions) in
        bindE (modern_indep_hash E block (deep_hash_list E transaction_hashes)) (\<lambda>actual.
        ensure (actual = expected_h2) STR ''historical block H2 verification failed''
        (Inr block))))))))))))"

end
