(* ===== verification/HeaderCheck.thy ===== *)
theory HeaderCheck
  imports Historical
begin

text \<open>
  The check of a header against the trusted index (\<open>verify_block_header\<close>, \<open>decode_block_index\<close> of
  \<open>src/src/lib.rs\<close>).  The locale \<open>writer\<close> is the interface of the encoders of theory \<open>Header\<close>:
  each appends, and what it appends determines the value it was given; each encoder is an instance,
  and the signed segment is a sequence of them.
\<close>

section \<open>The trusted index and the check\<close>


record TrustedBlockIndexEntry =
  te_hash :: str
  te_tx_root :: str
  te_weave_size :: nat

lemma take_bytes_cursor: "take_bytes bs c n l = Inr (v, c') \<Longrightarrow> c' = c + n \<and> c + n \<le> length bs"
  by (simp add: take_bytes_eq)

function decode_block_index_loop :: "deps \<Rightarrow> bytes \<Rightarrow> nat \<Rightarrow> TrustedBlockIndexEntry list res" where
  "decode_block_index_loop E bs cursor =
     (if cursor < length bs then
        bindE (take_bytes bs cursor 48 STR ''block hash'') (\<lambda>(hash, cursor1).
        bindE (take_bytes bs cursor1 2 STR ''weave size length'') (\<lambda>(prefix, cursor2).
        let weave_size_length = be_nat prefix in
        ensure (weave_size_length \<le> 16) STR ''block weave size exceeds u128''
        (bindE (take_bytes bs cursor2 weave_size_length STR ''block weave size'') (\<lambda>(weave_size_bytes, cursor3).
         let weave_size = be_nat (replicate (16 - weave_size_length) 0 @ weave_size_bytes) in
         bindE (take_bytes bs cursor3 1 STR ''tx_root length'') (\<lambda>(l, cursor4).
         let tx_root_length = unat (l ! 0) in
         ensure (tx_root_length = 0 \<or> tx_root_length = 32) STR ''invalid block tx_root length''
         (bindE (take_bytes bs cursor4 tx_root_length STR ''block tx_root'') (\<lambda>(tx_root, cursor5).
          bindE (decode_block_index_loop E bs cursor5) (\<lambda>entries.
          Inr (\<lparr>te_hash = x_b64_encode E hash, te_tx_root = x_b64_encode E tx_root,
                te_weave_size = weave_size\<rparr> # entries)))))))))
      else Inr [])"
  by pat_completeness auto
termination
  by (relation "measure (\<lambda>(E, bs, cursor). length bs - cursor)") (auto dest!: take_bytes_cursor)

declare decode_block_index_loop.simps [simp del]

definition decode_block_index :: "deps \<Rightarrow> bytes \<Rightarrow> TrustedBlockIndexEntry list res" where
  "decode_block_index E bs = decode_block_index_loop E bs 0"

definition block_indep_hash :: "deps \<Rightarrow> float_text \<Rightarrow> BlockHeader \<Rightarrow> bytes res" where
  "block_indep_hash E F block =
     (if bh_height block \<ge> FORK_2_6_HEIGHT then
        bindE (post_2_6_signed_hash E block) (\<lambda>signed_hash.
        bindE (decode_b64 E (bh_signature block) STR ''block signature'') (\<lambda>signature.
        Inr (sha384 E [signed_hash, signature])))
      else if bh_height block \<ge> FORK_2_5_HEIGHT then pre_2_6_indep_hash E block
      else historical_indep_hash E F block)"

definition verify_block_header ::
  "deps \<Rightarrow> float_text \<Rightarrow> BlockHeader \<Rightarrow> BlockIndexEntry \<Rightarrow> nat \<Rightarrow> str option \<Rightarrow> unit res" where
  "verify_block_header E F block entry height transaction_id =
     ensure (bh_height block = height) STR ''block header height mismatch''
     (bindE (decode_fixed E 48 (bi_hash entry) STR ''trusted block hash'') (\<lambda>expected_hash.
      bindE (decode_fixed E 48 (bh_indep_hash block) STR ''block indep_hash'') (\<lambda>claimed.
      ensure (claimed = expected_hash) STR ''block header identifier mismatch''
      (bindE (block_indep_hash E F block) (\<lambda>computed.
       ensure (computed = expected_hash) STR ''block indep_hash verification failed''
       (bindE
         (if height \<ge> 422250 then
            bindE (decode_b64 E (bh_tx_root block) STR ''block tx_root'') (\<lambda>tx_root.
            bindE (if length tx_root = 0 \<or> length tx_root = 32
                   then bindE (decode_b64 E (bi_tx_root entry) STR ''trusted block tx_root'') (\<lambda>trusted.
                        Inr (tx_root = trusted))
                   else Inr False) (\<lambda>same.
            ensure same STR ''block tx_root does not match trusted index'' (Inr ())))
          else Inr ()) (\<lambda>_.
        bindE (parse_u128 (bh_weave_size block) STR ''block weave size'') (\<lambda>weave_size.
        bindE (parse_u128 (bi_weave_size entry) STR ''trusted block weave size'') (\<lambda>trusted_size.
        ensure (weave_size = trusted_size) STR ''block weave size does not match trusted index''
        (case transaction_id of
           None \<Rightarrow> Inr ()
         | Some t \<Rightarrow> ensure (t \<in> set (bh_txs block))
             STR ''transaction ID is absent from authenticated block'' (Inr ())))))))))))"


section \<open>The interface of the encoders\<close>

text \<open>
  A step appends when it only adds to its output; two steps agree on \<open>P\<close> when equal results, each
  followed by anything, force the same result and \<open>P\<close>.
\<close>

definition appends :: "step \<Rightarrow> bool" where
  "appends f \<longleftrightarrow> (\<forall>out r. f out = Inr r \<longrightarrow> (\<exists>b. r = out @ b))"

definition agree :: "step \<Rightarrow> step \<Rightarrow> bool \<Rightarrow> bool" where
  "agree f g P \<longleftrightarrow> (\<forall>out r r' x y. f out = Inr r \<longrightarrow> g out = Inr r' \<longrightarrow> r @ x = r' @ y \<longrightarrow> r = r' \<and> P)"

named_theorems appends_intros "steps that append"

lemma appends_bind [appends_intros]: "appends f \<Longrightarrow> appends g \<Longrightarrow> appends (\<lambda>out. bindE (f out) g)"
  by (fastforce simp: appends_def res_simps)

lemma appends_pre [appends_intros]: "(\<And>s. appends (f s)) \<Longrightarrow> appends (\<lambda>out. bindE m (\<lambda>s. f s out))"
  by (auto simp: appends_def res_simps)

lemma appends_if [appends_intros]: "appends f \<Longrightarrow> appends g \<Longrightarrow> appends (\<lambda>out. if c then f out else g out)"
  by (simp add: appends_def)

lemma appends_ensure [appends_intros]: "appends f \<Longrightarrow> appends (\<lambda>out. ensure c m (f out))"
  by (simp add: appends_def)

lemma appends_add [appends_intros]: "appends (\<lambda>out. Inr (out @ b))" "appends Inr" "appends (\<lambda>out. Inr out)"
  by (auto simp: appends_def)

lemma appends_fold: "(\<And>v. v \<in> set vs \<Longrightarrow> appends (\<lambda>out. f out v)) \<Longrightarrow> appends (\<lambda>out. foldE f out vs)"
proof (induction vs)
  case (Cons v vs)
  then have "appends (\<lambda>out. bindE (f out v) (\<lambda>s. foldE f s vs))"
    by (intro appends_bind) auto
  then show ?case by simp
qed (simp add: appends_intros)

lemma appends_run: "(\<And>f. f \<in> set steps \<Longrightarrow> appends f) \<Longrightarrow> appends (run_steps steps)"
  unfolding run_steps_def by (rule appends_fold) auto

lemma agree_bind:
  assumes "agree f f' P" and "appends g" "appends g'" and "P \<Longrightarrow> agree g g' Q"
  shows "agree (\<lambda>out. bindE (f out) g) (\<lambda>out. bindE (f' out) g') (P \<and> Q)"
  unfolding agree_def
proof (intro allI impI)
  fix out r r' x y
  assume "bindE (f out) g = Inr r" "bindE (f' out) g' = Inr r'" and e: "r @ x = r' @ y"
  then obtain s s' where s: "f out = Inr s" "g s = Inr r" "f' out = Inr s'" "g' s' = Inr r'"
    by (auto simp: res_simps)
  then obtain b b' where b: "r = s @ b" "r' = s' @ b'" using assms(2,3) by (auto simp: appends_def) metis
  then have "s @ (b @ x) = s' @ (b' @ y)" using e by simp
  with assms(1) s have "s = s' \<and> P" unfolding agree_def by blast
  then show "r = r' \<and> P \<and> Q" using assms(4) s e unfolding agree_def by blast
qed

lemma agree_pre:
  assumes "\<And>s s'. m = Inr s \<Longrightarrow> m' = Inr s' \<Longrightarrow> agree (f s) (f' s') P"
  shows "agree (\<lambda>out. bindE m (\<lambda>s. f s out)) (\<lambda>out. bindE m' (\<lambda>s. f' s out)) P"
  unfolding agree_def
proof (intro allI impI)
  fix out r r' x y
  assume "bindE m (\<lambda>s. f s out) = Inr r" "bindE m' (\<lambda>s. f' s out) = Inr r'" "r @ x = r' @ y"
  then show "r = r' \<and> P" using assms unfolding agree_def by (auto simp: res_simps) blast+
qed

lemma agree_ensure:
  "(c \<Longrightarrow> c' \<Longrightarrow> agree f f' P) \<Longrightarrow> agree (\<lambda>out. ensure c m (f out)) (\<lambda>out. ensure c' m' (f' out)) P"
  by (auto simp: agree_def)

lemma agree_mono: "agree f g P \<Longrightarrow> (P \<Longrightarrow> Q) \<Longrightarrow> agree f g Q"
  by (auto simp: agree_def)

lemma agree_same: "appends f \<Longrightarrow> agree f f True"
  by (auto simp: agree_def)

lemma agree_fixed: "length b = length b' \<Longrightarrow> agree (\<lambda>out. Inr (out @ b)) (\<lambda>out. Inr (out @ b')) (b = b')"
  by (auto simp: agree_def)

lemma run_steps_Cons: "run_steps (f # fs) = (\<lambda>out. bindE (f out) (run_steps fs))"
  by (simp add: run_steps_def [abs_def])

lemma run_steps_append: "run_steps (fs @ gs) = (\<lambda>out. bindE (run_steps fs out) (run_steps gs))"
  by (simp add: run_steps_def [abs_def] foldE_append)

locale writer =
  fixes wr :: "'a \<Rightarrow> bytes \<Rightarrow> bytes res" and key :: "'a \<Rightarrow> 'k"
  assumes wr_appends: "appends (wr v)"
    and wr_agree: "agree (wr v) (wr v') (key v = key v')"
begin

text \<open>Values written one after the other agree when their numbers do.\<close>

lemma fold_appends: "appends (\<lambda>out. foldE (\<lambda>out v. wr v out) out vs)"
  by (rule appends_fold) (rule wr_appends)

lemma fold_agree:
  "length vs = length vs' \<Longrightarrow>
   agree (\<lambda>out. foldE (\<lambda>out v. wr v out) out vs) (\<lambda>out. foldE (\<lambda>out v. wr v out) out vs') (map key vs = map key vs')"
proof (induction vs vs' rule: list_induct2)
  case Nil
  then show ?case by (simp add: agree_def)
next
  case (Cons v vs v' vs')
  have "agree (\<lambda>out. bindE (wr v out) (\<lambda>out. foldE (\<lambda>out v. wr v out) out vs))
      (\<lambda>out. bindE (wr v' out) (\<lambda>out. foldE (\<lambda>out v. wr v out) out vs')) (key v = key v' \<and> map key vs = map key vs')"
    by (rule agree_bind [OF wr_agree fold_appends fold_appends Cons.IH])
  then show ?case by simp
qed

end

section \<open>The encoders keep the interface\<close>

lemma be_bytes_split: "be_bytes (k + w) n = be_bytes k (n div 256 ^ w) @ be_bytes w n"
proof (induction w arbitrary: n)
  case (Suc w)
  then show ?case by (simp add: div_mult2_eq)
qed simp

lemma prefix_limit_eq: "w \<le> 16 \<Longrightarrow> prefix_limit w = Inr m \<Longrightarrow> m \<le> 256 ^ w"
proof -
  assume w: "w \<le> 16" and m: "prefix_limit w = Inr m"
  have "w * 8 mod U32 = w * 8" using w by (intro mod_less) (simp add: U32_def)
  then have "m = (if w * 8 < 128 then 2 ^ (w * 8) else U128 - 1)"
    using m by (auto simp: prefix_limit_def res_simps)
  moreover have "(256::nat) ^ w = 2 ^ (w * 8)" by (simp add: power_mult mult.commute [of w])
  moreover have "w = 16 \<or> w < 16" using w by auto
  ultimately show ?thesis by (auto simp: U128_def)
qed

lemma append_size_eq:
  "append_size out v w = Inr r \<Longrightarrow> w \<le> 16 \<and> v < 256 ^ w \<and> r = out @ be_bytes w v"
proof -
  assume a: "append_size out v w = Inr r"
  then obtain m where w: "w \<le> 16" and m: "prefix_limit w = Inr m" "v < m"
    and r: "r = out @ sub_bytes (be_bytes 16 v) (16 - w) 16"
    by (auto simp: append_size_def res_simps split: if_splits)
  have "be_bytes 16 v = be_bytes (16 - w) (v div 256 ^ w) @ be_bytes w v"
    using be_bytes_split [of "16 - w" w v] w by simp
  then show ?thesis using w m prefix_limit_eq [OF w m(1)] r by (simp add: sub_bytes_def)
qed

lemma appends_size [appends_intros]: "appends (\<lambda>out. append_size out v w)"
  by (auto simp: appends_def dest: append_size_eq)

lemma agree_size: "agree (\<lambda>out. append_size out v w) (\<lambda>out. append_size out v' w) (v = v')"
  unfolding agree_def
proof (intro allI impI)
  fix out r r' x y
  assume "append_size out v w = Inr r" "append_size out v' w = Inr r'" and e: "r @ x = r' @ y"
  then have b: "v < 256 ^ w" "v' < 256 ^ w" and r: "r = out @ be_bytes w v" "r' = out @ be_bytes w v'"
    by (auto dest: append_size_eq)
  then have h: "be_bytes w v = be_bytes w v'" using e by simp
  then have "be_nat (be_bytes w v) = be_nat (be_bytes w v')" by simp
  then have "v = v'" using b by (simp add: be_nat_be_bytes)
  with r h show "r = r' \<and> v = v'" by simp
qed

interpretation bytes_wr: writer "\<lambda>v out. append_bytes out v w" "\<lambda>v. v" for w
proof unfold_locales
  show "appends (\<lambda>out. append_bytes out v w)" for v
    unfolding append_bytes_def by (intro appends_intros)
  have c: "agree (\<lambda>out. bindE (append_size out (length v) w) (\<lambda>out. Inr (out @ v)))
        (\<lambda>out. bindE (append_size out (length v') w) (\<lambda>out. Inr (out @ v'))) (v = v')" for v v' :: bytes
    by (rule agree_mono [OF agree_bind [OF agree_size]]) (auto intro: appends_intros agree_fixed)
  show "agree (\<lambda>out. append_bytes out v w) (\<lambda>out. append_bytes out v' w) (v = v')" for v v'
    unfolding append_bytes_def by (intro agree_pre agree_ensure c)
qed

interpretation b64_wr: writer "\<lambda>v out. append_b64 E out v w l" "\<lambda>v. v" for E w l
proof unfold_locales
  show "appends (\<lambda>out. append_b64 E out v w l)" for v
    unfolding append_b64_def by (intro appends_intros bytes_wr.wr_appends)
  show "agree (\<lambda>out. append_b64 E out v w l) (\<lambda>out. append_b64 E out v' w l) (v = v')" for v v'
    unfolding append_b64_def
    by (intro agree_pre agree_mono [OF bytes_wr.wr_agree]) (auto dest: decode_b64_inj)
qed

text \<open>The number a decimal field stands for, read back from its big-endian bytes.\<close>

definition decimal_value :: "deps \<Rightarrow> str \<Rightarrow> nat" where
  "decimal_value E v = be_nat (x_big_bytes E (the (x_big_parse E v)))"

lemma parse_biguint_eq: "parse_biguint E v l = Inr n \<Longrightarrow> x_big_parse E v = Some n"
  by (auto simp: parse_biguint_def res_simps split: if_splits)

interpretation decimal_wr: writer "\<lambda>v out. append_decimal E out v w l" "decimal_value E" for E w l
proof unfold_locales
  show "appends (\<lambda>out. append_decimal E out v w l)" for v
    unfolding append_decimal_def Let_def by (intro appends_intros bytes_wr.wr_appends)
  have z: "be_nat [0] = 0" using be_nat_replicate_zero [of 1] by simp
  have z': "[0] = bs \<Longrightarrow> be_nat bs = 0" for bs using z by blast
  show "agree (\<lambda>out. append_decimal E out v w l) (\<lambda>out. append_decimal E out v' w l)
      (decimal_value E v = decimal_value E v')" for v v'
    unfolding append_decimal_def Let_def
    by (intro agree_pre agree_mono [OF bytes_wr.wr_agree])
      (auto simp: decimal_value_def z z' dest!: parse_biguint_eq split: if_splits)
qed


lemma decimal_bytes_nonempty: "(if e = [] then [0] else e) \<noteq> ([] :: bytes)"
  by simp

definition optional_b64_value :: "deps \<Rightarrow> str \<Rightarrow> bytes" where
  "optional_b64_value E v = (if v = [] then [] else the (x_b64_decode E v))"

definition optional_decimal_value :: "deps \<Rightarrow> str \<Rightarrow> nat option" where
  "optional_decimal_value E v = (if v = [] then None else Some (decimal_value E v))"

interpretation optional_b64_wr: writer "\<lambda>v out. append_optional_b64 E out v w l" "optional_b64_value E" for E w l
proof unfold_locales
  show "appends (\<lambda>out. append_optional_b64 E out v w l)" for v
    unfolding append_optional_b64_def by (intro appends_intros bytes_wr.wr_appends b64_wr.wr_appends)
  have f: "append_optional_b64 E out v w l =
      bindE (if v = [] then Inr [] else decode_b64 E v l) (\<lambda>d. append_bytes out d w)" for out v
    by (simp add: append_optional_b64_def append_b64_def)
  show "agree (\<lambda>out. append_optional_b64 E out v w l) (\<lambda>out. append_optional_b64 E out v' w l)
      (optional_b64_value E v = optional_b64_value E v')" for v v'
    unfolding f by (intro agree_pre agree_mono [OF bytes_wr.wr_agree])
      (auto simp: decode_b64_eq optional_b64_value_def split: if_splits)
qed

text \<open>An absent optional decimal and a present one never have the same bytes.\<close>

interpretation optional_decimal_wr: writer "\<lambda>v out. append_optional_decimal E out v w l" "optional_decimal_value E" for E w l
proof unfold_locales
  show "appends (\<lambda>out. append_optional_decimal E out v w l)" for v
    unfolding append_optional_decimal_def by (intro appends_intros bytes_wr.wr_appends decimal_wr.wr_appends)
  have f: "append_optional_decimal E out v w l =
      bindE (if v = [] then Inr [] else bindE (parse_biguint E v l) (\<lambda>n.
        Inr (if x_big_bytes E n = [] then [0] else x_big_bytes E n))) (\<lambda>d. append_bytes out d w)" for out v
    by (cases "parse_biguint E v l") (simp_all add: append_optional_decimal_def append_decimal_def Let_def)
  have z: "be_nat [0] = 0" using be_nat_replicate_zero [of 1] by simp
  have z': "[0] = bs \<Longrightarrow> be_nat bs = 0" for bs using z by blast
  show "agree (\<lambda>out. append_optional_decimal E out v w l) (\<lambda>out. append_optional_decimal E out v' w l)
      (optional_decimal_value E v = optional_decimal_value E v')" for v v'
    unfolding f
    by (intro agree_pre agree_mono [OF bytes_wr.wr_agree])
      (auto simp: optional_decimal_value_def decimal_value_def z z' res_simps dest!: parse_biguint_eq split: if_splits)
qed

interpretation u64_wr: writer "\<lambda>v out. append_u64 E out v w" "\<lambda>v. decimal_value E (show_nat v)" for E w
  unfolding append_u64_def by unfold_locales (rule decimal_wr.wr_appends decimal_wr.wr_agree)+

interpretation fixed_decimal_wr: writer "\<lambda>v out. append_fixed_decimal E out v n l" "decimal_value E" for E n l
proof unfold_locales
  show "appends (\<lambda>out. append_fixed_decimal E out v n l)" for v
    unfolding append_fixed_decimal_def Let_def by (intro appends_intros)
  have pad: "be_nat (replicate k 0 @ bs) = be_nat bs" for k bs by (simp add: be_nat_append)
  show "agree (\<lambda>out. append_fixed_decimal E out v n l) (\<lambda>out. append_fixed_decimal E out v' n l)
      (decimal_value E v = decimal_value E v')" for v v'
    unfolding append_fixed_decimal_def Let_def
  proof (intro agree_pre agree_ensure, goal_cases)
    case (1 s s')
    let ?e = "replicate (n - length (x_big_bytes E s)) 0 @ x_big_bytes E s"
    let ?e' = "replicate (n - length (x_big_bytes E s')) 0 @ x_big_bytes E s'"
    have "agree (\<lambda>out. Inr (out @ ?e)) (\<lambda>out. Inr (out @ ?e')) (?e = ?e')"
      by (rule agree_fixed) (use 1 in simp)
    then show ?case
      by (rule agree_mono) (metis 1(1,2) decimal_value_def option.sel pad parse_biguint_eq)
  qed
qed

interpretation fixed_u64_wr: writer "\<lambda>v out. append_fixed_u64 E out v n" "\<lambda>v. decimal_value E (show_nat v)" for E n
  unfolding append_fixed_u64_def by unfold_locales (rule fixed_decimal_wr.wr_appends fixed_decimal_wr.wr_agree)+

interpretation fixed_b64_wr: writer "\<lambda>v out. append_fixed_b64 E out v n l" "\<lambda>v. v" for E n l
proof unfold_locales
  show "appends (\<lambda>out. append_fixed_b64 E out v n l)" for v
    unfolding append_fixed_b64_def by (intro appends_intros)
  show "agree (\<lambda>out. append_fixed_b64 E out v n l) (\<lambda>out. append_fixed_b64 E out v' n l) (v = v')" for v v'
    unfolding append_fixed_b64_def
    by (intro agree_pre agree_ensure agree_mono [OF agree_fixed]) (auto dest: decode_b64_inj)
qed

text \<open>A counted list is determined by its bytes when its elements are.\<close>

lemma counted_writer:
  assumes "writer wr key"
  shows "writer (\<lambda>vs out. bindE (append_size out (length vs) w) (\<lambda>out. foldE (\<lambda>out v. wr v out) out vs)) (map key)"
proof unfold_locales
  show "appends (\<lambda>out. bindE (append_size out (length vs) w) (\<lambda>out. foldE (\<lambda>out v. wr v out) out vs))" for vs
    by (intro appends_intros writer.fold_appends [OF assms])
  show "agree (\<lambda>out. bindE (append_size out (length vs) w) (\<lambda>out. foldE (\<lambda>out v. wr v out) out vs))
     (\<lambda>out. bindE (append_size out (length vs') w) (\<lambda>out. foldE (\<lambda>out v. wr v out) out vs'))
     (map key vs = map key vs')" for vs vs'
    by (rule agree_mono [OF agree_bind [OF agree_size writer.fold_appends [OF assms]
          writer.fold_appends [OF assms] writer.fold_agree [OF assms]]]) auto
qed


lemma counted_rev_writer:
  assumes "writer wr key"
  shows "writer (\<lambda>vs out. bindE (append_size out (length vs) w) (\<lambda>out. foldE (\<lambda>out v. wr v out) out (rev vs))) (map key)"
proof unfold_locales
  note c = counted_writer [OF assms, of w]
  show "appends (\<lambda>out. bindE (append_size out (length vs) w) (\<lambda>out. foldE (\<lambda>out v. wr v out) out (rev vs)))" for vs
    using writer.wr_appends [OF c, of "rev vs"] by simp
  show "agree (\<lambda>out. bindE (append_size out (length vs) w) (\<lambda>out. foldE (\<lambda>out v. wr v out) out (rev vs)))
     (\<lambda>out. bindE (append_size out (length vs') w) (\<lambda>out. foldE (\<lambda>out v. wr v out) out (rev vs')))
     (map key vs = map key vs')" for vs vs'
    using writer.wr_agree [OF c, of "rev vs" "rev vs'"] by (simp add: rev_map [symmetric])
qed

interpretation b64_list_wr: writer "\<lambda>vs out. append_b64_list E out vs n w l" "map (\<lambda>v. v)" for E n w l
  unfolding append_b64_list_def by (rule counted_rev_writer) (rule b64_wr.writer_axioms)

interpretation hashes_wr: writer "\<lambda>vs out. append_hashes E out vs l" "map (\<lambda>v. v)" for E l
  unfolding append_hashes_def by (rule counted_writer) (rule fixed_b64_wr.writer_axioms)

interpretation tag_wr: writer "\<lambda>tag out. bindE (contextE (as_str tag) STR ''invalid block tag'') (\<lambda>t.
     append_b64 E out t 2 STR ''block tag'')" "\<lambda>v. v" for E
proof unfold_locales
  show "appends (\<lambda>out. bindE (contextE (as_str tag) m) (\<lambda>t. append_b64 E out t 2 l))" for tag m l
    by (intro appends_pre b64_wr.wr_appends)
  show "agree (\<lambda>out. bindE (contextE (as_str tag) m) (\<lambda>t. append_b64 E out t 2 l))
     (\<lambda>out. bindE (contextE (as_str tag') m) (\<lambda>t. append_b64 E out t 2 l)) (tag = tag')" for tag tag' m l
    by (intro agree_pre agree_mono [OF b64_wr.wr_agree]) (auto simp: res_simps as_str_eq)
qed

interpretation tags_wr: writer "\<lambda>vs out. append_tags E out vs" "map (\<lambda>v. v)" for E
  unfolding append_tags_def by (rule counted_rev_writer) (rule tag_wr.writer_axioms)

text \<open>What a double-signing proof says: its key, and the two signed difficulties.\<close>

definition decimal_field :: "deps \<Rightarrow> json \<Rightarrow> String.literal \<Rightarrow> nat" where
  "decimal_field E proof name = (case proof_field proof name of Inl _ \<Rightarrow> 0 | Inr t \<Rightarrow> decimal_value E t)"

definition proof_part_view where
  "proof_part_view E proof = (\<lambda>(signature, difficulty, previous_difficulty, preimage).
     (proof_field proof signature, decimal_field E proof difficulty,
      decimal_field E proof previous_difficulty, proof_field proof preimage))"

definition proof_view where
  "proof_view E proof =
     (if proof = JNull \<or> as_object proof = Some [] then None
      else Some (proof_field proof STR ''pub_key'',
        proof_part_view E proof (STR ''sig1'', STR ''cdiff1'', STR ''prev_cdiff1'', STR ''preimage1''),
        proof_part_view E proof (STR ''sig2'', STR ''cdiff2'', STR ''prev_cdiff2'', STR ''preimage2'')))"

lemma agree_prefixed_or_fixed:
  "(\<not> c \<Longrightarrow> length b = length b') \<Longrightarrow>
   agree (\<lambda>out. if c then append_bytes out b w else Inr (out @ b))
     (\<lambda>out. if c then append_bytes out b' w else Inr (out @ b')) (b = b')"
  using bytes_wr.wr_agree agree_fixed by (cases c) auto

lemma appends_decimal_field:
  "appends (\<lambda>out. bindE (proof_field proof d) (\<lambda>t. append_decimal E out t w l))"
  by (intro appends_pre decimal_wr.wr_appends)

lemma agree_decimal_field:
  "agree (\<lambda>out. bindE (proof_field proof d) (\<lambda>t. append_decimal E out t w l))
     (\<lambda>out. bindE (proof_field proof' d) (\<lambda>t. append_decimal E out t w l))
     (decimal_field E proof d = decimal_field E proof' d)"
  by (intro agree_pre agree_mono [OF decimal_wr.wr_agree]) (auto simp: decimal_field_def)

lemma appends_preimage_field:
  "appends (\<lambda>out. bindE (proof_field proof d) (\<lambda>t. append_fixed_b64 E out t n l))"
  by (intro appends_pre fixed_b64_wr.wr_appends)

lemma agree_preimage_field:
  "agree (\<lambda>out. bindE (proof_field proof d) (\<lambda>t. append_fixed_b64 E out t n l))
     (\<lambda>out. bindE (proof_field proof' d) (\<lambda>t. append_fixed_b64 E out t n l))
     (proof_field proof d = proof_field proof' d)"
  by (intro agree_pre agree_mono [OF fixed_b64_wr.wr_agree]) auto

lemma append_proof_part_steps:
  "append_proof_part E proof lp sz out (s, d, p, i) =
     bindE (bindE (proof_field proof s) (\<lambda>t. decode_b64 E t STR ''double-signing signature'')) (\<lambda>sg.
     ensure (length sg = sz) STR ''invalid double-signing signature length''
     (bindE (if lp then append_bytes out sg 2 else Inr (out @ sg)) (\<lambda>out.
      bindE (bindE (proof_field proof d) (\<lambda>t. append_decimal E out t 2 d)) (\<lambda>out.
      bindE (bindE (proof_field proof p) (\<lambda>t. append_decimal E out t 2 p)) (\<lambda>out.
      bindE (proof_field proof i) (\<lambda>t. append_fixed_b64 E out t 64 i))))))"
  unfolding append_proof_part_def bindE_def by (auto split: sum.splits)

lemma appends_proof_part: "appends (\<lambda>out. append_proof_part E proof lp sz out q)"
  by (cases q) (auto simp only: append_proof_part_steps intro!: appends_intros appends_decimal_field
      appends_preimage_field bytes_wr.wr_appends)

lemma agree_proof_part:
  "agree (\<lambda>out. append_proof_part E proof lp sz out q) (\<lambda>out. append_proof_part E proof' lp sz out q)
     (proof_part_view E proof q = proof_part_view E proof' q)"
proof (cases q)
  case (fields s d p i)
  show ?thesis
    unfolding fields append_proof_part_steps
  proof (intro agree_pre agree_ensure, goal_cases)
    case (1 sg sg')
    have "agree (\<lambda>out. bindE (if lp then append_bytes out sg 2 else Inr (out @ sg)) (\<lambda>out.
      bindE (bindE (proof_field proof d) (\<lambda>t. append_decimal E out t 2 d)) (\<lambda>out.
      bindE (bindE (proof_field proof p) (\<lambda>t. append_decimal E out t 2 p)) (\<lambda>out.
      bindE (proof_field proof i) (\<lambda>t. append_fixed_b64 E out t 64 i)))))
     (\<lambda>out. bindE (if lp then append_bytes out sg' 2 else Inr (out @ sg')) (\<lambda>out.
      bindE (bindE (proof_field proof' d) (\<lambda>t. append_decimal E out t 2 d)) (\<lambda>out.
      bindE (bindE (proof_field proof' p) (\<lambda>t. append_decimal E out t 2 p)) (\<lambda>out.
      bindE (proof_field proof' i) (\<lambda>t. append_fixed_b64 E out t 64 i)))))
     (sg = sg' \<and> decimal_field E proof d = decimal_field E proof' d
       \<and> decimal_field E proof p = decimal_field E proof' p \<and> proof_field proof i = proof_field proof' i)"
      by (intro agree_bind agree_prefixed_or_fixed agree_decimal_field agree_preimage_field appends_bind
          appends_decimal_field appends_preimage_field) (use 1 in simp_all)
    then show ?case
    proof (rule agree_mono, goal_cases)
      case 1
      moreover obtain t t' where "proof_field proof s = Inr t" "proof_field proof' s = Inr t'"
        "decode_b64 E t STR ''double-signing signature'' = Inr sg" "decode_b64 E t' STR ''double-signing signature'' = Inr sg'"
        using \<open>bindE (proof_field proof s) _ = Inr sg\<close> \<open>bindE (proof_field proof' s) _ = Inr sg'\<close>
        by (auto simp: res_simps)
      ultimately show ?case by (auto simp: proof_part_view_def dest: decode_b64_inj)
    qed
  qed
qed


text \<open>The part of the proof's encoding that follows its flag byte.\<close>

definition proof_body :: "deps \<Rightarrow> json \<Rightarrow> bool \<Rightarrow> bytes \<Rightarrow> nat \<Rightarrow> bytes \<Rightarrow> bytes res" where
  "proof_body E proof lp key sz out =
     bindE (if lp then append_bytes out key 2 else Inr (out @ key)) (\<lambda>out.
     bindE (append_proof_part E proof lp sz out (STR ''sig1'', STR ''cdiff1'', STR ''prev_cdiff1'', STR ''preimage1'')) (\<lambda>out.
     append_proof_part E proof lp sz out (STR ''sig2'', STR ''cdiff2'', STR ''prev_cdiff2'', STR ''preimage2'')))"

definition proof_key :: "deps \<Rightarrow> json \<Rightarrow> bool \<Rightarrow> (bytes \<times> nat) res" where
  "proof_key E proof lp =
     bindE (proof_field proof STR ''pub_key'') (\<lambda>k.
     bindE (decode_b64 E k STR ''double-signing public key'') (\<lambda>key.
     bindE (if length key = 512 then Inr 512
               else if length key = 33 \<and> lp then Inr 65
               else Inl (Fail STR ''invalid double-signing public key length'')) (\<lambda>sz. Inr (key, sz))))"

lemma bindE_Inr_right [simp]: "bindE m Inr = m"
  by (cases m) simp_all

lemma append_double_signing_proof_steps:
  "append_double_signing_proof E out proof height =
     (if proof = JNull \<or> as_object proof = Some [] then Inr (out @ [0])
      else bindE (proof_key E proof (FORK_2_9_HEIGHT \<le> height)) (\<lambda>(key, sz).
        bindE (Inr (out @ [1])) (\<lambda>out. proof_body E proof (FORK_2_9_HEIGHT \<le> height) key sz out)))"
  unfolding append_double_signing_proof_def proof_key_def proof_body_def bindE_def Let_def
  by (auto split: sum.splits)

lemma appends_proof_body: "appends (proof_body E proof lp key sz)"
  unfolding proof_body_def by (intro appends_intros appends_proof_part bytes_wr.wr_appends)

lemma agree_proof_body:
  "(\<not> lp \<Longrightarrow> length key = length key') \<Longrightarrow> (key = key' \<Longrightarrow> sz = sz') \<Longrightarrow>
   agree (proof_body E proof lp key sz) (proof_body E proof' lp key' sz')
     (key = key' \<and> proof_part_view E proof (STR ''sig1'', STR ''cdiff1'', STR ''prev_cdiff1'', STR ''preimage1'')
         = proof_part_view E proof' (STR ''sig1'', STR ''cdiff1'', STR ''prev_cdiff1'', STR ''preimage1'')
       \<and> proof_part_view E proof (STR ''sig2'', STR ''cdiff2'', STR ''prev_cdiff2'', STR ''preimage2'')
         = proof_part_view E proof' (STR ''sig2'', STR ''cdiff2'', STR ''prev_cdiff2'', STR ''preimage2''))"
  unfolding proof_body_def
  by (intro agree_bind agree_prefixed_or_fixed appends_bind appends_proof_part)
    (use agree_proof_part in fastforce)+

lemma proof_key_eq:
  assumes "proof_key E proof lp = Inr (key, sz)"
  obtains k where "proof_field proof STR ''pub_key'' = Inr k" "x_b64_decode E k = Some key" "x_b64_encode E key = k"
    "sz = (if length key = 512 then 512 else 65)" "\<not> lp \<longrightarrow> length key = 512"
  using assms by (auto simp: proof_key_def res_simps decode_b64_eq split: if_splits)

interpretation double_signing_wr: writer "\<lambda>proof out. append_double_signing_proof E out proof height" "proof_view E"
  for E height
proof unfold_locales
  let ?lp = "FORK_2_9_HEIGHT \<le> height"
  have body: "appends (\<lambda>out. bindE (Inr (out @ [1])) (\<lambda>out. proof_body E pf ?lp key sz out))" for pf key sz
    by (intro appends_bind appends_add(1) appends_proof_body)
  show ap: "appends (\<lambda>out. append_double_signing_proof E out pf height)" for pf
    unfolding append_double_signing_proof_steps split_beta by (intro appends_if appends_pre body appends_add)
  show "agree (\<lambda>out. append_double_signing_proof E out pf height)
     (\<lambda>out. append_double_signing_proof E out pf' height) (proof_view E pf = proof_view E pf')" for pf pf'
  proof -
    have first: "\<exists>b. r = out @ (if pf = JNull \<or> as_object pf = Some [] then 0 else 1) # b"
      if "append_double_signing_proof E out pf height = Inr r" for pf out r
      using that appends_proof_body
      by (fastforce simp: append_double_signing_proof_steps appends_def res_simps split: if_splits)
    show ?thesis
    proof (cases "(pf = JNull \<or> as_object pf = Some []) = (pf' = JNull \<or> as_object pf' = Some [])")
      case False
      show ?thesis unfolding agree_def
      proof (intro allI impI)
        fix out r r' x y
        assume "append_double_signing_proof E out pf height = Inr r"
          "append_double_signing_proof E out pf' height = Inr r'" and e: "r @ x = r' @ y"
        then obtain b b' where "r = out @ (if pf = JNull \<or> as_object pf = Some [] then 0 else 1) # b"
          "r' = out @ (if pf' = JNull \<or> as_object pf' = Some [] then 0 else 1) # b'"
          using first by metis
        with e have "(if pf = JNull \<or> as_object pf = Some [] then 0 else 1 :: byte)
            = (if pf' = JNull \<or> as_object pf' = Some [] then 0 else 1)" by simp
        with False have False by (metis zero_neq_one)
        then show "r = r' \<and> proof_view E pf = proof_view E pf'" ..
      qed
    next
      case True
      show ?thesis
      proof (cases "pf = JNull \<or> as_object pf = Some []")
        case t: True
        with True have t': "pf' = JNull \<or> as_object pf' = Some []" by blast
        show ?thesis
          unfolding append_double_signing_proof_steps proof_view_def if_P [OF t] if_P [OF t'] agree_def by blast
      next
        case f: False
        have "agree (\<lambda>out. bindE (proof_key E pf ?lp) (\<lambda>(key, sz). bindE (Inr (out @ [1])) (proof_body E pf ?lp key sz)))
           (\<lambda>out. bindE (proof_key E pf' ?lp) (\<lambda>(key, sz). bindE (Inr (out @ [1])) (proof_body E pf' ?lp key sz)))
           (proof_view E pf = proof_view E pf')"
          unfolding split_beta
        proof (rule agree_pre, goal_cases)
          case (1 s s')
          obtain key sz key' sz' where k: "s = (key, sz)" "s' = (key', sz')" by (cases s, cases s') auto
          with 1 have pk: "proof_key E pf ?lp = Inr (key, sz)" "proof_key E pf' ?lp = Inr (key', sz')" by auto
          then have len: "\<not> ?lp \<Longrightarrow> length key = length key'" "key = key' \<Longrightarrow> sz = sz'"
            by (auto elim!: proof_key_eq)
          have one: "agree (\<lambda>out. Inr (out @ [1])) (\<lambda>out. Inr (out @ [1])) True"
            by (rule agree_same [OF appends_add(1)])
          note b = agree_bind [OF one appends_proof_body appends_proof_body agree_proof_body [OF len]]
          show ?case
            unfolding k fst_conv snd_conv
            by (rule agree_mono [OF b]) (use pk f True in \<open>auto simp: proof_view_def elim!: proof_key_eq\<close>)
        qed
        then show ?thesis using f True by (simp add: append_double_signing_proof_steps)
      qed
    qed
  qed
qed


section \<open>The signed segment determines the header\<close>

text \<open>
  The fields two headers share when their signed segments are equal: text fields as they are,
  decimals by value, an optional hash by its bytes, the nonce without its leading zeros.
\<close>

definition same_2_6 :: "deps \<Rightarrow> BlockHeader \<Rightarrow> BlockHeader \<Rightarrow> bool" where
  "same_2_6 E b b' \<longleftrightarrow>
     bh_previous_block b = bh_previous_block b'
     \<and> bh_timestamp b = bh_timestamp b'
     \<and> bh_height b = bh_height b'
     \<and> decimal_value E (bh_diff b) = decimal_value E (bh_diff b')
     \<and> decimal_value E (bh_cumulative_diff b) = decimal_value E (bh_cumulative_diff b')
     \<and> bh_last_retarget b = bh_last_retarget b'
     \<and> bh_hash b = bh_hash b'
     \<and> decimal_value E (bh_block_size b) = decimal_value E (bh_block_size b')
     \<and> decimal_value E (bh_weave_size b) = decimal_value E (bh_weave_size b')
     \<and> reward_address E (bh_reward_addr b) True = reward_address E (bh_reward_addr b') True
     \<and> bh_tx_root b = bh_tx_root b'
     \<and> bh_wallet_list b = bh_wallet_list b'
     \<and> bh_hash_list_merkle b = bh_hash_list_merkle b'
     \<and> decimal_value E (bh_reward_pool b) = decimal_value E (bh_reward_pool b')
     \<and> decimal_value E (bh_packing_2_5_threshold b) = decimal_value E (bh_packing_2_5_threshold b')
     \<and> decimal_value E (bh_strict_data_split_threshold b) = decimal_value E (bh_strict_data_split_threshold b')
     \<and> decimal_value E (fst (bh_usd_to_ar_rate b)) = decimal_value E (fst (bh_usd_to_ar_rate b'))
     \<and> decimal_value E (snd (bh_usd_to_ar_rate b)) = decimal_value E (snd (bh_usd_to_ar_rate b'))
     \<and> decimal_value E (fst (bh_scheduled_usd_to_ar_rate b)) = decimal_value E (fst (bh_scheduled_usd_to_ar_rate b'))
     \<and> decimal_value E (snd (bh_scheduled_usd_to_ar_rate b)) = decimal_value E (snd (bh_scheduled_usd_to_ar_rate b'))
     \<and> bh_tags b = bh_tags b'
     \<and> bh_txs b = bh_txs b'
     \<and> decimal_value E (bh_reward b) = decimal_value E (bh_reward b')
     \<and> decimal_value E (bh_recall_byte b) = decimal_value E (bh_recall_byte b')
     \<and> bh_hash_preimage b = bh_hash_preimage b'
     \<and> optional_decimal_value E (bh_recall_byte2 b) = optional_decimal_value E (bh_recall_byte2 b')
     \<and> bh_reward_key b = bh_reward_key b'
     \<and> bh_partition_number b = bh_partition_number b'
     \<and> nl_output (bh_nonce_limiter_info b) = nl_output (bh_nonce_limiter_info b')
     \<and> nl_global_step_number (bh_nonce_limiter_info b) = nl_global_step_number (bh_nonce_limiter_info b')
     \<and> nl_seed (bh_nonce_limiter_info b) = nl_seed (bh_nonce_limiter_info b')
     \<and> nl_next_seed (bh_nonce_limiter_info b) = nl_next_seed (bh_nonce_limiter_info b')
     \<and> nl_zone_upper_bound (bh_nonce_limiter_info b) = nl_zone_upper_bound (bh_nonce_limiter_info b')
     \<and> nl_next_zone_upper_bound (bh_nonce_limiter_info b) = nl_next_zone_upper_bound (bh_nonce_limiter_info b')
     \<and> nl_prev_output (bh_nonce_limiter_info b) = nl_prev_output (bh_nonce_limiter_info b')
     \<and> nl_checkpoints (bh_nonce_limiter_info b) = nl_checkpoints (bh_nonce_limiter_info b')
     \<and> nl_last_step_checkpoints (bh_nonce_limiter_info b) = nl_last_step_checkpoints (bh_nonce_limiter_info b')
     \<and> bh_previous_solution_hash b = bh_previous_solution_hash b'
     \<and> decimal_value E (bh_price_per_gib_minute b) = decimal_value E (bh_price_per_gib_minute b')
     \<and> decimal_value E (bh_scheduled_price_per_gib_minute b) = decimal_value E (bh_scheduled_price_per_gib_minute b')
     \<and> bh_reward_history_hash b = bh_reward_history_hash b'
     \<and> decimal_value E (bh_debt_supply b) = decimal_value E (bh_debt_supply b')
     \<and> decimal_value E (bh_kryder_plus_rate_multiplier b) = decimal_value E (bh_kryder_plus_rate_multiplier b')
     \<and> decimal_value E (bh_kryder_plus_rate_multiplier_latch b) = decimal_value E (bh_kryder_plus_rate_multiplier_latch b')
     \<and> decimal_value E (bh_denomination b) = decimal_value E (bh_denomination b')
     \<and> bh_redenomination_height b = bh_redenomination_height b'
     \<and> proof_view E (bh_double_signing_proof b) = proof_view E (bh_double_signing_proof b')
     \<and> decimal_value E (bh_previous_cumulative_diff b) = decimal_value E (bh_previous_cumulative_diff b')"

definition same_2_7 :: "deps \<Rightarrow> BlockHeader \<Rightarrow> BlockHeader \<Rightarrow> bool" where
  "same_2_7 E b b' \<longleftrightarrow>
     decimal_value E (bh_merkle_rebase_support_threshold b) = decimal_value E (bh_merkle_rebase_support_threshold b')
     \<and> poa_data_path (bh_poa b) = poa_data_path (bh_poa b')
     \<and> poa_tx_path (bh_poa b) = poa_tx_path (bh_poa b')
     \<and> poa_data_path (bh_poa2 b) = poa_data_path (bh_poa2 b')
     \<and> poa_tx_path (bh_poa2 b) = poa_tx_path (bh_poa2 b')
     \<and> bh_chunk_hash b = bh_chunk_hash b'
     \<and> optional_b64_value E (bh_chunk2_hash b) = optional_b64_value E (bh_chunk2_hash b')
     \<and> bh_block_time_history_hash b = bh_block_time_history_hash b'
     \<and> decimal_value E (nl_vdf_difficulty (bh_nonce_limiter_info b)) = decimal_value E (nl_vdf_difficulty (bh_nonce_limiter_info b'))
     \<and> decimal_value E (nl_next_vdf_difficulty (bh_nonce_limiter_info b)) = decimal_value E (nl_next_vdf_difficulty (bh_nonce_limiter_info b'))"

definition same_2_8 :: "deps \<Rightarrow> BlockHeader \<Rightarrow> BlockHeader \<Rightarrow> bool" where
  "same_2_8 E b b' \<longleftrightarrow>
     bh_packing_difficulty b = bh_packing_difficulty b'
     \<and> optional_b64_value E (bh_unpacked_chunk_hash b) = optional_b64_value E (bh_unpacked_chunk_hash b')
     \<and> optional_b64_value E (bh_unpacked_chunk2_hash b) = optional_b64_value E (bh_unpacked_chunk2_hash b')"

definition same_nonce :: "deps \<Rightarrow> BlockHeader \<Rightarrow> BlockHeader \<Rightarrow> bool" where
  "same_nonce E b b' \<longleftrightarrow>
     (case (decode_b64 E (bh_nonce b) STR ''block nonce'', decode_b64 E (bh_nonce b') STR ''block nonce'') of
        (Inr n, Inr n') \<Rightarrow> strip_nonce n = strip_nonce n' | _ \<Rightarrow> False)"

definition same_signed :: "deps \<Rightarrow> BlockHeader \<Rightarrow> BlockHeader \<Rightarrow> bool" where
  "same_signed E b b' \<longleftrightarrow> same_2_6 E b b' \<and> same_nonce E b b'
     \<and> (FORK_2_7_HEIGHT \<le> bh_height b \<longrightarrow> same_2_7 E b b')
     \<and> (FORK_2_8_HEIGHT \<le> bh_height b \<longrightarrow> same_2_8 E b b')
     \<and> (FORK_2_9_HEIGHT \<le> bh_height b \<longrightarrow> bh_replica_format b = bh_replica_format b')"

fun agree_list :: "step list \<Rightarrow> step list \<Rightarrow> bool list \<Rightarrow> bool" where
  "agree_list [] [] [] = True"
| "agree_list (f # fs) (g # gs) (P # Ps) \<longleftrightarrow> agree f g P \<and> (P \<longrightarrow> agree_list fs gs Ps)"
| "agree_list _ _ _ = False"

lemma agree_run:
  assumes "list_all appends fs" "list_all appends gs" "agree_list fs gs Ps"
  shows "agree (run_steps fs) (run_steps gs) (list_all (\<lambda>P. P) Ps)"
  using assms
proof (induction fs gs Ps rule: agree_list.induct)
  case 1
  then show ?case by (simp add: agree_def run_steps_def)
next
  case (2 f fs g gs P Ps)
  have ap: "appends (run_steps fs)" "appends (run_steps gs)"
    using 2 by (auto intro!: appends_run simp: list_all_iff)
  show ?case
    unfolding run_steps_Cons list.pred_inject by (rule agree_bind) (use 2 ap in simp_all)
qed simp_all

lemmas writer_agrees =
  bytes_wr.wr_agree b64_wr.wr_agree decimal_wr.wr_agree optional_b64_wr.wr_agree
  optional_decimal_wr.wr_agree fixed_decimal_wr.wr_agree fixed_b64_wr.wr_agree
  b64_list_wr.wr_agree hashes_wr.wr_agree tags_wr.wr_agree double_signing_wr.wr_agree
  u64_wr.wr_agree fixed_u64_wr.wr_agree

lemmas writer_appends =
  bytes_wr.wr_appends b64_wr.wr_appends decimal_wr.wr_appends optional_b64_wr.wr_appends
  optional_decimal_wr.wr_appends fixed_decimal_wr.wr_appends fixed_b64_wr.wr_appends
  b64_list_wr.wr_appends hashes_wr.wr_appends tags_wr.wr_appends double_signing_wr.wr_appends
  u64_wr.wr_appends fixed_u64_wr.wr_appends

lemma signed_steps_append:
  "list_all appends (signed_steps_2_6 E b n)" "list_all appends (signed_steps_2_7 E b)"
  "list_all appends (signed_steps_2_8 E b)" "list_all appends (signed_steps_2_9 b)"
  unfolding signed_steps_2_6_def signed_steps_2_7_def signed_steps_2_8_def signed_steps_2_9_def Let_def
  by (auto simp only: list.pred_inject if_splits intro!: writer_appends appends_pre appends_add conjI)


lemma u64_value: "decimal_codec E \<Longrightarrow> decimal_value E (show_nat v) = v"
  by (simp add: decimal_codec_def decimal_value_def)

lemma u64_agree:
  "decimal_codec E \<Longrightarrow> agree (\<lambda>out. append_u64 E out v w) (\<lambda>out. append_u64 E out v' w) (v = v')"
  "decimal_codec E \<Longrightarrow> agree (\<lambda>out. append_fixed_u64 E out v w) (\<lambda>out. append_fixed_u64 E out v' w) (v = v')"
  using u64_wr.wr_agree [of E v w v'] fixed_u64_wr.wr_agree [of E v w v'] by (simp_all add: u64_value)

lemma b64_list_agree:
  "agree (\<lambda>out. append_b64_list E out v n w l) (\<lambda>out. append_b64_list E out v' n w l) (v = v')"
  "agree (\<lambda>out. append_hashes E out h l) (\<lambda>out. append_hashes E out h' l) (h = h')"
  "agree (\<lambda>out. append_tags E out t) (\<lambda>out. append_tags E out t') (t = t')"
  using b64_list_wr.wr_agree [of E v n w l v'] hashes_wr.wr_agree [of E h l h'] tags_wr.wr_agree [of E t t'] by simp_all

lemma reward_agree:
  "agree (\<lambda>out. bindE (reward_address E v c) (\<lambda>a. append_bytes out a w))
     (\<lambda>out. bindE (reward_address E v' c) (\<lambda>a. append_bytes out a w)) (reward_address E v c = reward_address E v' c)"
  by (intro agree_pre agree_mono [OF bytes_wr.wr_agree]) simp

lemma byte_agree: "agree (\<lambda>out. Inr (out @ [x])) (\<lambda>out. Inr (out @ [y])) (x = y)"
  using agree_fixed [of "[x]" "[y]"] by simp

lemma double_signing_agree:
  "h = h' \<Longrightarrow> agree (\<lambda>out. append_double_signing_proof E out p h) (\<lambda>out. append_double_signing_proof E out p' h')
     (proof_view E p = proof_view E p')"
  using double_signing_wr.wr_agree by simp

lemma same_list_2_6: "same_2_6 E b b' \<and> n = n' \<longleftrightarrow> list_all (\<lambda>P. P)
     [bh_previous_block b = bh_previous_block b',
      bh_timestamp b = bh_timestamp b',
      n = n',
      bh_height b = bh_height b',
      decimal_value E (bh_diff b) = decimal_value E (bh_diff b'),
      decimal_value E (bh_cumulative_diff b) = decimal_value E (bh_cumulative_diff b'),
      bh_last_retarget b = bh_last_retarget b',
      bh_hash b = bh_hash b',
      decimal_value E (bh_block_size b) = decimal_value E (bh_block_size b'),
      decimal_value E (bh_weave_size b) = decimal_value E (bh_weave_size b'),
      reward_address E (bh_reward_addr b) True = reward_address E (bh_reward_addr b') True,
      bh_tx_root b = bh_tx_root b',
      bh_wallet_list b = bh_wallet_list b',
      bh_hash_list_merkle b = bh_hash_list_merkle b',
      decimal_value E (bh_reward_pool b) = decimal_value E (bh_reward_pool b'),
      decimal_value E (bh_packing_2_5_threshold b) = decimal_value E (bh_packing_2_5_threshold b'),
      decimal_value E (bh_strict_data_split_threshold b) = decimal_value E (bh_strict_data_split_threshold b'),
      decimal_value E (fst (bh_usd_to_ar_rate b)) = decimal_value E (fst (bh_usd_to_ar_rate b')),
      decimal_value E (snd (bh_usd_to_ar_rate b)) = decimal_value E (snd (bh_usd_to_ar_rate b')),
      decimal_value E (fst (bh_scheduled_usd_to_ar_rate b)) = decimal_value E (fst (bh_scheduled_usd_to_ar_rate b')),
      decimal_value E (snd (bh_scheduled_usd_to_ar_rate b)) = decimal_value E (snd (bh_scheduled_usd_to_ar_rate b')),
      bh_tags b = bh_tags b',
      bh_txs b = bh_txs b',
      decimal_value E (bh_reward b) = decimal_value E (bh_reward b'),
      decimal_value E (bh_recall_byte b) = decimal_value E (bh_recall_byte b'),
      bh_hash_preimage b = bh_hash_preimage b',
      optional_decimal_value E (bh_recall_byte2 b) = optional_decimal_value E (bh_recall_byte2 b'),
      bh_reward_key b = bh_reward_key b',
      bh_partition_number b = bh_partition_number b',
      nl_output (bh_nonce_limiter_info b) = nl_output (bh_nonce_limiter_info b'),
      nl_global_step_number (bh_nonce_limiter_info b) = nl_global_step_number (bh_nonce_limiter_info b'),
      nl_seed (bh_nonce_limiter_info b) = nl_seed (bh_nonce_limiter_info b'),
      nl_next_seed (bh_nonce_limiter_info b) = nl_next_seed (bh_nonce_limiter_info b'),
      nl_zone_upper_bound (bh_nonce_limiter_info b) = nl_zone_upper_bound (bh_nonce_limiter_info b'),
      nl_next_zone_upper_bound (bh_nonce_limiter_info b) = nl_next_zone_upper_bound (bh_nonce_limiter_info b'),
      nl_prev_output (bh_nonce_limiter_info b) = nl_prev_output (bh_nonce_limiter_info b'),
      nl_checkpoints (bh_nonce_limiter_info b) = nl_checkpoints (bh_nonce_limiter_info b'),
      nl_last_step_checkpoints (bh_nonce_limiter_info b) = nl_last_step_checkpoints (bh_nonce_limiter_info b'),
      bh_previous_solution_hash b = bh_previous_solution_hash b',
      decimal_value E (bh_price_per_gib_minute b) = decimal_value E (bh_price_per_gib_minute b'),
      decimal_value E (bh_scheduled_price_per_gib_minute b) = decimal_value E (bh_scheduled_price_per_gib_minute b'),
      bh_reward_history_hash b = bh_reward_history_hash b',
      decimal_value E (bh_debt_supply b) = decimal_value E (bh_debt_supply b'),
      decimal_value E (bh_kryder_plus_rate_multiplier b) = decimal_value E (bh_kryder_plus_rate_multiplier b'),
      decimal_value E (bh_kryder_plus_rate_multiplier_latch b) = decimal_value E (bh_kryder_plus_rate_multiplier_latch b'),
      decimal_value E (bh_denomination b) = decimal_value E (bh_denomination b'),
      bh_redenomination_height b = bh_redenomination_height b',
      proof_view E (bh_double_signing_proof b) = proof_view E (bh_double_signing_proof b'),
      decimal_value E (bh_previous_cumulative_diff b) = decimal_value E (bh_previous_cumulative_diff b')]"
  unfolding same_2_6_def by (simp only: list.pred_inject) blast

lemma agree_2_6:
  "decimal_codec E \<Longrightarrow> agree (run_steps (signed_steps_2_6 E b n)) (run_steps (signed_steps_2_6 E b' n')) (same_2_6 E b b' \<and> n = n')"
  unfolding same_list_2_6
  by (rule agree_run [OF signed_steps_append(1) signed_steps_append(1)],
      unfold signed_steps_2_6_def Let_def agree_list.simps,
      intro conjI impI bytes_wr.wr_agree b64_wr.wr_agree decimal_wr.wr_agree optional_decimal_wr.wr_agree
        fixed_decimal_wr.wr_agree fixed_b64_wr.wr_agree u64_agree b64_list_agree reward_agree
        double_signing_agree TrueI; assumption)

lemma agree_2_7:
  "bh_height b = bh_height b' \<Longrightarrow> agree (run_steps (signed_steps_2_7 E b)) (run_steps (signed_steps_2_7 E b'))
     (FORK_2_7_HEIGHT \<le> bh_height b \<longrightarrow> same_2_7 E b b')"
proof (cases "FORK_2_7_HEIGHT \<le> bh_height b")
  case True
  assume h: "bh_height b = bh_height b'"
  have "same_2_7 E b b' = list_all (\<lambda>P. P)
     [decimal_value E (bh_merkle_rebase_support_threshold b) = decimal_value E (bh_merkle_rebase_support_threshold b'),
      poa_data_path (bh_poa b) = poa_data_path (bh_poa b'),
      poa_tx_path (bh_poa b) = poa_tx_path (bh_poa b'),
      poa_data_path (bh_poa2 b) = poa_data_path (bh_poa2 b'),
      poa_tx_path (bh_poa2 b) = poa_tx_path (bh_poa2 b'),
      bh_chunk_hash b = bh_chunk_hash b',
      optional_b64_value E (bh_chunk2_hash b) = optional_b64_value E (bh_chunk2_hash b'),
      bh_block_time_history_hash b = bh_block_time_history_hash b',
      decimal_value E (nl_vdf_difficulty (bh_nonce_limiter_info b)) = decimal_value E (nl_vdf_difficulty (bh_nonce_limiter_info b')),
      decimal_value E (nl_next_vdf_difficulty (bh_nonce_limiter_info b)) = decimal_value E (nl_next_vdf_difficulty (bh_nonce_limiter_info b'))]"
    unfolding same_2_7_def by (simp only: list.pred_inject) blast
  moreover have "agree_list (signed_steps_2_7 E b) (signed_steps_2_7 E b')
     [decimal_value E (bh_merkle_rebase_support_threshold b) = decimal_value E (bh_merkle_rebase_support_threshold b'),
      poa_data_path (bh_poa b) = poa_data_path (bh_poa b'),
      poa_tx_path (bh_poa b) = poa_tx_path (bh_poa b'),
      poa_data_path (bh_poa2 b) = poa_data_path (bh_poa2 b'),
      poa_tx_path (bh_poa2 b) = poa_tx_path (bh_poa2 b'),
      bh_chunk_hash b = bh_chunk_hash b',
      optional_b64_value E (bh_chunk2_hash b) = optional_b64_value E (bh_chunk2_hash b'),
      bh_block_time_history_hash b = bh_block_time_history_hash b',
      decimal_value E (nl_vdf_difficulty (bh_nonce_limiter_info b)) = decimal_value E (nl_vdf_difficulty (bh_nonce_limiter_info b')),
      decimal_value E (nl_next_vdf_difficulty (bh_nonce_limiter_info b)) = decimal_value E (nl_next_vdf_difficulty (bh_nonce_limiter_info b'))]"
    using True h by (simp only: signed_steps_2_7_def if_True agree_list.simps)
      (intro conjI impI b64_wr.wr_agree decimal_wr.wr_agree optional_b64_wr.wr_agree fixed_b64_wr.wr_agree TrueI)
  moreover note agree_run [OF signed_steps_append(2) signed_steps_append(2) this]
  ultimately show ?thesis using True by (simp only: simp_thms)
qed (auto simp: signed_steps_2_7_def agree_def run_steps_def)

lemma agree_2_8:
  "bh_height b = bh_height b' \<Longrightarrow> agree (run_steps (signed_steps_2_8 E b)) (run_steps (signed_steps_2_8 E b'))
     (FORK_2_8_HEIGHT \<le> bh_height b \<longrightarrow> same_2_8 E b b')"
proof (cases "FORK_2_8_HEIGHT \<le> bh_height b")
  case True
  assume h: "bh_height b = bh_height b'"
  have "same_2_8 E b b' = list_all (\<lambda>P. P)
     [bh_packing_difficulty b = bh_packing_difficulty b',
      optional_b64_value E (bh_unpacked_chunk_hash b) = optional_b64_value E (bh_unpacked_chunk_hash b'),
      optional_b64_value E (bh_unpacked_chunk2_hash b) = optional_b64_value E (bh_unpacked_chunk2_hash b')]"
    unfolding same_2_8_def by (simp only: list.pred_inject) blast
  moreover have "agree_list (signed_steps_2_8 E b) (signed_steps_2_8 E b')
     [bh_packing_difficulty b = bh_packing_difficulty b',
      optional_b64_value E (bh_unpacked_chunk_hash b) = optional_b64_value E (bh_unpacked_chunk_hash b'),
      optional_b64_value E (bh_unpacked_chunk2_hash b) = optional_b64_value E (bh_unpacked_chunk2_hash b')]"
    using True h by (simp only: signed_steps_2_8_def if_True agree_list.simps)
      (intro conjI impI byte_agree optional_b64_wr.wr_agree TrueI)
  moreover note agree_run [OF signed_steps_append(3) signed_steps_append(3) this]
  ultimately show ?thesis using True by (simp only: simp_thms)
qed (auto simp: signed_steps_2_8_def agree_def run_steps_def)

lemma agree_2_9:
  "bh_height b = bh_height b' \<Longrightarrow> agree (run_steps (signed_steps_2_9 b)) (run_steps (signed_steps_2_9 b'))
     (FORK_2_9_HEIGHT \<le> bh_height b \<longrightarrow> bh_replica_format b = bh_replica_format b')"
  by (auto simp: signed_steps_2_9_def agree_def run_steps_def)

lemma signed_segment_agree:
  assumes "decimal_codec E" and "signed_segment E b = Inr s" and "signed_segment E b' = Inr s"
  shows "same_signed E b b'"
proof -
  obtain n n' where n: "decode_b64 E (bh_nonce b) STR ''block nonce'' = Inr n"
      "decode_b64 E (bh_nonce b') STR ''block nonce'' = Inr n'"
    and run: "run_steps (signed_steps_2_6 E b (strip_nonce n) @ signed_steps_2_7 E b
        @ signed_steps_2_8 E b @ signed_steps_2_9 b) [] = Inr s"
      "run_steps (signed_steps_2_6 E b' (strip_nonce n') @ signed_steps_2_7 E b'
        @ signed_steps_2_8 E b' @ signed_steps_2_9 b') [] = Inr s"
    using assms(2,3) by (auto simp: signed_segment_def res_simps split: if_splits)
  let ?f = "\<lambda>b n. run_steps (signed_steps_2_6 E b n @ signed_steps_2_7 E b @ signed_steps_2_8 E b @ signed_steps_2_9 b)"
  have ap: "appends (run_steps xs)" if "list_all appends xs" for xs
    using that by (auto intro!: appends_run simp: list_all_iff)
  have h: "same_2_6 E b b' \<and> P \<Longrightarrow> bh_height b = bh_height b'" for P
    by (simp add: same_2_6_def)
  have "agree (?f b (strip_nonce n)) (?f b' (strip_nonce n'))
     ((same_2_6 E b b' \<and> strip_nonce n = strip_nonce n')
      \<and> (FORK_2_7_HEIGHT \<le> bh_height b \<longrightarrow> same_2_7 E b b')
      \<and> (FORK_2_8_HEIGHT \<le> bh_height b \<longrightarrow> same_2_8 E b b')
      \<and> (FORK_2_9_HEIGHT \<le> bh_height b \<longrightarrow> bh_replica_format b = bh_replica_format b'))"
    unfolding run_steps_append
    by (intro agree_bind agree_2_6 agree_2_7 agree_2_8 agree_2_9 appends_bind ap signed_steps_append assms(1) h)
  then have "(same_2_6 E b b' \<and> strip_nonce n = strip_nonce n')
      \<and> (FORK_2_7_HEIGHT \<le> bh_height b \<longrightarrow> same_2_7 E b b')
      \<and> (FORK_2_8_HEIGHT \<le> bh_height b \<longrightarrow> same_2_8 E b b')
      \<and> (FORK_2_9_HEIGHT \<le> bh_height b \<longrightarrow> bh_replica_format b = bh_replica_format b')"
    using run unfolding agree_def by blast
  then show ?thesis using n by (auto simp: same_signed_def same_nonce_def)
qed

end
