(* ===== verification/Caches.thy ===== *)
theory Caches
  imports Codec
begin

text \<open>
  The caches of the gateway: verified content (\<open>ContentCache\<close> of \<open>src/src/lib.rs\<close>), ArNS resolutions
  and manifest paths (\<open>ArnsCache\<close>, \<open>ManifestCache\<close> of \<open>src/src/server.rs\<close>).  A hash map is the list
  of its entries, in an order nothing depends on; the heap cost of a value is an argument.  Each
  cache is refined to a list of entries, the most recently used first.
\<close>

section \<open>Entries of a hash map\<close>

definition del_key :: "'k \<Rightarrow> ('k \<times> 'e) list \<Rightarrow> ('k \<times> 'e) list" where
  "del_key k es = filter (\<lambda>e. fst e \<noteq> k) es"

definition put_key :: "'k \<Rightarrow> 'e \<Rightarrow> ('k \<times> 'e) list \<Rightarrow> ('k \<times> 'e) list" where
  "put_key k e es = (k, e) # del_key k es"

text \<open>\<open>min_by_key\<close> over the entries.\<close>

fun oldest :: "('e \<Rightarrow> nat) \<Rightarrow> ('k \<times> 'e) list \<Rightarrow> ('k \<times> 'e) option" where
  "oldest used [] = None"
| "oldest used (e # es) = (case oldest used es of None \<Rightarrow> Some e
     | Some m \<Rightarrow> Some (if used (snd e) \<le> used (snd m) then e else m))"

lemma oldest_in: "oldest used es = Some m \<Longrightarrow> m \<in> set es"
  by (induction es arbitrary: m) (auto split: option.splits if_splits)

lemma oldest_None: "oldest used es = None \<longleftrightarrow> es = []"
  by (cases es) (auto split: option.splits)

lemma oldest_min: "oldest used es = Some m \<Longrightarrow> x \<in> set es \<Longrightarrow> used (snd m) \<le> used (snd x)"
proof (induction es arbitrary: m)
  case (Cons e es)
  show ?case
  proof (cases "oldest used es")
    case None
    then show ?thesis using Cons.prems by (simp add: oldest_None)
  next
    case (Some n)
    then show ?thesis using Cons.IH [OF Some] Cons.prems by (auto split: if_splits)
  qed
qed simp

lemma del_key_shorter: "(k, e) \<in> set es \<Longrightarrow> length (del_key k es) < length es"
  unfolding del_key_def by (induction es) (auto simp: less_Suc_eq_le)

section \<open>Recency\<close>

text \<open>\<open>L\<close> lists the entries with the most recently used first; no use is later than the clock.\<close>

definition recent :: "('e \<Rightarrow> nat) \<Rightarrow> nat \<Rightarrow> ('k \<times> 'e) list \<Rightarrow> ('k \<times> 'e) list \<Rightarrow> bool" where
  "recent used clock es L \<longleftrightarrow> mset es = mset L \<and> sorted_wrt (\<lambda>x y. used (snd y) < used (snd x)) L
     \<and> distinct (map fst L) \<and> (\<forall>x \<in> set L. used (snd x) \<le> clock)"

lemma recent_Nil [simp]: "recent used clock [] L \<longleftrightarrow> L = []"
  by (auto simp: recent_def)

lemma recent_set: "recent used clock es L \<Longrightarrow> set es = set L \<and> length es = length L"
  unfolding recent_def by (metis mset_eq_setD mset_eq_length)

lemma recent_sum: "recent used clock es L \<Longrightarrow> sum_list (map f es) = (sum_list (map f L) :: nat)"
proof -
  assume "recent used clock es L"
  then have "sum_mset (mset (map f es)) = sum_mset (mset (map f L))" by (simp add: recent_def)
  then show ?thesis by (simp only: sum_mset_sum_list)
qed

lemma recent_distinct: "recent used clock es L \<Longrightarrow> distinct (map fst es)"
  unfolding recent_def by (metis distinct_map mset_eq_imp_distinct_iff mset_map)

lemma recent_map_of: "recent used clock es L \<Longrightarrow> map_of es k = map_of L k"
proof -
  assume r: "recent used clock es L"
  have "map_of es = map_of L"
    using map_of_inject_set [OF recent_distinct [OF r], of L] recent_set [OF r] r by (simp add: recent_def)
  then show ?thesis by simp
qed

lemma recent_del: "recent used clock es L \<Longrightarrow> recent used clock (del_key k es) (del_key k L)"
  unfolding recent_def del_key_def
  by (auto simp: sorted_wrt_filter distinct_map_filter)

lemma recent_put: "recent used clock es L \<Longrightarrow> used e = Suc clock \<Longrightarrow>
    recent used (Suc clock) (put_key k e es) ((k, e) # del_key k L)"
proof -
  assume r: "recent used clock es L" and u: "used e = Suc clock"
  from recent_del [OF r, of k] show ?thesis
    using u by (auto simp: recent_def put_key_def) (auto simp: del_key_def)
qed

lemma recent_last:
  assumes "recent used clock es L" and "L \<noteq> []"
  shows "oldest used es = Some (last L)" "recent used clock (del_key (fst (last L)) es) (butlast L)"
proof -
  from assms(2) obtain M l where L: "L = M @ [l]" by (metis append_butlast_last_id)
  have s: "set es = set L" using recent_set [OF assms(1)] by simp
  then have "es \<noteq> []" using assms(2) by auto
  then obtain m where m: "oldest used es = Some m" using oldest_None [of used es] by (cases "oldest used es") auto
  have "m \<in> set L" using oldest_in [OF m] s by simp
  moreover have "used (snd m) \<le> used (snd l)" using oldest_min [OF m] s L by simp
  ultimately have "m = l" using assms(1) L by (auto simp: recent_def sorted_wrt_append)
  then show "oldest used es = Some (last L)" using m L by simp
  have "fst l \<notin> fst ` set M" using assms(1) L by (simp add: recent_def)
  then have "\<forall>x \<in> set M. fst x \<noteq> fst l" by (metis imageI)
  then have "del_key (fst l) L = M" using L by (simp add: del_key_def filter_id_conv)
  then show "recent used clock (del_key (fst (last L)) es) (butlast L)"
    using recent_del [OF assms(1), of "fst l"] L by simp
qed


section \<open>Verified content\<close>

text \<open>\<open>VerifiedData\<close>: the content itself is opaque, and so is the root it retains for the indexer.\<close>

record 'content VerifiedData =
  vd_bytes :: 'content
  vd_cache_hit :: bool
  vd_id :: str
  vd_block_height :: nat
  vd_block_hash :: "bytes option"
  vd_stable_anchor :: bool
  vd_content_type :: str
  vd_content_encoding :: "str option"
  vd_content_length :: nat
  vd_etag :: str
  vd_sha256 :: str
  vd_indexing_root :: "'content option"

record 'content ContentCache =
  cc_entries :: "(str \<times> ('content VerifiedData \<times> nat)) list"
  cc_bytes :: nat
  cc_clock :: nat

definition content_get :: "str \<Rightarrow> 'c ContentCache \<Rightarrow> 'c VerifiedData option \<times> 'c ContentCache" where
  "content_get i c = (case map_of (cc_entries c) i of
     None \<Rightarrow> (None, c)
   | Some (data, _) \<Rightarrow>
       let clock = cc_clock c + 1 in
       (Some (data\<lparr>vd_cache_hit := True\<rparr>),
        c\<lparr>cc_clock := clock, cc_entries := put_key i (data, clock) (cc_entries c)\<rparr>))"

text \<open>The \<open>while\<close> loop of \<open>insert\<close>; \<open>cost\<close> is \<open>cache_bytes\<close>.\<close>

function content_evict ::
  "('c VerifiedData \<Rightarrow> nat) \<Rightarrow> nat \<Rightarrow> nat \<Rightarrow> nat \<Rightarrow> 'c ContentCache \<Rightarrow> 'c ContentCache res" where
  "content_evict cost max_entries max_bytes sz c =
     bindE (subE max_bytes sz) (\<lambda>room.
     if length (cc_entries c) \<ge> max_entries \<or> cc_bytes c > room then
       (case oldest snd (cc_entries c) of
          None \<Rightarrow> Inl Panic
        | Some (victim, (data, _)) \<Rightarrow>
            bindE (subE (cc_bytes c) (cost data)) (\<lambda>b.
            content_evict cost max_entries max_bytes sz (c\<lparr>cc_bytes := b, cc_entries := del_key victim (cc_entries c)\<rparr>)))
     else Inr c)"
  by pat_completeness auto
termination
  by (relation "measure (\<lambda>(cost, me, mb, sz, c). length (cc_entries c))")
    (auto dest!: oldest_in [THEN del_key_shorter])

declare content_evict.simps [simp del]

definition content_insert ::
  "('c \<Rightarrow> bool) \<Rightarrow> ('c VerifiedData \<Rightarrow> nat) \<Rightarrow> 'c VerifiedData \<Rightarrow> nat \<Rightarrow> nat \<Rightarrow> 'c ContentCache \<Rightarrow> 'c ContentCache res" where
  "content_insert is_memory cost data max_entries max_bytes c =
     (let sz = cost data in
      if \<not> is_memory (vd_bytes data) \<or> max_entries = 0 \<or> sz > max_bytes \<or> max_bytes = 0 then Inr c
      else
        bindE (case map_of (cc_entries c) (vd_id data) of
            None \<Rightarrow> Inr c
          | Some (old, _) \<Rightarrow> bindE (subE (cc_bytes c) (cost old)) (\<lambda>b.
              Inr (c\<lparr>cc_bytes := b, cc_entries := del_key (vd_id data) (cc_entries c)\<rparr>))) (\<lambda>c.
        bindE (content_evict cost max_entries max_bytes sz c) (\<lambda>c.
        let clock = cc_clock c + 1 in
        bindE (addE USIZE (cc_bytes c) sz) (\<lambda>b.
        Inr (c\<lparr>cc_clock := clock, cc_bytes := b,
               cc_entries := put_key (vd_id data) (data, clock) (cc_entries c)\<rparr>)))))"

section \<open>ArNS resolutions\<close>

record Resolution =
  rs_name :: str
  rs_basename :: str
  rs_record :: str
  rs_resolved_id :: str
  rs_ttl :: nat
  rs_ant_id :: str
  rs_limit :: nat
  rs_index :: nat
  rs_resolved_at :: nat
  rs_expires_at :: nat

record ArnsCache =
  ac_entries :: "(str \<times> (Resolution \<times> nat)) list"
  ac_clock :: nat

definition MAX_CACHED_ARNS_RESOLUTIONS :: nat where "MAX_CACHED_ARNS_RESOLUTIONS = 4096"

definition arns_get :: "nat \<Rightarrow> str \<Rightarrow> ArnsCache \<Rightarrow> Resolution option \<times> ArnsCache" where
  "arns_get now name c = (case map_of (ac_entries c) name of
     None \<Rightarrow> (None, c)
   | Some (resolution, _) \<Rightarrow>
       if rs_expires_at resolution \<le> now then (None, c\<lparr>ac_entries := del_key name (ac_entries c)\<rparr>)
       else
         let clock = ac_clock c + 1 in
         (Some resolution, c\<lparr>ac_clock := clock, ac_entries := put_key name (resolution, clock) (ac_entries c)\<rparr>))"

definition arns_insert :: "nat \<Rightarrow> Resolution \<Rightarrow> ArnsCache \<Rightarrow> ArnsCache res" where
  "arns_insert now resolution c =
     (if rs_expires_at resolution \<le> now then Inr c
      else
        let clock = ac_clock c + 1;
            es = put_key (rs_name resolution) (resolution, clock) (ac_entries c) in
        if length es > MAX_CACHED_ARNS_RESOLUTIONS then
          (case oldest snd es of
             None \<Rightarrow> Inl Panic
           | Some (name, _) \<Rightarrow> Inr (c\<lparr>ac_clock := clock, ac_entries := del_key name es\<rparr>))
        else Inr (c\<lparr>ac_clock := clock, ac_entries := es\<rparr>))"

section \<open>Manifest paths\<close>

record ManifestResolution =
  mr_id :: str
  mr_fallback :: bool

record CachedManifest =
  cm_digest :: str
  cm_paths :: "(str \<times> ManifestResolution option) list"
  cm_used :: nat

record ManifestCache =
  mc_entries :: "(str \<times> CachedManifest) list"
  mc_paths :: nat
  mc_clock :: nat

definition MAX_CACHED_MANIFEST_PATHS :: nat where "MAX_CACHED_MANIFEST_PATHS = 1024"

definition manifest_get ::
  "'c VerifiedData \<Rightarrow> str \<Rightarrow> ManifestCache \<Rightarrow> ManifestResolution option option \<times> ManifestCache" where
  "manifest_get verified path c = (case map_of (mc_entries c) (vd_id verified) of
     None \<Rightarrow> (None, c)
   | Some manifest \<Rightarrow>
       if cm_digest manifest \<noteq> vd_etag verified then (None, c)
       else (case map_of (cm_paths manifest) path of
          None \<Rightarrow> (None, c)
        | Some resolution \<Rightarrow>
            let clock = mc_clock c + 1 in
            (Some resolution,
             c\<lparr>mc_clock := clock,
               mc_entries := put_key (vd_id verified) (manifest\<lparr>cm_used := clock\<rparr>) (mc_entries c)\<rparr>)))"

function manifest_evict :: "ManifestCache \<Rightarrow> ManifestCache res" where
  "manifest_evict c =
     (if mc_paths c > MAX_CACHED_MANIFEST_PATHS then
        (case oldest cm_used (mc_entries c) of
           None \<Rightarrow> Inl Panic
         | Some (victim, entry) \<Rightarrow>
             bindE (subE (mc_paths c) (length (cm_paths entry))) (\<lambda>n.
             manifest_evict (c\<lparr>mc_paths := n, mc_entries := del_key victim (mc_entries c)\<rparr>)))
      else Inr c)"
  by pat_completeness auto
termination
  by (relation "measure (\<lambda>c. length (mc_entries c))") (auto dest!: oldest_in [THEN del_key_shorter])

declare manifest_evict.simps [simp del]

definition manifest_insert ::
  "'c VerifiedData \<Rightarrow> str \<Rightarrow> ManifestResolution option \<Rightarrow> ManifestCache \<Rightarrow> ManifestCache res" where
  "manifest_insert verified path target c =
     bindE (case map_of (mc_entries c) (vd_id verified) of
         None \<Rightarrow> Inr c
       | Some entry \<Rightarrow>
           if cm_digest entry \<noteq> vd_etag verified then
             bindE (subE (mc_paths c) (length (cm_paths entry))) (\<lambda>n.
             Inr (c\<lparr>mc_paths := n, mc_entries := del_key (vd_id verified) (mc_entries c)\<rparr>))
           else Inr c) (\<lambda>c.
     let clock = mc_clock c + 1;
         manifest = (case map_of (mc_entries c) (vd_id verified) of
           None \<Rightarrow> \<lparr>cm_digest = vd_etag verified, cm_paths = [], cm_used = clock\<rparr> | Some manifest \<Rightarrow> manifest);
         fresh = (map_of (cm_paths manifest) path = None);
         manifest = manifest\<lparr>cm_used := clock, cm_paths := put_key path target (cm_paths manifest)\<rparr> in
     bindE (if fresh then addE USIZE (mc_paths c) 1 else Inr (mc_paths c)) (\<lambda>n.
     manifest_evict (c\<lparr>mc_clock := clock, mc_paths := n,
       mc_entries := put_key (vd_id verified) manifest (mc_entries c)\<rparr>)))"

end
