(* ===== verification/Anchor.thy ===== *)
theory Anchor
  imports Stream HeaderCheck Caches
begin

text \<open>
  The anchors of chunks, \<open>src/src/lib.rs\<close>: the block a weave offset lies in, looked up in the store
  or searched in the index of the trusted node (\<open>trusted_block_index\<close>, \<open>trusted_chunk_anchor\<close>,
  \<open>chunk_anchor_matches\<close>, \<open>current_anchor\<close>), and the cache of verified chunks in front of it
  (\<open>retrieve_cached_chunk\<close>, \<open>retrieve_chunk_inner\<close>).  What the store and the trusted node answer is the
  record \<open>anchors\<close>, a parameter.
\<close>

definition CONSENSUS_DEPTH :: nat where "CONSENSUS_DEPTH = 50"
definition MAX_BLOCK_INDEX_BYTES :: nat where "MAX_BLOCK_INDEX_BYTES = 256 * 99"

section \<open>The answers of the store and of the trusted node\<close>

record IndexBlock =
  ib_height :: nat
  ib_hash :: bytes
  ib_previous_hash :: "bytes option"
  ib_tx_root :: bytes
  ib_weave_size :: nat

text \<open>No connection, a refusal, or a response with its declared length and the parts of its body.\<close>

datatype index_answer = Unreachable | Refused | Answered "nat option" "bytes res list"

record block_store =
  s_for_offset :: "nat \<Rightarrow> (IndexBlock \<times> IndexBlock) option res"   \<comment> \<open>\<open>store.block_for_offset\<close>\<close>
  s_pair :: "nat \<Rightarrow> (IndexBlock \<times> IndexBlock) option res"         \<comment> \<open>\<open>store.block_pair\<close>\<close>
  s_stable_hash :: "nat \<Rightarrow> bytes option res"                       \<comment> \<open>\<open>store.stable_canonical_hash\<close>\<close>

record anchors =
  t_store :: "block_store option"
  t_info :: "nat res"                                          \<comment> \<open>the height of \<open>info\<close>\<close>
  t_index :: "nat \<Rightarrow> nat \<Rightarrow> index_answer"                       \<comment> \<open>\<open>block_index2/start/end\<close>\<close>

text \<open>A lookup in the store, if there is one.\<close>

definition stored :: "anchors \<Rightarrow> (block_store \<Rightarrow> 'a option res) \<Rightarrow> 'a option res" where
  "stored T f = (case t_store T of None \<Rightarrow> Inr None | Some s \<Rightarrow> f s)"

section \<open>The index of the trusted node\<close>

fun read_body :: "nat \<Rightarrow> bytes \<Rightarrow> bytes res list \<Rightarrow> bytes res" where
  "read_body limit body [] = Inr body"
| "read_body limit body (part # parts) =
     (case part of
        Inl _ \<Rightarrow> Inl (Fail STR ''failed to read block index'')
      | Inr bs \<Rightarrow>
          ensure (saturating_add USIZE (length body) (length bs) \<le> limit)
            STR ''trusted block index response exceeds size limit''
          (read_body limit (body @ bs) parts))"

definition trusted_block_index ::
  "deps \<Rightarrow> anchors \<Rightarrow> nat \<Rightarrow> nat \<Rightarrow> TrustedBlockIndexEntry list option res" where
  "trusted_block_index E T start stop =
     bindE (contextE (Option.bind (checked_sub stop start) (\<lambda>n. checked_add U64 n 1))
              STR ''invalid block index range'') (\<lambda>expected.
     ensure (expected \<le> 256) STR ''block index range exceeds 256 entries''
     (let byte_limit = expected * 99 in
      case t_index T start stop of
        Unreachable \<Rightarrow> Inr None
      | Refused \<Rightarrow> Inr None
      | Answered content_length parts \<Rightarrow>
          ensure (case content_length of None \<Rightarrow> True | Some n \<Rightarrow> n \<le> min byte_limit MAX_BLOCK_INDEX_BYTES)
            STR ''trusted block index response exceeds size limit''
          (bindE (read_body byte_limit [] parts) (\<lambda>body.
           bindE (decode_block_index E body) (\<lambda>entries.
           ensure (length entries = expected) STR ''trusted block index returned incomplete geometry''
           (Inr (Some entries)))))))"

text \<open>The least height whose weave reaches the offset.\<close>

function anchor_search :: "deps \<Rightarrow> anchors \<Rightarrow> nat \<Rightarrow> nat \<Rightarrow> nat \<Rightarrow> nat res" where
  "anchor_search E T offset low high =
     (if low < high then
        let height = low + (high - low) div 2 in
        bindE (trusted_block_index E T height height) (\<lambda>found.
        bindE (contextE found STR ''trusted chunk search anchor is unavailable'') (\<lambda>entry.
        bindE (nthE entry 0) (\<lambda>first.
        if offset \<le> te_weave_size first then anchor_search E T offset low height
        else anchor_search E T offset (height + 1) high)))
      else Inr low)"
  by pat_completeness auto
termination
  by (relation "measure (\<lambda>(E, T, offset, low, high). high - low)") auto

declare anchor_search.simps [simp del]

definition stored_anchor :: "nat \<Rightarrow> IndexBlock \<Rightarrow> IndexBlock \<Rightarrow> (BlockGeometry \<times> nat) res" where
  "stored_anchor offset previous block =
     ensure (offset > ib_weave_size previous \<and> offset \<le> ib_weave_size block)
       STR ''stored block index returned inconsistent offset geometry''
     (ensure (length (ib_tx_root block) = 32) STR ''invalid stored tx_root''
      (Inr (\<lparr>bg_tx_root = ib_tx_root block, bg_block_weave_size = ib_weave_size block,
             bg_previous_weave_size = ib_weave_size previous\<rparr>, ib_height block)))"

definition searched_anchor :: "deps \<Rightarrow> anchors \<Rightarrow> nat \<Rightarrow> (BlockGeometry \<times> nat) option res" where
  "searched_anchor E T offset =
     bindE (t_info T) (\<lambda>height.
     case checked_sub height CONSENSUS_DEPTH of
       None \<Rightarrow> Inr None
     | Some stable_height \<Rightarrow>
         bindE (trusted_block_index E T stable_height stable_height) (\<lambda>found.
         bindE (contextE found STR ''trusted stable chunk anchor is unavailable'') (\<lambda>tip.
         bindE (nthE tip 0) (\<lambda>tip.
         if offset > te_weave_size tip then Inr None
         else
           bindE (anchor_search E T offset 0 stable_height) (\<lambda>low.
           let (start, block_index) = (if low = 0 then (0, 0) else (low - 1, 1)) in
           bindE (trusted_block_index E T start low) (\<lambda>found.
           bindE (contextE found STR ''trusted chunk anchor is unavailable'') (\<lambda>entries.
           bindE (nthE entries block_index) (\<lambda>block.
           bindE (if low = 0 then Inr 0 else bindE (nthE entries 0) (\<lambda>e. Inr (te_weave_size e))) (\<lambda>previous_weave_size.
           ensure (offset > previous_weave_size \<and> offset \<le> te_weave_size block)
             STR ''trusted block index returned inconsistent offset geometry''
           (bindE (decode_fixed E 32 (te_tx_root block) STR ''block tx_root'') (\<lambda>tx_root.
            Inr (Some (\<lparr>bg_tx_root = tx_root, bg_block_weave_size = te_weave_size block,
                        bg_previous_weave_size = previous_weave_size\<rparr>, low)))))))))))))"

definition trusted_chunk_anchor :: "deps \<Rightarrow> anchors \<Rightarrow> nat \<Rightarrow> (BlockGeometry \<times> nat) option res" where
  "trusted_chunk_anchor E T offset =
     (if offset = 0 then Inr None
      else bindE (stored T (\<lambda>s. s_for_offset s offset)) (\<lambda>found. case found of
             Some (previous, block) \<Rightarrow> bindE (stored_anchor offset previous block) (\<lambda>a. Inr (Some a))
           | None \<Rightarrow> searched_anchor E T offset))"

definition chunk_anchor_matches :: "deps \<Rightarrow> anchors \<Rightarrow> BlockGeometry \<Rightarrow> nat \<Rightarrow> bool res" where
  "chunk_anchor_matches E T geometry height =
     bindE (stored T (\<lambda>s. s_pair s height)) (\<lambda>found. case found of
       Some (previous, block) \<Rightarrow>
         Inr (ib_tx_root block = bg_tx_root geometry \<and> ib_weave_size block = bg_block_weave_size geometry
              \<and> ib_weave_size previous = bg_previous_weave_size geometry)
     | None \<Rightarrow>
         bindE (trusted_block_index E T (height - 1) height) (\<lambda>found.
         bindE (contextE found STR ''trusted chunk anchor is unavailable'') (\<lambda>entries.
         bindE (contextE (if entries = [] then None else Some (last entries)) STR ''trusted chunk anchor is empty'') (\<lambda>block.
         bindE (decode_fixed E 32 (te_tx_root block) STR ''block tx_root'') (\<lambda>tx_root.
         if tx_root = bg_tx_root geometry \<and> te_weave_size block = bg_block_weave_size geometry then
           bindE (if height = 0 then Inr 0 else bindE (nthE entries 0) (\<lambda>e. Inr (te_weave_size e))) (\<lambda>previous.
           Inr (previous = bg_previous_weave_size geometry))
         else Inr False)))))"

text \<open>The anchor of retrieved content; a block that became stable is remembered as such.\<close>

definition current_anchor :: "deps \<Rightarrow> anchors \<Rightarrow> 'c VerifiedData \<Rightarrow> (bool \<times> 'c VerifiedData) res" where
  "current_anchor E T data =
     (if vd_stable_anchor data then Inr (True, data)
      else
        bindE (contextE (vd_block_hash data) STR ''verified content lacks a block hash'') (\<lambda>expected.
        bindE (stored T (\<lambda>s. s_stable_hash s (vd_block_height data))) (\<lambda>found. case found of
          Some hash \<Rightarrow> Inr (hash = expected, data\<lparr>vd_stable_anchor := (hash = expected)\<rparr>)
        | None \<Rightarrow>
            bindE (trusted_block_index E T (vd_block_height data) (vd_block_height data)) (\<lambda>found.
            Inr (case Option.bind found (\<lambda>entries. if entries = [] then None else Some (hd entries)) of
                   None \<Rightarrow> False
                 | Some entry \<Rightarrow> te_hash entry = x_b64_encode E expected, data)))))"

section \<open>The cache of verified chunks\<close>

record VerifiedChunk =
  ch_bytes :: bytes
  ch_chunk :: str
  ch_data_path :: str
  ch_tx_path :: str
  ch_data_root :: str
  ch_data_size :: nat
  ch_start_offset :: nat
  ch_relative_start_offset :: nat
  ch_read_offset :: nat
  ch_tx_start_offset :: nat
  ch_source_host :: str

definition retrieve_chunk_inner ::
  "deps \<Rightarrow> network \<Rightarrow> nat \<Rightarrow> BlockGeometry \<Rightarrow> (VerifiedChunk \<times> bool \<times> bytes) option res" where
  "retrieve_chunk_inner E N offset geometry =
     bindE (fetch_verified_chunk E N offset geometry) (\<lambda>fetched. case fetched of
       None \<Rightarrow> Inr None
     | Some fetched \<Rightarrow>
         let proof = cf_proof fetched in
         bindE (contextE (checked_add U128 (pc_first_offset proof) (dp_start (pc_data proof)))
                  STR ''chunk offset overflow'') (\<lambda>start_offset.
         bindE (contextE (checked_sub (pc_relative_offset proof) (dp_start (pc_data proof)))
                  STR ''chunk offset underflow'') (\<lambda>read_offset.
         Inr (Some (\<lparr>ch_bytes = pc_bytes proof, ch_chunk = x_b64_encode E (pc_bytes proof),
             ch_data_path = x_b64_encode E (pc_data_path proof), ch_tx_path = x_b64_encode E (pc_tx_path proof),
             ch_data_root = x_b64_encode E (tp_data_root (pc_transaction proof)),
             ch_data_size = tp_size (pc_transaction proof), ch_start_offset = start_offset,
             ch_relative_start_offset = dp_start (pc_data proof), ch_read_offset = read_offset,
             ch_tx_start_offset = pc_first_offset proof, ch_source_host = cf_source_host fetched\<rparr>,
           cf_cache_hit fetched, dp_data_hash (pc_data proof))))))"

text \<open>An entry: chunk, geometry, height, last use, hash.  The clock stands for \<open>Instant::now()\<close>.\<close>

type_synonym cached_chunk = "VerifiedChunk \<times> BlockGeometry \<times> nat \<times> nat \<times> bytes"

abbreviation last_use :: "cached_chunk \<Rightarrow> nat" where "last_use e \<equiv> fst (snd (snd (snd e)))"

record ChunkCache =
  kc_entries :: "(nat \<times> cached_chunk) list"
  kc_bytes :: nat
  kc_clock :: nat

definition chunk_lookup :: "nat \<Rightarrow> ChunkCache \<Rightarrow> (VerifiedChunk \<times> BlockGeometry \<times> nat) option \<times> ChunkCache" where
  "chunk_lookup offset c = (case map_of (kc_entries c) offset of
     None \<Rightarrow> (None, c)
   | Some (chunk, geometry, height, _, hash) \<Rightarrow>
       let clock = kc_clock c + 1 in
       (Some (chunk, geometry, height),
        c\<lparr>kc_clock := clock, kc_entries := put_key offset (chunk, geometry, height, clock, hash) (kc_entries c)\<rparr>))"

definition chunk_remove :: "(VerifiedChunk \<Rightarrow> nat) \<Rightarrow> nat \<Rightarrow> ChunkCache \<Rightarrow> ChunkCache res" where
  "chunk_remove cost offset c = (case map_of (kc_entries c) offset of
     None \<Rightarrow> Inr c
   | Some (old, _) \<Rightarrow> bindE (subE (kc_bytes c) (cost old)) (\<lambda>b.
       Inr (c\<lparr>kc_bytes := b, kc_entries := del_key offset (kc_entries c)\<rparr>)))"

definition chunk_nearby :: "nat \<Rightarrow> ChunkCache \<Rightarrow> (BlockGeometry \<times> nat) option" where
  "chunk_nearby offset c =
     map_option (\<lambda>(_, _, geometry, height, _). (geometry, height))
       (List.find (\<lambda>(_, _, geometry, _, _). offset > bg_previous_weave_size geometry
            \<and> offset \<le> bg_block_weave_size geometry) (kc_entries c))"

function chunk_evict :: "(VerifiedChunk \<Rightarrow> nat) \<Rightarrow> nat \<Rightarrow> nat \<Rightarrow> nat \<Rightarrow> ChunkCache \<Rightarrow> ChunkCache res" where
  "chunk_evict cost max_entries max_bytes sz c =
     bindE (subE max_bytes sz) (\<lambda>room.
     if length (kc_entries c) \<ge> max_entries \<or> kc_bytes c > room then
       (case oldest last_use (kc_entries c) of
          None \<Rightarrow> Inl Panic
        | Some (victim, (old, _)) \<Rightarrow>
            bindE (subE (kc_bytes c) (cost old)) (\<lambda>b.
            chunk_evict cost max_entries max_bytes sz (c\<lparr>kc_bytes := b, kc_entries := del_key victim (kc_entries c)\<rparr>)))
     else Inr c)"
  by pat_completeness auto
termination
  by (relation "measure (\<lambda>(cost, me, mb, sz, c). length (kc_entries c))")
    (auto dest!: oldest_in [THEN del_key_shorter])

declare chunk_evict.simps [simp del]

definition chunk_insert ::
  "(VerifiedChunk \<Rightarrow> nat) \<Rightarrow> nat \<Rightarrow> nat \<Rightarrow> nat \<Rightarrow> VerifiedChunk \<times> BlockGeometry \<times> nat \<times> bytes \<Rightarrow> ChunkCache \<Rightarrow> ChunkCache res" where
  "chunk_insert cost cache_max_entries cache_max_bytes offset entry c =
     (case entry of (chunk, geometry, height, hash) \<Rightarrow>
      let sz = cost chunk;
          max_bytes = min cache_max_bytes (64 * 1024 * 1024);
          max_entries = min cache_max_entries 256 in
      if max_entries > 0 \<and> sz \<le> max_bytes then
        bindE (chunk_evict cost max_entries max_bytes sz c) (\<lambda>c.
        let clock = kc_clock c + 1 in
        bindE (addE USIZE (kc_bytes c) sz) (\<lambda>b.
        Inr (c\<lparr>kc_clock := clock, kc_bytes := b,
               kc_entries := put_key offset (chunk, geometry, height, clock, hash) (kc_entries c)\<rparr>)))
      else Inr c)"

text \<open>The anchor under which a chunk is fetched: that of a cached neighbour while it holds, or a new one.\<close>

definition chunk_anchor :: "deps \<Rightarrow> anchors \<Rightarrow> nat \<Rightarrow> ChunkCache \<Rightarrow> (BlockGeometry \<times> nat) option res" where
  "chunk_anchor E T offset c = (case chunk_nearby offset c of
     Some (geometry, height) \<Rightarrow>
       bindE (chunk_anchor_matches E T geometry height) (\<lambda>same.
       if same then Inr (Some (geometry, height)) else trusted_chunk_anchor E T offset)
   | None \<Rightarrow> trusted_chunk_anchor E T offset)"

definition fetch_missing_chunk ::
  "deps \<Rightarrow> anchors \<Rightarrow> network \<Rightarrow> (VerifiedChunk \<Rightarrow> nat) \<Rightarrow> nat \<Rightarrow> nat \<Rightarrow> nat \<Rightarrow> ChunkCache
     \<Rightarrow> ((VerifiedChunk \<times> bool) option \<times> ChunkCache) res" where
  "fetch_missing_chunk E T N cost cache_max_entries cache_max_bytes offset c =
     bindE (chunk_anchor E T offset c) (\<lambda>anchor. case anchor of
       None \<Rightarrow> Inr (None, c)
     | Some (geometry, height) \<Rightarrow>
         bindE (retrieve_chunk_inner E N offset geometry) (\<lambda>fetched. case fetched of
           None \<Rightarrow> Inr (None, c)
         | Some (chunk, disk_hit, hash) \<Rightarrow>
             bindE (chunk_anchor_matches E T geometry height) (\<lambda>same.
             ensure same STR ''chunk block changed during retrieval''
             (bindE (chunk_insert cost cache_max_entries cache_max_bytes offset (chunk, geometry, height, hash) c) (\<lambda>c.
              Inr (Some (chunk, disk_hit), c))))))"

text \<open>The cache keeps what was changed before an error: the result carries both.\<close>

definition retrieve_cached_chunk ::
  "deps \<Rightarrow> anchors \<Rightarrow> network \<Rightarrow> (VerifiedChunk \<Rightarrow> nat) \<Rightarrow> nat \<Rightarrow> nat \<Rightarrow> nat \<Rightarrow> ChunkCache
     \<Rightarrow> (VerifiedChunk \<times> bool) option res \<times> ChunkCache" where
  "retrieve_cached_chunk E T N cost cache_max_entries cache_max_bytes offset c =
     (let missing = (\<lambda>c. case fetch_missing_chunk E T N cost cache_max_entries cache_max_bytes offset c of
                           Inl e \<Rightarrow> (Inl e, c) | Inr (r, c) \<Rightarrow> (Inr r, c)) in
      case chunk_lookup offset c of
        (None, c) \<Rightarrow> missing c
      | (Some (chunk, geometry, height), c) \<Rightarrow>
          (case chunk_anchor_matches E T geometry height of
             Inl e \<Rightarrow> (Inl e, c)
           | Inr True \<Rightarrow> (Inr (Some (chunk, True)), c)
           | Inr False \<Rightarrow> (case chunk_remove cost offset c of Inl e \<Rightarrow> (Inl e, c) | Inr c \<Rightarrow> missing c)))"

end
