(* ===== verification/Samples.thy ===== *)
theory Samples
  imports Merkle
begin

text \<open>
  Concrete instances of the third-party functions, used only to evaluate the witnesses of the
  properties: a checksum of the documented width in place of each hash, a transparent text
  coding in place of base64, and the decimal and binary codings of the standard library in
  place of the big-integer crate's.
\<close>

definition checksum :: "bytes \<Rightarrow> nat" where
  "checksum bs = foldl (\<lambda>a b. (a * 31 + unat b + 1) mod 65521) 7 bs"

definition sample_hash :: "nat \<Rightarrow> bytes \<Rightarrow> bytes" where
  "sample_hash w bs = replicate (w - 2) 0 @ be_bytes 2 (checksum bs)"

text \<open>Two hexadecimal digits a byte stand for base64.\<close>

definition hex_value :: "char \<Rightarrow> nat option" where
  "hex_value c = (let n = of_char c in
     if 48 \<le> n \<and> n \<le> 57 then Some (n - 48) else if 97 \<le> n \<and> n \<le> 102 then Some (n - 87) else None)"

fun sample_decode :: "str \<Rightarrow> bytes option" where
  "sample_decode [] = Some []"
| "sample_decode [c] = None"
| "sample_decode (c # d # r) =
     (case (hex_value c, hex_value d, sample_decode r) of
        (Some a, Some b, Some bs) \<Rightarrow> Some (word_of_nat (a * 16 + b) # bs)
      | _ \<Rightarrow> None)"

fun minimal_be :: "nat \<Rightarrow> nat \<Rightarrow> bytes" where
  "minimal_be 0 n = []"
| "minimal_be (Suc k) n = (if n < 256 then [word_of_nat n] else minimal_be k (n div 256) @ [word_of_nat (n mod 256)])"

definition sample_big_parse :: "str \<Rightarrow> nat option" where
  "sample_big_parse s = (if s \<noteq> [] \<and> list_all is_ascii_digit s then Some (digits_value s) else None)"

definition sample :: deps where
  "sample = \<lparr>x_sha256 = sample_hash 32, x_sha384 = sample_hash 48, x_keccak256 = sample_hash 32,
     x_b64_decode = sample_decode, x_b64_encode = hex,
     x_big_parse = sample_big_parse, x_big_bytes = (\<lambda>n. minimal_be (Suc n) n),
     x_big_str = show_nat\<rparr>"

lemma sample_widths [simp]: "hash_widths sample"
  by (simp add: hash_widths_def sample_def sample_hash_def)

section \<open>Evaluating the samples\<close>

lemma note_to_u128_note [simp]: "v < U128 \<Longrightarrow> note_to_u128 (note_bytes v) = Inr v"
  by (simp add: note_to_u128_eq)

lemma U128_value: "U128 = 340282366920938463463374607431768211456"
  by (simp add: U128_def)

lemma be_bytes_2: "be_bytes 2 n = [word_of_nat (n div 256), word_of_nat n]"
  by (simp add: numeral_2_eq_2)

lemma be_bytes_16: "n < 65536 \<Longrightarrow> be_bytes 16 n = replicate 14 0 @ [word_of_nat (n div 256), word_of_nat n]"
  using be_bytes_pad [of n 2 14] by (simp add: be_bytes_2)

lemma replicate_numeral: "replicate (numeral k) x = x # replicate (pred_numeral k) x"
  by (simp add: numeral_eq_Suc)

lemma sample_sha: "sha256 sample ps =
    replicate 30 0 @ [word_of_nat (checksum (concat ps) div 256), word_of_nat (checksum (concat ps))]"
  by (simp add: sha256_def sample_def sample_hash_def be_bytes_2)

lemma note_bytes_small: "n < 65536 \<Longrightarrow> note_bytes n = replicate 30 0 @ [word_of_nat (n div 256), word_of_nat n]"
  by (simp add: note_bytes_def be_bytes_16) (simp add: replicate_numeral)


lemma checksum_bound: "checksum bs < 65536"
proof (cases bs rule: rev_cases)
  case (snoc ys y)
  have "(foldl (\<lambda>a b. (a * 31 + unat b + 1) mod 65521) 7 ys * 31 + unat y + 1) mod 65521 < 65521"
    by (rule mod_less_divisor) simp
  then show ?thesis by (simp only: snoc checksum_def foldl_append foldl.simps)
qed (simp add: checksum_def)

lemma collision_free_sample: "distinct (map checksum xs) \<Longrightarrow> collision_free sample xs"
proof -
  assume d: "distinct (map checksum xs)"
  have "checksum x = checksum y" if "sample_hash 32 x = sample_hash 32 y" for x y
  proof -
    from that have "be_nat (be_bytes 2 (checksum x)) = be_nat (be_bytes 2 (checksum y))"
      by (simp add: sample_hash_def)
    moreover have "checksum z mod 256 ^ 2 = checksum z" for z
      using checksum_bound [of z] by (intro mod_less) simp
    ultimately show ?thesis by (simp only: be_nat_be_bytes)
  qed
  moreover have "x_sha256 sample = sample_hash 32" by (simp add: sample_def)
  ultimately show ?thesis
    using d unfolding collision_free_def distinct_map inj_on_def by metis
qed

section \<open>The sample codecs keep their documented behaviour\<close>

lemma minimal_be_value: "n < 256 ^ k \<Longrightarrow> be_nat (minimal_be k n) = n"
proof (induction k arbitrary: n)
  case (Suc k)
  have one: "be_nat [b] = unat b" for b using be_nat_snoc [of "[]" b] by simp
  show ?case
    using Suc by (auto simp: one take_bit_eq_mod)
qed simp

lemma minimal_be_length: "n < 256 ^ j \<Longrightarrow> 0 < j \<Longrightarrow> length (minimal_be k n) \<le> j"
proof (induction k arbitrary: n j)
  case (Suc k)
  show ?case
  proof (cases "n < 256")
    case False
    then obtain i where "j = Suc i" "0 < i"
      using Suc.prems by (cases j; cases "j - 1") auto
    then show ?thesis using Suc False by (auto simp: less_mult_imp_div_less mult.commute)
  qed (use Suc.prems in simp)
qed simp

lemma sample_decimal_codec: "decimal_codec sample"
proof -
  have "n < 256 ^ Suc n" for n :: nat
  proof -
    have "n < 2 ^ n" by (rule less_exp)
    also have "(2::nat) ^ n \<le> 256 ^ n" by (rule power_mono) simp_all
    also have "(256::nat) ^ n \<le> 256 ^ Suc n" by simp
    finally show ?thesis .
  qed
  then show ?thesis
    using minimal_be_value show_nat_ok
    by (simp add: decimal_codec_def sample_def sample_big_parse_def del: minimal_be.simps power_Suc)
qed

lemma hex_value_digit: "k < 16 \<Longrightarrow> hex_value (hex_digit k) = Some k"
  by (auto simp: hex_value_def hex_digit_def of_char_of Let_def)

lemma sample_decode_hex: "sample_decode (hex bs) = Some bs"
proof (induction bs)
  case (Cons b bs)
  have "unat b div 16 < 16" using unat_byte_less [of b] by linarith
  moreover have "word_of_nat (unat b div 16 * 16 + unat b mod 16) = b" unfolding div_mult_mod_eq by simp
  ultimately show ?case using Cons by (simp add: hex_def hex_value_digit)
qed (simp add: hex_def)

lemma sample_b64 [simp]: "decode_b64 sample (hex bs) l = Inr bs" "x_b64_encode sample bs = hex bs"
  by (simp_all add: decode_b64_eq sample_def sample_decode_hex)

end
