(* ===== verification/ChunkProofs.thy ===== *)
theory ChunkProofs
  imports Chunk Samples
begin

text \<open>
  The promises of the chunk verifier of \<open>src/src/lib.rs\<close>: what an accepted chunk, transaction
  path or data path says (soundness), that two accepted proofs of one offset agree unless SHA-256
  collides on their nodes (binding), that no input makes the verifier panic, and the laws of
  replica packing.  The first section builds one concrete block, transaction and chunk for the
  witnesses.
\<close>

section \<open>A sample block with two transactions\<close>


definition s_chunk :: bytes where "s_chunk = [1, 2, 3]"
definition s_data_path :: bytes where "s_data_path = sha256 sample [s_chunk] @ note_bytes 3"
definition s_data_root :: bytes where "s_data_root = hash_leaf sample (sha256 sample [s_chunk]) (note_bytes 3)"
definition s_left :: bytes where "s_left = hash_leaf sample (replicate 32 9) (note_bytes 2)"
definition s_right :: bytes where "s_right = hash_leaf sample s_data_root (note_bytes 5)"
definition s_tx_root :: bytes where "s_tx_root = hash_branch sample s_left s_right (note_bytes 2)"
definition s_tx_path :: bytes where
  "s_tx_path = s_left @ s_right @ note_bytes 2 @ s_data_root @ note_bytes 5"

lemma s_lengths [simp]:
  "length s_left = 32" "length s_right = 32" "length s_data_root = 32" "length s_tx_root = 32"
  "length s_tx_path = 160" "length s_data_path = 64" "length s_chunk = 3"
  by (simp_all add: s_left_def s_right_def s_data_root_def s_tx_root_def s_tx_path_def
      s_data_path_def s_chunk_def hash_leaf_def hash_branch_def Let_def)

lemma s_sub [simp]:
  "sub_bytes s_tx_path 0 32 = s_left" "sub_bytes s_tx_path 32 64 = s_right"
  "sub_bytes s_tx_path 64 96 = note_bytes 2" "sub_bytes s_tx_path 96 128 = s_data_root"
  "sub_bytes s_tx_path 128 160 = note_bytes 5"
  "sub_bytes s_data_path 0 32 = sha256 sample [s_chunk]" "sub_bytes s_data_path 32 64 = note_bytes 3"
  by (simp_all add: sub_bytes_def s_tx_path_def s_data_path_def)

definition s_tx :: TxPath where
  "s_tx = \<lparr>tp_data_root = s_data_root, tp_start_bound = 1002, tp_end_offset = 1005, tp_size = 3\<rparr>"

lemma s_validate_tx:
  "validate_tx_path sample s_tx_root 1004 1005 1000 s_tx_path = Inr s_tx"
  by (simp add: validate_tx_path_def size_defs subE_def addE_def U128_value tx_walk_step tx_walk_stop
      s_tx_root_def [symmetric] s_right_def [symmetric] s_tx_def)

definition s_data :: DataPath where
  "s_data = \<lparr>dp_start = 0, dp_end = 3, dp_data_hash = sha256 sample [s_chunk]\<rparr>"

lemma s_validate_data: "validate_data_path sample s_data_root 3 1 1004 s_data_path = Inr s_data"
  by (simp add: validate_data_path_def walk_rebased_data_path.simps walk_data_path_def data_walk_stop
      size_defs subE_def addE_def U128_value validate_split_def MERKLE_REBASE_SUPPORT_THRESHOLD_def
      STRICT_DATA_SPLIT_THRESHOLD_def s_data_root_def [symmetric] s_data_def)

definition s_proof :: Chunk where
  "s_proof = \<lparr>ck_chunk = s_chunk, ck_data_path = s_data_path, ck_tx_path = s_tx_path, ck_packing = Unpacked\<rparr>"

definition s_block :: BlockGeometry where
  "s_block = \<lparr>bg_tx_root = s_tx_root, bg_block_weave_size = 1005, bg_previous_weave_size = 1000\<rparr>"

definition s_proven :: ProvenChunk where
  "s_proven = \<lparr>pc_bytes = s_chunk, pc_data_path = s_data_path, pc_tx_path = s_tx_path,
     pc_transaction = s_tx, pc_data = s_data, pc_relative_offset = 1, pc_first_offset = 1003\<rparr>"

lemma s_verify: "verify_chunk_proof sample s_proof 1004 s_block None = Inr s_proven"
  using s_validate_tx s_validate_data
  by (simp add: verify_chunk_proof_def s_proof_def s_block_def s_tx_def s_data_def s_proven_def
      MAX_PROOF_BYTES_def U128_value checked_add_def checked_sub_def subE_def U64_def)

lemma s_path_inputs: "path_inputs sample s_tx_path =
  [s_left, s_right, note_bytes 2, sha256 sample [s_left] @ sha256 sample [s_right] @ sha256 sample [note_bytes 2],
   s_data_root, note_bytes 5, sha256 sample [s_data_root] @ sha256 sample [note_bytes 5]]"
proof -
  have "split_path (drop 96 s_tx_path) = ([], s_data_root @ note_bytes 5)"
    by (subst split_path_stop) (simp_all add: s_tx_path_def)
  then show ?thesis
    using split_path_Cons [of 0 s_tx_path, simplified] by (simp add: path_inputs_def branch_inputs_def leaf_inputs_def)
qed

lemma s_data_path_inputs: "path_inputs sample s_data_path =
  [sha256 sample [s_chunk], note_bytes 3, sha256 sample [sha256 sample [s_chunk]] @ sha256 sample [note_bytes 3]]"
  by (simp add: path_inputs_def split_path_stop leaf_inputs_def, simp add: s_data_path_def)

lemma s_small_hashes:
  "sha256 sample [s_chunk] = replicate 30 0 @ [54, 169]"
  "sha256 sample [note_bytes 2] = replicate 30 0 @ [140, 109]"
  "sha256 sample [note_bytes 3] = replicate 30 0 @ [140, 110]"
  "sha256 sample [note_bytes 5] = replicate 30 0 @ [140, 112]"
  "sha256 sample [replicate 32 9] = replicate 30 0 @ [77, 68]"
  unfolding s_chunk_def
  by (simp_all add: sample_sha note_bytes_small) (simp_all add: checksum_def replicate_numeral)

lemma s_chunk_hash_hash: "sha256 sample [replicate 30 0 @ [54, 169]] = replicate 30 0 @ [147, 158]"
  by (simp add: sample_sha) (simp add: checksum_def replicate_numeral)

lemma s_data_root_eq: "s_data_root = replicate 30 0 @ [34, 75]"
  unfolding s_data_root_def hash_leaf_def Let_def s_small_hashes s_chunk_hash_hash
  by (simp add: sample_sha) (simp add: checksum_def replicate_numeral)

lemma s_left_eq: "s_left = replicate 30 0 @ [233, 252]"
  unfolding s_left_def hash_leaf_def Let_def s_small_hashes
  by (simp add: sample_sha) (simp add: checksum_def replicate_numeral)

lemma s_data_root_hash: "sha256 sample [replicate 30 0 @ [34, 75]] = replicate 30 0 @ [144, 212]"
  by (simp add: sample_sha) (simp add: checksum_def replicate_numeral)

lemma s_right_eq: "s_right = replicate 30 0 @ [53, 212]"
  unfolding s_right_def s_data_root_eq hash_leaf_def Let_def s_small_hashes s_data_root_hash
  by (simp add: sample_sha) (simp add: checksum_def replicate_numeral)

lemma s_left_hash: "sha256 sample [replicate 30 0 @ [233, 252]] = replicate 30 0 @ [169, 158]"
  by (simp add: sample_sha) (simp add: checksum_def replicate_numeral)

lemma s_right_hash: "sha256 sample [replicate 30 0 @ [53, 212]] = replicate 30 0 @ [147, 170]"
  by (simp add: sample_sha) (simp add: checksum_def replicate_numeral)

lemmas s_hashes = s_small_hashes s_chunk_hash_hash s_data_root_hash s_left_hash s_right_hash

lemma s_checksum_values:
  "checksum ((replicate 30 0 @ [233, 252])) = 43422"
  "checksum ((replicate 30 0 @ [53, 212])) = 37802"
  "checksum ((replicate 30 0 @ [0, 2])) = 35949"
  "checksum ((replicate 30 0 @ [169, 158]) @ (replicate 30 0 @ [147, 170]) @ (replicate 30 0 @ [140, 109])) = 47809"
  "checksum ((replicate 30 0 @ [34, 75])) = 37076"
  "checksum ((replicate 30 0 @ [0, 5])) = 35952"
  "checksum ((replicate 30 0 @ [144, 212]) @ (replicate 30 0 @ [140, 112])) = 13780"
  "checksum ((replicate 30 0 @ [54, 169])) = 37790"
  "checksum ((replicate 30 0 @ [0, 3])) = 35950"
  "checksum ((replicate 30 0 @ [147, 158]) @ (replicate 30 0 @ [140, 110])) = 8779"
  "checksum [1, 2, 3] = 13993"
  by (simp_all add: checksum_def replicate_numeral)

lemma s_checksums:
  "map checksum (path_inputs sample s_tx_path @ path_inputs sample s_data_path @ [s_chunk]) =
     [43422, 37802, 35949, 47809, 37076, 35952, 13780, 37790, 35950, 8779, 13993]"
  unfolding s_path_inputs s_data_path_inputs s_left_eq s_right_eq s_data_root_eq s_hashes
  unfolding s_chunk_def
  by (simp add: note_bytes_small s_checksum_values [simplified])

lemma s_free:
  "collision_free sample (path_inputs sample s_tx_path @ path_inputs sample s_data_path @ [s_chunk])"
  by (rule collision_free_sample, unfold s_checksums) simp

lemma s_free_all:
  "collision_free sample (path_inputs sample s_tx_path @ path_inputs sample s_tx_path
     @ path_inputs sample s_data_path @ path_inputs sample s_data_path @ [s_chunk, s_chunk])"
  using s_free by (simp add: collision_free_def insert_absorb Un_ac)

lemma s_free_sub: "collision_free sample (path_inputs sample s_tx_path @ path_inputs sample s_tx_path)"
  using s_free by (simp add: collision_free_def inj_on_Un)

section \<open>What a path commits to\<close>

text \<open>
  The specification of a path, apart from the loops that check it: the bytes of the path are the siblings
  and notes from the root down and the leaf at its end, and every node is the hash of what lies below
  it.  \<open>committed E t h lb rb path d e lb' rb'\<close>: below the node \<open>h\<close> of the interval from \<open>lb\<close> to \<open>rb\<close> the
  path leads to the leaf \<open>d\<close> of the position \<open>t\<close>, with the end \<open>e\<close> of its note and the interval from
  \<open>lb'\<close> to \<open>rb'\<close>.
\<close>

inductive committed ::
  "deps \<Rightarrow> nat \<Rightarrow> bytes \<Rightarrow> nat \<Rightarrow> nat \<Rightarrow> bytes \<Rightarrow> bytes \<Rightarrow> nat \<Rightarrow> nat \<Rightarrow> nat \<Rightarrow> bool"
  for E t where
  leaf: "length d = 32 \<Longrightarrow> length n = 32 \<Longrightarrow> note_to_u128 n = Inr e \<Longrightarrow>
     committed E t (sha256 E [sha256 E [d], sha256 E [n]]) lb rb (d @ n) d e lb rb"
| left: "length l = 32 \<Longrightarrow> length r = 32 \<Longrightarrow> length n = 32 \<Longrightarrow> note_to_u128 n = Inr b \<Longrightarrow> t < b \<Longrightarrow>
     committed E t l lb (min rb b) rest d e lb' rb' \<Longrightarrow>
     committed E t (sha256 E [sha256 E [l], sha256 E [r], sha256 E [n]]) lb rb (l @ r @ n @ rest) d e lb' rb'"
| right: "length l = 32 \<Longrightarrow> length r = 32 \<Longrightarrow> length n = 32 \<Longrightarrow> note_to_u128 n = Inr b \<Longrightarrow> b \<le> t \<Longrightarrow>
     committed E t r (max lb b) rb rest d e lb' rb' \<Longrightarrow>
     committed E t (sha256 E [sha256 E [l], sha256 E [r], sha256 E [n]]) lb rb (l @ r @ n @ rest) d e lb' rb'"

text \<open>A data path may open with rebase headers, each a node whose children count from their own start.\<close>

inductive data_committed ::
  "deps \<Rightarrow> bool \<Rightarrow> nat \<Rightarrow> bytes \<Rightarrow> nat \<Rightarrow> nat \<Rightarrow> nat \<Rightarrow> bytes \<Rightarrow> DataPath \<Rightarrow> bool"
  for E allow where
  plain: "\<not> rebased allow path \<Longrightarrow> committed E t root lb rb path d e lb' rb' \<Longrightarrow>
     data_committed E allow t root lb rb shift path
       \<lparr>dp_start = shift + lb', dp_end = shift + max (min rb' e) (lb' + 1), dp_data_hash = d\<rparr>"
| header: "allow \<Longrightarrow> length l = 32 \<Longrightarrow> length r = 32 \<Longrightarrow> length n = 32 \<Longrightarrow> note_to_u128 n = Inr b \<Longrightarrow>
     base = (if t < b then lb else max lb b) \<Longrightarrow> hi = (if t < b then min rb b else rb) \<Longrightarrow>
     data_committed E allow (t - base) (if t < b then l else r) 0 (hi - base) (shift + base) rest d \<Longrightarrow>
     data_committed E allow t (sha256 E [sha256 E [l], sha256 E [r], sha256 E [n]]) lb rb shift
       (replicate 32 0 @ l @ r @ n @ rest) d"

lemma sub_bytes_three:
  "96 \<le> length bs \<Longrightarrow> bs = sub_bytes bs 0 32 @ sub_bytes bs 32 64 @ sub_bytes bs 64 96 @ drop 96 bs"
proof -
  have "drop 32 bs = take 32 (drop 32 bs) @ drop 64 bs" "drop 64 bs = take 32 (drop 64 bs) @ drop 96 bs"
    using append_take_drop_id [of 32 "drop 32 bs"] append_take_drop_id [of 32 "drop 64 bs"] by simp_all
  then show ?thesis using append_take_drop_id [of 32 bs] by (simp add: sub_bytes_def)
qed

lemma descend_committed:
  "descend E t (fst (split_path bs)) (h, lb, rb, m) = Some (hash_leaf E d n, lb', rb', m') \<Longrightarrow>
   snd (split_path bs) = d @ n \<Longrightarrow> length d = 32 \<Longrightarrow> length n = 32 \<Longrightarrow> note_to_u128 n = Inr e \<Longrightarrow>
   committed E t h lb rb bs d e lb' rb'"
proof (induction bs arbitrary: h lb rb m rule: split_path.induct)
  case (1 bs)
  show ?case
  proof (cases "BRANCH_SIZE \<le> length bs")
    case False
    then have "split_path bs = ([], bs)" by (simp add: split_path_stop size_defs)
    then have "bs = d @ n" "h = hash_leaf E d n" "lb' = lb" "rb' = rb" using "1.prems" by simp_all
    then show ?thesis using committed.leaf [OF "1.prems"(3-5), of E t lb rb] by (simp add: hash_leaf_def Let_def)
  next
    case True
    then have len: "96 \<le> length bs" by (simp add: size_defs)
    let ?l = "sub_bytes bs 0 32" and ?r = "sub_bytes bs 32 64" and ?n = "sub_bytes bs 64 96"
    have sp: "split_path bs = ((?l, ?r, ?n) # fst (split_path (drop BRANCH_SIZE bs)), snd (split_path (drop BRANCH_SIZE bs)))"
      using split_path_Cons [of 0 bs] len by (simp add: size_defs)
    have bs: "bs = ?l @ ?r @ ?n @ drop BRANCH_SIZE bs" using sub_bytes_three [OF len] by (simp add: size_defs)
    have l: "length ?l = 32" "length ?r = 32" "length ?n = 32" using len by (simp_all add: sub_bytes_def)
    have h: "h = hash_branch E ?l ?r ?n" using "1.prems"(1) by (simp add: sp split: if_splits)
    obtain b where b: "note_to_u128 ?n = Inr b" using "1.prems"(1) by (auto simp: sp split: if_splits sum.splits)
    have snd: "snd (split_path (drop BRANCH_SIZE bs)) = d @ n" using "1.prems"(2) by (simp add: sp)
    have hb: "hash_branch E ?l ?r ?n = sha256 E [sha256 E [?l], sha256 E [?r], sha256 E [?n]]" by (simp add: hash_branch_def Let_def)
    show ?thesis
    proof (cases "t < b")
      case True
      have "committed E t ?l lb (min rb b) (drop BRANCH_SIZE bs) d e lb' rb'"
        by (rule "1.IH" [OF \<open>BRANCH_SIZE \<le> length bs\<close> _ snd "1.prems"(3-5), of _ _ _ "Some False"])
          (use "1.prems"(1) True b h in \<open>simp add: sp\<close>)
      from committed.left [OF l b True this]
      show ?thesis unfolding h hb by (simp flip: bs)
    next
      case False
      have "committed E t ?r (max lb b) rb (drop BRANCH_SIZE bs) d e lb' rb'"
        by (rule "1.IH" [OF \<open>BRANCH_SIZE \<le> length bs\<close> _ snd "1.prems"(3-5), of _ _ _ "if m = None then Some True else m"])
          (use "1.prems"(1) False b h in \<open>simp add: sp\<close>)
      from committed.right [OF l b _ this] False
      show ?thesis unfolding h hb by (simp flip: bs)
    qed
  qed
qed

lemma validate_tx_path_committed:
  assumes "validate_tx_path E root off bws pws path = Inr p"
  shows "\<exists>e lb rb. committed E (off - pws - 1) root 0 (bws - pws) path (tp_data_root p) e lb rb \<and> lb < e \<and> e \<le> rb
    \<and> tp_start_bound p = pws + lb \<and> tp_end_offset p = pws + e \<and> tp_size p = e - lb"
proof -
  from assms [unfolded validate_tx_path_parses] obtain brs d n lb rb m e where
    sp: "split_path path = (brs, d @ n)" "length d = 32" "length n = 32"
    and walk: "descend E (off - pws - 1) brs (root, 0, bws - pws, None) = Some (hash_leaf E d n, lb, rb, m)"
    and e: "note_to_u128 n = Inr e" "lb < e" "e \<le> rb"
    and p: "p = \<lparr>tp_data_root = d, tp_start_bound = pws + lb, tp_end_offset = pws + e, tp_size = e - lb\<rparr>" by blast
  have "committed E (off - pws - 1) root 0 (bws - pws) path d e lb rb"
    by (rule descend_committed [OF _ _ sp(2,3) e(1)]) (use sp(1) walk in simp_all)
  then show ?thesis using e p by auto
qed

lemma walk_data_path_committed:
  assumes "walk_data_path E root t lb rb path ctx = Inr d" and "\<not> rebased allow path"
  shows "data_committed E allow t root lb rb (dc_left_shift ctx) path d"
  using assms(1)
proof (rule walk_data_path_parsed)
  fix brs leaf h lb' rb' m e
  assume a: "split_path path = (brs, leaf)" "length leaf = 64"
    "descend E t brs (root, lb, rb, dc_is_rightmost ctx) = Some (h, lb', rb', m)"
    "h = hash_leaf E (take 32 leaf) (drop 32 leaf)" "note_to_u128 (drop 32 leaf) = Inr e"
    and d: "d = \<lparr>dp_start = dc_left_shift ctx + lb',
          dp_end = dc_left_shift ctx + max (min rb' e) (lb' + 1), dp_data_hash = take 32 leaf\<rparr>"
  have "committed E t root lb rb path (take 32 leaf) e lb' rb'"
    by (rule descend_committed [OF _ _ _ _ a(5)]) (use a in simp_all)
  then show ?thesis unfolding d by (rule data_committed.plain [OF assms(2)])
qed

lemma walk_rebased_committed:
  assumes "walk_rebased_data_path E (Some root) t lb rb path ctx = Inr d"
    and "rebase_inv rel sz (dc_left_shift ctx) t lb rb" and "sz < U128" and "dc_allow_rebase ctx = allow"
  shows "data_committed E allow t root lb rb (dc_left_shift ctx) path d"
  using assms(1,2,4)
proof (induction path arbitrary: root t lb rb ctx rule: rebased_induct [of allow])
  case (plain path)
  then show ?case by (intro walk_data_path_committed) (simp_all add: walk_rebased_plain)
next
  case (header path)
  let ?l = "sub_bytes path 32 64" and ?r = "sub_bytes path 64 96" and ?n = "sub_bytes path 96 128"
  have r: "rebased (dc_allow_rebase ctx) path" using header by simp
  then have al: allow and len: "128 \<le> length path" and z: "\<forall>b \<in> set (take 32 path). b = 0"
    using header.prems(3) by (auto simp: rebased_def list_all_iff)
  have zero: "take 32 path = replicate 32 0" by (rule replicate_eqI) (use len z in auto)
  obtain b base hi where
    h: "hash_branch E ?l ?r ?n = root" "note_to_u128 ?n = Inr b"
    and frame: "base = (if t < b then lb else max lb b)" "hi = (if t < b then min rb b else rb)"
    and wk: "walk_rebased_data_path E (Some (if t < b then ?l else ?r)) (t - base) 0 (hi - base) (drop 128 path)
       (ctx\<lparr>dc_left_shift := dc_left_shift ctx + base, dc_is_rightmost := None,
            dc_rebase_depth := dc_rebase_depth ctx + 1\<rparr>) = Inr d"
    by (rule walk_rebased_header [OF r header.prems(2) assms(3) header.prems(1)]) (simp, rule that)
  have "path = replicate 32 0 @ ?l @ ?r @ ?n @ drop 128 path"
    using sub_bytes_three [of "drop 32 path"] append_take_drop_id [of 32 path] len zero
    by (simp add: sub_bytes_def)
  moreover have "data_committed E allow (t - base) (if t < b then ?l else ?r) 0 (hi - base) (dc_left_shift ctx + base) (drop 128 path) d"
    using header.IH [OF wk] rebase_inv_step [OF header.prems(2) frame] header.prems(3) by simp
  ultimately show ?case
    using data_committed.header [OF al _ _ _ h(2) frame, of ?l ?r E "dc_left_shift ctx" "drop 128 path" d] len h(1)
    by (simp add: hash_branch_def Let_def sub_bytes_def)
qed

section \<open>Accepted chunks\<close>

text \<open>C1. Soundness of a chunk proof: the block's transaction root commits, along the transaction path hash by hash, to the
  data root, the start and the end of a transaction that holds the requested offset; that data root commits, along
  the data path, to the hash and the interval of a chunk that holds it; the accepted bytes have this hash and the
  length of the interval, at most a chunk, lie inside their transaction and its block, and are the answer's own
  bytes when it is not packed.  The weave size of the block is a \<open>u128\<close>.\<close>

theorem verify_chunk_proof_sound:
  assumes "verify_chunk_proof E ck off g job = Inr p" and "bg_block_weave_size g < U128"
  shows "(\<exists>lb rb e. committed E (off - bg_previous_weave_size g - 1) (bg_tx_root g) 0 (bg_block_weave_size g - bg_previous_weave_size g)
        (ck_tx_path ck) (tp_data_root (pc_transaction p)) e lb rb \<and> lb < e \<and> e \<le> rb
      \<and> pc_first_offset p = bg_previous_weave_size g + lb + 1 \<and> tp_end_offset (pc_transaction p) = bg_previous_weave_size g + e
      \<and> tp_size (pc_transaction p) = e - lb)
    \<and> data_committed E (MERKLE_REBASE_SUPPORT_THRESHOLD \<le> off) (off - pc_first_offset p) (tp_data_root (pc_transaction p))
        0 (tp_size (pc_transaction p)) 0 (ck_data_path ck) (pc_data p)
    \<and> sha256 E [pc_bytes p] = dp_data_hash (pc_data p)
    \<and> length (pc_bytes p) = dp_end (pc_data p) - dp_start (pc_data p)
    \<and> length (pc_bytes p) \<le> MAX_CHUNK_SIZE
    \<and> bg_previous_weave_size g < pc_first_offset p + dp_start (pc_data p)
    \<and> pc_first_offset p + dp_start (pc_data p) \<le> off
    \<and> off < pc_first_offset p + dp_end (pc_data p)
    \<and> pc_first_offset p + dp_end (pc_data p) \<le> tp_end_offset (pc_transaction p) + 1
    \<and> tp_end_offset (pc_transaction p) \<le> bg_block_weave_size g
    \<and> (ck_packing ck = Unpacked \<longrightarrow> pc_bytes p = ck_chunk ck)"
  using assms(1)
proof (rule verify_chunk_proof_steps, goal_cases)
  case 1
  note tx = validate_tx_path_bounds_aux [OF 1(1)]
  have sz: "tp_size (pc_transaction p) < U128" using tx assms(2) by linarith
  note data = validate_data_path_bounds_aux [OF 1(5) sz]
  have w: "pc_relative_offset p < tp_size (pc_transaction p)"
    "walk_rebased_data_path E (Some (tp_data_root (pc_transaction p))) (pc_relative_offset p) 0 (tp_size (pc_transaction p))
       (ck_data_path ck) (data_context (tp_size (pc_transaction p)) off) = Inr (pc_data p)"
    using validate_data_path_walk [OF 1(5)] by auto
  have d: "data_committed E (MERKLE_REBASE_SUPPORT_THRESHOLD \<le> off) (off - pc_first_offset p) (tp_data_root (pc_transaction p))
        0 (tp_size (pc_transaction p)) 0 (ck_data_path ck) (pc_data p)"
    using walk_rebased_committed [OF w(2) rebase_inv_init [OF w(1)] sz refl] 1(3) by simp
  have t: "\<exists>lb rb e. committed E (off - bg_previous_weave_size g - 1) (bg_tx_root g) 0 (bg_block_weave_size g - bg_previous_weave_size g)
        (ck_tx_path ck) (tp_data_root (pc_transaction p)) e lb rb \<and> lb < e \<and> e \<le> rb
      \<and> pc_first_offset p = bg_previous_weave_size g + lb + 1 \<and> tp_end_offset (pc_transaction p) = bg_previous_weave_size g + e
      \<and> tp_size (pc_transaction p) = e - lb"
    using validate_tx_path_committed [OF 1(1)] 1(2) by auto
  show ?case
    by (intro conjI t d 1(10) 1(9) 1(13) impI 1(11)) (use tx data 1(2,3,6,7,8) in linarith)+
qed

theorem verify_chunk_proof_sound_witness:
  "(\<exists>lb rb e. committed sample 3 s_tx_root 0 5 s_tx_path s_data_root e lb rb \<and> lb = 2 \<and> e = 5)
   \<and> data_committed sample False 1 s_data_root 0 3 0 s_data_path s_data \<and> sha256 sample [s_chunk] = dp_data_hash s_data"
  using verify_chunk_proof_sound [OF s_verify]
  by (fastforce simp: s_block_def s_proven_def s_data_def s_tx_def s_proof_def U128_value MERKLE_REBASE_SUPPORT_THRESHOLD_def)

text \<open>No chunk response makes the verifier leave its integer types or index outside a path, as long
  as the block's end lies a chunk below the top of \<open>u128\<close>.\<close>

theorem verify_chunk_proof_no_panic:
  assumes "bg_block_weave_size g + MAX_CHUNK_SIZE \<le> U128"
  shows "verify_chunk_proof E ck off g job \<noteq> Inl Panic"
proof
  assume p: "verify_chunk_proof E ck off g job = Inl Panic"
  show False
  proof (cases "validate_tx_path E (bg_tx_root g) off (bg_block_weave_size g) (bg_previous_weave_size g) (ck_tx_path ck)")
    case (Inl e)
    have "e \<noteq> Panic" using validate_tx_path_no_panic_aux [of "bg_block_weave_size g"] Inl assms by auto
    then show ?thesis using p Inl by (auto simp: verify_chunk_proof_def split: if_splits)
  next
    case (Inr tx)
    note b = validate_tx_path_bounds_aux [OF Inr]
    then have sz: "tp_size tx + MAX_CHUNK_SIZE \<le> U128" "tp_size tx < U128" using assms by auto
    let ?rel = "off - (tp_start_bound tx + 1)"
    show ?thesis
    proof (cases "validate_data_path E (tp_data_root tx) (tp_size tx) ?rel off (ck_data_path ck)")
      case Inl': (Inl e)
      have "e \<noteq> Panic" using validate_data_path_no_panic_aux [OF sz(1)] Inl' by metis
      then show ?thesis using p Inr Inl'
        by (auto simp: verify_chunk_proof_def res_simps split: if_splits)
    next
      case Inr': (Inr d)
      note db = validate_data_path_bounds_aux [OF Inr' sz(2)]
      show ?thesis using p Inr Inr' db
        by (auto simp: verify_chunk_proof_def res_simps unpack_no_panic_aux split: if_splits Packing.Packing.splits)
    qed
  qed
qed

theorem verify_chunk_proof_no_panic_witness:
  "verify_chunk_proof sample s_proof 1004 s_block None \<noteq> Inl Panic"
  by (rule verify_chunk_proof_no_panic) (simp add: s_block_def U128_value)

lemma collision_free_mono: "collision_free E xs \<Longrightarrow> set ys \<subseteq> set xs \<Longrightarrow> collision_free E ys"
  unfolding collision_free_def by (rule inj_on_subset)

lemma chunk_binding_aux:
  assumes "hash_widths E" and w: "bg_block_weave_size g < U128" and "allow = (MERKLE_REBASE_SUPPORT_THRESHOLD \<le> off)"
    and cf: "collision_free E xs"
    and xs: "set (path_inputs E (ck_tx_path ck) @ data_inputs E allow (ck_data_path ck) @ [pc_bytes p]) \<subseteq> set xs"
      "set (path_inputs E (ck_tx_path ck') @ data_inputs E allow (ck_data_path ck') @ [pc_bytes p']) \<subseteq> set xs"
    and "rebase_headers allow (ck_data_path ck) = rebase_headers allow (ck_data_path ck')"
    and p: "verify_chunk_proof E ck off g job = Inr p"
    and p': "verify_chunk_proof E ck' off g job' = Inr p'"
  shows "pc_bytes p = pc_bytes p' \<and> pc_data p = pc_data p' \<and> pc_transaction p = pc_transaction p'"
proof (rule verify_chunk_proof_steps [OF p], rule verify_chunk_proof_steps [OF p'], goal_cases)
  case 1
  have "collision_free E (path_inputs E (ck_tx_path ck) @ path_inputs E (ck_tx_path ck'))"
    by (rule collision_free_mono [OF cf]) (use xs in auto)
  from tx_path_binding_aux [OF assms(1) this 1(1) 1(16)]
  have tx: "pc_transaction p = pc_transaction p'" .
  have sz: "tp_size (pc_transaction p) < U128" using validate_tx_path_bounds_aux [OF 1(1)] w by linarith
  have "pc_relative_offset p' = pc_relative_offset p" using 1(2,3,17,18) tx by simp
  then have d': "validate_data_path E (tp_data_root (pc_transaction p)) (tp_size (pc_transaction p))
      (pc_relative_offset p) off (ck_data_path ck') = Inr (pc_data p')"
    using 1(20) tx by simp
  have data: "pc_data p = pc_data p'"
    by (rule validate_data_path_binding_aux [OF assms(1) sz cf _ _ _ 1(5) d'])
      (unfold assms(3) [symmetric], use xs assms(7) in auto)
  have h: "sha256 E [pc_bytes p] = sha256 E [pc_bytes p']" unfolding 1(10) 1(25) data ..
  have "pc_bytes p = pc_bytes p'" by (rule collision_free_sha [OF cf _ _ h]) (use xs in simp_all)
  with tx data show ?case by simp
qed

text \<open>C2. Binding of chunk proofs: under a block's geometry, two accepted answers for one offset, packed or
  not, carry the same bytes of the same interval of the same transaction, unless SHA-256 collides on
  the nodes of their paths; data paths with rebase headers are compared with paths of as many.\<close>

theorem verify_chunk_proof_binding:
  assumes "hash_widths E" and w: "bg_block_weave_size g < U128"
    and "allow = (MERKLE_REBASE_SUPPORT_THRESHOLD \<le> off)"
    and cf: "collision_free E (path_inputs E (ck_tx_path ck) @ path_inputs E (ck_tx_path ck')
           @ data_inputs E allow (ck_data_path ck) @ data_inputs E allow (ck_data_path ck')
           @ [pc_bytes p, pc_bytes p'])"
    and "rebase_headers allow (ck_data_path ck) = rebase_headers allow (ck_data_path ck')"
    and p: "verify_chunk_proof E ck off g job = Inr p"
    and p': "verify_chunk_proof E ck' off g job' = Inr p'"
  shows "pc_bytes p = pc_bytes p' \<and> pc_data p = pc_data p' \<and> pc_transaction p = pc_transaction p'"
  by (rule chunk_binding_aux [OF assms(1-4) _ _ assms(5-7)]) auto

lemma s_data_inputs: "data_inputs sample False s_data_path = path_inputs sample s_data_path"
  by (subst data_inputs.simps) (simp add: rebased_def)

theorem verify_chunk_proof_binding_witness:
  "pc_bytes s_proven = pc_bytes s_proven \<and> pc_data s_proven = pc_data s_proven
     \<and> pc_transaction s_proven = pc_transaction s_proven"
  by (rule verify_chunk_proof_binding [OF sample_widths _ refl _ refl s_verify s_verify])
    (use s_free_all in \<open>simp_all add: s_block_def s_proof_def s_proven_def U128_value s_data_inputs
       MERKLE_REBASE_SUPPORT_THRESHOLD_def\<close>)

section \<open>Transaction paths\<close>

text \<open>What \<open>validate_tx_path\<close> decides: a path is accepted exactly when the offset lies in the block and
  the path parses into branches and a leaf whose descent, from the block's root and the whole block,
  reaches the leaf's hash with a non-empty transaction inside the bounds; the result is that leaf.\<close>

theorem validate_tx_path_iff:
  "validate_tx_path E root off bws pws path = Inr p \<longleftrightarrow>
     pws < off \<and> off \<le> bws \<and>
     (\<exists>brs d n lb rb m e. split_path path = (brs, d @ n) \<and> length d = 32 \<and> length n = 32
        \<and> descend E (off - pws - 1) brs (root, 0, bws - pws, None) = Some (hash_leaf E d n, lb, rb, m)
        \<and> note_to_u128 n = Inr e \<and> lb < e \<and> e \<le> rb \<and> pws + e < U128
        \<and> p = \<lparr>tp_data_root = d, tp_start_bound = pws + lb, tp_end_offset = pws + e, tp_size = e - lb\<rparr>)"
  by (rule validate_tx_path_parses)

text \<open>Binding of transaction paths: two accepted paths of one offset under one block root prove the same
  transaction (root, start, end and size), unless SHA-256 collides on the nodes of the two paths.\<close>

theorem validate_tx_path_binding:
  assumes "hash_widths E" and "collision_free E (path_inputs E path @ path_inputs E path')"
    and "validate_tx_path E root off bws pws path = Inr p"
    and "validate_tx_path E root off bws pws path' = Inr p'"
  shows "p = p'"
  using assms by (rule tx_path_binding_aux)

theorem validate_tx_path_binding_witness: "s_tx = s_tx \<and> validate_tx_path sample s_tx_root 1004 1005 1000 s_tx_path = Inr s_tx"
  using validate_tx_path_binding [OF sample_widths s_free_sub s_validate_tx s_validate_tx] s_validate_tx by simp

section \<open>Data paths\<close>

text \<open>C3. Bounds of an accepted data path: the leaf's interval is not empty, starts at or before the requested
  offset and ends inside the transaction; from the strict threshold on it is at most a chunk long.\<close>

theorem validate_data_path_bounds:
  assumes "validate_data_path E root sz rel off path = Inr d" and "sz < U128"
  shows "dp_start d \<le> rel \<and> dp_start d < dp_end d \<and> dp_end d \<le> sz
    \<and> (STRICT_DATA_SPLIT_THRESHOLD \<le> off \<longrightarrow> dp_end d - dp_start d \<le> MAX_CHUNK_SIZE)"
  using assms by (rule validate_data_path_bounds_aux)

theorem validate_data_path_bounds_witness: "dp_start s_data \<le> 1 \<and> dp_start s_data < dp_end s_data \<and> dp_end s_data \<le> 3"
  using validate_data_path_bounds [OF s_validate_data] by (simp add: U128_value)

text \<open>No data path, however many rebase headers it opens with, makes its walk leave the integer types or
  index outside the path.\<close>

theorem validate_data_path_no_panic:
  assumes "sz + MAX_CHUNK_SIZE \<le> U128"
  shows "validate_data_path E root sz rel off path \<noteq> Inl Panic"
  using assms by (rule validate_data_path_no_panic_aux)

theorem validate_data_path_no_panic_witness:
  "validate_data_path sample s_data_root 3 1 1004 (replicate 200 0) \<noteq> Inl Panic"
  by (rule validate_data_path_no_panic) (simp add: U128_value)

section \<open>Packing\<close>

text \<open>C4. Unpacking inverts packing: a chunk of at most 256 KiB that was padded with zeros and masked with the
  entropy stream of its position (partition, first entropy, slice) unpacks to itself.\<close>

theorem unpack_pack:
  assumes "replica_ready R" and "plain \<noteq> []" and "length plain \<le> MAX_CHUNK_SIZE"
    and "position absolute_end = Inr pos"
  shows "unpack E R (pack_reference E R address pos plain) address absolute_end (length plain) = Inr plain"
  using assms by (rule unpack_pack_aux)

definition s_replica :: replica where
  "s_replica = \<lparr>rp_sse42 = True, rp_worker = True, rp_created = True,
     rp_entropy = (\<lambda>seeds si. Some (replicate SUB_CHUNK_SIZE (word_of_nat (length seeds + si)))),
     rp_cancelled = (\<lambda>n. False)\<rparr>"

lemma s_replica_ready: "replica_ready s_replica"
  by (auto simp: replica_ready_def s_replica_def entropy_width_def)

lemma s_position: "position 1000000 = Inr (0, 64, 0)"
  by (simp add: position_def chunk_bucket_def STRICT_DATA_SPLIT_THRESHOLD_def)

theorem unpack_pack_witness:
  "unpack sample s_replica (pack_reference sample s_replica [7] (0, 64, 0) [1, 2, 3]) [7] 1000000 3 = Inr [1, 2, 3]"
  using unpack_pack [OF s_replica_ready _ _ s_position, of "[1, 2, 3]" sample "[7]"]
  by (simp add: numeral_3_eq_3)

text \<open>Soundness of unpacking: an accepted chunk has the proven size, and padded with zeros it is the packed
  chunk masked with the entropy stream of its position; the job rejects any other padding.\<close>

theorem unpack_sound:
  assumes "entropy_width R" and "unpack E R bs address absolute_end sz = Inr out"
  shows "length bs = MAX_CHUNK_SIZE \<and> length out = sz \<and> (\<exists>part first si. position absolute_end = Inr (part, first, si)
    \<and> out @ replicate (MAX_CHUNK_SIZE - sz) 0 = xor_bytes bs (entropy_stream E R address part si first 32))"
  using unpack_sound_aux [OF assms] by metis

theorem unpack_sound_witness:
  "length (pack_reference sample s_replica [7] (0, 64, 0) [1, 2, 3]) = MAX_CHUNK_SIZE"
  using unpack_sound [OF _ unpack_pack_aux [OF s_replica_ready _ _ s_position, of "[1, 2, 3]" sample "[7]"]]
    s_replica_ready by (simp add: replica_ready_def)

text \<open>Positions stay inside the replica format: 1024 slices a sector, and thirty-two whole entropies of the
  13412 chunks of a footprint.\<close>

theorem position_bounds:
  assumes "position off = Inr (p, f, s)"
  shows "s < 1024 \<and> f + 32 \<le> 13412 * 32 \<and> f mod 32 = 0"
  using assms by (rule position_bounds_aux)

theorem position_bounds_witness: "(0::nat) < 1024 \<and> 64 + 32 \<le> (13412 * 32 :: nat)"
  using position_bounds [OF s_position] by simp

text \<open>Footprint offsets are distinct: above the strict threshold two chunk ends with the same footprint
  offset lie in the same chunk bucket.\<close>

theorem footprint_offset_injective:
  assumes "footprint_offset a = Inr (Some r)" "footprint_offset b = Inr (Some r)"
    and "a > STRICT_DATA_SPLIT_THRESHOLD" "b > STRICT_DATA_SPLIT_THRESHOLD"
  shows "chunk_bucket a = chunk_bucket b"
  using assms by (rule footprint_offset_inj_aux)

theorem footprint_offset_injective_witness:
  "chunk_bucket 30607159107831 = chunk_bucket 30607159107832"
proof (rule footprint_offset_injective)
  show "footprint_offset 30607159107831 = Inr (Some 123601410)"
    by (simp add: footprint_offset_def chunk_bucket_def STRICT_DATA_SPLIT_THRESHOLD_def checked_mul_def
        checked_add_def checked_sub_def mulE_def subE_def addE_def U128_value)
  show "footprint_offset 30607159107832 = Inr (Some 123601410)"
    by (simp add: footprint_offset_def chunk_bucket_def STRICT_DATA_SPLIT_THRESHOLD_def checked_mul_def
        checked_add_def checked_sub_def mulE_def subE_def addE_def U128_value)
qed (simp_all add: STRICT_DATA_SPLIT_THRESHOLD_def)

section \<open>Avro integers\<close>

text \<open>Reading an Avro \<open>long\<close> inverts the reference zig-zag base-128 encoding, for every \<open>i64\<close>, at any
  place of a buffer, and leaves the cursor behind it.\<close>

theorem read_avro_long_roundtrip:
  assumes "- (2 ^ 63) \<le> i" and "i < 2 ^ 63" and "length pre + length (varint (zigzag i)) < USIZE"
  shows "read_avro_long (pre @ varint (zigzag i) @ rest) (length pre) =
     Inr (i, length pre + length (varint (zigzag i)))"
  using assms by (rule read_avro_long_varint)

theorem read_avro_long_roundtrip_witness: "read_avro_long ([7] @ [0xAB, 2] @ [9]) 1 = Inr (- 150, 3)"
proof -
  have "varint (zigzag (- 150)) = [0xAB, 2]"
    by (simp add: zigzag_def varint.simps)
  then show ?thesis
    using read_avro_long_roundtrip [of "- 150" "[7]" "[9]"] by (simp add: U64_def)
qed

end
