(* ===== verification/StreamProofs.thy ===== *)
theory StreamProofs
  imports Stream ChunkProofs
begin

text \<open>
  Properties of streamed content: a proof accepted for one byte of a chunk is accepted for each of
  its bytes, so that chunks fetched at different offsets, from different peers, at different times,
  agree wherever they overlap.  The checks of chunk borders differ with the offset but only reject: what any rules
  accept is the result of the walk without them (\<open>loosen\<close>).
\<close>

section \<open>One proof for every byte of a chunk\<close>

lemma descend_mono:
  "descend E t brs (h, lb, rb, m) = Some (h', lb', rb', m') \<Longrightarrow> lb \<le> lb' \<and> rb' \<le> rb"
proof (induction brs arbitrary: h lb rb m)
  case (Cons b brs)
  obtain l r n where b: "b = (l, r, n)" by (cases b) auto
  from Cons.prems show ?case
    by (fastforce simp: b split: if_splits sum.splits dest: Cons.IH)
qed simp

lemma descend_stable:
  assumes "descend E t brs (h, lb, rb, m) = Some (h', lb', rb', m')" and "lb' \<le> t'" and "t' < rb'"
  shows "descend E t' brs (h, lb, rb, m) = Some (h', lb', rb', m')"
  using assms(1)
proof (induction brs arbitrary: h lb rb m)
  case (Cons b brs)
  obtain l r n where b: "b = (l, r, n)" by (cases b) auto
  obtain off where n: "hash_branch E l r n = h" "note_to_u128 n = Inr off"
    using Cons.prems by (auto simp: b split: if_splits sum.splits)
  show ?case
  proof (cases "t < off")
    case True
    then have d: "descend E t brs (l, lb, min rb off, Some False) = Some (h', lb', rb', m')"
      using Cons.prems by (simp add: b n)
    then have "t' < off" using descend_mono [OF d] assms(3) by simp
    then show ?thesis using Cons.IH [OF d] by (simp add: b n)
  next
    case False
    then have d: "descend E t brs (r, max lb off, rb, if m = None then Some True else m) = Some (h', lb', rb', m')"
      using Cons.prems by (simp add: b n)
    then have "\<not> t' < off" using descend_mono [OF d] assms(2) by simp
    then show ?thesis using Cons.IH [OF d] by (simp add: b n)
  qed
qed simp

lemma validate_tx_path_stable:
  assumes p: "validate_tx_path E root off bws pws path = Inr p"
    and "tp_start_bound p < off'" and "off' \<le> tp_end_offset p"
  shows "validate_tx_path E root off' bws pws path = Inr p"
proof -
  from p [unfolded validate_tx_path_parses] obtain brs d n lb rb m e where
    1: "split_path path = (brs, d @ n)" "length d = 32" "length n = 32"
    "descend E (off - pws - 1) brs (root, 0, bws - pws, None) = Some (hash_leaf E d n, lb, rb, m)"
    "note_to_u128 n = Inr e" "lb < e" "e \<le> rb" "pws + e < U128"
    "p = \<lparr>tp_data_root = d, tp_start_bound = pws + lb, tp_end_offset = pws + e, tp_size = e - lb\<rparr>"
    and off: "pws < off" "off \<le> bws" by blast
  have "rb \<le> bws - pws" using descend_mono [OF 1(4)] by simp
  moreover have "descend E (off' - pws - 1) brs (root, 0, bws - pws, None) = Some (hash_leaf E d n, lb, rb, m)"
    by (rule descend_stable [OF 1(4)]) (use assms(2,3) 1 in auto)
  ultimately show ?thesis
    unfolding validate_tx_path_parses using 1 assms(2,3) off by auto
qed

lemma walk_data_path_stable:
  assumes "walk_data_path E root t lb rb path ctx = Inr d" and "lb \<le> t" "t < rb"
    and "dp_start d \<le> dc_left_shift ctx + t'" and "dc_left_shift ctx + t' < dp_end d"
  shows "walk_data_path E root t' lb rb path ctx = Inr d"
proof -
  obtain c h l r m where w: "data_walk E path t 0 root lb rb (dc_is_rightmost ctx) = Inr (c, h, l, r, m)"
    using assms(1) by (auto simp: walk_data_path_def res_simps split: if_splits)
  obtain e where d: "dp_start d = dc_left_shift ctx + l" "dp_end d = dc_left_shift ctx + max (min r e) (l + 1)"
    using assms(1) w by (auto simp: walk_data_path_def res_simps split: if_splits)
  have "descend E t (fst (split_path path)) (root, lb, rb, dc_is_rightmost ctx) = Some (h, l, r, m)"
    and "length (snd (split_path path)) \<le> 64 \<and> c + length (snd (split_path path)) = length path"
    using w data_walk_refines [of 0 path] by auto
  note desc = this
  have "l \<le> t" "t < r" using descend_bounds [OF desc(1) assms(2,3)] by auto
  then have "l \<le> t'" "t' < r" using assms(4,5) d by auto
  from descend_stable [OF desc(1) this]
  have "data_walk E path t' 0 root lb rb (dc_is_rightmost ctx) = Inr (c, h, l, r, m)"
    using desc(2) data_walk_refines [of 0 path E t'] by auto
  then have "walk_data_path E root t' lb rb path ctx = walk_data_path E root t lb rb path ctx"
    using w unfolding walk_data_path_def by simp
  then show ?thesis using assms(1) by simp
qed

lemma walk_rebased_lower:
  assumes "walk_rebased_data_path E (Some root) t lb rb path ctx = Inr d"
    and "rebase_inv rel sz (dc_left_shift ctx) t lb rb" and "sz < U128" and "dc_allow_rebase ctx = allow"
  shows "dc_left_shift ctx + lb \<le> dp_start d \<and> dp_end d \<le> dc_left_shift ctx + rb"
  using assms(1,2,4)
proof (induction path arbitrary: root t lb rb ctx rule: rebased_induct [of allow])
  case (plain path)
  then have w: "walk_data_path E root t lb rb path ctx = Inr d" by (simp add: walk_rebased_plain)
  have inv: "rebase_inv rel (dc_left_shift ctx + rb) (dc_left_shift ctx) t lb rb"
    using plain.prems(2) by (simp add: rebase_inv_def)
  from w show ?case
  proof (rule walk_data_path_parsed)
    fix brs leaf h lb' rb' m e
    assume "descend E t brs (root, lb, rb, dc_is_rightmost ctx) = Some (h, lb', rb', m)"
      and "d = \<lparr>dp_start = dc_left_shift ctx + lb',
          dp_end = dc_left_shift ctx + max (min rb' e) (lb' + 1), dp_data_hash = take 32 leaf\<rparr>"
    then show ?case using descend_mono [of E t brs root lb rb] walk_data_path_bounds [OF w inv] by auto
  qed
next
  case (header path)
  have rb: "rebased (dc_allow_rebase ctx) path" using header by simp
  obtain b base hi where
    h: "base = (if t < b then lb else max lb b)" "hi = (if t < b then min rb b else rb)"
    "walk_rebased_data_path E (Some (if t < b then sub_bytes path 32 64 else sub_bytes path 64 96))
       (t - base) 0 (hi - base) (drop 128 path)
       (ctx\<lparr>dc_left_shift := dc_left_shift ctx + base, dc_is_rightmost := None,
            dc_rebase_depth := dc_rebase_depth ctx + 1\<rparr>) = Inr d"
    by (rule walk_rebased_header [OF rb header.prems(2) assms(3) header.prems(1)]) (simp, rule that)
  have inv: "rebase_inv rel sz (dc_left_shift ctx + base) (t - base) 0 (hi - base)"
    using rebase_inv_step [OF header.prems(2) h(1,2)] .
  have "dc_left_shift ctx + base \<le> dp_start d \<and> dp_end d \<le> dc_left_shift ctx + base + (hi - base)"
    using header.IH [OF h(3)] inv header.prems(3) by simp
  moreover have "base < hi" "lb \<le> base" "hi \<le> rb"
    using header.prems(2) h(1,2) by (auto simp: rebase_inv_def)
  ultimately show ?case by linarith
qed

lemma walk_rebased_stable:
  assumes "walk_rebased_data_path E (Some root) t lb rb path ctx = Inr d"
    and "rebase_inv rel sz (dc_left_shift ctx) t lb rb" and sz: "sz < U128" and "dc_allow_rebase ctx = allow"
    and "dp_start d \<le> dc_left_shift ctx + t'" and "dc_left_shift ctx + t' < dp_end d"
  shows "walk_rebased_data_path E (Some root) t' lb rb path ctx = Inr d"
  using assms(1,2,4-)
proof (induction path arbitrary: root t t' lb rb ctx rule: rebased_induct [of allow])
  case (plain path)
  then show ?case
    using walk_data_path_stable [of E root t lb rb path ctx d t'] by (auto simp: walk_rebased_plain rebase_inv_def)
next
  case (header path)
  have rb: "rebased (dc_allow_rebase ctx) path" using header by simp
  obtain b base hi where
    hb: "hash_branch E (sub_bytes path 32 64) (sub_bytes path 64 96) (sub_bytes path 96 128) = root"
    "note_to_u128 (sub_bytes path 96 128) = Inr b"
    and h: "base = (if t < b then lb else max lb b)" "hi = (if t < b then min rb b else rb)"
    and w: "walk_rebased_data_path E (Some (if t < b then sub_bytes path 32 64 else sub_bytes path 64 96))
       (t - base) 0 (hi - base) (drop 128 path)
       (ctx\<lparr>dc_left_shift := dc_left_shift ctx + base, dc_is_rightmost := None,
            dc_rebase_depth := dc_rebase_depth ctx + 1\<rparr>) = Inr d"
    by (rule walk_rebased_header [OF rb header.prems(2) sz header.prems(1)]) (simp, rule that)
  have inv: "rebase_inv rel sz (dc_left_shift ctx + base) (t - base) 0 (hi - base)"
    using rebase_inv_step [OF header.prems(2) h] .
  have "dc_left_shift ctx + base \<le> dp_start d \<and> dp_end d \<le> dc_left_shift ctx + base + (hi - base)"
    using walk_rebased_lower [OF w _ sz] inv header.prems(3) by simp
  then have t': "base \<le> t'" "t' < hi" "lb \<le> base" "hi \<le> rb"
    using header.prems(2,4,5) h by (auto simp: rebase_inv_def split: if_splits)
  have side: "(t' < b) = (t < b)" using t' h by (auto split: if_splits)
  have inv': "rebase_inv (dc_left_shift ctx + t') sz (dc_left_shift ctx) t' lb rb"
    using header.prems(2) t' by (auto simp: rebase_inv_def)
  have "dc_rebase_depth ctx < 64"
    using header.prems(1) walk_rebased_step [OF rb header.prems(2) sz, of E "Some root"] by (auto split: if_splits)
  moreover have "walk_rebased_data_path E (Some (if t < b then sub_bytes path 32 64 else sub_bytes path 64 96))
       (t' - base) 0 (hi - base) (drop 128 path)
       (ctx\<lparr>dc_left_shift := dc_left_shift ctx + base, dc_is_rightmost := None,
            dc_rebase_depth := dc_rebase_depth ctx + 1\<rparr>) = Inr d"
    by (rule header.IH [OF w]) (use inv header.prems t' in auto)
  ultimately show ?case
    using hb h side by (simp add: walk_rebased_step [OF rb inv' sz] Let_def split del: if_split)
qed

lemma validate_data_path_stable:
  assumes "validate_data_path E root sz rel off path = Inr d" and "sz < U128"
    and "dp_start d \<le> rel'" and "rel' < dp_end d" and "data_context sz off' = data_context sz off"
  shows "validate_data_path E root sz rel' off' path = Inr d"
proof -
  have w: "rel < sz" "walk_rebased_data_path E (Some root) rel 0 sz path (data_context sz off) = Inr d"
    using validate_data_path_walk [OF assms(1)] by auto
  have b: "dp_end d \<le> sz" using validate_data_path_bounds_aux [OF assms(1,2)] by simp
  have "walk_rebased_data_path E (Some root) rel' 0 sz path (data_context sz off') = Inr d"
    unfolding assms(5) by (rule walk_rebased_stable [OF w(2) rebase_inv_init [OF w(1)] assms(2) refl])
      (use assms(3,4) in auto)
  moreover have "rel' < sz" using assms(4) b by simp
  moreover have "LEAF_SIZE \<le> length path" using assms(1) by (simp add: validate_data_path_def split: if_splits)
  ultimately show ?thesis
    using w(1) by (auto simp: validate_data_path_def data_context_def MERKLE_REBASE_SUPPORT_THRESHOLD_def
      STRICT_DATA_SPLIT_THRESHOLD_def split: if_splits)
qed

text \<open>The walk without the checks of the chunk borders: what is accepted under any rules is accepted by it.\<close>

definition loose :: "nat \<Rightarrow> bool \<Rightarrow> DataContext" where
  "loose sz allow = \<lparr>dc_data_size = sz, dc_is_rightmost = None, dc_left_shift = 0, dc_check_borders = False,
     dc_check_split = NoCheck, dc_allow_rebase = allow, dc_rebase_depth = 0\<rparr>"

definition loosen :: "DataContext \<Rightarrow> DataContext" where
  "loosen ctx = ctx\<lparr>dc_check_borders := False, dc_check_split := NoCheck\<rparr>"

lemma loose_simps [simp]:
  "dc_data_size (loose sz allow) = sz" "dc_is_rightmost (loose sz allow) = None" "dc_left_shift (loose sz allow) = 0"
  "dc_check_borders (loose sz allow) = False" "dc_check_split (loose sz allow) = NoCheck"
  "dc_allow_rebase (loose sz allow) = allow" "dc_rebase_depth (loose sz allow) = 0"
  by (simp_all add: loose_def)

lemma loosen_simps [simp]:
  "dc_allow_rebase (loosen ctx) = dc_allow_rebase ctx" "dc_left_shift (loosen ctx) = dc_left_shift ctx"
  "dc_rebase_depth (loosen ctx) = dc_rebase_depth ctx" "dc_is_rightmost (loosen ctx) = dc_is_rightmost ctx"
  "loosen (data_context sz off) = loose sz (MERKLE_REBASE_SUPPORT_THRESHOLD \<le> off)"
  by (simp_all add: loosen_def data_context_def loose_def)

lemma loosen_step:
  "loosen (ctx\<lparr>dc_left_shift := s, dc_is_rightmost := m, dc_rebase_depth := k\<rparr>)
     = (loosen ctx)\<lparr>dc_left_shift := s, dc_is_rightmost := m, dc_rebase_depth := k\<rparr>"
  by (simp add: loosen_def)

lemma walk_data_path_loosen:
  "walk_data_path E root t lb rb path ctx = Inr d \<Longrightarrow> walk_data_path E root t lb rb path (loosen ctx) = Inr d"
  by (auto simp: walk_data_path_def res_simps validate_split_def loosen_def split: if_splits)

lemma walk_data_path_allow:
  "walk_data_path E root t lb rb path (loose sz allow) = walk_data_path E root t lb rb path (loose sz allow')"
  unfolding walk_data_path_def validate_split_def loose_simps ..

lemma walk_rebased_loosen:
  assumes "walk_rebased_data_path E (Some root) t lb rb path ctx = Inr d"
    and "rebase_inv rel sz (dc_left_shift ctx) t lb rb" and sz: "sz < U128" and "dc_allow_rebase ctx = allow"
  shows "walk_rebased_data_path E (Some root) t lb rb path (loosen ctx) = Inr d"
  using assms(1,2,4-)
proof (induction path arbitrary: root t lb rb ctx rule: rebased_induct [of allow])
  case (plain path)
  then show ?case by (simp add: walk_rebased_plain walk_data_path_loosen)
next
  case (header path)
  have rb: "rebased (dc_allow_rebase ctx) path" "rebased (dc_allow_rebase (loosen ctx)) path" using header by simp_all
  obtain b base hi where
    hb: "hash_branch E (sub_bytes path 32 64) (sub_bytes path 64 96) (sub_bytes path 96 128) = root"
    "note_to_u128 (sub_bytes path 96 128) = Inr b"
    and h: "base = (if t < b then lb else max lb b)" "hi = (if t < b then min rb b else rb)"
    and w: "walk_rebased_data_path E (Some (if t < b then sub_bytes path 32 64 else sub_bytes path 64 96))
       (t - base) 0 (hi - base) (drop 128 path)
       (ctx\<lparr>dc_left_shift := dc_left_shift ctx + base, dc_is_rightmost := None,
            dc_rebase_depth := dc_rebase_depth ctx + 1\<rparr>) = Inr d"
    by (rule walk_rebased_header [OF rb(1) header.prems(2) sz header.prems(1)]) (simp, rule that)
  have "dc_rebase_depth ctx < 64"
    using header.prems(1) walk_rebased_step [OF rb(1) header.prems(2) sz, of E "Some root"] by (auto split: if_splits)
  moreover have "walk_rebased_data_path E (Some (if t < b then sub_bytes path 32 64 else sub_bytes path 64 96))
       (t - base) 0 (hi - base) (drop 128 path)
       ((loosen ctx)\<lparr>dc_left_shift := dc_left_shift ctx + base, dc_is_rightmost := None,
            dc_rebase_depth := dc_rebase_depth ctx + 1\<rparr>) = Inr d"
    unfolding loosen_step [symmetric]
    by (rule header.IH [OF w]) (use rebase_inv_step [OF header.prems(2) h] header.prems(3) in simp_all)
  ultimately show ?case
    using hb h walk_rebased_step [OF rb(2), of rel sz t lb rb E "Some root"] header.prems(2) sz
    by (simp add: Let_def split del: if_split)
qed

lemma loose_binding:
  assumes w: "hash_widths E" and cf: "collision_free E xs" and sz: "sz < U128"
    and "set (data_inputs E allow path) \<subseteq> set xs" "set (data_inputs E allow' path') \<subseteq> set xs"
    and "rebase_headers allow path = rebase_headers allow' path'" and rel: "rel < sz"
    and d: "walk_rebased_data_path E (Some root) rel 0 sz path (loose sz allow) = Inr d"
    and d': "walk_rebased_data_path E (Some root) rel 0 sz path' (loose sz allow') = Inr d'"
  shows "d = d'"
proof (cases "allow = allow'")
  case True
  have inv: "rebase_inv rel sz (dc_left_shift (loose sz allow)) rel 0 sz" using rel by (simp add: rebase_inv_def loose_def)
  show ?thesis
    by (rule walk_rebased_binding [OF w cf sz assms(4) _ _ d _ inv]) (use assms(5,6) d' True in \<open>simp_all add: loose_def\<close>)
next
  case False
  then have "rebase_headers allow path = 0 \<and> rebase_headers allow' path' = 0"
    using assms(6) by (cases allow; cases allow') (simp_all add: rebase_headers.simps [of False] rebased_def)
  then have n: "\<not> rebased allow path" "\<not> rebased allow' path'"
    by (auto simp: rebase_headers.simps [of allow path] rebase_headers.simps [of allow' path'] split: if_splits)
  have p: "set (path_inputs E path) \<subseteq> set xs" "set (path_inputs E path') \<subseteq> set xs"
    using assms(4,5) n by (simp_all add: data_inputs.simps [of E allow path] data_inputs.simps [of E allow' path'])
  have "walk_data_path E root rel 0 sz path (loose sz False) = Inr d" "walk_data_path E root rel 0 sz path' (loose sz False) = Inr d'"
    using d d' n by (simp_all add: walk_rebased_plain loose_def [THEN arg_cong, of dc_allow_rebase] walk_data_path_allow [of _ _ _ _ _ _ _ allow False]
        walk_data_path_allow [of _ _ _ _ _ _ _ allow' False])
  then show ?thesis by (rule walk_data_path_binding [OF w cf p])
qed

text \<open>A chunk proven at one offset is proven at every offset of its interval that has the same split rules.\<close>

lemma verify_chunk_proof_stable:
  assumes p: "verify_chunk_proof E ck off g job = Inr p" and "bg_block_weave_size g < U128"
    and "dp_start (pc_data p) \<le> rel" "rel < dp_end (pc_data p)" and off': "off' = pc_first_offset p + rel"
    and "data_context 0 off' = data_context 0 off"
  shows "verify_chunk_proof E ck off' g job = Inr (p\<lparr>pc_relative_offset := rel\<rparr>)"
proof (rule verify_chunk_proof_steps [OF p], goal_cases)
  case 1
  have ctx: "data_context sz off' = data_context sz off" for sz
    using assms(6) by (auto simp: data_context_def split: if_splits)
  note b = validate_tx_path_bounds_aux [OF 1(1)]
  have tx: "validate_tx_path E (bg_tx_root g) off' (bg_block_weave_size g) (bg_previous_weave_size g) (ck_tx_path ck)
      = Inr (pc_transaction p)"
    by (rule validate_tx_path_stable [OF 1(1)]) (use 1(2,8) assms(4) off' b in auto)
  have "tp_size (pc_transaction p) < U128" using b assms(2) by linarith
  from validate_data_path_stable [OF 1(5) this assms(3,4) ctx]
  have d: "validate_data_path E (tp_data_root (pc_transaction p)) (tp_size (pc_transaction p)) rel off' (ck_data_path ck)
      = Inr (pc_data p)" .
  have r: "off' - pc_first_offset p = rel" using off' by simp
  show ?case
    using p tx d 1(1,2,3,5) r assms(3,4)
    unfolding verify_chunk_proof_def by (auto simp add: res_simps checked_sub_def off' split: if_splits) (cases p; simp)
qed

section \<open>What the network can have had accepted\<close>

text \<open>The chunks the gateway may check at an offset: rows of the store with their files, and answers of peers.\<close>

definition offered :: "network \<Rightarrow> BlockGeometry \<Rightarrow> nat \<Rightarrow> Chunk \<Rightarrow> replica option \<Rightarrow> bool" where
  "offered N g off ck job \<longleftrightarrow>
     (\<exists>entry bs. Inr entry \<in> set (n_rows N off g) \<and> n_file N (cc_hash entry) = Inr (Some bs) \<and> job = None
        \<and> ck = \<lparr>ck_chunk = bs, ck_data_path = cc_data_path entry, ck_tx_path = cc_tx_path entry, ck_packing = Unpacked\<rparr>)
     \<or> (\<exists>source R. (source, ChunkAnswer ck R) \<in> set (n_chunks N off) \<and> job = request_job ck R)"

definition accepted :: "deps \<Rightarrow> network \<Rightarrow> BlockGeometry \<Rightarrow> nat \<Rightarrow> ProvenChunk \<Rightarrow> bool" where
  "accepted E N g off p \<longleftrightarrow> (\<exists>ck job. offered N g off ck job \<and> verify_chunk_proof E ck off g job = Inr p)"

lemma cpu_work_Inr [simp]: "cpu_work r = Inr x \<longleftrightarrow> r = Inr x"
  by (auto simp: cpu_work_def split: sum.splits error.splits)

lemma cached_candidate_accepted:
  assumes "cached_candidate E N off g entry = Inr (Some p)"
  shows "\<exists>bs. n_file N (cc_hash entry) = Inr (Some bs) \<and> verify_chunk_proof E
    \<lparr>ck_chunk = bs, ck_data_path = cc_data_path entry, ck_tx_path = cc_tx_path entry, ck_packing = Unpacked\<rparr> off g None = Inr p"
proof -
  obtain bs n where l: "load_chunk_bytes E N (cc_hash entry) n = Inr (Some bs)" "verify_chunk_proof E
    \<lparr>ck_chunk = bs, ck_data_path = cc_data_path entry, ck_tx_path = cc_tx_path entry, ck_packing = Unpacked\<rparr> off g None = Inr p"
    using assms by (auto simp: cached_candidate_def Let_def bindE_eq_Inr split: option.splits if_splits)
  then have "n_file N (cc_hash entry) = Inr (Some bs)"
    by (auto simp: load_chunk_bytes_def bindE_eq_Inr split: option.splits if_splits)
  with l show ?thesis by blast
qed

lemma cached_lookup_accepted:
  "cached_lookup E N off g rows = Inr (Some f) \<Longrightarrow>
     \<exists>entry \<in> {e. Inr e \<in> set rows}. cached_candidate E N off g entry = Inr (Some (cf_proof f))"
proof (induction rows)
  case (Cons row rows)
  obtain entry where row: "row = Inr entry" using Cons.prems by (auto simp: bindE_eq_Inr)
  show ?case
  proof (cases "\<exists>p. cached_candidate E N off g entry = Inr (Some p)")
    case True
    then obtain p where p: "cached_candidate E N off g entry = Inr (Some p)" by blast
    then have "cf_proof f = p" using Cons.prems row by auto
    then show ?thesis using p row by auto
  next
    case False
    then have "cached_lookup E N off g rows = Inr (Some f)"
      using Cons.prems row by (auto simp: bindE_eq_Inr split: sum.splits option.splits error.splits)
    then show ?thesis using Cons.IH row by auto
  qed
qed simp

lemma first_valid_accepted:
  "first_valid E N off g bad as = Inr (Some f) \<Longrightarrow>
     \<exists>source ck R. (source, ChunkAnswer ck R) \<in> set as \<and> verify_chunk_proof E ck off g (request_job ck R) = Inr (cf_proof f)"
proof (induction as arbitrary: bad)
  case (Cons a as)
  obtain source x where a: "a = (source, x)" by (cases a)
  show ?case
  proof (cases x)
    case (ChunkAnswer ck R)
    show ?thesis
    proof (cases "cpu_work (verify_chunk_proof E ck off g (request_job ck R))")
      case (Inl e)
      then show ?thesis using Cons a ChunkAnswer by fastforce
    next
      case (Inr p)
      then have v: "verify_chunk_proof E ck off g (request_job ck R) = Inr p" by simp
      then have "cf_proof f = p" using Cons.prems a ChunkAnswer by (auto simp: bindE_eq_Inr cpu_work_def)
      then show ?thesis using v a ChunkAnswer by auto
    qed
  qed (use Cons a in fastforce)+
qed (simp split: if_splits)

lemma fetch_accepted:
  assumes "fetch_verified_chunk E N off g = Inr (Some f)"
  shows "accepted E N g off (cf_proof f)"
proof (cases "cached_lookup E N off g (n_rows N off g) = Inr (Some f)")
  case True
  from cached_lookup_accepted [OF this] obtain entry where
    e: "Inr entry \<in> set (n_rows N off g)" "cached_candidate E N off g entry = Inr (Some (cf_proof f))" by auto
  show ?thesis using cached_candidate_accepted [OF e(2)] e(1) unfolding accepted_def offered_def by blast
next
  case False
  then have "first_valid E N off g False (n_chunks N off) = Inr (Some f)"
    using assms by (auto simp: fetch_verified_chunk_def split: sum.splits option.splits error.splits)
  from first_valid_accepted [OF this] show ?thesis unfolding accepted_def offered_def by blast
qed

lemma accepted_paths:
  assumes "accepted E N g off p"
  obtains ck job where "verify_chunk_proof E ck off g job = Inr p" "pc_data_path p = ck_data_path ck" "pc_tx_path p = ck_tx_path ck"
proof -
  from assms obtain ck job where v: "verify_chunk_proof E ck off g job = Inr p" unfolding accepted_def by blast
  show thesis by (rule verify_chunk_proof_steps [OF v], rule that [OF v]) assumption+
qed

section \<open>Pieces of one content\<close>

definition piece_of :: "deps \<Rightarrow> Geometry \<Rightarrow> network set \<Rightarrow> nat \<Rightarrow> bytes \<Rightarrow> bool" where
  "piece_of E g Ns start bs \<longleftrightarrow> (\<exists>N \<in> Ns. \<exists>pos p. accepted E N (block_geometry g) (g_first_offset g + pos) p
     \<and> check_chunk_geometry p pos g = Inr () \<and> start = dp_start (pc_data p) \<and> bs = pc_bytes p)"

lemma piece_bounds:
  assumes "piece_of E g Ns start bs" and "g_block_weave_size g < U128"
  shows "0 < length bs \<and> length bs \<le> MAX_CHUNK_SIZE \<and> start + length bs \<le> g_data_size g"
proof -
  from assms(1) obtain N pos p where a: "accepted E N (block_geometry g) (g_first_offset g + pos) p"
    and c: "check_chunk_geometry p pos g = Inr ()" "start = dp_start (pc_data p)" "bs = pc_bytes p"
    unfolding piece_of_def by blast
  obtain ck job where v: "verify_chunk_proof E ck (g_first_offset g + pos) (block_geometry g) job = Inr p"
    using accepted_paths [OF a] by blast
  show ?thesis
    by (rule verify_chunk_proof_steps [OF v]) (use c in \<open>auto simp: check_chunk_geometry_def split: if_splits\<close>)
qed

text \<open>A chunk the gateway accepted for a byte of the content, and whether rebase headers are read there.\<close>

definition proven_at :: "deps \<Rightarrow> Geometry \<Rightarrow> network set \<Rightarrow> nat \<Rightarrow> ProvenChunk \<Rightarrow> bool" where
  "proven_at E g Ns pos p \<longleftrightarrow> (\<exists>N \<in> Ns. accepted E N (block_geometry g) (g_first_offset g + pos) p)
     \<and> check_chunk_geometry p pos g = Inr ()"

definition rebase_at :: "Geometry \<Rightarrow> nat \<Rightarrow> bool" where
  "rebase_at g pos \<longleftrightarrow> MERKLE_REBASE_SUPPORT_THRESHOLD \<le> g_first_offset g + pos"

text \<open>What SHA-256 was applied to: the nodes of the accepted data paths, and the accepted chunks.\<close>

definition hashed_inputs :: "deps \<Rightarrow> Geometry \<Rightarrow> network set \<Rightarrow> bytes set" where
  "hashed_inputs E g Ns = {x. \<exists>pos p. proven_at E g Ns pos p \<and> x \<in> set (pc_bytes p # data_inputs E (rebase_at g pos) (pc_data_path p))}"

text \<open>The data paths accepted for one byte open with as many rebase headers.\<close>

definition same_headers :: "deps \<Rightarrow> Geometry \<Rightarrow> network set \<Rightarrow> bool" where
  "same_headers E g Ns \<longleftrightarrow> (\<forall>pos p pos' p' q. proven_at E g Ns pos p \<and> proven_at E g Ns pos' p'
     \<and> dp_start (pc_data p) \<le> q \<and> q < dp_end (pc_data p) \<and> dp_start (pc_data p') \<le> q \<and> q < dp_end (pc_data p') \<longrightarrow>
     rebase_headers (rebase_at g pos) (pc_data_path p) = rebase_headers (rebase_at g pos') (pc_data_path p'))"

lemma piece_proven: "piece_of E g Ns start bs \<longleftrightarrow> (\<exists>pos p. proven_at E g Ns pos p \<and> start = dp_start (pc_data p) \<and> bs = pc_bytes p)"
  unfolding piece_of_def proven_at_def by blast

lemma proven_walk:
  assumes "proven_at E g Ns pos p" and "g_block_weave_size g < U128"
  shows "g_data_size g < U128 \<and> pos < g_data_size g \<and> dp_end (pc_data p) \<le> g_data_size g
    \<and> g_first_offset g + pos \<le> g_end_offset g
    \<and> walk_rebased_data_path E (Some (g_data_root g)) pos 0 (g_data_size g) (pc_data_path p) (loose (g_data_size g) (rebase_at g pos))
      = Inr (pc_data p)
    \<and> sha256 E [pc_bytes p] = dp_data_hash (pc_data p) \<and> length (pc_bytes p) = dp_end (pc_data p) - dp_start (pc_data p)"
proof -
  obtain N where a: "accepted E N (block_geometry g) (g_first_offset g + pos) p" and c: "check_chunk_geometry p pos g = Inr ()"
    using assms(1) unfolding proven_at_def by blast
  obtain ck job where v: "verify_chunk_proof E ck (g_first_offset g + pos) (block_geometry g) job = Inr p"
    using accepted_paths [OF a] by blast
  have c': "tp_data_root (pc_transaction p) = g_data_root g" "tp_size (pc_transaction p) = g_data_size g"
    "pc_relative_offset p = pos" "tp_end_offset (pc_transaction p) = g_end_offset g" "pc_first_offset p = g_first_offset g"
    using c by (simp_all add: check_chunk_geometry_def split: if_splits)
  show ?thesis
  proof (rule verify_chunk_proof_steps [OF v], goal_cases)
    case 1
    note tx = validate_tx_path_bounds_aux [OF 1(1)]
    have sz: "g_data_size g < U128" using tx assms(2) c'(2) by (simp add: block_geometry_def)
    have w: "pos < g_data_size g" "walk_rebased_data_path E (Some (g_data_root g)) pos 0 (g_data_size g) (pc_data_path p)
        (data_context (g_data_size g) (g_first_offset g + pos)) = Inr (pc_data p)"
      using validate_data_path_walk [OF 1(5)] unfolding c' 1(14) by auto
    show ?case using walk_rebased_loosen [OF w(2) rebase_inv_init [OF w(1)] sz refl] w(1) sz 1 tx c'
      by (simp add: rebase_at_def)
  qed
qed

lemma same_headers_below:
  assumes "g_end_offset g < MERKLE_REBASE_SUPPORT_THRESHOLD" and "g_block_weave_size g < U128"
  shows "same_headers E g Ns"
proof -
  have "rebase_headers (rebase_at g pos) path = 0" if "proven_at E g Ns pos p" for pos p path
    using proven_walk [OF that assms(2)] assms(1) by (subst rebase_headers.simps) (auto simp: rebase_at_def rebased_def)
  then show ?thesis unfolding same_headers_def by metis
qed

lemma pieces_agree:
  assumes laws: "hash_widths E" "g_block_weave_size g < U128" "inj_on (x_sha256 E) (hashed_inputs E g Ns)" "same_headers E g Ns"
    and "piece_of E g Ns start bs" "piece_of E g Ns start' bs'"
    and q: "start \<le> q" "q < start + length bs" "start' \<le> q" "q < start' + length bs'"
  shows "start = start' \<and> bs = bs'"
proof -
  obtain pos p where 1: "proven_at E g Ns pos p" "start = dp_start (pc_data p)" "bs = pc_bytes p"
    using assms(5) unfolding piece_proven by blast
  obtain pos' p' where 2: "proven_at E g Ns pos' p'" "start' = dp_start (pc_data p')" "bs' = pc_bytes p'"
    using assms(6) unfolding piece_proven by blast
  note w = proven_walk [OF 1(1) laws(2)] and w' = proven_walk [OF 2(1) laws(2)]
  have e: "q < dp_end (pc_data p)" "q < dp_end (pc_data p')" using q 1 2 w w' by auto
  have "walk_rebased_data_path E (Some (g_data_root g)) q 0 (g_data_size g) (pc_data_path p) (loose (g_data_size g) (rebase_at g pos))
      = Inr (pc_data p)"
    by (rule walk_rebased_stable [where rel = pos and sz = "g_data_size g" and t = pos])
      (use w q 1 e in \<open>simp_all add: rebase_inv_def loose_def\<close>)
  moreover have "walk_rebased_data_path E (Some (g_data_root g)) q 0 (g_data_size g) (pc_data_path p') (loose (g_data_size g) (rebase_at g pos'))
      = Inr (pc_data p')"
    by (rule walk_rebased_stable [where rel = pos' and sz = "g_data_size g" and t = pos'])
      (use w' q 2 e in \<open>simp_all add: rebase_inv_def loose_def\<close>)
  moreover define xs where "xs = pc_bytes p # pc_bytes p' # data_inputs E (rebase_at g pos) (pc_data_path p)
      @ data_inputs E (rebase_at g pos') (pc_data_path p')"
  have "set xs \<subseteq> hashed_inputs E g Ns" using 1(1) 2(1) by (auto simp: xs_def hashed_inputs_def)
  then have cf: "collision_free E xs" unfolding collision_free_def by (rule inj_on_subset [OF laws(3)])
  moreover have "rebase_headers (rebase_at g pos) (pc_data_path p) = rebase_headers (rebase_at g pos') (pc_data_path p')"
    using laws(4) 1 2 q e unfolding same_headers_def by blast
  ultimately have d: "pc_data p = pc_data p'"
    using w e loose_binding [OF laws(1) cf, of "g_data_size g" "rebase_at g pos" "pc_data_path p" "rebase_at g pos'" "pc_data_path p'" q
        "g_data_root g" "pc_data p" "pc_data p'"] by (auto simp: xs_def)
  have "sha256 E [pc_bytes p] = sha256 E [pc_bytes p']" using w w' d by simp
  then have "pc_bytes p = pc_bytes p'" by (rule collision_free_sha [OF cf, rotated 2]) (simp_all add: xs_def)
  then show ?thesis using d 1 2 by simp
qed

section \<open>Reads\<close>

definition source_ok :: "deps \<Rightarrow> Geometry \<Rightarrow> network set \<Rightarrow> ChunkSource \<Rightarrow> bool" where
  "source_ok E g Ns s \<longleftrightarrow> cs_geometry s = g \<and> (\<forall>(start, bs, hash) \<in> set (cs_cached s). piece_of E g Ns start bs)"

lemma stream_fetch_piece:
  assumes "stream_fetch E N g pos = Inr (start, bs, hash)" and "N \<in> Ns"
  shows "piece_of E g Ns start bs \<and> start \<le> pos \<and> pos < start + length bs"
proof -
  obtain absolute f where abs: "checked_add U128 (g_first_offset g) pos = Some absolute"
    and fetch: "fetch_verified_chunk E N absolute (block_geometry g) = Inr (Some f)"
    and c: "check_chunk_geometry (cf_proof f) pos g = Inr ()"
    and r: "start = dp_start (pc_data (cf_proof f))" "bs = pc_bytes (cf_proof f)"
    using assms(1) unfolding stream_fetch_def
    by (simp only: bindE_eq_Inr contextE_eq_Inr ensure_eq_Inr sum.inject prod.inject) auto
  have "absolute = g_first_offset g + pos" using abs by (simp add: checked_add_def split: if_splits)
  then have f: "fetch_verified_chunk E N (g_first_offset g + pos) (block_geometry g) = Inr (Some f)" using fetch by simp
  have a: "accepted E N (block_geometry g) (g_first_offset g + pos) (cf_proof f)" by (rule fetch_accepted [OF f])
  then have "piece_of E g Ns start bs" using c r assms(2) unfolding piece_of_def by blast
  moreover have "start \<le> pos \<and> pos < start + length bs"
  proof -
    obtain ck job where v: "verify_chunk_proof E ck (g_first_offset g + pos) (block_geometry g) job = Inr (cf_proof f)"
      using accepted_paths [OF a] by blast
    have rel: "pc_relative_offset (cf_proof f) = pos" using c by (simp add: check_chunk_geometry_def split: if_splits)
    show ?thesis
    proof (rule verify_chunk_proof_steps [OF v], goal_cases)
      case 1
      show ?thesis using 1(6,7,9) rel unfolding r by linarith
    qed
  qed
  ultimately show ?thesis by blast
qed

lemma remember_set: "set (remember c cached) \<subseteq> insert c (set cached)"
proof -
  have "set (remove_start x cs) \<subseteq> set cs" for x cs by (induction cs) auto
  then show ?thesis by (auto simp: remember_def Let_def dest!: in_set_butlastD)
qed

lemma chunk_at_piece:
  assumes "source_ok E g Ns s" and "N \<in> Ns" and "chunk_at E N s pos = (r, s')"
  shows "source_ok E g Ns s' \<and> (\<forall>start bs. r = Inr (start, bs) \<longrightarrow>
    piece_of E g Ns start bs \<and> start \<le> pos \<and> pos < start + length bs)"
proof (cases "case List.find (covers pos) (cs_cached s) of Some chunk \<Rightarrow> Inr chunk
    | None \<Rightarrow> stream_fetch E N (cs_geometry s) pos")
  case (Inl e)
  then have "r = Inl e" "s' = s" using assms(3) by (simp_all add: chunk_at_def)
  then show ?thesis using assms(1) by simp
next
  case (Inr c)
  obtain start bs hash where c: "c = (start, bs, hash)" by (cases c)
  have p: "piece_of E g Ns start bs \<and> start \<le> pos \<and> pos < start + length bs"
  proof (cases "List.find (covers pos) (cs_cached s)")
    case None
    then show ?thesis using Inr c assms(1,2) stream_fetch_piece by (auto simp: source_ok_def)
  next
    case (Some x)
    then have "x = c" using Inr by simp
    then have "c \<in> set (cs_cached s)" "covers pos c" using Some by (auto simp: find_Some_iff)
    then show ?thesis using assms(1) c by (auto simp: source_ok_def covers_def)
  qed
  have "source_ok E g Ns (s\<lparr>cs_cached := remember (start, bs, hash) (cs_cached s)\<rparr>)"
    using assms(1) p remember_set [of "(start, bs, hash)" "cs_cached s"] by (auto simp: source_ok_def)
  then show ?thesis using assms(3) Inr c p by (auto simp: chunk_at_def)
qed

text \<open>Every byte of a result is the byte of a piece.\<close>

definition read_from :: "deps \<Rightarrow> Geometry \<Rightarrow> network set \<Rightarrow> nat \<Rightarrow> bytes \<Rightarrow> bool" where
  "read_from E g Ns offset out \<longleftrightarrow> (\<forall>i < length out. \<exists>start bs. piece_of E g Ns start bs \<and> start \<le> offset + i
     \<and> offset + i < start + length bs \<and> out ! i = bs ! (offset + i - start))"

lemma read_from_append:
  assumes "read_from E g Ns offset out" and "piece_of E g Ns start bs" and "start \<le> offset + length out"
  shows "read_from E g Ns offset (out @ take k (drop (offset + length out - start) bs))"
  unfolding read_from_def
proof (intro allI impI)
  fix i assume i: "i < length (out @ take k (drop (offset + length out - start) bs))"
  show "\<exists>st bs'. piece_of E g Ns st bs' \<and> st \<le> offset + i \<and> offset + i < st + length bs'
      \<and> (out @ take k (drop (offset + length out - start) bs)) ! i = bs' ! (offset + i - st)"
  proof (cases "i < length out")
    case True
    then show ?thesis using assms(1) by (simp add: read_from_def nth_append)
  next
    case False
    have j: "offset + length out - start + (i - length out) = offset + i - start" using False assms(3) by simp
    show ?thesis
      by (rule exI [of _ start], rule exI [of _ bs]) (use False assms(2,3) i j in \<open>auto simp: nth_append\<close>)
  qed
qed

lemma read_loop_pieces:
  "read_loop E N s pos stop out = (r, s') \<Longrightarrow> N \<in> Ns \<Longrightarrow> source_ok E g Ns s \<Longrightarrow> pos = offset + length out \<Longrightarrow> pos \<le> stop \<Longrightarrow>
    read_from E g Ns offset out \<Longrightarrow>
    source_ok E g Ns s' \<and> (\<forall>b. r = Inr b \<longrightarrow> offset + length b = stop \<and> read_from E g Ns offset b)"
proof (induction E N s pos stop out rule: read_loop.induct)
  case (1 E N s pos stop out)
  show ?case
  proof (cases "pos < stop")
    case False
    then show ?thesis using "1.prems" by (auto simp: read_loop.simps)
  next
    case True
    obtain c s1 where ca: "chunk_at E N s pos = (c, s1)" by (cases "chunk_at E N s pos")
    note ok = chunk_at_piece [OF "1.prems"(3,2) ca]
    show ?thesis
    proof (cases c)
      case (Inl e)
      then show ?thesis using "1.prems"(1) True ca ok by (auto simp: read_loop.simps [of E N s])
    next
      case (Inr x)
      obtain start bs where x: "x = (start, bs)" by (cases x)
      note p = ok [unfolded Inr x, simplified]
      show ?thesis
      proof (cases "stream_piece pos stop start bs")
        case (Inl e)
        then show ?thesis using "1.prems"(1) True ca Inr x ok by (auto simp: read_loop.simps [of E N s])
      next
        case (Inr piece)
        have run: "read_loop E N s1 (pos + length piece) stop (out @ piece) = (r, s')"
          using "1.prems"(1) True ca \<open>c = Inr x\<close> x Inr by (simp add: read_loop.simps [of E N s])
        have pc: "piece = take (stop - pos) (drop (pos - start) bs)" "start \<le> pos"
          using Inr by (simp_all add: stream_piece_eq)
        have rf: "read_from E g Ns offset (out @ piece)"
          using read_from_append [OF "1.prems"(6) conjunct1 [OF conjunct2 [OF p]]] pc "1.prems"(4) by simp
        show ?thesis
          by (rule "1.IH" [OF True ca [symmetric] \<open>c = Inr x\<close> x [symmetric] Inr run "1.prems"(2) _ _ _ rf])
            (use p "1.prems"(4) stream_piece_length [OF Inr] in auto)
      qed
    qed
  qed
qed

lemma stream_read_at_pieces:
  assumes "source_ok E g Ns s" and "N \<in> Ns" and "stream_read_at E N s offset n = (r, s')"
  shows "source_ok E g Ns s' \<and> (\<forall>b. r = Inr b \<longrightarrow> length b = n \<and> read_from E g Ns offset b)"
proof (cases "offset + n < USIZE \<and> offset + n \<le> g_data_size (cs_geometry s)")
  case True
  then have "read_loop E N s offset (offset + n) [] = (r, s')"
    using assms(3) by (simp add: stream_read_at_def checked_add_def)
  from read_loop_pieces [OF this assms(2,1), of offset] show ?thesis by (auto simp: read_from_def)
next
  case False
  then have "s' = s" "\<forall>b. r \<noteq> Inr b"
    using assms(3) by (auto simp: stream_read_at_def checked_add_def split: if_splits)
  then show ?thesis using assms(1) by simp
qed

text \<open>Reads one after the other, each against whatever the network answers then.\<close>

fun stream_reads :: "deps \<Rightarrow> ChunkSource \<Rightarrow> (network \<times> nat \<times> nat) list \<Rightarrow> bytes res list" where
  "stream_reads E s [] = []"
| "stream_reads E s ((N, offset, n) # reads) =
     (case stream_read_at E N s offset n of (r, s') \<Rightarrow> r # stream_reads E s' reads)"

lemma stream_reads_pieces:
  "source_ok E g Ns s \<Longrightarrow> fst ` set reads \<subseteq> Ns \<Longrightarrow> ((N, offset, n), Inr b) \<in> set (zip reads (stream_reads E s reads)) \<Longrightarrow>
     length b = n \<and> read_from E g Ns offset b"
proof (induction reads arbitrary: s)
  case (Cons x reads)
  obtain N0 o0 n0 where x: "x = (N0, o0, n0)" by (cases x)
  obtain r s' where r: "stream_read_at E N0 s o0 n0 = (r, s')" by (cases "stream_read_at E N0 s o0 n0")
  have "N0 \<in> Ns" using Cons.prems(2) x by auto
  note ok = stream_read_at_pieces [OF Cons.prems(1) this r]
  from Cons.prems(3) consider "(N, offset, n) = x" "r = Inr b"
    | "((N, offset, n), Inr b) \<in> set (zip reads (stream_reads E s' reads))"
    by (auto simp: x r)
  then show ?case
  proof cases
    case 1
    then show ?thesis using ok x by auto
  next
    case 2
    show ?thesis by (rule Cons.IH [OF conjunct1 [OF ok] _ 2]) (use Cons.prems(2) in auto)
  qed
qed simp

lemma source_ok_new: "source_ok E g Ns (source_new g)"
  by (simp add: source_ok_def source_new_def)

lemma piece_of_mono: "piece_of E g Ns start bs \<Longrightarrow> Ns \<subseteq> Ns' \<Longrightarrow> piece_of E g Ns' start bs"
  unfolding piece_of_def by blast

lemma read_from_agree:
  assumes laws: "hash_widths E" "g_block_weave_size g < U128" "inj_on (x_sha256 E) (hashed_inputs E g Ns)" "same_headers E g Ns"
    and "read_from E g Ns offset b" "read_from E g Ns offset' b'"
    and q: "offset \<le> q" "q < offset + length b" "offset' \<le> q" "q < offset' + length b'"
  shows "b ! (q - offset) = b' ! (q - offset')"
proof -
  have at: "\<exists>start bs. piece_of E g Ns start bs \<and> start \<le> q \<and> q < start + length bs \<and> b ! (q - offset) = bs ! (q - start)"
    if "read_from E g Ns offset b" "offset \<le> q" "q < offset + length b" for offset b
  proof -
    have "q - offset < length b" "offset + (q - offset) = q" using that(2,3) by auto
    with that(1) show ?thesis unfolding read_from_def by metis
  qed
  obtain start bs where 1: "piece_of E g Ns start bs" "start \<le> q" "q < start + length bs" "b ! (q - offset) = bs ! (q - start)"
    using at [OF assms(5) q(1,2)] by blast
  obtain start' bs' where 2: "piece_of E g Ns start' bs'" "start' \<le> q" "q < start' + length bs'" "b' ! (q - offset') = bs' ! (q - start')"
    using at [OF assms(6) q(3,4)] by blast
  show ?thesis using pieces_agree [OF laws 1(1) 2(1) 1(2,3) 2(2,3)] 1(4) 2(4) by simp
qed

text \<open>C21. A streamed content is one content: however often it is read, in whatever ranges, from whatever mixture of
  peers and cached files and with whatever answers in between, by one source or by two, successful reads have
  the length asked for and agree on every byte they share, unless SHA-256, of 32 bytes, collides on two nodes of the
  accepted data paths or two accepted chunks.  A content that ends at or behind the rebase threshold, where a root
  may be read with and without rebase headers, is taken with data paths of equally many headers at each byte.  The weave size of the block is a \<open>u128\<close>.\<close>

theorem streamed_reads_agree:
  assumes "hash_widths E" and "g_block_weave_size g < U128" and "Ns = fst ` set (reads @ reads')"
    and "inj_on (x_sha256 E) (hashed_inputs E g Ns)"
    and "g_end_offset g < MERKLE_REBASE_SUPPORT_THRESHOLD \<or> same_headers E g Ns"
    and "((N, offset, n), Inr b) \<in> set (zip reads (stream_reads E (source_new g) reads))"
    and "((N', offset', n'), Inr b') \<in> set (zip reads' (stream_reads E (source_new g) reads'))"
    and "offset \<le> q" "q < offset + n" "offset' \<le> q" "q < offset' + n'"
  shows "length b = n \<and> length b' = n' \<and> b ! (q - offset) = b' ! (q - offset')"
proof -
  have 1: "length b = n \<and> read_from E g Ns offset b"
    by (rule stream_reads_pieces [OF source_ok_new _ assms(6)]) (auto simp: assms(3))
  have 2: "length b' = n' \<and> read_from E g Ns offset' b'"
    by (rule stream_reads_pieces [OF source_ok_new _ assms(7)]) (auto simp: assms(3))
  have "same_headers E g Ns" using assms(5) same_headers_below [OF _ assms(2)] by blast
  from read_from_agree [OF assms(1,2,4) this conjunct2 [OF 1] conjunct2 [OF 2], of q] show ?thesis using 1 2 assms(8-) by simp
qed

section \<open>Reading ahead\<close>

text \<open>Reads that return the chunk of their position in a partition of the content.\<close>

definition chunked :: "(nat \<Rightarrow> (nat \<times> bytes) res) \<Rightarrow> nat \<Rightarrow> bool" where
  "chunked read sz \<longleftrightarrow> (\<forall>pos < sz. \<exists>start bs. read pos = Inr (start, bs) \<and> start \<le> pos \<and> pos < start + length bs
     \<and> length bs \<le> MAX_CHUNK_SIZE \<and> start + length bs \<le> sz
     \<and> (\<forall>q. start \<le> q \<and> q < start + length bs \<longrightarrow> read q = Inr (start, bs)))"

definition byte_of :: "(nat \<Rightarrow> (nat \<times> bytes) res) \<Rightarrow> nat \<Rightarrow> byte" where
  "byte_of read q = (case read q of Inr (start, bs) \<Rightarrow> bs ! (q - start) | Inl _ \<Rightarrow> 0)"

lemma chunkedE:
  assumes "chunked read sz" and "pos < sz"
  obtains start bs where "read pos = Inr (start, bs)" "start \<le> pos" "pos < start + length bs"
    "length bs \<le> MAX_CHUNK_SIZE" "start + length bs \<le> sz"
    "\<forall>q. start \<le> q \<and> q < start + length bs \<longrightarrow> read q = Inr (start, bs)"
  using assms unfolding chunked_def by blast

lemma chunk_bytes:
  assumes "\<forall>q. start \<le> q \<and> q < start + length bs \<longrightarrow> read q = Inr (start, bs)"
    and "start \<le> pos" and "pos < start + length bs"
  shows "take (stop - pos) (drop (pos - start) bs) = map (byte_of read) [pos..<min stop (start + length bs)]"
proof (rule nth_equalityI)
  show "length (take (stop - pos) (drop (pos - start) bs)) = length (map (byte_of read) [pos..<min stop (start + length bs)])"
    using assms(2,3) by (simp add: min_def) arith
next
  fix i assume "i < length (take (stop - pos) (drop (pos - start) bs))"
  then have i: "pos + i < stop" "pos + i < start + length bs" using assms(2) by auto
  have "read (pos + i) = Inr (start, bs)" using assms(1,2) i by auto
  moreover have "pos - start + i = pos + i - start" using assms(2) by simp
  ultimately show "take (stop - pos) (drop (pos - start) bs) ! i = map (byte_of read) [pos..<min stop (start + length bs)] ! i"
    using i by (simp add: byte_of_def)
qed

text \<open>The chunk taken next never lies behind the position, and the position never passes the next reading point.\<close>

lemma ahead_loop_exact:
  fixes offset :: nat
  assumes ch: "chunked read sz" and "stop \<le> sz"
  defines "P \<equiv> \<lambda>k. offset + k * MAX_CHUNK_SIZE"
  assumes below: "\<And>k. k < K \<Longrightarrow> P k < stop"
  shows "pos \<le> stop \<Longrightarrow> (case upcoming of None \<Rightarrow> k < K \<longrightarrow> pos \<le> P k
      | Some c \<Rightarrow> \<exists>j. k = Suc j \<and> j < K \<and> read (P j) = Inr c \<and> pos \<le> P j) \<Longrightarrow> k \<le> K \<Longrightarrow>
    ahead_loop read (map P [k..<K]) upcoming pos stop = Inr (map (byte_of read) [pos..<stop])"
proof (induction "stop - pos" arbitrary: pos upcoming k rule: less_induct)
  case less
  show ?case
  proof (cases "pos = stop")
    case True
    then show ?thesis by (simp add: ahead_loop.simps)
  next
    case False
    then have pos: "pos < stop" "pos < sz" using less.prems(1) assms(2) by auto
    \<comment> \<open>after the reading point is taken up\<close>
    obtain up k' where nx: "ahead_next read (map P [k..<K]) upcoming = Inr (up, map P [k'..<K])" and "k' \<le> K"
      and up: "case up of None \<Rightarrow> k' = K | Some c \<Rightarrow> \<exists>j. k' = Suc j \<and> j < K \<and> read (P j) = Inr c \<and> pos \<le> P j"
    proof (cases "upcoming = None \<and> k < K")
      case True
      then have "P k < sz" using below [of k] assms(2) by simp
      then obtain c where c: "read (P k) = Inr c" using chunkedE [OF ch] by metis
      have "ahead_next read (map P [k..<K]) upcoming = Inr (Some c, map P [Suc k..<K])"
        using True c by (simp add: ahead_next_def upt_conv_Cons)
      then show thesis using True c less.prems(2) by (intro that [of "Some c" "Suc k"]) auto
    next
      case False
      then have "ahead_next read (map P [k..<K]) upcoming = Inr (upcoming, map P [k..<K])"
        using less.prems(3) by (auto simp: ahead_next_def split: option.splits list.splits)
      then show thesis using False less.prems(2,3) by (intro that [of upcoming k]) (auto split: option.splits)
    qed
    obtain start bs where c: "read pos = Inr (start, bs)" "start \<le> pos" "pos < start + length bs"
      "length bs \<le> MAX_CHUNK_SIZE" "start + length bs \<le> sz"
      and stable: "\<forall>q. start \<le> q \<and> q < start + length bs \<longrightarrow> read q = Inr (start, bs)"
      by (rule chunkedE [OF ch pos(2)])
    define next_pos where "next_pos = min stop (start + length bs)"
    \<comment> \<open>whichever chunk is taken, it is the one of the position\<close>
    obtain up' where tk: "ahead_take read pos up = Inr ((start, bs), up')"
      and up': "case up' of None \<Rightarrow> k' < K \<longrightarrow> next_pos \<le> P k'
        | Some c \<Rightarrow> \<exists>j. k' = Suc j \<and> j < K \<and> read (P j) = Inr c \<and> next_pos \<le> P j"
    proof (cases up)
      case None
      then show thesis using c up by (intro that [of None]) (auto simp: ahead_take_def)
    next
      case (Some x)
      obtain st bs' where x: "x = (st, bs')" by (cases x)
      obtain j where j: "k' = Suc j" "j < K" "read (P j) = Inr (st, bs')" "pos \<le> P j" using up Some x by auto
      have "P j < sz" using below [OF j(2)] assms(2) by simp
      obtain st2 bs2 where r: "read (P j) = Inr (st2, bs2)" "st2 \<le> P j" "P j < st2 + length bs2" "length bs2 \<le> MAX_CHUNK_SIZE"
        and rs: "\<forall>q. st2 \<le> q \<and> q < st2 + length bs2 \<longrightarrow> read q = Inr (st2, bs2)"
        by (rule chunkedE [OF ch \<open>P j < sz\<close>])
      have e: "st2 = st" "bs2 = bs'" using r(1) j(3) by auto
      show thesis
      proof (cases "st \<le> pos")
        case True
        then have "read pos = Inr (st, bs')" using rs r j(4) e by simp
        then have "st = start" "bs' = bs" using c by auto
        moreover have "next_pos \<le> P k'" using r e calculation j(1) by (simp add: next_pos_def P_def)
        ultimately show thesis using True Some x by (intro that [of None]) (auto simp: ahead_take_def)
      next
        case False
        have "\<not> st < start + length bs"
        proof
          assume "st < start + length bs"
          then have "read st = Inr (start, bs)" using stable False c(2) by simp
          moreover have "st < st + length bs'" using r(2,3) unfolding e by linarith
          then have "read st = Inr (st, bs')" using rs unfolding e by blast
          ultimately show False using False c(2) by auto
        qed
        then have "next_pos \<le> P j" using r(2) e by (simp add: next_pos_def)
        then show thesis using False Some x c j by (intro that [of "Some x"]) (auto simp: ahead_take_def)
      qed
    qed
    define piece where "piece = take (stop - pos) (drop (pos - start) bs)"
    have pc: "ahead_piece pos stop start bs = Inr piece" using c pos by (simp add: ahead_piece_eq piece_def)
    have np: "pos + length piece = next_pos" "pos < next_pos" "next_pos \<le> stop"
      using c(2,3) pos by (auto simp: piece_def next_pos_def)
    have rest: "ahead_loop read (map P [k'..<K]) up' next_pos stop = Inr (map (byte_of read) [next_pos..<stop])"
      by (rule less.hyps) (use np up' \<open>k' \<le> K\<close> in auto)
    have "piece = map (byte_of read) [pos..<next_pos]"
      unfolding piece_def next_pos_def by (rule chunk_bytes [OF stable c(2,3)])
    moreover have "[pos..<stop] = [pos..<next_pos] @ [next_pos..<stop]"
      using np upt_add_eq_append [of pos next_pos "stop - next_pos"] by simp
    ultimately show ?thesis
      using False nx tk pc rest np(1) by (simp add: ahead_loop.simps [of read "map P [k..<K]"])
  qed
qed

lemma read_ahead_exact:
  assumes "chunked read (g_data_size g)" and "offset + n < USIZE" and "offset + n \<le> g_data_size g"
  shows "read_ahead read g offset n = Inr (map (byte_of read) [offset..<offset + n])"
proof -
  let ?K = "(n + MAX_CHUNK_SIZE - 1) div MAX_CHUNK_SIZE"
  have "k * MAX_CHUNK_SIZE < n" if "k < ?K" for k
  proof -
    have "Suc k * MAX_CHUNK_SIZE \<le> n + MAX_CHUNK_SIZE - 1"
      using that by (metis Suc_leI div_times_less_eq_dividend le_trans mult_le_mono1)
    then show ?thesis by (simp add: MAX_CHUNK_SIZE_def)
  qed
  then have "ahead_loop read (map (\<lambda>k. offset + k * MAX_CHUNK_SIZE) [0..<?K]) None offset (offset + n)
      = Inr (map (byte_of read) [offset..<offset + n])"
    by (intro ahead_loop_exact [OF assms(1,3)]) auto
  then show ?thesis using assms(2,3) by (simp add: read_ahead_def ahead_positions_def checked_add_def)
qed

text \<open>The state of a source after some reads.\<close>

fun source_after :: "deps \<Rightarrow> ChunkSource \<Rightarrow> (network \<times> nat \<times> nat) list \<Rightarrow> ChunkSource" where
  "source_after E s [] = s"
| "source_after E s ((N, offset, n) # reads) = source_after E (snd (stream_read_at E N s offset n)) reads"

lemma source_after_ok: "source_ok E g Ns s \<Longrightarrow> fst ` set reads \<subseteq> Ns \<Longrightarrow> source_ok E g Ns (source_after E s reads)"
proof (induction reads arbitrary: s)
  case (Cons x reads)
  obtain N0 o0 n0 where x: "x = (N0, o0, n0)" by (cases x)
  obtain r s' where r: "stream_read_at E N0 s o0 n0 = (r, s')" by (cases "stream_read_at E N0 s o0 n0")
  have "N0 \<in> Ns" using Cons.prems(2) x by auto
  from stream_read_at_pieces [OF Cons.prems(1) this r] show ?case using Cons x r by simp
qed simp

lemma chunk_at_available:
  assumes "source_ok E g Ns s" and "\<exists>c. stream_fetch E N g pos = Inr c"
  shows "\<exists>start bs. fst (chunk_at E N s pos) = Inr (start, bs)"
proof -
  obtain c where "(case List.find (covers pos) (cs_cached s) of Some chunk \<Rightarrow> Inr chunk
    | None \<Rightarrow> stream_fetch E N (cs_geometry s) pos) = Inr c"
    using assms by (cases "List.find (covers pos) (cs_cached s)") (force simp: source_ok_def)+
  then show ?thesis by (cases c) (simp add: chunk_at_def)
qed

lemma read_loop_available:
  "source_ok E g Ns s \<Longrightarrow> N \<in> Ns \<Longrightarrow> \<forall>pos < stop. \<exists>c. stream_fetch E N g pos = Inr c \<Longrightarrow>
     \<exists>b. fst (read_loop E N s pos stop out) = Inr b"
proof (induction E N s pos stop out rule: read_loop.induct)
  case (1 E N s pos stop out)
  show ?case
  proof (cases "pos < stop")
    case False
    then show ?thesis by (simp add: read_loop.simps)
  next
    case True
    obtain c s1 where ca: "chunk_at E N s pos = (c, s1)" by (cases "chunk_at E N s pos")
    obtain start bs where c: "c = Inr (start, bs)"
      using chunk_at_available [OF "1.prems"(1), of N pos] "1.prems"(3) True ca by auto
    note ok = chunk_at_piece [OF "1.prems"(1,2) ca, unfolded c, simplified]
    obtain piece where pc: "stream_piece pos stop start bs = Inr piece"
      using ok True by (simp add: stream_piece_eq)
    from "1.IH" [OF True ca [symmetric] c refl pc] ok "1.prems"(2,3)
    obtain b where "fst (read_loop E N s1 (pos + length piece) stop (out @ piece)) = Inr b" by blast
    then show ?thesis using True ca c pc by (simp add: read_loop.simps [of E N s])
  qed
qed

lemma available_chunk:
  assumes "g_block_weave_size g < U128" and "source_ok E g Ns s" and "N \<in> Ns" and "\<exists>c. stream_fetch E N g pos = Inr c"
  shows "\<exists>start bs. fst (chunk_at E N s pos) = Inr (start, bs) \<and> piece_of E g Ns start bs \<and> start \<le> pos \<and> pos < start + length bs"
proof -
  obtain start bs where c: "fst (chunk_at E N s pos) = Inr (start, bs)" using chunk_at_available [OF assms(2,4)] by blast
  then have "chunk_at E N s pos = (Inr (start, bs), snd (chunk_at E N s pos))" by (simp add: prod_eq_iff)
  from chunk_at_piece [OF assms(2,3) this] c show ?thesis by blast
qed

text \<open>A reader that finds a piece at every position of the data.\<close>

definition piecewise :: "deps \<Rightarrow> Geometry \<Rightarrow> network set \<Rightarrow> (nat \<Rightarrow> (nat \<times> bytes) res) \<Rightarrow> bool" where
  "piecewise E g Ns read \<longleftrightarrow> (\<forall>pos < g_data_size g. \<exists>start bs. read pos = Inr (start, bs) \<and> piece_of E g Ns start bs
     \<and> start \<le> pos \<and> pos < start + length bs)"

lemma piecewise_chunked:
  assumes "hash_widths E" and "g_block_weave_size g < U128" and "inj_on (x_sha256 E) (hashed_inputs E g Ns)" and "same_headers E g Ns"
    and "piecewise E g Ns read"
  shows "chunked read (g_data_size g)"
  unfolding chunked_def
proof (intro allI impI)
  fix pos assume "pos < g_data_size g"
  then obtain start bs where r: "read pos = Inr (start, bs)" "piece_of E g Ns start bs" "start \<le> pos" "pos < start + length bs"
    using assms(5) unfolding piecewise_def by blast
  have b: "length bs \<le> MAX_CHUNK_SIZE" "start + length bs \<le> g_data_size g" using piece_bounds [OF r(2) assms(2)] by auto
  have "read q = Inr (start, bs)" if q: "start \<le> q" "q < start + length bs" for q
  proof -
    obtain start' bs' where r': "read q = Inr (start', bs')" "piece_of E g Ns start' bs'" "start' \<le> q" "q < start' + length bs'"
      using assms(5) q b unfolding piecewise_def by (meson less_le_trans)
    show ?thesis using pieces_agree [OF assms(1-4) r(2) r'(2) q r'(3,4)] r'(1) by simp
  qed
  then show "\<exists>start bs. read pos = Inr (start, bs) \<and> start \<le> pos \<and> pos < start + length bs
     \<and> length bs \<le> MAX_CHUNK_SIZE \<and> start + length bs \<le> g_data_size g
     \<and> (\<forall>q. start \<le> q \<and> q < start + length bs \<longrightarrow> read q = Inr (start, bs))" using r b by blast
qed

lemma piecewise_bytes:
  assumes "piecewise E g Ns read" and "offset + n \<le> g_data_size g"
  shows "read_from E g Ns offset (map (byte_of read) [offset..<offset + n])"
  unfolding read_from_def
proof (intro allI impI)
  fix i assume "i < length (map (byte_of read) [offset..<offset + n])"
  then have i: "i < n" by simp
  then obtain start bs where "read (offset + i) = Inr (start, bs)" "piece_of E g Ns start bs" "start \<le> offset + i"
    "offset + i < start + length bs" using assms unfolding piecewise_def by (meson nat_add_left_cancel_less less_le_trans)
  then show "\<exists>start bs. piece_of E g Ns start bs \<and> start \<le> offset + i \<and> offset + i < start + length bs
      \<and> map (byte_of read) [offset..<offset + n] ! i = bs ! (offset + i - start)"
    using i by (auto simp: byte_of_def)
qed

lemma stream_read_available:
  assumes "N \<in> Ns" and "\<forall>pos < g_data_size g. \<exists>c. stream_fetch E N g pos = Inr c"
    and "offset + n < USIZE" and "offset + n \<le> g_data_size g"
  shows "\<exists>b. fst (stream_read_at E N (source_new g) offset n) = Inr b \<and> length b = n \<and> read_from E g Ns offset b"
proof -
  obtain r s' where rd: "stream_read_at E N (source_new g) offset n = (r, s')"
    by (cases "stream_read_at E N (source_new g) offset n")
  have "\<exists>b. fst (read_loop E N (source_new g) offset (offset + n) []) = Inr b"
    by (rule read_loop_available [OF source_ok_new assms(1)]) (use assms(2,4) in auto)
  then obtain b where "r = Inr b" using rd assms(3,4) by (auto simp: stream_read_at_def checked_add_def source_new_def)
  then show ?thesis using stream_read_at_pieces [OF source_ok_new assms(1) rd] rd by auto
qed

text \<open>C22. Reading ahead is reading: when every chunk of the content can be fetched, the concurrent reader, whose tasks
  find the source in whatever state other reads left it, ends without running past a chunk and returns what the
  sequential read of a range of the content returns, with the length asked for, unless SHA-256, of 32 bytes,
  collides on two nodes of the accepted data paths or two accepted chunks; at or behind the rebase threshold the
  accepted data paths have equally many rebase headers at each byte, as in the property before.  The weave size of
  the block is a \<open>u128\<close>, the end of the range a \<open>usize\<close>.\<close>

theorem read_ahead_sequential:
  assumes "hash_widths E" and "g_block_weave_size g < U128" and "Ns = insert N (\<Union>pos. fst ` set (reads pos))"
    and "inj_on (x_sha256 E) (hashed_inputs E g Ns)"
    and "g_end_offset g < MERKLE_REBASE_SUPPORT_THRESHOLD \<or> same_headers E g Ns"
    and "\<forall>pos < g_data_size g. \<exists>c. stream_fetch E N g pos = Inr c"
    and "offset + n < USIZE" and "offset + n \<le> g_data_size g"
  shows "\<exists>b. read_ahead (\<lambda>pos. fst (chunk_at E N (source_after E (source_new g) (reads pos)) pos)) g offset n = Inr b
    \<and> fst (stream_read_at E N (source_new g) offset n) = Inr b \<and> length b = n"
proof -
  define read where "read = (\<lambda>pos. fst (chunk_at E N (source_after E (source_new g) (reads pos)) pos))"
  have N: "N \<in> Ns" by (simp add: assms(3))
  have sh: "same_headers E g Ns" using assms(5) same_headers_below [OF _ assms(2)] by blast
  have "source_ok E g Ns (source_after E (source_new g) (reads pos))" for pos
    by (rule source_after_ok [OF source_ok_new]) (auto simp: assms(3))
  then have p: "piecewise E g Ns read"
    using available_chunk [OF assms(2) _ N] assms(6) by (simp add: piecewise_def read_def)
  note ahead = read_ahead_exact [OF piecewise_chunked [OF assms(1,2,4) sh p] assms(7,8)]
  obtain b where b: "fst (stream_read_at E N (source_new g) offset n) = Inr b" "length b = n" "read_from E g Ns offset b"
    using stream_read_available [OF N assms(6-8)] by blast
  have "b = map (byte_of read) [offset..<offset + n]"
  proof (rule nth_equalityI)
    fix i assume "i < length b"
    then show "b ! i = map (byte_of read) [offset..<offset + n] ! i"
      using read_from_agree [OF assms(1,2,4) sh b(3) piecewise_bytes [OF p assms(8)], of "offset + i"] b(2) by simp
  qed (use b in simp)
  then show ?thesis using ahead b by (simp add: read_def)
qed

section \<open>A network with one peer\<close>

definition s_geometry :: Geometry where
  "s_geometry = \<lparr>g_tx_root = s_tx_root, g_data_root = s_data_root, g_block_weave_size = 1005, g_previous_weave_size = 1000,
     g_first_offset = 1003, g_end_offset = 1005, g_data_size = 3\<rparr>"

definition s_network :: network where
  "s_network = \<lparr>n_rows = \<lambda>off g. [], n_file = \<lambda>h. Inr None, n_forget = \<lambda>e. Inr (),
     n_chunks = \<lambda>off. [(''slow'', ChunkMissing), (''peer'', ChunkAnswer s_proof s_replica)], n_host = \<lambda>source. Inr source\<rparr>"

definition s_inputs :: "bytes list" where
  "s_inputs = path_inputs sample s_tx_path @ path_inputs sample s_data_path @ [s_chunk]"

lemma s_block_geometry: "block_geometry s_geometry = s_block"
  by (simp add: block_geometry_def s_geometry_def s_block_def)

lemma s_accepted: "accepted sample s_network s_block off p \<Longrightarrow> verify_chunk_proof sample s_proof off s_block None = Inr p"
  by (auto simp: accepted_def offered_def s_network_def request_job_def s_proof_def)

lemma s_hashed: "inj_on (x_sha256 sample) (hashed_inputs sample s_geometry {s_network})"
proof (rule inj_on_subset)
  show "inj_on (x_sha256 sample) (set s_inputs)" using s_free by (simp add: collision_free_def s_inputs_def)
  show "hashed_inputs sample s_geometry {s_network} \<subseteq> set s_inputs"
  proof
    fix x assume "x \<in> hashed_inputs sample s_geometry {s_network}"
    then obtain pos p where p: "proven_at sample s_geometry {s_network} pos p"
      "x \<in> set (pc_bytes p # data_inputs sample (rebase_at s_geometry pos) (pc_data_path p))" unfolding hashed_inputs_def by blast
    then have "accepted sample s_network s_block (g_first_offset s_geometry + pos) p"
      by (simp add: proven_at_def s_block_geometry)
    then have "verify_chunk_proof sample s_proof (g_first_offset s_geometry + pos) s_block None = Inr p" by (rule s_accepted)
    then have "pc_data_path p = s_data_path" "pc_bytes p = s_chunk"
      by (rule verify_chunk_proof_steps; simp add: s_proof_def)+
    moreover have "\<not> rebase_at s_geometry pos"
      using proven_walk [OF p(1)] by (simp add: rebase_at_def s_geometry_def U128_value MERKLE_REBASE_SUPPORT_THRESHOLD_def)
    ultimately show "x \<in> set s_inputs" using p(2) by (auto simp: s_inputs_def s_data_inputs)
  qed
qed

lemma s_limits: "g_block_weave_size s_geometry < U128" "g_end_offset s_geometry < MERKLE_REBASE_SUPPORT_THRESHOLD"
  by (simp_all add: s_geometry_def U128_value MERKLE_REBASE_SUPPORT_THRESHOLD_def)

lemma s_fetch_verified:
  assumes "pos < 3"
  shows "fetch_verified_chunk sample s_network (1003 + pos) s_block
    = Inr (Some \<lparr>cf_proof = s_proven\<lparr>pc_relative_offset := pos\<rparr>, cf_source_host = ''peer'', cf_cache_hit = False\<rparr>)"
proof -
  have "verify_chunk_proof sample s_proof (1003 + pos) s_block None = Inr (s_proven\<lparr>pc_relative_offset := pos\<rparr>)"
    by (rule verify_chunk_proof_stable [OF s_verify])
      (use assms in \<open>simp_all add: s_block_def s_proven_def s_data_def U128_value data_context_def
         MERKLE_REBASE_SUPPORT_THRESHOLD_def STRICT_DATA_SPLIT_THRESHOLD_def\<close>)
  then show ?thesis by (simp add: fetch_verified_chunk_def s_network_def cpu_work_def request_job_def s_proof_def)
qed

lemma s_fetch:
  assumes "pos < 3"
  shows "stream_fetch sample s_network s_geometry pos = Inr (0, s_chunk, sha256 sample [s_chunk])"
  using assms s_fetch_verified [OF assms]
  by (simp add: stream_fetch_def s_geometry_def checked_add_def U128_value U64_def
      block_geometry_def s_block_def [symmetric] check_chunk_geometry_def s_proven_def s_tx_def s_data_def)

lemma s_chunk_at:
  "pos < 3 \<Longrightarrow> chunk_at sample s_network (source_new s_geometry) pos
     = (Inr (0, s_chunk), \<lparr>cs_geometry = s_geometry, cs_cached = [(0, s_chunk, sha256 sample [s_chunk])]\<rparr>)"
  by (simp add: chunk_at_def source_new_def s_fetch remember_def)

lemma s_reads:
  "stream_reads sample (source_new s_geometry) [(s_network, 0, 3)] = [Inr s_chunk]"
  "stream_reads sample (source_new s_geometry) [(s_network, 1, 2)] = [Inr [2, 3]]"
  by (simp_all add: stream_read_at_def checked_add_def U64_def source_new_def s_geometry_def
      s_chunk_at [unfolded source_new_def s_geometry_def] read_loop.simps stream_piece_eq s_chunk_def
      stream_piece_def subE_def slice_def sub_bytes_def)

theorem streamed_reads_agree_witness: "length s_chunk = 3 \<and> length [2 :: byte, 3] = 2 \<and> s_chunk ! (2 - 0) = [2 :: byte, 3] ! (2 - 1)"
  by (rule streamed_reads_agree [OF sample_widths s_limits(1), of "{s_network}" "[(s_network, 0, 3)]" "[(s_network, 1, 2)]"
        s_network 0 3 s_chunk s_network 1 2 "[2, 3]" 2])
    (unfold s_reads, simp_all add: s_hashed s_limits)

theorem read_ahead_sequential_witness:
  "\<exists>b. read_ahead (\<lambda>pos. fst (chunk_at sample s_network (source_after sample (source_new s_geometry) [(s_network, pos, 1)]) pos))
      s_geometry 1 2 = Inr b
    \<and> fst (stream_read_at sample s_network (source_new s_geometry) 1 2) = Inr b \<and> length b = 2"
  by (rule read_ahead_sequential [OF sample_widths s_limits(1), of "{s_network}"])
    (auto simp: s_hashed s_limits s_fetch s_geometry_def [THEN arg_cong, of g_data_size] U64_def)

end
