(* ===== verification/HeaderProofs.thy ===== *)
theory HeaderProofs
  imports HeaderCheck Samples
begin

text \<open>
  The promises of the header check of \<open>src/src/lib.rs\<close>: what an accepted header says, that the
  trusted hash binds every signed field, that no header makes the check panic, and the wire form of
  the trusted index.  The last section builds one header of fork 2.9 for the witnesses.
\<close>


section \<open>What an accepted header says\<close>

definition header_inputs_256 :: "deps \<Rightarrow> BlockHeader \<Rightarrow> bytes list" where
  "header_inputs_256 E b = (case signed_segment E b of Inl _ \<Rightarrow> [] | Inr s \<Rightarrow> [s])"

definition header_inputs_384 :: "deps \<Rightarrow> BlockHeader \<Rightarrow> bytes list" where
  "header_inputs_384 E b =
     (case (post_2_6_signed_hash E b, decode_b64 E (bh_signature b) STR ''block signature'') of
        (Inr h, Inr s) \<Rightarrow> [h @ s] | _ \<Rightarrow> [])"

lemma verify_block_header_steps:
  assumes "verify_block_header E F b entry h t = Inr ()"
  obtains hash where "bh_height b = h" "decode_fixed E 48 (bi_hash entry) STR ''trusted block hash'' = Inr hash"
    "decode_fixed E 48 (bh_indep_hash b) STR ''block indep_hash'' = Inr hash" "block_indep_hash E F b = Inr hash"
    "422250 \<le> h \<Longrightarrow> bh_tx_root b = bi_tx_root entry"
    "parse_unsigned U128 (bh_weave_size b) = parse_unsigned U128 (bi_weave_size entry)"
    "\<And>i. t = Some i \<Longrightarrow> i \<in> set (bh_txs b)"
  using assms
  by (auto simp: verify_block_header_def res_simps parse_u128_def decode_b64_eq split: if_splits option.splits)

section \<open>The trusted index\<close>

text \<open>A record of the index's wire form: hash, weave size in at most sixteen bytes, root or nothing.\<close>

definition encode_block_entry :: "bytes \<times> bytes \<times> bytes \<Rightarrow> bytes" where
  "encode_block_entry = (\<lambda>(hash, weave_size, tx_root).
     hash @ be_bytes 2 (length weave_size) @ weave_size @ be_bytes 1 (length tx_root) @ tx_root)"

definition entry_ok :: "bytes \<times> bytes \<times> bytes \<Rightarrow> bool" where
  "entry_ok = (\<lambda>(hash, weave_size, tx_root).
     length hash = 48 \<and> length weave_size \<le> 16 \<and> (length tx_root = 0 \<or> length tx_root = 32))"

definition block_entry :: "deps \<Rightarrow> bytes \<times> bytes \<times> bytes \<Rightarrow> TrustedBlockIndexEntry" where
  "block_entry E = (\<lambda>(hash, weave_size, tx_root).
     \<lparr>te_hash = x_b64_encode E hash, te_tx_root = x_b64_encode E tx_root, te_weave_size = be_nat weave_size\<rparr>)"

lemma take_next:
  "c = length pre \<Longrightarrow> length pre + length v < USIZE \<Longrightarrow> n = length v \<Longrightarrow>
     take_bytes (pre @ v @ rest) c n l = Inr (v, c + n)"
  by (simp add: take_bytes_eq)

lemma decode_block_index_loop_encode:
  assumes "list_all entry_ok es" and "length pre + length (concat (map encode_block_entry es)) < USIZE"
  shows "decode_block_index_loop E (pre @ concat (map encode_block_entry es)) (length pre) = Inr (map (block_entry E) es)"
  using assms
proof (induction es arbitrary: pre)
  case Nil
  then show ?case by (simp add: decode_block_index_loop.simps)
next
  case (Cons e es)
  obtain h w r where e: "e = (h, w, r)" by (cases e) auto
  let ?R = "concat (map encode_block_entry es)"
  let ?b = "pre @ h @ be_bytes 2 (length w) @ w @ be_bytes 1 (length r) @ r @ ?R"
  have ok: "length h = 48" "length w \<le> 16" "length r = 0 \<or> length r = 32"
    using Cons.prems(1) by (auto simp: e entry_ok_def)
  have bound: "length pre + 48 + 2 + length w + 1 + length r + length ?R < USIZE"
    using Cons.prems(2) ok by (simp add: e encode_block_entry_def)
  have t1: "take_bytes ?b (length pre) 48 l = Inr (h, length pre + 48)" for l
    by (rule take_next) (use ok bound in auto)
  have t2: "take_bytes ?b (length pre + 48) 2 l = Inr (be_bytes 2 (length w), length pre + 50)" for l
    using take_next [of "length pre + 48" "pre @ h" "be_bytes 2 (length w)" 2] ok bound by simp
  have t3: "take_bytes ?b (length pre + 50) (length w) l = Inr (w, length pre + 50 + length w)" for l
    using take_next [of "length pre + 50" "pre @ h @ be_bytes 2 (length w)" w "length w"] ok bound by simp
  have t4: "take_bytes ?b (length pre + 50 + length w) 1 l = Inr (be_bytes 1 (length r), length pre + 51 + length w)" for l
    using take_next [of "length pre + 50 + length w" "pre @ h @ be_bytes 2 (length w) @ w" "be_bytes 1 (length r)" 1] ok bound
    by simp
  have t5: "take_bytes ?b (length pre + 51 + length w) (length r) l = Inr (r, length pre + 51 + length w + length r)" for l
    using take_next [of "length pre + 51 + length w" "pre @ h @ be_bytes 2 (length w) @ w @ be_bytes 1 (length r)" r "length r"]
      ok bound by simp
  have IH: "decode_block_index_loop E ?b (length pre + 51 + length w + length r) = Inr (map (block_entry E) es)"
    using Cons.IH [of "pre @ h @ be_bytes 2 (length w) @ w @ be_bytes 1 (length r) @ r"] Cons.prems(1) ok bound by (simp add: add_ac)
  have n: "be_nat (be_bytes 2 (length w)) = length w" "unat (be_bytes 1 (length r) ! 0) = length r"
    using ok by (auto simp: be_nat_be_bytes)
  have "be_nat (replicate (16 - length w) 0 @ w) = be_nat w" by (simp add: be_nat_append)
  moreover have "length pre < length ?b" using ok by simp
  ultimately have "decode_block_index_loop E ?b (length pre) = Inr (map (block_entry E) (e # es))"
    by (subst decode_block_index_loop.simps)
      (use ok t1 t2 t3 t4 t5 n IH in \<open>auto simp: e block_entry_def Let_def\<close>)
  then show ?case by (simp add: e encode_block_entry_def)
qed

section \<open>No header makes the check panic\<close>

lemma foldE_no_panic: "(\<And>s x. f s x \<noteq> Inl Panic) \<Longrightarrow> foldE f s xs \<noteq> Inl Panic"
  by (induction xs arbitrary: s) (auto simp: res_simps)

definition calm :: "step \<Rightarrow> bool" where
  "calm f \<longleftrightarrow> (\<forall>out. f out \<noteq> Inl Panic)"

named_theorems calm_intros "steps that do not panic"

lemma prefix_limit_calm: "w \<le> 16 \<Longrightarrow> prefix_limit w \<noteq> Inl Panic"
  by (auto simp: prefix_limit_def res_simps U64_def)

lemma parse_biguint_calm [simp]: "parse_biguint E v l \<noteq> Inl Panic"
  by (simp add: parse_biguint_def res_simps)

lemma reward_address_calm [simp]: "reward_address E v c \<noteq> Inl Panic"
  by (simp add: reward_address_def)

lemma proof_field_calm [simp]: "proof_field p n \<noteq> Inl Panic"
  by (simp add: proof_field_def res_simps)

lemma append_size_calm: "w \<le> 16 \<Longrightarrow> append_size out v w \<noteq> Inl Panic"
  by (simp add: append_size_def res_simps prefix_limit_calm Let_def)

lemma append_bytes_calm: "w \<le> 16 \<Longrightarrow> append_bytes out v w \<noteq> Inl Panic"
  by (simp add: append_bytes_def res_simps prefix_limit_calm append_size_calm)

lemma append_b64_calm: "w \<le> 16 \<Longrightarrow> append_b64 E out v w l \<noteq> Inl Panic"
  by (simp add: append_b64_def res_simps append_bytes_calm)

lemma append_decimal_calm: "w \<le> 16 \<Longrightarrow> append_decimal E out v w l \<noteq> Inl Panic"
  by (simp add: append_decimal_def res_simps append_bytes_calm Let_def)

lemma append_fixed_decimal_calm: "append_fixed_decimal E out v w l \<noteq> Inl Panic"
  by (simp add: append_fixed_decimal_def res_simps Let_def)

lemma append_fixed_b64_calm: "append_fixed_b64 E out v w l \<noteq> Inl Panic"
  by (simp add: append_fixed_b64_def res_simps)

lemma append_proof_part_calm: "append_proof_part E p lp sz out q \<noteq> Inl Panic"
  by (cases q) (auto simp: append_proof_part_def res_simps append_bytes_calm append_decimal_calm append_fixed_b64_calm)

lemmas append_calm = append_size_calm append_bytes_calm append_b64_calm append_decimal_calm
  append_fixed_decimal_calm append_fixed_b64_calm

lemma append_lists_calm:
  "n \<le> 16 \<Longrightarrow> w \<le> 16 \<Longrightarrow> append_b64_list E out vs n w l \<noteq> Inl Panic"
  "append_hashes E out vs l \<noteq> Inl Panic" "append_tags E out ts \<noteq> Inl Panic"
  by (auto simp: append_b64_list_def append_hashes_def append_tags_def res_simps append_calm
      dest: foldE_no_panic [THEN notE, rotated])

lemma append_double_signing_proof_calm: "append_double_signing_proof E out p h \<noteq> Inl Panic"
  by (auto simp: append_double_signing_proof_def res_simps Let_def append_calm append_proof_part_calm split: if_splits)

lemma append_other_calm:
  "w \<le> 16 \<Longrightarrow> append_optional_b64 E out v w l \<noteq> Inl Panic" "w \<le> 16 \<Longrightarrow> append_optional_decimal E out v w l \<noteq> Inl Panic"
  "w \<le> 16 \<Longrightarrow> append_u64 E out n w \<noteq> Inl Panic" "append_fixed_u64 E out n w \<noteq> Inl Panic"
  by (simp_all add: append_optional_b64_def append_optional_decimal_def append_u64_def append_fixed_u64_def append_calm)

lemmas all_calm = append_calm append_other_calm append_lists_calm append_double_signing_proof_calm

lemma run_steps_calm: "list_all (\<lambda>f. \<forall>out. f out \<noteq> Inl Panic) fs \<Longrightarrow> run_steps fs out \<noteq> Inl Panic"
  by (induction fs arbitrary: out) (auto simp: run_steps_def res_simps)

lemma signed_segment_calm: "signed_segment E b \<noteq> Inl Panic"
proof -
  have 1: "list_all (\<lambda>f. \<forall>out. f out \<noteq> Inl Panic) (signed_steps_2_6 E b n)" for n
    unfolding signed_steps_2_6_def Let_def list.pred_inject
    by (intro conjI allI TrueI; (rule all_calm)?; simp add: res_simps all_calm)
  have 2: "list_all (\<lambda>f. \<forall>out. f out \<noteq> Inl Panic) (signed_steps_2_7 E b)"
    "list_all (\<lambda>f. \<forall>out. f out \<noteq> Inl Panic) (signed_steps_2_8 E b)"
    "list_all (\<lambda>f. \<forall>out. f out \<noteq> Inl Panic) (signed_steps_2_9 b)"
    by (simp_all add: signed_steps_2_7_def signed_steps_2_8_def signed_steps_2_9_def all_calm)
  show ?thesis
    using 1 2 by (auto simp: signed_segment_def res_simps list_all_append dest: run_steps_calm [THEN notE, rotated])
qed

lemma deep_hash_calm [simp]:
  "deep_hash_decimal E v l \<noteq> Inl Panic" "deep_hash_b64 E v l \<noteq> Inl Panic"
  "deep_hash_b64_list E vs l \<noteq> Inl Panic" "deep_hash_decimals E ds \<noteq> Inl Panic"
proof -
  show 1: "deep_hash_decimal E v l \<noteq> Inl Panic" and 2: "deep_hash_b64 E v l \<noteq> Inl Panic" for v l
    by (auto simp: deep_hash_decimal_def deep_hash_b64_def res_simps)
  show "deep_hash_b64_list E vs l \<noteq> Inl Panic" "deep_hash_decimals E ds \<noteq> Inl Panic"
    using 1 2 by (auto simp: deep_hash_b64_list_def deep_hash_decimals_def res_simps dest: mapE_no_panic [THEN notE, rotated])
qed

lemma pre_2_6_calm: "pre_2_6_indep_hash E b \<noteq> Inl Panic"
proof -
  have t: "mapE (\<lambda>tag. bindE (contextE (as_str tag) m) (\<lambda>t. deep_hash_b64 E t l)) ts \<noteq> Inl Panic" for m l ts
    by (rule mapE_no_panic) (simp add: res_simps)
  have "pre_2_6_core E b \<noteq> Inl Panic"
    by (simp add: pre_2_6_core_def res_simps t)
  then show ?thesis by (simp add: pre_2_6_indep_hash_def res_simps Let_def)
qed

section \<open>A sample header and the properties\<close>

lemma prefix_limit_ok: "w < 16 \<Longrightarrow> prefix_limit w = Inr (256 ^ w)"
proof -
  assume w: "w < 16"
  then have "w * 8 mod U32 = w * 8" by (intro mod_less) (simp add: U32_def)
  moreover have p: "2 ^ (w * 8) = (256::nat) ^ w" by (simp add: power_mult mult.commute [of w])
  ultimately show ?thesis using w by (simp add: prefix_limit_def mulE_def U64_def p)
qed

lemma append_size_ok: "0 < w \<Longrightarrow> w < 16 \<Longrightarrow> v < 256 ^ w \<Longrightarrow> append_size out v w = Inr (out @ be_bytes w v)"
proof -
  assume w: "0 < w" "w < 16" "v < 256 ^ w"
  then have "append_size out v w = Inr (out @ sub_bytes (be_bytes 16 v) (16 - w) 16)"
    by (simp add: append_size_def prefix_limit_ok Let_def)
  then show ?thesis using append_size_eq [of out v w] by simp
qed

lemma append_bytes_ok:
  "0 < w \<Longrightarrow> w < 16 \<Longrightarrow> length v < 256 ^ w \<Longrightarrow> append_bytes out v w = Inr (out @ be_bytes w (length v) @ v)"
  by (simp add: append_bytes_def prefix_limit_ok append_size_ok)

lemma small_power: "0 < w \<Longrightarrow> n < 256 \<Longrightarrow> n < 256 ^ w" for n :: nat
proof -
  assume "0 < w" "n < 256"
  moreover from this(1) have "(256::nat) ^ 1 \<le> 256 ^ w" by (intro power_increasing) simp_all
  ultimately show ?thesis by simp
qed

lemma append_sample:
  "0 < w \<Longrightarrow> w < 16 \<Longrightarrow> length v < 256 \<Longrightarrow> \<exists>r. append_bytes out v w = Inr r"
  "0 < w \<Longrightarrow> w < 16 \<Longrightarrow> length v < 256 \<Longrightarrow> \<exists>r. append_b64 sample out (hex v) w l = Inr r"
  "length v = n \<Longrightarrow> \<exists>r. append_fixed_b64 sample out (hex v) n l = Inr r"
  by (simp_all add: append_bytes_ok small_power append_b64_def append_fixed_b64_def)

lemma append_sample_decimal:
  assumes "n < 256 ^ 8" "0 < w" "w < 16"
  shows "\<exists>r. append_decimal sample out (show_nat n) w l = Inr r"
proof -
  have p: "parse_biguint sample (show_nat n) l = Inr n"
    using show_nat_ok [of n] by (simp add: parse_biguint_def sample_def sample_big_parse_def)
  have "length (x_big_bytes sample n) < 256"
    using minimal_be_length [of n 8 "Suc n"] assms(1) by (simp add: sample_def)
  then show ?thesis using assms(2,3) by (simp add: append_decimal_def p Let_def append_bytes_ok small_power)
qed

lemma append_sample_fixed:
  assumes "n < 256 ^ k" "0 < k"
  shows "\<exists>r. append_fixed_decimal sample out (show_nat n) k l = Inr r"
proof -
  have p: "parse_biguint sample (show_nat n) l = Inr n"
    using show_nat_ok [of n] by (simp add: parse_biguint_def sample_def sample_big_parse_def)
  have "length (x_big_bytes sample n) \<le> k"
    using minimal_be_length [of n k "Suc n"] assms by (simp add: sample_def)
  then show ?thesis by (simp add: append_fixed_decimal_def p Let_def)
qed

lemma append_sample_lists:
  "length vs < 65536 \<Longrightarrow> list_all (\<lambda>v. length v < 256) vs \<Longrightarrow> \<exists>r. append_b64_list sample out (map hex vs) 2 1 l = Inr r"
  "\<exists>r. append_hashes sample out [] l = Inr r" "\<exists>r. append_tags sample out [] = Inr r"
proof -
  have "\<exists>r. foldE (\<lambda>out v. append_b64 sample out v 1 l) out (map hex vs) = Inr r" if "list_all (\<lambda>v. length v < 256) vs" for out vs
    using that
  proof (induction vs arbitrary: out)
    case (Cons v vs)
    then show ?case using append_sample(2) [of 1 v out l] by (auto simp: append_b64_def append_bytes_ok)
  qed simp
  then show "length vs < 65536 \<Longrightarrow> list_all (\<lambda>v. length v < 256) vs \<Longrightarrow> \<exists>r. append_b64_list sample out (map hex vs) 2 1 l = Inr r"
    by (simp add: append_b64_list_def append_size_ok rev_map list_all_iff)
qed (simp_all add: append_hashes_def append_tags_def append_size_ok)

definition s_poa :: BlockPoa where
  "s_poa = \<lparr>poa_option = show_nat 1, poa_tx_path = hex [1], poa_data_path = hex [2], poa_chunk = hex [3]\<rparr>"

definition s_info :: NonceLimiterInfo where
  "s_info = \<lparr>nl_output = hex (replicate 32 1), nl_global_step_number = 77, nl_seed = hex (replicate 48 1),
     nl_next_seed = hex (replicate 48 2), nl_zone_upper_bound = 1000, nl_next_zone_upper_bound = 2000,
     nl_prev_output = hex [], nl_checkpoints = [], nl_last_step_checkpoints = [],
     nl_vdf_difficulty = show_nat 600000, nl_next_vdf_difficulty = show_nat 600001\<rparr>"

definition s_header :: "str \<Rightarrow> str \<Rightarrow> BlockHeader" where
  "s_header i n = \<lparr>bh_indep_hash = i,
     bh_height = 1700000,
     bh_previous_block = hex (replicate 48 2),
     bh_timestamp = 1600000000,
     bh_nonce = n,
     bh_last_retarget = 1500000000,
     bh_diff = show_nat 5,
     bh_cumulative_diff = show_nat 5,
     bh_reward_pool = show_nat 5,
     bh_wallet_list = hex [],
     bh_legacy_wallets = None,
     bh_hash_list = [],
     bh_hash_list_merkle = hex [],
     bh_hash = hex [],
     bh_block_size = show_nat 5,
     bh_weave_size = show_nat 5,
     bh_tx_root = hex (replicate 32 3),
     bh_reward_addr = ''unclaimed'',
     bh_tags = [],
     bh_txs = map hex [replicate 32 7, replicate 32 8],
     bh_packing_2_5_threshold = show_nat 5,
     bh_strict_data_split_threshold = show_nat 5,
     bh_usd_to_ar_rate = (show_nat 1, show_nat 9),
     bh_scheduled_usd_to_ar_rate = (show_nat 1, show_nat 9),
     bh_poa = s_poa,
     bh_signature = hex [],
     bh_reward = show_nat 5,
     bh_recall_byte = show_nat 5,
     bh_recall_byte2 = [],
     bh_hash_preimage = hex [],
     bh_reward_key = hex [],
     bh_partition_number = 3,
     bh_nonce_limiter_info = s_info,
     bh_previous_solution_hash = hex [],
     bh_price_per_gib_minute = show_nat 5,
     bh_scheduled_price_per_gib_minute = show_nat 5,
     bh_reward_history_hash = hex (replicate 32 4),
     bh_block_time_history_hash = hex (replicate 32 5),
     bh_debt_supply = show_nat 5,
     bh_kryder_plus_rate_multiplier = show_nat 5,
     bh_kryder_plus_rate_multiplier_latch = show_nat 5,
     bh_denomination = show_nat 5,
     bh_redenomination_height = 0,
     bh_double_signing_proof = JNull,
     bh_previous_cumulative_diff = show_nat 5,
     bh_merkle_rebase_support_threshold = show_nat 5,
     bh_poa2 = s_poa,
     bh_chunk_hash = hex (replicate 32 6),
     bh_chunk2_hash = [],
     bh_packing_difficulty = 1,
     bh_unpacked_chunk_hash = hex [],
     bh_unpacked_chunk2_hash = [],
     bh_replica_format = 1\<rparr>"

lemma run_steps_total: "list_all (\<lambda>f. \<forall>out. \<exists>r. f out = Inr r) fs \<Longrightarrow> \<exists>r. run_steps fs out = Inr r"
proof (induction fs arbitrary: out)
  case (Cons f fs)
  then obtain r where "f out = Inr r" by auto
  then show ?case using Cons by (simp add: run_steps_def)
qed (simp add: run_steps_def)

lemma append_sample_optional:
  "\<exists>r. append_optional_b64 sample out [] 1 l = Inr r" "\<exists>r. append_optional_b64 sample out (hex []) 1 l = Inr r"
  "\<exists>r. append_optional_decimal sample out [] 2 l = Inr r" "\<exists>r. append_double_signing_proof sample out JNull h = Inr r"
  by (simp_all add: append_optional_b64_def append_optional_decimal_def append_double_signing_proof_def append_bytes_ok
      append_b64_def)

lemma append_sample_txs: "\<exists>r. append_b64_list sample out [hex (replicate 32 7), hex (replicate 32 8)] 2 1 l = Inr r"
  using append_sample_lists(1) [of "[replicate 32 7, replicate 32 8]" out l] by simp

lemmas fork_heights = FORK_2_5_HEIGHT_def FORK_2_6_HEIGHT_def FORK_2_7_HEIGHT_def FORK_2_8_HEIGHT_def FORK_2_9_HEIGHT_def

lemma s_steps_total:
  "list_all (\<lambda>f. \<forall>out. \<exists>r. f out = Inr r) (signed_steps_2_6 sample (s_header i n) [5])"
  "list_all (\<lambda>f. \<forall>out. \<exists>r. f out = Inr r) (signed_steps_2_7 sample (s_header i n))"
  "list_all (\<lambda>f. \<forall>out. \<exists>r. f out = Inr r) (signed_steps_2_8 sample (s_header i n))"
  "list_all (\<lambda>f. \<forall>out. \<exists>r. f out = Inr r) (signed_steps_2_9 (s_header i n))"
  unfolding signed_steps_2_6_def signed_steps_2_7_def signed_steps_2_8_def signed_steps_2_9_def Let_def
    s_header_def s_info_def s_poa_def BlockHeader.simps NonceLimiterInfo.simps BlockPoa.simps fst_conv snd_conv
    append_u64_def append_fixed_u64_def fork_heights list.map
  by (simp_all add: append_sample [simplified] append_sample_decimal [simplified] append_sample_fixed
      append_sample_txs [simplified] append_sample_lists append_sample_optional [simplified] reward_address_def)

lemma s_nonce: "strip_nonce [5] = [5]" "strip_nonce [0, 5] = [5]"
  by (simp_all add: strip_nonce_def)

lemma s_segment:
  "\<exists>s. signed_segment sample (s_header i (hex [5])) = Inr s \<and> signed_segment sample (s_header j (hex [0, 5])) = Inr s"
proof -
  let ?f = "\<lambda>i n. run_steps (signed_steps_2_6 sample (s_header i n) [5] @ signed_steps_2_7 sample (s_header i n)
        @ signed_steps_2_8 sample (s_header i n) @ signed_steps_2_9 (s_header i n)) []"
  have "\<exists>s. ?f i (hex [5]) = Inr s"
    by (rule run_steps_total) (simp only: list_all_append s_steps_total simp_thms)
  moreover have "?f j m = ?f i n" for n m
    by (simp only: signed_steps_2_6_def signed_steps_2_7_def signed_steps_2_8_def signed_steps_2_9_def s_header_def
        BlockHeader.simps)
  ultimately obtain s where "?f i (hex [5]) = Inr s" "?f j (hex [0, 5]) = Inr s" by metis
  moreover have "bh_nonce (s_header i n) = n" for i n by (simp add: s_header_def)
  ultimately show ?thesis by (simp add: signed_segment_def s_nonce)
qed

definition s_header_hash :: bytes where
  "s_header_hash = (case block_indep_hash sample (\<lambda>_. None) (s_header [] (hex [5])) of Inl _ \<Rightarrow> [] | Inr h \<Rightarrow> h)"

definition s_entry :: BlockIndexEntry where
  "s_entry = \<lparr>bi_tx_root = hex (replicate 32 3), bi_weave_size = show_nat 5, bi_hash = hex s_header_hash\<rparr>"

lemma s_block_hash:
  "block_indep_hash sample F (s_header i (hex [5])) = Inr s_header_hash"
  "block_indep_hash sample F (s_header i (hex [0, 5])) = Inr s_header_hash" "length s_header_hash = 48"
proof -
  obtain s where s: "signed_segment sample (s_header [] (hex [5])) = Inr s" using s_segment by blast
  have e: "signed_segment sample (s_header i (hex [5])) = Inr s" "signed_segment sample (s_header i (hex [0, 5])) = Inr s" for i
    using s_segment [of i i] s_segment [of "[]" i] s by auto
  have h: "bh_height (s_header i n) = 1700000" "bh_signature (s_header i n) = hex []" for i n
    by (simp_all add: s_header_def)
  have b: "block_indep_hash sample F (s_header i (hex [5])) = Inr (sha384 sample [sha256 sample [s], []])"
    "block_indep_hash sample F (s_header i (hex [0, 5])) = Inr (sha384 sample [sha256 sample [s], []])" for F i
    by (simp_all add: block_indep_hash_def post_2_6_signed_hash_def h e fork_heights)
  then have d: "s_header_hash = sha384 sample [sha256 sample [s], []]" by (simp add: s_header_hash_def)
  show "block_indep_hash sample F (s_header i (hex [5])) = Inr s_header_hash"
    "block_indep_hash sample F (s_header i (hex [0, 5])) = Inr s_header_hash" "length s_header_hash = 48"
    by (simp_all only: b d) simp
qed

lemma s_verify_header:
  "verify_block_header sample F (s_header (hex s_header_hash) (hex [5])) s_entry 1700000 (Some (hex (replicate 32 7))) = Inr ()"
  "verify_block_header sample F (s_header (hex s_header_hash) (hex [0, 5])) s_entry 1700000 None = Inr ()"
proof -
  have "parse_unsigned U128 (show_nat 5) = Some 5"
    by (rule parse_unsigned_show) (simp add: U128_value)
  moreover have "bh_height (s_header i n) = 1700000" "bh_indep_hash (s_header i n) = i"
    "bh_tx_root (s_header i n) = hex (replicate 32 3)" "bh_weave_size (s_header i n) = show_nat 5"
    "bh_txs (s_header i n) = map hex [replicate 32 7, replicate 32 8]" for i n
    by (simp_all add: s_header_def)
  ultimately show 
    "verify_block_header sample F (s_header (hex s_header_hash) (hex [5])) s_entry 1700000 (Some (hex (replicate 32 7))) = Inr ()"
    "verify_block_header sample F (s_header (hex s_header_hash) (hex [0, 5])) s_entry 1700000 None = Inr ()"
    by (simp_all add: verify_block_header_def decode_fixed_def s_entry_def s_block_hash parse_u128_def)
qed

text \<open>What an accepted header says: it has the requested height, its independent hash is the trusted
  one, its transaction root and weave size are those of the trusted index, and it lists the requested
  transaction.\<close>

theorem verify_block_header_sound:
  assumes "verify_block_header E F b entry h t = Inr ()"
  shows "bh_height b = h \<and> (\<exists>hash. length hash = 48 \<and> block_indep_hash E F b = Inr hash \<and> x_b64_encode E hash = bi_hash entry)
     \<and> (422250 \<le> h \<longrightarrow> bh_tx_root b = bi_tx_root entry)
     \<and> (\<exists>n < U128. parse_unsigned U128 (bh_weave_size b) = Some n \<and> parse_unsigned U128 (bi_weave_size entry) = Some n)
     \<and> (\<forall>i. t = Some i \<longrightarrow> i \<in> set (bh_txs b))"
  using assms
  by (auto simp: verify_block_header_def res_simps parse_u128_def decode_fixed_eq decode_b64_eq parse_unsigned_def Let_def
      split: if_splits option.splits)

theorem verify_block_header_sound_witness:
  "\<exists>hash. length hash = 48 \<and> block_indep_hash sample (\<lambda>_. None) (s_header (hex s_header_hash) (hex [5])) = Inr hash"
  using verify_block_header_sound [OF s_verify_header(1)] by blast

text \<open>C5. The trusted hash binds the header: from fork 2.6 on, two headers accepted against one entry of the
  index agree in every field their signed segments carry (texts, decimals by value, the nonce without its
  leading zeros, lists, the double-signing proof, the fields of later forks) and in their signature, unless
  SHA-256, of 32 bytes, or SHA-384 collides on the two segments; numbers are read by a decimal codec.\<close>

theorem verify_block_header_binding:
  assumes "decimal_codec E" "hash_widths E" and h: "FORK_2_6_HEIGHT \<le> h"
    and "collision_free E (header_inputs_256 E b @ header_inputs_256 E b')"
    and "collision_free_384 E (header_inputs_384 E b @ header_inputs_384 E b')"
    and v: "verify_block_header E F b entry h t = Inr ()" "verify_block_header E F b' entry h t' = Inr ()"
  shows "same_signed E b b' \<and> bh_signature b = bh_signature b'"
proof -
  obtain hash hash' where hs: "bh_height b = h" "bh_height b' = h" "block_indep_hash E F b = Inr hash"
    "block_indep_hash E F b' = Inr hash'" "hash = hash'"
    using verify_block_header_steps [OF v(1)] verify_block_header_steps [OF v(2)] by (metis Inr_inject)
  then obtain s s' g g' where
    s: "signed_segment E b = Inr s" "signed_segment E b' = Inr s'"
    and g: "decode_b64 E (bh_signature b) STR ''block signature'' = Inr g"
      "decode_b64 E (bh_signature b') STR ''block signature'' = Inr g'"
    and e: "sha384 E [sha256 E [s], g] = sha384 E [sha256 E [s'], g']"
    using h by (auto simp: block_indep_hash_def post_2_6_signed_hash_def res_simps)
  have i: "header_inputs_256 E b = [s]" "header_inputs_256 E b' = [s']"
    "header_inputs_384 E b = [sha256 E [s] @ g]" "header_inputs_384 E b' = [sha256 E [s'] @ g']"
    using s g by (simp_all add: header_inputs_256_def header_inputs_384_def post_2_6_signed_hash_def)
  have "sha384 E [sha256 E [s] @ g] = sha384 E [sha256 E [s'] @ g']" using e by (simp add: sha384_def)
  then have "sha256 E [s] @ g = sha256 E [s'] @ g'"
    by (rule collision_free_384D [OF assms(5), rotated 2]) (simp_all add: i)
  then have "sha256 E [s] = sha256 E [s']" "g = g'" using assms(2) by simp_all
  moreover from this(1) have "s = s'"
    by (rule collision_free_sha [OF assms(4), rotated 2]) (simp_all add: i)
  ultimately show ?thesis
    using signed_segment_agree [OF assms(1)] s g decode_b64_inj by blast
qed

theorem verify_block_header_binding_witness:
  "bh_txs (s_header (hex s_header_hash) (hex [5])) = bh_txs (s_header (hex s_header_hash) (hex [0, 5]))
   \<and> same_nonce sample (s_header (hex s_header_hash) (hex [5])) (s_header (hex s_header_hash) (hex [0, 5]))"
proof -
  obtain s where s: "signed_segment sample (s_header (hex s_header_hash) (hex [5])) = Inr s"
    "signed_segment sample (s_header (hex s_header_hash) (hex [0, 5])) = Inr s" using s_segment by blast
  have g: "bh_signature (s_header i n) = hex []" for i n by (simp add: s_header_def)
  have "same_signed sample (s_header (hex s_header_hash) (hex [5])) (s_header (hex s_header_hash) (hex [0, 5]))"
    using verify_block_header_binding [OF sample_decimal_codec sample_widths _ _ _ s_verify_header(1) s_verify_header(2)]
    by (simp add: fork_heights collision_free_def collision_free_384_def header_inputs_256_def header_inputs_384_def s
        post_2_6_signed_hash_def g)
  then show ?thesis by (simp add: same_signed_def same_2_6_def)
qed

text \<open>From fork 2.5 on, no header makes its check panic: no prefix width, slice or subtraction of the
  encoders leaves its type.\<close>

theorem verify_block_header_no_panic:
  assumes "FORK_2_5_HEIGHT \<le> h"
  shows "verify_block_header E F b entry h t \<noteq> Inl Panic"
proof -
  have "bh_height b = h \<Longrightarrow> block_indep_hash E F b \<noteq> Inl Panic"
    using assms by (auto simp: block_indep_hash_def post_2_6_signed_hash_def res_simps signed_segment_calm pre_2_6_calm)
  then show ?thesis
    by (auto simp: verify_block_header_def res_simps split: option.splits if_splits)
qed

theorem verify_block_header_no_panic_witness:
  "verify_block_header sample (\<lambda>_. None) (s_header [] (hex [])) s_entry 1700000 None \<noteq> Inl Panic"
  by (rule verify_block_header_no_panic) (simp add: fork_heights)

text \<open>Decoding the binary block index inverts its encoding: every record comes back with its hash, its
  root and the weave size its bytes stand for.\<close>

theorem decode_block_index_roundtrip:
  assumes "list_all entry_ok es" and "length (concat (map encode_block_entry es)) < USIZE"
  shows "decode_block_index E (concat (map encode_block_entry es)) = Inr (map (block_entry E) es)"
  using decode_block_index_loop_encode [of es "[]" E] assms by (simp add: decode_block_index_def)


theorem decode_block_index_roundtrip_witness:
  "decode_block_index sample (concat (map encode_block_entry [(replicate 48 1, [2, 3], []), (replicate 48 4, [], replicate 32 5)]))
     = Inr (map (block_entry sample) [(replicate 48 1, [2, 3], []), (replicate 48 4, [], replicate 32 5)])"
  by (rule decode_block_index_roundtrip) (simp_all add: entry_ok_def encode_block_entry_def U64_def)

text \<open>The deep hash determines what it hashes: two trees of byte strings and lists with one deep hash are
  equal, unless SHA-384 collides on the inputs of the two computations.\<close>

theorem deep_hash_injective:
  assumes "hash_widths E" "collision_free_384 E (tree_inputs E (Node ts) @ tree_inputs E (Node us))"
    and "tree_fits (Node ts)" "tree_fits (Node us)"
    and "deep_hash_list E (map (tree_hash E) ts) = deep_hash_list E (map (tree_hash E) us)"
  shows "ts = us"
  using tree_hash_inj [OF assms(1,2), of "Node ts" "Node us"] assms(3-5) by auto

lemma s_tags: "list_tag 1 = [108, 105, 115, 116, 49]" "list_tag 0 = [108, 105, 115, 116, 48]"
  by (simp_all add: list_tag_def show_nat.simps digit_char_def as_bytes_def byte_of_char_def of_char_of)

lemma sample_sha384: "sha384 sample ps =
    replicate 46 0 @ [word_of_nat (checksum (concat ps) div 256), word_of_nat (checksum (concat ps))]"
  by (simp add: sha384_def sample_def sample_hash_def be_bytes_2)

lemma s_tag_hashes:
  "sha384 sample [[108, 105, 115, 116, 49]] = replicate 46 0 @ [239, 137]"
  "sha384 sample [[108, 105, 115, 116, 48]] = replicate 46 0 @ [239, 136]"
  by (simp_all add: sample_sha384) (simp_all add: checksum_def)

lemma s_tree_inputs: "tree_inputs sample (Node [Node []]) =
   [[108, 105, 115, 116, 49], (replicate 46 0 @ [239, 137]) @ (replicate 46 0 @ [239, 136]), [108, 105, 115, 116, 48]]"
  using s_tags by (simp add: tree_hash_chain s_tag_hashes)

lemma collision_free_384_sample: "distinct (map checksum xs) \<Longrightarrow> collision_free_384 sample xs"
proof -
  assume d: "distinct (map checksum xs)"
  have "checksum x = checksum y" if "sample_hash 48 x = sample_hash 48 y" for x y
  proof -
    from that have "be_nat (be_bytes 2 (checksum x)) = be_nat (be_bytes 2 (checksum y))"
      by (simp add: sample_hash_def)
    moreover have "checksum z mod 256 ^ 2 = checksum z" for z
      using checksum_bound [of z] by (intro mod_less) simp
    ultimately show ?thesis by (simp only: be_nat_be_bytes)
  qed
  moreover have "x_sha384 sample = sample_hash 48" by (simp add: sample_def)
  ultimately show ?thesis
    using d unfolding collision_free_384_def distinct_map inj_on_def by metis
qed

theorem deep_hash_injective_witness: "[Node []] = [Node []]"
proof (rule deep_hash_injective [OF sample_widths _ _ _ refl])
  have "distinct (map checksum (tree_inputs sample (Node [Node []])))"
    unfolding s_tree_inputs by (simp add: checksum_def replicate_numeral)
  from collision_free_384_sample [OF this]
  show "collision_free_384 sample (tree_inputs sample (Node [Node []]) @ tree_inputs sample (Node [Node []]))"
    unfolding collision_free_384_def set_append Un_absorb .
qed (simp_all add: U64_def)

end
