(* ===== verification/CacheProofs.thy ===== *)
theory CacheProofs
  imports Caches
begin

text \<open>
  The caches of theory \<open>Caches\<close> implement least-recently-used lists: one contract, the locale
  \<open>bounded_cache\<close> (every operation agrees with its specification, and what is related to a
  specification fits), interpreted on the caches of content, of ArNS resolutions and of manifest
  paths.
\<close>

section \<open>The contract of a bounded cache\<close>

text \<open>A sequence of operations, on the cache and on its specification.\<close>

fun run_cache :: "('op \<Rightarrow> 'c \<Rightarrow> ('o \<times> 'c) res) \<Rightarrow> 'op list \<Rightarrow> 'c \<Rightarrow> ('o list \<times> 'c) res" where
  "run_cache step [] c = Inr ([], c)"
| "run_cache step (op # ops) c =
     bindE (step op c) (\<lambda>(out, c). bindE (run_cache step ops c) (\<lambda>(outs, c). Inr (out # outs, c)))"

fun run_spec :: "('op \<Rightarrow> 'a \<Rightarrow> 'o \<times> 'a) \<Rightarrow> 'op list \<Rightarrow> 'a \<Rightarrow> 'o list \<times> 'a" where
  "run_spec step [] a = ([], a)"
| "run_spec step (op # ops) a =
     (let (out, a) = step op a; (outs, a) = run_spec step ops a in (out # outs, a))"

locale bounded_cache =
  fixes rel :: "'c \<Rightarrow> 'a \<Rightarrow> bool"
    and cache_step :: "'op \<Rightarrow> 'c \<Rightarrow> ('o \<times> 'c) res"
    and spec_step :: "'op \<Rightarrow> 'a \<Rightarrow> 'o \<times> 'a"
    and fits :: "'c \<Rightarrow> bool"
  assumes step: "rel c a \<Longrightarrow> \<exists>c'. cache_step op c = Inr (fst (spec_step op a), c') \<and> rel c' (snd (spec_step op a))"
    and bounded: "rel c a \<Longrightarrow> fits c"
begin

lemma run:
  "rel c a \<Longrightarrow> \<exists>c'. run_cache cache_step ops c = Inr (fst (run_spec spec_step ops a), c')
     \<and> rel c' (snd (run_spec spec_step ops a)) \<and> fits c'"
proof (induction ops arbitrary: c a)
  case Nil
  then show ?case using bounded by auto
next
  case (Cons op ops)
  obtain c1 where c1: "cache_step op c = Inr (fst (spec_step op a), c1)" "rel c1 (snd (spec_step op a))"
    using step [OF Cons.prems] by blast
  then show ?case using Cons.IH [OF c1(2)] by (auto simp: Let_def split_beta)
qed

end

section \<open>Specifications: lists, the most recently used first\<close>

datatype ('k, 'v) cache_op = Get 'k | Insert 'v

definition spec_get :: "'k \<Rightarrow> ('k \<times> 'v) list \<Rightarrow> 'v option \<times> ('k \<times> 'v) list" where
  "spec_get k L = (case map_of L k of None \<Rightarrow> (None, L) | Some v \<Rightarrow> (Some v, put_key k v L))"

definition total :: "('v \<Rightarrow> nat) \<Rightarrow> ('k \<times> 'v) list \<Rightarrow> nat" where
  "total cost L = sum_list (map (\<lambda>e. cost (snd e)) L)"

text \<open>Entries leave from the least recently used end while there are too many or they cost too much.\<close>

function trim :: "('v \<Rightarrow> nat) \<Rightarrow> nat \<Rightarrow> nat \<Rightarrow> ('k \<times> 'v) list \<Rightarrow> ('k \<times> 'v) list" where
  "trim cost slots room L =
     (if L \<noteq> [] \<and> (slots < length L \<or> room < total cost L) then trim cost slots room (butlast L) else L)"
  by pat_completeness auto
termination by (relation "measure (\<lambda>(c, s, r, L). length L)") auto

declare trim.simps [simp del]

lemma trim_fits: "length (trim cost slots room L) \<le> slots \<and> total cost (trim cost slots room L) \<le> room"
proof (induction cost slots room L rule: trim.induct)
  case (1 cost slots room L)
  then show ?case by (subst (1 2) trim.simps) (auto simp: total_def)
qed

lemma total_butlast: "L \<noteq> [] \<Longrightarrow> total cost L = total cost (butlast L) + cost (snd (last L))"
  by (cases L rule: rev_cases) (auto simp: total_def)

lemma total_del_key: "distinct (map fst L) \<Longrightarrow>
    total cost L = total cost (del_key k L) + (case map_of L k of None \<Rightarrow> 0 | Some v \<Rightarrow> cost v)"
proof (induction L)
  case (Cons e L)
  have "k \<notin> fst ` set L \<Longrightarrow> del_key k L = L \<and> map_of L k = None"
    by (auto simp: del_key_def filter_id_conv map_of_eq_None_iff)
  then show ?case using Cons by (cases e) (auto simp: total_def del_key_def)
qed (simp add: total_def del_key_def)

lemma del_key_map: "del_key k (map (map_prod id f) L) = map (map_prod id f) (del_key k L)"
  by (induction L) (auto simp: del_key_def)

lemma map_of_map_prod: "map_of (map (map_prod id f) L) k = map_option f (map_of L k)"
  by (induction L) auto

lemma map_prod_butlast: "map (map_prod id f) (butlast L) = butlast (map (map_prod id f) L)"
  by (simp add: map_butlast)

section \<open>Content\<close>

definition content_spec_insert ::
  "('c \<Rightarrow> bool) \<Rightarrow> ('c VerifiedData \<Rightarrow> nat) \<Rightarrow> nat \<Rightarrow> nat \<Rightarrow> 'c VerifiedData
     \<Rightarrow> (str \<times> 'c VerifiedData) list \<Rightarrow> (str \<times> 'c VerifiedData) list" where
  "content_spec_insert is_memory cost max_entries max_bytes data L =
     (if is_memory (vd_bytes data) \<and> 0 < max_entries \<and> 0 < max_bytes \<and> cost data \<le> max_bytes
      then (vd_id data, data) # trim cost (max_entries - 1) (max_bytes - cost data) (del_key (vd_id data) L)
      else L)"

fun content_spec ::
  "('c \<Rightarrow> bool) \<Rightarrow> ('c VerifiedData \<Rightarrow> nat) \<Rightarrow> nat \<Rightarrow> nat \<Rightarrow> (str, 'c VerifiedData) cache_op
     \<Rightarrow> (str \<times> 'c VerifiedData) list \<Rightarrow> 'c VerifiedData option \<times> (str \<times> 'c VerifiedData) list" where
  "content_spec is_memory cost me mb (Get i) L =
     (let (v, L) = spec_get i L in (map_option (vd_cache_hit_update (\<lambda>_. True)) v, L))"
| "content_spec is_memory cost me mb (Insert data) L = (None, content_spec_insert is_memory cost me mb data L)"

fun content_step ::
  "('c \<Rightarrow> bool) \<Rightarrow> ('c VerifiedData \<Rightarrow> nat) \<Rightarrow> nat \<Rightarrow> nat \<Rightarrow> (str, 'c VerifiedData) cache_op
     \<Rightarrow> 'c ContentCache \<Rightarrow> ('c VerifiedData option \<times> 'c ContentCache) res" where
  "content_step is_memory cost me mb (Get i) c = Inr (content_get i c)"
| "content_step is_memory cost me mb (Insert data) c =
     bindE (content_insert is_memory cost data me mb c) (\<lambda>c. Inr (None, c))"

definition content_rel :: "('c VerifiedData \<Rightarrow> nat) \<Rightarrow> nat \<Rightarrow> nat \<Rightarrow> 'c ContentCache \<Rightarrow> (str \<times> 'c VerifiedData) list \<Rightarrow> bool" where
  "content_rel cost me mb c L \<longleftrightarrow> (\<exists>E. recent snd (cc_clock c) (cc_entries c) E \<and> L = map (map_prod id fst) E)
     \<and> cc_bytes c = total cost L \<and> length L \<le> me \<and> total cost L \<le> mb"

lemma content_rel_del:
  assumes "content_rel cost me mb c L" "map_of L k = Some v"
  shows "cost v \<le> cc_bytes c"
    "content_rel cost me mb (c\<lparr>cc_bytes := cc_bytes c - cost v, cc_entries := del_key k (cc_entries c)\<rparr>) (del_key k L)"
proof -
  from assms(1) obtain E where E: "recent snd (cc_clock c) (cc_entries c) E" "L = map (map_prod id fst) E"
    and b: "cc_bytes c = total cost L" "length L \<le> me" "total cost L \<le> mb" by (auto simp: content_rel_def)
  have "distinct (map fst L)" using E by (simp add: recent_def comp_def)
  from total_del_key [OF this, of cost k] have t: "total cost L = total cost (del_key k L) + cost v" using assms(2) by simp
  show "cost v \<le> cc_bytes c" using t b by simp
  have "length (del_key k L) \<le> me" using b(2) by (auto simp: del_key_def intro: le_trans [OF length_filter_le])
  then show "content_rel cost me mb (c\<lparr>cc_bytes := cc_bytes c - cost v, cc_entries := del_key k (cc_entries c)\<rparr>) (del_key k L)"
    using t b recent_del [OF E(1), of k] E(2) by (auto simp: content_rel_def del_key_map)
qed

lemma content_evict_rel:
  assumes "content_rel cost me mb c L" "0 < me" "sz \<le> mb"
  shows "\<exists>c'. content_evict cost me mb sz c = Inr c' \<and> content_rel cost me mb c' (trim cost (me - 1) (mb - sz) L)"
  using assms
proof (induction "length L" arbitrary: c L rule: less_induct)
  case less
  from less.prems(1) obtain E where E: "recent snd (cc_clock c) (cc_entries c) E" "L = map (map_prod id fst) E"
    and b: "cc_bytes c = total cost L" by (auto simp: content_rel_def)
  have len: "length (cc_entries c) = length L" using recent_set [OF E(1)] E(2) by simp
  have cond: "length (cc_entries c) \<ge> me \<or> cc_bytes c > mb - sz \<longleftrightarrow> L \<noteq> [] \<and> (me - 1 < length L \<or> mb - sz < total cost L)"
    using less.prems(2) len b by (auto simp: total_def)
  show ?case
  proof (cases "length (cc_entries c) \<ge> me \<or> cc_bytes c > mb - sz")
    case True
    then have ne: "L \<noteq> []" "E \<noteq> []" using cond E(2) by auto
    obtain k d u where l: "last E = (k, (d, u))" by (metis prod.exhaust)
    have "last L = (k, d)" using l E(2) ne by (simp add: last_map)
    have dist: "distinct (map fst L)" using E by (simp add: recent_def comp_def)
    have "last L \<in> set L" using ne by simp
    then have m: "map_of L k = Some d" using dist \<open>last L = (k, d)\<close> by simp
    have "del_key k (cc_entries c) = del_key (fst (last E)) (cc_entries c)" using l by simp
    have dk: "del_key k L = butlast L"
    proof -
      have "L = butlast L @ [(k, d)]" using ne \<open>last L = (k, d)\<close> by (metis append_butlast_last_id)
      then have "distinct (map fst (butlast L @ [(k, d)]))" using dist by metis
      then have "\<forall>x \<in> set (butlast L). fst x \<noteq> k" by force
      then have "del_key k (butlast L @ [(k, d)]) = butlast L" by (simp add: del_key_def filter_id_conv)
      then show ?thesis using \<open>L = butlast L @ [(k, d)]\<close> by metis
    qed
    note r = content_rel_del [OF less.prems(1) m, unfolded dk]
    from less.hyps [OF _ r(2) less.prems(2,3)] ne obtain c' where
      c': "content_evict cost me mb sz (c\<lparr>cc_bytes := cc_bytes c - cost d, cc_entries := del_key k (cc_entries c)\<rparr>) = Inr c'"
      "content_rel cost me mb c' (trim cost (me - 1) (mb - sz) (butlast L))" by auto
    have "trim cost (me - 1) (mb - sz) L = trim cost (me - 1) (mb - sz) (butlast L)"
      using True cond by (subst trim.simps) simp
    moreover have "content_evict cost me mb sz c = Inr c'"
      using True less.prems(3) recent_last(1) [OF E(1) ne(2)] l r(1) c'(1)
      by (subst content_evict.simps) (simp add: subE_def)
    ultimately show ?thesis using c' by auto
  next
    case False
    then have "trim cost (me - 1) (mb - sz) L = L" using cond by (subst trim.simps) auto
    then show ?thesis using False less.prems by (subst content_evict.simps) (auto simp: subE_def)
  qed
qed

lemma content_rel_put:
  assumes "content_rel cost me mb c L" "length (put_key k v L) \<le> me" "total cost (put_key k v L) \<le> mb"
  shows "content_rel cost me mb (c\<lparr>cc_clock := cc_clock c + 1, cc_bytes := total cost (put_key k v L),
     cc_entries := put_key k (v, cc_clock c + 1) (cc_entries c)\<rparr>) (put_key k v L)"
proof -
  from assms(1) obtain E where E: "recent snd (cc_clock c) (cc_entries c) E" "L = map (map_prod id fst) E"
    by (auto simp: content_rel_def)
  have "recent snd (Suc (cc_clock c)) (put_key k (v, Suc (cc_clock c)) (cc_entries c)) ((k, (v, Suc (cc_clock c))) # del_key k E)"
    by (rule recent_put [OF E(1)]) simp
  then show ?thesis
    using assms(2,3) E(2) by (auto simp: content_rel_def put_key_def del_key_map)
qed

lemma map_of_content: "content_rel cost me mb c L \<Longrightarrow> map_of L k = map_option fst (map_of (cc_entries c) k)"
  using recent_map_of by (fastforce simp: content_rel_def map_of_map_prod)

lemma content_rel_distinct: "content_rel cost me mb c L \<Longrightarrow> distinct (map fst L)"
  by (auto simp: content_rel_def recent_def comp_def)

lemma length_del_key: "length (del_key k L) \<le> length L"
  by (simp add: del_key_def)

lemma length_put_key: "map_of L k = Some v \<Longrightarrow> length (put_key k w L) \<le> length L"
  using del_key_shorter [of k v L] map_of_SomeD by (fastforce simp: put_key_def)

lemma trim_subset: "set (trim cost s r L) \<subseteq> set L"
proof (induction cost s r L rule: trim.induct)
  case (1 cost slots room L)
  then show ?case by (subst trim.simps) (auto dest: in_set_butlastD)
qed

lemma del_key_id: "k \<notin> fst ` set L \<Longrightarrow> del_key k L = L"
  by (auto simp: del_key_def filter_id_conv)

lemma content_get_rel:
  assumes "content_rel cost me mb c L"
  shows "\<exists>c'. content_get i c = (fst (content_spec m cost me mb (Get i) L), c')
    \<and> content_rel cost me mb c' (snd (content_spec m cost me mb (Get i) L))"
proof (cases "map_of (cc_entries c) i")
  case None
  then show ?thesis using assms map_of_content [OF assms, of i] by (simp add: content_get_def spec_get_def)
next
  case (Some e)
  obtain d u where e: "e = (d, u)" by (cases e)
  have m: "map_of L i = Some d" using map_of_content [OF assms, of i] Some e by simp
  have b: "length L \<le> me" "total cost L \<le> mb" "cc_bytes c = total cost L" using assms by (auto simp: content_rel_def)
  have t: "total cost (put_key i d L) = total cost L"
    using total_del_key [OF content_rel_distinct [OF assms], of cost i] m by (simp add: put_key_def total_def)
  have "content_rel cost me mb (c\<lparr>cc_clock := cc_clock c + 1, cc_bytes := total cost (put_key i d L),
     cc_entries := put_key i (d, cc_clock c + 1) (cc_entries c)\<rparr>) (put_key i d L)"
    by (rule content_rel_put [OF assms]) (use length_put_key [OF m, of d] b t in auto)
  then have "content_rel cost me mb (c\<lparr>cc_clock := cc_clock c + 1,
     cc_entries := put_key i (d, cc_clock c + 1) (cc_entries c)\<rparr>) (put_key i d L)"
    using t b(3) by (simp add: content_rel_def)
  then show ?thesis using m Some e by (simp add: content_get_def spec_get_def Let_def)
qed

lemma content_insert_rel:
  assumes "content_rel cost me mb c L" and mb: "mb < USIZE"
  shows "\<exists>c'. content_insert is_memory cost data me mb c = Inr c'
    \<and> content_rel cost me mb c' (content_spec_insert is_memory cost me mb data L)"
proof (cases "is_memory (vd_bytes data) \<and> 0 < me \<and> 0 < mb \<and> cost data \<le> mb")
  case False
  then show ?thesis using assms by (auto simp: content_insert_def content_spec_insert_def Let_def)
next
  case True
  let ?i = "vd_id data" and ?sz = "cost data"
  have "\<exists>c1. (case map_of (cc_entries c) ?i of None \<Rightarrow> Inr c
        | Some (old, _) \<Rightarrow> bindE (subE (cc_bytes c) (cost old)) (\<lambda>b.
              Inr (c\<lparr>cc_bytes := b, cc_entries := del_key ?i (cc_entries c)\<rparr>))) = Inr c1
      \<and> content_rel cost me mb c1 (del_key ?i L)"
  proof (cases "map_of (cc_entries c) ?i")
    case None
    then have "map_of L ?i = None" using map_of_content [OF assms(1), of ?i] by simp
    then have "?i \<notin> fst ` set L" by (simp add: map_of_eq_None_iff)
    then show ?thesis using None assms(1) by (simp add: del_key_id)
  next
    case (Some e)
    then obtain d u where e: "map_of (cc_entries c) ?i = Some (d, u)" by (cases e) auto
    then have "map_of L ?i = Some d" using map_of_content [OF assms(1), of ?i] by simp
    from content_rel_del [OF assms(1) this] show ?thesis by (auto simp: e subE_def)
  qed
  then obtain c1 where c1: "(case map_of (cc_entries c) ?i of None \<Rightarrow> Inr c
        | Some (old, _) \<Rightarrow> bindE (subE (cc_bytes c) (cost old)) (\<lambda>b.
              Inr (c\<lparr>cc_bytes := b, cc_entries := del_key ?i (cc_entries c)\<rparr>))) = Inr c1"
    "content_rel cost me mb c1 (del_key ?i L)" by blast
  let ?T = "trim cost (me - 1) (mb - ?sz) (del_key ?i L)"
  obtain c2 where c2: "content_evict cost me mb ?sz c1 = Inr c2" "content_rel cost me mb c2 ?T"
    using content_evict_rel [OF c1(2)] True by blast
  have "?i \<notin> fst ` set ?T" using trim_subset [of cost "me - 1" "mb - ?sz" "del_key ?i L"] by (auto simp: del_key_def)
  then have put: "put_key ?i data ?T = (?i, data) # ?T" by (simp add: put_key_def del_key_id)
  have fit: "length ?T \<le> me - 1" "total cost ?T \<le> mb - ?sz" using trim_fits by blast+
  have tot: "total cost (put_key ?i data ?T) = total cost ?T + ?sz" unfolding put by (simp add: total_def)
  have r: "content_rel cost me mb (c2\<lparr>cc_clock := cc_clock c2 + 1, cc_bytes := total cost (put_key ?i data ?T),
     cc_entries := put_key ?i (data, cc_clock c2 + 1) (cc_entries c2)\<rparr>) (put_key ?i data ?T)"
  proof (rule content_rel_put [OF c2(2)])
    have "Suc (length ?T) \<le> me" "total cost ?T + ?sz \<le> mb" using fit True by linarith+
    then show "length (put_key ?i data ?T) \<le> me" "total cost (put_key ?i data ?T) \<le> mb"
      using tot put by simp_all
  qed
  have b: "cc_bytes c2 = total cost ?T" using c2(2) by (simp add: content_rel_def)
  have "addE USIZE (total cost ?T) ?sz = Inr (total cost ?T + ?sz)" using fit(2) True mb by (auto simp: addE_def)
  then have "content_insert is_memory cost data me mb c = Inr (c2\<lparr>cc_clock := cc_clock c2 + 1,
      cc_bytes := total cost ?T + ?sz, cc_entries := put_key ?i (data, cc_clock c2 + 1) (cc_entries c2)\<rparr>)"
    using True c1(1) c2(1) b by (simp add: content_insert_def Let_def)
  then show ?thesis using r put tot True by (simp add: content_spec_insert_def)
qed

text \<open>The cache keeps to its limits, and the specification never sees more.\<close>

lemma content_step_rel:
  assumes "content_rel cost me mb c L" "mb < USIZE"
  shows "\<exists>c'. content_step m cost me mb op c = Inr (fst (content_spec m cost me mb op L), c')
    \<and> content_rel cost me mb c' (snd (content_spec m cost me mb op L))"
proof (cases op)
  case (Get i)
  then show ?thesis using content_get_rel [OF assms(1), of i m] by auto
next
  case (Insert d)
  then show ?thesis using content_insert_rel [OF assms, of m d] by auto
qed

interpretation content: bounded_cache "\<lambda>c L. content_rel cost me mb c L \<and> mb < USIZE" "content_step m cost me mb"
    "content_spec m cost me mb" "\<lambda>c. length (cc_entries c) \<le> me \<and> cc_bytes c \<le> mb"
  for m cost me mb
proof
  fix c L op
  assume "content_rel cost me mb c L \<and> mb < USIZE"
  then show "\<exists>c'. content_step m cost me mb op c = Inr (fst (content_spec m cost me mb op L), c')
    \<and> content_rel cost me mb c' (snd (content_spec m cost me mb op L)) \<and> mb < USIZE"
    using content_step_rel by blast
next
  fix c L
  assume "content_rel cost me mb c L \<and> mb < USIZE"
  then show "length (cc_entries c) \<le> me \<and> cc_bytes c \<le> mb"
    using recent_set by (fastforce simp: content_rel_def)
qed


section \<open>ArNS resolutions\<close>

text \<open>Operations carry the instant they run at.\<close>

fun arns_spec :: "(nat \<times> str, nat \<times> Resolution) cache_op \<Rightarrow> (str \<times> Resolution) list
    \<Rightarrow> Resolution option \<times> (str \<times> Resolution) list" where
  "arns_spec (Get (now, name)) L = (case map_of L name of None \<Rightarrow> (None, L)
     | Some r \<Rightarrow> if rs_expires_at r \<le> now then (None, del_key name L) else (Some r, put_key name r L))"
| "arns_spec (Insert (now, r)) L =
     (None, if rs_expires_at r \<le> now then L else take MAX_CACHED_ARNS_RESOLUTIONS (put_key (rs_name r) r L))"

fun arns_step :: "(nat \<times> str, nat \<times> Resolution) cache_op \<Rightarrow> ArnsCache \<Rightarrow> (Resolution option \<times> ArnsCache) res" where
  "arns_step (Get (now, name)) c = Inr (arns_get now name c)"
| "arns_step (Insert (now, r)) c = bindE (arns_insert now r c) (\<lambda>c. Inr (None, c))"

definition arns_rel :: "ArnsCache \<Rightarrow> (str \<times> Resolution) list \<Rightarrow> bool" where
  "arns_rel c L \<longleftrightarrow> (\<exists>E. recent snd (ac_clock c) (ac_entries c) E \<and> L = map (map_prod id fst) E)
     \<and> length L \<le> MAX_CACHED_ARNS_RESOLUTIONS"

lemma arns_rel_put:
  assumes "recent snd (ac_clock c) (ac_entries c) E"
  shows "recent snd (Suc (ac_clock c)) (put_key k (v, Suc (ac_clock c)) (ac_entries c)) ((k, (v, Suc (ac_clock c))) # del_key k E)
    \<and> map (map_prod id fst) ((k, (v, Suc (ac_clock c))) # del_key k E) = put_key k v (map (map_prod id fst) E)"
  using recent_put [OF assms, of "(v, Suc (ac_clock c))" k] by (simp add: put_key_def del_key_map)

lemma arns_get_rel:
  assumes "arns_rel c L"
  shows "\<exists>c'. arns_get now name c = (fst (arns_spec (Get (now, name)) L), c') \<and> arns_rel c' (snd (arns_spec (Get (now, name)) L))"
proof -
  from assms obtain E where E: "recent snd (ac_clock c) (ac_entries c) E" "L = map (map_prod id fst) E"
    and n: "length L \<le> MAX_CACHED_ARNS_RESOLUTIONS" by (auto simp: arns_rel_def)
  have m: "map_of L name = map_option fst (map_of (ac_entries c) name)"
    using recent_map_of [OF E(1)] E(2) by (simp add: map_of_map_prod)
  show ?thesis
  proof (cases "map_of (ac_entries c) name")
    case None
    then show ?thesis using m assms by (simp add: arns_get_def)
  next
    case (Some e)
    obtain r u where e: "e = (r, u)" by (cases e)
    have mr: "map_of L name = Some r" using m Some e by simp
    have "arns_rel (c\<lparr>ac_entries := del_key name (ac_entries c)\<rparr>) (del_key name L)"
      using recent_del [OF E(1), of name] E(2) n length_del_key [of name L] by (auto simp: arns_rel_def del_key_map)
    moreover have "arns_rel (c\<lparr>ac_clock := Suc (ac_clock c), ac_entries := put_key name (r, Suc (ac_clock c)) (ac_entries c)\<rparr>) (put_key name r L)"
      using arns_rel_put [OF E(1), of name r] E(2) n length_put_key [OF mr, of r] unfolding arns_rel_def by fastforce
    ultimately show ?thesis using mr Some e by (simp add: arns_get_def Let_def)
  qed
qed

lemma arns_insert_rel:
  assumes "arns_rel c L"
  shows "\<exists>c'. arns_insert now r c = Inr c' \<and> arns_rel c' (snd (arns_spec (Insert (now, r)) L))"
proof -
  from assms obtain E where E: "recent snd (ac_clock c) (ac_entries c) E" "L = map (map_prod id fst) E"
    and n: "length L \<le> MAX_CACHED_ARNS_RESOLUTIONS" by (auto simp: arns_rel_def)
  let ?k = "rs_name r" and ?u = "Suc (ac_clock c)"
  let ?es = "put_key ?k (r, ?u) (ac_entries c)" and ?E = "(?k, (r, ?u)) # del_key ?k E" and ?L = "put_key ?k r L"
  have P: "recent snd ?u ?es ?E" "map (map_prod id fst) ?E = ?L" using arns_rel_put [OF E(1), of ?k r] E(2) by simp_all
  have len: "length ?es = length ?L" using recent_set [OF P(1)] P(2) by (metis length_map)
  have short: "length ?L \<le> Suc (length L)" using length_del_key [of ?k L] by (simp add: put_key_def)
  show ?thesis
  proof (cases "rs_expires_at r \<le> now")
    case True
    then show ?thesis using assms by (simp add: arns_insert_def)
  next
    case False
    show ?thesis
    proof (cases "length ?es > MAX_CACHED_ARNS_RESOLUTIONS")
      case True
      obtain k e where l: "last ?E = (k, e)" by (cases "last ?E")
      have o: "oldest snd ?es = Some (k, e)" "recent snd ?u (del_key k ?es) (butlast ?E)"
        using recent_last [OF P(1)] l by simp_all
      have "take MAX_CACHED_ARNS_RESOLUTIONS ?L = butlast ?L"
      proof -
        have "length ?L - 1 = MAX_CACHED_ARNS_RESOLUTIONS" using True len n short by linarith
        then show ?thesis unfolding butlast_conv_take by simp
      qed
      moreover have "map (map_prod id fst) (butlast ?E) = butlast ?L" using P(2) by (metis map_butlast)
      moreover have "length (butlast ?L) \<le> MAX_CACHED_ARNS_RESOLUTIONS" using n short by simp
      ultimately have "arns_rel (c\<lparr>ac_clock := ?u, ac_entries := del_key k ?es\<rparr>) (take MAX_CACHED_ARNS_RESOLUTIONS ?L)"
        unfolding arns_rel_def using o(2) by (intro conjI exI [of _ "butlast ?E"]) simp_all
      then show ?thesis using False True o(1) by (simp add: arns_insert_def Let_def)
    next
      case small: False
      then have s: "length ?L \<le> MAX_CACHED_ARNS_RESOLUTIONS" using len by linarith
      have "arns_rel (c\<lparr>ac_clock := ?u, ac_entries := ?es\<rparr>) ?L"
        unfolding arns_rel_def by (intro conjI exI [of _ ?E] s) (use P in simp_all)
      moreover have "take MAX_CACHED_ARNS_RESOLUTIONS ?L = ?L" using s by simp
      ultimately show ?thesis using False small by (simp add: arns_insert_def Let_def)
    qed
  qed
qed

interpretation arns: bounded_cache arns_rel arns_step arns_spec "\<lambda>c. length (ac_entries c) \<le> MAX_CACHED_ARNS_RESOLUTIONS"
proof
  fix c L op
  assume r: "arns_rel c L"
  show "\<exists>c'. arns_step op c = Inr (fst (arns_spec op L), c') \<and> arns_rel c' (snd (arns_spec op L))"
  proof (cases op)
    case (Get k)
    then show ?thesis using arns_get_rel [OF r, of "fst k" "snd k"] by (cases k) auto
  next
    case (Insert v)
    then show ?thesis using arns_insert_rel [OF r, of "fst v" "snd v"] by (cases v) auto
  qed
next
  fix c L
  assume "arns_rel c L"
  then show "length (ac_entries c) \<le> MAX_CACHED_ARNS_RESOLUTIONS" using recent_set by (fastforce simp: arns_rel_def)
qed


section \<open>Manifest paths\<close>

type_synonym manifest_entry = "str \<times> (str \<times> ManifestResolution option) list"

abbreviation entry_view :: "CachedManifest \<Rightarrow> manifest_entry" where
  "entry_view m \<equiv> (cm_digest m, cm_paths m)"

abbreviation entry_paths :: "manifest_entry \<Rightarrow> nat" where
  "entry_paths e \<equiv> length (snd e)"

fun manifest_spec ::
  "('c VerifiedData \<times> str, 'c VerifiedData \<times> str \<times> ManifestResolution option) cache_op
     \<Rightarrow> (str \<times> manifest_entry) list \<Rightarrow> ManifestResolution option option \<times> (str \<times> manifest_entry) list" where
  "manifest_spec (Get (v, path)) L = (case map_of L (vd_id v) of
       None \<Rightarrow> (None, L)
     | Some (digest, ps) \<Rightarrow> if digest \<noteq> vd_etag v then (None, L)
         else (case map_of ps path of None \<Rightarrow> (None, L) | Some r \<Rightarrow> (Some r, put_key (vd_id v) (digest, ps) L)))"
| "manifest_spec (Insert (v, path, target)) L =
     (let ps = (case map_of L (vd_id v) of None \<Rightarrow> [] | Some (digest, ps) \<Rightarrow> if digest = vd_etag v then ps else []);
          L = put_key (vd_id v) (vd_etag v, put_key path target ps) L
      in (None, trim entry_paths (length L) MAX_CACHED_MANIFEST_PATHS L))"

fun manifest_step ::
  "('c VerifiedData \<times> str, 'c VerifiedData \<times> str \<times> ManifestResolution option) cache_op
     \<Rightarrow> ManifestCache \<Rightarrow> (ManifestResolution option option \<times> ManifestCache) res" where
  "manifest_step (Get (v, path)) c = Inr (manifest_get v path c)"
| "manifest_step (Insert (v, path, target)) c = bindE (manifest_insert v path target c) (\<lambda>c. Inr (None, c))"

definition manifest_sim :: "ManifestCache \<Rightarrow> (str \<times> manifest_entry) list \<Rightarrow> bool" where
  "manifest_sim c L \<longleftrightarrow> (\<exists>E. recent cm_used (mc_clock c) (mc_entries c) E \<and> L = map (map_prod id entry_view) E)
     \<and> mc_paths c = total entry_paths L \<and> (\<forall>x \<in> set L. distinct (map fst (snd (snd x))))"

definition manifest_rel :: "ManifestCache \<Rightarrow> (str \<times> manifest_entry) list \<Rightarrow> bool" where
  "manifest_rel c L \<longleftrightarrow> manifest_sim c L \<and> mc_paths c \<le> MAX_CACHED_MANIFEST_PATHS"

lemma manifest_sim_distinct: "manifest_sim c L \<Longrightarrow> distinct (map fst L)"
  by (auto simp: manifest_sim_def recent_def comp_def)

lemma map_of_manifest: "manifest_sim c L \<Longrightarrow> map_of L k = map_option entry_view (map_of (mc_entries c) k)"
  using recent_map_of by (fastforce simp: manifest_sim_def map_of_map_prod)

lemma manifest_sim_del:
  assumes "manifest_sim c L" "map_of (mc_entries c) k = Some m"
  shows "length (cm_paths m) \<le> mc_paths c"
    "manifest_sim (c\<lparr>mc_paths := mc_paths c - length (cm_paths m), mc_entries := del_key k (mc_entries c)\<rparr>) (del_key k L)"
proof -
  from assms(1) obtain E where E: "recent cm_used (mc_clock c) (mc_entries c) E" "L = map (map_prod id entry_view) E"
    and b: "mc_paths c = total entry_paths L" "\<forall>x \<in> set L. distinct (map fst (snd (snd x)))" by (auto simp: manifest_sim_def)
  have t: "total entry_paths L = total entry_paths (del_key k L) + length (cm_paths m)"
    using total_del_key [OF manifest_sim_distinct [OF assms(1)], of entry_paths k] map_of_manifest [OF assms(1), of k] assms(2) by simp
  show "length (cm_paths m) \<le> mc_paths c" using t b(1) by simp
  have "recent cm_used (mc_clock c) (del_key k (mc_entries c)) (del_key k E)" by (rule recent_del [OF E(1)])
  then show "manifest_sim (c\<lparr>mc_paths := mc_paths c - length (cm_paths m), mc_entries := del_key k (mc_entries c)\<rparr>) (del_key k L)"
    unfolding manifest_sim_def using t b E(2)
    by (intro conjI exI [of _ "del_key k E"]) (simp_all add: del_key_map, simp add: del_key_def)
qed

lemma manifest_sim_put:
  assumes "manifest_sim c L" "cm_used m = Suc (mc_clock c)" "distinct (map fst (cm_paths m))"
    "n = total entry_paths (put_key k (entry_view m) L)"
  shows "manifest_sim (c\<lparr>mc_clock := Suc (mc_clock c), mc_paths := n, mc_entries := put_key k m (mc_entries c)\<rparr>)
    (put_key k (entry_view m) L)"
proof -
  from assms(1) obtain E where E: "recent cm_used (mc_clock c) (mc_entries c) E" "L = map (map_prod id entry_view) E"
    and b: "\<forall>x \<in> set L. distinct (map fst (snd (snd x)))" by (auto simp: manifest_sim_def)
  have r: "recent cm_used (Suc (mc_clock c)) (put_key k m (mc_entries c)) ((k, m) # del_key k E)" by (rule recent_put [OF E(1) assms(2)])
  have v: "map (map_prod id entry_view) ((k, m) # del_key k E) = put_key k (entry_view m) L"
    using E(2) by (simp add: put_key_def del_key_map)
  have "\<forall>x \<in> set (put_key k (entry_view m) L). distinct (map fst (snd (snd x)))"
    using b assms(3) by (auto simp: put_key_def del_key_def)
  then show ?thesis
    unfolding manifest_sim_def using r v assms(4) by (intro conjI exI [of _ "(k, m) # del_key k E"]) simp_all
qed

lemma butlast_del_key: "L \<noteq> [] \<Longrightarrow> distinct (map fst L) \<Longrightarrow> del_key (fst (last L)) L = butlast L"
proof -
  assume "L \<noteq> []" "distinct (map fst L)"
  then obtain M l where L: "L = M @ [l]" "fst l \<notin> fst ` set M" by (cases L rule: rev_cases) auto
  then show ?thesis using del_key_id [of "fst l" M] by (simp add: del_key_def)
qed

lemma manifest_evict_rel:
  assumes "manifest_sim c L" "length L \<le> slots"
  shows "\<exists>c'. manifest_evict c = Inr c' \<and> manifest_rel c' (trim entry_paths slots MAX_CACHED_MANIFEST_PATHS L)"
  using assms
proof (induction "length L" arbitrary: c L rule: less_induct)
  case less
  from less.prems(1) obtain E where E: "recent cm_used (mc_clock c) (mc_entries c) E" "L = map (map_prod id entry_view) E"
    and b: "mc_paths c = total entry_paths L" by (auto simp: manifest_sim_def)
  have cond: "mc_paths c > MAX_CACHED_MANIFEST_PATHS \<longleftrightarrow> L \<noteq> [] \<and> (slots < length L \<or> MAX_CACHED_MANIFEST_PATHS < total entry_paths L)"
    using less.prems(2) b by (auto simp: total_def)
  show ?case
  proof (cases "mc_paths c > MAX_CACHED_MANIFEST_PATHS")
    case True
    then have ne: "L \<noteq> []" "E \<noteq> []" using cond E(2) by auto
    obtain k m where l: "last E = (k, m)" by (cases "last E")
    have o: "oldest cm_used (mc_entries c) = Some (k, m)" using recent_last(1) [OF E(1) ne(2)] l by simp
    have "(k, m) \<in> set (mc_entries c)" by (rule oldest_in [OF o])
    then have mo: "map_of (mc_entries c) k = Some m" using recent_distinct [OF E(1)] by simp
    have "fst (last L) = k" using E(2) ne l by (simp add: last_map)
    then have dk: "del_key k L = butlast L" using butlast_del_key [OF ne(1) manifest_sim_distinct [OF less.prems(1)]] by simp
    note r = manifest_sim_del [OF less.prems(1) mo, unfolded dk]
    have "length (butlast L) < length L" "length (butlast L) \<le> slots" using ne(1) less.prems(2) by simp_all
    from less.hyps [OF this(1) r(2) this(2)] obtain c' where
      c': "manifest_evict (c\<lparr>mc_paths := mc_paths c - length (cm_paths m), mc_entries := del_key k (mc_entries c)\<rparr>) = Inr c'"
      "manifest_rel c' (trim entry_paths slots MAX_CACHED_MANIFEST_PATHS (butlast L))" by auto
    have "trim entry_paths slots MAX_CACHED_MANIFEST_PATHS L = trim entry_paths slots MAX_CACHED_MANIFEST_PATHS (butlast L)"
      using True cond by (subst trim.simps) simp
    moreover have "manifest_evict c = Inr c'"
      using True o r(1) c'(1) by (subst manifest_evict.simps) (simp add: subE_def)
    ultimately show ?thesis using c' by auto
  next
    case False
    then have "trim entry_paths slots MAX_CACHED_MANIFEST_PATHS L = L" using cond by (subst trim.simps) auto
    then show ?thesis using False less.prems by (subst manifest_evict.simps) (auto simp: manifest_rel_def)
  qed
qed

lemma length_put_key_fresh:
  "distinct (map fst ps) \<Longrightarrow> length (put_key k v ps) = length ps + (if map_of ps k = None then 1 else 0)"
  using total_del_key [of ps "\<lambda>_. 1" k] by (auto simp: put_key_def total_def sum_list_triv split: option.splits)

lemma distinct_put_key: "distinct (map fst ps) \<Longrightarrow> distinct (map fst (put_key k v ps))"
  by (auto simp: put_key_def del_key_def distinct_map_filter)

lemma put_key_del_key: "put_key k v (del_key k L) = put_key k v L"
  by (simp add: put_key_def del_key_def)

lemma map_of_del_key [simp]: "map_of (del_key k xs) k = None"
  by (auto simp: map_of_eq_None_iff del_key_def)

lemma manifest_get_rel:
  assumes "manifest_rel c L"
  shows "\<exists>c'. manifest_get v path c = (fst (manifest_spec (Get (v, path)) L), c') \<and> manifest_rel c' (snd (manifest_spec (Get (v, path)) L))"
proof (cases "map_of (mc_entries c) (vd_id v)")
  case None
  then show ?thesis using assms map_of_manifest [of c L "vd_id v"] by (simp add: manifest_get_def manifest_rel_def)
next
  case (Some m)
  have sim: "manifest_sim c L" "mc_paths c \<le> MAX_CACHED_MANIFEST_PATHS" using assms by (simp_all add: manifest_rel_def)
  have ml: "map_of L (vd_id v) = Some (entry_view m)" using map_of_manifest [OF sim(1), of "vd_id v"] Some by simp
  have t: "total entry_paths (put_key (vd_id v) (entry_view m) L) = mc_paths c"
    using total_del_key [OF manifest_sim_distinct [OF sim(1)], of entry_paths "vd_id v"] ml sim(1)
    by (simp add: put_key_def total_def manifest_sim_def)
  have "(vd_id v, entry_view m) \<in> set L" using ml by (rule map_of_SomeD)
  then have d: "distinct (map fst (cm_paths m))" using sim(1) by (force simp: manifest_sim_def)
  have "manifest_sim (c\<lparr>mc_clock := Suc (mc_clock c), mc_paths := mc_paths c,
      mc_entries := put_key (vd_id v) (m\<lparr>cm_used := Suc (mc_clock c)\<rparr>) (mc_entries c)\<rparr>) (put_key (vd_id v) (entry_view m) L)"
    using manifest_sim_put [OF sim(1), of "m\<lparr>cm_used := Suc (mc_clock c)\<rparr>" "mc_paths c" "vd_id v"] d t by simp
  then have "manifest_rel (c\<lparr>mc_clock := Suc (mc_clock c),
      mc_entries := put_key (vd_id v) (m\<lparr>cm_used := Suc (mc_clock c)\<rparr>) (mc_entries c)\<rparr>) (put_key (vd_id v) (entry_view m) L)"
    using sim(2) by (simp add: manifest_rel_def manifest_sim_def)
  then show ?thesis
    using Some ml assms by (cases "map_of (cm_paths m) path"; cases "cm_digest m = vd_etag v") (auto simp: manifest_get_def Let_def)
qed

lemma manifest_insert_rel:
  assumes "manifest_rel c L"
  shows "\<exists>c'. manifest_insert v path target c = Inr c' \<and> manifest_rel c' (snd (manifest_spec (Insert (v, path, target)) L))"
proof -
  let ?i = "vd_id v" and ?e = "vd_etag v"
  have sim: "manifest_sim c L" "mc_paths c \<le> MAX_CACHED_MANIFEST_PATHS" using assms by (simp_all add: manifest_rel_def)
  let ?ps = "case map_of L ?i of None \<Rightarrow> [] | Some (digest, ps) \<Rightarrow> if digest = ?e then ps else []"
  let ?old = "\<lambda>c. case map_of (mc_entries c) ?i of
           None \<Rightarrow> \<lparr>cm_digest = ?e, cm_paths = [], cm_used = mc_clock c + 1\<rparr> | Some manifest \<Rightarrow> manifest"
  have "\<exists>c1 L1. (case map_of (mc_entries c) ?i of None \<Rightarrow> Inr c
       | Some entry \<Rightarrow> if cm_digest entry \<noteq> ?e then
             bindE (subE (mc_paths c) (length (cm_paths entry))) (\<lambda>n.
             Inr (c\<lparr>mc_paths := n, mc_entries := del_key ?i (mc_entries c)\<rparr>)) else Inr c) = Inr c1
     \<and> manifest_sim c1 L1 \<and> mc_paths c1 \<le> MAX_CACHED_MANIFEST_PATHS \<and> (\<forall>x. put_key ?i x L1 = put_key ?i x L)
     \<and> cm_digest (?old c1) = ?e \<and> cm_paths (?old c1) = ?ps
     \<and> map_of L1 ?i = (if map_of (mc_entries c1) ?i = None then None else Some (?e, ?ps))"
  proof (cases "map_of (mc_entries c) ?i")
    case None
    then show ?thesis using sim map_of_manifest [OF sim(1), of ?i] by auto
  next
    case (Some m)
    have ml: "map_of L ?i = Some (entry_view m)" using map_of_manifest [OF sim(1), of ?i] Some by simp
    show ?thesis
    proof (cases "cm_digest m = ?e")
      case True
      then show ?thesis using Some ml sim by auto
    next
      case False
      note r = manifest_sim_del [OF sim(1) Some]
      show ?thesis
        using Some ml False r sim(2)
        by (intro exI [of _ "c\<lparr>mc_paths := mc_paths c - length (cm_paths m), mc_entries := del_key ?i (mc_entries c)\<rparr>"]
            exI [of _ "del_key ?i L"]) (simp add: subE_def put_key_del_key)
    qed
  qed
  then obtain c1 L1 where c1: "(case map_of (mc_entries c) ?i of None \<Rightarrow> Inr c
       | Some entry \<Rightarrow> if cm_digest entry \<noteq> ?e then
             bindE (subE (mc_paths c) (length (cm_paths entry))) (\<lambda>n.
             Inr (c\<lparr>mc_paths := n, mc_entries := del_key ?i (mc_entries c)\<rparr>)) else Inr c) = Inr c1"
    "manifest_sim c1 L1" "mc_paths c1 \<le> MAX_CACHED_MANIFEST_PATHS" "\<And>x. put_key ?i x L1 = put_key ?i x L"
    and m: "cm_digest (?old c1) = ?e" "cm_paths (?old c1) = ?ps"
    and l1: "map_of L1 ?i = (if map_of (mc_entries c1) ?i = None then None else Some (?e, ?ps))"
    by blast
  let ?m = "(?old c1)\<lparr>cm_used := Suc (mc_clock c1), cm_paths := put_key path target ?ps\<rparr>"
  have d: "distinct (map fst ?ps)"
  proof (cases "map_of L ?i")
    case (Some x)
    from map_of_SomeD [OF this] sim(1) have "distinct (map fst (snd x))" by (force simp: manifest_sim_def)
    then show ?thesis using Some by (cases x) auto
  qed simp
  let ?n = "if map_of ?ps path = None then mc_paths c1 + 1 else mc_paths c1"
  have view: "entry_view ?m = (?e, put_key path target ?ps)" using m by simp
  have tot: "?n = total entry_paths (put_key ?i (entry_view ?m) L1)"
  proof -
    have "total entry_paths (put_key ?i (entry_view ?m) L1) = total entry_paths (del_key ?i L1) + length (put_key path target ?ps)"
      unfolding view by (simp add: put_key_def total_def)
    moreover have "mc_paths c1 = total entry_paths (del_key ?i L1) + length ?ps"
    proof (cases "map_of (mc_entries c1) ?i")
      case None
      then have "?ps = []" using m(2) by simp
      then show ?thesis
        using None total_del_key [OF manifest_sim_distinct [OF c1(2)], of entry_paths ?i] c1(2) l1 by (simp add: manifest_sim_def)
    next
      case (Some y)
      then show ?thesis
        using total_del_key [OF manifest_sim_distinct [OF c1(2)], of entry_paths ?i] c1(2) l1 by (simp add: manifest_sim_def)
    qed
    ultimately show ?thesis using length_put_key_fresh [OF d, of path target] by simp
  qed
  have "manifest_sim (c1\<lparr>mc_clock := Suc (mc_clock c1), mc_paths := ?n, mc_entries := put_key ?i ?m (mc_entries c1)\<rparr>)
      (put_key ?i (entry_view ?m) L1)"
    by (rule manifest_sim_put [OF c1(2) _ _ tot]) (use distinct_put_key [OF d] in simp_all)
  then have sim2: "manifest_sim (c1\<lparr>mc_clock := Suc (mc_clock c1), mc_paths := ?n, mc_entries := put_key ?i ?m (mc_entries c1)\<rparr>)
      (put_key ?i (?e, put_key path target ?ps) L)" unfolding view c1(4) .
  from manifest_evict_rel [OF sim2 order_refl] obtain c' where
    c': "manifest_evict (c1\<lparr>mc_clock := Suc (mc_clock c1), mc_paths := ?n, mc_entries := put_key ?i ?m (mc_entries c1)\<rparr>) = Inr c'"
    "manifest_rel c' (snd (manifest_spec (Insert (v, path, target)) L))" by (auto simp: Let_def)
  have add: "(if map_of ?ps path = None then addE USIZE (mc_paths c1) 1 else Inr (mc_paths c1)) = Inr ?n"
    using c1(3) by (simp add: addE_def MAX_CACHED_MANIFEST_PATHS_def U64_def)
  have "manifest_insert v path target c = Inr c'"
    unfolding manifest_insert_def c1(1) bindE_Inr Let_def using c'(1) add m(2) by simp
  then show ?thesis using c'(2) by blast
qed

interpretation manifest: bounded_cache manifest_rel manifest_step manifest_spec "\<lambda>c. mc_paths c \<le> MAX_CACHED_MANIFEST_PATHS"
proof
  fix c L op
  assume r: "manifest_rel c L"
  show "\<exists>c'. manifest_step op c = Inr (fst (manifest_spec op L), c') \<and> manifest_rel c' (snd (manifest_spec op L))"
  proof (cases op)
    case (Get k)
    then show ?thesis using manifest_get_rel [OF r, of "fst k" "snd k"] by (cases k) auto
  next
    case (Insert x)
    obtain v p t where x: "x = (v, p, t)" by (cases x)
    obtain c' where "manifest_insert v p t c = Inr c'" "manifest_rel c' (snd (manifest_spec (Insert (v, p, t)) L))"
      using manifest_insert_rel [OF r] by blast
    then show ?thesis unfolding Insert x by (simp add: Let_def)
  qed
next
  fix c L
  assume "manifest_rel c L"
  then show "mc_paths c \<le> MAX_CACHED_MANIFEST_PATHS" by (simp add: manifest_rel_def)
qed


section \<open>The caches are least-recently-used lists\<close>

definition empty_content :: "'c ContentCache" where
  "empty_content = \<lparr>cc_entries = [], cc_bytes = 0, cc_clock = 0\<rparr>"

definition empty_arns :: ArnsCache where "empty_arns = \<lparr>ac_entries = [], ac_clock = 0\<rparr>"

definition empty_manifest :: ManifestCache where
  "empty_manifest = \<lparr>mc_entries = [], mc_paths = 0, mc_clock = 0\<rparr>"

lemma empty_rels: "content_rel cost me mb empty_content []" "arns_rel empty_arns []" "manifest_rel empty_manifest []"
  by (simp_all add: content_rel_def empty_content_def arns_rel_def empty_arns_def manifest_rel_def manifest_sim_def
      empty_manifest_def total_def)

text \<open>C13. The content cache is a least-recently-used list: from the empty cache, any sequence of lookups and inserts
  runs without panic, returns what a list of entries ordered by last use returns (a hit moves to the front, an
  insert that fits replaces its key and drops entries from the far end until it fits), stays related to that list,
  and never holds more entries or more bytes than configured.\<close>

theorem content_cache_lru:
  assumes "max_bytes < USIZE"
  shows "\<exists>c. run_cache (content_step is_memory cost max_entries max_bytes) ops empty_content =
      Inr (fst (run_spec (content_spec is_memory cost max_entries max_bytes) ops []), c)
    \<and> content_rel cost max_entries max_bytes c (snd (run_spec (content_spec is_memory cost max_entries max_bytes) ops []))
    \<and> length (cc_entries c) \<le> max_entries \<and> cc_bytes c \<le> max_bytes"
  using content.run [of cost max_entries max_bytes empty_content "[]" is_memory ops] empty_rels(1) assms by auto

text \<open>The ArNS cache is a least-recently-used list of at most 4096 unexpired resolutions: any sequence of
  lookups and inserts, at any instants, runs without panic and returns what the list specification returns, where
  a lookup of an expired resolution drops it.\<close>

theorem arns_cache_lru:
  "\<exists>c. run_cache arns_step ops empty_arns = Inr (fst (run_spec arns_spec ops []), c)
    \<and> arns_rel c (snd (run_spec arns_spec ops [])) \<and> length (ac_entries c) \<le> MAX_CACHED_ARNS_RESOLUTIONS"
  by (rule arns.run [OF empty_rels(2)])

text \<open>C14. The manifest cache keeps its count of paths exact and within 1024: any sequence of lookups and inserts runs
  without panic (no subtraction of the count underflows and no eviction finds the cache empty) and returns what
  the list specification returns, where a manifest whose digest changed starts again without paths.\<close>

theorem manifest_cache_invariant:
  "\<exists>c. run_cache manifest_step ops empty_manifest = Inr (fst (run_spec manifest_spec ops []), c)
    \<and> manifest_rel c (snd (run_spec manifest_spec ops [])) \<and> mc_paths c \<le> MAX_CACHED_MANIFEST_PATHS"
  by (rule manifest.run [OF empty_rels(3)])

definition s_data_of :: "str \<Rightarrow> nat \<Rightarrow> nat VerifiedData" where
  "s_data_of i n = \<lparr>vd_bytes = n, vd_cache_hit = False, vd_id = i, vd_block_height = 1, vd_block_hash = None,
     vd_stable_anchor = True, vd_content_type = [], vd_content_encoding = None, vd_content_length = n,
     vd_etag = [], vd_sha256 = [], vd_indexing_root = None\<rparr>"

lemma trim_stop: "length L \<le> slots \<Longrightarrow> total cost L \<le> room \<Longrightarrow> trim cost slots room L = L"
  by (subst trim.simps) simp

lemma trim_more: "slots < length L \<Longrightarrow> trim cost slots room L = trim cost slots room (butlast L)"
  by (subst trim.simps) auto

theorem content_cache_lru_witness:
  "\<exists>c. run_cache (content_step (\<lambda>_. True) vd_bytes 2 10)
      [Insert (s_data_of ''a'' 3), Insert (s_data_of ''b'' 4), Get ''a'', Insert (s_data_of ''c'' 5), Get ''b''] empty_content =
      Inr ([None, None, Some ((s_data_of ''a'' 3)\<lparr>vd_cache_hit := True\<rparr>), None, None], c)
    \<and> length (cc_entries c) \<le> 2 \<and> cc_bytes c \<le> 10"
proof -
  let ?ops = "[Insert (s_data_of ''a'' 3), Insert (s_data_of ''b'' 4), Get ''a'', Insert (s_data_of ''c'' 5), Get ''b'']"
  have r: "run_spec (content_spec (\<lambda>_. True) vd_bytes 2 10) ?ops [] =
      ([None, None, Some ((s_data_of ''a'' 3)\<lparr>vd_cache_hit := True\<rparr>), None, None], [(''c'', s_data_of ''c'' 5), (''a'', s_data_of ''a'' 3)])"
    by (simp add: content_spec_insert_def spec_get_def put_key_def del_key_def s_data_of_def trim_stop trim_more total_def)
  show ?thesis
    using content_cache_lru [of 10 "\<lambda>_. True" vd_bytes 2 ?ops] unfolding r by (auto simp: U64_def)
qed

end
