(* ===== verification/AnchorProofs.thy ===== *)
theory AnchorProofs
  imports Anchor StreamProofs HeaderProofs CacheProofs
begin

text \<open>
  The search for the block of a weave offset is exact for an honest index, and the cache of chunks
  serves only chunks proven under a block the index still confirms.
\<close>

section \<open>An honest index\<close>

text \<open>
  The chain up to a tip as its records in wire form; weave sizes never decrease, and a block that
  extends the weave has a root.
\<close>

definition chain_weave :: "(nat \<Rightarrow> bytes \<times> bytes \<times> bytes) \<Rightarrow> nat \<Rightarrow> nat" where
  "chain_weave ledger h = be_nat (fst (snd (ledger h)))"

definition chain_before :: "(nat \<Rightarrow> bytes \<times> bytes \<times> bytes) \<Rightarrow> nat \<Rightarrow> nat" where
  "chain_before ledger h = (if h = 0 then 0 else chain_weave ledger (h - 1))"

definition chain_ok :: "(nat \<Rightarrow> bytes \<times> bytes \<times> bytes) \<Rightarrow> nat \<Rightarrow> bool" where
  "chain_ok ledger tip \<longleftrightarrow> (\<forall>h \<le> tip. entry_ok (ledger h) \<and> chain_before ledger h \<le> chain_weave ledger h
     \<and> (chain_before ledger h < chain_weave ledger h \<longrightarrow> length (snd (snd (ledger h))) = 32))"

text \<open>The trusted node answers every range of at most 256 blocks with the records of the chain.\<close>

definition honest :: "anchors \<Rightarrow> (nat \<Rightarrow> bytes \<times> bytes \<times> bytes) \<Rightarrow> nat \<Rightarrow> bool" where
  "honest T ledger tip \<longleftrightarrow> (\<forall>start stop. start \<le> stop \<and> stop \<le> tip \<and> stop - start < 256 \<longrightarrow>
     (\<exists>parts. concat parts = concat (map (\<lambda>h. encode_block_entry (ledger h)) [start..<Suc stop])
        \<and> (t_index T start stop = Answered None (map Inr parts)
           \<or> t_index T start stop = Answered (Some (length (concat parts))) (map Inr parts))))"

lemma read_body_parts:
  "length body + length (concat parts) \<le> limit \<Longrightarrow> limit < USIZE \<Longrightarrow>
     read_body limit body (map Inr parts) = Inr (body @ concat parts)"
  by (induction parts arbitrary: body) (auto simp: saturating_add_def)

lemma encode_block_entry_length: "entry_ok e \<Longrightarrow> length (encode_block_entry e) \<le> 99"
  by (auto simp: entry_ok_def encode_block_entry_def split: prod.splits)

lemma encoded_length:
  "list_all entry_ok es \<Longrightarrow> length (concat (map encode_block_entry es)) \<le> length es * 99"
  by (induction es) (auto dest!: encode_block_entry_length)

lemma chain_mono:
  assumes "chain_ok ledger tip" and "i \<le> j" and "j \<le> tip"
  shows "chain_weave ledger i \<le> chain_weave ledger j"
  using assms(2,3)
proof (induction j rule: dec_induct)
  case (step j)
  have "chain_before ledger (Suc j) \<le> chain_weave ledger (Suc j)" using assms(1) step.prems unfolding chain_ok_def by blast
  then show ?case using step by (simp add: chain_before_def)
qed simp

lemma honest_index:
  assumes "honest T ledger tip" "chain_ok ledger tip" and "start \<le> stop" "stop \<le> tip" "stop - start < 256"
  shows "trusted_block_index E T start stop = Inr (Some (map (\<lambda>h. block_entry E (ledger h)) [start..<Suc stop]))"
proof -
  obtain parts where p: "concat parts = concat (map (\<lambda>h. encode_block_entry (ledger h)) [start..<Suc stop])"
    and a: "t_index T start stop = Answered None (map Inr parts)
           \<or> t_index T start stop = Answered (Some (length (concat parts))) (map Inr parts)"
    using assms unfolding honest_def by blast
  define es where "es = map ledger [start..<Suc stop]"
  have enc: "concat parts = concat (map encode_block_entry es)" by (simp only: p es_def map_map comp_def)
  have n: "length es = stop - start + 1" using assms(3) by (simp add: es_def)
  have ok: "list_all entry_ok es" using assms(2,4) by (auto simp: es_def list_all_iff chain_ok_def)
  have len: "length (concat parts) \<le> (stop - start + 1) * 99" using encoded_length [OF ok] by (simp only: enc n)
  have cap: "(stop - start + 1) * 99 \<le> MAX_BLOCK_INDEX_BYTES" using assms(5) by (simp add: MAX_BLOCK_INDEX_BYTES_def)
  have small: "MAX_BLOCK_INDEX_BYTES < USIZE" by (simp add: MAX_BLOCK_INDEX_BYTES_def U64_def)
  have range: "Option.bind (checked_sub stop start) (\<lambda>n. checked_add U64 n 1) = Some (stop - start + 1)"
    using assms(3,5) by (simp add: checked_sub_def checked_add_def U64_def)
  have body: "read_body ((stop - start + 1) * 99) [] (map Inr parts) = Inr (concat parts)"
    using read_body_parts [of "[]" parts "(stop - start + 1) * 99"] len cap small by simp
  have "decode_block_index_loop E ([] @ concat (map encode_block_entry es)) (length ([] :: bytes)) = Inr (map (block_entry E) es)"
    by (rule decode_block_index_loop_encode) (use ok len cap small enc in auto)
  then have dec: "decode_block_index E (concat parts) = Inr (map (block_entry E) es)" by (simp add: decode_block_index_def enc)
  have fits: "stop - start + 1 \<le> 256" using assms(5) by simp
  have "trusted_block_index E T start stop = Inr (Some (map (block_entry E) es))"
    unfolding trusted_block_index_def range contextE_simps bindE_Inr Let_def
    using a len cap fits dec n by (auto simp: body [simplified])
  then show ?thesis by (simp add: es_def comp_def)
qed

lemma anchor_search_least:
  assumes "honest T ledger tip" "chain_ok ledger tip"
  shows "low \<le> high \<Longrightarrow> high \<le> tip \<Longrightarrow> offset \<le> chain_weave ledger high \<Longrightarrow> \<forall>h < low. chain_weave ledger h < offset \<Longrightarrow>
    \<exists>l \<le> high. anchor_search E T offset low high = Inr l \<and> offset \<le> chain_weave ledger l
      \<and> (\<forall>h < l. chain_weave ledger h < offset)"
proof (induction "high - low" arbitrary: low high rule: less_induct)
  case less
  show ?case
  proof (cases "low < high")
    case False
    then show ?thesis using less.prems by (auto simp: anchor_search.simps)
  next
    case True
    define mid where "mid = low + (high - low) div 2"
    have mid: "low \<le> mid" "mid < high" using True by (auto simp: mid_def)
    have "trusted_block_index E T mid mid = Inr (Some [block_entry E (ledger mid)])"
      using honest_index [OF assms, of mid mid E] mid less.prems(2) by simp
    moreover have "te_weave_size (block_entry E (ledger mid)) = chain_weave ledger mid"
      by (simp add: block_entry_def chain_weave_def split: prod.splits)
    ultimately have s: "anchor_search E T offset low high = (if offset \<le> chain_weave ledger mid
        then anchor_search E T offset low mid else anchor_search E T offset (mid + 1) high)"
      using True by (subst anchor_search.simps) (simp add: mid_def [symmetric])
    show ?thesis
    proof (cases "offset \<le> chain_weave ledger mid")
      case left: True
      obtain l where "l \<le> mid" "anchor_search E T offset low mid = Inr l" "offset \<le> chain_weave ledger l"
        "\<forall>h < l. chain_weave ledger h < offset"
        using less.hyps [of mid low] left mid less.prems diff_less_mono [OF mid(2,1)] by auto
      then show ?thesis using s left mid by (intro exI [of _ l]) auto
    next
      case right: False
      have "\<forall>h < mid + 1. chain_weave ledger h < offset"
        using chain_mono [OF assms(2), of _ mid] right mid less.prems(2)
        by (metis less_Suc_eq_le Suc_eq_plus1 le_less_trans not_le order.strict_trans2 order_less_imp_le)
      then obtain l where "l \<le> high" "anchor_search E T offset (mid + 1) high = Inr l" "offset \<le> chain_weave ledger l"
        "\<forall>h < l. chain_weave ledger h < offset"
        using less.hyps [of high "mid + 1"] mid less.prems by (auto simp: diff_less_mono2)
      then show ?thesis using s right by (intro exI [of _ l]) auto
    qed
  qed
qed

definition chain_geometry :: "(nat \<Rightarrow> bytes \<times> bytes \<times> bytes) \<Rightarrow> nat \<Rightarrow> BlockGeometry" where
  "chain_geometry ledger h = \<lparr>bg_tx_root = snd (snd (ledger h)), bg_block_weave_size = chain_weave ledger h,
     bg_previous_weave_size = chain_before ledger h\<rparr>"

lemma block_entry_fields:
  "te_weave_size (block_entry E (ledger h)) = chain_weave ledger h"
  "te_tx_root (block_entry E (ledger h)) = x_b64_encode E (snd (snd (ledger h)))"
  by (auto simp: block_entry_def chain_weave_def split: prod.splits)

lemma searched_anchor_found:
  assumes laws: "honest T ledger (height - CONSENSUS_DEPTH)" "chain_ok ledger (height - CONSENSUS_DEPTH)"
    and b64: "\<forall>r. length r = 32 \<longrightarrow> x_b64_decode E (x_b64_encode E r) = Some r"
    and tip: "t_info T = Inr height" "CONSENSUS_DEPTH \<le> height" and off: "0 < offset" "offset \<le> chain_weave ledger (height - CONSENSUS_DEPTH)"
  shows "\<exists>h \<le> height - CONSENSUS_DEPTH. searched_anchor E T offset = Inr (Some (chain_geometry ledger h, h))
    \<and> chain_before ledger h < offset \<and> offset \<le> chain_weave ledger h"
proof -
  let ?s = "height - CONSENSUS_DEPTH"
  obtain h where h: "h \<le> ?s" "anchor_search E T offset 0 ?s = Inr h" "offset \<le> chain_weave ledger h" "\<forall>i < h. chain_weave ledger i < offset"
    using anchor_search_least [OF laws, of 0 ?s offset E] off by auto
  have before: "chain_before ledger h < offset" using h(4) off(1) by (simp add: chain_before_def)
  then have root: "length (snd (snd (ledger h))) = 32"
    using laws(2) h(1,3) unfolding chain_ok_def by fastforce
  have dec: "decode_fixed E 32 (x_b64_encode E (snd (snd (ledger h)))) l = Inr (snd (snd (ledger h)))" for l
    using b64 root by (simp add: decode_fixed_def decode_b64_def)
  have t: "trusted_block_index E T ?s ?s = Inr (Some [block_entry E (ledger ?s)])"
    using honest_index [OF laws, of ?s ?s E] by simp
  have r: "trusted_block_index E T (if h = 0 then 0 else h - 1) h
      = Inr (Some (if h = 0 then [block_entry E (ledger 0)] else [block_entry E (ledger (h - 1)), block_entry E (ledger h)]))"
    using honest_index [OF laws, of "if h = 0 then 0 else h - 1" h E] h(1) by (cases h) auto
  have "searched_anchor E T offset = Inr (Some (chain_geometry ledger h, h))"
    using r tip off(2) before h(3) dec
    by (cases h) (auto simp: searched_anchor_def checked_sub_def t block_entry_fields h(2) chain_geometry_def chain_before_def)
  then show ?thesis using h before by blast
qed

lemma searched_anchor_missing:
  assumes "honest T ledger (height - CONSENSUS_DEPTH)" "chain_ok ledger (height - CONSENSUS_DEPTH)" and "t_info T = Inr height"
    and "height < CONSENSUS_DEPTH \<or> chain_weave ledger (height - CONSENSUS_DEPTH) < offset"
  shows "searched_anchor E T offset = Inr None"
proof (cases "height < CONSENSUS_DEPTH")
  case True
  then show ?thesis by (simp add: searched_anchor_def assms(3) checked_sub_def)
next
  case False
  let ?s = "height - CONSENSUS_DEPTH"
  have t: "trusted_block_index E T ?s ?s = Inr (Some [block_entry E (ledger ?s)])"
    using honest_index [OF assms(1,2), of ?s ?s E] by simp
  then show ?thesis using False assms(4) by (simp add: searched_anchor_def assms(3) checked_sub_def block_entry_fields)
qed

text \<open>C25. For an honest trusted node and an offset the store does not know, the anchor of the offset is the one stable block whose part of the weave holds it, with that block's root and bounds; there is none exactly for offset 0, before the chain is stable, and beyond the stable tip.\<close>

theorem trusted_chunk_anchor_exact:
  assumes "honest T ledger (height - CONSENSUS_DEPTH)" and "chain_ok ledger (height - CONSENSUS_DEPTH)"
    and "t_info T = Inr height" and "stored T (\<lambda>s. s_for_offset s offset) = Inr None"
    and "\<forall>r. length r = 32 \<longrightarrow> x_b64_decode E (x_b64_encode E r) = Some r"
  shows "if 0 < offset \<and> CONSENSUS_DEPTH \<le> height \<and> offset \<le> chain_weave ledger (height - CONSENSUS_DEPTH)
    then \<exists>h \<le> height - CONSENSUS_DEPTH. trusted_chunk_anchor E T offset = Inr (Some (chain_geometry ledger h, h))
           \<and> chain_before ledger h < offset \<and> offset \<le> chain_weave ledger h
           \<and> (\<forall>h' \<le> height - CONSENSUS_DEPTH. chain_before ledger h' < offset \<and> offset \<le> chain_weave ledger h' \<longrightarrow> h' = h)
    else trusted_chunk_anchor E T offset = Inr None"
proof (cases "0 < offset \<and> CONSENSUS_DEPTH \<le> height \<and> offset \<le> chain_weave ledger (height - CONSENSUS_DEPTH)")
  case True
  then obtain h where h: "h \<le> height - CONSENSUS_DEPTH" "searched_anchor E T offset = Inr (Some (chain_geometry ledger h, h))"
    "chain_before ledger h < offset" "offset \<le> chain_weave ledger h"
    using searched_anchor_found [OF assms(1,2,5,3)] by blast
  have "trusted_chunk_anchor E T offset = Inr (Some (chain_geometry ledger h, h))"
    using True assms(4) h(2) by (simp add: trusted_chunk_anchor_def)
  moreover have "h' = h" if "h' \<le> height - CONSENSUS_DEPTH" "chain_before ledger h' < offset" "offset \<le> chain_weave ledger h'" for h'
  proof (rule linorder_cases [of h' h])
    assume "h' < h"
    then have "chain_weave ledger h' \<le> chain_before ledger h"
      using chain_mono [OF assms(2), of h' "h - 1"] h(1) by (simp add: chain_before_def)
    then show ?thesis using h(3) that(3) by simp
  next
    assume "h < h'"
    then have "chain_weave ledger h \<le> chain_before ledger h'"
      using chain_mono [OF assms(2), of h "h' - 1"] that(1) by (simp add: chain_before_def)
    then show ?thesis using h(4) that(2) by simp
  qed
  ultimately show ?thesis using h by (subst if_P [OF True]) blast
next
  case False
  then have "trusted_chunk_anchor E T offset = Inr None"
    using searched_anchor_missing [OF assms(1,2,3), of offset E] assms(4)
    by (cases "offset = 0") (auto simp: trusted_chunk_anchor_def not_le)
  then show ?thesis by (subst if_not_P [OF False])
qed

section \<open>The cache of chunks\<close>

text \<open>A served chunk is what the full check of some chunk and some paths gave at the offset, under the geometry.\<close>

definition proven :: "deps \<Rightarrow> BlockGeometry \<Rightarrow> nat \<Rightarrow> VerifiedChunk \<Rightarrow> bool" where
  "proven E g offset ch \<longleftrightarrow> (\<exists>ck job p. verify_chunk_proof E ck offset g job = Inr p
     \<and> ch_bytes ch = pc_bytes p \<and> ch_chunk ch = x_b64_encode E (pc_bytes p)
     \<and> ch_data_path ch = x_b64_encode E (ck_data_path ck) \<and> ch_tx_path ch = x_b64_encode E (ck_tx_path ck)
     \<and> ch_data_root ch = x_b64_encode E (tp_data_root (pc_transaction p))
     \<and> ch_data_size ch = tp_size (pc_transaction p) \<and> ch_tx_start_offset ch = pc_first_offset p
     \<and> ch_relative_start_offset ch = dp_start (pc_data p)
     \<and> ch_start_offset ch + ch_read_offset ch = offset \<and> ch_read_offset ch < length (ch_bytes ch))"

lemma retrieve_chunk_inner_proven:
  assumes "retrieve_chunk_inner E N offset g = Inr (Some (ch, hit, hash))"
  shows "proven E g offset ch"
proof -
  obtain f where f: "fetch_verified_chunk E N offset g = Inr (Some f)"
    and ch: "ch_bytes ch = pc_bytes (cf_proof f)" "ch_chunk ch = x_b64_encode E (pc_bytes (cf_proof f))"
      "ch_data_path ch = x_b64_encode E (pc_data_path (cf_proof f))" "ch_tx_path ch = x_b64_encode E (pc_tx_path (cf_proof f))"
      "ch_data_root ch = x_b64_encode E (tp_data_root (pc_transaction (cf_proof f)))"
      "ch_data_size ch = tp_size (pc_transaction (cf_proof f))" "ch_tx_start_offset ch = pc_first_offset (cf_proof f)"
      "ch_relative_start_offset ch = dp_start (pc_data (cf_proof f))"
      "ch_start_offset ch = pc_first_offset (cf_proof f) + dp_start (pc_data (cf_proof f))"
      "ch_read_offset ch = pc_relative_offset (cf_proof f) - dp_start (pc_data (cf_proof f))"
      "dp_start (pc_data (cf_proof f)) \<le> pc_relative_offset (cf_proof f)"
    using assms unfolding retrieve_chunk_inner_def Let_def bindE_eq_Inr contextE_eq_Inr checked_add_eq checked_sub_eq
    by (auto simp: bindE_eq_Inr contextE_eq_Inr checked_add_eq checked_sub_eq split: option.splits)
  obtain ck job where v: "verify_chunk_proof E ck offset g job = Inr (cf_proof f)"
    "pc_data_path (cf_proof f) = ck_data_path ck" "pc_tx_path (cf_proof f) = ck_tx_path ck"
    using accepted_paths [OF fetch_accepted [OF f]] by blast
  have "pc_first_offset (cf_proof f) + pc_relative_offset (cf_proof f) = offset
      \<and> length (pc_bytes (cf_proof f)) = dp_end (pc_data (cf_proof f)) - dp_start (pc_data (cf_proof f))
      \<and> pc_relative_offset (cf_proof f) < dp_end (pc_data (cf_proof f))"
    by (rule verify_chunk_proof_steps [OF v(1)]) (auto simp: checked_sub_eq)
  then show ?thesis unfolding proven_def using v ch by (intro exI [of _ ck] exI [of _ job] exI [of _ "cf_proof f"]) auto
qed

definition chunk_cache_ok :: "deps \<Rightarrow> (VerifiedChunk \<Rightarrow> nat) \<Rightarrow> nat \<Rightarrow> nat \<Rightarrow> ChunkCache \<Rightarrow> bool" where
  "chunk_cache_ok E cost me mb c \<longleftrightarrow> distinct (map fst (kc_entries c))
     \<and> kc_bytes c = sum_list (map (\<lambda>(_, ch, _). cost ch) (kc_entries c))
     \<and> length (kc_entries c) \<le> min me 256 \<and> kc_bytes c \<le> min mb (64 * 1024 * 1024)
     \<and> (\<forall>(offset, ch, g, _) \<in> set (kc_entries c). proven E g offset ch)"

lemma cost_del_key:
  "distinct (map fst es) \<Longrightarrow> map_of es k = Some (ch, r) \<Longrightarrow>
     sum_list (map (\<lambda>(_, ch, _). cost ch) es) = (cost ch :: nat) + sum_list (map (\<lambda>(_, ch, _). cost ch) (del_key k es))"
proof (induction es)
  case (Cons e es)
  have "k \<notin> fst ` set es \<Longrightarrow> del_key k es = es" by (auto simp: del_key_def filter_id_conv)
  then show ?case using Cons by (cases e) (auto simp: del_key_def add.left_commute split: if_splits)
qed simp

lemma chunk_cache_del:
  assumes "chunk_cache_ok E cost me mb c" and "map_of (kc_entries c) k = Some (ch, r)"
  shows "cost ch \<le> kc_bytes c"
    "chunk_cache_ok E cost me mb (c\<lparr>kc_bytes := kc_bytes c - cost ch, kc_entries := del_key k (kc_entries c)\<rparr>)"
proof -
  have s: "kc_bytes c = cost ch + sum_list (map (\<lambda>(_, ch, _). cost ch) (del_key k (kc_entries c)))"
    using assms cost_del_key [of "kc_entries c" k ch r cost] by (simp add: chunk_cache_ok_def)
  then show "cost ch \<le> kc_bytes c" by simp
  show "chunk_cache_ok E cost me mb (c\<lparr>kc_bytes := kc_bytes c - cost ch, kc_entries := del_key k (kc_entries c)\<rparr>)"
    using assms(1) s unfolding chunk_cache_ok_def
    by (auto simp: del_key_def distinct_map_filter intro: le_trans [OF length_filter_le])
qed

lemma chunk_remove_ok:
  assumes "chunk_cache_ok E cost me mb c"
  obtains c' where "chunk_remove cost k c = Inr c'" "chunk_cache_ok E cost me mb c'" "map_of (kc_entries c') k = None"
proof (cases "map_of (kc_entries c) k")
  case None
  then show ?thesis using that [of c] assms by (simp add: chunk_remove_def)
next
  case (Some e)
  then obtain ch r where e: "map_of (kc_entries c) k = Some (ch, r)" by (cases e) auto
  have "map_of (del_key k (kc_entries c)) k = None" by (auto simp: del_key_def map_of_eq_None_iff)
  then show ?thesis using that chunk_cache_del [OF assms e] by (simp add: chunk_remove_def e subE_def)
qed

lemma chunk_lookup_ok:
  assumes "chunk_cache_ok E cost me mb c"
  shows "chunk_cache_ok E cost me mb (snd (chunk_lookup k c))"
    and "fst (chunk_lookup k c) = Some (ch, g, h) \<Longrightarrow> proven E g k ch"
proof -
  show "chunk_cache_ok E cost me mb (snd (chunk_lookup k c))"
  proof (cases "map_of (kc_entries c) k")
    case (Some e)
    then obtain ch g h u hash where e: "map_of (kc_entries c) k = Some (ch, g, h, u, hash)" by (cases e) auto
    have "length (del_key k (kc_entries c)) < length (kc_entries c)" by (rule del_key_shorter [OF map_of_SomeD [OF e]])
    then show ?thesis
      using assms cost_del_key [of "kc_entries c" k ch "(g, h, u, hash)" cost] map_of_SomeD [OF e] e
      unfolding chunk_cache_ok_def
      by (auto simp: chunk_lookup_def Let_def put_key_def del_key_def distinct_map_filter)
  qed (use assms in \<open>simp add: chunk_lookup_def\<close>)
  show "fst (chunk_lookup k c) = Some (ch, g, h) \<Longrightarrow> proven E g k ch"
    using assms unfolding chunk_cache_ok_def
    by (auto simp: chunk_lookup_def Let_def dest!: map_of_SomeD split: option.splits)
qed

lemma chunk_evict_ok:
  assumes "chunk_cache_ok E cost me mb c" and "0 < me'" and "sz \<le> mb'" and "map_of (kc_entries c) k = None"
  shows "\<exists>c'. chunk_evict cost me' mb' sz c = Inr c' \<and> chunk_cache_ok E cost me mb c'
    \<and> length (kc_entries c') < me' \<and> kc_bytes c' \<le> mb' - sz \<and> map_of (kc_entries c') k = None"
  using assms
proof (induction "length (kc_entries c)" arbitrary: c rule: less_induct)
  case less
  show ?case
  proof (cases "length (kc_entries c) \<ge> me' \<or> kc_bytes c > mb' - sz")
    case False
    then show ?thesis using less.prems by (subst chunk_evict.simps) (auto simp: subE_def)
  next
    case True
    then have "kc_entries c \<noteq> []" using less.prems(1,2) by (auto simp: chunk_cache_ok_def)
    then obtain v ch r where o: "oldest last_use (kc_entries c) = Some (v, ch, r)"
      using oldest_None [of last_use "kc_entries c"] by (cases "oldest last_use (kc_entries c)") auto
    then have m: "map_of (kc_entries c) v = Some (ch, r)"
      using oldest_in [OF o] less.prems(1) by (simp add: chunk_cache_ok_def)
    let ?c = "c\<lparr>kc_bytes := kc_bytes c - cost ch, kc_entries := del_key v (kc_entries c)\<rparr>"
    note d = chunk_cache_del [OF less.prems(1) m]
    have "length (kc_entries ?c) < length (kc_entries c)" using del_key_shorter [OF oldest_in [OF o]] by simp
    moreover have "map_of (kc_entries ?c) k = None" using less.prems(4) by (auto simp: del_key_def map_of_eq_None_iff)
    moreover have "chunk_evict cost me' mb' sz c = chunk_evict cost me' mb' sz ?c"
      using True less.prems(3) d(1) by (subst chunk_evict.simps) (simp add: subE_def o)
    ultimately show ?thesis using less.hyps [of ?c] d(2) less.prems by simp
  qed
qed

lemma chunk_insert_ok:
  assumes "chunk_cache_ok E cost me mb c" and "map_of (kc_entries c) k = None" and "proven E g k ch"
  shows "\<exists>c'. chunk_insert cost me mb k (ch, g, h, hash) c = Inr c' \<and> chunk_cache_ok E cost me mb c'"
proof (cases "0 < min me 256 \<and> cost ch \<le> min mb (64 * 1024 * 1024)")
  case False
  then show ?thesis using assms(1) by (auto simp: chunk_insert_def)
next
  case True
  then obtain c1 where c1: "chunk_evict cost (min me 256) (min mb (64 * 1024 * 1024)) (cost ch) c = Inr c1"
    "chunk_cache_ok E cost me mb c1" "length (kc_entries c1) < min me 256"
    "kc_bytes c1 \<le> min mb (64 * 1024 * 1024) - cost ch" "map_of (kc_entries c1) k = None"
    using chunk_evict_ok [OF assms(1) _ _ assms(2), of "min me 256" "cost ch" "min mb (64 * 1024 * 1024)"] by auto
  have k: "k \<notin> fst ` set (kc_entries c1)" using c1(5) by (simp add: map_of_eq_None_iff)
  then have d: "del_key k (kc_entries c1) = kc_entries c1" by (auto simp: del_key_def filter_id_conv)
  have fits: "kc_bytes c1 + cost ch \<le> min mb (64 * 1024 * 1024)" using c1(4) conjunct2 [OF True] by linarith
  then have "kc_bytes c1 + cost ch < USIZE" by (simp add: U64_def)
  then show ?thesis
    using True c1 k fits assms(3)
    by (auto simp: chunk_insert_def Let_def addE_def chunk_cache_ok_def put_key_def d)
qed

lemma fetch_missing_chunk_ok:
  assumes "chunk_cache_ok E cost me mb c" and "map_of (kc_entries c) k = None"
    and "fetch_missing_chunk E T N cost me mb k c = Inr (r, c')"
  shows "chunk_cache_ok E cost me mb c' \<and> (\<forall>ch hit. r = Some (ch, hit) \<longrightarrow>
    (\<exists>g h. chunk_anchor_matches E T g h = Inr True \<and> proven E g k ch))"
proof -
  obtain anchor where a: "chunk_anchor E T k c = Inr anchor"
    using assms(3) by (auto simp: fetch_missing_chunk_def bindE_eq_Inr)
  show ?thesis
  proof (cases "\<exists>g h ch hit hash. anchor = Some (g, h) \<and> retrieve_chunk_inner E N k g = Inr (Some (ch, hit, hash))")
    case False
    then have "r = None" "c' = c"
      using assms(3) a by (auto simp: fetch_missing_chunk_def bindE_eq_Inr split: option.splits prod.splits)
    then show ?thesis using assms(1) by simp
  next
    case True
    then obtain g h ch hit hash where g: "anchor = Some (g, h)" "retrieve_chunk_inner E N k g = Inr (Some (ch, hit, hash))" by blast
    then have m: "chunk_anchor_matches E T g h = Inr True" "r = Some (ch, hit)"
      "chunk_insert cost me mb k (ch, g, h, hash) c = Inr c'"
      using assms(3) a by (auto simp: fetch_missing_chunk_def bindE_eq_Inr split: if_splits)
    have "proven E g k ch" by (rule retrieve_chunk_inner_proven [OF g(2)])
    then show ?thesis using m chunk_insert_ok [OF assms(1,2), of g ch h hash] by auto
  qed
qed

lemma chunk_anchor_no_entry: "map_of (kc_entries (snd (chunk_lookup k c))) k = None"
  if "fst (chunk_lookup k c) = None"
  using that by (auto simp: chunk_lookup_def Let_def split: option.splits)

text \<open>C26. A chunk served for an offset, from the cache or from a peer, is one whose paths and hash were checked at that offset under a block that the index confirms at the time of the answer; every run keeps the cache within its limits, its byte count exact and its entries proven, whatever the peers and the index answered.\<close>

theorem served_chunk_anchored:
  assumes "chunk_cache_ok E cost me mb c" and "retrieve_cached_chunk E T N cost me mb offset c = (r, c')"
  shows "chunk_cache_ok E cost me mb c' \<and> (\<forall>ch hit. r = Inr (Some (ch, hit)) \<longrightarrow>
    (\<exists>g h. chunk_anchor_matches E T g h = Inr True \<and> proven E g offset ch))"
proof -
  obtain found c1 where l: "chunk_lookup offset c = (found, c1)" by fastforce
  then have c1: "chunk_cache_ok E cost me mb c1" using chunk_lookup_ok(1) [OF assms(1), of offset] by simp
  have missing: "chunk_cache_ok E cost me mb c' \<and> (\<forall>ch hit. r = Inr (Some (ch, hit)) \<longrightarrow>
      (\<exists>g h. chunk_anchor_matches E T g h = Inr True \<and> proven E g offset ch))"
    if "chunk_cache_ok E cost me mb c2" "map_of (kc_entries c2) offset = None"
      "(case fetch_missing_chunk E T N cost me mb offset c2 of Inl e \<Rightarrow> (Inl e, c2) | Inr (r, c) \<Rightarrow> (Inr r, c)) = (r, c')" for c2
    using that(3) fetch_missing_chunk_ok [OF that(1,2)] that(1) by (auto split: sum.splits)
  show ?thesis
  proof (cases found)
    case None
    then have "map_of (kc_entries c1) offset = None" using chunk_anchor_no_entry [of offset c] l by simp
    then show ?thesis using missing [OF c1] assms(2) l None by (simp add: retrieve_cached_chunk_def)
  next
    case (Some a)
    obtain ch g h where a: "found = Some (ch, g, h)" using Some by (cases a) auto
    have p: "proven E g offset ch" using chunk_lookup_ok(2) [OF assms(1), of offset ch g h] l a by simp
    obtain c2 where c2: "chunk_remove cost offset c1 = Inr c2" "chunk_cache_ok E cost me mb c2" "map_of (kc_entries c2) offset = None"
      by (rule chunk_remove_ok [OF c1])
    show ?thesis
    proof (cases "chunk_anchor_matches E T g h")
      case (Inl e)
      then show ?thesis using assms(2) c1 by (simp add: retrieve_cached_chunk_def l a) auto
    next
      case (Inr b)
      then show ?thesis
        using assms(2) c1 p missing [OF c2(2,3)] by (cases b) (auto simp: retrieve_cached_chunk_def l a c2(1))
    qed
  qed
qed

section \<open>A chain of three stable blocks and a cache in front of one peer\<close>

definition w_ledger :: "nat \<Rightarrow> bytes \<times> bytes \<times> bytes" where
  "w_ledger h = (replicate 48 1, [word_of_nat (h + 1)], replicate 32 (word_of_nat h))"

definition w_node :: anchors where
  "w_node = \<lparr>t_store = None, t_info = Inr 52,
     t_index = (\<lambda>start stop. Answered None [Inr (concat (map (\<lambda>h. encode_block_entry (w_ledger h)) [start..<Suc stop]))])\<rparr>"

lemma w_honest: "honest w_node w_ledger tip"
  unfolding honest_def
proof (intro allI impI)
  fix start stop
  show "\<exists>parts. concat parts = concat (map (\<lambda>h. encode_block_entry (w_ledger h)) [start..<Suc stop])
        \<and> (t_index w_node start stop = Answered None (map Inr parts)
           \<or> t_index w_node start stop = Answered (Some (length (concat parts))) (map Inr parts))"
    by (rule exI [of _ "[concat (map (\<lambda>h. encode_block_entry (w_ledger h)) [start..<Suc stop])]"]) (simp add: w_node_def)
qed

lemma w_ledger_ok: "chain_ok w_ledger 2"
  unfolding chain_ok_def
proof (intro allI impI)
  fix h :: nat assume "h \<le> 2"
  then consider "h = 0" | "h = 1" | "h = 2" by linarith
  then show "entry_ok (w_ledger h) \<and> chain_before w_ledger h \<le> chain_weave w_ledger h
     \<and> (chain_before w_ledger h < chain_weave w_ledger h \<longrightarrow> length (snd (snd (w_ledger h))) = 32)"
    by cases (auto simp: w_ledger_def entry_ok_def chain_before_def chain_weave_def be_nat_def)
qed

theorem trusted_chunk_anchor_exact_witness:
  "\<exists>h \<le> 2. trusted_chunk_anchor sample w_node 2 = Inr (Some (chain_geometry w_ledger h, h))
     \<and> chain_before w_ledger h < 2 \<and> 2 \<le> chain_weave w_ledger h"
proof -
  have "\<forall>r. length r = 32 \<longrightarrow> x_b64_decode sample (x_b64_encode sample r) = Some r"
    using sample_b64 unfolding decode_b64_eq by metis
  from trusted_chunk_anchor_exact [of w_node w_ledger 52 2 sample, OF _ _ _ _ this]
  show ?thesis using w_honest w_ledger_ok
    by (auto simp: CONSENSUS_DEPTH_def stored_def w_node_def chain_weave_def w_ledger_def be_nat_def)
qed

definition w_block :: "nat \<Rightarrow> bytes \<Rightarrow> nat \<Rightarrow> IndexBlock" where
  "w_block height tx_root weave_size = \<lparr>ib_height = height, ib_hash = replicate 48 2, ib_previous_hash = None,
     ib_tx_root = tx_root, ib_weave_size = weave_size\<rparr>"

definition w_pair :: "(IndexBlock \<times> IndexBlock) option" where
  "w_pair = Some (w_block 9 [] 1000, w_block 10 s_tx_root 1005)"

definition w_anchored :: anchors where
  "w_anchored = \<lparr>t_store = Some \<lparr>s_for_offset = \<lambda>off. Inr w_pair, s_pair = \<lambda>h. Inr w_pair, s_stable_hash = \<lambda>h. Inr None\<rparr>,
     t_info = Inr 100, t_index = \<lambda>start stop. Unreachable\<rparr>"

definition w_empty :: ChunkCache where "w_empty = \<lparr>kc_entries = [], kc_bytes = 0, kc_clock = 0\<rparr>"

theorem served_chunk_anchored_witness:
  "\<exists>ch hit. fst (retrieve_cached_chunk sample w_anchored s_network (\<lambda>ch. 1) 4 4 1004 w_empty) = Inr (Some (ch, hit))
     \<and> (\<exists>g h. chunk_anchor_matches sample w_anchored g h = Inr True \<and> proven sample g 1004 ch)"
proof -
  let ?run = "retrieve_cached_chunk sample w_anchored s_network (\<lambda>ch. 1) 4 4 1004 w_empty"
  have g: "trusted_chunk_anchor sample w_anchored 1004 = Inr (Some (s_block, 10))"
    by (simp add: trusted_chunk_anchor_def stored_def w_anchored_def w_pair_def stored_anchor_def w_block_def s_block_def)
  have m: "chunk_anchor_matches sample w_anchored s_block 10 = Inr True"
    by (simp add: chunk_anchor_matches_def stored_def w_anchored_def w_pair_def w_block_def s_block_def)
  have f: "fetch_verified_chunk sample s_network 1004 s_block
    = Inr (Some \<lparr>cf_proof = s_proven\<lparr>pc_relative_offset := 1\<rparr>, cf_source_host = ''peer'', cf_cache_hit = False\<rparr>)"
    using s_fetch_verified [of 1] by simp
  obtain ch hit hash where r: "retrieve_chunk_inner sample s_network 1004 s_block = Inr (Some (ch, hit, hash))"
    by (simp add: retrieve_chunk_inner_def f checked_add_def checked_sub_def s_proven_def s_data_def U128_value) blast
  have "\<exists>ch hit. fst ?run = Inr (Some (ch, hit))"
    by (simp add: retrieve_cached_chunk_def chunk_lookup_def w_empty_def fetch_missing_chunk_def chunk_anchor_def
        chunk_nearby_def g r m chunk_insert_def chunk_evict.simps subE_def addE_def U64_def)
  then obtain ch hit where s: "fst ?run = Inr (Some (ch, hit))" by blast
  have "chunk_cache_ok sample (\<lambda>ch. 1) 4 4 w_empty" by (simp add: chunk_cache_ok_def w_empty_def)
  from served_chunk_anchored [OF this, of w_anchored s_network 1004 "fst ?run" "snd ?run"] s show ?thesis by auto
qed

end
