(* ===== verification/TxRoot.thy ===== *)
theory TxRoot
  imports HeaderCheck Merkle
begin

text \<open>
  The transaction tree of a block, \<open>src/src/transactions.rs\<close>: the in-place tree builder
  (\<open>merkle_root\<close>), the data root of inline data (\<open>inline_data_root\<close>), the check of a block's
  transactions against its authenticated root (\<open>verify_block_data_root\<close>) and the offsets read off
  the same order (\<open>transaction_end_offset\<close>).  The builder is refined to a binary tree, and the
  transaction paths of theory \<open>Merkle\<close> are shown to reach exactly the leaf that holds an offset.
\<close>

section \<open>Object metadata\<close>

record ObjectMetadata =
  om_id :: bytes
  om_kind :: int
  om_signature :: bytes
  om_anchor :: bytes
  om_owner_address :: bytes
  om_owner_public_key :: bytes
  om_target :: bytes
  om_data_size :: nat
  om_content_type :: "str option"
  om_content_encoding :: "str option"
  om_signature_type :: int
  om_format :: "int option"
  om_quantity :: "str option"
  om_reward :: "str option"
  om_denomination :: "nat option"
  om_data_root :: "bytes option"
  om_tags :: "(bytes \<times> bytes) list"

text \<open>The order of \<open>(Option<i16>, bytes)\<close>: an absent format first, then the format, then the bytes.\<close>

fun format_key_le :: "int option \<times> bytes \<Rightarrow> int option \<times> bytes \<Rightarrow> bool" where
  "format_key_le (None, a) (None, b) = bytes_le a b"
| "format_key_le (None, a) (Some g, b) = True"
| "format_key_le (Some f, a) (None, b) = False"
| "format_key_le (Some f, a) (Some g, b) = (f < g \<or> (f = g \<and> bytes_le a b))"

section \<open>The tree builder\<close>

type_synonym row = "(bytes \<times> nat) list"

definition merkle_step :: "deps \<Rightarrow> nat \<Rightarrow> row \<Rightarrow> nat \<Rightarrow> row" where
  "merkle_step E width row index =
     (let left = row ! (index * 2) in
      row[index :=
        (if index * 2 + 1 < width then
           (let right = row ! (index * 2 + 1)
            in (hash_branch E (fst left) (fst right) (note_bytes (snd left)), snd right))
         else left)])"

definition merkle_pass :: "deps \<Rightarrow> row \<Rightarrow> row" where
  "merkle_pass E row =
     (let width = length row
      in take (div_ceil width 2) (foldl (merkle_step E width) row [0..<div_ceil width 2]))"

lemma merkle_step_length [simp]: "length (merkle_step E width row index) = length row"
  by (simp add: merkle_step_def Let_def)

lemma merkle_fold_length [simp]: "length (foldl (merkle_step E width) row is) = length row"
  by (induction "is" arbitrary: row) auto

lemma merkle_pass_length [simp]: "length (merkle_pass E row) = div_ceil (length row) 2"
  by (auto simp: merkle_pass_def Let_def div_ceil_def)

function merkle_root_loop :: "deps \<Rightarrow> row \<Rightarrow> row" where
  "merkle_root_loop E row = (if length row > 1 then merkle_root_loop E (merkle_pass E row) else row)"
  by pat_completeness auto
termination
  by (relation "measure (\<lambda>(E, row). length row)") (auto simp: div_ceil_def)

declare merkle_root_loop.simps [simp del]

definition merkle_root :: "deps \<Rightarrow> row \<Rightarrow> bytes option" where
  "merkle_root E row = map_option fst (case merkle_root_loop E row of [] \<Rightarrow> None | x # _ \<Rightarrow> Some x)"

definition inline_row :: "deps \<Rightarrow> bytes \<Rightarrow> row res" where
  "inline_row E data =
     mapE (\<lambda>start.
       let stop = min (start + MAX_CHUNK_SIZE) (length data) in
       bindE (slice data start stop) (\<lambda>chunk. Inr (hash_leaf E (sha256 E [chunk]) (note_bytes stop), stop)))
     (map (\<lambda>index. index * MAX_CHUNK_SIZE) [0..<Suc (length data div MAX_CHUNK_SIZE)])"

definition inline_data_root :: "deps \<Rightarrow> bytes \<Rightarrow> bytes res" where
  "inline_data_root E data =
     bindE (inline_row E data) (\<lambda>row. case merkle_root E row of None \<Rightarrow> Inl Panic | Some root \<Rightarrow> Inr root)"

section \<open>The transactions of a block\<close>

definition MAX_BLOCK_TRANSACTIONS :: nat where "MAX_BLOCK_TRANSACTIONS = 1000"

definition padding :: "nat \<Rightarrow> nat" where
  "padding sz = (MAX_CHUNK_SIZE - sz mod MAX_CHUNK_SIZE) mod MAX_CHUNK_SIZE"

text \<open>One turn of the loop: ids still expected, running end, row.\<close>

definition block_row_step ::
  "deps \<Rightarrow> nat \<Rightarrow> bytes list \<times> nat \<times> row \<Rightarrow> ObjectMetadata \<Rightarrow> (bytes list \<times> nat \<times> row) res" where
  "block_row_step E height = (\<lambda>(expected_ids, end, row) object.
     ensure (length (om_id object) = 32) STR ''invalid transaction ID''
     (ensure (om_id object \<in> set expected_ids)
        STR ''transaction does not match authenticated block membership''
     (bindE (contextE (om_data_root object) STR ''missing transaction data root'') (\<lambda>root.
      bindE (contextE (checked_add U128 end (om_data_size object)) STR ''block data size overflow'') (\<lambda>end.
      let ids = remove1 (om_id object) expected_ids;
          row = row @ [(hash_leaf E root (note_bytes end), end)];
          pad = padding (om_data_size object) in
      if height \<ge> FORK_2_5_HEIGHT \<and> pad > 0 then
        bindE (contextE (checked_add U128 end pad) STR ''block padding overflow'') (\<lambda>end.
        Inr (ids, end, row @ [(hash_leaf E [] (note_bytes end), end)]))
      else Inr (ids, end, row))))))"

text \<open>
  The genesis branch hashes every source field of each record; the JSON tuple of a record is
  serde's serialization, the argument \<open>record_json\<close>.
\<close>

definition genesis_step ::
  "(ObjectMetadata \<Rightarrow> bytes) \<Rightarrow> bytes list \<times> bytes \<Rightarrow> ObjectMetadata \<Rightarrow> (bytes list \<times> bytes) res" where
  "genesis_step record_json = (\<lambda>(expected_ids, digested) object.
     ensure (length (om_id object) = 32) STR ''invalid transaction ID''
     (ensure (om_id object \<in> set expected_ids)
        STR ''transaction does not match authenticated block membership''
     (bindE (contextE (om_data_root object) STR ''missing transaction data root'') (\<lambda>root.
      Inr (remove1 (om_id object) expected_ids, digested @ record_json object)))))"

definition MAINNET_GENESIS_RECORDS_SHA256 :: bytes where
  "MAINNET_GENESIS_RECORDS_SHA256 =
    [0x07, 0xbd, 0x8c, 0xce, 0x7d, 0x85, 0x65, 0x5e, 0x24, 0x86, 0x35, 0x42, 0xca, 0xba, 0xda, 0x99,
     0x98, 0x26, 0xd3, 0xc8, 0xb6, 0x78, 0x12, 0x22, 0xc4, 0xb1, 0x6c, 0x64, 0x13, 0x17, 0x98, 0xf8]"

definition sort_objects :: "ObjectMetadata list \<Rightarrow> ObjectMetadata list" where
  "sort_objects objects =
     sort_by (\<lambda>l r. format_key_le (om_format l, om_id l) (om_format r, om_id r)) objects"

definition verify_genesis ::
  "deps \<Rightarrow> (ObjectMetadata \<Rightarrow> bytes) \<Rightarrow> BlockHeader \<Rightarrow> bytes list \<Rightarrow> ObjectMetadata list \<Rightarrow> unit res" where
  "verify_genesis E record_json block ids objects =
     bindE (if length objects = 314
              \<and> bh_indep_hash block = ''7wIU7KolICAjClMlcZ38LZzshhI7xGkm2tDCJR7Wvhe3ESUo2-Z4-y0x1uaglRJE''
            then bindE (parse_u128 (bh_block_size block) STR ''block size'') (\<lambda>b.
                 if b = 0 then bindE (parse_u128 (bh_weave_size block) STR ''weave size'') (\<lambda>w.
                   Inr (w = 0 \<and> bh_tx_root block = ''P_OiqMNN1s4ltcaq0HXb9VFos_Zz6LFjM8ogUG0vJek''))
                 else Inr False)
            else Inr False) (\<lambda>supported.
     ensure supported STR ''unsupported genesis block''
     (bindE (foldE (genesis_step record_json) (ids, []) objects) (\<lambda>(_, digested).
      ensure (sha256 E [digested] = MAINNET_GENESIS_RECORDS_SHA256)
        STR ''genesis transaction records differ from the official snapshot'' (Inr ()))))"

definition verify_block_data_root ::
  "deps \<Rightarrow> (ObjectMetadata \<Rightarrow> bytes) \<Rightarrow> BlockHeader \<Rightarrow> ObjectMetadata list \<Rightarrow> ObjectMetadata list res" where
  "verify_block_data_root E record_json block objects =
     ensure (length objects = length (bh_txs block) \<and> length objects \<le> MAX_BLOCK_TRANSACTIONS)
       STR ''incomplete block transaction data''
     (bindE (mapE (\<lambda>i. decode_fixed E 32 i STR ''block transaction ID'') (bh_txs block)) (\<lambda>ids.
      ensure (distinct ids) STR ''duplicate block transaction ID''
      (let objects = sort_objects objects in
       if bh_height block = 0 then
         bindE (verify_genesis E record_json block ids objects) (\<lambda>_. Inr objects)
       else
         bindE (foldE (block_row_step E (bh_height block)) (ids, 0, []) objects) (\<lambda>(_, end, row).
         bindE (parse_u128 (bh_block_size block) STR ''block size'') (\<lambda>block_size.
         ensure (end = block_size) STR ''transaction data does not match authenticated block size''
         (bindE (decode_b64 E (bh_tx_root block) STR ''block tx_root'') (\<lambda>tx_root.
          ensure ((case merkle_root E row of None \<Rightarrow> [] | Some root \<Rightarrow> root) = tx_root)
            STR ''transaction data does not match authenticated block tx_root''
          (Inr objects))))))))"

fun end_offset_loop :: "nat \<Rightarrow> bytes \<Rightarrow> nat \<Rightarrow> (bytes \<times> int option \<times> nat) list \<Rightarrow> (nat \<times> nat) option res" where
  "end_offset_loop height i end [] = Inr None"
| "end_offset_loop height i end ((transaction_id, _, sz) # rest) =
     bindE (contextE (checked_add U128 end sz) STR ''block data size overflow'') (\<lambda>end.
     if transaction_id = i then Inr (Some (sz, end))
     else if height \<ge> FORK_2_5_HEIGHT then
       bindE (contextE (checked_add U128 end (padding sz)) STR ''block padding overflow'') (\<lambda>end.
       end_offset_loop height i end rest)
     else end_offset_loop height i end rest)"

definition transaction_end_offset ::
  "nat \<Rightarrow> (bytes \<times> int option \<times> nat) list \<Rightarrow> bytes \<Rightarrow> (nat \<times> nat) option res" where
  "transaction_end_offset height transactions i =
     end_offset_loop height i 0
       (sort_by (\<lambda>l r. format_key_le (fst (snd l), fst l) (fst (snd r), fst r)) transactions)"

section \<open>The builder makes a binary tree\<close>

fun merkle_level :: "deps \<Rightarrow> row \<Rightarrow> row" where
  "merkle_level E (l # r # row) = (hash_branch E (fst l) (fst r) (note_bytes (snd l)), snd r) # merkle_level E row"
| "merkle_level E row = row"

lemma merkle_level_length: "length (merkle_level E row) = div_ceil (length row) 2"
  by (induction E row rule: merkle_level.induct) (auto simp: div_ceil_def)

lemma merkle_level_nth:
  "i < div_ceil (length row) 2 \<Longrightarrow> merkle_level E row ! i =
     (if i * 2 + 1 < length row
      then (hash_branch E (fst (row ! (i * 2))) (fst (row ! (i * 2 + 1))) (note_bytes (snd (row ! (i * 2)))),
            snd (row ! (i * 2 + 1)))
      else row ! (i * 2))"
proof (induction E row arbitrary: i rule: merkle_level.induct)
  case (1 E l r row)
  then show ?case by (cases i) (auto simp: div_ceil_def)
qed (auto simp: div_ceil_def)

text \<open>The in-place pass reads only places it has not written.\<close>

lemma merkle_pass_prefix:
  "k \<le> div_ceil (length row) 2 \<Longrightarrow>
     foldl (merkle_step E (length row)) row [0..<k] = take k (merkle_level E row) @ drop k row"
proof (induction k)
  case (Suc k)
  let ?L = "merkle_level E row" and ?s = "take k (merkle_level E row) @ drop k row"
  have k: "k < div_ceil (length row) 2" "k < length ?L" "k < length row"
    using Suc.prems by (auto simp: merkle_level_length div_ceil_def)
  have n: "?s ! j = row ! j" if "k \<le> j" "j < length row" for j
    using that k by (simp add: nth_append)
  have even: "?s ! (k * 2) = row ! (k * 2)" using k by (intro n) (auto simp: div_ceil_def)
  have odd: "k * 2 + 1 < length row \<Longrightarrow> ?s ! (k * 2 + 1) = row ! (k * 2 + 1)" by (intro n) auto
  have "merkle_step E (length row) ?s k = ?s[k := ?L ! k]"
    using even odd k by (simp add: merkle_step_def Let_def merkle_level_nth)
  also have "\<dots> = take (Suc k) ?L @ drop (Suc k) row"
    using k by (simp add: list_update_append take_Suc_conv_app_nth Cons_nth_drop_Suc [symmetric])
  finally show ?case using Suc by simp
qed simp

lemma merkle_pass_level: "merkle_pass E row = merkle_level E row"
  by (simp add: merkle_pass_def Let_def merkle_pass_prefix merkle_level_length div_ceil_def)

text \<open>The tree a row stands for: leaves with their data root and end.\<close>

datatype mtree = MLeaf bytes nat | MBranch mtree mtree

fun mend :: "mtree \<Rightarrow> nat" where
  "mend (MLeaf d e) = e"
| "mend (MBranch l r) = mend r"

fun mhash :: "deps \<Rightarrow> mtree \<Rightarrow> bytes" where
  "mhash E (MLeaf d e) = hash_leaf E d (note_bytes e)"
| "mhash E (MBranch l r) = hash_branch E (mhash E l) (mhash E r) (note_bytes (mend l))"

fun mleaves :: "mtree \<Rightarrow> (bytes \<times> nat) list" where
  "mleaves (MLeaf d e) = [(d, e)]"
| "mleaves (MBranch l r) = mleaves l @ mleaves r"

fun pair_trees :: "mtree list \<Rightarrow> mtree list" where
  "pair_trees (l # r # ts) = MBranch l r # pair_trees ts"
| "pair_trees ts = ts"

lemma pair_trees_length: "length (pair_trees ts) = div_ceil (length ts) 2"
  by (induction ts rule: pair_trees.induct) (auto simp: div_ceil_def)

function build_tree :: "mtree list \<Rightarrow> mtree list" where
  "build_tree ts = (if length ts > 1 then build_tree (pair_trees ts) else ts)"
  by pat_completeness auto
termination
  by (relation "measure length") (auto simp: pair_trees_length div_ceil_def)

declare build_tree.simps [simp del]

abbreviation tree_row :: "deps \<Rightarrow> mtree list \<Rightarrow> row" where
  "tree_row E ts \<equiv> map (\<lambda>t. (mhash E t, mend t)) ts"

lemma merkle_level_trees: "merkle_level E (tree_row E ts) = tree_row E (pair_trees ts)"
  by (induction ts rule: pair_trees.induct) auto

lemma merkle_root_loop_trees: "merkle_root_loop E (tree_row E ts) = tree_row E (build_tree ts)"
proof (induction ts rule: build_tree.induct)
  case (1 ts)
  show ?case
    by (subst merkle_root_loop.simps, subst build_tree.simps)
      (simp add: merkle_pass_level merkle_level_trees 1)
qed

lemma pair_trees_leaves: "concat (map mleaves (pair_trees ts)) = concat (map mleaves ts)"
  by (induction ts rule: pair_trees.induct) auto

lemma build_tree_leaves: "concat (map mleaves (build_tree ts)) = concat (map mleaves ts)"
proof (induction ts rule: build_tree.induct)
  case (1 ts)
  then show ?case by (subst build_tree.simps) (simp add: pair_trees_leaves)
qed

lemma build_tree_one: "ts \<noteq> [] \<Longrightarrow> length (build_tree ts) = 1"
proof (induction ts rule: build_tree.induct)
  case (1 ts)
  show ?case
  proof (cases "length ts > 1")
    case True
    then have "pair_trees ts \<noteq> []" by (cases ts rule: pair_trees.cases) auto
    with 1 True show ?thesis by (subst build_tree.simps) simp
  next
    case False
    with 1 show ?thesis by (subst build_tree.simps) (cases ts; simp)
  qed
qed

text \<open>The root of a row of leaves is the hash of one tree with those leaves in order.\<close>

abbreviation leaf_row :: "deps \<Rightarrow> (bytes \<times> nat) list \<Rightarrow> row" where
  "leaf_row E ls \<equiv> map (\<lambda>(d, e). (hash_leaf E d (note_bytes e), e)) ls"

definition row_tree :: "(bytes \<times> nat) list \<Rightarrow> mtree" where
  "row_tree ls = hd (build_tree (map (\<lambda>(d, e). MLeaf d e) ls))"

lemma merkle_root_tree:
  assumes "ls \<noteq> []"
  shows "merkle_root E (leaf_row E ls) = Some (mhash E (row_tree ls)) \<and> mleaves (row_tree ls) = ls"
proof -
  let ?ts = "map (\<lambda>(d, e). MLeaf d e) ls"
  have r: "leaf_row E ls = tree_row E ?ts"
    by (induction ls) auto
  obtain T where T: "build_tree ?ts = [T]"
    using build_tree_one [of ?ts] assms by (auto simp: length_Suc_conv)
  have "concat (map mleaves ?ts) = ls" by (induction ls) auto
  then have "mleaves T = ls" using build_tree_leaves [of ?ts] T by simp
  moreover have "merkle_root E (leaf_row E ls) = Some (mhash E T)"
    by (simp only: merkle_root_def r merkle_root_loop_trees T, simp)
  ultimately show ?thesis using T by (simp add: row_tree_def)
qed

lemma mleaves_last: "mleaves T \<noteq> [] \<and> snd (last (mleaves T)) = mend T"
  by (induction T) auto

section \<open>Paths reach the leaf that holds the target\<close>

text \<open>The leaf of a row that holds byte \<open>t\<close>, with the end of the leaf before it.\<close>

fun locate :: "nat \<Rightarrow> nat \<Rightarrow> (bytes \<times> nat) list \<Rightarrow> (nat \<times> bytes \<times> nat) option" where
  "locate t lb [] = None"
| "locate t lb ((d, e) # ls) = (if t < e then Some (lb, d, e) else locate t (max lb e) ls)"

lemma locate_append_left:
  "t < e \<Longrightarrow> (d, e) \<in> set ls \<Longrightarrow> locate t lb (ls @ ms) = locate t lb ls"
  by (induction t lb ls rule: locate.induct) auto

lemma locate_append_right:
  "\<forall>x \<in> set ls. snd x \<le> t \<Longrightarrow>
     locate t lb (ls @ ms) = locate t (foldl max lb (map snd ls)) ms"
  by (induction t lb ls rule: locate.induct) auto

lemma foldl_max_sorted: "sorted xs \<Longrightarrow> xs \<noteq> [] \<Longrightarrow> foldl max lb xs = max lb (last xs :: nat)"
proof (induction xs arbitrary: lb)
  case (Cons x xs)
  show ?case
  proof (cases "xs = []")
    case False
    then have "x \<le> last xs" using Cons.prems by simp
    then have "max (max lb x) (last xs) = max lb (last xs)" by simp
    then show ?thesis using Cons False by simp
  qed simp
qed simp

fun tree_path :: "deps \<Rightarrow> nat \<Rightarrow> mtree \<Rightarrow> branch list \<times> bytes \<times> nat" where
  "tree_path E t (MLeaf d e) = ([], d, e)"
| "tree_path E t (MBranch l r) =
     (let (brs, leaf) = tree_path E t (if t < mend l then l else r)
      in ((mhash E l, mhash E r, note_bytes (mend l)) # brs, leaf))"

lemma sorted_leaves:
  "sorted (map snd (mleaves (MBranch l r))) \<Longrightarrow> sorted (map snd (mleaves l)) \<and> sorted (map snd (mleaves r))
     \<and> mend l \<le> mend r"
proof -
  assume s: "sorted (map snd (mleaves (MBranch l r)))"
  have "last (mleaves l) \<in> set (mleaves l)" "last (mleaves r) \<in> set (mleaves r)"
    using mleaves_last by auto
  then have "mend l \<in> set (map snd (mleaves l))" "mend r \<in> set (map snd (mleaves r))"
    using mleaves_last by (metis image_eqI set_map)+
  then show ?thesis using s by (auto simp: sorted_append) (metis snd_conv)
qed

lemma leaf_le_mend: "sorted (map snd (mleaves T)) \<Longrightarrow> (d, e) \<in> set (mleaves T) \<Longrightarrow> e \<le> mend T"
proof (induction T)
  case (MBranch l r)
  then show ?case using sorted_leaves [OF MBranch.prems(1)] by (fastforce)
qed simp

lemma mend_in: "\<exists>d. (d, mend T) \<in> set (mleaves T)"
  using mleaves_last [of T] by (metis last_in_set prod.collapse)

lemma tree_path_descend:
  assumes "tree_path E t T = (brs, d, e)" and "sorted (map snd (mleaves T))" and "t < mend T"
    and "mend T < U128" and "mend T \<le> rb"
  shows "\<exists>lb' rb' m'. descend E t brs (mhash E T, lb, rb, m) = Some (hash_leaf E d (note_bytes e), lb', rb', m')
    \<and> locate t lb (mleaves T) = Some (lb', d, e) \<and> t < e \<and> e \<le> rb'"
  using assms
proof (induction T arbitrary: brs lb rb m)
  case (MLeaf d e)
  then show ?case by auto
next
  case (MBranch l r)
  note s = sorted_leaves [OF MBranch.prems(2)]
  then have n: "note_to_u128 (note_bytes (mend l)) = Inr (mend l)"
    using MBranch.prems(4) by (simp add: note_to_u128_eq)
  obtain rr where p: "tree_path E t (if t < mend l then l else r) = (rr, d, e)"
    and brs: "brs = (mhash E l, mhash E r, note_bytes (mend l)) # rr"
    using MBranch.prems(1) by (cases "tree_path E t (if t < mend l then l else r)") (auto simp: Let_def)
  show ?case
  proof (cases "t < mend l")
    case True
    obtain d0 where "(d0, mend l) \<in> set (mleaves l)" using mend_in by blast
    then have "locate t lb (mleaves l @ mleaves r) = locate t lb (mleaves l)"
      using True by (rule locate_append_left [rotated])
    moreover have "tree_path E t l = (rr, d, e)" using p True by simp
    ultimately show ?thesis
      using MBranch.IH(1) [of rr "min rb (mend l)" lb "Some False"] s True MBranch.prems n brs
      by auto
  next
    case False
    have "locate t lb (mleaves l @ mleaves r) = locate t (foldl max lb (map snd (mleaves l))) (mleaves r)"
      using False leaf_le_mend s by (intro locate_append_right) fastforce
    also have "foldl max lb (map snd (mleaves l)) = max lb (mend l)"
      using s mleaves_last [of l] by (simp add: foldl_max_sorted last_map)
    finally show ?thesis
      using MBranch.IH(2) [of rr rb "max lb (mend l)" "if m = None then Some True else m"] s False MBranch.prems n brs p
      by auto
  qed
qed


fun mtree_inputs :: "deps \<Rightarrow> mtree \<Rightarrow> bytes list" where
  "mtree_inputs E (MLeaf d e) = leaf_inputs E d (note_bytes e)"
| "mtree_inputs E (MBranch l r) =
     branch_inputs E (mhash E l, mhash E r, note_bytes (mend l)) @ mtree_inputs E l @ mtree_inputs E r"

lemma descend_tree_path:
  assumes "hash_widths E" "collision_free E xs"
    and "set (mtree_inputs E T) \<subseteq> set xs" "set (concat (map (branch_inputs E) brs)) \<subseteq> set xs"
    and "set (leaf_inputs E d n) \<subseteq> set xs" "mend T < U128" "sorted (map snd (mleaves T))"
    and "descend E t brs (mhash E T, lb, rb, m) = Some (hash_leaf E d n, lb', rb', m')"
  shows "\<exists>e. tree_path E t T = (brs, d, e) \<and> n = note_bytes e"
  using assms(3-8)
proof (induction T arbitrary: brs lb rb m)
  case (MLeaf d0 e)
  show ?case
  proof (cases brs)
    case Nil
    have "hash_leaf E d0 (note_bytes e) = hash_leaf E d n" using MLeaf.prems(6) Nil by simp
    moreover have "set (leaf_inputs E d0 (note_bytes e)) \<subseteq> set xs" using MLeaf.prems(1) by simp
    ultimately have "d0 = d \<and> note_bytes e = n"
      using hash_leaf_inj [OF assms(1,2) _ MLeaf.prems(3)] by blast
    then show ?thesis using Nil by auto
  next
    case (Cons b bs)
    obtain l r k where b: "b = (l, r, k)" by (cases b) auto
    have "hash_branch E l r k = hash_leaf E d0 (note_bytes e)"
      using MLeaf.prems(6) Cons b by (simp split: if_splits)
    moreover have "set (branch_inputs E (l, r, k)) \<subseteq> set xs" "set (leaf_inputs E d0 (note_bytes e)) \<subseteq> set xs"
      using MLeaf.prems(1,2) Cons b by simp_all
    ultimately show ?thesis using hash_branch_not_leaf [OF assms(1,2)] by blast
  qed
next
  case (MBranch l r)
  note s = sorted_leaves [OF MBranch.prems(5)]
  then have n: "note_to_u128 (note_bytes (mend l)) = Inr (mend l)"
    using MBranch.prems(4) by (simp add: note_to_u128_eq)
  show ?case
  proof (cases brs)
    case Nil
    then show ?thesis
      using MBranch.prems hash_branch_not_leaf [OF assms(1,2), of "mhash E l" "mhash E r" "note_bytes (mend l)" d n]
      by auto
  next
    case (Cons b bs)
    obtain l' r' k where b: "b = (l', r', k)" by (cases b) auto
    have "hash_branch E l' r' k = hash_branch E (mhash E l) (mhash E r) (note_bytes (mend l))"
      using MBranch.prems(6) Cons b by (auto split: if_splits)
    then have e: "l' = mhash E l" "r' = mhash E r" "k = note_bytes (mend l)"
      using hash_branch_inj [OF assms(1,2), of l' r' k "mhash E l" "mhash E r" "note_bytes (mend l)"] MBranch.prems Cons b
      by auto
    show ?thesis
    proof (cases "t < mend l")
      case True
      then show ?thesis
        using MBranch.IH(1) [of bs lb "min rb (mend l)" "Some False"] MBranch.prems s n Cons b e by auto
    next
      case False
      then show ?thesis
        using MBranch.IH(2) [of bs "max lb (mend l)" rb "if m = None then Some True else m"] MBranch.prems s n Cons b e
        by auto
    qed
  qed
qed

lemma split_path_concat:
  assumes "list_all (\<lambda>(l, r, n). length l = 32 \<and> length r = 32 \<and> length n = 32) brs" and "length leaf < 96"
  shows "split_path (concat (map (\<lambda>(l, r, n). l @ r @ n) brs) @ leaf) = (brs, leaf)"
  using assms(1)
proof (induction brs)
  case Nil
  then show ?case using assms(2) by (simp add: split_path_stop)
next
  case (Cons b brs)
  obtain l r n where b: "b = (l, r, n)" by (cases b) auto
  let ?rest = "concat (map (\<lambda>(l, r, n). l @ r @ n) brs) @ leaf"
  have "split_path (drop 0 (l @ r @ n @ ?rest)) = ((l, r, n) # fst (split_path ?rest), snd (split_path ?rest))"
    using Cons.prems by (subst split_path_Cons) (auto simp: b sub_bytes_def)
  then show ?case using Cons by (simp add: b)
qed

lemma mhash_length: "hash_widths E \<Longrightarrow> length (mhash E T) = 32"
  by (cases T) (simp_all add: hash_leaf_def hash_branch_def Let_def)

lemma tree_path_wide:
  "hash_widths E \<Longrightarrow> tree_path E t T = (brs, d, e) \<Longrightarrow>
     list_all (\<lambda>(l, r, n). length l = 32 \<and> length r = 32 \<and> length n = 32) brs"
proof (induction T arbitrary: brs)
  case (MBranch l r)
  then show ?case
    by (cases "tree_path E t (if t < mend l then l else r)") (auto simp: Let_def mhash_length split: if_splits)
qed auto

text \<open>The bytes of a tree's proof for a target.\<close>

definition tree_proof :: "deps \<Rightarrow> nat \<Rightarrow> mtree \<Rightarrow> bytes" where
  "tree_proof E t T = (case tree_path E t T of (brs, d, e) \<Rightarrow>
     concat (map (\<lambda>(l, r, n). l @ r @ n) brs) @ d @ note_bytes e)"

lemma mend_pos_bounds: "sorted (map snd (mleaves T)) \<Longrightarrow> locate t lb (mleaves T) = Some (lb', d, e) \<Longrightarrow>
    lb \<le> t \<Longrightarrow> lb' \<le> t \<and> t < e \<and> (d, e) \<in> set (mleaves T)"
proof -
  have "lb \<le> t \<Longrightarrow> locate t lb ls = Some (lb', d, e) \<Longrightarrow> lb' \<le> t \<and> t < e \<and> (d, e) \<in> set ls" for ls
    by (induction t lb ls rule: locate.induct) (auto split: if_splits)
  then show "sorted (map snd (mleaves T)) \<Longrightarrow> locate t lb (mleaves T) = Some (lb', d, e) \<Longrightarrow>
    lb \<le> t \<Longrightarrow> lb' \<le> t \<and> t < e \<and> (d, e) \<in> set (mleaves T)" by blast
qed

lemma tree_proof_split:
  assumes "hash_widths E" "tree_path E t T = (brs, d, e)" "length d = 32"
  shows "split_path (tree_proof E t T) = (brs, d @ note_bytes e)"
  using split_path_concat [OF tree_path_wide [OF assms(1,2)], of "d @ note_bytes e"] assms(2,3)
  by (simp add: tree_proof_def)

lemma tree_proof_accepted:
  assumes w: "hash_widths E" and s: "sorted (map snd (mleaves T))" and e: "mend T = bws - pws"
    and off: "pws < off" "off \<le> bws" "bws < U128"
    and loc: "locate (off - pws - 1) 0 (mleaves T) = Some (lb, d, k)" and d: "length d = 32"
  shows "validate_tx_path E (mhash E T) off bws pws (tree_proof E (off - pws - 1) T) =
    Inr \<lparr>tp_data_root = d, tp_start_bound = pws + lb, tp_end_offset = pws + k, tp_size = k - lb\<rparr>"
proof -
  let ?t = "off - pws - 1"
  obtain brs d' e' where p: "tree_path E ?t T = (brs, d', e')" by (cases "tree_path E ?t T") auto
  have "?t < mend T" "mend T < U128" "mend T \<le> bws - pws" using e off by auto
  from tree_path_descend [OF p s this, of 0 None] obtain lb' rb' m' where
    walk: "descend E ?t brs (mhash E T, 0, bws - pws, None) = Some (hash_leaf E d' (note_bytes e'), lb', rb', m')"
    and l: "locate ?t 0 (mleaves T) = Some (lb', d', e')" "?t < e'" "e' \<le> rb'"
    by blast
  have eq: "lb' = lb" "d' = d" "e' = k" using l(1) loc by simp_all
  have b: "lb \<le> ?t" "(d, k) \<in> set (mleaves T)" using mend_pos_bounds [OF s loc] by auto
  then have "k \<le> mend T" using leaf_le_mend [OF s] by blast
  then have u: "pws + k < U128" "k < U128" using e off by auto
  show ?thesis
    unfolding validate_tx_path_parses
  proof (intro conjI exI)
    show "split_path (tree_proof E ?t T) = (brs, d @ note_bytes k)"
      using tree_proof_split [OF w p] d eq by simp
    show "descend E ?t brs (mhash E T, 0, bws - pws, None) = Some (hash_leaf E d (note_bytes k), lb, rb', m')"
      using walk eq by simp
    show "note_to_u128 (note_bytes k) = Inr k" using u by (simp add: note_to_u128_eq)
  qed (use off d l eq b u in auto)
qed

lemma tree_proof_unique:
  assumes w: "hash_widths E" and cf: "collision_free E (mtree_inputs E T @ path_inputs E path)"
    and s: "sorted (map snd (mleaves T))" and e: "mend T = bws - pws" and bws: "bws < U128"
    and v: "validate_tx_path E (mhash E T) off bws pws path = Inr p"
  shows "\<exists>lb d k. locate (off - pws - 1) 0 (mleaves T) = Some (lb, d, k) \<and> length d = 32
    \<and> p = \<lparr>tp_data_root = d, tp_start_bound = pws + lb, tp_end_offset = pws + k, tp_size = k - lb\<rparr>"
proof -
  let ?t = "off - pws - 1" and ?xs = "mtree_inputs E T @ path_inputs E path"
  from v [unfolded validate_tx_path_parses] obtain brs d n lb rb m k where
    off: "pws < off" "off \<le> bws" and sp: "split_path path = (brs, d @ n)" "length d = 32" "length n = 32"
    and walk: "descend E ?t brs (mhash E T, 0, bws - pws, None) = Some (hash_leaf E d n, lb, rb, m)"
    and n: "note_to_u128 n = Inr k"
    and p: "p = \<lparr>tp_data_root = d, tp_start_bound = pws + lb, tp_end_offset = pws + k, tp_size = k - lb\<rparr>"
    by blast
  have inp: "set (concat (map (branch_inputs E) brs)) \<subseteq> set ?xs" "set (leaf_inputs E d n) \<subseteq> set ?xs"
    using sp by (auto simp: path_inputs_def)
  have "mend T < U128" using e bws by simp
  from descend_tree_path [OF w cf _ inp this s walk]
  obtain k' where tp: "tree_path E ?t T = (brs, d, k')" "n = note_bytes k'"
    by auto
  have "?t < mend T" "mend T < U128" "mend T \<le> bws - pws" using e off bws by auto
  from tree_path_descend [OF tp(1) s this, of 0 None] obtain lb' rb' m' where
    walk': "descend E ?t brs (mhash E T, 0, bws - pws, None) = Some (hash_leaf E d (note_bytes k'), lb', rb', m')"
    and l: "locate ?t 0 (mleaves T) = Some (lb', d, k')"
    by blast
  have "k' < U128" using leaf_le_mend [OF s, of d k'] mend_pos_bounds [OF s l] e bws by simp
  then have "k = k'" using n tp(2) by (simp add: note_to_u128_eq note_bytes_inj)
  moreover have "lb = lb'" using walk walk' tp(2) by simp
  ultimately show ?thesis using l p sp by simp
qed

section \<open>The leaves of a block\<close>

fun block_leaves :: "nat \<Rightarrow> nat \<Rightarrow> ObjectMetadata list \<Rightarrow> (bytes \<times> nat) list" where
  "block_leaves h end [] = []"
| "block_leaves h end (ob # obs) =
     (let e = end + om_data_size ob; pad = padding (om_data_size ob); root = the (om_data_root ob) in
      if h \<ge> FORK_2_5_HEIGHT \<and> pad > 0 then (root, e) # ([], e + pad) # block_leaves h (e + pad) obs
      else (root, e) # block_leaves h e obs)"

fun block_end :: "nat \<Rightarrow> nat \<Rightarrow> ObjectMetadata list \<Rightarrow> nat" where
  "block_end h end [] = end"
| "block_end h end (ob # obs) =
     (let e = end + om_data_size ob in
      block_end h (if h \<ge> FORK_2_5_HEIGHT then e + padding (om_data_size ob) else e) obs)"

lemma block_row_fold:
  assumes "foldE (block_row_step E h) (ids, end, row) obs = Inr (ids', end', row')"
  shows "row' = row @ leaf_row E (block_leaves h end obs) \<and> end' = block_end h end obs
    \<and> list_all (\<lambda>ob. length (om_id ob) = 32 \<and> om_data_root ob \<noteq> None) obs
    \<and> (end < U128 \<longrightarrow> end' < U128)"
  using assms
proof (induction obs arbitrary: ids "end" row)
  case (Cons ob obs)
  then obtain i1 e1 r1 where
    s: "block_row_step E h (ids, end, row) ob = Inr (i1, e1, r1)" "foldE (block_row_step E h) (i1, e1, r1) obs = Inr (ids', end', row')"
    by (auto simp: res_simps)
  note IH = Cons.IH [OF s(2)]
  show ?case
    using IH s(1) by (auto simp: block_row_step_def res_simps Let_def split: if_splits)
qed simp

lemma block_leaves_props:
  "sorted (map snd (block_leaves h end obs)) \<and> (\<forall>x \<in> set (block_leaves h end obs). end \<le> snd x \<and> snd x \<le> block_end h end obs)
     \<and> end \<le> block_end h end obs \<and> (obs \<noteq> [] \<longrightarrow> block_leaves h end obs \<noteq> [] \<and> snd (last (block_leaves h end obs)) = block_end h end obs)"
proof (induction obs arbitrary: "end")
  case (Cons ob obs)
  let ?e = "end + om_data_size ob" and ?p = "padding (om_data_size ob)"
  let ?n = "if h \<ge> FORK_2_5_HEIGHT then ?e + ?p else ?e"
  have IH: "sorted (map snd (block_leaves h ?n obs)) \<and> (\<forall>x \<in> set (block_leaves h ?n obs). ?n \<le> snd x \<and> snd x \<le> block_end h ?n obs)
     \<and> ?n \<le> block_end h ?n obs \<and> (obs \<noteq> [] \<longrightarrow> block_leaves h ?n obs \<noteq> [] \<and> snd (last (block_leaves h ?n obs)) = block_end h ?n obs)"
    by (rule Cons.IH)
  show ?case
    using IH by (cases "obs = []") (force simp: Let_def split: if_splits)+
qed simp


text \<open>The located leaf of a block is a transaction, and its start is the end of what precedes it.\<close>

lemma locate_block_leaves:
  assumes "locate t end (block_leaves h end obs) = Some (lb, d, k)" and "d \<noteq> []"
  shows "\<exists>pre ob post. obs = pre @ ob # post \<and> d = the (om_data_root ob) \<and> lb = block_end h end pre
    \<and> k = lb + om_data_size ob"
  using assms(1)
proof (induction obs arbitrary: "end")
  case (Cons ob obs)
  let ?e = "end + om_data_size ob" and ?p = "padding (om_data_size ob)"
  let ?n = "if h \<ge> FORK_2_5_HEIGHT then ?e + ?p else ?e"
  show ?case
  proof (cases "t < ?e")
    case True
    then have "lb = end" "d = the (om_data_root ob)" "k = ?e" using Cons.prems by (auto simp: Let_def split: if_splits)
    then show ?thesis by (intro exI [of _ "[]"] exI [of _ ob] exI [of _ obs]) simp
  next
    case False
    then have "locate t ?n (block_leaves h ?n obs) = Some (lb, d, k)"
      using Cons.prems assms(2) by (auto simp: Let_def max_def split: if_splits)
    then obtain pre b post where "obs = pre @ b # post" "d = the (om_data_root b)" "lb = block_end h ?n pre"
      "k = lb + om_data_size b" using Cons.IH by blast
    then show ?thesis
      by (intro exI [of _ "ob # pre"] exI [of _ b] exI [of _ post]) (simp add: Let_def)
  qed
qed simp

lemma block_end_append: "block_end h end (xs @ ys) = block_end h (block_end h end xs) ys"
  by (induction xs arbitrary: "end") (auto simp: Let_def)

lemma block_end_ge: "end \<le> block_end h end xs"
  using block_leaves_props by blast

abbreviation offset_key :: "ObjectMetadata \<Rightarrow> bytes \<times> int option \<times> nat" where
  "offset_key ob \<equiv> (om_id ob, om_format ob, om_data_size ob)"

lemma end_offset_loop_found:
  assumes "om_id ob \<notin> om_id ` set pre" and "block_end h end (pre @ ob # post) < U128"
  shows "end_offset_loop h (om_id ob) end (map offset_key (pre @ ob # post)) =
    Inr (Some (om_data_size ob, block_end h end pre + om_data_size ob))"
  using assms
proof (induction pre arbitrary: "end")
  case Nil
  have "end + om_data_size ob \<le> block_end h end (ob # post)"
    using block_end_ge [of "end + om_data_size ob + padding (om_data_size ob)" h post]
      block_end_ge [of "end + om_data_size ob" h post] by (auto simp: Let_def)
  then show ?case using Nil.prems by (auto simp: checked_add_def)
next
  case (Cons b pre)
  let ?e = "end + om_data_size b"
  let ?n = "if h \<ge> FORK_2_5_HEIGHT then ?e + padding (om_data_size b) else ?e"
  have "?n \<le> block_end h ?n (pre @ ob # post)" by (rule block_end_ge)
  also have "\<dots> < U128" using Cons.prems by (simp add: Let_def)
  finally have n: "?n < U128" "?e < U128" by (auto split: if_splits)
  have "block_end h ?n (pre @ ob # post) < U128" using Cons.prems by (simp add: Let_def)
  then have "end_offset_loop h (om_id ob) ?n (map offset_key (pre @ ob # post)) =
     Inr (Some (om_data_size ob, block_end h ?n pre + om_data_size ob))"
    using Cons.prems by (intro Cons.IH) auto
  then show ?case using Cons.prems n by (auto simp: checked_add_def Let_def split: if_splits)
qed

lemma insert_by_map: "(\<And>x y. le' (f x) (f y) = le x y) \<Longrightarrow> insert_by le' (f x) (map f ys) = map f (insert_by le x ys)"
  by (induction ys) auto

lemma sort_by_map: "(\<And>x y. le' (f x) (f y) = le x y) \<Longrightarrow> sort_by le' (map f xs) = map f (sort_by le xs)"
  by (induction xs) (auto simp: sort_by_def insert_by_map)

lemma transaction_end_offset_sorted:
  "transaction_end_offset h (map offset_key obs) i = end_offset_loop h i 0 (map offset_key (sort_objects obs))"
  unfolding transaction_end_offset_def sort_objects_def by (subst sort_by_map [where le = "\<lambda>l r.
      format_key_le (om_format l, om_id l) (om_format r, om_id r)"]) simp_all

lemma block_row_ids:
  assumes "foldE (block_row_step E h) (ids, end, row) obs = Inr (ids', end', row')" and "distinct ids"
  shows "distinct (map om_id obs) \<and> set (map om_id obs) \<subseteq> set ids"
  using assms
proof (induction obs arbitrary: ids "end" row)
  case (Cons ob obs)
  then obtain i1 e1 r1 where
    s: "block_row_step E h (ids, end, row) ob = Inr (i1, e1, r1)" "foldE (block_row_step E h) (i1, e1, r1) obs = Inr (ids', end', row')"
    by (auto simp: res_simps)
  have i: "om_id ob \<in> set ids" "i1 = remove1 (om_id ob) ids"
    using s(1) by (auto simp: block_row_step_def res_simps Let_def split: if_splits)
  have i1: "distinct i1" "set i1 = set ids - {om_id ob}"
    using i Cons.prems(2) by (simp_all add: set_remove1_eq)
  show ?case using Cons.IH [OF s(2) i1(1)] i1(2) i(1) by auto
qed simp

text \<open>What an accepted block says of its transactions.\<close>

lemma verify_block_data_root_steps:
  assumes "verify_block_data_root E G block objects = Inr objs" and "0 < bh_height block"
  shows "\<exists>row e. objs = sort_objects objects \<and> distinct (map om_id objs)
    \<and> row = leaf_row E (block_leaves (bh_height block) 0 objs) \<and> e = block_end (bh_height block) 0 objs
    \<and> parse_unsigned U128 (bh_block_size block) = Some e \<and> e < U128
    \<and> x_b64_decode E (bh_tx_root block) = Some (case merkle_root E row of None \<Rightarrow> [] | Some root \<Rightarrow> root)
    \<and> list_all (\<lambda>ob. length (om_id ob) = 32 \<and> om_data_root ob \<noteq> None) objs"
proof -
  from assms obtain ids i' e row where
    d: "distinct ids" and o: "objs = sort_objects objects"
    and f: "foldE (block_row_step E (bh_height block)) (ids, 0, []) objs = Inr (i', e, row)"
    and sz: "parse_unsigned U128 (bh_block_size block) = Some e"
    and root: "x_b64_decode E (bh_tx_root block) = Some (case merkle_root E row of None \<Rightarrow> [] | Some root \<Rightarrow> root)"
    by (auto simp: verify_block_data_root_def res_simps Let_def parse_u128_def decode_b64_eq split: if_splits)
  note r = block_row_fold [OF f]
  have "e < U128" using r by (simp add: U128_def)
  then show ?thesis
    using r block_row_ids [OF f d] o sz root by (intro exI [of _ row] exI [of _ e] conjI) simp_all
qed

text \<open>
  The contents of a block, said without the code's loops: one object for each transaction id of the header,
  and a tree of their data roots and ends that hashes to the block's root and ends at its size.  The genesis
  block has no weave: its 314 records hash to the official snapshot.
\<close>

definition block_contents :: "deps \<Rightarrow> (ObjectMetadata \<Rightarrow> bytes) \<Rightarrow> BlockHeader \<Rightarrow> ObjectMetadata list \<Rightarrow> bool" where
  "block_contents E G block objs \<longleftrightarrow>
     (case mapE (\<lambda>i. decode_fixed E 32 i STR ''block transaction ID'') (bh_txs block) of
        Inl _ \<Rightarrow> False | Inr ids \<Rightarrow> distinct ids \<and> mset (map om_id objs) = mset ids)
     \<and> list_all (\<lambda>ob. length (om_id ob) = 32 \<and> om_data_root ob \<noteq> None) objs
     \<and> (if bh_height block = 0
        then length objs = 314
          \<and> bh_indep_hash block = ''7wIU7KolICAjClMlcZ38LZzshhI7xGkm2tDCJR7Wvhe3ESUo2-Z4-y0x1uaglRJE''
          \<and> bh_tx_root block = ''P_OiqMNN1s4ltcaq0HXb9VFos_Zz6LFjM8ogUG0vJek''
          \<and> parse_unsigned U128 (bh_block_size block) = Some 0 \<and> parse_unsigned U128 (bh_weave_size block) = Some 0
          \<and> sha256 E [concat (map G objs)] = MAINNET_GENESIS_RECORDS_SHA256
        else parse_unsigned U128 (bh_block_size block) = Some (block_end (bh_height block) 0 objs)
          \<and> x_b64_decode E (bh_tx_root block) =
              Some (if objs = [] then [] else mhash E (row_tree (block_leaves (bh_height block) 0 objs))))"

lemma genesis_fold:
  assumes "foldE (genesis_step G) (ids, out) obs = Inr (ids', out')" and "distinct ids"
  shows "out' = out @ concat (map G obs) \<and> distinct (map om_id obs) \<and> set (map om_id obs) \<subseteq> set ids
    \<and> list_all (\<lambda>ob. length (om_id ob) = 32 \<and> om_data_root ob \<noteq> None) obs"
  using assms
proof (induction obs arbitrary: ids out)
  case (Cons ob obs)
  then obtain i1 o1 where
    s: "genesis_step G (ids, out) ob = Inr (i1, o1)" "foldE (genesis_step G) (i1, o1) obs = Inr (ids', out')"
    by (auto simp: res_simps)
  have i: "length (om_id ob) = 32" "om_id ob \<in> set ids" "om_data_root ob \<noteq> None" "i1 = remove1 (om_id ob) ids" "o1 = out @ G ob"
    using s(1) by (auto simp: genesis_step_def res_simps split: if_splits)
  have i1: "distinct i1" "set i1 = set ids - {om_id ob}"
    using i Cons.prems(2) by (simp_all add: set_remove1_eq)
  show ?case using Cons.IH [OF s(2) i1(1)] i1(2) i by auto
qed simp

lemma mset_of_subset:
  assumes "distinct xs" "distinct ys" "set xs \<subseteq> set ys" "length xs = length ys"
  shows "mset xs = mset ys"
  using assms by (metis card_subset_eq distinct_card finite_set set_eq_iff_mset_eq_distinct)

lemma mset_sort_objects [simp]: "mset (sort_objects obs) = mset obs"
  by (simp add: sort_objects_def)

lemma verified_contents:
  assumes v: "verify_block_data_root E G block objects = Inr objs"
  shows "block_contents E G block objs \<and> mset objs = mset objects"
proof -
  from v obtain ids where i: "mapE (\<lambda>i. decode_fixed E 32 i STR ''block transaction ID'') (bh_txs block) = Inr ids" "distinct ids"
    and n: "length objects = length (bh_txs block)" and o: "objs = sort_objects objects"
    unfolding verify_block_data_root_def Let_def bindE_eq_Inr ensure_eq_Inr
    by (cases "bh_height block = 0") (auto simp: bindE_eq_Inr ensure_eq_Inr)
  have l: "length (map om_id objs) = length ids"
    using n mapE_length [OF i(1)] mset_eq_length [OF mset_sort_objects, of objects] by (simp add: o)
  have m: "distinct (map om_id objs) \<Longrightarrow> set (map om_id objs) \<subseteq> set ids \<Longrightarrow> mset (map om_id objs) = mset ids"
    using mset_of_subset l i(2) by blast
  show ?thesis
  proof (cases "bh_height block = 0")
    case True
    then have g: "verify_genesis E G block ids objs = Inr ()"
      using v i o by (auto simp: verify_block_data_root_def Let_def bindE_eq_Inr split: if_splits)
    then obtain ids' out where f: "foldE (genesis_step G) (ids, []) objs = Inr (ids', out)"
      and d: "sha256 E [out] = MAINNET_GENESIS_RECORDS_SHA256" 
      and s: "length objs = 314" "bh_indep_hash block = ''7wIU7KolICAjClMlcZ38LZzshhI7xGkm2tDCJR7Wvhe3ESUo2-Z4-y0x1uaglRJE''"
        "parse_u128 (bh_block_size block) STR ''block size'' = Inr 0" "parse_u128 (bh_weave_size block) STR ''weave size'' = Inr 0"
        "bh_tx_root block = ''P_OiqMNN1s4ltcaq0HXb9VFos_Zz6LFjM8ogUG0vJek''"
      by (auto simp: verify_genesis_def bindE_eq_Inr ensure_eq_Inr split: if_splits)
    note gf = genesis_fold [OF f i(2)]
    have p: "parse_unsigned U128 (bh_block_size block) = Some 0" "parse_unsigned U128 (bh_weave_size block) = Some 0"
      using s(3,4) by (simp_all add: parse_u128_def contextE_eq_Inr)
    show ?thesis unfolding block_contents_def i(1) sum.case if_P [OF True]
      using gf m i(2) d s p o by simp
  next
    case False
    then have h: "0 < bh_height block" by simp
    from v obtain r where f: "foldE (block_row_step E (bh_height block)) (ids, 0, []) objs = Inr r"
      unfolding verify_block_data_root_def Let_def if_not_P [OF False] bindE_eq_Inr ensure_eq_Inr i(1) o by blast
    obtain ids' e row where r: "r = (ids', e, row)" by (cases r)
    note b = block_row_ids [OF f [unfolded r] i(2)]
    note st = verify_block_data_root_steps [OF v h]
    have root: "(case merkle_root E (leaf_row E (block_leaves (bh_height block) 0 objs)) of None \<Rightarrow> [] | Some root \<Rightarrow> root)
        = (if objs = [] then [] else mhash E (row_tree (block_leaves (bh_height block) 0 objs)))"
    proof (cases "objs = []")
      case True
      then show ?thesis by (simp add: merkle_root_def merkle_root_loop.simps)
    next
      case False
      then have "block_leaves (bh_height block) 0 objs \<noteq> []" using block_leaves_props [of "bh_height block" 0 objs] by blast
      from merkle_root_tree [OF this, where E = E] show ?thesis using False by simp
    qed
    show ?thesis unfolding block_contents_def i(1) sum.case if_not_P [OF False]
      using b m i(2) st root o by auto
  qed
qed

lemma genesis_no_path:
  assumes "verify_block_data_root E G block objects = Inr objs" and "bh_height block = 0"
    and "parse_unsigned U128 (bh_block_size block) = Some (bws - pws)"
  shows "bws \<le> pws \<and> validate_tx_path E root off bws pws path \<noteq> Inr p"
  using verified_contents [OF assms(1)] assms(2,3) by (auto simp: block_contents_def validate_tx_path_parses)

lemma verified_block_tx_path_aux:
  assumes v: "verify_block_data_root E G block objects = Inr objs" and h: "0 < bh_height block"
    and w: "hash_widths E" and root: "x_b64_decode E (bh_tx_root block) = Some root"
    and bws: "bws < U128" and sz: "parse_unsigned U128 (bh_block_size block) = Some (bws - pws)"
    and tp: "validate_tx_path E root off bws pws path = Inr p"
    and cf: "collision_free E (mtree_inputs E (row_tree (block_leaves (bh_height block) 0 objs)) @ path_inputs E path)"
  shows "\<exists>ob \<in> set objs. om_data_root ob = Some (tp_data_root p) \<and> om_data_size ob = tp_size p
    \<and> transaction_end_offset (bh_height block) (map offset_key objects) (om_id ob) = Inr (Some (tp_size p, tp_end_offset p - pws))"
proof -
  let ?h = "bh_height block"
  from verify_block_data_root_steps [OF v h] obtain row e where
    o: "objs = sort_objects objects" and d: "distinct (map om_id objs)"
    and r: "row = leaf_row E (block_leaves ?h 0 objs)" and e: "e = block_end ?h 0 objs"
      "parse_unsigned U128 (bh_block_size block) = Some e" "e < U128"
    and rt: "x_b64_decode E (bh_tx_root block) = Some (case merkle_root E row of None \<Rightarrow> [] | Some root \<Rightarrow> root)"
    and all: "list_all (\<lambda>ob. length (om_id ob) = 32 \<and> om_data_root ob \<noteq> None) objs"
    by blast
  have off: "pws < off" "off \<le> bws" using tp [unfolded validate_tx_path_parses] by auto
  have eq: "block_end ?h 0 objs = bws - pws" using e sz by simp
  then have ne: "objs \<noteq> []" using off by (cases objs) auto
  note props = block_leaves_props [of ?h 0 objs]
  have lne: "block_leaves ?h 0 objs \<noteq> []" using props ne by blast
  let ?T = "row_tree (block_leaves ?h 0 objs)"
  have T: "merkle_root E row = Some (mhash E ?T)" "mleaves ?T = block_leaves ?h 0 objs"
    unfolding r using merkle_root_tree [OF lne] by simp_all
  have "root = mhash E ?T" using rt root T by simp
  have me: "mend ?T = bws - pws" using mleaves_last [of ?T] T(2) props ne eq by simp
  have s: "sorted (map snd (mleaves ?T))" using props T(2) by simp
  obtain lb dd k where l: "locate (off - pws - 1) 0 (mleaves ?T) = Some (lb, dd, k)" "length dd = 32"
    and p: "p = \<lparr>tp_data_root = dd, tp_start_bound = pws + lb, tp_end_offset = pws + k, tp_size = k - lb\<rparr>"
    using tree_proof_unique [OF w cf s me bws] tp \<open>root = mhash E ?T\<close> by metis
  have "dd \<noteq> []" using l(2) by auto
  from locate_block_leaves [OF l(1) [unfolded T(2)] this] obtain pre ob post where
    ob: "objs = pre @ ob # post" "dd = the (om_data_root ob)" "lb = block_end ?h 0 pre" "k = lb + om_data_size ob"
    by blast
  have "om_data_root ob \<noteq> None" using all ob(1) by simp
  moreover have "end_offset_loop ?h (om_id ob) 0 (map offset_key objs) = Inr (Some (om_data_size ob, k))"
    using end_offset_loop_found [of ob pre ?h 0 post] d e ob by auto
  ultimately show ?thesis
    using ob p by (intro bexI [of _ ob]) (auto simp: transaction_end_offset_sorted o [symmetric])
qed

end
