(* ===== verification/Rsa.thy ===== *)
theory Rsa
  imports Codec
begin

text \<open>
  RSA-PSS verification of \<open>src/src/transactions.rs\<close> (\<open>verify_rsa_pss\<close>, \<open>verify_rsa_pss_digest\<close>): the
  unmasking of the recovered number at the historical widths and the salt it discovers, against
  the encoding of the standard.  Modular exponentiation, the aws-lc fast path and the secp256k1
  recovery are third-party code, the fields of \<open>signers\<close>.
\<close>

record signers =
  y_modpow :: "nat \<Rightarrow> nat \<Rightarrow> nat \<Rightarrow> nat"            \<comment> \<open>\<open>BigUint::modpow\<close>: base, exponent, modulus\<close>
  y_pss :: "bytes \<Rightarrow> bytes \<Rightarrow> bytes \<Rightarrow> bool"        \<comment> \<open>\<open>RSA_verify_pss_mgf1\<close>: modulus, digest, signature\<close>
  y_sig_ok :: "bytes \<Rightarrow> bool"                       \<comment> \<open>\<open>Secp256k1Signature::try_from\<close> succeeds\<close>
  y_low_s :: "bytes \<Rightarrow> bool"                        \<comment> \<open>\<open>normalize_s\<close> leaves the signature as it is\<close>
  y_recover :: "bytes \<Rightarrow> bytes \<Rightarrow> nat \<Rightarrow> bytes option" \<comment> \<open>\<open>recover_from_prehash\<close> and \<open>to_sec1_point(true)\<close>\<close>

section \<open>The verifier\<close>

text \<open>\<open>BigUint::bits\<close> of a number.\<close>

fun bit_length :: "nat \<Rightarrow> nat" where
  "bit_length n = (if n = 0 then 0 else Suc (bit_length (n div 2)))"

declare bit_length.simps [simp del]

text \<open>The loop over \<open>db.chunks_mut(32).enumerate()\<close>, from a counter on; \<open>zip\<close> stops at the shorter side.\<close>

definition xor_zip :: "bytes \<Rightarrow> bytes \<Rightarrow> bytes" where
  "xor_zip block bs = map2 (XOR) block bs @ drop (length bs) block"

function unmask_db :: "deps \<Rightarrow> bytes \<Rightarrow> nat \<Rightarrow> bytes \<Rightarrow> bytes" where
  "unmask_db E hash counter db =
     (if db = [] then []
      else xor_zip (take 32 db) (sha256 E [hash, be_bytes 4 counter]) @ unmask_db E hash (Suc counter) (drop 32 db))"
  by pat_completeness auto
termination by (relation "measure (\<lambda>(E, h, c, db). length db)") auto

declare unmask_db.simps [simp del]

definition clear_top :: "nat \<Rightarrow> bytes \<Rightarrow> bytes res" where
  "clear_top bits db =
     bindE (subE bits 1) (\<lambda>b.
     let significant = b mod 8 in
     if significant \<noteq> 0 then
       (case db of [] \<Rightarrow> Inl Panic | x # xs \<Rightarrow> Inr ((x AND drop_bit (8 - significant) 0xff) # xs))
     else Inr db)"

definition pss_padding :: "deps \<Rightarrow> bytes \<Rightarrow> bytes \<Rightarrow> bytes \<Rightarrow> String.literal \<Rightarrow> unit res" where
  "pss_padding E digest hash db label =
     (case dropWhile (\<lambda>byte. byte = 0) db of
        [] \<Rightarrow> Inl (Fail STR ''RSA PSS salt separator missing'')
      | separator # salt \<Rightarrow>
          ensure (separator = 1) (STR ''invalid RSA '' + label + STR '' PSS padding'')
          (ensure (hash = sha256 E [replicate 8 0, digest, salt])
             (label + STR '' signature verification failed'') (Inr ())))"

definition verify_rsa_pss_digest ::
  "deps \<Rightarrow> signers \<Rightarrow> bytes \<Rightarrow> bytes \<Rightarrow> bytes \<Rightarrow> bool \<Rightarrow> String.literal \<Rightarrow> unit res" where
  "verify_rsa_pss_digest E S owner signature digest legacy label =
     ensure (length owner \<le> 512 \<and> length signature \<le> 512)
       (STR ''RSA '' + label + STR '' key or signature exceeds protocol limit'')
     (let modulus = be_nat owner; bits = bit_length modulus; public_len = div_ceil bits 8;
          encoded_len = if legacy then bits div 8 else public_len in
      ensure (encoded_len \<ge> 34 \<and> length signature = public_len)
        (STR ''invalid RSA '' + label + STR '' signature length'')
      (let number = be_nat signature in
       ensure (number < modulus) (STR ''RSA '' + label + STR '' signature exceeds modulus'')
       (let recovered = x_big_bytes E (y_modpow S number 65537 modulus) in
        ensure (length recovered \<le> encoded_len)
          (STR ''RSA '' + label + STR '' encoded message exceeds historical width'')
        (let encoded = replicate (encoded_len - length recovered) 0 @ recovered in
         bindE (subE encoded_len 1) (\<lambda>i. bindE (nthE encoded i) (\<lambda>trailer.
         ensure (trailer = 0xbc) (STR ''invalid RSA '' + label + STR '' PSS trailer'')
         (bindE (subE encoded_len 33) (\<lambda>db_len.
          bindE (slice encoded 0 db_len) (\<lambda>db.
          bindE (slice encoded db_len (db_len + 32)) (\<lambda>hash.
          bindE (clear_top bits (unmask_db E hash 0 db)) (\<lambda>db.
          pss_padding E digest hash db label)))))))))))"

definition standard_rsa_pss :: "deps \<Rightarrow> signers \<Rightarrow> bytes \<Rightarrow> bytes \<Rightarrow> bytes \<Rightarrow> bool" where
  "standard_rsa_pss E S owner signature payload =
     (if \<not> (256 \<le> length owner \<and> length owner \<le> 512) \<or> owner ! 0 AND 0x80 = 0 \<or> length signature \<noteq> length owner
      then False else y_pss S owner (sha256 E [payload]) signature)"

definition verify_rsa_pss ::
  "deps \<Rightarrow> signers \<Rightarrow> bytes \<Rightarrow> bytes \<Rightarrow> bytes \<Rightarrow> String.literal \<Rightarrow> unit res" where
  "verify_rsa_pss E S owner signature payload label =
     (if standard_rsa_pss E S owner signature payload then Inr ()
      else verify_rsa_pss_digest E S owner signature (sha256 E [payload]) False label)"


section \<open>The encoding of the standard\<close>

definition mgf1 :: "deps \<Rightarrow> bytes \<Rightarrow> nat \<Rightarrow> nat \<Rightarrow> bytes" where
  "mgf1 E seed counter len =
     concat (map (\<lambda>c. sha256 E [seed, be_bytes 4 c]) [counter..<counter + div_ceil len 32])"

definition clear_high :: "nat \<Rightarrow> bytes \<Rightarrow> bytes" where
  "clear_high bits db =
     (if (bits - 1) mod 8 = 0 then db
      else case db of [] \<Rightarrow> [] | x # xs \<Rightarrow> (x AND drop_bit (8 - (bits - 1) mod 8) 0xff) # xs)"

definition pss_db :: "nat \<Rightarrow> bytes \<Rightarrow> bytes" where
  "pss_db n salt = replicate (n - 1 - length salt) 0 @ 1 # salt"

text \<open>The encoded message of \<open>width\<close> bytes for a digest and a salt (RFC 8017, 9.1.1).\<close>

definition emsa_pss :: "deps \<Rightarrow> nat \<Rightarrow> nat \<Rightarrow> bytes \<Rightarrow> bytes \<Rightarrow> bytes" where
  "emsa_pss E bits width digest salt =
     (let hash = sha256 E [replicate 8 0, digest, salt]
      in clear_high bits (map2 (XOR) (pss_db (width - 33) salt) (mgf1 E hash 0 (width - 33))) @ hash @ [0xbc])"

lemma clear_top_eq: "0 < bits \<Longrightarrow> db \<noteq> [] \<Longrightarrow> clear_top bits db = Inr (clear_high bits db)"
  by (cases db) (auto simp: clear_top_def clear_high_def subE_def Let_def)

lemma clear_high_length [simp]: "length (clear_high bits db) = length db"
  by (cases db) (auto simp: clear_high_def)

lemma clear_high_append: "db \<noteq> [] \<Longrightarrow> clear_high bits (db @ xs) = clear_high bits db @ xs"
  by (cases db) (auto simp: clear_high_def)

lemma and_xor_bytes: "(a XOR b) AND k = (a AND k) XOR (b AND (k :: byte))"
  by (rule bit_word_eqI) (auto simp: bit_simps)

lemma clear_high_xor: "clear_high bits (map2 (XOR) a m) = map2 (XOR) (clear_high bits a) (clear_high bits m)"
  by (cases a; cases m) (auto simp: clear_high_def and_xor_bytes)

lemma xor_xor: "length a \<le> length m \<Longrightarrow> map2 (XOR) (map2 (XOR) a m) m = (a :: bytes)"
proof (induction a arbitrary: m)
  case (Cons x a)
  then show ?case by (cases m) (auto simp: xor.assoc)
qed simp

lemma unmask_db_mgf1:
  assumes "hash_widths E"
  shows "unmask_db E hash c db = map2 (XOR) db (mgf1 E hash c (length db))"
proof (induction "length db" arbitrary: c db rule: less_induct)
  case less
  show ?case
  proof (cases "db = []")
    case False
    let ?m = "sha256 E [hash, be_bytes 4 c]" and ?r = "mgf1 E hash (Suc c) (length db - 32)"
    have dc: "div_ceil (length db) 32 = Suc (div_ceil (length db - 32) 32)"
    proof (cases "length db \<le> 32")
      case True
      then have "length db + 31 = 32 + (length db - 1)" "length db - 1 < 32" using False by (cases db; simp)+
      then have "(length db + 31) div 32 = 1" by simp
      then show ?thesis using True by (simp add: div_ceil_def)
    qed (auto simp: div_ceil_def le_div_geq)
    then have m: "mgf1 E hash c (length db) = ?m @ ?r"
      by (simp add: mgf1_def upt_conv_Cons del: upt_Suc)
    have "unmask_db E hash (Suc c) (drop 32 db) = map2 (XOR) (drop 32 db) ?r"
      using less [of "drop 32 db" "Suc c"] False by simp
    moreover have "xor_zip (take 32 db) ?m = map2 (XOR) (take 32 db) ?m"
      using assms by (simp add: xor_zip_def)
    moreover have "map2 (XOR) db (?m @ ?r) = map2 (XOR) (take 32 db) ?m @ map2 (XOR) (drop 32 db) ?r"
    proof -
      have "zip db (?m @ ?r) = zip (take 32 db) ?m @ zip (drop 32 db) ?r"
        using assms zip_append2 [of db ?m ?r] by simp
      then show ?thesis by simp
    qed
    ultimately show ?thesis using False m by (subst unmask_db.simps) simp
  qed (simp add: unmask_db.simps)
qed

lemma mgf1_length: "hash_widths E \<Longrightarrow> n \<le> length (mgf1 E hash c n)"
proof -
  assume w: "hash_widths E"
  have "length (mgf1 E hash c n) = 32 * div_ceil n 32"
    using w by (simp add: mgf1_def length_concat comp_def sum_list_triv)
  moreover have "n \<le> 32 * div_ceil n 32" by (auto simp: div_ceil_def)
  ultimately show ?thesis by simp
qed

lemma pss_db_length [simp]: "length salt < n \<Longrightarrow> length (pss_db n salt) = n"
  by (simp add: pss_db_def)

lemma clear_high_pss_db: "length salt < n \<Longrightarrow> clear_high bits (pss_db n salt) = pss_db n salt"
proof -
  have "(1 :: byte) AND drop_bit (8 - s) 0xff = 1" if "0 < s" "s < 8" for s
  proof -
    from that have "s \<in> {1,2,3,4,5,6,7}" by auto
    then show ?thesis by auto
  qed
  from this [of "(bits - 1) mod 8"] show ?thesis
    by (cases "n - 1 - length salt") (auto simp: clear_high_def pss_db_def)
qed

lemma drop_zeros_eq: "dropWhile (\<lambda>b. b = 0) db = 1 # salt \<longleftrightarrow> length salt < length db \<and> db = pss_db (length db) (salt :: bytes)"
proof
  assume d: "dropWhile (\<lambda>b. b = 0) db = 1 # salt"
  have "takeWhile (\<lambda>b. b = 0) db = replicate (length (takeWhile (\<lambda>b. b = 0) db)) 0"
    by (induction db) auto
  then have e: "db = replicate (length (takeWhile (\<lambda>b. b = 0) db)) 0 @ 1 # salt"
    using takeWhile_dropWhile_id [of "\<lambda>b. b = 0" db] d by metis
  then have "length db = length (takeWhile (\<lambda>b. b = 0) db) + Suc (length salt)"
    by (metis length_append length_replicate length_Cons)
  then show "length salt < length db \<and> db = pss_db (length db) salt"
    using e by (simp add: pss_db_def)
next
  have "dropWhile (\<lambda>b. b = 0) (replicate n 0 @ 1 # salt) = 1 # salt" for n by (induction n) auto
  then show "length salt < length db \<and> db = pss_db (length db) salt \<Longrightarrow> dropWhile (\<lambda>b. b = 0) db = 1 # salt"
    by (metis pss_db_def)
qed


text \<open>The recovered message of a signature, padded to the encoded width.\<close>

definition pss_message :: "deps \<Rightarrow> signers \<Rightarrow> bytes \<Rightarrow> bytes \<Rightarrow> nat \<Rightarrow> bytes" where
  "pss_message E S owner signature width =
     (let recovered = x_big_bytes E (y_modpow S (be_nat signature) 65537 (be_nat owner))
      in replicate (width - length recovered) 0 @ recovered)"

definition pss_width :: "bytes \<Rightarrow> bool \<Rightarrow> nat" where
  "pss_width owner legacy =
     (let bits = bit_length (be_nat owner) in if legacy then bits div 8 else div_ceil bits 8)"

text \<open>The widths and ranges the verifier demands of key and signature.\<close>

definition pss_shape :: "deps \<Rightarrow> signers \<Rightarrow> bytes \<Rightarrow> bytes \<Rightarrow> bool \<Rightarrow> bool" where
  "pss_shape E S owner signature legacy \<longleftrightarrow> length owner \<le> 512 \<and> length signature \<le> 512
     \<and> 34 \<le> pss_width owner legacy \<and> length signature = div_ceil (bit_length (be_nat owner)) 8
     \<and> be_nat signature < be_nat owner
     \<and> length (x_big_bytes E (y_modpow S (be_nat signature) 65537 (be_nat owner))) \<le> pss_width owner legacy"

lemma pss_padding_drop:
  "pss_padding E digest hash db label = Inr () \<longleftrightarrow>
     (\<exists>salt. dropWhile (\<lambda>b. b = 0) db = 1 # salt \<and> hash = sha256 E [replicate 8 0, digest, salt])"
  by (cases "dropWhile (\<lambda>b. b = 0) db") (auto simp: pss_padding_def simp del: dropWhile_eq_Nil_conv)

lemma pss_padding_iff:
  assumes w: "hash_widths E" and n: "0 < length db"
  shows "pss_padding E digest hash (clear_high bits (map2 (XOR) db (mgf1 E hash 0 (length db)))) label = Inr () \<longleftrightarrow>
    (\<exists>salt. length salt < length db \<and> hash = sha256 E [replicate 8 0, digest, salt]
       \<and> clear_high bits db = clear_high bits (map2 (XOR) (pss_db (length db) salt) (mgf1 E hash 0 (length db))))"
  (is "?L \<longleftrightarrow> ?R")
proof -
  let ?M = "mgf1 E hash 0 (length db)"
  let ?D = "clear_high bits db" and ?C = "clear_high bits ?M"
  have len: "length ?D \<le> length ?C" "length db \<le> length ?M" using mgf1_length [OF w] by simp_all
  then have l2: "length (clear_high bits (map2 (XOR) db ?M)) = length db" by simp
  have swap: "map2 (XOR) ?D ?C = pss_db (length db) salt \<longleftrightarrow> ?D = map2 (XOR) (pss_db (length db) salt) ?C"
    if "length salt < length db" for salt
    using xor_xor [of ?D ?C] xor_xor [of "pss_db (length db) salt" ?C] len that by auto
  have "?L \<longleftrightarrow> (\<exists>salt. dropWhile (\<lambda>b. b = 0) (clear_high bits (map2 (XOR) db ?M)) = 1 # salt
      \<and> hash = sha256 E [replicate 8 0, digest, salt])"
    by (rule pss_padding_drop)
  also have "\<dots> \<longleftrightarrow> (\<exists>salt. (length salt < length db \<and> clear_high bits (map2 (XOR) db ?M) = pss_db (length db) salt)
      \<and> hash = sha256 E [replicate 8 0, digest, salt])"
    unfolding drop_zeros_eq l2 ..
  also have "\<dots> \<longleftrightarrow> ?R"
  proof (intro arg_cong [where f = Ex] ext)
    fix salt
    show "((length salt < length db \<and> clear_high bits (map2 (XOR) db ?M) = pss_db (length db) salt)
        \<and> hash = sha256 E [replicate 8 0, digest, salt]) =
      (length salt < length db \<and> hash = sha256 E [replicate 8 0, digest, salt]
        \<and> ?D = clear_high bits (map2 (XOR) (pss_db (length db) salt) ?M))"
      unfolding clear_high_xor using swap [of salt] clear_high_pss_db [of salt "length db" bits] by auto
  qed
  finally show ?thesis .
qed

lemma verify_rsa_pss_digest_parts:
  "verify_rsa_pss_digest E S owner signature digest legacy label = Inr () \<longleftrightarrow>
     pss_shape E S owner signature legacy \<and>
     (let width = pss_width owner legacy; em = pss_message E S owner signature width;
          hash = sub_bytes em (width - 33) (width - 1)
      in em ! (width - 1) = 0xbc \<and>
         (\<exists>db. clear_top (bit_length (be_nat owner)) (unmask_db E hash 0 (sub_bytes em 0 (width - 33))) = Inr db
           \<and> pss_padding E digest hash db label = Inr ()))"
proof -
  have "subE w 1 = Inr (w - 1)" "subE w 33 = Inr (w - 33)" "w - 33 + 32 = w - 1" "w - 1 < w" "w - 33 \<le> w - 1"
    if "34 \<le> w" for w using that by (auto simp: subE_def)
  then show ?thesis
    unfolding verify_rsa_pss_digest_def pss_shape_def pss_width_def pss_message_def Let_def
    by (auto simp: bindE_eq_Inr)
qed

lemma last_bytes:
  assumes "34 \<le> w" "length em = w" "em ! (w - 1) = t"
  shows "em = sub_bytes em 0 (w - 33) @ sub_bytes em (w - 33) (w - 1) @ [t]"
proof -
  have "drop (w - 1) em = [t]" using assms Cons_nth_drop_Suc [of "w - 1" em] by simp
  moreover have "em = take (w - 33) em @ take 32 (drop (w - 33) em) @ drop (w - 1) em"
  proof -
    have "drop 32 (drop (w - 33) em) = drop (w - 1) em" using assms(1) by (simp add: add.commute)
    then show ?thesis using append_take_drop_id [of "w - 33" em] append_take_drop_id [of 32 "drop (w - 33) em"] by simp
  qed
  ultimately show ?thesis using assms by (simp add: sub_bytes_def)
qed

lemma pss_message_iff:
  assumes w: "hash_widths E" and wd: "34 \<le> w" and len: "length em = w" and bits: "0 < b"
    and D_def: "D = sub_bytes em 0 (w - 33)" and H_def: "H = sub_bytes em (w - 33) (w - 1)"
  shows "em ! (w - 1) = 0xbc \<and> (\<exists>db. clear_top b (unmask_db E H 0 D) = Inr db \<and> pss_padding E digest H db label = Inr ())
    \<longleftrightarrow> (\<exists>salt. length salt + 34 \<le> w \<and> clear_high b em = emsa_pss E b w digest salt)"
proof -
  have D: "length D = w - 33" "D \<noteq> []" "length H = 32" using wd len by (auto simp: sub_bytes_def D_def H_def)
  have "em = D @ H @ [em ! (w - 1)]" unfolding D_def H_def by (rule last_bytes [OF wd len refl])
  then have ch: "clear_high b em = clear_high b D @ H @ [em ! (w - 1)]"
    using clear_high_append [OF D(2), of b "H @ [em ! (w - 1)]"] by simp
  have "map2 (XOR) D (mgf1 E H 0 (length D)) \<noteq> []"
    using D(2) mgf1_length [OF w, of "length D" H 0] by (cases D; cases "mgf1 E H 0 (length D)") auto
  then have ct: "clear_top b (unmask_db E H 0 D) = Inr (clear_high b (map2 (XOR) D (mgf1 E H 0 (length D))))"
    unfolding unmask_db_mgf1 [OF w] by (rule clear_top_eq [OF bits])
  have e: "clear_high b em = emsa_pss E b w digest salt \<longleftrightarrow>
      em ! (w - 1) = 0xbc \<and> H = sha256 E [replicate 8 0, digest, salt]
      \<and> clear_high b D = clear_high b (map2 (XOR) (pss_db (length D) salt) (mgf1 E H 0 (length D)))"
    if s: "length salt < length D" for salt
  proof -
    let ?h = "sha256 E [replicate 8 0, digest, salt]"
    have "length (clear_high b (map2 (XOR) (pss_db (length D) salt) (mgf1 E ?h 0 (length D)))) = length D"
      using s mgf1_length [OF w, of "length D" ?h 0] by simp
    then have "clear_high b em = emsa_pss E b w digest salt \<longleftrightarrow>
        clear_high b D = clear_high b (map2 (XOR) (pss_db (length D) salt) (mgf1 E ?h 0 (length D)))
        \<and> H @ [em ! (w - 1)] = ?h @ [0xbc]"
      unfolding ch emsa_pss_def Let_def D(1) [symmetric] by (intro append_eq_append_conv disjI1) simp
    then show ?thesis using D(3) w by auto
  qed
  have n: "0 < length D" and l: "length salt + 34 \<le> w \<longleftrightarrow> length salt < length D" for salt
    using D wd by auto
  show ?thesis
    unfolding ct l using pss_padding_iff [OF w n, of digest H b label] e by auto
qed

lemma verify_rsa_pss_digest_iff_aux:
  assumes w: "hash_widths E"
  shows "verify_rsa_pss_digest E S owner signature digest legacy label = Inr () \<longleftrightarrow>
    pss_shape E S owner signature legacy \<and>
    (let width = pss_width owner legacy; bits = bit_length (be_nat owner) in
     \<exists>salt. length salt + 34 \<le> width
       \<and> clear_high bits (pss_message E S owner signature width) = emsa_pss E bits width digest salt)"
proof (cases "pss_shape E S owner signature legacy")
  case True
  let ?w = "pss_width owner legacy" and ?b = "bit_length (be_nat owner)"
  have wd: "34 \<le> ?w" and len: "length (pss_message E S owner signature ?w) = ?w"
    using True by (auto simp: pss_shape_def pss_message_def Let_def)
  have bits: "0 < ?b" using wd by (cases "?b") (auto simp: pss_width_def div_ceil_def Let_def split: if_splits)
  show ?thesis
    unfolding verify_rsa_pss_digest_parts Let_def
    using True pss_message_iff [OF w wd len bits refl refl, of digest label] by simp
qed (simp add: verify_rsa_pss_digest_parts)


section \<open>No panic, and the fast path\<close>

lemma unmask_db_length [simp]: "length (unmask_db E h c db) = length db"
proof (induction E h c db rule: unmask_db.induct)
  case (1 E hash counter db)
  then show ?case by (subst unmask_db.simps) (auto simp: xor_zip_def)
qed

lemma pss_padding_calm [simp]: "pss_padding E digest hash db label \<noteq> Inl Panic"
  by (auto simp: pss_padding_def split: list.splits)

lemma clear_top_panic: "clear_top bits (unmask_db E h c db) = Inl Panic \<Longrightarrow> bits = 0 \<or> length db = 0"
  using clear_top_eq [of bits "unmask_db E h c db"] unmask_db_length [of E h c db] by fastforce

lemma pss_tail_calm:
  assumes "34 \<le> w" "length em = w" "0 < bits"
  shows "bindE (subE w 1) (\<lambda>i. bindE (nthE em i) (\<lambda>trailer.
         ensure (trailer = 0xbc) m (bindE (subE w 33) (\<lambda>db_len.
          bindE (slice em 0 db_len) (\<lambda>db.
          bindE (slice em db_len (db_len + 32)) (\<lambda>hash.
          bindE (clear_top bits (unmask_db E hash 0 db)) (\<lambda>db.
          pss_padding E digest hash db label))))))) \<noteq> Inl Panic"
proof -
  have "clear_top bits (unmask_db E h 0 (sub_bytes em 0 (w - 33))) \<noteq> Inl Panic" for h
    using clear_top_panic [of bits E h 0 "sub_bytes em 0 (w - 33)"] assms by auto
  then show ?thesis using assms by (auto simp: res_simps)
qed

lemma verify_rsa_pss_digest_calm [simp]: "verify_rsa_pss_digest E S owner signature digest legacy label \<noteq> Inl Panic"
proof -
  have b: "0 < bit_length n" if "34 \<le> (if legacy then bit_length n div 8 else div_ceil (bit_length n) 8)" for n
    using that by (cases "bit_length n") (auto simp: div_ceil_def split: if_splits)
  show ?thesis
    unfolding verify_rsa_pss_digest_def Let_def ensure_eq_Panic
    by (intro notI, elim conjE) (erule notE [OF pss_tail_calm, rotated -1], use b in auto)
qed

lemma verify_rsa_pss_calm [simp]: "verify_rsa_pss E S owner signature payload label \<noteq> Inl Panic"
  by (simp add: verify_rsa_pss_def)

text \<open>
  What aws-lc documents of \<open>RSA_verify_pss_mgf1\<close> with an automatic salt length: it accepts only
  signatures of the standard (RFC 8017, 8.1.2) for the modulus.
\<close>

definition rfc_pss_valid :: "deps \<Rightarrow> signers \<Rightarrow> bytes \<Rightarrow> bytes \<Rightarrow> bytes \<Rightarrow> bool" where
  "rfc_pss_valid E S owner digest signature \<longleftrightarrow>
     (let bits = bit_length (be_nat owner); width = div_ceil (bits - 1) 8 in
      be_nat signature < be_nat owner
      \<and> length (x_big_bytes E (y_modpow S (be_nat signature) 65537 (be_nat owner))) \<le> width
      \<and> (\<exists>salt. length salt + 34 \<le> width \<and> pss_message E S owner signature width = emsa_pss E bits width digest salt))"

definition aws_lc_law :: "deps \<Rightarrow> signers \<Rightarrow> bool" where
  "aws_lc_law E S \<longleftrightarrow> (\<forall>owner digest signature. y_pss S owner digest signature \<longrightarrow> rfc_pss_valid E S owner digest signature)"

lemma bit_length_eq: "2 ^ k \<le> n \<Longrightarrow> n < 2 ^ Suc k \<Longrightarrow> bit_length n = Suc k"
proof (induction k arbitrary: n)
  case 0
  then have "n = 1" by simp
  then show ?case by (simp add: bit_length.simps)
next
  case (Suc k)
  then have "2 ^ k \<le> n div 2" "n div 2 < 2 ^ Suc k" "n \<noteq> 0" by auto
  then show ?case using Suc.IH by (subst bit_length.simps) simp
qed

lemma bit_length_top:
  assumes "owner \<noteq> []" "owner ! 0 AND 0x80 \<noteq> 0"
  shows "bit_length (be_nat owner) = 8 * length owner"
proof -
  obtain x xs where o: "owner = x # xs" using assms(1) by (cases owner) auto
  have "x AND 2 ^ 7 \<noteq> 0" using assms(2) o by simp
  then have "bit x 7" by (simp only: and_exp_eq_0_iff_not_bit) simp
  then have "bit (unat x) 7" by (simp add: bit_simps)
  then have "odd (unat x div 2 ^ 7)" unfolding bit_iff_odd .
  then have "unat x div 2 ^ 7 \<noteq> 0" by (metis even_zero)
  then have x: "2 ^ 7 \<le> unat x" by (simp add: div_eq_0_iff)
  have v: "be_nat owner = unat x * 256 ^ length xs + be_nat xs"
    using be_nat_append [of "[x]" xs] be_nat_snoc [of "[]" x] by (simp add: o)
  have p: "(2::nat) ^ (8 * length xs) = 256 ^ length xs" by (simp add: power_mult)
  have "2 ^ 7 * 256 ^ length xs \<le> unat x * 256 ^ length xs" by (rule mult_le_mono1 [OF x])
  then have "2 ^ (7 + 8 * length xs) \<le> be_nat owner" unfolding v power_add p by linarith
  moreover have "be_nat owner < 2 ^ Suc (7 + 8 * length xs)"
    using be_nat_bound [of owner] p by (simp add: o power_add)
  ultimately have "bit_length (be_nat owner) = Suc (7 + 8 * length xs)" by (rule bit_length_eq)
  then show ?thesis by (simp add: o)
qed

lemma clear_high_idem: "clear_high bits (clear_high bits db) = clear_high bits db"
  by (cases db) (auto simp: clear_high_def and.assoc)

lemma clear_high_emsa:
  assumes "hash_widths E" "length salt + 34 \<le> w"
  shows "clear_high bits (emsa_pss E bits w digest salt) = emsa_pss E bits w digest salt"
proof -
  let ?h = "sha256 E [replicate 8 0, digest, salt]"
  let ?d = "clear_high bits (map2 (XOR) (pss_db (w - 33) salt) (mgf1 E ?h 0 (w - 33)))"
  have "length ?d = w - 33" using assms mgf1_length [OF assms(1), of "w - 33" ?h 0] by simp
  then have "length ?d \<noteq> 0" using assms(2) by linarith
  then have "?d \<noteq> []" unfolding length_0_conv .
  then show ?thesis by (simp add: emsa_pss_def Let_def clear_high_append clear_high_idem)
qed

lemma verify_rsa_pss_digest_standard:
  assumes "hash_widths E" "aws_lc_law E S" "standard_rsa_pss E S owner signature payload"
  shows "verify_rsa_pss_digest E S owner signature (sha256 E [payload]) False label = Inr ()"
proof -
  from assms(3) have o: "256 \<le> length owner" "length owner \<le> 512" "owner ! 0 AND 0x80 \<noteq> 0" "length signature = length owner"
    and y: "y_pss S owner (sha256 E [payload]) signature"
    by (auto simp: standard_rsa_pss_def split: if_splits)
  have b: "bit_length (be_nat owner) = 8 * length owner" by (rule bit_length_top) (use o in auto)
  have "div_ceil (8 * length owner) 8 = length owner" "div_ceil (8 * length owner - 1) 8 = length owner"
    using o(1) by (auto simp: div_ceil_def)
  then have w: "pss_width owner False = length owner" "div_ceil (bit_length (be_nat owner) - 1) 8 = length owner"
      "div_ceil (bit_length (be_nat owner)) 8 = length owner"
    using b o(1) by (simp_all add: pss_width_def del: One_nat_def)
  have "rfc_pss_valid E S owner (sha256 E [payload]) signature"
    using assms(2) y by (simp add: aws_lc_law_def)
  then obtain salt where "pss_shape E S owner signature False" "length salt + 34 \<le> length owner"
    "pss_message E S owner signature (length owner) = emsa_pss E (8 * length owner) (length owner) (sha256 E [payload]) salt"
    using o w b by (auto simp: rfc_pss_valid_def pss_shape_def Let_def)
  then show ?thesis
    using verify_rsa_pss_digest_iff_aux [OF assms(1)] clear_high_emsa [OF assms(1)] w b by (auto simp: Let_def)
qed

text \<open>The salt the verifier discovers in a signature.\<close>

definition pss_salt :: "deps \<Rightarrow> signers \<Rightarrow> bytes \<Rightarrow> bytes \<Rightarrow> bool \<Rightarrow> bytes" where
  "pss_salt E S owner signature legacy =
     (let width = pss_width owner legacy; em = pss_message E S owner signature width;
          hash = sub_bytes em (width - 33) (width - 1)
      in tl (dropWhile (\<lambda>b. b = 0)
        (clear_high (bit_length (be_nat owner)) (unmask_db E hash 0 (sub_bytes em 0 (width - 33))))))"

definition pss_hash :: "deps \<Rightarrow> signers \<Rightarrow> bytes \<Rightarrow> bytes \<Rightarrow> bytes" where
  "pss_hash E S owner signature =
     (let recovered = x_big_bytes E (y_modpow S (be_nat signature) 65537 (be_nat owner))
      in take 32 (drop (length recovered) (replicate 33 0 @ recovered)))"

lemma pss_hash_eq:
  assumes "pss_shape E S owner signature legacy"
  shows "sub_bytes (pss_message E S owner signature (pss_width owner legacy)) (pss_width owner legacy - 33)
     (pss_width owner legacy - 1) = pss_hash E S owner signature"
proof -
  let ?r = "x_big_bytes E (y_modpow S (be_nat signature) 65537 (be_nat owner))" and ?w = "pss_width owner legacy"
  have w: "34 \<le> ?w" "length ?r \<le> ?w" using assms by (simp_all add: pss_shape_def)
  have "drop (?w - 33) (replicate (?w - length ?r) 0 @ ?r) = drop (length ?r) (replicate 33 0 @ ?r)"
  proof (cases "length ?r \<le> 33")
    case True
    then show ?thesis using w by simp
  next
    case False
    then show ?thesis using w by simp
  qed
  moreover have "sub_bytes em (?w - 33) (?w - 1) = take 32 (drop (?w - 33) em)" for em :: bytes
    using w by (simp add: sub_bytes_def)
  ultimately show ?thesis by (simp add: pss_message_def pss_hash_def Let_def)
qed

lemma verify_rsa_pss_digest_hash:
  assumes "verify_rsa_pss_digest E S owner signature digest legacy label = Inr ()"
  shows "sha256 E [replicate 8 0, digest, pss_salt E S owner signature legacy] = pss_hash E S owner signature"
proof -
  let ?w = "pss_width owner legacy"
  from assms [unfolded verify_rsa_pss_digest_parts Let_def] obtain db where
    sh: "pss_shape E S owner signature legacy"
    and db: "clear_top (bit_length (be_nat owner)) (unmask_db E (pss_hash E S owner signature) 0
        (sub_bytes (pss_message E S owner signature ?w) 0 (?w - 33))) = Inr db"
    and p: "pss_padding E digest (pss_hash E S owner signature) db label = Inr ()"
    using pss_hash_eq by metis
  have "db = clear_high (bit_length (be_nat owner)) (unmask_db E (pss_hash E S owner signature) 0
        (sub_bytes (pss_message E S owner signature ?w) 0 (?w - 33)))"
    using db by (auto simp: clear_top_def clear_high_def res_simps Let_def split: if_splits list.splits)
  then have "pss_salt E S owner signature legacy = tl (dropWhile (\<lambda>b. b = 0) db)"
    unfolding pss_salt_def Let_def pss_hash_eq [OF sh] by simp
  then show ?thesis using p by (auto simp: pss_padding_drop)
qed

end
