(* ===== verification/Transaction.thy ===== *)
theory Transaction
  imports TxRoot Rsa
begin

text \<open>
  Transactions, \<open>src/src/transactions.rs\<close> (\<open>decode_transaction\<close>, \<open>verify_transaction\<close> and their
  helpers) with the structs \<open>Transaction\<close> and \<open>Tag\<close> of \<open>src/src/lib.rs\<close>: the normalisation of
  the numbers of a transaction's JSON, its deserialization, and the check of its id, data root and
  signature under the rules of its height.
\<close>

record Tag =
  tag_name :: str
  tag_value :: str

record Transaction =
  tr_format :: nat
  tr_id :: str
  tr_last_tx :: str
  tr_owner :: str
  tr_tags :: "Tag list"
  tr_target :: str
  tr_quantity :: str
  tr_data_size :: str
  tr_data_root :: str
  tr_reward :: str
  tr_signature :: str
  tr_data :: str
  tr_denomination :: nat

record VerifiedTransaction =
  vt_metadata :: ObjectMetadata
  vt_inline_data :: "bytes option"

section \<open>Decoding\<close>

definition canonical_unsigned :: "str \<Rightarrow> String.literal \<Rightarrow> str res" where
  "canonical_unsigned value label =
     (let negative = strip_prefix ''-'' value \<noteq> None;
          digits = (case strip_prefix ''+'' value of Some d \<Rightarrow> d
                    | None \<Rightarrow> (case strip_prefix ''-'' value of Some d \<Rightarrow> d | None \<Rightarrow> value)) in
      ensure (digits \<noteq> [] \<and> list_all is_ascii_digit digits) (STR ''invalid '' + label)
      (let number = dropWhile (\<lambda>c. c = CHR ''0'') digits in
       ensure (\<not> negative \<or> number = []) (STR ''negative '' + label)
       (Inr (if number = [] then ''0'' else number))))"

fun json_integer :: "json \<Rightarrow> String.literal \<Rightarrow> str res" where
  "json_integer (JString value) label = canonical_unsigned value label"
| "json_integer (JNumber value) label = canonical_unsigned value label"
| "json_integer _ label = Inl (Fail (STR ''invalid '' + label + STR '': expected an integer''))"

text \<open>The derived \<open>Deserialize\<close>: a struct from an object, or from an array of its fields in order.\<close>

definition string_field :: "(str \<times> json) list \<Rightarrow> str \<Rightarrow> str option" where
  "string_field fs name = Option.bind (map_of fs name) as_str"

definition default_field :: "(str \<times> json) list \<Rightarrow> str \<Rightarrow> str option" where
  "default_field fs name = (case map_of fs name of None \<Rightarrow> Some [] | Some v \<Rightarrow> as_str v)"

fun tag_of_json :: "json \<Rightarrow> Tag option" where
  "tag_of_json (JObject fs) =
     Option.bind (string_field fs ''name'') (\<lambda>n.
     Option.bind (string_field fs ''value'') (\<lambda>v. Some \<lparr>tag_name = n, tag_value = v\<rparr>))"
| "tag_of_json (JArray [JString n, JString v]) = Some \<lparr>tag_name = n, tag_value = v\<rparr>"
| "tag_of_json _ = None"

fun all_some :: "'a option list \<Rightarrow> 'a list option" where
  "all_some [] = Some []"
| "all_some (x # xs) = (case x of None \<Rightarrow> None | Some a \<Rightarrow> map_option ((#) a) (all_some xs))"

definition number_field :: "nat \<Rightarrow> json \<Rightarrow> nat option" where
  "number_field bound v = (case v of JNumber s \<Rightarrow> parse_unsigned bound s | _ \<Rightarrow> None)"

definition transaction_of_json :: "(str \<times> json) list \<Rightarrow> Transaction option" where
  "transaction_of_json fs =
     Option.bind (Option.bind (map_of fs ''format'') (number_field U8)) (\<lambda>format.
     Option.bind (string_field fs ''id'') (\<lambda>i.
     Option.bind (string_field fs ''last_tx'') (\<lambda>last_tx.
     Option.bind (string_field fs ''owner'') (\<lambda>owner.
     Option.bind (Option.bind (Option.bind (map_of fs ''tags'') as_array) (\<lambda>ts. all_some (map tag_of_json ts))) (\<lambda>tags.
     Option.bind (string_field fs ''target'') (\<lambda>target.
     Option.bind (string_field fs ''quantity'') (\<lambda>quantity.
     Option.bind (default_field fs ''data_size'') (\<lambda>data_size.
     Option.bind (default_field fs ''data_root'') (\<lambda>data_root.
     Option.bind (string_field fs ''reward'') (\<lambda>reward.
     Option.bind (string_field fs ''signature'') (\<lambda>signature.
     Option.bind (default_field fs ''data'') (\<lambda>data.
     Option.bind (case map_of fs ''denomination'' of None \<Rightarrow> Some 0 | Some v \<Rightarrow> number_field U32 v) (\<lambda>denomination.
     Some \<lparr>tr_format = format, tr_id = i, tr_last_tx = last_tx, tr_owner = owner, tr_tags = tags, tr_target = target,
       tr_quantity = quantity, tr_data_size = data_size, tr_data_root = data_root, tr_reward = reward,
       tr_signature = signature, tr_data = data, tr_denomination = denomination\<rparr>)))))))))))))"

definition normalize_amount :: "str \<Rightarrow> String.literal \<Rightarrow> (str \<times> json) list \<Rightarrow> (str \<times> json) list res" where
  "normalize_amount name label fs =
     bindE (contextE (map_of fs name) (STR ''missing transaction '' + label)) (\<lambda>value.
     bindE (json_integer value label) (\<lambda>number.
     Inr (json_insert name (JString number) fs)))"

definition decode_transaction :: "deps \<Rightarrow> json \<Rightarrow> Transaction res" where
  "decode_transaction E value =
     bindE (contextE (as_object value) STR ''transaction is not an object'') (\<lambda>fs.
     bindE (case map_of fs ''format'' of
         Some v \<Rightarrow> bindE (json_integer v STR ''transaction format'') (\<lambda>s.
           contextE (parse_unsigned U8 s) STR ''number too large to fit in target type'')
       | None \<Rightarrow> Inr 1) (\<lambda>format.
     ensure (format = 1 \<or> format = 2) STR ''unsupported transaction format''
     (let fs = json_insert ''format'' (JNumber (show_nat format)) fs in
      bindE (normalize_amount ''quantity'' STR ''quantity'' fs) (\<lambda>fs.
      bindE (normalize_amount ''reward'' STR ''reward'' fs) (\<lambda>fs.
      bindE (case map_of fs ''denomination'' of
          None \<Rightarrow> Inr fs
        | Some v \<Rightarrow> bindE (json_integer v STR ''transaction denomination'') (\<lambda>s.
            bindE (contextE (parse_unsigned U32 s) STR ''number too large to fit in target type'') (\<lambda>denomination.
            ensure (denomination > 0) STR ''explicit transaction denomination must be positive''
            (Inr (json_insert ''denomination'' (JNumber (show_nat denomination)) fs))))) (\<lambda>fs.
      bindE (case map_of fs ''data_size'' of
          None \<Rightarrow> Inr fs
        | Some v \<Rightarrow> bindE (json_integer v STR ''transaction data size'') (\<lambda>number.
            Inr (json_insert ''data_size'' (JString number) fs))) (\<lambda>fs.
      bindE (if format = 1 then
          bindE (contextE (Option.bind (map_of fs ''data'') as_str)
                   STR ''format-1 transaction is missing inline data'') (\<lambda>data.
          bindE (decode_b64 E data STR ''transaction data'') (\<lambda>d.
          Inr (json_insert ''data_size'' (JString (show_nat (length d))) fs)))
        else ensure (map_of fs ''data_size'' \<noteq> None) STR ''missing transaction data size'' (Inr fs)) (\<lambda>fs.
      let fs = (if map_of fs ''tags'' = None then json_insert ''tags'' (JArray []) fs else fs) in
      contextE (transaction_of_json fs) STR ''invalid transaction JSON''))))))))"

section \<open>Verification\<close>

definition optional_text_tag :: "(bytes \<times> bytes) list \<Rightarrow> bytes \<Rightarrow> str option" where
  "optional_text_tag tags expected =
     (case List.find (\<lambda>v. case from_utf8 v of None \<Rightarrow> False | Some s \<Rightarrow> CHR 0x00 \<notin> set s)
             (map snd (filter (\<lambda>(name, _). eq_ignore_ascii_case name expected) tags)) of
        None \<Rightarrow> None | Some v \<Rightarrow> from_utf8 v)"

definition data_commitment :: "deps \<Rightarrow> Transaction \<Rightarrow> bytes \<Rightarrow> bytes \<Rightarrow> (nat \<times> bytes) res" where
  "data_commitment E tx data supplied_root =
     (if tr_format tx = 1 then bindE (inline_data_root E data) (\<lambda>root. Inr (length data, root))
      else
        bindE (canonical_unsigned (tr_data_size tx) STR ''transaction data size'') (\<lambda>s.
        bindE (contextE (parse_unsigned U128 s) STR ''number too large to fit in target type'') (\<lambda>sz.
        ensure ((sz = 0) = (supplied_root = []) \<and> length supplied_root \<le> 32)
          STR ''transaction data size and root disagree''
        (ensure (sz \<noteq> 0 \<or> data = []) STR ''empty transaction has nonempty inline data''
         (Inr (sz, supplied_root))))))"

definition signature_digest ::
  "deps \<Rightarrow> Transaction \<Rightarrow> bytes \<Rightarrow> bytes \<Rightarrow> bytes \<Rightarrow> str \<Rightarrow> str \<Rightarrow> bytes \<Rightarrow> (bytes \<times> bytes) list \<Rightarrow> nat \<Rightarrow> bytes \<Rightarrow> bytes" where
  "signature_digest E tx owner target data quantity reward anchor tags data_size data_root =
     (if tr_format tx = 1 \<and> tr_denomination tx = 0 then
        sha256 E ([owner, target, data, as_bytes quantity, as_bytes reward, anchor]
          @ concat (map (\<lambda>(name, v). [name, v]) tags))
      else
        let tag_hashes = map (\<lambda>(name, v). deep_hash_list E [deep_hash_blob E name, deep_hash_blob E v]) tags in
        sha256 E [deep_hash_list E
          ((if tr_denomination tx > 0 then [deep_hash_blob E (as_bytes (show_nat (tr_denomination tx)))] else [])
           @ (if tr_format tx = 2 then [deep_hash_blob E (as_bytes ''2'')] else [])
           @ (if owner \<noteq> [] then [deep_hash_blob E owner] else [])
           @ [deep_hash_blob E target]
           @ (if tr_format tx = 1 then [deep_hash_blob E data] else [])
           @ [deep_hash_blob E (as_bytes quantity), deep_hash_blob E (as_bytes reward), deep_hash_blob E anchor,
              deep_hash_list E tag_hashes]
           @ (if tr_format tx = 2 then [deep_hash_blob E (as_bytes (show_nat data_size)), deep_hash_blob E data_root]
              else []))])"

text \<open>The key of an ECDSA transaction is recovered from its signature.\<close>

definition recover_owner :: "signers \<Rightarrow> bytes \<Rightarrow> bytes \<Rightarrow> bytes res" where
  "recover_owner S signature digest =
     ensure (length signature = 65) STR ''invalid ECDSA transaction signature length''
     (bindE (nthE signature 64) (\<lambda>r.
      ensure (unat r < 4) STR ''invalid ECDSA transaction recovery ID''
      (bindE (slice signature 0 64) (\<lambda>compact.
       ensure (y_sig_ok S compact) STR ''invalid ECDSA transaction signature''
       (ensure (y_low_s S compact) STR ''noncanonical ECDSA transaction signature''
        (contextE (y_recover S digest compact (unat r)) STR ''ECDSA transaction signature recovery failed''))))))"

definition decode_tag :: "deps \<Rightarrow> Tag \<Rightarrow> (bytes \<times> bytes) res" where
  "decode_tag E tag =
     bindE (decode_b64 E (tag_name tag) STR ''tag name'') (\<lambda>n.
     bindE (decode_b64 E (tag_value tag) STR ''tag value'') (\<lambda>v. Inr (n, v)))"

definition verify_transaction ::
  "deps \<Rightarrow> signers \<Rightarrow> Transaction \<Rightarrow> str \<Rightarrow> nat \<Rightarrow> VerifiedTransaction res" where
  "verify_transaction E S tx expected_id height =
     (let previous_height = height - 1 in
      ensure (tr_format tx = 1 \<or> tr_format tx = 2) STR ''unsupported transaction format''
      (ensure (tr_format tx = 1 \<or> previous_height \<ge> FORK_2_0_HEIGHT) STR ''format-2 transaction before fork 2.0''
      (ensure (tr_denomination tx = 0 \<or> height \<ge> FORK_2_6_HEIGHT) STR ''transaction denomination before fork 2.6''
      (bindE (decode_fixed E 32 (tr_id tx) STR ''transaction ID'') (\<lambda>i.
       ensure (length (tr_owner tx) \<le> 683 \<and> length (tr_signature tx) \<le> 683)
         STR ''transaction key or signature exceeds protocol limit''
       (bindE (decode_fixed E 32 expected_id STR ''expected transaction ID'') (\<lambda>expected.
        ensure (i = expected) STR ''transaction ID mismatch''
        (bindE (decode_b64 E (tr_signature tx) STR ''transaction signature'') (\<lambda>signature.
         ensure (i = sha256 E [signature]) STR ''transaction ID is not the signature hash''
         (bindE (decode_b64 E (tr_owner tx) STR ''transaction owner'') (\<lambda>owner.
          ensure (length owner \<le> 512 \<and> length signature \<le> 512)
            STR ''transaction key or signature exceeds protocol limit''
          (let ecdsa = (owner = []) in
           ensure (ecdsa \<longrightarrow> tr_format tx = 2 \<and> previous_height \<ge> FORK_2_9_HEIGHT)
             STR ''ECDSA transaction before fork 2.9 or in format 1''
           (bindE (decode_b64 E (tr_target tx) STR ''transaction target'') (\<lambda>target.
            bindE (decode_b64 E (tr_last_tx tx) STR ''transaction anchor'') (\<lambda>anchor.
            bindE (canonical_unsigned (tr_quantity tx) STR ''transaction quantity'') (\<lambda>quantity.
            bindE (canonical_unsigned (tr_reward tx) STR ''transaction reward'') (\<lambda>reward.
            bindE (mapE (decode_tag E) (tr_tags tx)) (\<lambda>tags.
            bindE (decode_b64 E (tr_data tx) STR ''transaction data'') (\<lambda>data.
            bindE (decode_b64 E (tr_data_root tx) STR ''transaction data root'') (\<lambda>supplied_root.
            bindE (data_commitment E tx data supplied_root) (\<lambda>(data_size, data_root).
            let digest = signature_digest E tx owner target data quantity reward anchor tags data_size data_root in
            bindE (if ecdsa then recover_owner S signature digest
                   else bindE (verify_rsa_pss_digest E S owner signature digest (previous_height < FORK_2_4_HEIGHT)
                          STR ''transaction'') (\<lambda>_. Inr owner)) (\<lambda>owner.
            Inr \<lparr>vt_metadata = \<lparr>om_id = i, om_kind = 0, om_signature = signature, om_anchor = anchor,
                    om_owner_address = (if \<not> ecdsa \<and> length owner = 32 then owner else sha256 E [owner]),
                    om_owner_public_key = owner, om_target = target, om_data_size = data_size,
                    om_content_type = optional_text_tag tags (as_bytes ''Content-Type''),
                    om_content_encoding = optional_text_tag tags (as_bytes ''Content-Encoding''),
                    om_signature_type = (if ecdsa then 2 else 1), om_format = Some (int (tr_format tx)),
                    om_quantity = Some quantity, om_reward = Some reward,
                    om_denomination = Some (tr_denomination tx), om_data_root = Some data_root, om_tags = tags\<rparr>,
                  vt_inline_data = (if tr_format tx = 1 \<or> data_size = 0 then Some data else None)\<rparr>))))))))))))))))))))))"

end
