(* ===== verification/HeaderJson.thy ===== *)
theory HeaderJson
  imports Transaction HeaderCheck
begin

text \<open>
  Headers from JSON, \<open>decode_header\<close> of \<open>src/src/historical.rs\<close> with the derived deserialization of
  \<open>BlockHeader\<close>, \<open>BlockPoa\<close>, \<open>NonceLimiterInfo\<close> (\<open>src/src/lib.rs\<close>) and \<open>LegacyWallet\<close>: the fields of
  old headers are completed and their numbers kept as decimal text before the struct is read.
\<close>

section \<open>Derived deserialization\<close>

text \<open>
  A struct comes from an object by name, or from an array by position: missing values are \<open>None\<close>,
  surplus elements an error.
\<close>

definition struct_fields :: "str list \<Rightarrow> json \<Rightarrow> (str \<Rightarrow> json option) option" where
  "struct_fields names v = (case v of
     JObject fs \<Rightarrow> Some (map_of fs)
   | JArray xs \<Rightarrow> if length xs \<le> length names then Some (map_of (zip names xs)) else None
   | _ \<Rightarrow> None)"

text \<open>A required field, and one with \<open>#[serde(default)]\<close>.\<close>

definition required :: "(json \<Rightarrow> 'a option) \<Rightarrow> (str \<Rightarrow> json option) \<Rightarrow> str \<Rightarrow> 'a option" where
  "required read fs name = Option.bind (fs name) read"

definition defaulted :: "'a \<Rightarrow> (json \<Rightarrow> 'a option) \<Rightarrow> (str \<Rightarrow> json option) \<Rightarrow> str \<Rightarrow> 'a option" where
  "defaulted d read fs name = (case fs name of None \<Rightarrow> Some d | Some v \<Rightarrow> read v)"

definition text_list :: "json \<Rightarrow> str list option" where
  "text_list v = Option.bind (as_array v) (\<lambda>xs. all_some (map as_str xs))"

definition text_pair :: "json \<Rightarrow> (str \<times> str) option" where
  "text_pair v = Option.bind (text_list v) (\<lambda>xs. case xs of [a, b] \<Rightarrow> Some (a, b) | _ \<Rightarrow> None)"

definition byte_field :: "json \<Rightarrow> byte option" where
  "byte_field v = map_option word_of_nat (number_field U8 v)"

abbreviation text_default :: "(str \<Rightarrow> json option) \<Rightarrow> str \<Rightarrow> str option" where
  "text_default \<equiv> defaulted [] as_str"

definition poa_of_json :: "json \<Rightarrow> BlockPoa option" where
  "poa_of_json v =
     Option.bind (struct_fields [''option'', ''tx_path'', ''data_path'', ''chunk''] v) (\<lambda>fs.
     Option.bind (text_default fs ''option'') (\<lambda>option.
     Option.bind (text_default fs ''tx_path'') (\<lambda>tx_path.
     Option.bind (text_default fs ''data_path'') (\<lambda>data_path.
     Option.bind (text_default fs ''chunk'') (\<lambda>chunk.
     Some \<lparr>poa_option = option, poa_tx_path = tx_path, poa_data_path = data_path, poa_chunk = chunk\<rparr>)))))"

definition default_poa :: BlockPoa where
  "default_poa = \<lparr>poa_option = [], poa_tx_path = [], poa_data_path = [], poa_chunk = []\<rparr>"

definition nonce_limiter_of_json :: "json \<Rightarrow> NonceLimiterInfo option" where
  "nonce_limiter_of_json v =
     Option.bind (struct_fields [''output'', ''global_step_number'', ''seed'', ''next_seed'', ''zone_upper_bound'',
       ''next_zone_upper_bound'', ''prev_output'', ''checkpoints'', ''last_step_checkpoints'', ''vdf_difficulty'',
       ''next_vdf_difficulty''] v) (\<lambda>fs.
     Option.bind (text_default fs ''output'') (\<lambda>output.
     Option.bind (defaulted 0 (number_field U64) fs ''global_step_number'') (\<lambda>step_number.
     Option.bind (text_default fs ''seed'') (\<lambda>seed.
     Option.bind (text_default fs ''next_seed'') (\<lambda>next_seed.
     Option.bind (defaulted 0 (number_field U64) fs ''zone_upper_bound'') (\<lambda>zone.
     Option.bind (defaulted 0 (number_field U64) fs ''next_zone_upper_bound'') (\<lambda>next_zone.
     Option.bind (text_default fs ''prev_output'') (\<lambda>prev_output.
     Option.bind (defaulted [] text_list fs ''checkpoints'') (\<lambda>checkpoints.
     Option.bind (defaulted [] text_list fs ''last_step_checkpoints'') (\<lambda>last_step.
     Option.bind (text_default fs ''vdf_difficulty'') (\<lambda>vdf.
     Option.bind (text_default fs ''next_vdf_difficulty'') (\<lambda>next_vdf.
     Some \<lparr>nl_output = output, nl_global_step_number = step_number, nl_seed = seed, nl_next_seed = next_seed,
       nl_zone_upper_bound = zone, nl_next_zone_upper_bound = next_zone, nl_prev_output = prev_output,
       nl_checkpoints = checkpoints, nl_last_step_checkpoints = last_step, nl_vdf_difficulty = vdf,
       nl_next_vdf_difficulty = next_vdf\<rparr>))))))))))))"

definition default_nonce_limiter :: NonceLimiterInfo where
  "default_nonce_limiter = \<lparr>nl_output = [], nl_global_step_number = 0, nl_seed = [], nl_next_seed = [],
     nl_zone_upper_bound = 0, nl_next_zone_upper_bound = 0, nl_prev_output = [], nl_checkpoints = [],
     nl_last_step_checkpoints = [], nl_vdf_difficulty = [], nl_next_vdf_difficulty = []\<rparr>"

definition header_of_fields :: "(str \<Rightarrow> json option) \<Rightarrow> BlockHeader option" where
  "header_of_fields fs =
     Option.bind (required as_str fs ''indep_hash'') (\<lambda>indep_hash.
     Option.bind (required (number_field U64) fs ''height'') (\<lambda>height.
     Option.bind (required as_str fs ''previous_block'') (\<lambda>previous_block.
     Option.bind (required (number_field U64) fs ''timestamp'') (\<lambda>timestamp.
     Option.bind (required as_str fs ''nonce'') (\<lambda>nonce.
     Option.bind (required (number_field U64) fs ''last_retarget'') (\<lambda>last_retarget.
     Option.bind (required as_str fs ''diff'') (\<lambda>diff.
     Option.bind (required as_str fs ''cumulative_diff'') (\<lambda>cumulative_diff.
     Option.bind (required as_str fs ''reward_pool'') (\<lambda>reward_pool.
     Option.bind (required as_str fs ''wallet_list'') (\<lambda>wallet_list.
     Option.bind (defaulted [] text_list fs ''hash_list'') (\<lambda>hash_list.
     Option.bind (required as_str fs ''hash_list_merkle'') (\<lambda>hash_list_merkle.
     Option.bind (required as_str fs ''hash'') (\<lambda>hash.
     Option.bind (required as_str fs ''block_size'') (\<lambda>block_size.
     Option.bind (required as_str fs ''weave_size'') (\<lambda>weave_size.
     Option.bind (required as_str fs ''tx_root'') (\<lambda>tx_root.
     Option.bind (required as_str fs ''reward_addr'') (\<lambda>reward_addr.
     Option.bind (required as_array fs ''tags'') (\<lambda>tags.
     Option.bind (required text_list fs ''txs'') (\<lambda>txs.
     Option.bind (required as_str fs ''packing_2_5_threshold'') (\<lambda>packing_threshold.
     Option.bind (required as_str fs ''strict_data_split_threshold'') (\<lambda>split_threshold.
     Option.bind (required text_pair fs ''usd_to_ar_rate'') (\<lambda>usd_to_ar_rate.
     Option.bind (required text_pair fs ''scheduled_usd_to_ar_rate'') (\<lambda>scheduled_rate.
     Option.bind (required poa_of_json fs ''poa'') (\<lambda>poa.
     Option.bind (text_default fs ''signature'') (\<lambda>signature.
     Option.bind (text_default fs ''reward'') (\<lambda>reward.
     Option.bind (text_default fs ''recall_byte'') (\<lambda>recall_byte.
     Option.bind (text_default fs ''recall_byte2'') (\<lambda>recall_byte2.
     Option.bind (text_default fs ''hash_preimage'') (\<lambda>hash_preimage.
     Option.bind (text_default fs ''reward_key'') (\<lambda>reward_key.
     Option.bind (defaulted 0 (number_field U64) fs ''partition_number'') (\<lambda>partition_number.
     Option.bind (defaulted default_nonce_limiter nonce_limiter_of_json fs ''nonce_limiter_info'') (\<lambda>nonce_limiter.
     Option.bind (text_default fs ''previous_solution_hash'') (\<lambda>previous_solution_hash.
     Option.bind (text_default fs ''price_per_gib_minute'') (\<lambda>price.
     Option.bind (text_default fs ''scheduled_price_per_gib_minute'') (\<lambda>scheduled_price.
     Option.bind (text_default fs ''reward_history_hash'') (\<lambda>reward_history_hash.
     Option.bind (text_default fs ''block_time_history_hash'') (\<lambda>block_time_history_hash.
     Option.bind (text_default fs ''debt_supply'') (\<lambda>debt_supply.
     Option.bind (text_default fs ''kryder_plus_rate_multiplier'') (\<lambda>kryder.
     Option.bind (text_default fs ''kryder_plus_rate_multiplier_latch'') (\<lambda>kryder_latch.
     Option.bind (text_default fs ''denomination'') (\<lambda>denomination.
     Option.bind (defaulted 0 (number_field U64) fs ''redenomination_height'') (\<lambda>redenomination_height.
     Option.bind (defaulted JNull Some fs ''double_signing_proof'') (\<lambda>double_signing_proof.
     Option.bind (text_default fs ''previous_cumulative_diff'') (\<lambda>previous_cumulative_diff.
     Option.bind (text_default fs ''merkle_rebase_support_threshold'') (\<lambda>rebase_threshold.
     Option.bind (defaulted default_poa poa_of_json fs ''poa2'') (\<lambda>poa2.
     Option.bind (text_default fs ''chunk_hash'') (\<lambda>chunk_hash.
     Option.bind (text_default fs ''chunk2_hash'') (\<lambda>chunk2_hash.
     Option.bind (defaulted 0 byte_field fs ''packing_difficulty'') (\<lambda>packing_difficulty.
     Option.bind (text_default fs ''unpacked_chunk_hash'') (\<lambda>unpacked_chunk_hash.
     Option.bind (text_default fs ''unpacked_chunk2_hash'') (\<lambda>unpacked_chunk2_hash.
     Option.bind (defaulted 0 byte_field fs ''replica_format'') (\<lambda>replica_format.
     Some \<lparr>bh_indep_hash = indep_hash, bh_height = height, bh_previous_block = previous_block,
       bh_timestamp = timestamp, bh_nonce = nonce, bh_last_retarget = last_retarget, bh_diff = diff,
       bh_cumulative_diff = cumulative_diff, bh_reward_pool = reward_pool, bh_wallet_list = wallet_list,
       bh_legacy_wallets = None, bh_hash_list = hash_list, bh_hash_list_merkle = hash_list_merkle, bh_hash = hash,
       bh_block_size = block_size, bh_weave_size = weave_size, bh_tx_root = tx_root, bh_reward_addr = reward_addr,
       bh_tags = tags, bh_txs = txs, bh_packing_2_5_threshold = packing_threshold,
       bh_strict_data_split_threshold = split_threshold, bh_usd_to_ar_rate = usd_to_ar_rate,
       bh_scheduled_usd_to_ar_rate = scheduled_rate, bh_poa = poa, bh_signature = signature, bh_reward = reward,
       bh_recall_byte = recall_byte, bh_recall_byte2 = recall_byte2, bh_hash_preimage = hash_preimage,
       bh_reward_key = reward_key, bh_partition_number = partition_number, bh_nonce_limiter_info = nonce_limiter,
       bh_previous_solution_hash = previous_solution_hash, bh_price_per_gib_minute = price,
       bh_scheduled_price_per_gib_minute = scheduled_price, bh_reward_history_hash = reward_history_hash,
       bh_block_time_history_hash = block_time_history_hash, bh_debt_supply = debt_supply,
       bh_kryder_plus_rate_multiplier = kryder, bh_kryder_plus_rate_multiplier_latch = kryder_latch,
       bh_denomination = denomination, bh_redenomination_height = redenomination_height,
       bh_double_signing_proof = double_signing_proof, bh_previous_cumulative_diff = previous_cumulative_diff,
       bh_merkle_rebase_support_threshold = rebase_threshold, bh_poa2 = poa2, bh_chunk_hash = chunk_hash,
       bh_chunk2_hash = chunk2_hash, bh_packing_difficulty = packing_difficulty,
       bh_unpacked_chunk_hash = unpacked_chunk_hash, bh_unpacked_chunk2_hash = unpacked_chunk2_hash,
       bh_replica_format = replica_format\<rparr>
     ))))))))))))))))))))))))))))))))))))))))))))))))))))"

section \<open>Wallets\<close>

definition normalize_decimal :: "json \<Rightarrow> String.literal \<Rightarrow> json res" where
  "normalize_decimal value label =
     (let value = (case value of JNumber text \<Rightarrow> JString text | _ \<Rightarrow> value) in
      bindE (contextE (as_str value) (STR ''invalid '' + label + STR '': expected integer'')) (\<lambda>text.
      ensure (text \<noteq> [] \<and> list_all is_ascii_digit text)
        (STR ''invalid '' + label + STR '': expected nonnegative integer'') (Inr value)))"

definition wallet_balance :: "deps \<Rightarrow> json \<Rightarrow> str option" where
  "wallet_balance E v = (case bindE (normalize_decimal v STR ''wallet balance'') (\<lambda>v. case v of
       JString text \<Rightarrow> decimal_number E text STR ''wallet balance'' | _ \<Rightarrow> Inl Panic) of
     Inr (JNumber n) \<Rightarrow> Some n | _ \<Rightarrow> None)"

text \<open>A field and its alias: both together are a duplicate.\<close>

definition aliased :: "(str \<times> json) list \<Rightarrow> str \<Rightarrow> str \<Rightarrow> json option" where
  "aliased fs name alias = (case (map_of fs name, map_of fs alias) of
     (Some v, None) \<Rightarrow> Some v | (None, Some v) \<Rightarrow> Some v | _ \<Rightarrow> None)"

definition legacy_wallet :: "deps \<Rightarrow> json option \<Rightarrow> json option \<Rightarrow> json option \<Rightarrow> LegacyWallet option" where
  "legacy_wallet E address balance last_tx =
     Option.bind (Option.bind address as_str) (\<lambda>address.
     Option.bind (Option.bind balance (wallet_balance E)) (\<lambda>balance.
     Option.bind (Option.bind last_tx as_str) (\<lambda>last_tx.
     Some \<lparr>lw_address = address, lw_balance = balance, lw_last_tx = last_tx\<rparr>)))"

fun wallet_of_json :: "deps \<Rightarrow> json \<Rightarrow> LegacyWallet option" where
  "wallet_of_json E (JObject fs) =
     legacy_wallet E (aliased fs ''wallet'' ''address'') (aliased fs ''quantity'' ''balance'') (map_of fs ''last_tx'')"
| "wallet_of_json E (JArray [a, b, l]) = legacy_wallet E (Some a) (Some b) (Some l)"
| "wallet_of_json E _ = None"

definition decode_wallets :: "deps \<Rightarrow> json \<Rightarrow> LegacyWallet list res" where
  "decode_wallets E v = contextE (Option.bind (as_array v) (\<lambda>ws. all_some (map (wallet_of_json E) ws)))
     STR ''invalid historical full wallet list''"

section \<open>The header of a peer\<close>

text \<open>\<open>fields.entry(name).or_insert(value)\<close>.\<close>

definition or_insert :: "str \<Rightarrow> json \<Rightarrow> (str \<times> json) list \<Rightarrow> (str \<times> json) list" where
  "or_insert name v fs = (if map_of fs name = None then json_insert name v fs else fs)"

definition complete_fields :: "nat \<Rightarrow> (str \<times> json) list \<Rightarrow> (str \<times> json) list" where
  "complete_fields height fs =
     (let fs = (if height < FORK_1_6_HEIGHT
                then json_insert ''hash_list_merkle'' (JString []) (json_insert ''cumulative_diff'' (JString ''0'') fs)
                else fs);
          fs = (if height < FORK_2_0_HEIGHT
                then or_insert ''poa'' (JObject [(''option'', JString ''1''), (''tx_path'', JString []),
                       (''data_path'', JString []), (''chunk'', JString [])]) (or_insert ''tx_root'' (JString []) fs)
                else fs);
          fs = fold (\<lambda>name. or_insert name (JString [])) [''packing_2_5_threshold'', ''strict_data_split_threshold''] fs in
      fold (\<lambda>name. or_insert name (JArray [JString [], JString []])) [''usd_to_ar_rate'', ''scheduled_usd_to_ar_rate''] fs)"

definition normalize_field :: "(str \<times> json) list \<Rightarrow> str \<times> String.literal \<Rightarrow> (str \<times> json) list res" where
  "normalize_field fs = (\<lambda>(name, label).
     bindE (contextE (map_of fs name) (STR ''missing block '' + label)) (\<lambda>v.
     bindE (normalize_decimal v label) (\<lambda>v. Inr (json_insert name v fs))))"

definition normalize_poa :: "(str \<times> json) list \<Rightarrow> (str \<times> json) list res" where
  "normalize_poa fs =
     bindE (contextE (Option.bind (map_of fs ''poa'') as_object) STR ''missing block proof of access'') (\<lambda>poa.
     bindE (contextE (map_of poa ''option'') STR ''missing proof option'') (\<lambda>v.
     bindE (normalize_decimal v STR ''proof option'') (\<lambda>v.
     let poa = json_insert ''option'' v poa in
     bindE (foldE (\<lambda>_ (name, label).
         ensure (Option.bind (map_of poa name) as_str \<noteq> None) (STR ''missing or invalid proof '' + label) (Inr ())) ()
       [(''tx_path'', STR ''tx_path''), (''data_path'', STR ''data_path''), (''chunk'', STR ''chunk'')]) (\<lambda>_.
     Inr (json_insert ''poa'' (JObject poa) fs)))))"

definition take_wallets ::
  "deps \<Rightarrow> nat \<Rightarrow> (str \<times> json) list \<Rightarrow> (LegacyWallet list option \<times> (str \<times> json) list) res" where
  "take_wallets E height fs =
     bindE (contextE (map_of fs ''wallet_list'') STR ''missing block wallet list'') (\<lambda>wallets.
     if as_array wallets \<noteq> None then
       ensure (height < FORK_2_0_HEIGHT) STR ''block requires a wallet-list root, not a full list''
       (bindE (decode_wallets E wallets) (\<lambda>ws. Inr (Some ws, json_insert ''wallet_list'' (JString []) fs)))
     else ensure (as_str wallets \<noteq> None) STR ''invalid block wallet list'' (Inr (None, fs)))"

fun header_txid :: "json \<Rightarrow> json res" where
  "header_txid (JObject fs) =
     bindE (contextE (map_of fs ''id'') STR ''missing block transaction ID'') (\<lambda>v.
     ensure (as_str v \<noteq> None) STR ''invalid block transaction ID'' (Inr v))"
| "header_txid v = ensure (as_str v \<noteq> None) STR ''invalid block transaction ID'' (Inr v)"

definition decode_header :: "deps \<Rightarrow> json \<Rightarrow> BlockHeader res" where
  "decode_header E value =
     bindE (contextE (as_object value) STR ''block header must be a JSON object'') (\<lambda>fs.
     bindE (contextE (Option.bind (map_of fs ''height'') (number_field U64)) STR ''invalid block height'') (\<lambda>height.
     if height \<ge> FORK_2_5_HEIGHT then contextE (header_of_fields (map_of fs)) STR ''invalid block header''
     else
       bindE (foldE normalize_field (complete_fields height fs)
         [(''diff'', STR ''diff''), (''cumulative_diff'', STR ''cumulative_diff''), (''reward_pool'', STR ''reward_pool''),
          (''block_size'', STR ''block_size''), (''weave_size'', STR ''weave_size'')]) (\<lambda>fs.
       bindE (normalize_poa fs) (\<lambda>fs.
       bindE (take_wallets E height fs) (\<lambda>(legacy_wallets, fs).
       bindE (contextE (Option.bind (map_of fs ''txs'') as_array) STR ''missing block transaction list'') (\<lambda>transactions.
       bindE (mapE header_txid transactions) (\<lambda>transactions.
       bindE (contextE (header_of_fields (map_of (json_insert ''txs'' (JArray transactions) fs)))
                STR ''invalid historical block header'') (\<lambda>block.
       Inr (block\<lparr>bh_legacy_wallets := legacy_wallets\<rparr>))))))))) "

end
