(* ===== verification/IndexFilter.thy ===== *)
theory IndexFilter
  imports Json Samples
begin

text \<open>
  The index filter of \<open>src/src/index_filter.rs\<close>: the parser of the configured JSON, every guard
  and depth check included, and the evaluation of a rule on an item.  The parser's range is the
  set of well-formed rules.
\<close>

section \<open>Rules\<close>

datatype TagValue = AnyValue | Exact bytes | Prefix bytes

record TagMatch =
  tm_name :: bytes
  tm_value :: TagValue

datatype Rule =
    Always
  | Never
  | Not Rule
  | And "Rule list"
  | Or "Rule list"
  | Tags "TagMatch list"
  | Owner bytes
  | BlockHeight nat nat

record ItemTag =
  it_name :: bytes
  it_value :: bytes

definition MAX_DEPTH :: nat where "MAX_DEPTH = 16"

section \<open>Parsing\<close>

definition tag_text :: "(str \<times> json) list \<Rightarrow> str \<Rightarrow> bytes option res" where
  "tag_text tag name = (case map_of tag name of
     None \<Rightarrow> Inr None
   | Some v \<Rightarrow> bindE (contextE (as_str v) (STR ''tag '' + String.implode name + STR '' must be a string''))
       (\<lambda>text. Inr (Some (as_bytes text))))"

definition parse_tag :: "json \<Rightarrow> TagMatch res" where
  "parse_tag value =
     bindE (contextE (as_object value) STR ''tag filter must be an object'') (\<lambda>tag.
     ensure (\<forall>key \<in> set (map fst tag). key = ''name'' \<or> key = ''value'' \<or> key = ''valueStartsWith'')
       STR ''tag filter takes name, value, or valueStartsWith''
     (bindE (tag_text tag ''name'') (\<lambda>n.
      bindE (contextE n STR ''tag filter needs a name'') (\<lambda>name.
      bindE (tag_text tag ''value'') (\<lambda>v.
      bindE (tag_text tag ''valueStartsWith'') (\<lambda>p.
      case (v, p) of
        (None, None) \<Rightarrow> Inr \<lparr>tm_name = name, tm_value = AnyValue\<rparr>
      | (Some v, None) \<Rightarrow> Inr \<lparr>tm_name = name, tm_value = Exact v\<rparr>
      | (None, Some p) \<Rightarrow> Inr \<lparr>tm_name = name, tm_value = Prefix p\<rparr>
      | (Some _, Some _) \<Rightarrow> Inl (Fail STR ''tag filter takes value or valueStartsWith, not both'')))))))"

text \<open>\<open>Value::as_u64\<close> of a number kept as text.\<close>

definition as_u64 :: "json \<Rightarrow> nat option" where
  "as_u64 v = (case v of JNumber s \<Rightarrow> parse_unsigned U64 s | _ \<Rightarrow> None)"

definition height_bound :: "(str \<times> json) list \<Rightarrow> str \<Rightarrow> nat \<Rightarrow> nat res" where
  "height_bound limits name default_bound = (case map_of limits name of
     None \<Rightarrow> Inr default_bound
   | Some v \<Rightarrow> contextE (as_u64 v) (STR ''blockHeight.'' + String.implode name + STR '' must be a non-negative integer''))"

definition parse_owner :: "deps \<Rightarrow> json \<Rightarrow> Rule res" where
  "parse_owner E inner =
     bindE (contextE (as_object inner) STR ''attributes must be an object'') (\<lambda>attributes.
     ensure (length attributes = 1 \<and> ''owner_address'' \<in> set (map fst attributes))
       STR ''only the owner_address attribute is supported''
     (bindE (contextE (Option.bind (map_of attributes ''owner_address'') as_str) STR ''owner_address must be a string'') (\<lambda>address.
      bindE (contextE (x_b64_decode E address) STR ''owner_address must be base64url'') (\<lambda>bs.
      ensure (length bs = 32) STR ''owner_address must be 32 bytes'' (Inr (Owner bs))))))"

definition parse_height :: "json \<Rightarrow> Rule res" where
  "parse_height inner =
     bindE (contextE (as_object inner) STR ''blockHeight must be an object'') (\<lambda>limits.
     ensure (limits \<noteq> [] \<and> (\<forall>key \<in> set (map fst limits). key = ''min'' \<or> key = ''max''))
       STR ''blockHeight takes min and/or max''
     (bindE (height_bound limits ''min'' 0) (\<lambda>lo.
      bindE (height_bound limits ''max'' (U64 - 1)) (\<lambda>hi.
      ensure (lo \<le> hi) STR ''blockHeight.min exceeds max'' (Inr (BlockHeight lo hi))))))"

definition parse_tags :: "json \<Rightarrow> Rule res" where
  "parse_tags inner =
     bindE (contextE (as_array inner) STR ''tags must be an array'') (\<lambda>tags.
     ensure (tags \<noteq> []) STR ''tags must not be empty''
     (bindE (mapE parse_tag tags) (\<lambda>ts. Inr (Tags ts))))"

fun parse_rule :: "deps \<Rightarrow> json \<Rightarrow> nat \<Rightarrow> Rule res" where
  "parse_rule E value depth =
     ensure (depth \<le> MAX_DEPTH) STR ''filter nesting exceeds 16''
     (case value of
        JObject [(key, inner)] \<Rightarrow>
          if key = ''always'' then ensure (inner = JBool True) STR ''always must be true'' (Inr Always)
          else if key = ''never'' then ensure (inner = JBool True) STR ''never must be true'' (Inr Never)
          else if key = ''not'' then bindE (parse_rule E inner (depth + 1)) (\<lambda>r. Inr (Not r))
          else if key = ''and'' then
            (case inner of
               JArray items \<Rightarrow> ensure (items \<noteq> []) STR ''and must not be empty''
                 (bindE (mapE (\<lambda>item. parse_rule E item (depth + 1)) items) (\<lambda>rs. Inr (And rs)))
             | _ \<Rightarrow> Inl (Fail STR ''and must be an array''))
          else if key = ''or'' then
            (case inner of
               JArray items \<Rightarrow> ensure (items \<noteq> []) STR ''or must not be empty''
                 (bindE (mapE (\<lambda>item. parse_rule E item (depth + 1)) items) (\<lambda>rs. Inr (Or rs)))
             | _ \<Rightarrow> Inl (Fail STR ''or must be an array''))
          else if key = ''tags'' then parse_tags inner
          else if key = ''attributes'' then parse_owner E inner
          else if key = ''blockHeight'' then parse_height inner
          else Inl (Fail (STR ''unsupported filter key '' + String.implode key))
      | JObject _ \<Rightarrow> Inl (Fail STR ''filter object must have exactly one key'')
      | _ \<Rightarrow> Inl (Fail STR ''filter must be a JSON object''))"

declare parse_rule.simps [simp del]

text \<open>The filter keeps its rule and its source; the reader of JSON text is serde's.\<close>

record IndexFilter =
  if_rule :: Rule
  if_source :: json

definition filter_parse :: "deps \<Rightarrow> (str \<Rightarrow> json option) \<Rightarrow> str \<Rightarrow> IndexFilter res" where
  "filter_parse E json_text text =
     bindE (contextE (json_text text) STR ''filter is not JSON'') (\<lambda>source.
     bindE (parse_rule E source 0) (\<lambda>rule. Inr \<lparr>if_rule = rule, if_source = source\<rparr>))"

definition filter_default :: IndexFilter where
  "filter_default = \<lparr>if_rule = Always, if_source = JObject [(''always'', JBool True)]\<rparr>"

definition is_never :: "IndexFilter \<Rightarrow> bool" where
  "is_never f = (case if_rule f of Never \<Rightarrow> True | _ \<Rightarrow> False)"

section \<open>Evaluation\<close>

fun value_matches :: "TagValue \<Rightarrow> bytes \<Rightarrow> bool" where
  "value_matches AnyValue v = True"
| "value_matches (Exact expected) v = (v = expected)"
| "value_matches (Prefix prefix) v = (take (length prefix) v = prefix)"

fun rule_matches :: "Rule \<Rightarrow> bytes \<Rightarrow> ItemTag list \<Rightarrow> nat \<Rightarrow> bool" where
  "rule_matches Always owner_address tags height = True"
| "rule_matches Never owner_address tags height = False"
| "rule_matches (Not rule) owner_address tags height = (\<not> rule_matches rule owner_address tags height)"
| "rule_matches (And rules) owner_address tags height = list_all (\<lambda>rule. rule_matches rule owner_address tags height) rules"
| "rule_matches (Or rules) owner_address tags height = list_ex (\<lambda>rule. rule_matches rule owner_address tags height) rules"
| "rule_matches (Tags wanted) owner_address tags height =
     list_all (\<lambda>w. list_ex (\<lambda>tag. it_name tag = tm_name w \<and> value_matches (tm_value w) (it_value tag)) tags) wanted"
| "rule_matches (Owner address) owner_address tags height = (owner_address = address)"
| "rule_matches (BlockHeight lo hi) owner_address tags height = (lo \<le> height \<and> height \<le> hi)"

definition filter_matches :: "IndexFilter \<Rightarrow> bytes \<Rightarrow> ItemTag list \<Rightarrow> nat \<Rightarrow> bool" where
  "filter_matches f owner_address tags height = rule_matches (if_rule f) owner_address tags height"

section \<open>The rules a filter can hold\<close>

fun rule_ok :: "nat \<Rightarrow> Rule \<Rightarrow> bool" where
  "rule_ok depth (Not r) \<longleftrightarrow> depth < 16 \<and> rule_ok (Suc depth) r"
| "rule_ok depth (And rs) \<longleftrightarrow> depth < 16 \<and> rs \<noteq> [] \<and> list_all (rule_ok (Suc depth)) rs"
| "rule_ok depth (Or rs) \<longleftrightarrow> depth < 16 \<and> rs \<noteq> [] \<and> list_all (rule_ok (Suc depth)) rs"
| "rule_ok depth (Tags ts) \<longleftrightarrow> depth \<le> 16 \<and> ts \<noteq> []"
| "rule_ok depth (Owner a) \<longleftrightarrow> depth \<le> 16 \<and> length a = 32"
| "rule_ok depth (BlockHeight lo hi) \<longleftrightarrow> depth \<le> 16 \<and> lo \<le> hi \<and> hi < U64"
| "rule_ok depth _ \<longleftrightarrow> depth \<le> 16"

definition tag_json :: "TagMatch \<Rightarrow> json" where
  "tag_json t = JObject ((''name'', JString (map char_of_byte (tm_name t))) #
     (case tm_value t of AnyValue \<Rightarrow> [] | Exact v \<Rightarrow> [(''value'', JString (map char_of_byte v))]
      | Prefix p \<Rightarrow> [(''valueStartsWith'', JString (map char_of_byte p))]))"

fun rule_json :: "deps \<Rightarrow> Rule \<Rightarrow> json" where
  "rule_json E Always = JObject [(''always'', JBool True)]"
| "rule_json E Never = JObject [(''never'', JBool True)]"
| "rule_json E (Not r) = JObject [(''not'', rule_json E r)]"
| "rule_json E (And rs) = JObject [(''and'', JArray (map (rule_json E) rs))]"
| "rule_json E (Or rs) = JObject [(''or'', JArray (map (rule_json E) rs))]"
| "rule_json E (Tags ts) = JObject [(''tags'', JArray (map tag_json ts))]"
| "rule_json E (Owner a) = JObject [(''attributes'', JObject [(''owner_address'', JString (x_b64_encode E a))])]"
| "rule_json E (BlockHeight lo hi) =
     JObject [(''blockHeight'', JObject [(''min'', JNumber (show_nat lo)), (''max'', JNumber (show_nat hi))])]"


section \<open>The parser yields well-formed rules, and each of them\<close>

lemma parse_tag_calm [simp]: "parse_tag v \<noteq> Inl Panic"
  by (auto simp: parse_tag_def tag_text_def res_simps split: option.splits)

lemma mapE_all:
  assumes "mapE f xs = Inr ys" "\<And>x y. x \<in> set xs \<Longrightarrow> f x = Inr y \<Longrightarrow> P y"
  shows "list_all P ys \<and> (xs \<noteq> [] \<longrightarrow> ys \<noteq> [])"
proof -
  have r: "list_all2 (\<lambda>x y. f x = Inr y) xs ys" using assms(1) by (simp add: mapE_eq_Inr)
  then have "list_all P ys" unfolding list_all_length list_all2_conv_all_nth using assms(2) by (metis nth_mem)
  then show ?thesis using list_all2_lengthD [OF r] by auto
qed

lemma height_bound_less: "height_bound limits name d = Inr n \<Longrightarrow> d < U64 \<Longrightarrow> n < U64"
  by (auto simp: height_bound_def as_u64_def res_simps parse_unsigned_def Let_def split: option.splits json.splits if_splits)

lemma parse_leaf_ok:
  "parse_tags inner = Inr r \<Longrightarrow> d \<le> 16 \<Longrightarrow> rule_ok d r"
  "parse_owner E inner = Inr r \<Longrightarrow> d \<le> 16 \<Longrightarrow> rule_ok d r"
  "parse_height inner = Inr r \<Longrightarrow> d \<le> 16 \<Longrightarrow> rule_ok d r"
proof -
  have z: "0 < U64" "U64 - 1 < U64" by (simp_all add: U64_def)
  show "parse_tags inner = Inr r \<Longrightarrow> d \<le> 16 \<Longrightarrow> rule_ok d r"
    using mapE_length [of parse_tag _ "[]"] by (auto simp: parse_tags_def res_simps split: if_splits)
  show "parse_owner E inner = Inr r \<Longrightarrow> d \<le> 16 \<Longrightarrow> rule_ok d r"
    by (auto simp: parse_owner_def res_simps split: if_splits)
  show "parse_height inner = Inr r \<Longrightarrow> d \<le> 16 \<Longrightarrow> rule_ok d r"
    using z by (auto simp: parse_height_def res_simps split: if_splits dest: height_bound_less)
qed

lemma parse_rule_one:
  "parse_rule E (JObject [(key, inner)]) d = Inr r \<longleftrightarrow> d \<le> MAX_DEPTH \<and>
     ((key = ''always'' \<and> inner = JBool True \<and> r = Always)
      \<or> (key = ''never'' \<and> inner = JBool True \<and> r = Never)
      \<or> (key = ''not'' \<and> (\<exists>q. parse_rule E inner (Suc d) = Inr q \<and> r = Not q))
      \<or> (key = ''and'' \<and> (\<exists>items qs. inner = JArray items \<and> items \<noteq> [] \<and> mapE (\<lambda>i. parse_rule E i (Suc d)) items = Inr qs \<and> r = And qs))
      \<or> (key = ''or'' \<and> (\<exists>items qs. inner = JArray items \<and> items \<noteq> [] \<and> mapE (\<lambda>i. parse_rule E i (Suc d)) items = Inr qs \<and> r = Or qs))
      \<or> (key = ''tags'' \<and> parse_tags inner = Inr r)
      \<or> (key = ''attributes'' \<and> parse_owner E inner = Inr r)
      \<or> (key = ''blockHeight'' \<and> parse_height inner = Inr r))"
proof -
  consider "key = ''always''" | "key = ''never''" | "key = ''not''" | "key = ''and''" | "key = ''or''" | "key = ''tags''"
    | "key = ''attributes''" | "key = ''blockHeight''"
    | (other) "key \<noteq> ''always''" "key \<noteq> ''never''" "key \<noteq> ''not''" "key \<noteq> ''and''" "key \<noteq> ''or''" "key \<noteq> ''tags''"
      "key \<noteq> ''attributes''" "key \<noteq> ''blockHeight''"
    by blast
  then show ?thesis
  proof cases
    case 4
    then show ?thesis by (subst parse_rule.simps) (cases inner; auto simp: res_simps)
  next
    case 5
    then show ?thesis by (subst parse_rule.simps) (cases inner; auto simp: res_simps)
  qed (subst parse_rule.simps, force simp: res_simps)+
qed

lemma parse_rule_object: "parse_rule E v d = Inr r \<Longrightarrow> \<exists>key inner. v = JObject [(key, inner)]"
  by (subst (asm) parse_rule.simps) (auto split: if_splits json.splits list.splits)

lemma size_items: "i \<in> set items \<Longrightarrow> size i < size (JObject [(k, JArray items)])"
  using size_list_estimation' [of i items "size i" size] by (simp add: less_Suc_eq_le)

lemma parse_rule_ok: "parse_rule E v d = Inr r \<Longrightarrow> rule_ok d r"
proof (induction "size v" arbitrary: v d r rule: less_induct)
  case less
  obtain key inner where v: "v = JObject [(key, inner)]" using parse_rule_object [OF less.prems] by blast
  note p = less.prems [unfolded v parse_rule_one]
  have deep: "parse_rule E i (Suc d) = Inr q \<Longrightarrow> d < 16" for i q
    by (subst (asm) parse_rule.simps) (auto simp: MAX_DEPTH_def split: if_splits)
  have items: "list_all (rule_ok (Suc d)) qs \<and> qs \<noteq> [] \<and> d < 16"
    if i: "inner = JArray items" "items \<noteq> []" "mapE (\<lambda>i. parse_rule E i (Suc d)) items = Inr qs" for items qs
  proof -
    have "rule_ok (Suc d) y \<and> d < 16" if "x \<in> set items" "parse_rule E x (Suc d) = Inr y" for x y
      using less.hyps [OF _ that(2)] size_items [OF that(1), of key] v i(1) deep [OF that(2)] by simp
    then have "list_all (\<lambda>q. rule_ok (Suc d) q \<and> d < 16) qs \<and> (items \<noteq> [] \<longrightarrow> qs \<noteq> [])"
      by (intro mapE_all [OF i(3)]) blast
    then show ?thesis using i(2) by (cases qs) (auto simp: list_all_iff)
  qed
  have "rule_ok (Suc d) q \<and> d < 16" if "parse_rule E inner (Suc d) = Inr q" for q
    using less.hyps [OF _ that] v deep [OF that] by simp
  then show ?case using p items parse_leaf_ok by (auto simp: MAX_DEPTH_def)
qed

lemma parse_tag_json: "parse_tag (tag_json t) = Inr t"
  by (cases t; cases "tm_value t") (auto simp: parse_tag_def tag_json_def tag_text_def as_bytes_def comp_def)

lemma mapE_map: "(\<And>x. x \<in> set xs \<Longrightarrow> f (g x) = Inr x) \<Longrightarrow> mapE f (map g xs) = Inr xs"
  by (induction xs) auto

lemma parse_rule_json:
  assumes "\<And>a. length a = 32 \<Longrightarrow> x_b64_decode E (x_b64_encode E a) = Some a"
  shows "rule_ok d r \<Longrightarrow> parse_rule E (rule_json E r) d = Inr r"
proof (induction r arbitrary: d)
  case (And rs)
  then have "mapE (\<lambda>i. parse_rule E i (Suc d)) (map (rule_json E) rs) = Inr rs"
    by (intro mapE_map) (auto simp: list_all_iff)
  then show ?case using And.prems by (simp add: parse_rule_one MAX_DEPTH_def)
next
  case (Or rs)
  then have "mapE (\<lambda>i. parse_rule E i (Suc d)) (map (rule_json E) rs) = Inr rs"
    by (intro mapE_map) (auto simp: list_all_iff)
  then show ?case using Or.prems by (simp add: parse_rule_one MAX_DEPTH_def)
next
  case (Tags ts)
  then show ?case by (simp add: parse_rule_one MAX_DEPTH_def parse_tags_def mapE_map parse_tag_json)
next
  case (Owner a)
  then show ?case using assms by (simp add: parse_rule_one MAX_DEPTH_def parse_owner_def)
next
  case (BlockHeight lo hi)
  then show ?case by (simp add: parse_rule_one MAX_DEPTH_def parse_height_def height_bound_def as_u64_def parse_unsigned_show)
qed (simp_all add: parse_rule_one MAX_DEPTH_def)

text \<open>C15. The rules of the index filter: the parser's results are exactly the well-formed rules, nested at most 16
  deep, with no empty list, an owner address of 32 bytes and an ordered range of heights; and each of them is what
  its JSON parses to, when base64url decodes what it encodes.\<close>

theorem parse_rule_range:
  assumes "\<And>a. length a = 32 \<Longrightarrow> x_b64_decode E (x_b64_encode E a) = Some a"
  shows "((\<exists>v. parse_rule E v 0 = Inr r) \<longleftrightarrow> rule_ok 0 r) \<and> (rule_ok 0 r \<longrightarrow> parse_rule E (rule_json E r) 0 = Inr r)"
  using parse_rule_ok parse_rule_json [OF assms] by blast

theorem parse_rule_range_witness:
  "parse_rule sample (rule_json sample (And [Not (Tags [\<lparr>tm_name = [65], tm_value = Prefix [66]\<rparr>]), BlockHeight 3 9,
     Owner (replicate 32 7)])) 0 =
   Inr (And [Not (Tags [\<lparr>tm_name = [65], tm_value = Prefix [66]\<rparr>]), BlockHeight 3 9, Owner (replicate 32 7)])"
proof -
  have "x_b64_decode sample (x_b64_encode sample a) = Some a" for a
    by (simp add: sample_def sample_decode_hex)
  moreover have "rule_ok 0 (And [Not (Tags [\<lparr>tm_name = [65], tm_value = Prefix [66]\<rparr>]), BlockHeight 3 9, Owner (replicate 32 7)])"
    by (simp add: U64_def)
  ultimately show ?thesis using parse_rule_range [of sample] by blast
qed

end
