(* ===== verification/DataItem.thy ===== *)
theory DataItem
  imports Transaction IndexFilter
begin

text \<open>
  ANS-104 data items, \<open>src/src/lib.rs\<close>: the header of a binary item with its Avro tags, the payload
  of its signature, its identity, and every signature type.  A \<open>Content\<close> is the bytes it views;
  elliptic-curve code is third-party, the fields of \<open>curves\<close>, and so is the HTTP header value,
  the fields of \<open>headers\<close>.
\<close>

record curves =
  z_ed_key :: "bytes \<Rightarrow> bool"                        \<comment> \<open>\<open>Ed25519VerifyingKey::from_bytes\<close> succeeds\<close>
  z_ed_verify :: "bytes \<Rightarrow> bytes \<Rightarrow> bytes \<Rightarrow> bool"   \<comment> \<open>\<open>verify_strict\<close>: key, message, signature\<close>
  z_secp_key :: "bytes \<Rightarrow> bool"                      \<comment> \<open>\<open>from_sec1_bytes\<close> succeeds\<close>
  z_secp_verify :: "bytes \<Rightarrow> bytes \<Rightarrow> bytes \<Rightarrow> bool" \<comment> \<open>\<open>verify_prehash\<close>: key, hash, signature\<close>
  z_secp_recover :: "bytes \<Rightarrow> bytes \<Rightarrow> nat \<Rightarrow> bytes option" \<comment> \<open>recovery to the uncompressed point\<close>

record headers =
  h_from_bytes :: "bytes \<Rightarrow> bool"       \<comment> \<open>\<open>HeaderValue::from_bytes\<close> succeeds\<close>
  h_to_str :: "bytes \<Rightarrow> str option"     \<comment> \<open>\<open>HeaderValue::to_str\<close>\<close>

section \<open>Limits and views\<close>

definition BUNDLE_ENTRY_SIZE :: nat where "BUNDLE_ENTRY_SIZE = 64"
definition MAX_DATA_ITEM_TAGS :: nat where "MAX_DATA_ITEM_TAGS = 128"
definition MAX_DATA_ITEM_TAG_NAME_BYTES :: nat where "MAX_DATA_ITEM_TAG_NAME_BYTES = 1024"
definition MAX_DATA_ITEM_TAG_VALUE_BYTES :: nat where "MAX_DATA_ITEM_TAG_VALUE_BYTES = 3072"
definition MAX_DATA_ITEM_TAG_BYTES :: nat where
  "MAX_DATA_ITEM_TAG_BYTES =
     MAX_DATA_ITEM_TAGS * (MAX_DATA_ITEM_TAG_NAME_BYTES + MAX_DATA_ITEM_TAG_VALUE_BYTES + 40) + 10"
definition MAX_DATA_ITEM_FIXED_HEADER_BYTES :: nat where
  "MAX_DATA_ITEM_FIXED_HEADER_BYTES = 2 + 2052 + 1025 + 2 * 33 + 16"
definition MAX_DATA_ITEM_HEADER_BYTES :: nat where
  "MAX_DATA_ITEM_HEADER_BYTES = MAX_DATA_ITEM_FIXED_HEADER_BYTES + MAX_DATA_ITEM_TAG_BYTES"

definition content_slice :: "bytes \<Rightarrow> nat \<Rightarrow> nat \<Rightarrow> bytes res" where
  "content_slice bs a b =
     ensure (a \<le> b \<and> b \<le> length bs) STR ''content slice is out of bounds'' (Inr (sub_bytes bs a b))"

definition content_read_at :: "bytes \<Rightarrow> nat \<Rightarrow> nat \<Rightarrow> bytes res" where
  "content_read_at bs offset len =
     bindE (contextE (checked_add USIZE offset len) STR ''content read offset overflow'') (\<lambda>end.
     content_slice bs offset end)"

section \<open>Avro tags\<close>

text \<open>One turn of the inner loop of \<open>parse_avro_tags\<close>; the loop over a block reads \<open>count\<close> tags.\<close>

definition avro_tag :: "bytes \<Rightarrow> nat \<Rightarrow> (ItemTag \<times> nat) res" where
  "avro_tag bs cursor =
     bindE (read_avro_length bs cursor STR ''Avro tag name'') (\<lambda>(name_len, cursor).
     ensure (name_len \<le> MAX_DATA_ITEM_TAG_NAME_BYTES) STR ''data item tag name exceeds limit''
     (bindE (take_bytes bs cursor name_len STR ''Avro tag name'') (\<lambda>(name, cursor).
      bindE (read_avro_length bs cursor STR ''Avro tag value'') (\<lambda>(value_len, cursor).
      ensure (value_len \<le> MAX_DATA_ITEM_TAG_VALUE_BYTES) STR ''data item tag value exceeds limit''
      (bindE (take_bytes bs cursor value_len STR ''Avro tag value'') (\<lambda>(val, cursor).
       Inr (\<lparr>it_name = name, it_value = val\<rparr>, cursor)))))))"

definition block_bound :: "bytes \<Rightarrow> int \<Rightarrow> nat \<Rightarrow> (nat option \<times> nat) res" where
  "block_bound bs block_count cursor =
     (if block_count < 0 then
        bindE (read_avro_long bs cursor) (\<lambda>(block_size, cursor).
        ensure (0 \<le> block_size) STR ''Avro tag block size is negative''
        (bindE (contextE (checked_add USIZE cursor (nat block_size)) STR ''Avro tag block size overflow'') (\<lambda>end.
         Inr (Some end, cursor))))
      else Inr (None, cursor))"

interpretation avro_tag_rd: reader avro_tag
  unfolding avro_tag_def by (intro reader_intros avro_length_rd.reader_axioms take_rd.reader_axioms)

lemma take_bytes_cursor_end: "take_bytes bs c n l = Inr (b, c') \<Longrightarrow> c' = c + n \<and> c' \<le> length bs"
  by (auto simp: take_bytes_def res_simps)

lemma read_avro_loop_cursor: "read_avro_loop n i e bs c = Inr (v, c') \<Longrightarrow> c < c' \<and> c' \<le> length bs"
  by (induction n i e bs c rule: read_avro_loop.induct)
    (fastforce simp: res_simps Let_def dest: take_bytes_cursor_end split: if_splits)+

lemma read_avro_long_cursor: "read_avro_long bs c = Inr (v, c') \<Longrightarrow> c < c' \<and> c' \<le> length bs"
  unfolding read_avro_long_def by (rule read_avro_loop_cursor)

lemma block_bound_cursor: "block_bound bs k c = Inr (b, c') \<Longrightarrow> c \<le> length bs \<Longrightarrow> c \<le> c' \<and> c' \<le> length bs"
  by (auto simp: block_bound_def res_simps dest: read_avro_long_cursor split: if_splits)

lemma avro_tags_cursor:
  "read_times avro_tag n bs c = Inr (ts, c') \<Longrightarrow> c \<le> length bs \<Longrightarrow> c \<le> c' \<and> c' \<le> length bs"
  using reader.rd_advances [OF reader_times [OF avro_tag_rd.reader_axioms]] by blast

text \<open>The outer loop; every block moves the cursor forward.\<close>

function avro_blocks :: "bytes \<Rightarrow> nat \<Rightarrow> nat \<Rightarrow> ItemTag list \<Rightarrow> (ItemTag list \<times> nat) res" where
  "avro_blocks bs expected_count cursor tags =
     (if cursor = length bs then Inr (tags, cursor)
      else
        bindE (read_avro_long bs cursor) (\<lambda>(block_count, cursor).
        if block_count = 0 then Inr (tags, cursor)
        else
          ensure (block_count \<noteq> - (2 ^ 63)) STR ''Avro tag block count overflow''
          (ensure (saturating_add USIZE (length tags) (nat \<bar>block_count\<bar>) \<le> expected_count)
             STR ''Avro tag count exceeds declared count''
           (bindE (block_bound bs block_count cursor) (\<lambda>(block_end, cursor).
            bindE (read_times avro_tag (nat \<bar>block_count\<bar>) bs cursor) (\<lambda>(block_tags, cursor).
            ensure (case block_end of Some e \<Rightarrow> cursor = e | None \<Rightarrow> True) STR ''Avro tag block size mismatch''
            (avro_blocks bs expected_count cursor (tags @ block_tags))))))))"
  by pat_completeness auto
termination
proof (relation "measure (\<lambda>(bs, n, c, ts). length bs - c)", simp, clarsimp)
  fix bs c k d e d' ts d''
  assume a: "read_avro_long bs c = Inr (k, d)" "block_bound bs k d = Inr (e, d')" "read_times avro_tag (nat \<bar>k\<bar>) bs d' = Inr (ts, d'')"
  show "length bs - d'' < length bs - c"
    using read_avro_long_cursor [OF a(1)] block_bound_cursor [OF a(2)] avro_tags_cursor [OF a(3)] by linarith
qed

declare avro_blocks.simps [simp del]

definition parse_avro_tags :: "bytes \<Rightarrow> nat \<Rightarrow> ItemTag list res" where
  "parse_avro_tags bs expected_count =
     (if expected_count = 0 \<and> (bs = [] \<or> bs = [0, 0]) then Inr []
      else
        bindE (avro_blocks bs expected_count 0 []) (\<lambda>(tags, cursor).
        ensure (cursor = length bs) STR ''Avro tag bytes contain trailing data''
        (ensure (length tags = expected_count) STR ''Avro tag count does not match declared count''
         (Inr tags))))"

section \<open>The header of an item\<close>

definition data_item_signature_sizes :: "nat \<Rightarrow> (nat \<times> nat) res" where
  "data_item_signature_sizes signature_type =
     (if signature_type = 1 then Inr (512, 512)
      else if signature_type = 2 then Inr (64, 32)
      else if signature_type = 3 then Inr (65, 65)
      else if signature_type = 4 \<or> signature_type = 5 then Inr (64, 32)
      else if signature_type = 6 then Inr (2052, 1025)
      else if signature_type = 7 then Inr (65, 42)
      else Inl (Fail (STR ''unsupported ANS-104 signature type '' + String.implode (show_nat signature_type))))"

definition data_item_signature_payload ::
  "deps \<Rightarrow> nat \<Rightarrow> bytes \<Rightarrow> bytes \<Rightarrow> bytes \<Rightarrow> bytes \<Rightarrow> bytes \<Rightarrow> bytes" where
  "data_item_signature_payload E signature_type owner target anchor raw_tags data_hash =
     deep_hash_list E [deep_hash_blob E (as_bytes ''dataitem''), deep_hash_blob E (as_bytes ''1''),
       deep_hash_blob E (as_bytes (show_nat signature_type)), deep_hash_blob E owner, deep_hash_blob E target,
       deep_hash_blob E anchor, deep_hash_blob E raw_tags, data_hash]"

record DataItemHeader =
  dh_legacy :: bool
  dh_unsigned :: bool
  dh_signature_type :: nat
  dh_signature :: bytes
  dh_owner :: bytes
  dh_target :: bytes
  dh_anchor :: bytes
  dh_raw_tags :: bytes
  dh_tags :: "ItemTag list"
  dh_data_offset :: nat

definition owner_address :: "deps \<Rightarrow> DataItemHeader \<Rightarrow> bytes option" where
  "owner_address E h = (if \<not> dh_unsigned h then Some (sha256 E [dh_owner h]) else None)"

text \<open>\<open>Result::context\<close>.\<close>

definition with_context :: "'a res \<Rightarrow> String.literal \<Rightarrow> 'a res" where
  "with_context r msg = (case r of Inl (Fail _) \<Rightarrow> Inl (Fail msg) | _ \<Rightarrow> r)"

definition read_data_item_header :: "deps \<Rightarrow> bytes \<Rightarrow> bytes \<Rightarrow> DataItemHeader res" where
  "read_data_item_header E item expected_id =
     bindE (content_read_at item 0 (min (length item) MAX_DATA_ITEM_FIXED_HEADER_BYTES)) (\<lambda>header.
     let legacy = (512 \<le> length header \<and> sha256 E [take 512 header] = expected_id) in
     bindE (if legacy then Inr (1, 0) else read_le_u16 header 0 STR ''data item signature type'') (\<lambda>(signature_type, cursor).
     bindE (data_item_signature_sizes signature_type) (\<lambda>(signature_size, owner_size).
     bindE (take_bytes header cursor signature_size STR ''data item signature'') (\<lambda>(signature, cursor).
     bindE (take_bytes header cursor owner_size STR ''data item owner'') (\<lambda>(owner, cursor).
     let unsigned = (\<not> legacy \<and> signature_type = 1 \<and> list_all (\<lambda>byte. byte = 0) signature \<and> list_all (\<lambda>byte. byte = 0) owner) in
     bindE (read_optional_32 header cursor STR ''data item target'') (\<lambda>(target, cursor).
     bindE (read_optional_32 header cursor STR ''data item anchor'') (\<lambda>(anchor, cursor).
     bindE (read_le_u64 header cursor STR ''data item tag count'') (\<lambda>(tag_count, cursor).
     ensure (tag_count < USIZE) STR ''data item tag count is too large''
     (ensure (tag_count \<le> MAX_DATA_ITEM_TAGS) STR ''data item tag count exceeds limit''
     (bindE (read_le_u64 header cursor STR ''data item tag byte length'') (\<lambda>(tag_bytes_len, cursor).
      ensure (tag_bytes_len < USIZE) STR ''data item tag byte length is too large''
      (ensure (tag_bytes_len \<le> MAX_DATA_ITEM_TAG_BYTES) STR ''data item tag bytes exceed limit''
      (bindE (contextE (checked_add USIZE cursor tag_bytes_len) STR ''data item tag offset overflow'') (\<lambda>tags_end.
       bindE (if tags_end \<le> length header then slice header cursor tags_end
              else with_context (content_read_at item cursor tag_bytes_len) STR ''data item tags are truncated'') (\<lambda>raw_tags.
       bindE (parse_avro_tags raw_tags tag_count) (\<lambda>tags.
       Inr \<lparr>dh_legacy = legacy, dh_unsigned = unsigned, dh_signature_type = signature_type, dh_signature = signature,
         dh_owner = owner, dh_target = target, dh_anchor = anchor, dh_raw_tags = raw_tags, dh_tags = tags,
         dh_data_offset = tags_end\<rparr>))))))))))))))))"

section \<open>Signatures\<close>

definition verify_ed25519 :: "curves \<Rightarrow> bytes \<Rightarrow> bytes \<Rightarrow> bytes \<Rightarrow> unit res" where
  "verify_ed25519 C owner signature message =
     ensure (length owner = 32) STR ''invalid Ed25519 data item owner length''
     (ensure (length signature = 64) STR ''invalid Ed25519 signature length''
     (ensure (z_ed_key C owner) STR ''invalid Ed25519 data item owner''
     (ensure (z_ed_verify C owner message signature) STR ''data item signature verification failed'' (Inr ()))))"

definition ethereum_message_hash :: "deps \<Rightarrow> bytes \<Rightarrow> bytes" where
  "ethereum_message_hash E message =
     keccak256 E [0x19 # as_bytes ''Ethereum Signed Message:'' @ [10], as_bytes (show_nat (length message)), message]"

definition verify_ethereum :: "deps \<Rightarrow> signers \<Rightarrow> curves \<Rightarrow> bytes \<Rightarrow> bytes \<Rightarrow> bytes \<Rightarrow> unit res" where
  "verify_ethereum E S C owner signature message =
     ensure (length signature = 65) STR ''invalid Ethereum signature length''
     (ensure (z_secp_key C owner) STR ''invalid Ethereum data item owner''
     (bindE (slice signature 0 64) (\<lambda>compact.
      ensure (y_sig_ok S compact) STR ''invalid Ethereum data item signature''
      (ensure (z_secp_verify C owner (ethereum_message_hash E message) compact)
         STR ''data item signature verification failed'' (Inr ())))))"

text \<open>\<open>u8::count_ones\<close>.\<close>

definition count_ones :: "byte \<Rightarrow> nat" where
  "count_ones b = length (filter (bit b) [0..<8])"

definition in_bitmap :: "bytes \<Rightarrow> nat \<Rightarrow> bool" where
  "in_bitmap bitmap index \<longleftrightarrow> bitmap ! (index div 8) AND drop_bit (index mod 8) 0x80 \<noteq> 0"

definition verify_aptos_multisignature :: "curves \<Rightarrow> bytes \<Rightarrow> bytes \<Rightarrow> bytes \<Rightarrow> unit res" where
  "verify_aptos_multisignature C owner signature message =
     ensure (length owner = 1025) STR ''invalid Aptos multisig owner length''
     (ensure (length signature = 2052) STR ''invalid Aptos multisig signature length''
     (bindE (nthE owner 1024) (\<lambda>t.
      let threshold = unat t in
      ensure (1 \<le> threshold \<and> threshold \<le> 32) STR ''invalid Aptos multisig threshold''
      (let bitmap = drop 2048 signature; signature_count = sum_list (map count_ones bitmap) in
       ensure (signature_count \<ge> threshold) STR ''Aptos multisig threshold is not met''
       (bindE (mapE (\<lambda>index.
          if in_bitmap bitmap index then
            bindE (slice owner (index * 32) ((index + 1) * 32)) (\<lambda>key.
            bindE (slice signature (index * 64) ((index + 1) * 64)) (\<lambda>part.
            verify_ed25519 C key part message))
          else Inr ()) [0..<32]) (\<lambda>_. Inr ()))))))"

definition decode_hex_nibble :: "byte \<Rightarrow> byte option" where
  "decode_hex_nibble b =
     (if 48 \<le> b \<and> b \<le> 57 then Some (b - 48)
      else if 97 \<le> b \<and> b \<le> 102 then Some (b - 97 + 10)
      else if 65 \<le> b \<and> b \<le> 70 then Some (b - 65 + 10)
      else None)"

definition ethereum_address_from_owner :: "bytes \<Rightarrow> bytes res" where
  "ethereum_address_from_owner owner =
     ensure (length owner = 42 \<and> eq_ignore_ascii_case (take 2 owner) (as_bytes ''0x''))
       STR ''invalid typed Ethereum data item owner''
     (mapE (\<lambda>i. contextE
        (Option.bind (decode_hex_nibble (owner ! (2 + 2 * i))) (\<lambda>high.
         Option.bind (decode_hex_nibble (owner ! (3 + 2 * i))) (\<lambda>low. Some (push_bit 4 high OR low))))
        STR ''invalid typed Ethereum data item owner'') [0..<20])"

definition typed_ethereum_message_hash :: "deps \<Rightarrow> bytes \<Rightarrow> bytes \<Rightarrow> bytes" where
  "typed_ethereum_message_hash E message address =
     (let domain_type = keccak256 E [as_bytes ''EIP712Domain(string name,string version)''];
          domain_name = keccak256 E [as_bytes ''Bundlr''];
          domain_version = keccak256 E [as_bytes ''1''];
          domain = keccak256 E [domain_type, domain_name, domain_version];
          message_type = keccak256 E [as_bytes ''Bundlr(bytes Transaction hash,address address)''];
          transaction_hash = keccak256 E [message];
          encoded_address = replicate 12 0 @ address;
          value = keccak256 E [message_type, transaction_hash, encoded_address]
      in keccak256 E [[0x19, 0x01], domain, value])"

definition verify_typed_ethereum :: "deps \<Rightarrow> signers \<Rightarrow> curves \<Rightarrow> bytes \<Rightarrow> bytes \<Rightarrow> bytes \<Rightarrow> unit res" where
  "verify_typed_ethereum E S C owner signature message =
     ensure (length signature = 65) STR ''invalid typed Ethereum signature length''
     (bindE (ethereum_address_from_owner owner) (\<lambda>address.
      bindE (nthE signature 64) (\<lambda>v.
      bindE (if v \<le> 1 then Inr (unat v) else if 27 \<le> v \<and> v \<le> 28 then Inr (unat v - 27)
             else Inl (Fail STR ''invalid typed Ethereum recovery ID'')) (\<lambda>recovery_id.
      bindE (slice signature 0 64) (\<lambda>compact.
      ensure (y_sig_ok S compact) STR ''invalid typed Ethereum data item signature''
      (bindE (contextE (z_secp_recover C (typed_ethereum_message_hash E message address) compact recovery_id)
                STR ''typed Ethereum data item signature recovery failed'') (\<lambda>public_key.
       bindE (slice public_key 1 (length public_key)) (\<lambda>point.
       let recovered = keccak256 E [point] in
       ensure (drop 12 recovered = address) STR ''data item signature verification failed'' (Inr ())))))))))"

definition verify_data_item_signature ::
  "deps \<Rightarrow> signers \<Rightarrow> curves \<Rightarrow> nat \<Rightarrow> bytes \<Rightarrow> bytes \<Rightarrow> bytes \<Rightarrow> unit res" where
  "verify_data_item_signature E S C signature_type owner signature payload =
     (if signature_type = 1 then verify_rsa_pss E S owner signature payload STR ''data item''
      else if signature_type = 2 then verify_ed25519 C owner signature payload
      else if signature_type = 3 then verify_ethereum E S C owner signature payload
      else if signature_type = 4 then verify_ed25519 C owner signature (as_bytes (hex payload))
      else if signature_type = 5 then verify_ed25519 C owner signature
        (as_bytes ''APTOS'' @ [10] @ as_bytes (''message: '' @ hex payload) @ [10] @ as_bytes ''nonce: bundlr'')
      else if signature_type = 6 then verify_aptos_multisignature C owner signature payload
      else if signature_type = 7 then verify_typed_ethereum E S C owner signature payload
      else Inl (Fail (STR ''unsupported ANS-104 signature type '' + String.implode (show_nat signature_type))))"

section \<open>A verified item\<close>

record VerifiedItem =
  vi_data :: bytes
  vi_data_offset :: nat
  vi_item_size :: nat
  vi_body_hash :: bytes
  vi_signature_type :: nat
  vi_signature :: bytes
  vi_owner :: bytes
  vi_target :: bytes
  vi_anchor :: bytes
  vi_tags :: "ItemTag list"

definition verify_data_item_header ::
  "deps \<Rightarrow> signers \<Rightarrow> curves \<Rightarrow> bytes \<Rightarrow> DataItemHeader \<Rightarrow> bytes \<Rightarrow> VerifiedItem res" where
  "verify_data_item_header E S C item h expected_id =
     (let legacy = dh_legacy h; unsigned = dh_unsigned h; signature_type = dh_signature_type h;
          signature = dh_signature h; owner = dh_owner h; target = dh_target h; anchor = dh_anchor h;
          raw_tags = dh_raw_tags h; cursor = dh_data_offset h; item_size = length item in
      bindE (content_slice item cursor (length item)) (\<lambda>data.
      let signed_identity = (sha256 E [signature] = expected_id);
          content_identity = (unsigned \<or> (\<not> legacy \<and> \<not> signed_identity));
          body_hash = sha256 E [data]; body_sha384 = sha384 E [data];
          data_hash = sha384 E [sha384 E [as_bytes (''blob'' @ show_nat (length data))], body_sha384];
          payload = (if legacy then
              deep_hash_list E [deep_hash_blob E (as_bytes ''dataitem''), deep_hash_blob E (as_bytes ''1''),
                deep_hash_blob E owner, deep_hash_blob E target, deep_hash_blob E anchor, deep_hash_blob E raw_tags, data_hash]
            else data_item_signature_payload E signature_type owner target anchor raw_tags data_hash);
          identity_payload = (if unsigned then payload
            else data_item_signature_payload E signature_type (replicate 512 0) target anchor raw_tags data_hash) in
      ensure (content_identity \<longrightarrow> sha256 E [identity_payload] = expected_id)
        STR ''data item content ID does not match its content''
      (bindE (if unsigned then Inr ([], [])
              else bindE (verify_data_item_signature E S C signature_type owner signature payload) (\<lambda>_.
                Inr (signature, owner))) (\<lambda>(signature_bytes, owner_bytes).
       Inr \<lparr>vi_data = data, vi_data_offset = cursor, vi_item_size = item_size, vi_body_hash = body_hash,
         vi_signature_type = signature_type, vi_signature = signature_bytes, vi_owner = owner_bytes,
         vi_target = target, vi_anchor = anchor, vi_tags = dh_tags h\<rparr>))))"

definition verify_data_item :: "deps \<Rightarrow> signers \<Rightarrow> curves \<Rightarrow> bytes \<Rightarrow> bytes \<Rightarrow> VerifiedItem res" where
  "verify_data_item E S C item expected_id =
     bindE (read_data_item_header E item expected_id) (\<lambda>header.
     verify_data_item_header E S C item header expected_id)"

definition item_pairs :: "ItemTag list \<Rightarrow> (bytes \<times> bytes) list" where
  "item_pairs tags = map (\<lambda>tag. (it_name tag, it_value tag)) tags"

definition item_id :: "deps \<Rightarrow> VerifiedItem \<Rightarrow> bytes \<Rightarrow> bytes" where
  "item_id E item header_id = (if vi_signature item = [] then header_id else sha256 E [vi_signature item])"

definition text_tag :: "VerifiedItem \<Rightarrow> bytes \<Rightarrow> str option" where
  "text_tag item name = optional_text_tag (item_pairs (vi_tags item)) name"

text \<open>\<open>as i16\<close> of a \<open>u16\<close>.\<close>

definition as_i16 :: "nat \<Rightarrow> int" where
  "as_i16 n = (if n mod 65536 < 32768 then int (n mod 65536) else int (n mod 65536) - 65536)"

definition item_metadata :: "deps \<Rightarrow> VerifiedItem \<Rightarrow> bytes \<Rightarrow> ObjectMetadata" where
  "item_metadata E item i =
     \<lparr>om_id = i, om_kind = 1, om_signature = vi_signature item, om_anchor = vi_anchor item,
      om_owner_address = (if vi_owner item = [] then [] else sha256 E [vi_owner item]),
      om_owner_public_key = vi_owner item, om_target = vi_target item, om_data_size = length (vi_data item),
      om_content_type = text_tag item (as_bytes ''Content-Type''),
      om_content_encoding = text_tag item (as_bytes ''Content-Encoding''),
      om_signature_type = as_i16 (vi_signature_type item), om_format = None, om_quantity = None, om_reward = None,
      om_denomination = None, om_data_root = None, om_tags = item_pairs (vi_tags item)\<rparr>"

section \<open>Content type and encoding of a response\<close>

definition header_text :: "headers \<Rightarrow> bytes \<Rightarrow> String.literal \<Rightarrow> str res" where
  "header_text H val name =
     ensure (h_from_bytes H val) (STR ''invalid '' + name + STR '' tag'')
     (contextE (h_to_str H val) (STR ''non-ASCII '' + name + STR '' tag''))"

fun content_type :: "deps \<Rightarrow> headers \<Rightarrow> Tag list \<Rightarrow> str res" where
  "content_type E H [] = Inr ''application/octet-stream''"
| "content_type E H (tag # tags) =
     bindE (decode_b64 E (tag_name tag) STR ''tag name'') (\<lambda>name.
     if eq_ignore_ascii_case name (as_bytes ''Content-Type'') then
       bindE (decode_b64 E (tag_value tag) STR ''Content-Type tag'') (\<lambda>val. header_text H val STR ''Content-Type'')
     else content_type E H tags)"

fun item_content_type :: "headers \<Rightarrow> ItemTag list \<Rightarrow> str res" where
  "item_content_type H [] = Inr ''application/octet-stream''"
| "item_content_type H (tag # tags) =
     (if eq_ignore_ascii_case (it_name tag) (as_bytes ''Content-Type'')
      then header_text H (it_value tag) STR ''Content-Type''
      else item_content_type H tags)"

definition response_content_encoding :: "headers \<Rightarrow> str option \<Rightarrow> str option res" where
  "response_content_encoding H val = (case val of
     None \<Rightarrow> Inr None
   | Some text \<Rightarrow> bindE (header_text H (as_bytes text) STR ''Content-Encoding'') (\<lambda>_. Inr val))"

end
