(* ===== verification/JsonItem.thy ===== *)
theory JsonItem
  imports DataItem
begin

text \<open>
  Items of a JSON bundle, \<open>src/src/json_bundle.rs\<close>: what the streaming visitors keep of each entry and
  the caps they enforce, the decoder of an escaped base64 string with its checkpoints, and the
  verification of an entry.  The events of \<open>serde_json\<close>'s streaming deserializer, with the number of
  bytes read at each of them, and its reader of a captured value are parameters.
\<close>

definition DECODE_BLOCK :: nat where "DECODE_BLOCK = 64 * 1024"
definition MAX_JSON_KEY_BYTES :: nat where "MAX_JSON_KEY_BYTES = 256"
definition JSON_ESCAPE_FACTOR :: nat where "JSON_ESCAPE_FACTOR = 6"
definition MAX_JSON_NONCE_BYTES :: nat where
  "MAX_JSON_NONCE_BYTES = 4096 * JSON_ESCAPE_FACTOR + MAX_JSON_KEY_BYTES"
definition MAX_JSON_TAGS_BYTES :: nat where
  "MAX_JSON_TAGS_BYTES = MAX_DATA_ITEM_TAGS * 8192 * JSON_ESCAPE_FACTOR + MAX_JSON_KEY_BYTES"

definition quoted_base64_cap :: "nat \<Rightarrow> nat" where
  "quoted_base64_cap n = (div_ceil n 3 * 4 + 2) * JSON_ESCAPE_FACTOR + MAX_JSON_KEY_BYTES"

definition field_cap :: "str \<Rightarrow> nat" where
  "field_cap key =
     (if key = ''id'' \<or> key = ''target'' then quoted_base64_cap 32
      else if key = ''owner'' then quoted_base64_cap 1025
      else if key = ''signature'' then quoted_base64_cap 2052
      else if key = ''nonce'' then MAX_JSON_NONCE_BYTES
      else MAX_JSON_TAGS_BYTES)"

section \<open>Events and visitors\<close>

text \<open>
  A field of an object: its key, the bytes read when the key, the colon and the value are done,
  and the text of the value.
\<close>

record json_field =
  jf_key :: str
  jf_key_end :: nat
  jf_value_start :: nat
  jf_end :: nat
  jf_raw :: str

text \<open>
  An entry of \<open>items\<close>: an object (bytes read at the start, after the brace, its kept, at the
  closing brace), an array (at the start, after the bracket, at the end) or a scalar.
\<close>

datatype entry_event =
    EntryMap nat nat "json_field list" nat
  | EntrySeq nat nat nat
  | EntryScalar nat nat

text \<open>\<open>ParseState::bound\<close> at one position and the check of \<open>CountedReader::read\<close> at a later one.\<close>

definition bounded :: "nat \<Rightarrow> nat \<Rightarrow> nat \<Rightarrow> 'a res \<Rightarrow> 'a res" where
  "bounded at cap pos k = ensure (pos \<le> saturating_add USIZE at cap) STR ''JSON bundle field exceeds size limit'' k"

record Fields =
  fd_offset :: nat
  fd_values :: "(str \<times> str) list"
  fd_data :: "(nat \<times> nat) option"
  fd_invalid :: bool

definition invalid_fields :: Fields where
  "invalid_fields = \<lparr>fd_offset = 0, fd_values = [], fd_data = None, fd_invalid = True\<rparr>"

definition is_value_key :: "str \<Rightarrow> bool" where
  "is_value_key key \<longleftrightarrow> key \<in> {''id'', ''owner'', ''target'', ''nonce'', ''tags'', ''signature''}"

text \<open>One turn of the loop of \<open>EntryVisitor::visit_map\<close>; \<open>at\<close> is the position of the last \<open>bound\<close>.\<close>

definition visit_field :: "nat \<Rightarrow> Fields \<Rightarrow> json_field \<Rightarrow> Fields res" where
  "visit_field at kept f =
     bounded at MAX_JSON_KEY_BYTES (jf_key_end f)
     (if jf_key f = ''data'' then
        Inr (kept\<lparr>fd_invalid := fd_invalid kept \<or> fd_data kept \<noteq> None,
                    fd_data := Some (jf_value_start f, jf_end f)\<rparr>)
      else if is_value_key (jf_key f) then
        bounded (jf_key_end f) (field_cap (jf_key f)) (jf_end f)
        (Inr (kept\<lparr>fd_invalid := fd_invalid kept \<or> map_of (fd_values kept) (jf_key f) \<noteq> None,
                     fd_values := (jf_key f, jf_raw f) # fd_values kept\<rparr>))
      else Inr kept)"

fun visit_fields :: "nat \<Rightarrow> Fields \<Rightarrow> json_field list \<Rightarrow> (nat \<times> Fields) res" where
  "visit_fields at kept [] = Inr (at, kept)"
| "visit_fields at kept (f # fs) =
     bindE (visit_field at kept f) (\<lambda>kept. visit_fields (jf_end f) kept fs)"

fun visit_entry :: "entry_event \<Rightarrow> (Fields \<times> nat) res" where
  "visit_entry (EntryMap start opened fs closed) =
     bounded start MAX_JSON_KEY_BYTES opened
     (bindE (subE opened 1) (\<lambda>offset.
      bindE (visit_fields opened \<lparr>fd_offset = offset, fd_values = [], fd_data = None, fd_invalid = False\<rparr> fs) (\<lambda>(at, kept).
      bounded at MAX_JSON_KEY_BYTES closed (Inr (kept, closed)))))"
| "visit_entry (EntrySeq start opened ended) =
     bounded start MAX_JSON_KEY_BYTES opened (Inr (invalid_fields, ended))"
| "visit_entry (EntryScalar start ended) =
     bounded start MAX_JSON_KEY_BYTES ended (Inr (invalid_fields, ended))"

record JsonEntry =
  je_offset :: nat
  je_size :: nat
  je_id :: "bytes option"
  je_source :: bytes
  je_fields :: Fields

text \<open>\<open>serde_json::from_str\<close> of a captured value: the reader keeps duplicate keys.\<close>

type_synonym reader_of_text = "str \<Rightarrow> json option"

definition raw_string :: "reader_of_text \<Rightarrow> str \<Rightarrow> str option" where
  "raw_string J raw = Option.bind (J raw) as_str"

definition entry_seed :: "deps \<Rightarrow> reader_of_text \<Rightarrow> bytes \<Rightarrow> entry_event \<Rightarrow> JsonEntry res" where
  "entry_seed E J source ev =
     bindE (visit_entry ev) (\<lambda>(kept, end).
     let i = Option.bind (map_of (fd_values kept) ''id'') (\<lambda>raw.
           Option.bind (raw_string J raw) (\<lambda>text.
           case decode_fixed E 32 text STR ''JSON item ID'' of Inr i \<Rightarrow> Some i | Inl _ \<Rightarrow> None)) in
     Inr \<lparr>je_offset = fd_offset kept, je_size = end - fd_offset kept, je_id = i, je_source = source, je_fields = kept\<rparr>)"

text \<open>The root object: its keys with the bytes read, the entries of \<open>items\<close>, and where reading ended or failed.\<close>

datatype root_value = RootItems "entry_event list" "error option" nat | RootIgnored "error option" nat

fun items_messages :: "deps \<Rightarrow> reader_of_text \<Rightarrow> bytes \<Rightarrow> entry_event list \<Rightarrow> JsonEntry list \<times> error option" where
  "items_messages E J source [] = ([], None)"
| "items_messages E J source (ev # evs) = (case entry_seed E J source ev of
     Inl e \<Rightarrow> ([], Some e)
   | Inr entry \<Rightarrow> (case items_messages E J source evs of (es, e) \<Rightarrow> (entry # es, e)))"

fun root_messages ::
  "deps \<Rightarrow> reader_of_text \<Rightarrow> bytes \<Rightarrow> bool \<Rightarrow> nat \<Rightarrow> (str \<times> nat \<times> root_value) list \<Rightarrow> error + nat \<Rightarrow> JsonEntry list \<times> error option" where
  "root_messages E J source found at [] closed = (case closed of
     Inl e \<Rightarrow> ([], Some e)
   | Inr pos \<Rightarrow> (case bounded at MAX_JSON_KEY_BYTES pos (Inr ()) of
       Inl e \<Rightarrow> ([], Some e)
     | Inr _ \<Rightarrow> ([], if found then None else Some (Fail STR ''missing field `items`''))))"
| "root_messages E J source found at ((key, key_end, val) # rest) closed =
     (case bounded at MAX_JSON_KEY_BYTES key_end (Inr ()) of
        Inl e \<Rightarrow> ([], Some e)
      | Inr _ \<Rightarrow> (case val of
          RootItems evs failed end \<Rightarrow>
            if found then ([], Some (Fail STR ''duplicate field `items`''))
            else (case items_messages E J source evs of
              (es, Some e) \<Rightarrow> (es, Some e)
            | (es, None) \<Rightarrow> (case failed of
                Some e \<Rightarrow> (es, Some e)
              | None \<Rightarrow> (case root_messages E J source True end rest closed of (es', e) \<Rightarrow> (es @ es', e))))
        | RootIgnored failed end \<Rightarrow> (case failed of
            Some e \<Rightarrow> ([], Some e)
          | None \<Rightarrow> root_messages E J source found end rest closed)))"

text \<open>\<open>JsonBundle\<close>: the messages its parser sends, and \<open>next\<close>.\<close>

type_synonym JsonBundle = "JsonEntry list \<times> error option"

definition json_next :: "JsonBundle \<Rightarrow> (JsonEntry option \<times> JsonBundle) res" where
  "json_next b = (case b of
     (e # es, err) \<Rightarrow> Inr (Some e, (es, err))
   | ([], Some err) \<Rightarrow> Inl err
   | ([], None) \<Rightarrow> Inr (None, b))"

section \<open>The decoder of an escaped base64 string\<close>

definition invalid_item :: error where "invalid_item = Fail STR ''invalid JSON data item''"

text \<open>The accumulator is a \<open>u16\<close>; four digits fit.\<close>

fun hex_value16 :: "nat \<Rightarrow> bytes \<Rightarrow> nat res" where
  "hex_value16 acc [] = Inr acc"
| "hex_value16 acc (d # ds) = (case decode_hex_nibble d of
     None \<Rightarrow> Inl invalid_item
   | Some v \<Rightarrow> bindE (mulE U16 acc 16) (\<lambda>a. bindE (addE U16 a (unat v)) (\<lambda>a. hex_value16 a ds)))"

definition unexpected_eof :: error where "unexpected_eof = Fail STR ''unexpected end of file''"

text \<open>The byte of an escape and what follows it, given what follows the backslash.\<close>

definition escape :: "bytes \<Rightarrow> (byte \<times> bytes) res" where
  "escape rs = (case rs of
     [] \<Rightarrow> Inl unexpected_eof
   | escaped # rs \<Rightarrow>
       if escaped = 117 then
         (if length rs < 4 then Inl unexpected_eof
          else bindE (hex_value16 0 (take 4 rs)) (\<lambda>value.
            if value < 256 then Inr (word_of_nat value, drop 4 rs) else Inl invalid_item))
       else if escaped = 34 \<or> escaped = 92 \<or> escaped = 47 then Inr (escaped, rs)
       else if escaped = 98 then Inr (8, rs)
       else if escaped = 102 then Inr (12, rs)
       else if escaped = 110 then Inr (10, rs)
       else if escaped = 114 then Inr (13, rs)
       else if escaped = 116 then Inr (9, rs)
       else Inl invalid_item)"

text \<open>The loop of \<open>Decoder::next\<close>: up to \<open>room\<close> characters; the buffering of the reader does not show.\<close>

fun fill_block :: "nat \<Rightarrow> bytes \<Rightarrow> (bytes \<times> bytes) res" where
  "fill_block 0 rs = Inr ([], rs)"
| "fill_block (Suc room) [] = Inr ([], [])"
| "fill_block (Suc room) (b # rs) =
     (if b \<noteq> 92 then bindE (fill_block room rs) (\<lambda>(encoded, rest). Inr (b # encoded, rest))
      else bindE (escape rs) (\<lambda>(c, rs). bindE (fill_block room rs) (\<lambda>(encoded, rest). Inr (c # encoded, rest))))"

record Decoder =
  de_reader :: bytes
  de_raw_position :: nat

definition b64_bytes :: "deps \<Rightarrow> bytes \<Rightarrow> bytes option" where
  "b64_bytes E encoded = x_b64_decode E (map char_of_byte encoded)"

definition decoder_next :: "deps \<Rightarrow> Decoder \<Rightarrow> (bytes option \<times> Decoder) res" where
  "decoder_next E d =
     bindE (fill_block DECODE_BLOCK (de_reader d)) (\<lambda>(encoded, rest).
     bindE (addE USIZE (de_raw_position d) (length (de_reader d) - length rest)) (\<lambda>raw_position.
     let d' = \<lparr>de_reader = rest, de_raw_position = raw_position\<rparr> in
     if encoded = [] then Inr (None, d')
     else (case b64_bytes E encoded of None \<Rightarrow> Inl invalid_item | Some bytes \<Rightarrow> Inr (Some bytes, d'))))"

record Base64Data =
  bd_encoded :: bytes
  bd_checkpoints :: "(nat \<times> nat) list"
  bd_len :: nat

lemma escape_shorter: "escape rs = Inr (c, rest) \<Longrightarrow> length rest < length rs"
  by (auto simp: escape_def res_simps split: list.splits if_splits)

lemma fill_block_shorter:
  "fill_block room rs = Inr (encoded, rest) \<Longrightarrow> length rest + length encoded \<le> length rs"
proof (induction room rs arbitrary: encoded rest rule: fill_block.induct)
  case (3 room b rs)
  then show ?case by (fastforce simp: res_simps dest: escape_shorter split: if_splits)
qed auto

lemma decoder_next_shorter: "decoder_next E d = Inr (Some b, d') \<Longrightarrow> length (de_reader d') < length (de_reader d)"
proof -
  assume "decoder_next E d = Inr (Some b, d')"
  then obtain encoded rest where r: "fill_block DECODE_BLOCK (de_reader d) = Inr (encoded, rest)" "encoded \<noteq> []" "de_reader d' = rest"
    by (auto simp: decoder_next_def res_simps Let_def split: if_splits option.splits)
  from fill_block_shorter [OF r(1)] r(2,3) show ?thesis by (cases encoded) auto
qed

text \<open>The loop of \<open>scan\<close>: the checkpoints, the length and the parts fed to the hashers.\<close>

function scan_loop ::
  "deps \<Rightarrow> nat \<Rightarrow> Decoder \<Rightarrow> (nat \<times> nat) list \<Rightarrow> nat \<Rightarrow> nat \<Rightarrow> bytes list \<Rightarrow> ((nat \<times> nat) list \<times> nat \<times> bytes list) res" where
  "scan_loop E stride d checkpoints next_checkpoint len parts =
     bindE (decoder_next E d) (\<lambda>(block, d). case block of
       None \<Rightarrow> Inr (checkpoints, len, parts)
     | Some bytes \<Rightarrow>
         bindE (contextE (checked_add USIZE len (length bytes)) STR ''decoded JSON size overflow'') (\<lambda>len.
         if next_checkpoint \<le> de_raw_position d
         then scan_loop E stride d (checkpoints @ [(de_raw_position d, len)])
                (saturating_add USIZE (de_raw_position d) stride) len (parts @ [bytes])
         else scan_loop E stride d checkpoints next_checkpoint len (parts @ [bytes])))"
  by pat_completeness auto
termination
  by (relation "measure (\<lambda>(E, s, d, c, n, l, p). length (de_reader d))") (auto dest: decoder_next_shorter)

declare scan_loop.simps [simp del]

definition base64_scan :: "deps \<Rightarrow> bytes \<Rightarrow> (Base64Data \<times> bytes \<times> bytes) res" where
  "base64_scan E encoded =
     (let stride = max (div_ceil (length encoded) 4096) DECODE_BLOCK in
      bindE (scan_loop E stride \<lparr>de_reader = encoded, de_raw_position = 0\<rparr> [(0, 0)] stride 0 []) (\<lambda>(checkpoints, len, parts).
      Inr (\<lparr>bd_encoded = encoded, bd_checkpoints = checkpoints, bd_len = len\<rparr>, sha256 E parts, sha384 E parts)))"

text \<open>The stream of a range: what it yields until \<open>remaining\<close> bytes are out.\<close>

function stream_loop :: "deps \<Rightarrow> Decoder \<Rightarrow> nat \<Rightarrow> nat \<Rightarrow> bytes list res" where
  "stream_loop E d skip remaining =
     (if remaining = 0 then Inr []
      else bindE (decoder_next E d) (\<lambda>(block, d). case block of
          None \<Rightarrow> Inl (Fail STR ''truncated decoded JSON payload'')
        | Some bytes \<Rightarrow>
            if length bytes \<le> skip then stream_loop E d (skip - length bytes) remaining
            else
              let count = min (length bytes - skip) remaining in
              bindE (stream_loop E d 0 (remaining - count)) (\<lambda>rest. Inr (sub_bytes bytes skip (skip + count) # rest))))"
  by pat_completeness auto
termination
  by (relation "measure (\<lambda>(E, d, s, r). length (de_reader d))") (auto dest: decoder_next_shorter)

declare stream_loop.simps [simp del]

definition base64_stream :: "deps \<Rightarrow> Base64Data \<Rightarrow> nat \<Rightarrow> nat \<Rightarrow> bytes list res" where
  "base64_stream E b offset len =
     (let index = length (takeWhile (\<lambda>(_, decoded). decoded \<le> offset) (bd_checkpoints b)) - 1 in
      bindE (nthE (bd_checkpoints b) index) (\<lambda>(raw, decoded).
      bindE (content_slice (bd_encoded b) raw (length (bd_encoded b))) (\<lambda>content.
      bindE (subE offset decoded) (\<lambda>skip.
      stream_loop E \<lparr>de_reader = content, de_raw_position = 0\<rparr> skip len))))"

section \<open>Verification of an entry\<close>

text \<open>The derived \<open>Deserialize\<close> of \<open>JsonTag\<close> with unknown kept denied: name and value.\<close>

fun json_tag :: "json \<Rightarrow> (str \<times> str) option" where
  "json_tag (JObject fs) =
     (if distinct (map fst fs) \<and> (\<forall>k \<in> set (map fst fs). k = ''name'' \<or> k = ''value'') then
        Option.bind (Option.bind (map_of fs ''name'') as_str) (\<lambda>n.
        Option.bind (Option.bind (map_of fs ''value'') as_str) (\<lambda>v. Some (n, v)))
      else None)"
| "json_tag (JArray [JString n, JString v]) = Some (n, v)"
| "json_tag _ = None"

definition json_tags :: "reader_of_text \<Rightarrow> str \<Rightarrow> (str \<times> str) list option" where
  "json_tags J raw = Option.bind (Option.bind (J raw) as_array) (\<lambda>ts. all_some (map json_tag ts))"

definition value_string :: "reader_of_text \<Rightarrow> Fields \<Rightarrow> str \<Rightarrow> str res" where
  "value_string J kept name =
     bindE (contextE (map_of (fd_values kept) name) (STR ''missing JSON item '' + String.implode name)) (\<lambda>raw.
     contextE (raw_string J raw) STR ''invalid JSON string'')"

definition json_item_tag :: "deps \<Rightarrow> str \<times> str \<Rightarrow> ItemTag res" where
  "json_item_tag E t =
     bindE (decode_b64 E (fst t) STR ''JSON tag name'') (\<lambda>name.
     bindE (decode_b64 E (snd t) STR ''JSON tag value'') (\<lambda>val.
     ensure (name \<noteq> [] \<and> length name \<le> 1024 \<and> val \<noteq> [] \<and> length val \<le> 3072) STR ''invalid JSON tag size''
     (Inr \<lparr>it_name = name, it_value = val\<rparr>)))"

definition json_parsed ::
  "deps \<Rightarrow> reader_of_text \<Rightarrow> Fields \<Rightarrow> bytes \<Rightarrow> (bytes \<times> bytes \<times> bytes \<times> bytes \<times> ItemTag list) res" where
  "json_parsed E J kept i =
     bindE (bindE (value_string J kept ''owner'') (\<lambda>s. decode_b64 E s STR ''JSON owner'')) (\<lambda>owner.
     bindE (bindE (value_string J kept ''signature'') (\<lambda>s. decode_b64 E s STR ''JSON signature'')) (\<lambda>signature.
     bindE (bindE (value_string J kept ''target'') (\<lambda>s. decode_b64 E s STR ''JSON target'')) (\<lambda>target.
     bindE (case map_of (fd_values kept) ''nonce'' of
         Some raw \<Rightarrow> bindE (contextE (raw_string J raw) STR ''invalid JSON string'') (\<lambda>s. decode_b64 E s STR ''JSON nonce'')
       | None \<Rightarrow> Inr []) (\<lambda>anchor.
     ensure (owner \<noteq> [] \<and> length owner \<le> 1025 \<and> signature \<noteq> [] \<and> length signature \<le> 2052)
       STR ''invalid JSON RSA key or signature size''
     (ensure (sha256 E [signature] = i) STR ''JSON item signature hash differs from ID''
     (bindE (contextE (map_of (fd_values kept) ''tags'') STR ''missing JSON tags'') (\<lambda>raw.
      bindE (contextE (json_tags J raw) STR ''invalid JSON tags'') (\<lambda>encoded.
      ensure (length encoded \<le> MAX_DATA_ITEM_TAGS) STR ''too many JSON item tags''
      (bindE (mapE (json_item_tag E) encoded) (\<lambda>tags.
       Inr (owner, signature, target, anchor, tags)))))))))))"

definition is_ascii_whitespace :: "byte \<Rightarrow> bool" where
  "is_ascii_whitespace b \<longleftrightarrow> b = 32 \<or> b = 9 \<or> b = 10 \<or> b = 12 \<or> b = 13"

text \<open>The loop that skips the whitespace before the data, block by block.\<close>

function skip_whitespace :: "bytes \<Rightarrow> nat \<Rightarrow> nat \<Rightarrow> nat res" where
  "skip_whitespace source start end =
     (if start < end then
        bindE (content_read_at source start (min (end - start) DECODE_BLOCK)) (\<lambda>bytes.
        let skipped = length (takeWhile is_ascii_whitespace bytes) in
        if skipped < length bytes then Inr (start + skipped)
        else skip_whitespace source (start + skipped) end)
      else Inr start)"
  by pat_completeness auto
termination
proof (relation "measure (\<lambda>(s, a, e). e - a)", simp, clarsimp)
  fix source :: bytes and start "end" :: nat and bs
  assume a: "start < end" "content_read_at source start (min (end - start) DECODE_BLOCK) = Inr bs"
    "\<not> length (takeWhile is_ascii_whitespace bs) < length bs"
  then have "length bs = min (end - start) DECODE_BLOCK"
    by (auto simp: content_read_at_def content_slice_def res_simps)
  then have "0 < length bs" using a(1) by (simp add: DECODE_BLOCK_def)
  then show "end - (start + length (takeWhile is_ascii_whitespace bs)) < end - start"
    using a(1,3) by linarith
qed

declare skip_whitespace.simps [simp del]

definition json_payload :: "deps \<Rightarrow> bytes \<Rightarrow> bytes \<Rightarrow> bytes \<Rightarrow> ItemTag list \<Rightarrow> bytes \<Rightarrow> bytes" where
  "json_payload E owner target anchor tags data_hash =
     (let tag_hashes = map (\<lambda>t. deep_hash_list E [deep_hash_blob E (it_name t), deep_hash_blob E (it_value t)]) tags in
      deep_hash_list E [deep_hash_blob E (as_bytes ''dataitem''), deep_hash_blob E (as_bytes ''1''), deep_hash_blob E owner,
        deep_hash_blob E target, deep_hash_blob E anchor, deep_hash_list E tag_hashes, data_hash])"

text \<open>The span of the data without its quotes, and where it starts; \<open>None\<close> when it is no string.\<close>

definition data_span :: "JsonEntry \<Rightarrow> nat \<times> nat \<Rightarrow> (nat \<times> bytes) option res" where
  "data_span e span =
     bindE (skip_whitespace (je_source e) (fst span) (snd span)) (\<lambda>start.
     if start \<ge> snd span then Inr None
     else
       bindE (bindE (content_read_at (je_source e) start 1) (\<lambda>b. nthE b 0)) (\<lambda>opening.
       if opening \<noteq> 34 then Inr None
       else
         bindE (subE (snd span) 1) (\<lambda>last_at.
         bindE (bindE (content_read_at (je_source e) last_at 1) (\<lambda>b. nthE b 0)) (\<lambda>closing.
         if closing \<noteq> 34 then Inr None
         else
           bindE (addE USIZE start 1) (\<lambda>first.
           bindE (subE first (je_offset e)) (\<lambda>data_offset.
           bindE (content_slice (je_source e) first last_at) (\<lambda>encoded.
           Inr (Some (data_offset, encoded)))))))))"

text \<open>The data of the result is the decoded view; \<open>payload\<close> below is what it reads as.\<close>

definition json_verify ::
  "deps \<Rightarrow> signers \<Rightarrow> reader_of_text \<Rightarrow> JsonEntry \<Rightarrow> (VerifiedItem \<times> Base64Data) option res" where
  "json_verify E S J e =
     (case (fd_invalid (je_fields e), je_id e, fd_data (je_fields e)) of
        (False, Some i, Some span) \<Rightarrow>
          (case json_parsed E J (je_fields e) i of
             Inl Panic \<Rightarrow> Inl Panic
           | Inl (Fail _) \<Rightarrow> Inr None
           | Inr (owner, signature, target, anchor, tags) \<Rightarrow>
               bindE (data_span e span) (\<lambda>found. case found of
                 None \<Rightarrow> Inr None
               | Some (data_offset, encoded) \<Rightarrow>
                   (case base64_scan E encoded of
                      Inl err \<Rightarrow> if err = invalid_item then Inr None else Inl err
                    | Inr (source, body_hash, body_sha384) \<Rightarrow>
                        let data_hash = sha384 E [sha384 E [as_bytes (''blob'' @ show_nat (bd_len source))], body_sha384];
                            payload = json_payload E owner target anchor tags data_hash in
                        (case verify_rsa_pss E S owner signature payload STR ''JSON item'' of
                           Inl Panic \<Rightarrow> Inl Panic
                         | Inl (Fail _) \<Rightarrow> Inr None
                         | Inr _ \<Rightarrow>
                             bindE (bindE (base64_stream E source 0 (bd_len source)) (\<lambda>parts. Inr (concat parts))) (\<lambda>data.
                             Inr (Some (\<lparr>vi_data = data, vi_data_offset = data_offset, vi_item_size = je_size e,
                               vi_body_hash = body_hash, vi_signature_type = 1, vi_signature = signature, vi_owner = owner,
                               vi_target = target, vi_anchor = anchor, vi_tags = tags\<rparr>, source)))))))
      | _ \<Rightarrow> Inr None)"

end
