(* ===== verification/Bundle.thy ===== *)
theory Bundle
  imports JsonItem
begin

text \<open>
  Bundles, \<open>src/src/lib.rs\<close>: the format named by the tags, the table of a binary bundle read in blocks
  of 256 entries, the check of one item of a bundle of either format, the walk along an indexed path
  of nested bundles; and the traversal of \<open>src/src/indexer.rs\<close> that lists what a root holds.
\<close>

section \<open>Formats\<close>

datatype BundleFormat = Binary | Json

definition format_step :: "bool \<times> bool \<times> bool \<times> bool \<Rightarrow> bytes \<times> bytes \<Rightarrow> bool \<times> bool \<times> bool \<times> bool" where
  "format_step flags tag = (case (flags, tag) of ((binary, json, v1, v2), (name, val)) \<Rightarrow>
     if eq_ignore_ascii_case name (as_bytes ''Bundle-Format'') then
       (binary \<or> val = as_bytes ''binary'', json \<or> val = as_bytes ''json'', v1, v2)
     else if eq_ignore_ascii_case name (as_bytes ''Bundle-Version'') then
       (binary, json, v1 \<or> val = as_bytes ''1.0.0'', v2 \<or> val = as_bytes ''2.0.0'')
     else flags)"

definition from_pairs :: "(bytes \<times> bytes) list \<Rightarrow> BundleFormat res" where
  "from_pairs tags = (case foldl format_step (False, False, False, False) tags of (binary, json, v1, v2) \<Rightarrow>
     (case (binary \<and> v2, json \<and> v1) of
        (True, False) \<Rightarrow> Inr Binary
      | (False, True) \<Rightarrow> Inr Json
      | _ \<Rightarrow> Inl (Fail STR ''unsupported or ambiguous bundle format/version'')))"

definition require_bundle_tags :: "deps \<Rightarrow> Tag list \<Rightarrow> BundleFormat res" where
  "require_bundle_tags E tags =
     bindE (mapE (\<lambda>tag.
       bindE (decode_b64 E (tag_name tag) STR ''tag name'') (\<lambda>n.
       bindE (decode_b64 E (tag_value tag) STR ''tag value'') (\<lambda>v. Inr (n, v)))) tags) (\<lambda>decoded.
     from_pairs decoded)"

definition bundle_format :: "VerifiedItem \<Rightarrow> BundleFormat option" where
  "bundle_format item = (case from_pairs (item_pairs (vi_tags item)) of Inr f \<Rightarrow> Some f | Inl _ \<Rightarrow> None)"

section \<open>The items of a bundle\<close>

text \<open>What \<open>serde_json\<close> makes of a text: the root object's events, or the failure to read one.\<close>

datatype root_event =
    RootFailed error
  | RootMap nat "(str \<times> nat \<times> root_value) list" "error + nat" "error option"

record json_reader =
  jr_text :: reader_of_text
  jr_events :: "bytes \<Rightarrow> root_event"

definition json_bundle_new :: "deps \<Rightarrow> json_reader \<Rightarrow> bytes \<Rightarrow> JsonBundle" where
  "json_bundle_new E J content = (case jr_events J content of
     RootFailed e \<Rightarrow> ([], Some e)
   | RootMap at kvs closed trailing \<Rightarrow> (case root_messages E (jr_text J) content False at kvs closed of
       (es, Some e) \<Rightarrow> (es, Some e)
     | (es, None) \<Rightarrow> (es, trailing)))"

datatype BundleEntry = BinaryEntry bytes bytes nat | JsonItem JsonEntry

fun entry_id :: "BundleEntry \<Rightarrow> bytes option" where
  "entry_id (BinaryEntry i bs offset) = Some i"
| "entry_id (JsonItem e) = je_id e"

fun entry_offset :: "BundleEntry \<Rightarrow> nat" where
  "entry_offset (BinaryEntry i bs offset) = offset"
| "entry_offset (JsonItem e) = je_offset e"

fun is_json :: "BundleEntry \<Rightarrow> bool" where
  "is_json (JsonItem e) = True"
| "is_json _ = False"

record BinaryBundleItems =
  bb_bundle :: bytes
  bb_remaining :: nat
  bb_cursor :: nat
  bb_item_start :: nat
  bb_table :: bytes

definition binary_new :: "bytes \<Rightarrow> BinaryBundleItems res" where
  "binary_new bundle =
     bindE (with_context (content_read_at bundle 0 32) STR ''Could not read bundle header'') (\<lambda>header.
     bindE (read_u256_usize header STR ''bundle item count'') (\<lambda>n.
     bindE (subE (length bundle) 32) (\<lambda>room.
     ensure (n \<le> room div BUNDLE_ENTRY_SIZE) STR ''bundle item table exceeds parent bounds''
     (bindE (mulE USIZE n BUNDLE_ENTRY_SIZE) (\<lambda>table.
      bindE (addE USIZE 32 table) (\<lambda>item_start.
      ensure (n \<noteq> 0 \<or> item_start = length bundle) STR ''empty bundle contains trailing data''
      (Inr \<lparr>bb_bundle = bundle, bb_remaining = n, bb_cursor = 32, bb_item_start = item_start, bb_table = []\<rparr>)))))))"

definition binary_next :: "BinaryBundleItems \<Rightarrow> (BundleEntry option \<times> BinaryBundleItems) res" where
  "binary_next s =
     (if bb_remaining s = 0 then Inr (None, s)
      else
        bindE (if bb_table s = []
               then content_read_at (bb_bundle s) (bb_cursor s) (min (bb_remaining s) 256 * BUNDLE_ENTRY_SIZE)
               else Inr (bb_table s)) (\<lambda>table.
        bindE (slice table 0 BUNDLE_ENTRY_SIZE) (\<lambda>header.
        bindE (addE USIZE (bb_cursor s) BUNDLE_ENTRY_SIZE) (\<lambda>cursor.
        bindE (read_u256_usize (take 32 header) STR ''bundle item size'') (\<lambda>n.
        ensure (n > 0) STR ''bundle contains an empty item''
        (bindE (contextE (checked_add USIZE (bb_item_start s) n) STR ''bundle item offset overflow'') (\<lambda>end.
         ensure (end \<le> length (bb_bundle s)) STR ''bundle item exceeds parent bounds''
         (bindE (subE (bb_remaining s) 1) (\<lambda>remaining.
          ensure (remaining = 0 \<longrightarrow> end = length (bb_bundle s)) STR ''bundle item sizes do not consume the parent''
          (bindE (content_slice (bb_bundle s) (bb_item_start s) end) (\<lambda>bs.
           Inr (Some (BinaryEntry (drop 32 header) bs (bb_item_start s)),
                s\<lparr>bb_remaining := remaining, bb_cursor := cursor, bb_item_start := end,
                  bb_table := drop BUNDLE_ENTRY_SIZE table\<rparr>))))))))))))"

datatype BundleItems = BinaryItems BinaryBundleItems | JsonItems JsonBundle

definition items_new :: "deps \<Rightarrow> json_reader \<Rightarrow> bytes \<Rightarrow> BundleFormat \<Rightarrow> BundleItems res" where
  "items_new E J bundle format = (case format of
     Binary \<Rightarrow> bindE (binary_new bundle) (\<lambda>b. Inr (BinaryItems b))
   | Json \<Rightarrow> Inr (JsonItems (json_bundle_new E J bundle)))"

fun items_next :: "BundleItems \<Rightarrow> (BundleEntry option \<times> BundleItems) res" where
  "items_next (BinaryItems b) = bindE (binary_next b) (\<lambda>(e, b). Inr (e, BinaryItems b))"
| "items_next (JsonItems b) = bindE (json_next b) (\<lambda>(e, b). Inr (map_option JsonItem e, JsonItems b))"

text \<open>What is left to read; every entry takes one away.\<close>

fun items_left :: "BundleItems \<Rightarrow> nat" where
  "items_left (BinaryItems b) = bb_remaining b"
| "items_left (JsonItems b) = length (fst b)"

lemma items_next_left: "items_next s = Inr (Some e, s') \<Longrightarrow> items_left s = Suc (items_left s')"
  by (cases s) (auto simp: binary_next_def json_next_def res_simps split: if_splits list.splits option.splits prod.splits)

text \<open>The loop of \<open>BundleItems::checked\<close>.\<close>

function drain :: "BundleItems \<Rightarrow> unit res" where
  "drain s = bindE (items_next s) (\<lambda>(e, s'). case e of None \<Rightarrow> Inr () | Some _ \<Rightarrow> drain s')"
  by pat_completeness auto
termination by (relation "measure items_left") (auto dest: items_next_left)

declare drain.simps [simp del]

definition items_checked :: "deps \<Rightarrow> json_reader \<Rightarrow> bytes \<Rightarrow> BundleFormat \<Rightarrow> BundleItems res" where
  "items_checked E J bundle format =
     bindE (items_new E J bundle format) (\<lambda>framing.
     bindE (drain framing) (\<lambda>_. items_new E J bundle format))"

section \<open>One item of a bundle\<close>

definition matches_signature_id :: "deps \<Rightarrow> BundleEntry \<Rightarrow> bytes \<Rightarrow> bool res" where
  "matches_signature_id E entry expected_id = (case entry of
     JsonItem _ \<Rightarrow> Inr False
   | BinaryEntry _ bs _ \<Rightarrow>
       if length bs < 2 then Inr False
       else
         bindE (content_read_at bs 0 (min (length bs) 514)) (\<lambda>prefix.
         let signature_type = le_nat (take 2 prefix) in
         (case data_item_signature_sizes signature_type of
            Inl _ \<Rightarrow> Inr False
          | Inr (signature_size, _) \<Rightarrow>
              if length bs < 2 + signature_size then Inr False
              else
                bindE (if 2 + signature_size \<le> length prefix then slice prefix 2 (2 + signature_size)
                       else content_read_at bs 2 signature_size) (\<lambda>signature.
                Inr (sha256 E [signature] = expected_id)))))"

definition MAX_JSON_BYTES :: nat where "MAX_JSON_BYTES = 1024 * 1024"

definition checked_data_size :: "nat \<Rightarrow> nat \<Rightarrow> nat res" where
  "checked_data_size data_size maximum =
     ensure (data_size \<le> maximum) STR ''transaction exceeds configured data size limit''
     (ensure (data_size < USIZE) STR ''transaction is too large'' (Inr data_size))"

text \<open>
  \<open>materialize\<close> is the gateway's \<open>max_data_size\<close>, when it is given: moving the bytes to memory or to
  the spool keeps the view.
\<close>

definition entry_verify ::
  "deps \<Rightarrow> signers \<Rightarrow> curves \<Rightarrow> json_reader \<Rightarrow> nat option \<Rightarrow> BundleEntry \<Rightarrow> VerifiedItem option res" where
  "entry_verify E S C J materialize entry = (case entry of
     BinaryEntry i bs _ \<Rightarrow>
       ensure (case materialize of None \<Rightarrow> True
           | Some max_data_size \<Rightarrow> length bs \<le> saturating_add USIZE max_data_size MAX_DATA_ITEM_HEADER_BYTES)
         STR ''data item exceeds configured data size limit''
       (bindE (verify_data_item E S C bs i) (\<lambda>item. Inr (Some item)))
   | JsonItem e \<Rightarrow>
       ensure (case materialize of None \<Rightarrow> True
           | Some max_data_size \<Rightarrow> je_size e \<le> saturating_add USIZE (saturating_mul USIZE max_data_size 8) MAX_JSON_BYTES)
         STR ''JSON item exceeds configured data size limit''
       (bindE (json_verify E S (jr_text J) e) (\<lambda>found. case found of
          None \<Rightarrow> Inr None
        | Some (item, _) \<Rightarrow> (case materialize of
            None \<Rightarrow> Inr (Some item)
          | Some max_data_size \<Rightarrow>
              bindE (checked_data_size (length (vi_data item)) max_data_size) (\<lambda>_. Inr (Some item))))))"

text \<open>Whether the entry is tried: at the expected offset, or under the expected id.\<close>

definition entry_wanted ::
  "deps \<Rightarrow> bytes \<Rightarrow> nat option \<Rightarrow> bool \<Rightarrow> BundleEntry \<Rightarrow> bool res" where
  "entry_wanted E expected_id expected_offset signature_lookup entry = (case expected_offset of
     Some expected \<Rightarrow> Inr (expected = entry_offset entry)
   | None \<Rightarrow>
       if signature_lookup then matches_signature_id E entry expected_id
       else Inr (entry_id entry = Some expected_id))"

definition try_entry ::
  "deps \<Rightarrow> signers \<Rightarrow> curves \<Rightarrow> json_reader \<Rightarrow> nat option \<Rightarrow> bytes \<Rightarrow> BundleEntry \<Rightarrow> (VerifiedItem \<times> nat) option res" where
  "try_entry E S C J materialize expected_id entry =
     bindE (entry_verify E S C J materialize entry) (\<lambda>item. case item of
       None \<Rightarrow> Inr None
     | Some item \<Rightarrow>
         ensure (case entry_id entry of None \<Rightarrow> False | Some i \<Rightarrow> item_id E item i = expected_id)
           STR ''bundle item signed identity does not match requested ID''
         (Inr (Some (item, entry_offset entry))))"

text \<open>The loop over the entries: all of them are read, also after one is found.\<close>

function scan_items ::
  "deps \<Rightarrow> signers \<Rightarrow> curves \<Rightarrow> json_reader \<Rightarrow> nat option \<Rightarrow> bytes \<Rightarrow> nat option \<Rightarrow> bool \<Rightarrow>
   (VerifiedItem \<times> nat) option \<Rightarrow> BundleItems \<Rightarrow> (VerifiedItem \<times> nat) option res" where
  "scan_items E S C J materialize expected_id expected_offset signature_lookup found s =
     bindE (items_next s) (\<lambda>(entry, s'). case entry of
       None \<Rightarrow> Inr found
     | Some entry \<Rightarrow>
         if found \<noteq> None then scan_items E S C J materialize expected_id expected_offset signature_lookup found s'
         else
           bindE (entry_wanted E expected_id expected_offset signature_lookup entry) (\<lambda>wanted.
           bindE (if wanted then try_entry E S C J materialize expected_id entry else Inr None) (\<lambda>found.
           scan_items E S C J materialize expected_id expected_offset signature_lookup found s')))"
  by pat_completeness auto
termination by (relation "measure (\<lambda>(E, S, C, J, m, i, off, sl, f, s). items_left s)") (auto dest: items_next_left)

declare scan_items.simps [simp del]

definition verify_bundle_item ::
  "deps \<Rightarrow> signers \<Rightarrow> curves \<Rightarrow> json_reader \<Rightarrow> bytes \<Rightarrow> BundleFormat \<Rightarrow> bytes \<Rightarrow> nat option \<Rightarrow> nat option \<Rightarrow> (VerifiedItem \<times> nat) res" where
  "verify_bundle_item E S C J bundle format expected_id expected_offset materialize =
     bindE (items_new E J bundle format) (\<lambda>entries.
     bindE (scan_items E S C J materialize expected_id expected_offset False None entries) (\<lambda>found. case found of
       Some found \<Rightarrow> Inr found
     | None \<Rightarrow>
         bindE (if format \<noteq> Binary \<or> expected_offset \<noteq> None then Inr None
                else bindE (items_new E J bundle format) (\<lambda>entries.
                  scan_items E S C J materialize expected_id expected_offset True None entries)) (\<lambda>found. case found of
           Some found \<Rightarrow> Inr found
         | None \<Rightarrow> Inl (Fail STR ''valid data item is absent from verified parent at the expected offset''))))"

section \<open>An indexed path\<close>

definition MAX_BUNDLE_DEPTH :: nat where "MAX_BUNDLE_DEPTH = 32"

record BundleLocation =
  bl_id :: bytes
  bl_parent_id :: bytes
  bl_path :: "nat list"
  bl_item_offset :: nat
  bl_item_size :: nat
  bl_data_offset :: nat
  bl_json :: bool

record IndexedBundle =
  ib_root_id :: bytes
  ib_data_size :: nat
  ib_content_type :: "str option"
  ib_locations :: "BundleLocation list"

text \<open>The loop over the locations; the last one carries the requested item.\<close>

fun indexed_walk ::
  "deps \<Rightarrow> signers \<Rightarrow> curves \<Rightarrow> json_reader \<Rightarrow> bytes \<Rightarrow> nat \<Rightarrow> nat option \<Rightarrow> bytes \<Rightarrow> BundleFormat \<Rightarrow> bytes \<Rightarrow> nat list \<Rightarrow> BundleLocation list \<Rightarrow> VerifiedItem res" where
  "indexed_walk E S C J expected_id data_size materialize parent format parent_id path [] =
     Inl (Fail STR ''indexed bundle path is empty'')"
| "indexed_walk E S C J expected_id data_size materialize parent format parent_id path (location # locations) =
     ensure (bl_parent_id location = parent_id \<and> bl_json location = (format = Json))
       STR ''indexed bundle parent or format does not match authenticated path''
     (ensure (length (bl_id location) = 32) STR ''invalid indexed item ID''
     (bindE (verify_bundle_item E S C J parent format (bl_id location) (Some (bl_item_offset location))
               (if locations = [] then materialize else None)) (\<lambda>(item, offset).
      let path = path @ [offset] in
      ensure (bl_path location = path \<and> bl_data_offset location = vi_data_offset item \<and> bl_item_size location = vi_item_size item)
        STR ''indexed bundle path, offsets or size do not match authenticated item''
      (if locations = [] then
         ensure (bl_id location = expected_id) STR ''indexed path ends at a different item''
         (ensure (length (vi_data item) = data_size) STR ''indexed data size does not match authenticated payload''
         (Inr item))
       else
         bindE (contextE (bundle_format item) STR ''indexed ancestor is not a supported bundle'') (\<lambda>format.
         indexed_walk E S C J expected_id data_size materialize (vi_data item) format (bl_id location) path locations)))))"

definition verify_indexed_bundle ::
  "deps \<Rightarrow> signers \<Rightarrow> curves \<Rightarrow> json_reader \<Rightarrow> bytes \<Rightarrow> BundleFormat \<Rightarrow> bytes \<Rightarrow> IndexedBundle \<Rightarrow> nat option \<Rightarrow> VerifiedItem res" where
  "verify_indexed_bundle E S C J root format expected_id indexed materialize =
     ensure (length (ib_root_id indexed) = 32 \<and> 1 \<le> length (ib_locations indexed) \<and> length (ib_locations indexed) \<le> MAX_BUNDLE_DEPTH)
       STR ''invalid indexed bundle path''
     (indexed_walk E S C J expected_id (ib_data_size indexed) materialize root format (ib_root_id indexed) [] (ib_locations indexed))"

end
