(* ===== verification/Traversal.thy ===== *)
theory Traversal
  imports Bundle
begin

text \<open>
  The traversal of \<open>src/src/indexer.rs\<close> (\<open>BundleTraversal\<close>): a depth-first walk over the nested bundles
  of a root with an explicit stack of frames, the top one first here, that lists the items the
  index filter keeps.
\<close>

definition filter_keeps :: "IndexFilter \<Rightarrow> nat \<Rightarrow> bytes option \<Rightarrow> ItemTag list \<Rightarrow> bool" where
  "filter_keeps f height owner tags =
     (let nested_bundle = (case from_pairs (item_pairs tags) of Inr _ \<Rightarrow> True | Inl _ \<Rightarrow> False) in
      nested_bundle \<or> filter_matches f (case owner of None \<Rightarrow> [] | Some address \<Rightarrow> address) tags height)"

record BundleFrame =
  bf_items :: BundleItems
  bf_id :: bytes
  bf_path :: "nat list"
  bf_pending :: "BundleEntry option"

definition traversal_new :: "deps \<Rightarrow> json_reader \<Rightarrow> bytes \<Rightarrow> bytes \<Rightarrow> BundleFormat \<Rightarrow> BundleFrame list res" where
  "traversal_new E J root root_id format =
     bindE (items_checked E J root format) (\<lambda>items.
     Inr [\<lparr>bf_items = items, bf_id = root_id, bf_path = [], bf_pending = None\<rparr>])"

text \<open>The pending entry, or the next one.\<close>

definition frame_next :: "BundleFrame \<Rightarrow> (BundleEntry option \<times> BundleFrame) res" where
  "frame_next parent = (case bf_pending parent of
     Some entry \<Rightarrow> Inr (Some entry, parent\<lparr>bf_pending := None\<rparr>)
   | None \<Rightarrow> bindE (items_next (bf_items parent)) (\<lambda>(entry, items). Inr (entry, parent\<lparr>bf_items := items\<rparr>)))"

text \<open>An entry's item, unless the filter rejects it or a JSON item is invalid.\<close>

definition examine ::
  "deps \<Rightarrow> signers \<Rightarrow> curves \<Rightarrow> json_reader \<Rightarrow> IndexFilter \<Rightarrow> nat \<Rightarrow> BundleEntry \<Rightarrow> bytes \<Rightarrow> VerifiedItem option res" where
  "examine E S C J f height entry i = (case entry of
     BinaryEntry _ bs _ \<Rightarrow>
       bindE (read_data_item_header E bs i) (\<lambda>header.
       if \<not> filter_keeps f height (owner_address E header) (dh_tags header) then Inr None
       else bindE (verify_data_item_header E S C bs header i) (\<lambda>item. Inr (Some item)))
   | JsonItem _ \<Rightarrow>
       bindE (entry_verify E S C J None entry) (\<lambda>item. case item of
         None \<Rightarrow> Inr None
       | Some item \<Rightarrow>
           let owner = (if vi_owner item \<noteq> [] then Some (sha256 E [vi_owner item]) else None) in
           if \<not> filter_keeps f height owner (vi_tags item) then Inr None else Inr (Some item)))"

definition item_location :: "BundleFrame \<Rightarrow> BundleEntry \<Rightarrow> VerifiedItem \<Rightarrow> bytes \<Rightarrow> BundleLocation" where
  "item_location parent entry item i =
     \<lparr>bl_id = i, bl_parent_id = bf_id parent, bl_path = bf_path parent @ [entry_offset entry],
      bl_item_offset = entry_offset entry, bl_item_size = vi_item_size item,
      bl_data_offset = vi_data_offset item, bl_json = is_json entry\<rparr>"

text \<open>A nested bundle with at least one entry is pushed, its first entry pending.\<close>

definition push_nested ::
  "deps \<Rightarrow> json_reader \<Rightarrow> VerifiedItem \<Rightarrow> bytes \<Rightarrow> nat list \<Rightarrow> BundleFrame list \<Rightarrow> BundleFrame list res" where
  "push_nested E J item i path stack = (case bundle_format item of
     None \<Rightarrow> Inr stack
   | Some format \<Rightarrow>
       bindE (items_checked E J (vi_data item) format) (\<lambda>items.
       bindE (items_next items) (\<lambda>(first, items). case first of
         None \<Rightarrow> Inr stack
       | Some first \<Rightarrow>
           ensure (length stack < MAX_BUNDLE_DEPTH) STR ''nested bundle exceeds maximum depth 32''
           (Inr (\<lparr>bf_items = items, bf_id = i, bf_path = path, bf_pending = Some first\<rparr> # stack)))))"

definition frame_left :: "BundleFrame \<Rightarrow> nat" where
  "frame_left fr = items_left (bf_items fr) + (if bf_pending fr = None then 0 else 1)"

lemma frame_next_left: "frame_next fr = Inr (Some e, fr') \<Longrightarrow> frame_left fr = Suc (frame_left fr')"
  by (auto simp: frame_next_def frame_left_def res_simps dest: items_next_left split: option.splits)

function next_matching ::
  "deps \<Rightarrow> signers \<Rightarrow> curves \<Rightarrow> json_reader \<Rightarrow> IndexFilter \<Rightarrow> nat \<Rightarrow> BundleFrame list \<Rightarrow>
   ((ObjectMetadata \<times> BundleLocation) option \<times> BundleFrame list) res" where
  "next_matching E S C J f height [] = Inr (None, [])"
| "next_matching E S C J f height (parent # below) =
     bindE (frame_next parent) (\<lambda>(entry, parent). case entry of
       None \<Rightarrow> next_matching E S C J f height below
     | Some entry \<Rightarrow> (case entry_id entry of
         None \<Rightarrow> next_matching E S C J f height (parent # below)
       | Some header_id \<Rightarrow>
           bindE (examine E S C J f height entry header_id) (\<lambda>item. case item of
             None \<Rightarrow> next_matching E S C J f height (parent # below)
           | Some item \<Rightarrow>
               let i = item_id E item header_id;
                   location = item_location parent entry item i in
               bindE (push_nested E J item i (bl_path location) (parent # below)) (\<lambda>stack.
               Inr (Some (item_metadata E item i, location), stack)))))"
  by pat_completeness auto
termination
  by (relation "measure (\<lambda>(E, S, C, J, f, h, st). length st + sum_list (map frame_left st))")
    (auto dest: frame_next_left)

text \<open>
  \<open>next_bundle_batch\<close>: up to \<open>n\<close> more items, and whether the traversal is complete; then the batches
  \<open>persist_bundle\<close> commits, in order, for at most \<open>fuel\<close> batches, up to the last one or an error.
\<close>

fun next_bundle_batch ::
  "deps \<Rightarrow> signers \<Rightarrow> curves \<Rightarrow> json_reader \<Rightarrow> IndexFilter \<Rightarrow> nat \<Rightarrow> nat \<Rightarrow> BundleFrame list \<Rightarrow>
   ((ObjectMetadata list \<times> BundleLocation list \<times> bool) \<times> BundleFrame list) res" where
  "next_bundle_batch E S C J f height 0 stack = Inr (([], [], False), stack)"
| "next_bundle_batch E S C J f height (Suc n) stack =
     bindE (next_matching E S C J f height stack) (\<lambda>(found, stack). case found of
       None \<Rightarrow> Inr (([], [], True), stack)
     | Some (object, location) \<Rightarrow>
         bindE (next_bundle_batch E S C J f height n stack) (\<lambda>((objects, locations, complete), stack).
         Inr ((object # objects, location # locations, complete), stack)))"

fun persist_batches ::
  "deps \<Rightarrow> signers \<Rightarrow> curves \<Rightarrow> json_reader \<Rightarrow> IndexFilter \<Rightarrow> nat \<Rightarrow> nat \<Rightarrow> nat \<Rightarrow> BundleFrame list \<Rightarrow>
   ((ObjectMetadata list \<times> BundleLocation list) list \<times> error option) option" where
  "persist_batches E S C J f height batch_size 0 stack = None"
| "persist_batches E S C J f height batch_size (Suc fuel) stack =
     (case next_bundle_batch E S C J f height batch_size stack of
        Inl e \<Rightarrow> Some ([], Some e)
      | Inr ((objects, locations, complete), stack) \<Rightarrow>
          if complete then Some ([(objects, locations)], None)
          else map_option (\<lambda>(batches, failed). ((objects, locations) # batches, failed))
                 (persist_batches E S C J f height batch_size fuel stack))"

end
