(* ===== verification/TxProofs.thy ===== *)
theory TxProofs
  imports TxRoot ChunkProofs HeaderProofs
begin

text \<open>
  The promises of the transaction tree of \<open>src/src/transactions.rs\<close>: the in-place builder against
  its functional reference, the data paths of inline data, and the agreement of a verified block
  with the transaction paths of theory \<open>Merkle\<close>, in both directions: every byte of a verified
  block has an accepted path, and an accepted path names a transaction of the block.
\<close>

section \<open>Inline data\<close>

text \<open>The leaves of inline data, and the data path of one of its bytes.\<close>

definition inline_leaves :: "deps \<Rightarrow> bytes \<Rightarrow> (bytes \<times> nat) list" where
  "inline_leaves E data =
     map (\<lambda>i. (sha256 E [sub_bytes data (i * MAX_CHUNK_SIZE) (min (i * MAX_CHUNK_SIZE + MAX_CHUNK_SIZE) (length data))],
               min (i * MAX_CHUNK_SIZE + MAX_CHUNK_SIZE) (length data)))
       [0..<Suc (length data div MAX_CHUNK_SIZE)]"

definition inline_proof :: "deps \<Rightarrow> bytes \<Rightarrow> nat \<Rightarrow> bytes" where
  "inline_proof E data rel = tree_proof E rel (row_tree (inline_leaves E data))"

lemma chunk_pos [simp]: "0 < MAX_CHUNK_SIZE"
  by (simp add: MAX_CHUNK_SIZE_def)

lemma mapE_Inr: "(\<And>x. x \<in> set xs \<Longrightarrow> f x = Inr (g x)) \<Longrightarrow> mapE f xs = Inr (map g xs)"
  by (induction xs) auto

lemma inline_row_leaves: "inline_row E data = Inr (leaf_row E (inline_leaves E data))"
proof -
  have b: "i < Suc (length data div MAX_CHUNK_SIZE) \<Longrightarrow> i * MAX_CHUNK_SIZE \<le> length data" for i
    using less_eq_div_iff_mult_less_eq [of MAX_CHUNK_SIZE i "length data"] by simp
  show ?thesis
    unfolding inline_row_def inline_leaves_def
    by (subst mapE_Inr [where g = "\<lambda>s. (hash_leaf E (sha256 E [sub_bytes data s (min (s + MAX_CHUNK_SIZE) (length data))])
          (note_bytes (min (s + MAX_CHUNK_SIZE) (length data))), min (s + MAX_CHUNK_SIZE) (length data))"])
      (auto simp: Let_def b simp del: upt_Suc)
qed

lemma inline_leaves_ne: "inline_leaves E data \<noteq> []"
  by (simp add: inline_leaves_def del: upt_Suc)

lemma inline_data_root_tree: "inline_data_root E data = Inr (mhash E (row_tree (inline_leaves E data)))"
  using merkle_root_tree [OF inline_leaves_ne] by (simp add: inline_data_root_def inline_row_leaves)

lemma locate_chunks:
  assumes "0 < c" "i * c \<le> t" "t < len" "t div c < n"
  shows "locate t (i * c) (map (\<lambda>i. (g i, min (i * c + c) len)) [i..<n]) =
    Some (t div c * c, g (t div c), min (t div c * c + c) len)"
  using assms
proof (induction "n - i" arbitrary: i)
  case 0
  then show ?case using div_le_mono [of "i * c" t c] by simp
next
  case (Suc k)
  then have u: "[i..<n] = i # [Suc i..<n]" by (simp add: upt_conv_Cons)
  show ?case
  proof (cases "t < i * c + c")
    case True
    then have "t div c = i" using Suc.prems by (intro div_nat_eqI) (auto simp: mult.commute)
    then show ?thesis using True Suc.prems by (simp add: u)
  next
    case False
    then have "Suc i * c \<le> t" by simp
    moreover have "locate t (i * c) (map (\<lambda>i. (g i, min (i * c + c) len)) [i..<n]) =
        locate t (Suc i * c) (map (\<lambda>i. (g i, min (i * c + c) len)) [Suc i..<n])"
      using False Suc.prems by (simp add: u max_def min_def add.commute)
    moreover have "k = n - Suc i" using Suc.hyps(2) by simp
    ultimately show ?thesis using Suc.hyps(1) [of "Suc i"] Suc.prems by simp
  qed
qed

lemma inline_leaves_sorted: "sorted (map snd (inline_leaves E data))"
  unfolding inline_leaves_def map_map comp_def snd_conv
  by (rule sorted_map_mono [OF sorted_upt mono_onI]) (intro min.mono add_le_mono mult_le_mono1 order_refl)

lemma inline_leaves_end: "mend (row_tree (inline_leaves E data)) = length data"
proof -
  let ?n = "length data div MAX_CHUNK_SIZE"
  have "length data < Suc ?n * MAX_CHUNK_SIZE"
    using dividend_less_div_times [of MAX_CHUNK_SIZE "length data"] by simp
  then have "snd (last (inline_leaves E data)) = length data"
    by (simp add: inline_leaves_def add.commute)
  then show ?thesis
    using mleaves_last [of "row_tree (inline_leaves E data)"] merkle_root_tree [OF inline_leaves_ne, where E = E] by simp
qed

text \<open>Along the path of a leaf the right bound is the end of the leaf.\<close>

lemma tree_path_right_bound:
  assumes "tree_path E t T = (brs, d, e)" and "sorted (map snd (mleaves T))" and "mend T < U128"
    and "descend E t brs (mhash E T, lb, mend T, m) = Some (h, lb', rb', m')"
  shows "rb' = e"
  using assms
proof (induction T arbitrary: brs lb m)
  case (MBranch l r)
  note s = sorted_leaves [OF MBranch.prems(2)]
  have n: "note_to_u128 (note_bytes (mend l)) = Inr (mend l)" "min (mend r) (mend l) = mend l"
    using MBranch.prems(3) s by (simp_all add: note_to_u128_eq)
  obtain rr where p: "tree_path E t (if t < mend l then l else r) = (rr, d, e)"
    and brs: "brs = (mhash E l, mhash E r, note_bytes (mend l)) # rr"
    using MBranch.prems(1) by (cases "tree_path E t (if t < mend l then l else r)") (auto simp: Let_def)
  show ?case
  proof (cases "t < mend l")
    case True
    then have "tree_path E t l = (rr, d, e)" "descend E t rr (mhash E l, lb, mend l, Some False) = Some (h, lb', rb', m')"
      using p brs MBranch.prems(4) n by simp_all
    then show ?thesis using MBranch.IH(1) s MBranch.prems(3) by simp
  next
    case False
    then have "tree_path E t r = (rr, d, e)"
      "\<exists>m0. descend E t rr (mhash E r, max lb (mend l), mend r, m0) = Some (h, lb', rb', m')"
      using p brs MBranch.prems(4) n by auto
    then show ?thesis using MBranch.IH(2) s MBranch.prems(3) by auto
  qed
qed simp

text \<open>A parsed path whose leaf passes the border and split rules is accepted.\<close>

lemma walk_data_path_accepts:
  assumes "split_path path = (brs, d @ note_bytes e)" "length d = 32" "e < U128"
    and "descend E t brs (root, 0, sz, dc_is_rightmost ctx) = Some (hash_leaf E d (note_bytes e), lb, e, m)"
    and "0 < sz" "lb < e" "dc_left_shift ctx = 0"
    and "dc_check_borders ctx \<Longrightarrow> e - lb \<le> MAX_CHUNK_SIZE" "validate_split e lb e m ctx = Inr ()"
  shows "walk_data_path E root t 0 sz path ctx = Inr \<lparr>dp_start = lb, dp_end = e, dp_data_hash = d\<rparr>"
proof -
  have len: "length path = 96 * length brs + 64" using split_path_length [of path] assms(1,2) by simp
  have w: "data_walk E path t 0 root 0 sz (dc_is_rightmost ctx) = Inr (96 * length brs, hash_leaf E d (note_bytes e), lb, e, m)"
    using data_walk_refines [of 0 path, THEN iffD2] assms len by auto
  have "drop (96 * length brs) path = d @ note_bytes e"
    using split_path_rest [of "96 * length brs" path] assms(1,2) len by simp
  then have sub: "sub_bytes path (96 * length brs) (96 * length brs + 32) = d"
    "sub_bytes path (96 * length brs + 32) (96 * length brs + 64) = note_bytes e"
    using assms(2) by (auto simp: sub_bytes_def add.commute simp flip: drop_drop)
  have "max e (Suc lb) = e" using assms(6) by simp
  then show ?thesis
    unfolding walk_data_path_def size_defs
    using w sub len assms by (simp add: addE_def note_to_u128_eq)
qed

text \<open>What the split rules ask of a chunk of inline data.\<close>

lemma chunk_ends:
  fixes c :: nat
  assumes "rel < sz" "0 < c" "lb = rel div c * c" "e = min (lb + c) sz"
  shows "lb < e" "e \<le> sz" "e - lb \<le> c" "lb mod c = 0"
    "e - lb \<noteq> c \<Longrightarrow> e = sz \<and> e mod c \<noteq> 0 \<and> lb \<le> e div c * c"
proof -
  have b: "lb \<le> rel" "rel < lb + c"
    using assms(2,3) dividend_less_div_times [of c rel] by (simp_all add: div_times_less_eq_dividend)
  show "lb < e" "e \<le> sz" "e - lb \<le> c" "lb mod c = 0"
    using assms(1,2) b by (simp_all add: assms(4)) (simp add: assms(3))
  show "e - lb \<noteq> c \<Longrightarrow> e = sz \<and> e mod c \<noteq> 0 \<and> lb \<le> e div c * c"
  proof -
    assume n: "e - lb \<noteq> c"
    have "sz < lb + c" using n by (auto simp: assms(4) min_def split: if_splits)
    then have r: "e = sz" "e - lb < c" "0 < e - lb" using b assms(1) by (simp_all add: assms(4))
    have "k < c \<Longrightarrow> (k + rel div c * c) mod c = k \<and> (k + rel div c * c) div c = rel div c" for k by simp
    from this [OF r(2)] have "(e - lb + rel div c * c) mod c = e - lb" "(e - lb + rel div c * c) div c = rel div c"
      by blast+
    moreover have "e - lb + rel div c * c = e" using r assms(3) by simp
    ultimately show ?thesis using r assms(3) by simp
  qed
qed

lemma inline_chunk_split:
  assumes "rel < sz" "sz < U128" "lb = rel div MAX_CHUNK_SIZE * MAX_CHUNK_SIZE" "e = min (lb + MAX_CHUNK_SIZE) sz"
    and "dc_left_shift ctx = 0" "dc_data_size ctx = sz"
  shows "validate_split e lb e m ctx = Inr ()"
proof -
  note c = chunk_ends [OF assms(1) chunk_pos assms(3,4)]
  have u: "subE e lb = Inr (e - lb)" "addE U128 0 lb = Inr lb" "addE U128 0 e = Inr e"
    using c(1,2) assms(2) by (auto simp: subE_def addE_def)
  have ok: "lb \<le> e" "lb mod MAX_CHUNK_SIZE = 0" using c by simp_all
  show ?thesis
  proof (cases "dc_check_split ctx")
    case Strict
    show ?thesis
    proof (cases "e - lb = MAX_CHUNK_SIZE")
      case False
      show ?thesis using c(5) [OF False] ok(1) assms(6) False by (auto simp: validate_split_def Strict subE_def Let_def)
    qed (use ok in \<open>simp add: validate_split_def Strict u(1)\<close>)
  qed (use u ok assms(5) in \<open>simp_all add: validate_split_def\<close>)
qed

lemma locate_block_leaf:
  assumes "block_end h end pre \<le> t" "t < block_end h end pre + om_data_size ob"
  shows "locate t end (block_leaves h end (pre @ ob # post)) =
    Some (block_end h end pre, the (om_data_root ob), block_end h end pre + om_data_size ob)"
  using assms
proof (induction pre arbitrary: "end")
  case (Cons b pre)
  let ?e = "end + om_data_size b"
  let ?n = "if h \<ge> FORK_2_5_HEIGHT then ?e + padding (om_data_size b) else ?e"
  have "?n \<le> t" using Cons.prems block_end_ge [of ?n h pre] by (simp add: Let_def)
  then have "locate t end (block_leaves h end ((b # pre) @ ob # post)) = locate t ?n (block_leaves h ?n (pre @ ob # post))"
    by (auto simp: Let_def max_def split: if_splits)
  then show ?case using Cons by (simp add: Let_def)
qed (auto simp: Let_def)

section \<open>The sample block\<close>

definition s_object :: "bytes \<Rightarrow> bytes \<Rightarrow> nat \<Rightarrow> ObjectMetadata" where
  "s_object i root n = \<lparr>om_id = i, om_kind = 0, om_signature = [], om_anchor = [], om_owner_address = [],
     om_owner_public_key = [], om_target = [], om_data_size = n, om_content_type = None, om_content_encoding = None,
     om_signature_type = 1, om_format = Some 2, om_quantity = None, om_reward = None, om_denomination = None,
     om_data_root = Some root, om_tags = []\<rparr>"

definition s_first :: ObjectMetadata where "s_first = s_object (replicate 32 7) (replicate 32 9) 2"
definition s_second :: ObjectMetadata where "s_second = s_object (replicate 32 8) s_data_root 3"

definition s_tx_block :: BlockHeader where
  "s_tx_block = (s_header [] [])\<lparr>bh_height := 100, bh_txs := [hex (replicate 32 8), hex (replicate 32 7)],
     bh_block_size := show_nat 5, bh_tx_root := hex s_tx_root\<rparr>"

lemma s_tx_block_sel [simp]:
  "bh_height s_tx_block = 100" "bh_txs s_tx_block = [hex (replicate 32 8), hex (replicate 32 7)]"
  "bh_block_size s_tx_block = show_nat 5" "bh_tx_root s_tx_block = hex s_tx_root"
  by (simp_all add: s_tx_block_def)

lemma s_object_sel [simp]:
  "om_id s_first = replicate 32 7" "om_data_size s_first = 2" "om_data_root s_first = Some (replicate 32 9)"
  "om_id s_second = replicate 32 8" "om_data_size s_second = 3" "om_data_root s_second = Some s_data_root"
  "om_format s_first = Some 2" "om_format s_second = Some 2"
  by (simp_all add: s_first_def s_second_def s_object_def)

lemma s_pre_fork: "\<not> FORK_2_5_HEIGHT \<le> 100"
  by (simp add: FORK_2_5_HEIGHT_def)

lemma s_size_5: "parse_unsigned U128 (show_nat 5) = Some 5"
  by (rule parse_unsigned_show) (simp add: U128_value)

lemma s_ids_differ: "(replicate 32 (7 :: byte)) \<noteq> replicate 32 8"
  by (simp add: replicate_numeral)

lemma s_sorted: "sort_objects [s_second, s_first] = [s_first, s_second]"
  by (simp add: sort_objects_def sort_by_def replicate_numeral)

lemma s_nodes:
  "hash_leaf sample (replicate 32 9) (note_bytes (Suc (Suc 0))) = s_left"
  "hash_leaf sample s_data_root (note_bytes 5) = s_right"
  by (simp_all add: s_left_def s_right_def numeral_2_eq_2)

lemma s_leaf_nodes:
  "block_leaves 100 0 [s_first, s_second] = [(replicate 32 9, 2), (s_data_root, 5)]"
  by (simp add: s_pre_fork Let_def)

lemma s_root: "merkle_root sample [(s_left, Suc (Suc 0)), (s_right, 5)] = Some s_tx_root"
  by (simp add: merkle_root_def merkle_root_loop.simps merkle_pass_level s_tx_root_def numeral_2_eq_2)

lemma s_block_verified:
  "verify_block_data_root sample G s_tx_block [s_second, s_first] = Inr [s_first, s_second]"
proof -
  have "foldE (block_row_step sample 100) ([replicate 32 8, replicate 32 7], 0, []) [s_first, s_second] =
      Inr ([], 5, [(s_left, Suc (Suc 0)), (s_right, 5)])"
    using s_ids_differ by (simp add: block_row_step_def s_pre_fork checked_add_def U128_value Let_def s_nodes)
  then show ?thesis
    using s_ids_differ s_size_5
    by (simp add: verify_block_data_root_def decode_fixed_def MAX_BLOCK_TRANSACTIONS_def s_sorted parse_u128_def Let_def s_root)
qed

lemma sample_b64_decode: "x_b64_decode sample (hex bs) = Some bs"
  by (simp add: sample_def sample_decode_hex)

lemma s_row_tree: "row_tree (block_leaves 100 0 [s_first, s_second]) = MBranch (MLeaf (replicate 32 9) 2) (MLeaf s_data_root 5)"
  by (simp add: s_leaf_nodes row_tree_def build_tree.simps del: block_leaves.simps)

lemma s_left_leaf: "leaf_inputs sample (replicate 32 9) (note_bytes 2) =
    [replicate 32 9, note_bytes 2, (replicate 30 0 @ [77, 68]) @ (replicate 30 0 @ [140, 109])]"
  by (simp add: leaf_inputs_def s_small_hashes)

lemma s_tree_free:
  "collision_free sample (mtree_inputs sample (row_tree (block_leaves 100 0 [s_first, s_second])) @ path_inputs sample s_tx_path)"
proof -
  have "checksum (replicate 32 9) = 19780" "checksum ((replicate 30 0 @ [77, 68]) @ (replicate 30 0 @ [140, 109])) = 59900"
    by (simp_all add: checksum_def replicate_numeral)
  then have "collision_free sample ([replicate 32 9, (replicate 30 0 @ [77, 68]) @ (replicate 30 0 @ [140, 109])]
      @ path_inputs sample s_tx_path)"
    using s_checksums by (intro collision_free_sample) (simp add: s_path_inputs)
  then show ?thesis
    unfolding collision_free_def s_row_tree
    by (rule inj_on_subset) (simp add: s_left_leaf s_path_inputs branch_inputs_def leaf_inputs_def
        s_left_def [symmetric] s_right_def [symmetric] s_small_hashes)
qed

section \<open>The tree builder\<close>

text \<open>C8. The in-place builder computes the root of the purely functional construction: as long as a row has more
  than one node, \<open>merkle_root\<close> of the row is \<open>merkle_root\<close> of its nodes paired from the left into a fresh
  row, an odd last node carried over; a single node is the root and an empty row has none.\<close>

theorem merkle_root_reference:
  "merkle_root E [] = None \<and> merkle_root E [x] = Some (fst x)
    \<and> merkle_root E (x # y # row) = merkle_root E (merkle_level E (x # y # row))"
proof (intro conjI)
  show "merkle_root E [] = None" "merkle_root E [x] = Some (fst x)"
    by (simp_all add: merkle_root_def merkle_root_loop.simps)
  show "merkle_root E (x # y # row) = merkle_root E (merkle_level E (x # y # row))"
    unfolding merkle_root_def
    by (subst merkle_root_loop.simps) (simp add: merkle_pass_level)
qed

text \<open>Inline data is provable: under the root that \<open>inline_data_root\<close> computes, every byte of the data has a
  data path that \<open>validate_data_path\<close> accepts, at every absolute offset and so under each of the three split
  rules, and that names the byte's own 256 KiB chunk, its interval and its hash.  From the rebase threshold on
  the path must not open with 32 zero bytes, which would announce a rebased subtree.\<close>

theorem inline_data_root_complete:
  assumes "hash_widths E" and "length data < U128" and "rel < length data"
    and "\<not> rebased (MERKLE_REBASE_SUPPORT_THRESHOLD \<le> off) (inline_proof E data rel)"
  shows "\<exists>root. inline_data_root E data = Inr root \<and>
    validate_data_path E root (length data) rel off (inline_proof E data rel) =
      (let s = rel div MAX_CHUNK_SIZE * MAX_CHUNK_SIZE; e = min (s + MAX_CHUNK_SIZE) (length data)
       in Inr \<lparr>dp_start = s, dp_end = e, dp_data_hash = sha256 E [sub_bytes data s e]\<rparr>)"
proof -
  let ?ls = "inline_leaves E data" and ?n = "length data" and ?s = "rel div MAX_CHUNK_SIZE * MAX_CHUNK_SIZE"
  let ?T = "row_tree ?ls" and ?e = "min (?s + MAX_CHUNK_SIZE) ?n"
  let ?d = "sha256 E [sub_bytes data ?s ?e]"
  have T: "mleaves ?T = ?ls" "sorted (map snd (mleaves ?T))" "mend ?T = ?n"
    using merkle_root_tree [OF inline_leaves_ne, where E = E] inline_leaves_sorted inline_leaves_end by simp_all
  have "rel div MAX_CHUNK_SIZE \<le> ?n div MAX_CHUNK_SIZE" using assms(3) by (intro div_le_mono) simp
  then have "locate rel (0 * MAX_CHUNK_SIZE) ?ls = Some (?s, ?d, ?e)"
    unfolding inline_leaves_def using assms(3) by (subst locate_chunks) (simp_all add: less_Suc_eq_le)
  then have loc: "locate rel 0 (mleaves ?T) = Some (?s, ?d, ?e)" by (simp add: T(1))
  have d: "length ?d = 32" using assms(1) by simp
  obtain brs d' e' where p: "tree_path E rel ?T = (brs, d', e')" by (cases "tree_path E rel ?T") auto
  have m: "rel < mend ?T" "mend ?T < U128" "mend ?T \<le> ?n" using assms(2,3) T(3) by simp_all
  from tree_path_descend [OF p T(2) m(1,2,3), of 0 None] obtain lb' rb' m' where
    walk: "descend E rel brs (mhash E ?T, 0, ?n, None) = Some (hash_leaf E d' (note_bytes e'), lb', rb', m')"
    and l: "locate rel 0 (mleaves ?T) = Some (lb', d', e')"
    by blast
  have "rb' = e'" using tree_path_right_bound [OF p T(2) m(2)] walk T(3) by simp
  moreover have "Some (lb', d', e') = Some (?s, ?d, ?e)" by (rule trans [OF l [symmetric] loc])
  then have eq: "lb' = ?s" "d' = ?d" "e' = ?e" by (simp_all only: option.inject prod.inject)
  ultimately have walk: "descend E rel brs (mhash E ?T, 0, ?n, None) = Some (hash_leaf E ?d (note_bytes ?e), ?s, ?e, m')"
    and p: "tree_path E rel ?T = (brs, ?d, ?e)" using walk p unfolding eq by (simp_all only: eq)
  have sp: "split_path (inline_proof E data rel) = (brs, ?d @ note_bytes ?e)"
    unfolding inline_proof_def by (rule tree_proof_split [OF assms(1) p d])
  have len: "64 \<le> length (inline_proof E data rel)" using split_path_length [of "inline_proof E data rel"] sp d by simp
  have b: "?s < ?e" "?e < U128" "?e - ?s \<le> MAX_CHUNK_SIZE"
    using chunk_ends [OF assms(3) chunk_pos refl refl] assms(2) by (simp_all only: le_less_trans)
  note w = walk_data_path_accepts [OF sp d b(2), of E rel "mhash E ?T" ?n _ ?s m']
  show ?thesis
    using assms(2-4) walk b(1,3) len inline_chunk_split [OF assms(3,2) refl refl]
    by (auto simp: inline_data_root_tree validate_data_path_def Let_def size_defs walk_rebased_plain w)
qed

theorem inline_data_root_complete_witness:
  "\<exists>root. inline_data_root sample s_chunk = Inr root \<and>
    validate_data_path sample root 3 1 1004 (inline_proof sample s_chunk 1) =
      Inr \<lparr>dp_start = 0, dp_end = 3, dp_data_hash = sha256 sample [s_chunk]\<rparr>"
  using inline_data_root_complete [OF sample_widths, of s_chunk 1 1004]
  by (simp add: U128_value rebased_def MERKLE_REBASE_SUPPORT_THRESHOLD_def Let_def sub_bytes_def)

section \<open>Verified blocks\<close>

lemma verified_block_provable_aux:
  assumes "verify_block_data_root E G block objects = Inr (pre @ ob # post)" and "0 < bh_height block"
    and "hash_widths E" and "x_b64_decode E (bh_tx_root block) = Some root"
    and "bws < U128" and "parse_unsigned U128 (bh_block_size block) = Some (bws - pws)"
    and "om_data_root ob = Some d" and "length d = 32"
    and "pws + block_end (bh_height block) 0 pre < off"
    and "off \<le> pws + block_end (bh_height block) 0 pre + om_data_size ob"
  shows "\<exists>path. validate_tx_path E root off bws pws path =
    (let s = pws + block_end (bh_height block) 0 pre
     in Inr \<lparr>tp_data_root = d, tp_start_bound = s, tp_end_offset = s + om_data_size ob, tp_size = om_data_size ob\<rparr>)"
proof -
  let ?h = "bh_height block" and ?ls = "block_leaves (bh_height block) 0 (pre @ ob # post)"
  let ?T = "row_tree ?ls" and ?s = "block_end (bh_height block) 0 pre"
  from verify_block_data_root_steps [OF assms(1,2)] obtain row e where
    r: "row = leaf_row E ?ls" and e: "e = block_end ?h 0 (pre @ ob # post)" "parse_unsigned U128 (bh_block_size block) = Some e"
    and rt: "x_b64_decode E (bh_tx_root block) = Some (case merkle_root E row of None \<Rightarrow> [] | Some root \<Rightarrow> root)"
    by blast
  have props: "sorted (map snd ?ls)" "?ls \<noteq> []" "snd (last ?ls) = block_end ?h 0 (pre @ ob # post)"
    using block_leaves_props [of ?h 0 "pre @ ob # post"] by blast+
  have T: "mleaves ?T = ?ls" "merkle_root E row = Some (mhash E ?T)"
    using merkle_root_tree [OF props(2), where E = E] r by simp_all
  have m: "mend ?T = bws - pws" "sorted (map snd (mleaves ?T))"
    using mleaves_last [of ?T] T(1) props e assms(6) by simp_all
  have "root = mhash E ?T" using rt T(2) assms(4) by simp
  have "locate (off - pws - 1) 0 (mleaves ?T) = Some (?s, the (om_data_root ob), ?s + om_data_size ob)"
    unfolding T(1) using assms(9,10) by (intro locate_block_leaf) auto
  then have l: "locate (off - pws - 1) 0 (mleaves ?T) = Some (?s, d, ?s + om_data_size ob)"
    using assms(7) by simp
  have "?s + om_data_size ob \<le> mend ?T"
    using leaf_le_mend [OF m(2), of d] mend_pos_bounds [OF m(2) l] by simp
  then have "off \<le> bws" "pws < off" using m(1) assms(9,10) by auto
  from tree_proof_accepted [OF assms(3) m(2,1) this(2,1) assms(5) l assms(8)] show ?thesis
    using \<open>root = mhash E ?T\<close> by (auto simp: Let_def add.assoc)
qed

text \<open>C7. Above the genesis block, in a block whose transactions \<open>verify_block_data_root\<close> accepts, every byte of every
  transaction with a data root of 32 bytes is provable, for a digest of 32 bytes: there is a transaction path that
  \<open>validate_tx_path\<close> accepts for it under the block's root, and it names the transaction's own data root, start, end and
  size.  The weave size is a \<open>u128\<close>, the block's size the difference of two.  An accepted genesis block has an empty weave, in which no path is accepted.\<close>

theorem verified_block_provable:
  assumes "verify_block_data_root E G block objects = Inr (pre @ ob # post)"
    and "hash_widths E" and "x_b64_decode E (bh_tx_root block) = Some root"
    and "bws < U128" and "parse_unsigned U128 (bh_block_size block) = Some (bws - pws)"
    and "om_data_root ob = Some d" and "length d = 32"
    and "pws + block_end (bh_height block) 0 pre < off"
    and "off \<le> pws + block_end (bh_height block) 0 pre + om_data_size ob"
  shows "if bh_height block = 0
    then bws \<le> pws \<and> (\<forall>off' path p. validate_tx_path E root off' bws pws path \<noteq> Inr p)
    else \<exists>path. validate_tx_path E root off bws pws path =
      (let s = pws + block_end (bh_height block) 0 pre
       in Inr \<lparr>tp_data_root = d, tp_start_bound = s, tp_end_offset = s + om_data_size ob, tp_size = om_data_size ob\<rparr>)"
proof (cases "bh_height block = 0")
  case True
  then show ?thesis using genesis_no_path [OF assms(1) True assms(5)] by simp
next
  case False
  then show ?thesis using verified_block_provable_aux [OF assms(1) _ assms(2-9)] by simp
qed

theorem verified_block_provable_witness:
  "\<exists>path. validate_tx_path sample s_tx_root 1004 1005 1000 path = Inr s_tx"
  using verified_block_provable [of sample undefined s_tx_block "[s_second, s_first]" "[s_first]" s_second "[]"
      s_tx_root 1005 1000 s_data_root 1004] s_block_verified s_size_5
  by (simp add: s_pre_fork s_tx_def U128_value sample_b64_decode Let_def)

text \<open>C6. Transaction paths and block membership agree: above the genesis block, in a block whose transactions \<open>verify_block_data_root\<close>
  accepts, an accepted transaction path names a transaction of the block, with its data root and its size, and
  the end it gives is the one \<open>transaction_end_offset\<close> computes for that transaction, unless SHA-256 collides
  on the nodes of the block's tree and of the path.\<close>

theorem verified_block_tx_path:
  assumes "verify_block_data_root E G block objects = Inr objs" and "0 < bh_height block"
    and "hash_widths E" and "x_b64_decode E (bh_tx_root block) = Some root"
    and "bws < U128" and "parse_unsigned U128 (bh_block_size block) = Some (bws - pws)"
    and "validate_tx_path E root off bws pws path = Inr p"
    and "collision_free E (mtree_inputs E (row_tree (block_leaves (bh_height block) 0 objs)) @ path_inputs E path)"
  shows "\<exists>ob \<in> set objs. om_data_root ob = Some (tp_data_root p) \<and> om_data_size ob = tp_size p
    \<and> transaction_end_offset (bh_height block) (map offset_key objects) (om_id ob) =
        Inr (Some (tp_size p, tp_end_offset p - pws))"
  using assms by (rule verified_block_tx_path_aux)

theorem verified_block_tx_path_witness:
  "om_data_root s_second = Some (tp_data_root s_tx) \<and>
   (\<exists>ob \<in> {s_first, s_second}. om_data_size ob = 3 \<and>
     transaction_end_offset 100 (map offset_key [s_second, s_first]) (om_id ob) = Inr (Some (3, 5)))"
  using verified_block_tx_path [of sample undefined s_tx_block "[s_second, s_first]" "[s_first, s_second]" s_tx_root 1005 1000
      1004 s_tx_path s_tx] s_block_verified s_size_5 s_tree_free s_validate_tx
  by (auto simp: s_tx_def U128_value sample_b64_decode)

end
