(* ===== verification/TransactionProofs.thy ===== *)
theory TransactionProofs
  imports Transaction TxProofs
begin

text \<open>
  The promises of theories \<open>Rsa\<close> and \<open>Transaction\<close>: decimal normalisation and the type of a decoded
  transaction, the verifier of RSA-PSS against the encoding of the standard, the neutrality of its
  fast path, the fields a signature covers and the binding of a transaction to its id and owner.
\<close>

section \<open>Decimal text\<close>

lemma digit_char_value: "is_ascii_digit c \<Longrightarrow> digit_char (digit_value c) = c"
  by (simp add: is_ascii_digit_def digit_char_def digit_value_def)

lemma is_digit_value: "is_ascii_digit c \<Longrightarrow> digit_value c < 10"
  by (auto simp: is_ascii_digit_def digit_value_def)

lemma char_zero: "char_of (48 :: nat) = CHR ''0''"
  by code_simp

lemma digits_value_pos: "ds \<noteq> [] \<Longrightarrow> list_all is_ascii_digit ds \<Longrightarrow> hd ds \<noteq> CHR ''0'' \<Longrightarrow> 0 < digits_value ds"
proof (induction ds rule: rev_induct)
  case (snoc c ds)
  show ?case
  proof (cases "ds = []")
    case True
    have "digit_char (digit_value c) \<noteq> CHR ''0''" using snoc.prems True digit_char_value by simp
    then have "digit_value c \<noteq> 0" by (intro notI) (simp add: digit_char_def char_zero)
    then show ?thesis using True by (simp add: digits_value_def)
  qed (use snoc in \<open>simp add: digits_value_snoc\<close>)
qed simp

lemma show_nat_digits: "ds \<noteq> [] \<Longrightarrow> list_all is_ascii_digit ds \<Longrightarrow> hd ds \<noteq> CHR ''0'' \<Longrightarrow> show_nat (digits_value ds) = ds"
proof (induction ds rule: rev_induct)
  case (snoc c ds)
  have c: "digit_value c < 10" "digit_char (digit_value c) = c" using snoc.prems is_digit_value digit_char_value by simp_all
  show ?case
  proof (cases "ds = []")
    case True
    then show ?thesis using c by (simp add: digits_value_def show_nat.simps)
  next
    case False
    then have "0 < digits_value ds" "show_nat (digits_value ds) = ds"
      using snoc digits_value_pos [of ds] by simp_all
    then show ?thesis using c by (subst show_nat.simps) (simp add: digits_value_snoc)
  qed
qed simp

lemma digits_value_Cons_zero: "digits_value (CHR ''0'' # s) = digits_value s"
  by (simp add: digits_value_def digit_value_def)

lemma trimmed_digits:
  assumes "list_all is_ascii_digit ds"
  shows "(if dropWhile (\<lambda>c. c = CHR ''0'') ds = [] then ''0'' else dropWhile (\<lambda>c. c = CHR ''0'') ds) = show_nat (digits_value ds)
    \<and> (dropWhile (\<lambda>c. c = CHR ''0'') ds = [] \<longleftrightarrow> digits_value ds = 0)"
  using assms
proof (induction ds)
  case Nil
  have "show_nat 0 = [digit_char 0]" by (simp add: show_nat.simps)
  then show ?case by (simp add: digits_value_def digit_char_def char_zero)
next
  case (Cons c ds)
  show ?case
  proof (cases "c = CHR ''0''")
    case True
    then show ?thesis using Cons by (auto simp: digits_value_Cons_zero simp del: dropWhile_eq_Nil_conv split: if_splits)
  next
    case False
    then show ?thesis
      using show_nat_digits [of "c # ds"] digits_value_pos [of "c # ds"] Cons.prems by simp
  qed
qed

lemma digit_not_sign: "is_ascii_digit c \<Longrightarrow> c \<noteq> CHR ''+'' \<and> c \<noteq> CHR ''-''"
  by (auto simp: is_ascii_digit_def)

lemma canonical_unsigned_iff_aux:
  "canonical_unsigned v label = Inr s \<longleftrightarrow>
     (\<exists>ds. ds \<noteq> [] \<and> list_all is_ascii_digit ds \<and> s = show_nat (digits_value ds)
       \<and> (v = ds \<or> v = CHR ''+'' # ds \<or> v = CHR ''-'' # ds \<and> digits_value ds = 0))"
  (is "?L \<longleftrightarrow> (\<exists>ds. ?R ds)")
proof -
  have eq: "canonical_unsigned v label = (let neg = (\<exists>r. v = CHR ''-'' # r); ds = (case v of c # r \<Rightarrow> if c = CHR ''+'' \<or> c = CHR ''-'' then r else v | [] \<Rightarrow> v) in
      ensure (ds \<noteq> [] \<and> list_all is_ascii_digit ds) (STR ''invalid '' + label)
      (ensure (\<not> neg \<or> digits_value ds = 0) (STR ''negative '' + label) (Inr (show_nat (digits_value ds)))))"
  proof (cases v)
    case (Cons c r)
    have p: "strip_prefix ''+'' v = (if c = CHR ''+'' then Some r else None)"
      "strip_prefix ''-'' v = (if c = CHR ''-'' then Some r else None)"
      by (simp_all add: strip_prefix_def Cons)
    have n: "(\<exists>r. v = CHR ''-'' # r) \<longleftrightarrow> c = CHR ''-''" by (simp add: Cons)
    let ?ds = "if c = CHR ''+'' \<or> c = CHR ''-'' then r else v"
    have ds: "(case strip_prefix ''+'' v of Some d \<Rightarrow> d
        | None \<Rightarrow> (case strip_prefix ''-'' v of Some d \<Rightarrow> d | None \<Rightarrow> v)) = ?ds" "strip_prefix ''-'' v \<noteq> None \<longleftrightarrow> c = CHR ''-''"
      by (simp_all add: p)
    have v: "(case v of c # r \<Rightarrow> if c = CHR ''+'' \<or> c = CHR ''-'' then r else v | [] \<Rightarrow> v) = ?ds" by (simp add: Cons)
    have core: "ensure (d \<noteq> [] \<and> list_all is_ascii_digit d) m
       (ensure (\<not> neg \<or> dropWhile (\<lambda>c. c = CHR ''0'') d = []) m'
         (Inr (if dropWhile (\<lambda>c. c = CHR ''0'') d = [] then ''0'' else dropWhile (\<lambda>c. c = CHR ''0'') d)))
      = ensure (d \<noteq> [] \<and> list_all is_ascii_digit d) m
       (ensure (\<not> neg \<or> digits_value d = 0) m' (Inr (show_nat (digits_value d))))" for d m m' neg
      using trimmed_digits [of d] by (cases "list_all is_ascii_digit d") (auto simp del: dropWhile_eq_Nil_conv)
    show ?thesis
      unfolding canonical_unsigned_def Let_def ds n v core ..
  qed (simp add: canonical_unsigned_def strip_prefix_def)
  show ?thesis
  proof (cases v)
    case (Cons c r)
    have "c \<noteq> CHR ''+'' \<and> c \<noteq> CHR ''-'' \<or> \<not> is_ascii_digit c" by (auto simp: is_ascii_digit_def)
    then show ?thesis by (subst eq, unfold Cons) (auto simp: Let_def)
  qed (simp add: canonical_unsigned_def strip_prefix_def)
qed

text \<open>Decimal normalisation: \<open>canonical_unsigned\<close> accepts a string exactly when it is a sequence of digits,
  with an optional \<open>+\<close>, or a \<open>-\<close> before a zero, and its result is the decimal text of the number without
  leading zeros, the text \<open>to_string\<close> gives.\<close>

theorem canonical_unsigned_iff:
  "canonical_unsigned v label = Inr s \<longleftrightarrow>
     (\<exists>ds. ds \<noteq> [] \<and> list_all is_ascii_digit ds \<and> s = show_nat (digits_value ds)
       \<and> (v = ds \<or> v = CHR ''+'' # ds \<or> v = CHR ''-'' # ds \<and> digits_value ds = 0))"
  by (rule canonical_unsigned_iff_aux)

lemma canonical_unsigned_calm [simp]: "canonical_unsigned v l \<noteq> Inl Panic"
  by (auto simp: canonical_unsigned_def Let_def)

lemma decode_tag_calm [simp]: "decode_tag E t \<noteq> Inl Panic"
  by (auto simp: decode_tag_def res_simps)

lemma decode_tags_calm [simp]: "mapE (decode_tag E) ts \<noteq> Inl Panic"
  by (rule mapE_no_panic) simp

lemma data_commitment_calm [simp]: "data_commitment E tx d r \<noteq> Inl Panic"
  by (auto simp: data_commitment_def res_simps inline_data_root_tree)

lemma recover_owner_calm [simp]: "recover_owner S sig d \<noteq> Inl Panic"
  by (auto simp: recover_owner_def res_simps)

text \<open>C11. No transaction, whatever an archival provider puts in it, makes its verification panic: the widths of the
  RSA encoding, the recovery byte and the chunks of inline data are always inside their buffers.\<close>

theorem verify_transaction_no_panic: "verify_transaction E S tx expected_id height \<noteq> Inl Panic"
  by (auto simp: verify_transaction_def res_simps Let_def)


section \<open>What a signature covers\<close>

text \<open>The fields of a verified transaction under its signature, as a tree for the deep hash.\<close>

definition signed_tree :: "VerifiedTransaction \<Rightarrow> tree" where
  "signed_tree v = (let m = vt_metadata v in Node (
     (if the (om_denomination m) > 0 then [Blob (as_bytes (show_nat (the (om_denomination m))))] else [])
     @ (if om_format m = Some 2 then [Blob (as_bytes ''2'')] else [])
     @ (if om_signature_type m = 1 then [Blob (om_owner_public_key m)] else [])
     @ [Blob (om_target m)]
     @ (if om_format m = Some 1 then [Blob (the (vt_inline_data v))] else [])
     @ [Blob (as_bytes (the (om_quantity m))), Blob (as_bytes (the (om_reward m))), Blob (om_anchor m),
        Node (map (\<lambda>(n, x). Node [Blob n, Blob x]) (om_tags m))]
     @ (if om_format m = Some 2 then [Blob (as_bytes (show_nat (om_data_size m))), Blob (the (om_data_root m))] else [])))"

text \<open>What an accepted transaction satisfies.\<close>

definition accepted_rsa :: "deps \<Rightarrow> signers \<Rightarrow> nat \<Rightarrow> VerifiedTransaction \<Rightarrow> bool" where
  "accepted_rsa E S h v \<longleftrightarrow> (let m = vt_metadata v in
     om_quantity m \<noteq> None \<and> om_reward m \<noteq> None \<and> om_denomination m \<noteq> None \<and> om_data_root m \<noteq> None
     \<and> (om_format m = Some 1 \<and> vt_inline_data v \<noteq> None \<and> om_data_size m = length (the (vt_inline_data v))
          \<and> inline_data_root E (the (vt_inline_data v)) = Inr (the (om_data_root m))
        \<or> om_format m = Some 2 \<and> vt_inline_data v = (if om_data_size m = 0 then Some [] else None))
     \<and> om_kind m = 0
     \<and> om_owner_address m = (if length (om_owner_public_key m) = 32 then om_owner_public_key m else sha256 E [om_owner_public_key m])
     \<and> om_content_type m = optional_text_tag (om_tags m) (as_bytes ''Content-Type'')
     \<and> om_content_encoding m = optional_text_tag (om_tags m) (as_bytes ''Content-Encoding'')
     \<and> om_id m = sha256 E [om_signature m]
     \<and> (om_denomination m = Some 0 \<and> om_format m = Some 1 \<or> verify_rsa_pss_digest E S (om_owner_public_key m) (om_signature m)
          (sha256 E [tree_hash E (signed_tree v)]) (h - 1 < FORK_2_4_HEIGHT) STR ''transaction'' = Inr ()))"

lemma tree_hash_tags: "tree_hash E (Node (map (\<lambda>(n, x). Node [Blob n, Blob x]) tags)) =
    deep_hash_list E (map (\<lambda>(n, x). deep_hash_list E [deep_hash_blob E n, deep_hash_blob E x]) tags)"
  by (simp add: comp_def case_prod_unfold)

lemma signature_digest_tree:
  assumes "\<not> (tr_format tx = 1 \<and> tr_denomination tx = 0)" "tr_format tx = 1 \<or> tr_format tx = 2" "owner \<noteq> []"
    and "om_denomination (vt_metadata v) = Some (tr_denomination tx)" "om_format (vt_metadata v) = Some (int (tr_format tx))"
    "om_signature_type (vt_metadata v) = 1" "om_owner_public_key (vt_metadata v) = owner" "om_target (vt_metadata v) = target"
    "tr_format tx = 1 \<Longrightarrow> vt_inline_data v = Some data" "om_quantity (vt_metadata v) = Some q" "om_reward (vt_metadata v) = Some r"
    "om_anchor (vt_metadata v) = anchor" "om_tags (vt_metadata v) = tags" "om_data_size (vt_metadata v) = n"
    "om_data_root (vt_metadata v) = Some root"
  shows "signature_digest E tx owner target data q r anchor tags n root = sha256 E [tree_hash E (signed_tree v)]"
  using assms tree_hash_tags [of E tags] by (auto simp: signature_digest_def signed_tree_def Let_def)

lemma verify_transaction_elim:
  assumes "verify_transaction E S tx ei h = Inr v"
  obtains i sig owner target anchor q r tags data sr n root key where
    "tr_format tx = 1 \<or> tr_format tx = 2" "length i = 32" "i = sha256 E [sig]"
    "owner = [] \<longrightarrow> tr_format tx = 2 \<and> h - 1 \<ge> FORK_2_9_HEIGHT"
    "decode_fixed E 32 ei STR ''expected transaction ID'' = Inr i"
    "data_commitment E tx data sr = Inr (n, root)"
    "(if owner = [] then recover_owner S sig (signature_digest E tx owner target data q r anchor tags n root)
      else bindE (verify_rsa_pss_digest E S owner sig (signature_digest E tx owner target data q r anchor tags n root)
        (h - 1 < FORK_2_4_HEIGHT) STR ''transaction'') (\<lambda>_. Inr owner)) = Inr key"
    "v = \<lparr>vt_metadata = \<lparr>om_id = i, om_kind = 0, om_signature = sig, om_anchor = anchor,
                    om_owner_address = (if owner \<noteq> [] \<and> length key = 32 then key else sha256 E [key]),
                    om_owner_public_key = key, om_target = target, om_data_size = n,
                    om_content_type = optional_text_tag tags (as_bytes ''Content-Type''),
                    om_content_encoding = optional_text_tag tags (as_bytes ''Content-Encoding''),
                    om_signature_type = (if owner = [] then 2 else 1), om_format = Some (int (tr_format tx)),
                    om_quantity = Some q, om_reward = Some r,
                    om_denomination = Some (tr_denomination tx), om_data_root = Some root, om_tags = tags\<rparr>,
                  vt_inline_data = (if tr_format tx = 1 \<or> n = 0 then Some data else None)\<rparr>"
proof -
  from assms obtain i expected sig owner target anchor q r tags data sr c where
    f: "tr_format tx = 1 \<or> tr_format tx = 2" and i: "decode_fixed E 32 (tr_id tx) STR ''transaction ID'' = Inr i"
      "decode_fixed E 32 ei STR ''expected transaction ID'' = Inr expected" "i = expected" "i = sha256 E [sig]"
    and o: "owner = [] \<longrightarrow> tr_format tx = 2 \<and> h - 1 \<ge> FORK_2_9_HEIGHT"
    and c: "data_commitment E tx data sr = Inr c"
    and k: "(case c of (n, root) \<Rightarrow> bindE
       (if owner = [] then recover_owner S sig (signature_digest E tx owner target data q r anchor tags n root)
        else bindE (verify_rsa_pss_digest E S owner sig (signature_digest E tx owner target data q r anchor tags n root)
          (h - 1 < FORK_2_4_HEIGHT) STR ''transaction'') (\<lambda>_. Inr owner))
       (\<lambda>key. Inr \<lparr>vt_metadata = \<lparr>om_id = i, om_kind = 0, om_signature = sig, om_anchor = anchor,
                    om_owner_address = (if owner \<noteq> [] \<and> length key = 32 then key else sha256 E [key]),
                    om_owner_public_key = key, om_target = target, om_data_size = n,
                    om_content_type = optional_text_tag tags (as_bytes ''Content-Type''),
                    om_content_encoding = optional_text_tag tags (as_bytes ''Content-Encoding''),
                    om_signature_type = (if owner = [] then 2 else 1), om_format = Some (int (tr_format tx)),
                    om_quantity = Some q, om_reward = Some r,
                    om_denomination = Some (tr_denomination tx), om_data_root = Some root, om_tags = tags\<rparr>,
                  vt_inline_data = (if tr_format tx = 1 \<or> n = 0 then Some data else None)\<rparr>)) = Inr v"
    unfolding verify_transaction_def Let_def bindE_eq_Inr ensure_eq_Inr by blast
  obtain n root where nr: "c = (n, root)" by (cases c)
  have i32: "length i = 32" using i(1) by (auto simp: decode_fixed_def res_simps)
  from k [unfolded nr prod.case bindE_eq_Inr [of _ _ v]] obtain key where
    key: "(if owner = [] then recover_owner S sig (signature_digest E tx owner target data q r anchor tags n root)
      else bindE (verify_rsa_pss_digest E S owner sig (signature_digest E tx owner target data q r anchor tags n root)
        (h - 1 < FORK_2_4_HEIGHT) STR ''transaction'') (\<lambda>_. Inr owner)) = Inr key" and
    v: "\<lparr>vt_metadata = \<lparr>om_id = i, om_kind = 0, om_signature = sig, om_anchor = anchor,
                    om_owner_address = (if owner \<noteq> [] \<and> length key = 32 then key else sha256 E [key]),
                    om_owner_public_key = key, om_target = target, om_data_size = n,
                    om_content_type = optional_text_tag tags (as_bytes ''Content-Type''),
                    om_content_encoding = optional_text_tag tags (as_bytes ''Content-Encoding''),
                    om_signature_type = (if owner = [] then 2 else 1), om_format = Some (int (tr_format tx)),
                    om_quantity = Some q, om_reward = Some r,
                    om_denomination = Some (tr_denomination tx), om_data_root = Some root, om_tags = tags\<rparr>,
                  vt_inline_data = (if tr_format tx = 1 \<or> n = 0 then Some data else None)\<rparr> = v"
    unfolding sum.inject by blast
  show thesis
    by (rule that [OF f i32 i(4) o _ _ key v [symmetric]]) (use i c nr in simp_all)
qed

lemma verify_transaction_rsa:
  assumes "verify_transaction E S tx i h = Inr v" "om_signature_type (vt_metadata v) = 1"
  shows "accepted_rsa E S h v"
  using assms(1)
proof (cases rule: verify_transaction_elim)
  case (1 i sig owner target anchor q r tags data sr n root key)
  have o: "owner \<noteq> []" using assms(2) unfolding 1(8) by (auto split: if_splits)
  let ?d = "signature_digest E tx owner target data q r anchor tags n root"
  have k: "key = owner" and ver: "verify_rsa_pss_digest E S owner sig ?d (h - 1 < FORK_2_4_HEIGHT) STR ''transaction'' = Inr ()"
    using 1(7) o by (auto simp: res_simps)
  have dg: "?d = sha256 E [tree_hash E (signed_tree v)]" if "\<not> (tr_format tx = 1 \<and> tr_denomination tx = 0)"
    by (rule signature_digest_tree [OF that 1(1) o]) (use 1(8) o k in simp_all)
  have f: "tr_format tx = 1 \<and> n = length data \<and> inline_data_root E data = Inr root \<or> tr_format tx = 2 \<and> (n = 0 \<longrightarrow> data = [])"
    using 1(1,6) by (auto simp: data_commitment_def res_simps)
  have sel: "om_id (vt_metadata v) = i" "om_signature (vt_metadata v) = sig" "om_denomination (vt_metadata v) = Some (tr_denomination tx)"
    "om_format (vt_metadata v) = Some (int (tr_format tx))" "om_data_root (vt_metadata v) = Some root" "om_data_size (vt_metadata v) = n"
    "om_owner_public_key (vt_metadata v) = owner" "om_quantity (vt_metadata v) = Some q" "om_reward (vt_metadata v) = Some r"
    "vt_inline_data v = (if tr_format tx = 1 \<or> n = 0 then Some data else None)" "om_tags (vt_metadata v) = tags"
    "om_kind (vt_metadata v) = 0" "om_owner_address (vt_metadata v) = (if length owner = 32 then owner else sha256 E [owner])"
    "om_content_type (vt_metadata v) = optional_text_tag tags (as_bytes ''Content-Type'')"
    "om_content_encoding (vt_metadata v) = optional_text_tag tags (as_bytes ''Content-Encoding'')"
    using o k by (simp_all add: 1(8))
  have "tr_format tx = 1 \<and> tr_denomination tx = 0 \<or> verify_rsa_pss_digest E S owner sig
      (sha256 E [tree_hash E (signed_tree v)]) (h - 1 < FORK_2_4_HEIGHT) STR ''transaction'' = Inr ()"
    using ver dg by metis
  then show ?thesis
    using f 1(1,3) unfolding accepted_rsa_def Let_def sel by (auto simp del: of_nat_Suc)
qed

lemma tag_tree_inj: "map (\<lambda>(n, x). Node [Blob n, Blob x]) ts = map (\<lambda>(n, x). Node [Blob n, Blob x]) us \<longleftrightarrow> ts = us"
  by (rule inj_map_eq_map) (auto simp: inj_on_def)

lemma signed_tree_inj:
  assumes "accepted_rsa E S h v" "accepted_rsa E S h' v'"
    and "om_signature_type (vt_metadata v) = 1" "om_signature_type (vt_metadata v') = 1"
    and "om_signature (vt_metadata v) = om_signature (vt_metadata v')"
    and "signed_tree v = signed_tree v'"
  shows "v = v'"
proof -
  obtain m inl m' inl' where v: "v = \<lparr>vt_metadata = m, vt_inline_data = inl\<rparr>" "v' = \<lparr>vt_metadata = m', vt_inline_data = inl'\<rparr>"
    by (metis VerifiedTransaction.surjective old.unit.exhaust)
  note acc = assms(1,2) [unfolded accepted_rsa_def Let_def v VerifiedTransaction.simps]
  obtain f f' where f: "om_format m = Some f" "f = 1 \<or> f = 2" "om_format m' = Some f'" "f' = 1 \<or> f' = 2"
    using acc by auto
  obtain d d' where d: "om_denomination m = Some d" "om_denomination m' = Some d'" using acc by auto
  obtain q q' r r' root root' where q: "om_quantity m = Some q" "om_quantity m' = Some q'" "om_reward m = Some r" "om_reward m' = Some r'"
    "om_data_root m = Some root" "om_data_root m' = Some root'" using acc by auto
  note tree = assms(6) [unfolded signed_tree_def Let_def v VerifiedTransaction.simps f(1,3) d q]
  from arg_cong [OF tree, of "\<lambda>t. case t of Node ts \<Rightarrow> length ts | _ \<Rightarrow> 0"]
  have same: "f = f'" "(0 < d) = (0 < d')" using f(2,4) assms(3,4) v by (auto split: if_splits)
  have eq: "d = d' \<and> om_owner_public_key m = om_owner_public_key m' \<and> om_target m = om_target m'
      \<and> (f = 1 \<longrightarrow> the inl = the inl') \<and> q = q' \<and> r = r' \<and> om_anchor m = om_anchor m' \<and> om_tags m = om_tags m'
      \<and> (f = 2 \<longrightarrow> om_data_size m = om_data_size m' \<and> root = root')"
    using tree same f(2) assms(3,4) v
    by (cases "0 < d") (auto simp: tag_tree_inj dest!: as_bytes_inj show_nat_inj)
  have "m = m' \<and> inl = inl'"
    using f(2)
  proof
    assume f1: "f = 1"
    then obtain x where x: "inl = Some x" "inl' = Some x" using acc f same eq by auto
    then show ?thesis using acc eq f q d assms(3-5) same f1 v by (auto intro!: ObjectMetadata.equality)
  next
    assume f2: "f = 2"
    then show ?thesis using acc eq f q d assms(3-5) same v by (auto intro!: ObjectMetadata.equality)
  qed
  then show ?thesis using v by simp
qed

text \<open>Everything hashed by SHA-256 on the way from a verified RSA transaction to its signature.\<close>

definition tx_inputs_256 :: "deps \<Rightarrow> signers \<Rightarrow> nat \<Rightarrow> VerifiedTransaction \<Rightarrow> bytes list" where
  "tx_inputs_256 E S h v = (let m = vt_metadata v; root = tree_hash E (signed_tree v) in
     [om_signature m, root, replicate 8 0 @ sha256 E [root]
        @ pss_salt E S (om_owner_public_key m) (om_signature m) (h - 1 < FORK_2_4_HEIGHT)])"

text \<open>C9. An id and an owner determine an RSA transaction: two transactions that verify under one id and one owner key,
  at whatever heights, neither of them in the first format without denomination, have the same metadata and
  inline data, in every field, unless SHA-256 collides on corresponding inputs of the two verifications or the
  deep hash collides on their two trees, which it does not where SHA-384 is free of collisions
  (\<open>deep_hash_injective\<close>).\<close>

theorem verify_transaction_binding:
  assumes "hash_widths E" and "verify_transaction E S tx i h = Inr v" and "verify_transaction E S tx' i' h' = Inr v'"
    and "om_signature_type (vt_metadata v) = 1" and "om_signature_type (vt_metadata v') = 1"
    and "om_format (vt_metadata v) = Some 2 \<or> om_denomination (vt_metadata v) \<noteq> Some 0"
    and "om_format (vt_metadata v') = Some 2 \<or> om_denomination (vt_metadata v') \<noteq> Some 0"
    and "om_id (vt_metadata v) = om_id (vt_metadata v')"
    and "om_owner_public_key (vt_metadata v) = om_owner_public_key (vt_metadata v')"
    and "list_all2 (\<lambda>x y. sha256 E [x] = sha256 E [y] \<longrightarrow> x = y) (tx_inputs_256 E S h v) (tx_inputs_256 E S h' v')"
    and "tree_hash E (signed_tree v) = tree_hash E (signed_tree v') \<Longrightarrow> signed_tree v = signed_tree v'"
  shows "v = v'"
proof -
  note inj = assms(10) [unfolded tx_inputs_256_def Let_def list.rel_inject]
  have acc: "accepted_rsa E S h v" "accepted_rsa E S h' v'"
    using verify_transaction_rsa assms(2-5) by blast+
  have "sha256 E [om_signature (vt_metadata v)] = sha256 E [om_signature (vt_metadata v')]"
    using acc assms(8) by (simp add: accepted_rsa_def Let_def)
  then have sig: "om_signature (vt_metadata v) = om_signature (vt_metadata v')"
    using inj by blast
  let ?d = "\<lambda>v. sha256 E [tree_hash E (signed_tree v)]"
  have ver: "verify_rsa_pss_digest E S (om_owner_public_key (vt_metadata v)) (om_signature (vt_metadata v)) (?d v)
        (h - 1 < FORK_2_4_HEIGHT) STR ''transaction'' = Inr ()"
    "verify_rsa_pss_digest E S (om_owner_public_key (vt_metadata v)) (om_signature (vt_metadata v)) (?d v')
        (h' - 1 < FORK_2_4_HEIGHT) STR ''transaction'' = Inr ()"
    using acc assms(6,7,9) sig unfolding accepted_rsa_def Let_def by auto
  from ver [THEN verify_rsa_pss_digest_hash]
  have "sha256 E [replicate 8 0 @ ?d v @ pss_salt E S (om_owner_public_key (vt_metadata v)) (om_signature (vt_metadata v)) (h - 1 < FORK_2_4_HEIGHT)]
      = sha256 E [replicate 8 0 @ ?d v' @ pss_salt E S (om_owner_public_key (vt_metadata v')) (om_signature (vt_metadata v')) (h' - 1 < FORK_2_4_HEIGHT)]"
    using assms(9) sig by (simp add: sha256_def)
  then have "replicate 8 0 @ ?d v @ pss_salt E S (om_owner_public_key (vt_metadata v)) (om_signature (vt_metadata v)) (h - 1 < FORK_2_4_HEIGHT)
      = replicate 8 0 @ ?d v' @ pss_salt E S (om_owner_public_key (vt_metadata v')) (om_signature (vt_metadata v')) (h' - 1 < FORK_2_4_HEIGHT)"
    using inj by blast
  then have "?d v = ?d v'" using assms(1) by simp
  then have "tree_hash E (signed_tree v) = tree_hash E (signed_tree v')"
    using inj by blast
  then have "signed_tree v = signed_tree v'"
    by (rule assms(11))
  then show ?thesis by (rule signed_tree_inj [OF acc assms(4,5) sig])
qed


section \<open>Decoded transactions\<close>

definition canonical_number :: "str \<Rightarrow> bool" where
  "canonical_number s \<longleftrightarrow> (\<exists>n. s = show_nat n)"

lemma json_integer_canonical: "json_integer v l = Inr s \<Longrightarrow> canonical_number s"
  by (cases v) (auto simp: canonical_unsigned_iff_aux canonical_number_def)

lemma parse_unsigned_less: "parse_unsigned b s = Some n \<Longrightarrow> n < b"
  by (auto simp: parse_unsigned_def Let_def split: if_splits)

lemma transaction_of_json_fields:
  assumes "transaction_of_json fs = Some tx"
  shows "Option.bind (map_of fs ''format'') (number_field U8) = Some (tr_format tx)"
    "map_of fs ''quantity'' = Some (JString (tr_quantity tx))" "map_of fs ''reward'' = Some (JString (tr_reward tx))"
    "default_field fs ''data_size'' = Some (tr_data_size tx)" "default_field fs ''data'' = Some (tr_data tx)"
    "(case map_of fs ''denomination'' of None \<Rightarrow> Some 0 | Some v \<Rightarrow> number_field U32 v) = Some (tr_denomination tx)"
  using assms by (auto simp: transaction_of_json_def string_field_def bind_eq_Some_conv as_str_eq)

definition has_number :: "(str \<times> json) list \<Rightarrow> str \<Rightarrow> bool" where
  "has_number fs name \<longleftrightarrow> (\<exists>s. map_of fs name = Some (JString s) \<and> canonical_number s)"

lemma has_number_insert: "has_number (json_insert k v fs) name \<longleftrightarrow>
    (if k = name then \<exists>s. v = JString s \<and> canonical_number s else has_number fs name)"
  by (auto simp: has_number_def)

lemma normalize_amount_eq:
  "normalize_amount name label fs = Inr fs' \<longleftrightarrow> (\<exists>v number. map_of fs name = Some v \<and> json_integer v label = Inr number
     \<and> fs' = json_insert name (JString number) fs)"
  by (auto simp: normalize_amount_def res_simps)

lemma number_field_show: "n < b \<Longrightarrow> number_field b (JNumber (show_nat n)) = Some n"
  by (simp add: number_field_def parse_unsigned_show)

lemma denomination_step:
  assumes "(case map_of fs ''denomination'' of None \<Rightarrow> Inr fs
    | Some v \<Rightarrow> bindE (json_integer v STR ''transaction denomination'') (\<lambda>s.
        bindE (contextE (parse_unsigned U32 s) STR ''number too large to fit in target type'') (\<lambda>denomination.
        ensure (denomination > 0) STR ''explicit transaction denomination must be positive''
        (Inr (json_insert ''denomination'' (JNumber (show_nat denomination)) fs))))) = Inr fs'"
  shows "(\<forall>k. k \<noteq> ''denomination'' \<longrightarrow> map_of fs' k = map_of fs k)
    \<and> (\<forall>d. (case map_of fs' ''denomination'' of None \<Rightarrow> Some 0 | Some v \<Rightarrow> number_field U32 v) = Some d \<longrightarrow> d < U32)"
proof -
  have "0 < U32" by (simp add: U32_def)
  then show ?thesis
    using assms by (auto simp: res_simps number_field_def split: option.splits) (rule parse_unsigned_less)
qed

lemma data_size_step:
  assumes "(case map_of fs ''data_size'' of None \<Rightarrow> Inr fs
    | Some v \<Rightarrow> bindE (json_integer v STR ''transaction data size'') (\<lambda>number.
        Inr (json_insert ''data_size'' (JString number) fs))) = Inr fs'"
  shows "(\<forall>k. k \<noteq> ''data_size'' \<longrightarrow> map_of fs' k = map_of fs k) \<and> (map_of fs' ''data_size'' \<noteq> None \<longrightarrow> has_number fs' ''data_size'')"
  using assms by (auto simp: res_simps has_number_def dest: json_integer_canonical split: option.splits)

lemma data_step:
  assumes "(if format = 1 then
          bindE (contextE (Option.bind (map_of fs ''data'') as_str)
                   STR ''format-1 transaction is missing inline data'') (\<lambda>data.
          bindE (decode_b64 E data STR ''transaction data'') (\<lambda>d.
          Inr (json_insert ''data_size'' (JString (show_nat (length d))) fs)))
        else ensure (map_of fs ''data_size'' \<noteq> None) STR ''missing transaction data size'' (Inr fs)) = Inr fs'"
    and "map_of fs ''data_size'' \<noteq> None \<longrightarrow> has_number fs ''data_size''"
  shows "(\<forall>k. k \<noteq> ''data_size'' \<longrightarrow> map_of fs' k = map_of fs k) \<and> has_number fs' ''data_size''
    \<and> (format = 1 \<longrightarrow> (\<exists>t d. map_of fs' ''data'' = Some (JString t) \<and> decode_b64 E t STR ''transaction data'' = Inr d
         \<and> map_of fs' ''data_size'' = Some (JString (show_nat (length d)))))"
  using assms by (auto simp: res_simps has_number_insert canonical_number_def bind_eq_Some_conv as_str_eq split: if_splits)

text \<open>C12. The type of a decoded transaction: whatever JSON it came from, \<open>decode_transaction\<close> yields a format of 1
  or 2, quantity, reward and data size as decimal text without leading zeros, a denomination of 32 bits, and
  for the first format the data size is the length of the data, whatever size the provider supplied.\<close>

theorem decode_transaction_type:
  assumes "decode_transaction E value = Inr tx"
  shows "(tr_format tx = 1 \<or> tr_format tx = 2) \<and> canonical_number (tr_quantity tx) \<and> canonical_number (tr_reward tx)
    \<and> canonical_number (tr_data_size tx) \<and> tr_denomination tx < U32
    \<and> (tr_format tx = 1 \<longrightarrow> (\<exists>d. decode_b64 E (tr_data tx) STR ''transaction data'' = Inr d \<and> tr_data_size tx = show_nat (length d)))"
proof -
  from assms obtain fs format f1 f2 f3 f4 f5 where f: "format = 1 \<or> format = 2"
    and f1: "normalize_amount ''quantity'' STR ''quantity'' (json_insert ''format'' (JNumber (show_nat format)) fs) = Inr f1"
    and f2: "normalize_amount ''reward'' STR ''reward'' f1 = Inr f2"
    and c3: "(case map_of f2 ''denomination'' of None \<Rightarrow> Inr f2
    | Some v \<Rightarrow> bindE (json_integer v STR ''transaction denomination'') (\<lambda>s.
        bindE (contextE (parse_unsigned U32 s) STR ''number too large to fit in target type'') (\<lambda>denomination.
        ensure (denomination > 0) STR ''explicit transaction denomination must be positive''
        (Inr (json_insert ''denomination'' (JNumber (show_nat denomination)) f2))))) = Inr f3"
    and c4: "(case map_of f3 ''data_size'' of None \<Rightarrow> Inr f3
    | Some v \<Rightarrow> bindE (json_integer v STR ''transaction data size'') (\<lambda>number.
        Inr (json_insert ''data_size'' (JString number) f3))) = Inr f4"
    and c5: "(if format = 1 then
          bindE (contextE (Option.bind (map_of f4 ''data'') as_str)
                   STR ''format-1 transaction is missing inline data'') (\<lambda>data.
          bindE (decode_b64 E data STR ''transaction data'') (\<lambda>d.
          Inr (json_insert ''data_size'' (JString (show_nat (length d))) f4)))
        else ensure (map_of f4 ''data_size'' \<noteq> None) STR ''missing transaction data size'' (Inr f4)) = Inr f5"
    and tx: "transaction_of_json (if map_of f5 ''tags'' = None then json_insert ''tags'' (JArray []) f5 else f5) = Some tx"
    unfolding decode_transaction_def Let_def bindE_eq_Inr [where y = tx] bindE_eq_Inr [where m = "normalize_amount _ _ _"]
      ensure_eq_Inr [where v = tx] contextE_eq_Inr [where v = tx] by blast
  note s3 = denomination_step [OF c3] and s4 = data_size_step [OF c4]
  note s5 = data_step [OF c5 s4 [THEN conjunct2]]
  have q: "has_number f1 ''quantity''" "has_number f2 ''reward''" "has_number f2 ''quantity''" 
      "map_of f2 ''format'' = Some (JNumber (show_nat format))"
    using f1 f2 by (auto simp: normalize_amount_eq has_number_insert dest: json_integer_canonical)
  note t = transaction_of_json_fields [OF tx]
  have m: "map_of (if map_of f5 ''tags'' = None then json_insert ''tags'' (JArray []) f5 else f5) k = map_of f5 k" if "k \<noteq> ''tags''" for k
    using that by simp
  have n: "format < U8" using f by (auto simp: U8_def)
  have "tr_format tx = format" using t(1) m s3 s4 s5 q(4) number_field_show [OF n] by simp
  moreover have "canonical_number (tr_quantity tx)" "canonical_number (tr_reward tx)"
    using t(2,3) m s3 s4 s5 q(2,3) by (auto simp: has_number_def)
  moreover have "canonical_number (tr_data_size tx)"
    using t(4) m s5 by (auto simp: has_number_def default_field_def)
  moreover have "tr_denomination tx < U32" using t(6) m s3 s4 s5 by auto
  moreover have "format = 1 \<longrightarrow> (\<exists>d. decode_b64 E (tr_data tx) STR ''transaction data'' = Inr d \<and> tr_data_size tx = show_nat (length d))"
    using t(4,5) m s5 by (auto simp: default_field_def)
  ultimately show ?thesis using f by simp
qed


section \<open>Signatures\<close>

text \<open>C10. \<open>verify_rsa_pss_digest\<close> against the standard: it accepts exactly the signatures of the right widths whose
  recovered number, padded to the encoded width and with the bits above the modulus cleared, is the EMSA-PSS
  encoding (RFC 8017) of the digest for some salt, of any length that fits, at the historical floor width of
  the modulus as at its full width.\<close>

theorem verify_rsa_pss_digest_iff:
  assumes "hash_widths E"
  shows "verify_rsa_pss_digest E S owner signature digest legacy label = Inr () \<longleftrightarrow>
    pss_shape E S owner signature legacy \<and>
    (let width = pss_width owner legacy; bits = bit_length (be_nat owner) in
     \<exists>salt. length salt + 34 \<le> width
       \<and> clear_high bits (pss_message E S owner signature width) = emsa_pss E bits width digest salt)"
  using assms by (rule verify_rsa_pss_digest_iff_aux)

definition s_owner :: bytes where "s_owner = 0x80 # replicate 33 1"
definition s_sig :: bytes where "s_sig = replicate 34 1"

definition s_signers :: "bytes \<Rightarrow> signers" where
  "s_signers d = \<lparr>y_modpow = (\<lambda>_ _ _. be_nat (emsa_pss sample 272 34 d [])), y_pss = (\<lambda>_ _ _. False),
     y_sig_ok = (\<lambda>_. True), y_low_s = (\<lambda>_. True), y_recover = (\<lambda>digest _ _. Some (2 # digest))\<rparr>"

lemma s_bits: "bit_length (be_nat s_owner) = 272"
  using bit_length_top [of s_owner] by (simp add: s_owner_def)

lemma s_width: "pss_width s_owner legacy = 34"
  by (simp add: pss_width_def s_bits div_ceil_def)

lemma emsa_length:
  assumes "hash_widths E" "length salt + 34 \<le> w"
  shows "length (emsa_pss E bits w digest salt) = w"
  using assms mgf1_length [OF assms(1), of "w - 33" "sha256 E [replicate 8 0, digest, salt]" 0]
  by (simp add: emsa_pss_def Let_def)

lemma padded_big_bytes: "length em = w \<Longrightarrow> length (x_big_bytes sample (be_nat em)) \<le> w
    \<Longrightarrow> replicate (w - length (x_big_bytes sample (be_nat em))) 0 @ x_big_bytes sample (be_nat em) = em"
proof (rule be_nat_inj)
  have "be_nat (x_big_bytes sample (be_nat em)) = be_nat em"
    using sample_decimal_codec by (simp add: decimal_codec_def)
  then show "be_nat (replicate (w - length (x_big_bytes sample (be_nat em))) 0 @ x_big_bytes sample (be_nat em)) = be_nat em"
    by (simp add: be_nat_append)
qed simp

lemma s_pss_parts:
  "pss_shape sample (s_signers d) s_owner s_sig legacy"
  "clear_high 272 (pss_message sample (s_signers d) s_owner s_sig 34) = emsa_pss sample 272 34 d []"
proof -
  let ?em = "emsa_pss sample 272 34 d []"
  have em: "length ?em = 34" by (rule emsa_length) simp_all
  have "length (x_big_bytes sample (be_nat ?em)) \<le> 34"
    using minimal_be_length [of "be_nat ?em" 34 "Suc (be_nat ?em)"] be_nat_bound [of ?em] em
    by (simp add: sample_def del: minimal_be.simps)
  moreover have "be_nat s_sig < be_nat s_owner"
    by (simp add: s_sig_def s_owner_def be_nat_def replicate_numeral)
  ultimately show "pss_shape sample (s_signers d) s_owner s_sig legacy"
    "clear_high 272 (pss_message sample (s_signers d) s_owner s_sig 34) = emsa_pss sample 272 34 d []"
    using padded_big_bytes [OF em] clear_high_emsa [of sample "[]" 34 272 d]
    by (simp_all add: pss_shape_def s_width s_bits pss_message_def s_signers_def Let_def div_ceil_def)
      (simp_all add: s_owner_def s_sig_def)
qed

theorem verify_rsa_pss_digest_iff_witness:
  "verify_rsa_pss_digest sample (s_signers [1, 2]) s_owner s_sig [1, 2] False STR ''data'' = Inr ()"
  using verify_rsa_pss_digest_iff [OF sample_widths, of "s_signers [1, 2]" s_owner s_sig "[1, 2]" False "STR ''data''"]
    s_pss_parts [of "[1, 2]"] by (auto simp: s_width s_bits Let_def intro!: exI [of _ "[]"])

text \<open>The fast path is only an optimisation: if aws-lc accepts no signature but those of the standard,
  \<open>verify_rsa_pss\<close> decides exactly as the variable-salt verifier alone.\<close>

theorem verify_rsa_pss_fast_path:
  assumes "hash_widths E" and "aws_lc_law E S"
  shows "verify_rsa_pss E S owner signature payload label =
    verify_rsa_pss_digest E S owner signature (sha256 E [payload]) False label"
  using verify_rsa_pss_digest_standard [OF assms] by (simp add: verify_rsa_pss_def)

definition s_fast :: signers where
  "s_fast = (s_signers [1])\<lparr>y_pss := rfc_pss_valid sample (s_signers [1])\<rparr>"

theorem verify_rsa_pss_fast_path_witness:
  "verify_rsa_pss sample s_fast (0x80 # replicate 255 1) (replicate 256 1) [7] STR ''data'' =
    verify_rsa_pss_digest sample s_fast (0x80 # replicate 255 1) (replicate 256 1) (sha256 sample [[7]]) False STR ''data''"
proof (rule verify_rsa_pss_fast_path [OF sample_widths])
  show "aws_lc_law sample s_fast"
    by (simp add: aws_lc_law_def s_fast_def rfc_pss_valid_def pss_message_def)
qed

section \<open>A sample transaction\<close>

lemma hex_length [simp]: "length (hex bs) = 2 * length bs"
  by (induction bs) (simp_all add: hex_def)

definition s_transaction :: "str \<Rightarrow> Transaction" where
  "s_transaction reward = \<lparr>tr_format = 2, tr_id = hex (sha256 sample [s_sig]), tr_last_tx = hex [], tr_owner = hex s_owner,
     tr_tags = [\<lparr>tag_name = hex [65], tag_value = hex [66]\<rparr>], tr_target = hex [], tr_quantity = ''0'', tr_data_size = ''3'',
     tr_data_root = hex s_data_root, tr_reward = reward, tr_signature = hex s_sig, tr_data = hex [], tr_denomination = 0\<rparr>"

definition s_tx_digest :: bytes where
  "s_tx_digest = signature_digest sample (s_transaction ''7'') s_owner [] [] ''0'' ''7'' [] [([65], [66])] 3 s_data_root"

definition s_verified :: VerifiedTransaction where
  "s_verified = \<lparr>vt_metadata = \<lparr>om_id = sha256 sample [s_sig], om_kind = 0, om_signature = s_sig, om_anchor = [],
     om_owner_address = sha256 sample [s_owner], om_owner_public_key = s_owner, om_target = [], om_data_size = 3,
     om_content_type = None, om_content_encoding = None, om_signature_type = 1, om_format = Some 2,
     om_quantity = Some ''0'', om_reward = Some ''7'', om_denomination = Some 0, om_data_root = Some s_data_root,
     om_tags = [([65], [66])]\<rparr>, vt_inline_data = None\<rparr>"

lemma s_numbers:
  "canonical_unsigned ''0'' l = Inr ''0''" "canonical_unsigned ''7'' l = Inr ''7''"
  "canonical_unsigned ''+07'' l = Inr ''7''" "canonical_unsigned ''3'' l = Inr ''3''"
  by (simp_all add: canonical_unsigned_def strip_prefix_def Let_def is_ascii_digit_def)

lemma s_no_text: "optional_text_tag [([65], [66])] (as_bytes ''Content-Type'') = None"
  "optional_text_tag [([65], [66])] (as_bytes ''Content-Encoding'') = None"
  by (simp_all add: optional_text_tag_def eq_ignore_ascii_case_def as_bytes_def)

lemma s_commitment: "data_commitment sample (s_transaction reward) [] s_data_root = Inr (3, s_data_root)"
proof -
  have "s_data_root \<noteq> []" using s_lengths(3) by fastforce
  then show ?thesis
    by (simp add: data_commitment_def s_transaction_def s_numbers parse_unsigned_def U128_value is_ascii_digit_def
        digits_value_def digit_value_def)
qed

lemma s_digest: "signature_digest sample (s_transaction reward) s_owner [] [] ''0'' ''7'' [] [([65], [66])] 3 s_data_root = s_tx_digest"
  unfolding s_tx_digest_def signature_digest_def by (simp add: s_transaction_def)

lemma s_pss_ok: "verify_rsa_pss_digest sample (s_signers d) s_owner s_sig d legacy l = Inr ()"
  using verify_rsa_pss_digest_iff_aux [OF sample_widths, of "s_signers d" s_owner s_sig d legacy l]
    s_pss_parts [of d] by (auto simp: s_width s_bits Let_def intro!: exI [of _ "[]"])

lemma s_transaction_verified:
  assumes "reward = ''7'' \<or> reward = ''+07''"
  shows "verify_transaction sample (s_signers s_tx_digest) (s_transaction reward) (hex (sha256 sample [s_sig])) 500000 = Inr s_verified"
proof -
  have f: "tr_format (s_transaction reward) = 2" "tr_id (s_transaction reward) = hex (sha256 sample [s_sig])"
    "tr_last_tx (s_transaction reward) = hex []" "tr_owner (s_transaction reward) = hex s_owner"
    "tr_tags (s_transaction reward) = [\<lparr>tag_name = hex [65], tag_value = hex [66]\<rparr>]" "tr_target (s_transaction reward) = hex []"
    "tr_quantity (s_transaction reward) = ''0''" "tr_data_root (s_transaction reward) = hex s_data_root"
    "tr_reward (s_transaction reward) = reward" "tr_signature (s_transaction reward) = hex s_sig"
    "tr_data (s_transaction reward) = hex []" "tr_denomination (s_transaction reward) = 0"
    by (simp_all add: s_transaction_def)
  have r: "canonical_unsigned reward STR ''transaction reward'' = Inr ''7''" using assms s_numbers by auto
  have i: "decode_fixed sample 32 (hex (sha256 sample [s_sig])) l = Inr (sha256 sample [s_sig])" for l
    by (simp add: decode_fixed_def)
  have n: "s_owner \<noteq> []" "length s_owner = 34" "length s_sig = 34" by (simp_all add: s_owner_def s_sig_def)
  show ?thesis
    unfolding verify_transaction_def Let_def f
    by (simp add: r i n s_numbers decode_tag_def s_commitment s_digest s_pss_ok FORK_2_0_HEIGHT_def s_verified_def s_no_text)
qed

theorem verify_transaction_binding_witness:
  "s_verified = s_verified \<and>
   verify_transaction sample (s_signers s_tx_digest) (s_transaction ''+07'') (hex (sha256 sample [s_sig])) 500000 = Inr s_verified"
  using verify_transaction_binding [OF sample_widths s_transaction_verified [of "''7''"] s_transaction_verified [of "''+07''"]]
    s_transaction_verified [of "''+07''"] by (simp add: s_verified_def)

definition s_json :: json where
  "s_json = JObject [(''data_size'', JString ''03''), (''quantity'', JNumber ''0''), (''reward'', JString ''7''),
     (''format'', JNumber ''2''), (''id'', JString ''a''), (''last_tx'', JString ''b''), (''owner'', JString ''c''),
     (''target'', JString ''d''), (''signature'', JString ''e'')]"

definition s_decoded :: Transaction where
  "s_decoded = \<lparr>tr_format = 2, tr_id = ''a'', tr_last_tx = ''b'', tr_owner = ''c'', tr_tags = [], tr_target = ''d'',
     tr_quantity = ''0'', tr_data_size = ''3'', tr_data_root = [], tr_reward = ''7'', tr_signature = ''e'', tr_data = [],
     tr_denomination = 0\<rparr>"

lemma s_decode: "decode_transaction sample s_json = Inr s_decoded"
proof -
  have p: "parse_unsigned U8 ''2'' = Some 2" "canonical_unsigned ''2'' l = Inr ''2''" "canonical_unsigned ''03'' l = Inr ''3''" for l
    by (simp_all add: parse_unsigned_def canonical_unsigned_def strip_prefix_def Let_def is_ascii_digit_def
      digits_value_def digit_value_def U8_def)
  have n: "number_field U8 (JNumber (show_nat 2)) = Some 2" by (rule number_field_show) (simp add: U8_def)
  show ?thesis
    by (simp add: decode_transaction_def s_json_def p n s_numbers normalize_amount_def transaction_of_json_def
      string_field_def default_field_def Let_def s_decoded_def)
qed

theorem decode_transaction_type_witness:
  "decode_transaction sample s_json = Inr s_decoded \<and> canonical_number (tr_data_size s_decoded) \<and> tr_data_size s_decoded = ''3''"
  using decode_transaction_type [OF s_decode] s_decode by (simp add: s_decoded_def)

end
