(* ===== verification/DataItemProofs.thy ===== *)
theory DataItemProofs
  imports DataItem TransactionProofs
begin

text \<open>
  Properties of ANS-104 items: the Avro tags read back from every block layout, an id made from
  content determines the content, an Aptos multisignature meets its threshold with distinct keys,
  and no item makes the verifier panic.
\<close>

section \<open>Avro tags read back\<close>

definition avro_len :: "nat \<Rightarrow> bytes" where "avro_len n = varint (zigzag (int n))"

definition tag_bytes :: "ItemTag \<Rightarrow> bytes" where
  "tag_bytes t = avro_len (length (it_name t)) @ it_name t @ avro_len (length (it_value t)) @ it_value t"

definition tag_fits :: "ItemTag \<Rightarrow> bool" where
  "tag_fits t \<longleftrightarrow> length (it_name t) \<le> MAX_DATA_ITEM_TAG_NAME_BYTES \<and> length (it_value t) \<le> MAX_DATA_ITEM_TAG_VALUE_BYTES"

text \<open>A block carries its count, or the negated count and its size in bytes.\<close>

definition block_bytes :: "bool \<times> ItemTag list \<Rightarrow> bytes" where
  "block_bytes b = (case b of (sized, ts) \<Rightarrow>
     let body = concat (map tag_bytes ts) in
     if sized then varint (zigzag (- int (length ts))) @ avro_len (length body) @ body
     else avro_len (length ts) @ body)"

lemma read_avro_length_enc:
  assumes "n < 2 ^ 63" "length (pre @ avro_len n) < USIZE"
  shows "read_avro_length (pre @ avro_len n @ rest) (length pre) l = Inr (n, length (pre @ avro_len n))"
proof -
  have "n < USIZE" using assms(1) by (simp add: U64_def)
  then show ?thesis
    using read_avro_long_varint [of "int n" pre rest] assms by (simp add: read_avro_length_def avro_len_def)
qed

lemma take_bytes_enc: "length (pre @ b) < USIZE \<Longrightarrow> n = length b \<Longrightarrow> c = length pre \<Longrightarrow>
    take_bytes (pre @ b @ rest) c n l = Inr (b, length (pre @ b))"
  by (simp add: take_bytes_eq)

lemma avro_tag_enc:
  assumes "tag_fits t" "length (pre @ tag_bytes t) < USIZE"
  shows "avro_tag (pre @ tag_bytes t @ rest) (length pre) = Inr (t, length (pre @ tag_bytes t))"
proof -
  let ?n = "it_name t" and ?v = "it_value t"
  let ?ln = "avro_len (length ?n)" and ?lv = "avro_len (length ?v)"
  have lim: "length ?n < 2 ^ 63" "length ?v < 2 ^ 63"
    using assms(1) by (simp_all add: tag_fits_def MAX_DATA_ITEM_TAG_NAME_BYTES_def MAX_DATA_ITEM_TAG_VALUE_BYTES_def)
  have 1: "read_avro_length (pre @ tag_bytes t @ rest) (length pre) l = Inr (length ?n, length (pre @ ?ln))" for l
    using read_avro_length_enc [OF lim(1), of pre "?n @ ?lv @ ?v @ rest"] assms(2) by (simp add: tag_bytes_def)
  have 2: "take_bytes (pre @ tag_bytes t @ rest) (length (pre @ ?ln)) (length ?n) l = Inr (?n, length (pre @ ?ln @ ?n))" for l
    using take_bytes_enc [of "pre @ ?ln" ?n _ _ "?lv @ ?v @ rest"] assms(2) by (simp add: tag_bytes_def)
  have 3: "read_avro_length (pre @ tag_bytes t @ rest) (length (pre @ ?ln @ ?n)) l = Inr (length ?v, length (pre @ ?ln @ ?n @ ?lv))" for l
    using read_avro_length_enc [OF lim(2), of "pre @ ?ln @ ?n" "?v @ rest"] assms(2) by (simp add: tag_bytes_def)
  have 4: "take_bytes (pre @ tag_bytes t @ rest) (length (pre @ ?ln @ ?n @ ?lv)) (length ?v) l = Inr (?v, length (pre @ tag_bytes t))" for l
    using take_bytes_enc [of "pre @ ?ln @ ?n @ ?lv" ?v _ _ rest] assms(2) by (simp add: tag_bytes_def)
  show ?thesis
    using assms(1) by (simp only: avro_tag_def 1 2 3 4 bindE_Inr prod.case tag_fits_def if_True ItemTag.surjective [symmetric]) simp
qed

lemma avro_tags_enc:
  "list_all tag_fits ts \<Longrightarrow> length (pre @ concat (map tag_bytes ts)) < USIZE \<Longrightarrow>
   read_times avro_tag (length ts) (pre @ concat (map tag_bytes ts) @ rest) (length pre)
     = Inr (ts, length (pre @ concat (map tag_bytes ts)))"
proof (induction ts arbitrary: pre)
  case (Cons t ts)
  have "avro_tag (pre @ tag_bytes t @ concat (map tag_bytes ts) @ rest) (length pre) = Inr (t, length (pre @ tag_bytes t))"
    using Cons.prems by (intro avro_tag_enc) auto
  moreover have "read_times avro_tag (length ts) ((pre @ tag_bytes t) @ concat (map tag_bytes ts) @ rest) (length (pre @ tag_bytes t))
      = Inr (ts, length ((pre @ tag_bytes t) @ concat (map tag_bytes ts)))"
    using Cons.prems by (intro Cons.IH) auto
  ultimately show ?case by (simp add: add.assoc)
qed simp

lemma block_enc:
  assumes "list_all tag_fits ts" "ts \<noteq> []" "length tags + length ts \<le> n" "n < 2 ^ 63"
    and "length (pre @ block_bytes (sized, ts) @ rest) < 2 ^ 63"
  shows "avro_blocks (pre @ block_bytes (sized, ts) @ rest) n (length pre) tags
    = avro_blocks (pre @ block_bytes (sized, ts) @ rest) n (length (pre @ block_bytes (sized, ts))) (tags @ ts)"
proof -
  let ?body = "concat (map tag_bytes ts)"
  define count where "count = (if sized then - int (length ts) else int (length ts))"
  define size_bytes where "size_bytes = (if sized then avro_len (length ?body) else [])"
  let ?bs = "pre @ block_bytes (sized, ts) @ rest"
  have split: "block_bytes (sized, ts) = varint (zigzag count) @ size_bytes @ ?body"
    by (simp add: block_bytes_def count_def size_bytes_def avro_len_def Let_def)
  have small: "length ?bs < USIZE" "length ?body < 2 ^ 63" using assms(5) split by (simp_all add: U64_def)
  have count: "count \<noteq> 0" "nat \<bar>count\<bar> = length ts" "count \<noteq> - (2 ^ 63)" "count < 0 \<longleftrightarrow> sized"
    using assms(2,3,4) by (auto simp: count_def)
  have 1: "read_avro_long ?bs (length pre) = Inr (count, length (pre @ varint (zigzag count)))"
    using read_avro_long_varint [of count pre "size_bytes @ ?body @ rest"] assms(3,4) small(1) split
    by (auto simp: count_def)
  have 2: "block_bound ?bs count (length (pre @ varint (zigzag count)))
      = Inr (if sized then Some (length (pre @ block_bytes (sized, ts))) else None, length (pre @ varint (zigzag count) @ size_bytes))"
    using read_avro_long_varint [of "int (length ?body)" "pre @ varint (zigzag count)" "?body @ rest"] small split count(4)
    by (auto simp: block_bound_def size_bytes_def avro_len_def checked_add_def add.assoc)
  have 3: "read_times avro_tag (length ts) ?bs (length (pre @ varint (zigzag count) @ size_bytes))
      = Inr (ts, length (pre @ block_bytes (sized, ts)))"
    using avro_tags_enc [OF assms(1), of "pre @ varint (zigzag count) @ size_bytes" rest] small(1) split by simp
  have 4: "saturating_add USIZE (length tags) (length ts) \<le> n"
    using assms(3,4) by (auto simp: saturating_add_def)
  have ne: "length pre \<noteq> length ?bs" using split by (subst (asm) varint.simps) (auto split: if_splits)
  show ?thesis
    by (subst avro_blocks.simps)
      (simp only: ne 1 2 3 4 count bindE_Inr prod.case if_False if_True not_False_eq_True, cases sized, simp_all)
qed

lemma blocks_enc:
  assumes "list_all (\<lambda>(sized, ts). ts \<noteq> [] \<and> list_all tag_fits ts) blocks"
    and "length tags + length (concat (map snd blocks)) \<le> n" "n < 2 ^ 63"
    and "length (pre @ concat (map block_bytes blocks) @ rest) < 2 ^ 63"
  shows "avro_blocks (pre @ concat (map block_bytes blocks) @ rest) n (length pre) tags
    = avro_blocks (pre @ concat (map block_bytes blocks) @ rest) n (length (pre @ concat (map block_bytes blocks)))
        (tags @ concat (map snd blocks))"
  using assms
proof (induction blocks arbitrary: pre tags)
  case (Cons b blocks)
  obtain sized ts where b: "b = (sized, ts)" by (cases b)
  let ?rest = "concat (map block_bytes blocks) @ rest"
  have "avro_blocks (pre @ block_bytes (sized, ts) @ ?rest) n (length pre) tags
      = avro_blocks (pre @ block_bytes (sized, ts) @ ?rest) n (length (pre @ block_bytes (sized, ts))) (tags @ ts)"
    using Cons.prems b by (intro block_enc) auto
  moreover have "avro_blocks ((pre @ block_bytes b) @ ?rest) n (length (pre @ block_bytes b)) (tags @ ts)
      = avro_blocks ((pre @ block_bytes b) @ ?rest) n (length ((pre @ block_bytes b) @ concat (map block_bytes blocks)))
          ((tags @ ts) @ concat (map snd blocks))"
    using Cons.prems b by (intro Cons.IH) auto
  ultimately show ?case by (simp add: b add.assoc)
qed simp

definition avro_tags :: "(bool \<times> ItemTag list) list \<Rightarrow> bool \<Rightarrow> bytes" where
  "avro_tags blocks closed = concat (map block_bytes blocks) @ (if closed then avro_len 0 else [])"

lemma avro_len_0 [simp]: "avro_len 0 = [0]"
  by (simp add: avro_len_def zigzag_def varint.simps)

lemma parse_avro_tags_roundtrip_aux:
  assumes "list_all (\<lambda>(sized, ts). ts \<noteq> [] \<and> list_all tag_fits ts) blocks" and "length (avro_tags blocks closed) < 2 ^ 63"
    and "length (concat (map snd blocks)) \<le> MAX_DATA_ITEM_TAGS"
  shows "parse_avro_tags (avro_tags blocks closed) (length (concat (map snd blocks))) = Inr (concat (map snd blocks))"
proof -
  let ?bs = "avro_tags blocks closed" and ?tags = "concat (map snd blocks)"
  let ?stop = "length (concat (map block_bytes blocks))"
  have n: "length ?tags < 2 ^ 63" using assms(3) by (simp add: MAX_DATA_ITEM_TAGS_def)
  have "avro_blocks ?bs (length ?tags) 0 [] = avro_blocks ?bs (length ?tags) ?stop ?tags"
    using blocks_enc [OF assms(1), of "[]" "length ?tags" "[]"] assms(2) n by (simp add: avro_tags_def)
  also have "\<dots> = Inr (?tags, length ?bs)"
  proof (cases closed)
    case True
    have "read_avro_long ?bs ?stop = Inr (0, length ?bs)"
      using read_avro_long_varint [of 0 "concat (map block_bytes blocks)" "[]"] assms(2) True avro_len_0
      by (simp add: avro_tags_def avro_len_def U64_def)
    then show ?thesis using True by (subst avro_blocks.simps) (simp add: avro_tags_def)
  qed (subst avro_blocks.simps, simp add: avro_tags_def)
  finally have run: "avro_blocks ?bs (length ?tags) 0 [] = Inr (?tags, length ?bs)" .
  show ?thesis
  proof (cases "length ?tags = 0 \<and> (?bs = [] \<or> ?bs = [0, 0])")
    case True
    then show ?thesis unfolding parse_avro_tags_def by (subst if_P) auto
  next
    case False
    then show ?thesis unfolding parse_avro_tags_def by (simp only: if_False run bindE_Inr prod.case) simp
  qed
qed

text \<open>Avro tags read back: every list of tags within the limits, split into non-empty blocks in any way, each block
  with or without its size, the closing block count present or left out, is what \<open>parse_avro_tags\<close> returns
  for its encoding and its count.\<close>

theorem parse_avro_tags_roundtrip:
  assumes "list_all (\<lambda>(sized, ts). ts \<noteq> [] \<and> list_all tag_fits ts) blocks" and "length (avro_tags blocks closed) < 2 ^ 63"
    and "length (concat (map snd blocks)) \<le> MAX_DATA_ITEM_TAGS"
  shows "parse_avro_tags (avro_tags blocks closed) (length (concat (map snd blocks))) = Inr (concat (map snd blocks))"
  using assms by (rule parse_avro_tags_roundtrip_aux)

theorem parse_avro_tags_roundtrip_witness:
  "parse_avro_tags (avro_tags [(True, [\<lparr>it_name = [65], it_value = [66, 67]\<rparr>]), (False, [\<lparr>it_name = [68], it_value = []\<rparr>])] True) 2
    = Inr [\<lparr>it_name = [65], it_value = [66, 67]\<rparr>, \<lparr>it_name = [68], it_value = []\<rparr>]"
proof -
  let ?bl = "[(True, [\<lparr>it_name = [65], it_value = [66, 67]\<rparr>]), (False, [\<lparr>it_name = [68], it_value = []\<rparr>])]"
  have "length (avro_tags ?bl True) < 2 ^ 63"
    by (simp add: avro_tags_def block_bytes_def tag_bytes_def avro_len_def zigzag_def varint.simps Let_def)
  then show ?thesis
    using parse_avro_tags_roundtrip [of ?bl True]
    by (simp add: tag_fits_def MAX_DATA_ITEM_TAGS_def MAX_DATA_ITEM_TAG_NAME_BYTES_def MAX_DATA_ITEM_TAG_VALUE_BYTES_def numeral_2_eq_2)
qed

section \<open>The bytes of the tags determine the tags\<close>

lemma avro_blocks_det: "avro_blocks bs n c ts = Inr r \<Longrightarrow> avro_blocks bs m c ts = Inr r' \<Longrightarrow> r = r'"
proof (induction bs n c ts rule: avro_blocks.induct)
  case (1 bs n c ts)
  show ?case
  proof (cases "c = length bs")
    case True
    then show ?thesis using "1.prems" by (simp add: avro_blocks.simps)
  next
    case False
    note u = "1.prems" [unfolded avro_blocks.simps [of bs _ c]]
    from u obtain k d where k: "read_avro_long bs c = Inr (k, d)" using False by (auto simp: res_simps)
    show ?thesis
    proof (cases "k = 0")
      case True
      then show ?thesis using u False k by simp
    next
      case nz: False
      from u obtain e d1 t d2 where b: "block_bound bs k d = Inr (e, d1)" "read_times avro_tag (nat \<bar>k\<bar>) bs d1 = Inr (t, d2)"
        using False k nz by (auto simp: res_simps split: if_splits)
      have "avro_blocks bs n d2 (ts @ t) = Inr r" "avro_blocks bs m d2 (ts @ t) = Inr r'"
        using u False k nz b by (auto simp: res_simps split: if_splits)
      then show ?thesis
        using "1.IH" [OF False k refl nz _ _ b(1) refl b(2) refl] u False k nz b by (auto simp: res_simps split: if_splits)
    qed
  qed
qed

lemma parse_avro_tags_count: "parse_avro_tags bs n = Inr ts \<Longrightarrow> length ts = n"
  by (auto simp: parse_avro_tags_def res_simps split: if_splits)

lemma parse_avro_tags_zero:
  assumes "bs = [] \<or> bs = [0, 0]" "parse_avro_tags bs m = Inr ts"
  shows "ts = []"
proof (cases "m = 0")
  case True
  then show ?thesis using parse_avro_tags_count [OF assms(2)] by simp
next
  case False
  have z: "read_avro_long [0, 0] 0 = Inr (0, 1)"
    using read_avro_long_varint [of 0 "[]" "[0]"] avro_len_0 by (simp add: avro_len_def U64_def)
  show ?thesis
    using assms False z by (auto simp: parse_avro_tags_def avro_blocks.simps)
qed

lemma parse_avro_tags_det:
  assumes "parse_avro_tags bs n = Inr ts" "parse_avro_tags bs m = Inr ts'"
  shows "ts = ts'"
proof (cases "bs = [] \<or> bs = [0, 0]")
  case True
  then show ?thesis using assms parse_avro_tags_zero by blast
next
  case False
  then have "\<exists>c c'. avro_blocks bs n 0 [] = Inr (ts, c) \<and> avro_blocks bs m 0 [] = Inr (ts', c')"
    using assms by (auto simp: parse_avro_tags_def res_simps)
  then show ?thesis using avro_blocks_det by blast
qed


section \<open>An id made from content determines the content\<close>

lemma header_facts:
  assumes "read_data_item_header E item i = Inr h"
  shows "(dh_unsigned h \<longrightarrow> \<not> dh_legacy h \<and> dh_owner h = replicate 512 0)
    \<and> (dh_legacy h \<longrightarrow> sha256 E [dh_signature h] = i) \<and> dh_signature h \<noteq> []
    \<and> (\<exists>n. parse_avro_tags (dh_raw_tags h) n = Inr (dh_tags h)) \<and> dh_signature_type h < USIZE"
proof -
  define header where "header = take (min (length item) MAX_DATA_ITEM_FIXED_HEADER_BYTES) item"
  define legacy where "legacy \<longleftrightarrow> 512 \<le> length header \<and> sha256 E [take 512 header] = i"
  have rd: "content_read_at item 0 (min (length item) MAX_DATA_ITEM_FIXED_HEADER_BYTES) = Inr hd \<Longrightarrow> hd = header" for hd
    by (auto simp: content_read_at_def content_slice_def res_simps sub_bytes_def header_def)
  obtain ty c ss os sig c1 own c2 tgt c3 anc c4 cnt raw n tags te where
    1: "(if legacy then Inr (1, 0) else read_le_u16 header 0 STR ''data item signature type'') = Inr (ty, c)"
    "data_item_signature_sizes ty = Inr (ss, os)" "take_bytes header c ss STR ''data item signature'' = Inr (sig, c1)"
    "take_bytes header c1 os STR ''data item owner'' = Inr (own, c2)" "parse_avro_tags raw n = Inr tags"
    "h = \<lparr>dh_legacy = legacy, dh_unsigned = (\<not> legacy \<and> ty = 1 \<and> list_all (\<lambda>byte. byte = 0) sig \<and> list_all (\<lambda>byte. byte = 0) own),
       dh_signature_type = ty, dh_signature = sig, dh_owner = own, dh_target = tgt, dh_anchor = anc, dh_raw_tags = raw,
       dh_tags = tags, dh_data_offset = te\<rparr>"
  proof -
    obtain hd where "content_read_at item 0 (min (length item) MAX_DATA_ITEM_FIXED_HEADER_BYTES) = Inr hd"
      using assms by (auto simp: read_data_item_header_def res_simps)
    then have r: "content_read_at item 0 (min (length item) MAX_DATA_ITEM_FIXED_HEADER_BYTES) = Inr header"
      using rd by blast
    show thesis
      using assms that
      unfolding read_data_item_header_def r bindE_Inr Let_def legacy_def [symmetric]
      by (simp only: bindE_eq_Inr ensure_eq_Inr split_paired_Ex prod.case sum.inject) blast
  qed
  have ty: "1 \<le> ty \<and> ty \<le> 7" "64 \<le> ss" "ty = 1 \<Longrightarrow> ss = 512 \<and> os = 512"
    using 1(2) by (auto simp: data_item_signature_sizes_def split: if_splits)
  have len: "length sig = ss" "length own = os" using 1(3,4) by (auto simp: take_bytes_eq)
  have "sha256 E [sig] = i" if legacy
    using that 1(1,3) ty(3) by (auto simp: take_bytes_eq legacy_def)
  moreover have "own = replicate 512 0" if "ty = 1" "list_all (\<lambda>byte. byte = 0) own"
    using that len(2) ty(3) by (auto simp: list_all_iff intro!: replicate_eqI [symmetric] nth_equalityI)
  moreover have "sig \<noteq> []" "ty < USIZE" using len(1) ty(1,2) by (auto simp: U64_def)
  ultimately show ?thesis using 1(5) by (auto simp: 1(6))
qed

definition identity_tree :: "nat \<Rightarrow> bytes \<Rightarrow> bytes \<Rightarrow> bytes \<Rightarrow> bytes \<Rightarrow> tree" where
  "identity_tree signature_type target anchor raw_tags data =
     Node [Blob (as_bytes ''dataitem''), Blob (as_bytes ''1''), Blob (as_bytes (show_nat signature_type)),
       Blob (replicate 512 0), Blob target, Blob anchor, Blob raw_tags, Blob data]"

text \<open>What the content id of an item commits to.\<close>

definition item_tree :: "deps \<Rightarrow> bytes \<Rightarrow> bytes \<Rightarrow> tree" where
  "item_tree E item i = (case read_data_item_header E item i of
     Inr h \<Rightarrow> identity_tree (dh_signature_type h) (dh_target h) (dh_anchor h) (dh_raw_tags h)
       (sub_bytes item (dh_data_offset h) (length item))
   | Inl _ \<Rightarrow> Blob [])"

lemma identity_payload_tree:
  "data_item_signature_payload E ty (replicate 512 0) target anchor raw
     (sha384 E [sha384 E [as_bytes (''blob'' @ show_nat (length data))], sha384 E [data]])
   = tree_hash E (identity_tree ty target anchor raw data)"
  by (simp add: data_item_signature_payload_def identity_tree_def deep_hash_blob_def Let_def del: append.simps)

text \<open>An id made from content: of an unsigned item, or not the hash of the signature.\<close>

definition content_named :: "deps \<Rightarrow> bytes \<Rightarrow> VerifiedItem \<Rightarrow> bool" where
  "content_named E i v \<longleftrightarrow> vi_signature v = [] \<or> sha256 E [vi_signature v] \<noteq> i"

lemma content_named_facts:
  assumes "verify_data_item E S C item i = Inr v" and "content_named E i v"
  shows "\<exists>raw n. parse_avro_tags raw n = Inr (vi_tags v) \<and> sha256 E [tree_hash E (item_tree E item i)] = i
    \<and> item_tree E item i = identity_tree (vi_signature_type v) (vi_target v) (vi_anchor v) raw (vi_data v)
    \<and> vi_body_hash v = sha256 E [vi_data v]"
proof -
  obtain h where h: "read_data_item_header E item i = Inr h" "verify_data_item_header E S C item h i = Inr v"
    using assms(1) by (auto simp: verify_data_item_def res_simps)
  note hf = header_facts [OF h(1)]
  let ?data = "sub_bytes item (dh_data_offset h) (length item)"
  let ?hash = "sha384 E [sha384 E [as_bytes (''blob'' @ show_nat (length ?data))], sha384 E [?data]]"
  let ?pay = "\<lambda>owner. data_item_signature_payload E (dh_signature_type h) owner (dh_target h) (dh_anchor h) (dh_raw_tags h) ?hash"
  from h(2) obtain sb ob where
    named: "dh_unsigned h \<or> \<not> dh_legacy h \<and> sha256 E [dh_signature h] \<noteq> i \<Longrightarrow>
      sha256 E [if dh_unsigned h then if dh_legacy h then undefined else ?pay (dh_owner h) else ?pay (replicate 512 0)] = i"
    and out: "(sb, ob) = (if dh_unsigned h then ([], []) else (dh_signature h, dh_owner h))"
    and v: "v = \<lparr>vi_data = ?data, vi_data_offset = dh_data_offset h, vi_item_size = length item, vi_body_hash = sha256 E [?data],
         vi_signature_type = dh_signature_type h, vi_signature = sb, vi_owner = ob,
         vi_target = dh_target h, vi_anchor = dh_anchor h, vi_tags = dh_tags h\<rparr>"
    using hf unfolding verify_data_item_header_def Let_def bindE_eq_Inr ensure_eq_Inr content_slice_def
    by (auto split: if_splits simp: res_simps)
  have "dh_unsigned h \<or> \<not> dh_legacy h \<and> sha256 E [dh_signature h] \<noteq> i"
    using assms(2) hf out v by (auto simp: content_named_def split: if_splits)
  from named [OF this] have "sha256 E [?pay (replicate 512 0)] = i"
    using hf by (auto split: if_splits)
  then have i: "sha256 E [tree_hash E (identity_tree (dh_signature_type h) (dh_target h) (dh_anchor h) (dh_raw_tags h) ?data)] = i"
    unfolding identity_payload_tree .
  have tree: "item_tree E item i = identity_tree (dh_signature_type h) (dh_target h) (dh_anchor h) (dh_raw_tags h) ?data"
    by (simp add: item_tree_def h(1))
  have "vi_tags v = dh_tags h" "vi_body_hash v = sha256 E [vi_data v]" "vi_data v = ?data" "vi_target v = dh_target h"
    "vi_anchor v = dh_anchor h" "vi_signature_type v = dh_signature_type h"
    by (simp_all only: v VerifiedItem.select_convs)
  then show ?thesis using hf i tree by metis
qed

lemma identity_tree_inj:
  "identity_tree a b c d e = identity_tree a' b' c' d' e' \<Longrightarrow> a = a' \<and> b = b' \<and> c = c' \<and> d = d' \<and> e = e'"
proof -
  assume a: "identity_tree a b c d e = identity_tree a' b' c' d' e'"
  then have "show_nat a = show_nat a'" using as_bytes_inj by (simp add: identity_tree_def)
  then have "a = a'" using show_nat_ok by metis
  then show ?thesis using a by (simp add: identity_tree_def)
qed

text \<open>C16. An id made from content determines the content: two items that verify under one id that is not the hash of
  their signatures, or that are unsigned, have the same signature type, target, anchor, tags and data, whatever
  their keys and signatures, unless SHA-256 collides on their two identity payloads or the deep hash on their two
  trees, which it does not where SHA-384 is free of collisions (\<open>deep_hash_injective\<close>).\<close>

theorem data_item_content_binding:
  assumes "verify_data_item E S C item i = Inr v" and "verify_data_item E S C item' i = Inr v'"
    and "content_named E i v" and "content_named E i v'"
    and "sha256 E [tree_hash E (item_tree E item i)] = sha256 E [tree_hash E (item_tree E item' i)]
      \<Longrightarrow> tree_hash E (item_tree E item i) = tree_hash E (item_tree E item' i)"
    and "tree_hash E (item_tree E item i) = tree_hash E (item_tree E item' i) \<Longrightarrow> item_tree E item i = item_tree E item' i"
  shows "vi_signature_type v = vi_signature_type v' \<and> vi_target v = vi_target v' \<and> vi_anchor v = vi_anchor v'
    \<and> vi_tags v = vi_tags v' \<and> vi_data v = vi_data v' \<and> vi_body_hash v = vi_body_hash v'"
proof -
  obtain raw n where 1: "parse_avro_tags raw n = Inr (vi_tags v)" "sha256 E [tree_hash E (item_tree E item i)] = i"
    "item_tree E item i = identity_tree (vi_signature_type v) (vi_target v) (vi_anchor v) raw (vi_data v)"
    "vi_body_hash v = sha256 E [vi_data v]"
    using content_named_facts [OF assms(1,3)] by blast
  obtain raw' n' where 2: "parse_avro_tags raw' n' = Inr (vi_tags v')" "sha256 E [tree_hash E (item_tree E item' i)] = i"
    "item_tree E item' i = identity_tree (vi_signature_type v') (vi_target v') (vi_anchor v') raw' (vi_data v')"
    "vi_body_hash v' = sha256 E [vi_data v']"
    using content_named_facts [OF assms(2,4)] by blast
  have "item_tree E item i = item_tree E item' i"
    using assms(5,6) 1(2) 2(2) by simp
  then have eqs: "vi_signature_type v = vi_signature_type v' \<and> vi_target v = vi_target v' \<and> vi_anchor v = vi_anchor v'
      \<and> raw = raw' \<and> vi_data v = vi_data v'"
    unfolding 1(3) 2(3) by (rule identity_tree_inj)
  then have "vi_tags v = vi_tags v'" using parse_avro_tags_det 1(1) 2(1) by blast
  then show ?thesis using eqs 1(4) 2(4) by simp
qed

section \<open>The header reads back\<close>

definition optional_bytes :: "bytes \<Rightarrow> bytes" where
  "optional_bytes b = (if b = [] then [0] else 1 # b)"

text \<open>The fixed part of an item with a signature type, and the item.\<close>

definition fixed_bytes :: "nat \<Rightarrow> bytes \<Rightarrow> bytes \<Rightarrow> bytes \<Rightarrow> bytes \<Rightarrow> nat \<Rightarrow> nat \<Rightarrow> bytes" where
  "fixed_bytes ty sig own target anchor n raw_len = le_bytes 2 ty @ sig @ own @ optional_bytes target
     @ optional_bytes anchor @ le_bytes 8 n @ le_bytes 8 raw_len"

definition item_bytes :: "nat \<Rightarrow> bytes \<Rightarrow> bytes \<Rightarrow> bytes \<Rightarrow> bytes \<Rightarrow> nat \<Rightarrow> bytes \<Rightarrow> bytes \<Rightarrow> bytes" where
  "item_bytes ty sig own target anchor n raw data =
     fixed_bytes ty sig own target anchor n (length raw) @ raw @ data"

lemma read_optional_32_enc:
  assumes "length b \<in> {0, 32}" "length (pre @ optional_bytes b) < USIZE"
  shows "read_optional_32 (pre @ optional_bytes b @ rest) (length pre) l = Inr (b, length (pre @ optional_bytes b))"
proof (cases "b = []")
  case True
  then show ?thesis using assms take_bytes_enc [of pre "[0]" 1 _ rest] by (simp add: read_optional_32_def optional_bytes_def)
next
  case False
  have "take_bytes (pre @ [1] @ b @ rest) (length pre) 1 l = Inr ([1], length (pre @ [1]))"
    using assms False by (intro take_bytes_enc) (auto simp: optional_bytes_def)
  moreover have "take_bytes ((pre @ [1]) @ b @ rest) (length (pre @ [1])) 32 l = Inr (b, length ((pre @ [1]) @ b))"
    using assms False by (intro take_bytes_enc) (auto simp: optional_bytes_def)
  ultimately show ?thesis using False by (simp add: read_optional_32_def optional_bytes_def)
qed

lemma read_le_enc:
  "n < 2 ^ 16 \<Longrightarrow> length pre + 2 < USIZE \<Longrightarrow> read_le_u16 (pre @ le_bytes 2 n @ rest) (length pre) l = Inr (n, length pre + 2)"
  "n < 2 ^ 64 \<Longrightarrow> length pre + 8 < USIZE \<Longrightarrow> read_le_u64 (pre @ le_bytes 8 n @ rest) (length pre) l = Inr (n, length pre + 8)"
  using take_bytes_enc [of pre "le_bytes 2 n" 2 _ rest] take_bytes_enc [of pre "le_bytes 8 n" 8 _ rest]
    le_nat_le_bytes [of n 2] le_nat_le_bytes [of n 8]
  by (simp_all add: read_le_u16_def read_le_u64_def)

lemma sizes_bound: "data_item_signature_sizes ty = Inr (a, b) \<Longrightarrow> 1 \<le> ty \<and> ty \<le> 7 \<and> a \<le> 2052 \<and> b \<le> 1025"
  by (auto simp: data_item_signature_sizes_def split: if_splits)

lemma read_data_item_header_enc:
  assumes "data_item_signature_sizes ty = Inr (length sig, length own)"
    and "length target \<in> {0, 32}" and "length anchor \<in> {0, 32}"
    and "parse_avro_tags raw (length tags) = Inr tags" and "length tags \<le> MAX_DATA_ITEM_TAGS"
    and "length raw \<le> MAX_DATA_ITEM_TAG_BYTES"
    and "length (item_bytes ty sig own target anchor (length tags) raw data) < USIZE"
    and "sha256 E [take 512 (item_bytes ty sig own target anchor (length tags) raw data)] \<noteq> i"
  shows "read_data_item_header E (item_bytes ty sig own target anchor (length tags) raw data) i =
    Inr \<lparr>dh_legacy = False,
      dh_unsigned = (ty = 1 \<and> list_all (\<lambda>b. b = 0) sig \<and> list_all (\<lambda>b. b = 0) own),
      dh_signature_type = ty, dh_signature = sig, dh_owner = own, dh_target = target, dh_anchor = anchor,
      dh_raw_tags = raw, dh_tags = tags,
      dh_data_offset = length (fixed_bytes ty sig own target anchor (length tags) (length raw) @ raw)\<rparr>"
proof -
  let ?n = "length tags" and ?l = "length raw"
  let ?fixed = "fixed_bytes ty sig own target anchor ?n ?l"
  let ?item = "item_bytes ty sig own target anchor ?n raw data"
  define rest where "rest = take (MAX_DATA_ITEM_FIXED_HEADER_BYTES - length ?fixed) (raw @ data)"
  note sz = sizes_bound [OF assms(1)]
  have fl: "length ?fixed \<le> MAX_DATA_ITEM_FIXED_HEADER_BYTES"
    using assms(2,3) sz by (auto simp: fixed_bytes_def optional_bytes_def MAX_DATA_ITEM_FIXED_HEADER_BYTES_def)
  have fs: "length ?fixed < USIZE" "?n < USIZE" "?n < 2 ^ 64" "?l < USIZE" "?l < 2 ^ 64"
    using assms(5,6,7) by (simp_all add: item_bytes_def MAX_DATA_ITEM_TAGS_def U64_def)
  have head: "content_read_at ?item 0 (min (length ?item) MAX_DATA_ITEM_FIXED_HEADER_BYTES) = Inr (?fixed @ rest)"
  proof -
    have m: "take (min (length xs) n) xs = take n xs" for xs :: bytes and n by (simp add: min_def)
    have "take (min (length ?item) MAX_DATA_ITEM_FIXED_HEADER_BYTES) ?item = ?fixed @ rest"
      unfolding m using fl by (simp add: item_bytes_def rest_def)
    moreover have "min (length ?item) MAX_DATA_ITEM_FIXED_HEADER_BYTES < USIZE" using assms(7) by simp
    ultimately show ?thesis by (simp add: content_read_at_def content_slice_def checked_add_def sub_bytes_def)
  qed
  have leg: "\<not> (512 \<le> length (?fixed @ rest) \<and> sha256 E [take 512 (?fixed @ rest)] = i)"
  proof -
    have "take 512 (?fixed @ rest) = take 512 ?item" if "512 \<le> length (?fixed @ rest)"
      using that fl by (auto simp: item_bytes_def rest_def MAX_DATA_ITEM_FIXED_HEADER_BYTES_def min_def)
    then show ?thesis using assms(8) by auto
  qed
  let ?p1 = "le_bytes 2 ty" and ?o = "optional_bytes target" and ?a = "optional_bytes anchor"
  have 1: "read_le_u16 (?fixed @ rest) 0 l = Inr (ty, length ?p1)" for l
    using read_le_enc(1) [of ty "[]"] sz by (simp add: fixed_bytes_def U64_def)
  have 2: "take_bytes (?fixed @ rest) (length ?p1) (length sig) l = Inr (sig, length (?p1 @ sig))" for l
    using take_bytes_enc [of ?p1 sig _ _ "own @ ?o @ ?a @ le_bytes 8 ?n @ le_bytes 8 ?l @ rest"] fs(1) by (simp add: fixed_bytes_def)
  have 3: "take_bytes (?fixed @ rest) (length (?p1 @ sig)) (length own) l = Inr (own, length (?p1 @ sig @ own))" for l
    using take_bytes_enc [of "?p1 @ sig" own _ _ "?o @ ?a @ le_bytes 8 ?n @ le_bytes 8 ?l @ rest"] fs(1) by (simp add: fixed_bytes_def)
  have 4: "read_optional_32 (?fixed @ rest) (length (?p1 @ sig @ own)) l = Inr (target, length (?p1 @ sig @ own @ ?o))" for l
    using read_optional_32_enc [OF assms(2), of "?p1 @ sig @ own" "?a @ le_bytes 8 ?n @ le_bytes 8 ?l @ rest"] fs(1) by (simp add: fixed_bytes_def)
  have 5: "read_optional_32 (?fixed @ rest) (length (?p1 @ sig @ own @ ?o)) l = Inr (anchor, length (?p1 @ sig @ own @ ?o @ ?a))" for l
    using read_optional_32_enc [OF assms(3), of "?p1 @ sig @ own @ ?o" "le_bytes 8 ?n @ le_bytes 8 ?l @ rest"] fs(1) by (simp add: fixed_bytes_def)
  have 6: "read_le_u64 (?fixed @ rest) (length (?p1 @ sig @ own @ ?o @ ?a)) l = Inr (?n, length (?p1 @ sig @ own @ ?o @ ?a @ le_bytes 8 ?n))" for l
    using read_le_enc(2) [OF fs(3), of "?p1 @ sig @ own @ ?o @ ?a" "le_bytes 8 ?l @ rest"] fs(1) by (simp add: fixed_bytes_def)
  have 7: "read_le_u64 (?fixed @ rest) (length (?p1 @ sig @ own @ ?o @ ?a @ le_bytes 8 ?n)) l = Inr (?l, length ?fixed)" for l
    using read_le_enc(2) [OF fs(5), of "?p1 @ sig @ own @ ?o @ ?a @ le_bytes 8 ?n" rest] fs(1) by (simp add: fixed_bytes_def)
  have 8: "checked_add USIZE (length ?fixed) ?l = Some (length (?fixed @ raw))"
    using assms(7) by (simp add: checked_add_def item_bytes_def)
  have 9: "(if length (?fixed @ raw) \<le> length (?fixed @ rest) then slice (?fixed @ rest) (length ?fixed) (length (?fixed @ raw))
       else with_context (content_read_at ?item (length ?fixed) ?l) m) = Inr raw" for m
  proof (cases "length raw \<le> length rest")
    case True
    then have "take (length raw) rest = raw" by (auto simp: rest_def min_def split: if_splits)
    then show ?thesis using True by (simp add: sub_bytes_def)
  next
    case False
    then show ?thesis using 8
      by (simp add: with_context_def content_read_at_def content_slice_def sub_bytes_def item_bytes_def)
  qed
  show ?thesis
    unfolding read_data_item_header_def head bindE_Inr Let_def
    by (simp only: leg if_False 1 2 3 4 5 6 7 8 9 assms(1,4,5,6) fs bindE_Inr prod.case contextE_simps if_True simp_thms)
qed


text \<open>Items read back: the header of an item laid out as ANS-104 prescribes, under an id that is not the hash of its first
  512 bytes, is read as its fields, the data starting after the tags, whether or not the tags lie within the
  fixed prefix that is read first.\<close>

theorem read_data_item_header_roundtrip:
  assumes "data_item_signature_sizes ty = Inr (length sig, length own)"
    and "length target \<in> {0, 32}" and "length anchor \<in> {0, 32}"
    and "parse_avro_tags raw (length tags) = Inr tags" and "length tags \<le> MAX_DATA_ITEM_TAGS"
    and "length raw \<le> MAX_DATA_ITEM_TAG_BYTES"
    and "length (item_bytes ty sig own target anchor (length tags) raw data) < USIZE"
    and "sha256 E [take 512 (item_bytes ty sig own target anchor (length tags) raw data)] \<noteq> i"
  shows "read_data_item_header E (item_bytes ty sig own target anchor (length tags) raw data) i =
    Inr \<lparr>dh_legacy = False,
      dh_unsigned = (ty = 1 \<and> list_all (\<lambda>b. b = 0) sig \<and> list_all (\<lambda>b. b = 0) own),
      dh_signature_type = ty, dh_signature = sig, dh_owner = own, dh_target = target, dh_anchor = anchor,
      dh_raw_tags = raw, dh_tags = tags,
      dh_data_offset = length (fixed_bytes ty sig own target anchor (length tags) (length raw) @ raw)\<rparr>"
  using assms by (rule read_data_item_header_enc)

definition w_deps :: deps where
  "w_deps = sample\<lparr>x_sha256 := \<lambda>b. if length b = 48 then replicate 32 7 else replicate 32 0\<rparr>"

definition w_curves :: curves where
  "w_curves = \<lparr>z_ed_key = \<lambda>k. True, z_ed_verify = \<lambda>k m s. s = k @ k, z_secp_key = \<lambda>k. True, z_secp_verify = \<lambda>k m s. True,
     z_secp_recover = \<lambda>h s r. Some (replicate 65 4)\<rparr>"

definition w_tags :: "ItemTag list" where "w_tags = [\<lparr>it_name = [65], it_value = [66]\<rparr>]"

definition w_raw :: bytes where "w_raw = avro_tags [(False, w_tags)] True"

text \<open>An item signed with the key \<open>k, k, ...\<close>.\<close>

definition w_item :: "byte \<Rightarrow> bytes" where
  "w_item k = item_bytes 2 (replicate 64 k) (replicate 32 k) [] (replicate 32 5) (length w_tags) w_raw [1, 2, 3]"

definition w_header :: "byte \<Rightarrow> DataItemHeader" where
  "w_header k = \<lparr>dh_legacy = False, dh_unsigned = False, dh_signature_type = 2, dh_signature = replicate 64 k,
     dh_owner = replicate 32 k, dh_target = [], dh_anchor = replicate 32 5, dh_raw_tags = w_raw, dh_tags = w_tags,
     dh_data_offset = 154\<rparr>"

definition w_verified :: "byte \<Rightarrow> VerifiedItem" where
  "w_verified k = \<lparr>vi_data = [1, 2, 3], vi_data_offset = 154, vi_item_size = 157, vi_body_hash = replicate 32 0,
     vi_signature_type = 2, vi_signature = replicate 64 k, vi_owner = replicate 32 k, vi_target = [],
     vi_anchor = replicate 32 5, vi_tags = w_tags\<rparr>"

lemma w_raw_bytes: "w_raw = [2, 2, 65, 2, 66, 0]"
  by (simp add: w_raw_def w_tags_def avro_tags_def block_bytes_def tag_bytes_def avro_len_def zigzag_def varint.simps Let_def)

lemma w_raw_tags: "parse_avro_tags w_raw (length w_tags) = Inr w_tags"
proof -
  have "length w_raw < 2 ^ 63" by (simp add: w_raw_bytes)
  moreover have "length w_tags \<le> MAX_DATA_ITEM_TAGS" by (simp add: w_tags_def MAX_DATA_ITEM_TAGS_def)
  moreover have "list_all tag_fits w_tags" "w_tags \<noteq> []"
    by (simp_all add: w_tags_def tag_fits_def MAX_DATA_ITEM_TAG_NAME_BYTES_def MAX_DATA_ITEM_TAG_VALUE_BYTES_def)
  ultimately show ?thesis
    using parse_avro_tags_roundtrip_aux [of "[(False, w_tags)]" True] by (simp add: w_raw_def [symmetric])
qed

lemma w_sha: "sha256 w_deps ps = (if length (concat ps) = 48 then replicate 32 7 else replicate 32 0)"
  by (simp add: sha256_def w_deps_def)

lemma w_item_length: "length (w_item k) = 157"
  by (simp add: w_item_def item_bytes_def fixed_bytes_def optional_bytes_def w_raw_bytes)

lemma w_sizes:
  "data_item_signature_sizes 2 = Inr (length (replicate 64 (k::byte)), length (replicate 32 k))"
  "length ([] :: bytes) \<in> {0, 32}" "length (replicate 32 (5::byte)) \<in> {0, 32}"
  "length w_tags \<le> MAX_DATA_ITEM_TAGS" "length w_raw \<le> MAX_DATA_ITEM_TAG_BYTES" "length (w_item k) < USIZE"
  "sha256 w_deps [take 512 (w_item k)] \<noteq> replicate 32 7"
  by (simp_all add: data_item_signature_sizes_def w_tags_def MAX_DATA_ITEM_TAGS_def MAX_DATA_ITEM_TAG_BYTES_def w_raw_bytes
      w_item_length w_sha U64_def)

lemmas w_facts = w_sizes(1,2,3) w_raw_tags w_sizes(4,5) w_sizes(6,7) [unfolded w_item_def]

lemma w_header_eq:
  "\<lparr>dh_legacy = False, dh_unsigned = (2 = (1::nat) \<and> list_all (\<lambda>b. b = 0) (replicate 64 k) \<and> list_all (\<lambda>b. b = 0) (replicate 32 k)),
      dh_signature_type = 2, dh_signature = replicate 64 k, dh_owner = replicate 32 k, dh_target = [],
      dh_anchor = replicate 32 5, dh_raw_tags = w_raw, dh_tags = w_tags,
      dh_data_offset = length (fixed_bytes 2 (replicate 64 k) (replicate 32 k) [] (replicate 32 5) (length w_tags) (length w_raw) @ w_raw)\<rparr>
   = w_header k"
  by (simp add: w_header_def fixed_bytes_def optional_bytes_def w_raw_bytes)

theorem read_data_item_header_roundtrip_witness:
  "read_data_item_header w_deps (w_item 9) (replicate 32 7) = Inr (w_header 9)"
  using read_data_item_header_roundtrip [OF w_facts, of 9] unfolding w_header_eq w_item_def .

section \<open>A content id with two signers\<close>

lemma w_header_read: "read_data_item_header w_deps (w_item k) (replicate 32 7) = Inr (w_header k)"
  using read_data_item_header_enc [OF w_facts, of k] unfolding w_header_eq w_item_def .

lemma w_item_verified: "verify_data_item w_deps S w_curves (w_item k) (replicate 32 7) = Inr (w_verified k)"
proof -
  have w: "hash_widths w_deps" by (simp add: w_deps_def hash_widths_def sample_def sample_hash_def)
  have data: "sub_bytes (w_item k) 154 157 = [1, 2, 3]"
    by (simp add: sub_bytes_def w_item_def item_bytes_def fixed_bytes_def optional_bytes_def w_raw_bytes)
  have pay: "sha256 w_deps [data_item_signature_payload w_deps 2 (replicate 512 0) [] (replicate 32 5) w_raw h] = replicate 32 7" for h
  proof -
    have "length (data_item_signature_payload w_deps 2 (replicate 512 0) [] (replicate 32 5) w_raw h) = 48"
      unfolding data_item_signature_payload_def tree_hash_chain(2) using w by (intro chain_length) simp_all
    then show ?thesis by (simp add: w_sha)
  qed
  have sig: "sha256 w_deps [replicate 64 k] \<noteq> replicate 32 7" by (simp add: w_sha)
  have body: "sha256 w_deps [[1, 2, 3]] = replicate 32 0" by (simp add: w_sha)
  have ok: "verify_data_item_signature w_deps S w_curves 2 (replicate 32 k) (replicate 64 k) p = Inr ()" for p
    by (simp add: verify_data_item_signature_def verify_ed25519_def w_curves_def replicate_add [symmetric])
  show ?thesis
    using sig by (simp add: verify_data_item_def w_header_read verify_data_item_header_def w_header_def content_slice_def w_item_length
      data pay ok w_verified_def Let_def body)
qed

theorem data_item_content_binding_witness:
  "w_item 8 \<noteq> w_item 9 \<and> verify_data_item w_deps (s_signers []) w_curves (w_item 8) (replicate 32 7) = Inr (w_verified 8)
   \<and> verify_data_item w_deps (s_signers []) w_curves (w_item 9) (replicate 32 7) = Inr (w_verified 9)
   \<and> vi_data (w_verified 8) = vi_data (w_verified 9)"
proof -
  have n: "content_named w_deps (replicate 32 7) (w_verified k)" for k
    by (simp add: content_named_def w_verified_def w_sha)
  have t: "item_tree w_deps (w_item 8) (replicate 32 7) = item_tree w_deps (w_item 9) (replicate 32 7)"
    by (simp add: item_tree_def w_header_read w_header_def w_item_length)
      (simp add: identity_tree_def sub_bytes_def w_item_def item_bytes_def fixed_bytes_def optional_bytes_def w_raw_bytes)
  have "w_item 8 \<noteq> w_item 9"
    by (simp add: w_item_def item_bytes_def fixed_bytes_def)
  then show ?thesis
    using data_item_content_binding [OF w_item_verified [of "s_signers []" 8] w_item_verified [of "s_signers []" 9] n n] t w_item_verified by metis
qed

section \<open>Aptos multisignatures\<close>

lemma length_filter_sum: "length (filter P xs) = sum_list (map (\<lambda>x. of_bool (P x)) xs)"
  by (induction xs) auto

text \<open>The positions a multisignature marks, the most significant bit of its bitmap first.\<close>

definition aptos_signers :: "bytes \<Rightarrow> nat set" where
  "aptos_signers signature = {k. k < 32 \<and> bit (signature ! (2048 + k div 8)) (7 - k mod 8)}"

lemma in_bitmap_bit: "in_bitmap bitmap k \<longleftrightarrow> bit (bitmap ! (k div 8)) (7 - k mod 8)"
proof -
  have "drop_bit m (0x80 :: byte) = 2 ^ (7 - m)" if "m < 8" for m
  proof -
    from that have "m \<in> {0, 1, 2, 3, 4, 5, 6, 7}" by auto
    then show ?thesis by (auto simp: drop_bit_eq_div)
  qed
  from this [of "k mod 8"] show ?thesis
    by (simp add: in_bitmap_def and_exp_eq_0_iff_not_bit)
qed

lemma upt_8: "[0..<8] = [0, 1, 2, 3, 4, 5, 6, 7]" by (simp add: upt_rec)

lemma count_ones_bits: "count_ones b = length (filter (\<lambda>j. bit b (7 - j)) [0..<8])"
  by (simp add: count_ones_def length_filter_sum upt_8)

lemma aptos_count:
  assumes "length signature = 2052"
  shows "sum_list (map count_ones (drop 2048 signature)) = card (aptos_signers signature)"
proof -
  have "drop 2048 signature = [signature ! 2048, signature ! 2049, signature ! 2050, signature ! 2051]"
    using assms by (intro nth_equalityI) (auto simp: nth_Cons' less_Suc_eq numeral_eq_Suc)
  moreover have "[0..<32::nat] = map ((+) 0) [0..<8] @ map ((+) 8) [0..<8] @ map ((+) 16) [0..<8] @ map ((+) 24) [0..<8]"
    by (simp add: upt_rec)
  moreover have "card (aptos_signers signature) = length (filter (\<lambda>k. bit (signature ! (2048 + k div 8)) (7 - k mod 8)) [0..<32])"
    using distinct_card [of "filter (\<lambda>k. bit (signature ! (2048 + k div 8)) (7 - k mod 8)) [0..<32]"]
    by (simp add: aptos_signers_def Collect_conj_eq [symmetric] conj_commute)
  ultimately show ?thesis by (simp add: count_ones_bits upt_8)
qed

text \<open>An Aptos multisignature: it is accepted exactly when the owner is 32 keys and a threshold between 1 and 32, at
  least as many positions are marked as the threshold asks, and at every marked position the signature there
  verifies under the key there; no mark counts twice.\<close>

theorem verify_aptos_multisignature_iff:
  "verify_aptos_multisignature C owner signature message = Inr () \<longleftrightarrow>
     length owner = 1025 \<and> length signature = 2052 \<and> owner ! 1024 \<noteq> 0 \<and> owner ! 1024 \<le> 32
     \<and> unat (owner ! 1024) \<le> card (aptos_signers signature)
     \<and> (\<forall>k \<in> aptos_signers signature.
          let key = sub_bytes owner (k * 32) ((k + 1) * 32); part = sub_bytes signature (k * 64) ((k + 1) * 64)
          in z_ed_key C key \<and> z_ed_verify C key message part)"
proof (cases "length owner = 1025 \<and> length signature = 2052")
  case len: True
  let ?step = "\<lambda>k. if in_bitmap (drop 2048 signature) k then
      bindE (slice owner (k * 32) ((k + 1) * 32)) (\<lambda>key.
      bindE (slice signature (k * 64) ((k + 1) * 64)) (\<lambda>part. verify_ed25519 C key part message)) else Inr ()"
  let ?ok = "\<lambda>k. let key = sub_bytes owner (k * 32) ((k + 1) * 32); part = sub_bytes signature (k * 64) ((k + 1) * 64)
      in z_ed_key C key \<and> z_ed_verify C key message part"
  have bm: "in_bitmap (drop 2048 signature) k \<longleftrightarrow> k \<in> aptos_signers signature" if "k < 32" for k
    using that len by (simp add: in_bitmap_bit aptos_signers_def less_mult_imp_div_less)
  have step: "?step k = Inr () \<longleftrightarrow> (k \<in> aptos_signers signature \<longrightarrow> ?ok k)" if "k < 32" for k
    using that len bm by (auto simp: verify_ed25519_def Let_def res_simps)
  have "(\<exists>us. mapE ?step [0..<32] = Inr us) \<longleftrightarrow> (\<forall>k \<in> aptos_signers signature. ?ok k)"
  proof -
    have "(\<exists>us. mapE ?step [0..<32] = Inr us) \<longleftrightarrow> (\<forall>k < 32. ?step k = Inr ())"
      by (auto simp: mapE_eq_Inr list_all2_conv_all_nth intro!: exI [of _ "replicate 32 ()"])
    also have "\<dots> \<longleftrightarrow> (\<forall>k < 32. k \<in> aptos_signers signature \<longrightarrow> ?ok k)" using step by metis
    also have "\<dots> \<longleftrightarrow> (\<forall>k \<in> aptos_signers signature. ?ok k)" by (auto simp: aptos_signers_def)
    finally show ?thesis .
  qed
  moreover have "1 \<le> unat (owner ! 1024) \<and> unat (owner ! 1024) \<le> 32 \<longleftrightarrow> owner ! 1024 \<noteq> 0 \<and> owner ! 1024 \<le> 32"
    by (auto simp: word_le_nat_alt unat_gt_0 Suc_le_eq)
  ultimately show ?thesis
    using len aptos_count [of signature]
    unfolding verify_aptos_multisignature_def Let_def by (simp add: bindE_eq_Inr ensure_eq_Inr)
next
  case False
  then show ?thesis unfolding verify_aptos_multisignature_def by (auto simp: ensure_eq_Inr)
qed

section \<open>Verification of an item never panics\<close>

text \<open>An uncompressed point is not empty.\<close>

definition points_ok :: "curves \<Rightarrow> bool" where
  "points_ok C \<longleftrightarrow> (\<forall>h s r p. z_secp_recover C h s r = Some p \<longrightarrow> p \<noteq> [])"

lemma content_calm [simp]: "content_slice bs a b \<noteq> Inl Panic" "content_read_at bs a b \<noteq> Inl Panic"
  by (auto simp: content_slice_def content_read_at_def res_simps)

lemma with_context_calm [simp]: "with_context r m = Inl Panic \<longleftrightarrow> r = Inl Panic"
  by (auto simp: with_context_def split: sum.splits error.splits)

lemma block_bound_calm [simp]: "block_bound bs k c \<noteq> Inl Panic"
  using avro_long_rd.rd_no_panic by (auto simp: block_bound_def res_simps)

lemma avro_blocks_calm [simp]: "avro_blocks bs n c ts \<noteq> Inl Panic"
proof (induction bs n c ts rule: avro_blocks.induct)
  case (1 bs n c ts)
  have r: "read_times avro_tag k bs d \<noteq> Inl Panic" for k d
    using reader.rd_no_panic [OF reader_times [OF avro_tag_rd.reader_axioms]] .
  show ?case
    using "1.IH" avro_long_rd.rd_no_panic r
    by (subst avro_blocks.simps) (auto simp: res_simps split: if_splits)
qed

lemma parse_avro_tags_calm [simp]: "parse_avro_tags bs n \<noteq> Inl Panic"
  by (auto simp: parse_avro_tags_def res_simps split: if_splits)

lemma sizes_calm [simp]: "data_item_signature_sizes ty \<noteq> Inl Panic"
  by (simp add: data_item_signature_sizes_def)

lemma read_data_item_header_calm [simp]: "read_data_item_header E item i \<noteq> Inl Panic"
proof -
  have "slice bs c d \<noteq> Inl Panic" if "d \<le> length bs" "checked_add USIZE c n = Some d" for bs :: bytes and c d n
    using that by (simp add: res_simps)
  moreover note u16_rd.rd_no_panic u64_rd.rd_no_panic opt32_rd.rd_no_panic take_rd.rd_no_panic
  ultimately show ?thesis
    unfolding read_data_item_header_def Let_def
    by (auto simp: bindE_eq_Inl ensure_eq_Panic contextE_eq_Inl contextE_eq_Inr split: if_splits)
qed

lemma verify_ed25519_calm [simp]: "verify_ed25519 C k s m \<noteq> Inl Panic"
  by (auto simp: verify_ed25519_def res_simps)

lemma verify_aptos_calm [simp]: "verify_aptos_multisignature C owner s m \<noteq> Inl Panic"
proof -
  have "mapE (\<lambda>k. if in_bitmap (drop 2048 s) k then
      bindE (slice owner (k * 32) ((k + 1) * 32)) (\<lambda>key.
      bindE (slice s (k * 64) ((k + 1) * 64)) (\<lambda>part. verify_ed25519 C key part m)) else Inr ()) [0..<32] \<noteq> Inl Panic"
    if "length owner = 1025" "length s = 2052"
    using that by (intro mapE_no_panic) (auto simp: res_simps)
  then show ?thesis by (auto simp: verify_aptos_multisignature_def Let_def bindE_eq_Inl ensure_eq_Panic nthE_eq_Inl)
qed

lemma ethereum_calm [simp]:
  "verify_ethereum E S C owner s m \<noteq> Inl Panic" "ethereum_address_from_owner owner \<noteq> Inl Panic"
  by (auto simp: verify_ethereum_def ethereum_address_from_owner_def res_simps
      dest: mapE_no_panic [THEN notE, rotated])

lemma typed_ethereum_calm: "points_ok C \<Longrightarrow> verify_typed_ethereum E S C owner s m \<noteq> Inl Panic"
  by (auto simp: verify_typed_ethereum_def Let_def points_ok_def bindE_eq_Inl ensure_eq_Panic nthE_eq_Inl slice_eq_Inl
      contextE_eq_Inl contextE_eq_Inr Suc_le_eq split: if_splits)

lemma verify_data_item_calm: "points_ok C \<Longrightarrow> verify_data_item E S C item i \<noteq> Inl Panic"
  using typed_ethereum_calm
  by (auto simp: verify_data_item_def verify_data_item_header_def verify_data_item_signature_def Let_def
      bindE_eq_Inl ensure_eq_Panic split: if_splits)

definition w_aptos :: bytes where "w_aptos = replicate 2048 3 @ [0x80, 0, 0, 0]"

lemma w_aptos_signers: "aptos_signers w_aptos = {0}"
proof -
  have "aptos_signers w_aptos = set (filter (\<lambda>k. bit ([0x80, 0, 0, 0 :: byte] ! (k div 8)) (7 - k mod 8)) [0..<32])"
    by (auto simp: aptos_signers_def w_aptos_def nth_append)
  then show ?thesis by (simp add: upt_rec bit_numeral_rec bit_1_iff)
qed

theorem verify_aptos_multisignature_iff_witness:
  "verify_aptos_multisignature w_curves (replicate 1024 3 @ [1]) w_aptos [7] = Inr ()
   \<and> verify_aptos_multisignature w_curves (replicate 1024 3 @ [2]) w_aptos [7] \<noteq> Inr ()"
  unfolding verify_aptos_multisignature_iff w_aptos_signers
  by (simp add: w_aptos_def w_curves_def nth_append sub_bytes_def replicate_add [symmetric])

end
