(* ===== verification/BundleProofs.thy ===== *)
theory BundleProofs
  imports Traversal DataItemProofs
begin

text \<open>
  Properties of bundles: the binary table is read back exactly, the traversal ends, and every item it
  lists is what the path it records retrieves.
\<close>

section \<open>All entries of a bundle\<close>

function collect :: "BundleItems \<Rightarrow> BundleEntry list res" where
  "collect s = bindE (items_next s) (\<lambda>(e, s'). case e of
     None \<Rightarrow> Inr [] | Some e \<Rightarrow> bindE (collect s') (\<lambda>es. Inr (e # es)))"
  by pat_completeness auto
termination by (relation "measure items_left") (auto dest: items_next_left)

declare collect.simps [simp del]

definition bundle_entries :: "deps \<Rightarrow> json_reader \<Rightarrow> bytes \<Rightarrow> BundleFormat \<Rightarrow> BundleEntry list res" where
  "bundle_entries E J bundle format = bindE (items_new E J bundle format) collect"

lemma drain_collect: "drain s = Inr () \<longleftrightarrow> (\<exists>es. collect s = Inr es)"
proof (induction s rule: drain.induct)
  case (1 s)
  show ?case
  proof (cases "items_next s")
    case (Inr x)
    obtain e s' where x: "x = (e, s')" by (cases x)
    then show ?thesis
      using "1.IH" [of x e s'] Inr
      by (subst drain.simps, subst collect.simps) (cases e; auto simp: bindE_eq_Inr)
  qed (simp add: drain.simps collect.simps)
qed

section \<open>The table of a binary bundle\<close>

definition le32 :: "nat \<Rightarrow> bytes" where "le32 n = le_bytes 32 n"

definition table_bytes :: "(bytes \<times> bytes) list \<Rightarrow> bytes" where
  "table_bytes xs = concat (map (\<lambda>(i, b). le32 (length b) @ i) xs)"

definition bundle_bytes :: "(bytes \<times> bytes) list \<Rightarrow> bytes" where
  "bundle_bytes xs = le32 (length xs) @ table_bytes xs @ concat (map snd xs)"

fun placed :: "nat \<Rightarrow> (bytes \<times> bytes) list \<Rightarrow> BundleEntry list" where
  "placed start [] = []"
| "placed start ((i, b) # xs) = BinaryEntry i b start # placed (start + length b) xs"

definition pair_ok :: "bytes \<times> bytes \<Rightarrow> bool" where
  "pair_ok x \<longleftrightarrow> length (fst x) = 32 \<and> snd x \<noteq> []"

lemma table_bytes_Cons: "table_bytes ((i, b) # xs) = (le32 (length b) @ i) @ table_bytes xs"
  by (simp add: table_bytes_def)

lemma table_length: "list_all pair_ok xs \<Longrightarrow> length (table_bytes xs) = 64 * length xs"
  by (induction xs) (auto simp: table_bytes_def pair_ok_def le32_def)

lemma read_u256_le32: "read_u256_usize bs l = Inr n \<longleftrightarrow> bs = le32 n \<and> n < USIZE"
  unfolding le32_def by (auto simp: read_u256_usize_eq)


definition binary_inv :: "BinaryBundleItems \<Rightarrow> bool" where
  "binary_inv s \<longleftrightarrow> length (bb_bundle s) < USIZE \<and> bb_cursor s + 64 * bb_remaining s \<le> length (bb_bundle s)
     \<and> bb_item_start s \<le> length (bb_bundle s) \<and> (bb_remaining s = 0 \<longrightarrow> bb_item_start s = length (bb_bundle s))
     \<and> (\<exists>m \<le> bb_remaining s. bb_table s = take (64 * m) (drop (bb_cursor s) (bb_bundle s)))"

text \<open>The entry of the table at the cursor, and the table after it is taken.\<close>

definition binary_head :: "BinaryBundleItems \<Rightarrow> bytes" where
  "binary_head s = take 64 (drop (bb_cursor s) (bb_bundle s))"

lemma binary_next_inv:
  assumes "binary_inv s" "0 < bb_remaining s"
  shows "\<exists>tbl. (\<forall>r. binary_next s = Inr r \<longleftrightarrow>
      (\<exists>n. take 32 (binary_head s) = le32 n \<and> 0 < n \<and> bb_item_start s + n \<le> length (bb_bundle s)
        \<and> (bb_remaining s = 1 \<longrightarrow> bb_item_start s + n = length (bb_bundle s))
        \<and> r = (Some (BinaryEntry (drop 32 (binary_head s)) (sub_bytes (bb_bundle s) (bb_item_start s) (bb_item_start s + n)) (bb_item_start s)),
            s\<lparr>bb_remaining := bb_remaining s - 1, bb_cursor := bb_cursor s + 64, bb_item_start := bb_item_start s + n, bb_table := tbl\<rparr>)))
    \<and> (\<exists>m \<le> bb_remaining s - 1. tbl = take (64 * m) (drop (bb_cursor s + 64) (bb_bundle s)))"
proof -
  let ?B = "bb_bundle s" and ?c = "bb_cursor s" and ?k = "bb_remaining s" and ?st = "bb_item_start s"
  obtain m where m: "0 < m" "m \<le> ?k" "(if bb_table s = [] then content_read_at ?B ?c (min ?k 256 * BUNDLE_ENTRY_SIZE) else Inr (bb_table s))
      = Inr (take (64 * m) (drop ?c ?B))"
  proof (cases "bb_table s = []")
    case True
    have "?c + min ?k 256 * 64 \<le> length ?B" using assms by (auto simp: binary_inv_def min_def)
    then have "content_read_at ?B ?c (min ?k 256 * BUNDLE_ENTRY_SIZE) = Inr (take (64 * min ?k 256) (drop ?c ?B))"
      using assms(1) by (simp add: content_read_at_def content_slice_def checked_add_def sub_bytes_def binary_inv_def BUNDLE_ENTRY_SIZE_def mult.commute)
    then show ?thesis using True assms(2) by (intro that [of "min ?k 256"]) auto
  next
    case False
    obtain j where j: "j \<le> ?k" "bb_table s = take (64 * j) (drop ?c ?B)" using assms(1) by (auto simp: binary_inv_def)
    then have "0 < j" using False by (cases j) auto
    then show ?thesis using False j by (intro that [of j]) auto
  qed
  let ?tbl = "take (64 * m) (drop ?c ?B)"
  have len: "64 \<le> length ?tbl" using m assms(1) by (auto simp: binary_inv_def)
  have hd: "slice ?tbl 0 BUNDLE_ENTRY_SIZE = Inr (binary_head s)"
    using len m(1) by (simp add: BUNDLE_ENTRY_SIZE_def sub_bytes_def binary_head_def min_def)
  have rest: "drop 64 ?tbl = take (64 * (m - 1)) (drop (?c + 64) ?B)"
    by (simp add: drop_take diff_mult_distrib2 add.commute)
  have add: "addE USIZE ?c BUNDLE_ENTRY_SIZE = Inr (?c + 64)" and sub: "subE ?k 1 = Inr (?k - 1)" and k: "(?k = 0) = False"
    and k1: "(?k - 1 = 0) = (?k = 1)"
    using assms by (auto simp: binary_inv_def addE_eq_Inr subE_eq_Inr BUNDLE_ENTRY_SIZE_def)
  have st: "?st + n < USIZE \<and> n < USIZE" if "?st + n \<le> length ?B" for n
    using assms(1) that by (simp add: binary_inv_def)
  define G where "G = (\<lambda>end bs. (Some (BinaryEntry (drop 32 (binary_head s)) bs ?st),
      s\<lparr>bb_remaining := ?k - 1, bb_cursor := ?c + 64, bb_item_start := end, bb_table := drop BUNDLE_ENTRY_SIZE ?tbl\<rparr>))"
  define H where "H = take 32 (binary_head s)"
  have step: "binary_next s =
      bindE (read_u256_usize (take 32 (binary_head s)) STR ''bundle item size'') (\<lambda>n.
      ensure (n > 0) STR ''bundle contains an empty item''
      (bindE (contextE (checked_add USIZE ?st n) STR ''bundle item offset overflow'') (\<lambda>end.
       ensure (end \<le> length ?B) STR ''bundle item exceeds parent bounds''
       (ensure (?k = 1 \<longrightarrow> end = length ?B) STR ''bundle item sizes do not consume the parent''
        (bindE (content_slice ?B ?st end) (\<lambda>bs. Inr (G end bs)))))))"
    unfolding G_def binary_next_def m(3) k if_False bindE_Inr hd add sub k1 ..
  have "binary_next s = Inr r \<longleftrightarrow> (\<exists>n. H = le32 n \<and> 0 < n \<and> ?st + n \<le> length ?B \<and> (?k = 1 \<longrightarrow> ?st + n = length ?B)
      \<and> r = G (?st + n) (sub_bytes ?B ?st (?st + n)))" for r
    unfolding step H_def [symmetric] bindE_eq_Inr ensure_eq_Inr contextE_eq_Inr checked_add_eq read_u256_le32 content_slice_def
    by (intro ex_cong1) (use st in auto)
  then have "\<forall>r. binary_next s = Inr r \<longleftrightarrow>
      (\<exists>n. take 32 (binary_head s) = le32 n \<and> 0 < n \<and> ?st + n \<le> length ?B \<and> (?k = 1 \<longrightarrow> ?st + n = length ?B)
        \<and> r = (Some (BinaryEntry (drop 32 (binary_head s)) (sub_bytes ?B ?st (?st + n)) ?st),
            s\<lparr>bb_remaining := ?k - 1, bb_cursor := ?c + 64, bb_item_start := ?st + n, bb_table := drop 64 ?tbl\<rparr>))"
    unfolding G_def H_def BUNDLE_ENTRY_SIZE_def by blast
  then show ?thesis using rest diff_le_mono [OF m(2), of 1] by blast
qed


definition binary_rows :: "BinaryBundleItems \<Rightarrow> (bytes \<times> bytes) list \<Rightarrow> bool" where
  "binary_rows s xs \<longleftrightarrow> list_all pair_ok xs \<and> length xs = bb_remaining s
     \<and> take (64 * bb_remaining s) (drop (bb_cursor s) (bb_bundle s)) = table_bytes xs
     \<and> drop (bb_item_start s) (bb_bundle s) = concat (map snd xs)"

lemma le32_length [simp]: "length (le32 n) = 32"
  by (simp add: le32_def)

lemma binary_rows_step:
  assumes "binary_inv s" "bb_remaining s = Suc k"
  defines "s' \<equiv> \<lambda>n tbl. s\<lparr>bb_remaining := k, bb_cursor := bb_cursor s + 64, bb_item_start := bb_item_start s + n, bb_table := tbl\<rparr>"
  shows "binary_rows s (x # xs) \<longleftrightarrow> pair_ok x \<and> take 32 (binary_head s) = le32 (length (snd x)) \<and> drop 32 (binary_head s) = fst x
    \<and> snd x = sub_bytes (bb_bundle s) (bb_item_start s) (bb_item_start s + length (snd x))
    \<and> bb_item_start s + length (snd x) \<le> length (bb_bundle s) \<and> binary_rows (s' (length (snd x)) tbl) xs"
proof -
  obtain i b where x: "x = (i, b)" by (cases x)
  let ?D = "drop (bb_cursor s) (bb_bundle s)" and ?T = "drop (bb_item_start s) (bb_bundle s)"
  have "bb_cursor s + 64 * Suc k \<le> length (bb_bundle s)" using assms(1,2) by (simp add: binary_inv_def)
  then have len: "64 \<le> length ?D" unfolding length_drop by arith
  have tk: "take (64 * Suc k) ?D = binary_head s @ take (64 * k) (drop (bb_cursor s + 64) (bb_bundle s))"
    using take_add [of 64 "64 * k" ?D] by (simp add: binary_head_def add.commute)
  have hl: "length (binary_head s) = 64" using len by (simp add: binary_head_def)
  have head: "binary_head s = le32 (length b) @ i \<longleftrightarrow> take 32 (binary_head s) = le32 (length b) \<and> drop 32 (binary_head s) = i"
    by (metis append_eq_conv_conj append_take_drop_id le32_length)
  have tail: "?T = b @ concat (map snd xs) \<longleftrightarrow> b = sub_bytes (bb_bundle s) (bb_item_start s) (bb_item_start s + length b)
      \<and> bb_item_start s + length b \<le> length (bb_bundle s) \<and> drop (bb_item_start s + length b) (bb_bundle s) = concat (map snd xs)"
  proof
    assume t: "?T = b @ concat (map snd xs)"
    then have "length ?T = length b + length (concat (map snd xs))" by simp
    moreover have "bb_item_start s \<le> length (bb_bundle s)" using assms(1) by (simp add: binary_inv_def)
    ultimately have "bb_item_start s + length b \<le> length (bb_bundle s)" unfolding length_drop by arith
    moreover have "drop (length b) ?T = concat (map snd xs)" "take (length b) ?T = b" by (simp_all add: t)
    ultimately show "b = sub_bytes (bb_bundle s) (bb_item_start s) (bb_item_start s + length b)
      \<and> bb_item_start s + length b \<le> length (bb_bundle s) \<and> drop (bb_item_start s + length b) (bb_bundle s) = concat (map snd xs)"
      by (simp add: sub_bytes_def add.commute)
  next
    assume t: "b = sub_bytes (bb_bundle s) (bb_item_start s) (bb_item_start s + length b)
      \<and> bb_item_start s + length b \<le> length (bb_bundle s) \<and> drop (bb_item_start s + length b) (bb_bundle s) = concat (map snd xs)"
    have "?T = take (length b) ?T @ drop (length b) ?T" by (rule append_take_drop_id [symmetric])
    also have "take (length b) ?T = b" using t by (simp add: sub_bytes_def)
    also have "drop (length b) ?T = concat (map snd xs)" using t by (simp add: add.commute)
    finally show "?T = b @ concat (map snd xs)" .
  qed
  have il: "pair_ok x \<Longrightarrow> length i = 32" by (simp add: pair_ok_def x)
  have "binary_rows s (x # xs) \<longleftrightarrow> pair_ok x \<and> list_all pair_ok xs \<and> length xs = k
      \<and> binary_head s = le32 (length b) @ i \<and> take (64 * k) (drop (bb_cursor s + 64) (bb_bundle s)) = table_bytes xs
      \<and> ?T = b @ concat (map snd xs)"
  proof -
    have "binary_head s @ A = (le32 (length b) @ i) @ B \<longleftrightarrow> binary_head s = le32 (length b) @ i \<and> A = B" if "pair_ok x" for A B
      using il [OF that] hl by (intro append_eq_append_conv) simp
    then show ?thesis unfolding binary_rows_def assms(2) tk x table_bytes_Cons by auto
  qed
  then show ?thesis
    unfolding head tail by (auto simp: x s'_def binary_rows_def)
qed

lemma collect_binary:
  "binary_inv s \<Longrightarrow> collect (BinaryItems s) = Inr es \<longleftrightarrow> (\<exists>xs. binary_rows s xs \<and> es = placed (bb_item_start s) xs)"
proof (induction "bb_remaining s" arbitrary: s es)
  case 0
  then show ?case
    by (subst collect.simps) (auto simp: binary_next_def binary_rows_def binary_inv_def table_bytes_def)
next
  case (Suc k)
  let ?b = "\<lambda>n. sub_bytes (bb_bundle s) (bb_item_start s) (bb_item_start s + n)"
  have pos: "0 < bb_remaining s" using Suc.hyps(2) by simp
  obtain tbl where nx: "\<forall>r. binary_next s = Inr r \<longleftrightarrow>
      (\<exists>n. take 32 (binary_head s) = le32 n \<and> 0 < n \<and> bb_item_start s + n \<le> length (bb_bundle s)
        \<and> (bb_remaining s = 1 \<longrightarrow> bb_item_start s + n = length (bb_bundle s))
        \<and> r = (Some (BinaryEntry (drop 32 (binary_head s)) (?b n) (bb_item_start s)),
            s\<lparr>bb_remaining := bb_remaining s - 1, bb_cursor := bb_cursor s + 64, bb_item_start := bb_item_start s + n, bb_table := tbl\<rparr>))"
    and tbl: "\<exists>m \<le> bb_remaining s - 1. tbl = take (64 * m) (drop (bb_cursor s + 64) (bb_bundle s))"
    using binary_next_inv [OF Suc.prems pos] by - (erule exE, erule conjE, rule that, assumption+)
  define s' where "s' = (\<lambda>n. s\<lparr>bb_remaining := k, bb_cursor := bb_cursor s + 64, bb_item_start := bb_item_start s + n, bb_table := tbl\<rparr>)"
  let ?ok = "\<lambda>n. take 32 (binary_head s) = le32 n \<and> 0 < n \<and> bb_item_start s + n \<le> length (bb_bundle s)
      \<and> (k = 0 \<longrightarrow> bb_item_start s + n = length (bb_bundle s))"
  have inv: "binary_inv (s' n)" if "?ok n" for n
  proof -
    have "\<exists>m \<le> k. tbl = take (64 * m) (drop (bb_cursor s + 64) (bb_bundle s))" using tbl Suc.hyps(2) by (metis diff_Suc_1)
    moreover have "bb_cursor s + (64 + 64 * k) \<le> length (bb_bundle s)" "length (bb_bundle s) < USIZE"
      using Suc.prems Suc.hyps(2) [symmetric] by (simp_all add: binary_inv_def)
    ultimately show ?thesis using that by (simp add: binary_inv_def s'_def)
  qed
  have sel: "bb_remaining (s' n) = k" "bb_item_start (s' n) = bb_item_start s + n" for n by (simp_all add: s'_def)
  define ent where "ent = (\<lambda>n. BinaryEntry (drop 32 (binary_head s)) (?b n) (bb_item_start s))"
  have nx': "binary_next s = Inr r \<longleftrightarrow> (\<exists>n. ?ok n \<and> r = (Some (ent n), s' n))" for r
    using nx Suc.hyps(2) [symmetric] by (simp add: ent_def s'_def del: split_paired_All)
  have "collect (BinaryItems s) = Inr es \<longleftrightarrow> (\<exists>n es'. ?ok n \<and> collect (BinaryItems (s' n)) = Inr es' \<and> es = ent n # es')"
  proof
    assume "collect (BinaryItems s) = Inr es"
    then obtain r where r: "binary_next s = Inr r" by (auto simp: collect.simps [of "BinaryItems s"] bindE_eq_Inr)
    then obtain n where n: "?ok n" "r = (Some (ent n), s' n)" using nx' by blast
    then show "\<exists>n es'. ?ok n \<and> collect (BinaryItems (s' n)) = Inr es' \<and> es = ent n # es'"
      using \<open>collect (BinaryItems s) = Inr es\<close> r by (auto simp: collect.simps [of "BinaryItems s"] bindE_eq_Inr)
  next
    assume "\<exists>n es'. ?ok n \<and> collect (BinaryItems (s' n)) = Inr es' \<and> es = ent n # es'"
    then obtain n es' where n: "?ok n" "collect (BinaryItems (s' n)) = Inr es'" "es = ent n # es'" by blast
    then have "binary_next s = Inr (Some (ent n), s' n)" using nx' by blast
    then show "collect (BinaryItems s) = Inr es" using n(2,3) by (simp add: collect.simps [of "BinaryItems s"])
  qed
  then have "collect (BinaryItems s) = Inr es \<longleftrightarrow> (\<exists>n es'. ?ok n \<and> collect (BinaryItems (s' n)) = Inr es'
      \<and> es = BinaryEntry (drop 32 (binary_head s)) (?b n) (bb_item_start s) # es')"
    unfolding ent_def .
  also have "\<dots> \<longleftrightarrow> (\<exists>n xs. ?ok n \<and> binary_rows (s' n) xs
      \<and> es = BinaryEntry (drop 32 (binary_head s)) (?b n) (bb_item_start s) # placed (bb_item_start s + n) xs)"
    using Suc.hyps(1) [OF _ inv] sel by (metis (no_types, lifting))
  also have "\<dots> \<longleftrightarrow> (\<exists>ys. binary_rows s ys \<and> es = placed (bb_item_start s) ys)"
  proof
    assume "\<exists>n xs. ?ok n \<and> binary_rows (s' n) xs
      \<and> es = BinaryEntry (drop 32 (binary_head s)) (?b n) (bb_item_start s) # placed (bb_item_start s + n) xs"
    then obtain n xs where n: "?ok n" "binary_rows (s' n) xs"
      "es = BinaryEntry (drop 32 (binary_head s)) (?b n) (bb_item_start s) # placed (bb_item_start s + n) xs" by blast
    have l: "length (?b n) = n" using n(1) by simp
    moreover from this have "?b n \<noteq> []" using n(1) by (metis less_irrefl list.size(3))
    moreover have "64 \<le> length (bb_bundle s) - bb_cursor s"
      using Suc.prems Suc.hyps(2) [symmetric] by (simp add: binary_inv_def) arith
    ultimately have "pair_ok (drop 32 (binary_head s), ?b n)" by (simp add: pair_ok_def binary_head_def)
    then have "binary_rows s ((drop 32 (binary_head s), ?b n) # xs)"
      using n l binary_rows_step [OF Suc.prems Suc.hyps(2) [symmetric], of "(drop 32 (binary_head s), ?b n)" xs tbl] by (simp add: s'_def)
    moreover have "es = placed (bb_item_start s) ((drop 32 (binary_head s), ?b n) # xs)" using n(3) l by simp
    ultimately show "\<exists>ys. binary_rows s ys \<and> es = placed (bb_item_start s) ys" by blast
  next
    assume "\<exists>ys. binary_rows s ys \<and> es = placed (bb_item_start s) ys"
    then obtain ys where ys: "binary_rows s ys" "es = placed (bb_item_start s) ys" by blast
    then obtain x xs where c: "ys = x # xs" using Suc.hyps(2) by (cases ys) (auto simp: binary_rows_def)
    note st = ys(1) [unfolded c binary_rows_step [OF Suc.prems Suc.hyps(2) [symmetric], of x xs tbl]]
    have "?ok (length (snd x))"
      using st by (auto simp: pair_ok_def binary_rows_def)
    moreover have "binary_rows (s' (length (snd x))) xs" using st by (simp add: s'_def)
    moreover have "es = BinaryEntry (drop 32 (binary_head s)) (?b (length (snd x))) (bb_item_start s) # placed (bb_item_start s + length (snd x)) xs"
      using ys(2) c st by (cases x) simp
    ultimately show "\<exists>n xs. ?ok n \<and> binary_rows (s' n) xs
      \<and> es = BinaryEntry (drop 32 (binary_head s)) (?b n) (bb_item_start s) # placed (bb_item_start s + n) xs" by blast
  qed
  finally show ?case .
qed


definition binary_start :: "bytes \<Rightarrow> nat \<Rightarrow> BinaryBundleItems" where
  "binary_start bundle n = \<lparr>bb_bundle = bundle, bb_remaining = n, bb_cursor = 32, bb_item_start = 32 + 64 * n, bb_table = []\<rparr>"

lemma binary_new_iff:
  assumes "length bundle < USIZE"
  shows "binary_new bundle = Inr s \<longleftrightarrow> (\<exists>n. take 32 bundle = le32 n \<and> 32 + 64 * n \<le> length bundle
    \<and> (n = 0 \<longrightarrow> length bundle = 32) \<and> s = binary_start bundle n)"
proof (cases "32 \<le> length bundle")
  case True
  have rd: "content_read_at bundle 0 32 = Inr (take 32 bundle)"
    using True assms by (simp add: content_read_at_def content_slice_def checked_add_def sub_bytes_def)
  have "n \<le> (length bundle - 32) div 64 \<longleftrightarrow> 32 + 64 * n \<le> length bundle" for n
    using True by (simp add: less_eq_div_iff_mult_less_eq) arith
  moreover have "n < USIZE \<and> n * 64 < USIZE \<and> 32 + n * 64 < USIZE" if "32 + 64 * n \<le> length bundle" for n
    using that assms by simp
  ultimately show ?thesis
    unfolding binary_new_def rd with_context_def sum.case bindE_Inr
    unfolding bindE_eq_Inr ensure_eq_Inr subE_eq_Inr mulE_eq_Inr addE_eq_Inr read_u256_le32 BUNDLE_ENTRY_SIZE_def
    by (intro ex_cong1) (use True in \<open>auto simp: binary_start_def mult.commute\<close>)
next
  case False
  have "length (take 32 bundle) \<noteq> length (le32 n)" for n using False by simp
  then have "take 32 bundle \<noteq> le32 n" for n by metis
  moreover have "content_read_at bundle 0 32 = Inl (Fail STR ''content slice is out of bounds'')"
    using False by (simp add: content_read_at_def content_slice_def checked_add_def U64_def)
  ultimately show ?thesis by (simp add: binary_new_def with_context_def)
qed

lemma binary_start_inv:
  "length bundle < USIZE \<Longrightarrow> 32 + 64 * n \<le> length bundle \<Longrightarrow> (n = 0 \<longrightarrow> length bundle = 32) \<Longrightarrow> binary_inv (binary_start bundle n)"
  by (auto simp: binary_inv_def binary_start_def intro: exI [of _ 0])

lemma binary_start_rows:
  assumes "take 32 bundle = le32 n" "32 + 64 * n \<le> length bundle"
  shows "binary_rows (binary_start bundle n) xs \<longleftrightarrow> list_all pair_ok xs \<and> length xs = n \<and> bundle = bundle_bytes xs"
proof -
  have split: "bundle = take 32 bundle @ take (64 * n) (drop 32 bundle) @ drop (32 + 64 * n) bundle"
    by (metis append_take_drop_id drop_drop add.commute)
  show ?thesis
  proof
    assume r: "binary_rows (binary_start bundle n) xs"
    then have "take (64 * n) (drop 32 bundle) = table_bytes xs" "drop (32 + 64 * n) bundle = concat (map snd xs)" "length xs = n" "list_all pair_ok xs"
      by (simp_all add: binary_rows_def binary_start_def)
    then show "list_all pair_ok xs \<and> length xs = n \<and> bundle = bundle_bytes xs"
      using split assms(1) by (simp add: bundle_bytes_def)
  next
    assume r: "list_all pair_ok xs \<and> length xs = n \<and> bundle = bundle_bytes xs"
    then have "length (table_bytes xs) = 64 * n" using table_length by blast
    then show "binary_rows (binary_start bundle n) xs"
      using r by (simp add: binary_rows_def binary_start_def bundle_bytes_def)
  qed
qed

lemma binary_bundle_entries:
  assumes "length bundle < USIZE"
  shows "bundle_entries E J bundle Binary = Inr es \<longleftrightarrow>
    (\<exists>xs. list_all pair_ok xs \<and> bundle = bundle_bytes xs \<and> es = placed (32 + 64 * length xs) xs)"
proof
  assume "bundle_entries E J bundle Binary = Inr es"
  then obtain n where n: "take 32 bundle = le32 n" "32 + 64 * n \<le> length bundle" "n = 0 \<longrightarrow> length bundle = 32"
    "collect (BinaryItems (binary_start bundle n)) = Inr es"
    using binary_new_iff [OF assms] by (auto simp: bundle_entries_def items_new_def bindE_eq_Inr)
  then obtain xs where "binary_rows (binary_start bundle n) xs" "es = placed (bb_item_start (binary_start bundle n)) xs"
    using collect_binary [OF binary_start_inv [OF assms n(2,3)]] by blast
  then show "\<exists>xs. list_all pair_ok xs \<and> bundle = bundle_bytes xs \<and> es = placed (32 + 64 * length xs) xs"
    using binary_start_rows [OF n(1,2)] by (auto simp: binary_start_def)
next
  assume "\<exists>xs. list_all pair_ok xs \<and> bundle = bundle_bytes xs \<and> es = placed (32 + 64 * length xs) xs"
  then obtain xs where x: "list_all pair_ok xs" "bundle = bundle_bytes xs" "es = placed (32 + 64 * length xs) xs" by blast
  let ?n = "length xs"
  have n: "take 32 bundle = le32 ?n" "32 + 64 * ?n \<le> length bundle" "?n = 0 \<longrightarrow> length bundle = 32"
    using x table_length [OF x(1)] by (auto simp: bundle_bytes_def table_bytes_def)
  have "binary_new bundle = Inr (binary_start bundle ?n)" using binary_new_iff [OF assms] n by blast
  moreover have "collect (BinaryItems (binary_start bundle ?n)) = Inr es"
    using collect_binary [OF binary_start_inv [OF assms n(2,3)]] binary_start_rows [OF n(1,2)] x by (auto simp: binary_start_def)
  ultimately show "bundle_entries E J bundle Binary = Inr es" by (simp add: bundle_entries_def items_new_def)
qed

text \<open>C18. The framing of a binary bundle: reading all entries succeeds exactly on the encodings of lists of 32-byte ids and
  non-empty items, an item count and a table of sizes and ids followed by the items end to end, and then yields
  the ids and the items at their offsets, whatever the blocks in which the table was read.\<close>

theorem binary_bundle_framing:
  assumes "length bundle < USIZE"
  shows "bundle_entries E J bundle Binary = Inr es \<longleftrightarrow>
    (\<exists>xs. list_all pair_ok xs \<and> bundle = bundle_bytes xs \<and> es = placed (32 + 64 * length xs) xs)"
  using assms by (rule binary_bundle_entries)

theorem binary_bundle_framing_witness:
  "bundle_entries sample \<lparr>jr_text = \<lambda>s. None, jr_events = \<lambda>b. RootFailed Panic\<rparr>
     (bundle_bytes [(replicate 32 1, [5, 6]), (replicate 32 2, [7])]) Binary
   = Inr [BinaryEntry (replicate 32 1) [5, 6] 160, BinaryEntry (replicate 32 2) [7] 162]"
proof -
  let ?xs = "[(replicate 32 1, [5, 6]), (replicate 32 2, [7])] :: (bytes \<times> bytes) list"
  have "list_all pair_ok ?xs" by (simp add: pair_ok_def)
  moreover have "length (bundle_bytes ?xs) < USIZE" by (simp add: bundle_bytes_def table_bytes_def U64_def)
  ultimately show ?thesis using binary_bundle_framing [of "bundle_bytes ?xs"] by (auto intro: exI [of _ ?xs])
qed

end
