(* ===== verification/TraversalProofs.thy ===== *)
theory TraversalProofs
  imports BundleProofs
begin

text \<open>
  Properties of the traversal of nested bundles: it ends, in batches of any size, and every item it
  lists is what the path it records retrieves from the root.
\<close>

section \<open>The traversal ends\<close>

text \<open>A step consumes an entry of some frame, drops the frames above it and pushes at most one.\<close>

definition descends :: "BundleFrame list \<Rightarrow> BundleFrame list \<Rightarrow> bool" where
  "descends stack stack' \<longleftrightarrow> (\<exists>dropped fr below push fr'. stack = dropped @ fr # below \<and> stack' = push @ fr' # below
     \<and> frame_left fr' < frame_left fr \<and> length stack' \<le> MAX_BUNDLE_DEPTH)"

lemma push_nested_shape:
  "push_nested E J item i path stack = Inr stack' \<Longrightarrow> length stack \<le> MAX_BUNDLE_DEPTH \<Longrightarrow>
   \<exists>push. stack' = push @ stack \<and> length stack' \<le> MAX_BUNDLE_DEPTH"
  by (auto simp: push_nested_def res_simps split: option.splits)

lemma descends_later: "descends (parent' # below) stack' \<Longrightarrow> frame_left parent' < frame_left parent \<Longrightarrow> descends (parent # below) stack'"
proof -
  assume d: "descends (parent' # below) stack'" "frame_left parent' < frame_left parent"
  then obtain dropped fr below' push fr' where s: "parent' # below = dropped @ fr # below'" "stack' = push @ fr' # below'"
    "frame_left fr' < frame_left fr" "length stack' \<le> MAX_BUNDLE_DEPTH" by (auto simp: descends_def)
  show ?thesis
  proof (cases dropped)
    case Nil
    then show ?thesis unfolding descends_def using s d(2)
      by (intro exI [of _ "[]"] exI [of _ parent] exI [of _ below] exI [of _ push] exI [of _ fr']) auto
  next
    case (Cons x dropped')
    then show ?thesis unfolding descends_def using s
      by (intro exI [of _ "parent # dropped'"] exI [of _ fr] exI [of _ below'] exI [of _ push] exI [of _ fr']) auto
  qed
qed

lemma descends_drop: "descends below stack' \<Longrightarrow> descends (parent # below) stack'"
  unfolding descends_def by (metis append_Cons)

lemma next_matching_descends:
  "next_matching E S C J f height stack = Inr (Some found, stack') \<Longrightarrow> length stack \<le> MAX_BUNDLE_DEPTH \<Longrightarrow> descends stack stack'"
proof (induction E S C J f height stack rule: next_matching.induct)
  case (2 E S C J f height parent below)
  from "2.prems"(1) obtain entry parent' where fn: "frame_next parent = Inr (entry, parent')"
    by (auto simp: bindE_eq_Inr)
  show ?case
  proof (cases entry)
    case None
    then show ?thesis using "2.IH"(1) [OF fn refl] "2.prems" fn by (auto intro: descends_drop)
  next
    case (Some e)
    note left = frame_next_left [OF fn [unfolded Some]]
    then have lt: "frame_left parent' < frame_left parent" by simp
    show ?thesis
    proof (cases "entry_id e")
      case None
      then show ?thesis using "2.IH"(2) [OF fn refl Some None] "2.prems" fn Some lt by (auto intro: descends_later)
    next
      case hid: (Some hid)
      from "2.prems"(1) obtain item where ex: "examine E S C J f height e hid = Inr item"
        using fn Some hid by (auto simp: bindE_eq_Inr)
      show ?thesis
      proof (cases item)
        case None
        then show ?thesis using "2.IH"(3) [OF fn refl Some hid ex None] "2.prems" fn Some hid ex lt
          by (auto intro: descends_later)
      next
        case it: (Some it)
        obtain i path where "push_nested E J it i path (parent' # below) = Inr stack'"
          using "2.prems"(1) fn Some hid ex it by (auto simp: bindE_eq_Inr Let_def)
        then obtain push where "stack' = push @ parent' # below" "length stack' \<le> MAX_BUNDLE_DEPTH"
          using push_nested_shape "2.prems"(2) by (metis length_Cons)
        then show ?thesis unfolding descends_def using lt
          by (intro exI [of _ "[]"] exI [of _ parent] exI [of _ below] exI [of _ push] exI [of _ parent']) auto
      qed
    qed
  qed
qed simp

definition stack_rank :: "BundleFrame list \<Rightarrow> nat list" where
  "stack_rank stack = map (\<lambda>fr. Suc (frame_left fr)) (rev stack) @ replicate (MAX_BUNDLE_DEPTH - length stack) 0"

lemma descends_rank:
  assumes "descends stack stack'" "length stack \<le> MAX_BUNDLE_DEPTH"
  shows "(stack_rank stack', stack_rank stack) \<in> lex less_than"
proof -
  obtain dropped fr below push fr' where s: "stack = dropped @ fr # below" "stack' = push @ fr' # below"
    "frame_left fr' < frame_left fr" "length stack' \<le> MAX_BUNDLE_DEPTH" using assms(1) by (auto simp: descends_def)
  have "length (stack_rank stack') = length (stack_rank stack)" using s(4) assms(2) by (simp add: stack_rank_def)
  moreover let ?m = "map (\<lambda>fr. Suc (frame_left fr))"
  have "stack_rank stack' = ?m (rev below) @ Suc (frame_left fr') # (?m (rev push) @ replicate (MAX_BUNDLE_DEPTH - length stack') 0)"
    "stack_rank stack = ?m (rev below) @ Suc (frame_left fr) # (?m (rev dropped) @ replicate (MAX_BUNDLE_DEPTH - length stack) 0)"
    using s(1,2) by (simp_all add: stack_rank_def)
  ultimately show ?thesis
    using s(3) unfolding lex_conv by (metis (mono_tags, lifting) Suc_mono case_prodI less_than_iff mem_Collect_eq)
qed

definition rank_order :: "(BundleFrame list \<times> BundleFrame list) set" where
  "rank_order = (inv_image (lex less_than) stack_rank)\<^sup>+"

lemma wf_rank_order: "wf rank_order"
  unfolding rank_order_def by (intro wf_trancl wf_inv_image wf_lex wf_less_than)

lemma batch_descends:
  "next_bundle_batch E S C J f height n stack = Inr ((objects, locations, False), stack') \<Longrightarrow> length stack \<le> MAX_BUNDLE_DEPTH \<Longrightarrow>
   length stack' \<le> MAX_BUNDLE_DEPTH \<and> (0 < n \<longrightarrow> (stack', stack) \<in> rank_order)"
proof (induction n arbitrary: stack objects locations)
  case (Suc n)
  from Suc.prems(1) obtain found st objs locs where s: "next_matching E S C J f height stack = Inr (Some found, st)"
    "next_bundle_batch E S C J f height n st = Inr ((objs, locs, False), stack')"
    by (auto simp: bindE_eq_Inr split: option.splits)
  note d = next_matching_descends [OF s(1) Suc.prems(2)]
  then have l: "length st \<le> MAX_BUNDLE_DEPTH" by (auto simp: descends_def)
  have r: "(st, stack) \<in> rank_order"
    using descends_rank [OF d Suc.prems(2)] by (auto simp: rank_order_def inv_image_def)
  show ?case
  proof (cases n)
    case 0
    then show ?thesis using s(2) r l by simp
  next
    case (Suc m)
    then show ?thesis using Suc.IH [OF s(2) l] r by (auto simp: rank_order_def intro: trancl_trans)
  qed
qed simp

lemma persist_ends:
  assumes "0 < batch_size"
  shows "length stack \<le> MAX_BUNDLE_DEPTH \<Longrightarrow> \<exists>fuel r. persist_batches E S C J f height batch_size fuel stack = Some r"
proof (induction stack rule: wf_induct_rule [OF wf_rank_order])
  case (1 stack)
  show ?case
  proof (cases "next_bundle_batch E S C J f height batch_size stack")
    case (Inl e)
    then show ?thesis by (intro exI [of _ "Suc 0"]) simp
  next
    case (Inr x)
    obtain objects locations complete stack' where x: "x = ((objects, locations, complete), stack')" by (cases x) auto
    show ?thesis
    proof (cases complete)
      case True
      then show ?thesis using Inr x by (intro exI [of _ "Suc 0"]) simp
    next
      case False
      then have "(stack', stack) \<in> rank_order" "length stack' \<le> MAX_BUNDLE_DEPTH"
        using batch_descends Inr x "1.prems" assms by auto
      then obtain fuel r where "persist_batches E S C J f height batch_size fuel stack' = Some r" using "1.IH" by blast
      then show ?thesis using Inr x False by (intro exI [of _ "Suc fuel"] exI) simp
    qed
  qed
qed


text \<open>What the traversal lists, one item at a time, for at most \<open>fuel\<close> calls.\<close>

fun traverse ::
  "deps \<Rightarrow> signers \<Rightarrow> curves \<Rightarrow> json_reader \<Rightarrow> IndexFilter \<Rightarrow> nat \<Rightarrow> nat \<Rightarrow> BundleFrame list \<Rightarrow>
   (ObjectMetadata \<times> BundleLocation) list res option" where
  "traverse E S C J f height 0 stack = None"
| "traverse E S C J f height (Suc fuel) stack = (case next_matching E S C J f height stack of
     Inl e \<Rightarrow> Some (Inl e)
   | Inr (None, _) \<Rightarrow> Some (Inr [])
   | Inr (Some found, stack) \<Rightarrow>
       map_option (\<lambda>r. bindE r (\<lambda>rest. Inr (found # rest))) (traverse E S C J f height fuel stack))"

lemma batch_of_traverse:
  "traverse E S C J f height fuel stack = Some (Inr found) \<Longrightarrow>
   \<exists>objects locations complete stack'. next_bundle_batch E S C J f height n stack = Inr ((objects, locations, complete), stack')
     \<and> (if complete then objects = map fst found \<and> locations = map snd found
        else \<exists>fuel' found'. traverse E S C J f height fuel' stack' = Some (Inr found')
          \<and> map fst found = objects @ map fst found' \<and> map snd found = locations @ map snd found')"
proof (induction n arbitrary: fuel stack found)
  case 0
  then show ?case by auto
next
  case (Suc n)
  then obtain k where fuel: "fuel = Suc k" by (cases fuel) auto
  obtain nx st where nm: "next_matching E S C J f height stack = Inr (nx, st)"
    using Suc.prems fuel by (auto split: sum.splits)
  show ?case
  proof (cases nx)
    case None
    then show ?thesis using nm Suc.prems fuel by auto
  next
    case (Some x)
    obtain obj loc where x: "x = (obj, loc)" by (cases x)
    obtain rest where r: "traverse E S C J f height k st = Some (Inr rest)" "found = x # rest"
      using Suc.prems fuel nm Some by (auto simp: bindE_eq_Inr)
    show ?thesis using Suc.IH [OF r(1)] nm Some x r(2) by (fastforce split: if_splits)
  qed
qed

lemma persist_of_traverse:
  "persist_batches E S C J f height batch_size n stack = Some (batches, failed) \<Longrightarrow>
   traverse E S C J f height fuel stack = Some (Inr found) \<Longrightarrow>
   failed = None \<and> concat (map fst batches) = map fst found \<and> concat (map snd batches) = map snd found"
proof (induction n arbitrary: stack fuel found batches)
  case (Suc n)
  from batch_of_traverse [OF Suc.prems(2), of batch_size] obtain objects locations complete stack' where
    b: "next_bundle_batch E S C J f height batch_size stack = Inr ((objects, locations, complete), stack')"
    "if complete then objects = map fst found \<and> locations = map snd found
     else \<exists>fuel' found'. traverse E S C J f height fuel' stack' = Some (Inr found')
       \<and> map fst found = objects @ map fst found' \<and> map snd found = locations @ map snd found'" by blast
  show ?case
  proof (cases complete)
    case True
    then show ?thesis using Suc.prems(1) b by auto
  next
    case False
    then obtain rest where r: "persist_batches E S C J f height batch_size n stack' = Some (rest, failed)"
      "batches = (objects, locations) # rest" using Suc.prems(1) b(1) by auto
    obtain fuel' found' where t: "traverse E S C J f height fuel' stack' = Some (Inr found')"
      "map fst found = objects @ map fst found'" "map snd found = locations @ map snd found'" using b(2) False by auto
    show ?thesis using Suc.IH [OF r(1) t(1)] r(2) t(2,3) by simp
  qed
qed simp

text \<open>C19. Indexing a bundle ends: whatever the nesting of its items, the loop that commits batches of any positive size
  reaches its last batch or an error, and when the traversal meets no error the batches put together are the
  items it lists one by one, in order, whatever the size of a batch.\<close>

theorem bundle_traversal_terminates:
  assumes "traversal_new E J root root_id format = Inr stack" and "0 < batch_size"
  shows "\<exists>n batches failed. persist_batches E S C J f height batch_size n stack = Some (batches, failed)
    \<and> (traverse E S C J f height fuel stack = Some (Inr found) \<longrightarrow>
        failed = None \<and> concat (map fst batches) = map fst found \<and> concat (map snd batches) = map snd found)"
proof -
  have "length stack \<le> MAX_BUNDLE_DEPTH"
    using assms(1) by (auto simp: traversal_new_def bindE_eq_Inr MAX_BUNDLE_DEPTH_def)
  from persist_ends [OF assms(2) this] obtain n batches failed where
    p: "persist_batches E S C J f height batch_size n stack = Some (batches, failed)" by fastforce
  then show ?thesis using persist_of_traverse [OF p] by blast
qed

end
