(* ===== verification/Retrieval.thy ===== *)
theory Retrieval
  imports TraversalProofs
begin

text \<open>
  Indexing and retrieval agree: every location the traversal records, with those of its ancestors,
  is a path along which the gateway retrieves the item the index describes.
\<close>

section \<open>Reading a content as the list of its entries\<close>

lemma collect_next:
  "collect s = Inr es \<Longrightarrow> items_next s = Inr (Some e, s') \<Longrightarrow> \<exists>rest. es = e # rest \<and> collect s' = Inr rest"
  by (subst (asm) collect.simps) (auto simp: bindE_eq_Inr)

lemma scan_found: "collect s = Inr es \<Longrightarrow> scan_items E S C J mat i off sl (Some r) s = Inr (Some r)"
proof (induction es arbitrary: s)
  case Nil
  then show ?case
    by (subst scan_items.simps, subst (asm) collect.simps) (auto simp: bindE_eq_Inr split: option.splits)
next
  case (Cons e es)
  then obtain s' where s': "items_next s = Inr (Some e, s')" "collect s' = Inr es"
    by (subst (asm) (2) collect.simps) (auto simp: bindE_eq_Inr split: option.splits)
  then show ?case using Cons.IH by (subst scan_items.simps) simp
qed

lemma collect_Cons: "collect s = Inr (e # es) \<Longrightarrow> \<exists>s'. items_next s = Inr (Some e, s') \<and> collect s' = Inr es"
  by (subst (asm) collect.simps) (auto simp: bindE_eq_Inr split: option.splits)

lemma scan_first:
  assumes "\<And>e'. e' \<in> set pre \<Longrightarrow> entry_offset e' = off \<Longrightarrow> try_entry E S C J mat i e' = Inr None"
    and "entry_offset e = off" and "try_entry E S C J mat i e = Inr (Some r)"
  shows "collect s = Inr (pre @ e # rest) \<Longrightarrow> scan_items E S C J mat i (Some off) sl None s = Inr (Some r)"
  using assms(1)
proof (induction pre arbitrary: s)
  case Nil
  then obtain s' where "items_next s = Inr (Some e, s')" "collect s' = Inr rest" using collect_Cons by fastforce
  then show ?case using assms(2,3) scan_found by (subst scan_items.simps) (simp add: entry_wanted_def)
next
  case (Cons e' pre)
  then obtain s' where s': "items_next s = Inr (Some e', s')" "collect s' = Inr (pre @ e # rest)" using collect_Cons by fastforce
  then have "scan_items E S C J mat i (Some off) sl None s' = Inr (Some r)" using Cons.IH Cons.prems(2) by simp
  then show ?case using s' Cons.prems(2) [of e'] by (subst scan_items.simps) (auto simp: entry_wanted_def)
qed

section \<open>Offsets name entries\<close>

text \<open>
  The reader of JSON counts bytes: two entries of a bundle that are objects without duplicate keys
  start at different positions.
\<close>

definition json_offsets :: "deps \<Rightarrow> json_reader \<Rightarrow> bool" where
  "json_offsets E J \<longleftrightarrow> (\<forall>content. distinct (map je_offset
     (filter (\<lambda>e. \<not> fd_invalid (je_fields e)) (fst (json_bundle_new E J content)))))"

lemma binary_next_entry:
  "binary_next s = Inr (Some e, s') \<Longrightarrow>
   \<exists>i b. e = BinaryEntry i b (bb_item_start s) \<and> length i = 32 \<and> bb_item_start s < bb_item_start s'"
  by (auto simp: binary_next_def res_simps BUNDLE_ENTRY_SIZE_def split: if_splits)

lemma collect_binary_offsets:
  "collect (BinaryItems s) = Inr es \<Longrightarrow> distinct (map entry_offset es)
    \<and> (\<forall>e \<in> set es. bb_item_start s \<le> entry_offset e \<and> \<not> is_json e \<and> (\<exists>i. entry_id e = Some i \<and> length i = 32))"
proof (induction es arbitrary: s)
  case (Cons e es)
  then obtain s' where s': "items_next (BinaryItems s) = Inr (Some e, s')" "collect s' = Inr es" using collect_Cons by blast
  then obtain b where b: "s' = BinaryItems b" "binary_next s = Inr (Some e, b)" by (auto simp: bindE_eq_Inr)
  obtain i d where e: "e = BinaryEntry i d (bb_item_start s)" "length i = 32" "bb_item_start s < bb_item_start b"
    using binary_next_entry [OF b(2)] by blast
  show ?case using Cons.IH [OF s'(2) [unfolded b(1)]] e by fastforce
qed simp

lemma collect_json: "collect (JsonItems b) = Inr es \<Longrightarrow> es = map JsonItem (fst b)"
proof (induction es arbitrary: b)
  case Nil
  then show ?case by (subst (asm) collect.simps) (auto simp: bindE_eq_Inr json_next_def split: prod.splits list.splits option.splits)
next
  case (Cons e es)
  then obtain s' where s': "items_next (JsonItems b) = Inr (Some e, s')" "collect s' = Inr es" using collect_Cons by blast
  obtain x b'' where x: "e = JsonItem x" "s' = JsonItems b''" "json_next b = Inr (Some x, b'')"
    using s'(1) by (auto simp: bindE_eq_Inr)
  have "es = map JsonItem (fst b'')" using Cons.IH s'(2) x(2) by blast
  then show ?case using x by (auto simp: json_next_def split: prod.splits list.splits option.splits)
qed

lemma entries_json: "bundle_entries E J content fmt = Inr es \<Longrightarrow> e \<in> set es \<Longrightarrow> is_json e \<longleftrightarrow> fmt = Json"
proof (cases fmt)
  case Binary
  then show "bundle_entries E J content fmt = Inr es \<Longrightarrow> e \<in> set es \<Longrightarrow> is_json e \<longleftrightarrow> fmt = Json"
    using collect_binary_offsets by (fastforce simp: bundle_entries_def items_new_def bindE_eq_Inr)
next
  case Json
  then show "bundle_entries E J content fmt = Inr es \<Longrightarrow> e \<in> set es \<Longrightarrow> is_json e \<longleftrightarrow> fmt = Json"
    using collect_json by (fastforce simp: bundle_entries_def items_new_def bindE_eq_Inr)
qed

lemma invalid_verifies_none: "fd_invalid (je_fields x) \<Longrightarrow> entry_verify E S C J None (JsonItem x) = Inr None"
  by (simp add: entry_verify_def json_verify_def)

text \<open>An entry before a valid one at the same offset yields nothing.\<close>

lemma earlier_is_nothing:
  assumes "json_offsets E J" "bundle_entries E J content fmt = Inr (pre @ e # rest)"
    and "entry_verify E S C J None e = Inr (Some item)" "e' \<in> set pre" "entry_offset e' = entry_offset e"
  shows "try_entry E S C J None i e' = Inr None"
proof (cases fmt)
  case Binary
  then have "distinct (map entry_offset (pre @ e # rest))"
    using assms(2) collect_binary_offsets by (fastforce simp: bundle_entries_def items_new_def bindE_eq_Inr)
  then have "entry_offset e \<notin> entry_offset ` set pre" by simp
  then have False using assms(4,5) by (metis image_eqI)
  then show ?thesis ..
next
  case Json
  let ?b = "json_bundle_new E J content"
  have es: "pre @ e # rest = map JsonItem (fst ?b)"
    using assms(2) Json collect_json by (auto simp: bundle_entries_def items_new_def bindE_eq_Inr)
  then obtain xs x ys where x: "fst ?b = xs @ x # ys" "pre = map JsonItem xs" "e = JsonItem x"
    by (auto simp: append_eq_map_conv Cons_eq_map_conv)
  obtain x' where x': "e' = JsonItem x'" "x' \<in> set xs" using assms(4) x(2) by auto
  have valid: "\<not> fd_invalid (je_fields x)" using assms(3) x(3) invalid_verifies_none by (metis Inr_inject option.distinct(1))
  have "distinct (map je_offset (filter (\<lambda>e. \<not> fd_invalid (je_fields e)) (xs @ x # ys)))"
    using assms(1) x(1) unfolding json_offsets_def by metis
  then have apart: "je_offset x \<notin> je_offset ` set (filter (\<lambda>e. \<not> fd_invalid (je_fields e)) xs)"
    using valid by simp
  have "fd_invalid (je_fields x')"
  proof (rule ccontr)
    assume "\<not> fd_invalid (je_fields x')"
    then have "je_offset x' \<in> je_offset ` set (filter (\<lambda>e. \<not> fd_invalid (je_fields e)) xs)" using x'(2) by simp
    then show False using apart assms(5) x(3) x'(1) by simp
  qed
  then show ?thesis using x'(1) invalid_verifies_none by (simp add: try_entry_def)
qed


section \<open>The paths of the index\<close>

text \<open>A location leads to an item of the bundle of a frame.\<close>

definition item_at ::
  "deps \<Rightarrow> signers \<Rightarrow> curves \<Rightarrow> json_reader \<Rightarrow> bytes \<Rightarrow> BundleFormat \<Rightarrow> bytes \<Rightarrow> nat list \<Rightarrow> BundleLocation \<Rightarrow> VerifiedItem \<Rightarrow> bool" where
  "item_at E S C J content fmt parent_id path loc item \<longleftrightarrow> bl_parent_id loc = parent_id \<and> bl_json loc = (fmt = Json)
     \<and> length (bl_id loc) = 32
     \<and> verify_bundle_item E S C J content fmt (bl_id loc) (Some (bl_item_offset loc)) None = Inr (item, bl_item_offset loc)
     \<and> bl_path loc = path @ [bl_item_offset loc] \<and> bl_data_offset loc = vi_data_offset item \<and> bl_item_size loc = vi_item_size item"

inductive frame_at ::
  "deps \<Rightarrow> signers \<Rightarrow> curves \<Rightarrow> json_reader \<Rightarrow> bytes \<Rightarrow> BundleFormat \<Rightarrow> bytes \<Rightarrow>
   BundleLocation list \<Rightarrow> bytes \<Rightarrow> BundleFormat \<Rightarrow> bytes \<Rightarrow> nat list \<Rightarrow> bool"
  for E S C J root format root_id where
  root: "frame_at E S C J root format root_id [] root format root_id []"
| nested: "frame_at E S C J root format root_id locs content fmt parent_id path \<Longrightarrow>
    item_at E S C J content fmt parent_id path loc item \<Longrightarrow> bundle_format item = Some fmt' \<Longrightarrow>
    frame_at E S C J root format root_id (locs @ [loc]) (vi_data item) fmt' (bl_id loc) (bl_path loc)"

lemma walk_frame:
  "frame_at E S C J root format root_id locs content fmt parent_id path \<Longrightarrow> rest \<noteq> [] \<Longrightarrow>
   indexed_walk E S C J i n None root format root_id [] (locs @ rest) = indexed_walk E S C J i n None content fmt parent_id path rest"
proof (induction arbitrary: rest rule: frame_at.induct)
  case (nested locs content fmt parent_id path loc item fmt')
  then have "indexed_walk E S C J i n None root format root_id [] (locs @ loc # rest)
      = indexed_walk E S C J i n None content fmt parent_id path (loc # rest)" by simp
  also have "\<dots> = indexed_walk E S C J i n None (vi_data item) fmt' (bl_id loc) (bl_path loc) rest"
    using nested.hyps(2,3) nested.prems by (simp add: item_at_def Let_def)
  finally show ?case by simp
qed simp

lemma walk_item:
  assumes "frame_at E S C J root format root_id locs content fmt parent_id path" "item_at E S C J content fmt parent_id path loc item"
  shows "indexed_walk E S C J (bl_id loc) (length (vi_data item)) None root format root_id [] (locs @ [loc]) = Inr item"
  using walk_frame [OF assms(1), of "[loc]"] assms(2) by (simp add: item_at_def Let_def)

lemma examine_verified:
  "examine E S C J f height e hid = Inr (Some item) \<Longrightarrow> entry_id e = Some hid \<Longrightarrow> entry_verify E S C J None e = Inr (Some item)"
proof (cases e)
  case (BinaryEntry i b off)
  then show "examine E S C J f height e hid = Inr (Some item) \<Longrightarrow> entry_id e = Some hid \<Longrightarrow> ?thesis"
    by (auto simp: examine_def entry_verify_def verify_data_item_def bindE_eq_Inr split: if_splits)
next
  case (JsonItem x)
  assume ex: "examine E S C J f height e hid = Inr (Some item)"
  then obtain r where r: "entry_verify E S C J None e = Inr r" using JsonItem by (auto simp: examine_def bindE_eq_Inr)
  then have "r = Some item" using ex JsonItem by (cases r) (auto simp: examine_def Let_def split: if_splits)
  then show ?thesis using r by simp
qed

lemma json_signed: "json_verify E S J x = Inr (Some (item, d)) \<Longrightarrow> vi_signature item \<noteq> []"
proof -
  have p: "json_parsed E J fs i = Inr (owner, signature, target, anchor, tags) \<Longrightarrow> signature \<noteq> []"
    for J fs i owner signature target anchor tags
    by (auto simp: json_parsed_def bindE_eq_Inr ensure_eq_Inr)
  assume v: "json_verify E S J x = Inr (Some (item, d))"
  then obtain i span where f: "\<not> fd_invalid (je_fields x)" "je_id x = Some i" "fd_data (je_fields x) = Some span"
    by (auto simp: json_verify_def split: bool.splits option.splits)
  then obtain owner signature target anchor tags where q: "json_parsed E J (je_fields x) i = Inr (owner, signature, target, anchor, tags)"
    using v by (auto simp: json_verify_def split: sum.splits error.splits)
  note v1 = v [unfolded json_verify_def, simplified f q Let_def prod.case bool.case option.case sum.case]
  obtain off encoded where d: "data_span x span = Inr (Some (off, encoded))"
    using v1 by (cases "data_span x span") (auto simp: f q split: option.splits)
  obtain source h1 h2 where sc: "base64_scan E encoded = Inr (source, h1, h2)"
    using v1 d by (cases "base64_scan E encoded") (auto simp: f q split: if_splits)
  let ?pay = "json_payload E owner target anchor tags (sha384 E [sha384 E [as_bytes (''blob'' @ show_nat (bd_len source))], h2])"
  have "verify_rsa_pss E S owner signature ?pay STR ''JSON item'' = Inr ()"
    using v1 d sc by (cases "verify_rsa_pss E S owner signature ?pay STR ''JSON item''") (auto simp: f q split: error.splits)
  then have "vi_signature item = signature"
    using v1 d sc by (auto simp: f q bindE_eq_Inr)
  then show ?thesis using p [OF q] by simp
qed

lemma item_id_length:
  assumes "hash_widths E" "bundle_entries E J content fmt = Inr es" "e \<in> set es" "entry_id e = Some hid"
    and "entry_verify E S C J None e = Inr (Some item)"
  shows "length (item_id E item hid) = 32"
proof (cases "vi_signature item = []")
  case True
  show ?thesis
  proof (cases e)
    case (BinaryEntry i b off)
    then have "fmt = Binary" using entries_json [OF assms(2,3)] by (cases fmt) auto
    then have "\<exists>i. entry_id e = Some i \<and> length i = 32"
      using collect_binary_offsets assms(2,3) by (fastforce simp: bundle_entries_def items_new_def bindE_eq_Inr)
    then show ?thesis using True assms(4) by (simp add: item_id_def)
  next
    case (JsonItem x)
    then show ?thesis using assms(5) True json_signed
      by (auto simp: entry_verify_def bindE_eq_Inr split: option.splits)
  qed
qed (simp add: item_id_def assms(1))

lemma entry_item_at:
  assumes "hash_widths E" "json_offsets E J" "bundle_entries E J content fmt = Inr (pre @ e # rest)"
    and "entry_id e = Some hid" "examine E S C J f height e hid = Inr (Some item)"
  shows "item_at E S C J content fmt (bf_id parent) (bf_path parent) (item_location parent e item (item_id E item hid)) item"
proof -
  note ver = examine_verified [OF assms(5,4)]
  let ?i = "item_id E item hid"
  have e: "e \<in> set (pre @ e # rest)" by simp
  have tried: "try_entry E S C J None ?i e = Inr (Some (item, entry_offset e))"
    using ver assms(4) by (simp add: try_entry_def)
  obtain s where s: "items_new E J content fmt = Inr s" "collect s = Inr (pre @ e # rest)"
    using assms(3) by (auto simp: bundle_entries_def bindE_eq_Inr)
  have "scan_items E S C J None ?i (Some (entry_offset e)) False None s = Inr (Some (item, entry_offset e))"
    by (rule scan_first [OF earlier_is_nothing [OF assms(2,3) ver] refl tried s(2)])
  then show ?thesis
    using s(1) entries_json [OF assms(3) e] item_id_length [OF assms(1,3) e assms(4) ver]
    by (simp add: item_at_def item_location_def verify_bundle_item_def)
qed

section \<open>What every frame of the traversal is\<close>

text \<open>A frame reads a bundle reached along listed locations; what it has left is the end of its entries.\<close>

definition frame_ok ::
  "deps \<Rightarrow> signers \<Rightarrow> curves \<Rightarrow> json_reader \<Rightarrow> bytes \<Rightarrow> BundleFormat \<Rightarrow> bytes \<Rightarrow> BundleLocation set \<Rightarrow> nat \<Rightarrow> BundleFrame \<Rightarrow> bool" where
  "frame_ok E S C J root format root_id listed depth fr \<longleftrightarrow> (\<exists>locs content fmt pre rest.
     frame_at E S C J root format root_id locs content fmt (bf_id fr) (bf_path fr) \<and> length locs = depth \<and> set locs \<subseteq> listed
     \<and> bundle_entries E J content fmt = Inr (pre @ (case bf_pending fr of None \<Rightarrow> [] | Some e \<Rightarrow> [e]) @ rest)
     \<and> collect (bf_items fr) = Inr rest)"

fun stack_ok ::
  "deps \<Rightarrow> signers \<Rightarrow> curves \<Rightarrow> json_reader \<Rightarrow> bytes \<Rightarrow> BundleFormat \<Rightarrow> bytes \<Rightarrow> BundleLocation set \<Rightarrow> BundleFrame list \<Rightarrow> bool" where
  "stack_ok E S C J root format root_id listed [] = True"
| "stack_ok E S C J root format root_id listed (fr # below) =
     (frame_ok E S C J root format root_id listed (length below) fr \<and> stack_ok E S C J root format root_id listed below)"

lemma frame_ok_mono: "frame_ok E S C J r f i A n fr \<Longrightarrow> A \<subseteq> B \<Longrightarrow> frame_ok E S C J r f i B n fr"
  unfolding frame_ok_def by (elim exE conjE, intro exI conjI, assumption+) blast+

lemma stack_ok_mono: "stack_ok E S C J r f i A st \<Longrightarrow> A \<subseteq> B \<Longrightarrow> stack_ok E S C J r f i B st"
  by (induction st) (auto intro: frame_ok_mono)

text \<open>Taking an entry from a frame.\<close>

lemma frame_ok_next:
  assumes "frame_ok E S C J root format root_id listed n fr" "frame_next fr = Inr (Some e, fr')"
  shows "bf_id fr' = bf_id fr \<and> bf_path fr' = bf_path fr \<and> bf_pending fr' = None \<and>
    (\<exists>locs content fmt pre rest. frame_at E S C J root format root_id locs content fmt (bf_id fr) (bf_path fr) \<and> length locs = n
      \<and> set locs \<subseteq> listed \<and> bundle_entries E J content fmt = Inr (pre @ e # rest) \<and> collect (bf_items fr') = Inr rest)"
proof -
  obtain locs content fmt pre rest where
    f: "frame_at E S C J root format root_id locs content fmt (bf_id fr) (bf_path fr)" "length locs = n" "set locs \<subseteq> listed"
    "bundle_entries E J content fmt = Inr (pre @ (case bf_pending fr of None \<Rightarrow> [] | Some e \<Rightarrow> [e]) @ rest)"
    "collect (bf_items fr) = Inr rest" using assms(1) by (auto simp: frame_ok_def)
  show ?thesis
  proof (cases "bf_pending fr")
    case (Some x)
    then have "e = x" "fr' = fr\<lparr>bf_pending := None\<rparr>" using assms(2) by (simp_all add: frame_next_def)
    then show ?thesis using f Some by auto
  next
    case None
    then obtain items where n: "items_next (bf_items fr) = Inr (Some e, items)" "fr' = fr\<lparr>bf_items := items\<rparr>"
      using assms(2) by (auto simp: frame_next_def bindE_eq_Inr)
    from collect_next [OF f(5) n(1)] obtain rest' where "rest = e # rest'" "collect items = Inr rest'" by blast
    then show ?thesis using f None n(2) by auto
  qed
qed


lemma frame_ok_taken:
  assumes "frame_ok E S C J root format root_id listed n fr" "frame_next fr = Inr (Some e, fr')"
  shows "frame_ok E S C J root format root_id listed n fr'"
proof -
  from frame_ok_next [OF assms] obtain locs content fmt pre rest where
    "bf_id fr' = bf_id fr" "bf_path fr' = bf_path fr" "bf_pending fr' = None"
    "frame_at E S C J root format root_id locs content fmt (bf_id fr) (bf_path fr)" "length locs = n"
    "set locs \<subseteq> listed" "bundle_entries E J content fmt = Inr ((pre @ [e]) @ rest)" "collect (bf_items fr') = Inr rest"
    by auto
  then show ?thesis unfolding frame_ok_def
    by (intro exI [of _ locs] exI [of _ content] exI [of _ fmt] exI [of _ "pre @ [e]"] exI [of _ rest]) simp
qed

text \<open>An item reached through listed locations.\<close>

definition listed_item ::
  "deps \<Rightarrow> signers \<Rightarrow> curves \<Rightarrow> json_reader \<Rightarrow> bytes \<Rightarrow> BundleFormat \<Rightarrow> bytes \<Rightarrow> BundleLocation set \<Rightarrow> nat \<Rightarrow>
   ObjectMetadata \<Rightarrow> BundleLocation \<Rightarrow> VerifiedItem \<Rightarrow> BundleLocation list \<Rightarrow> bool" where
  "listed_item E S C J root format root_id listed depth m loc item locs \<longleftrightarrow> set locs \<subseteq> listed \<and> length locs = depth
     \<and> m = item_metadata E item (bl_id loc)
     \<and> (\<exists>content fmt parent_id path. frame_at E S C J root format root_id locs content fmt parent_id path
          \<and> item_at E S C J content fmt parent_id path loc item)"

lemma listed_item_mono:
  "listed_item E S C J r f i A n m loc item locs \<Longrightarrow> A \<subseteq> B \<Longrightarrow> listed_item E S C J r f i B n m loc item locs"
  by (auto simp: listed_item_def)

lemma push_nested_ok:
  assumes "stack_ok E S C J root format root_id listed stack" "loc \<in> listed"
    and "listed_item E S C J root format root_id listed n m loc item locs" "Suc n = length stack"
    and "push_nested E J item (bl_id loc) (bl_path loc) stack = Inr stack'"
  shows "stack_ok E S C J root format root_id listed stack'"
proof (cases "stack' = stack")
  case True
  then show ?thesis using assms(1) by simp
next
  case False
  then obtain fmt' items first items' where p: "bundle_format item = Some fmt'" "items_checked E J (vi_data item) fmt' = Inr items"
    "items_next items = Inr (Some first, items')"
    "stack' = \<lparr>bf_items = items', bf_id = bl_id loc, bf_path = bl_path loc, bf_pending = Some first\<rparr> # stack"
    using assms(5) by (auto simp: push_nested_def bindE_eq_Inr ensure_eq_Inr split: option.splits)
  obtain content fmt parent_id path where f: "frame_at E S C J root format root_id locs content fmt parent_id path"
    "item_at E S C J content fmt parent_id path loc item" using assms(3) by (auto simp: listed_item_def)
  obtain es where es: "items_new E J (vi_data item) fmt' = Inr items" "collect items = Inr es"
    using p(2) drain_collect by (auto simp: items_checked_def bindE_eq_Inr)
  then obtain rest where r: "es = first # rest" "collect items' = Inr rest" using collect_next [OF es(2) p(3)] by blast
  have "frame_ok E S C J root format root_id listed (length stack) \<lparr>bf_items = items', bf_id = bl_id loc, bf_path = bl_path loc, bf_pending = Some first\<rparr>"
    unfolding frame_ok_def using frame_at.nested [OF f p(1)] assms(2-4) es r
    by (intro exI [of _ "locs @ [loc]"] exI [of _ "vi_data item"] exI [of _ fmt'] exI [of _ "[]"] exI [of _ rest])
      (auto simp: listed_item_def bundle_entries_def)
  then show ?thesis using p(4) assms(1) by simp
qed

lemma next_matching_ok:
  assumes "hash_widths E" "json_offsets E J"
  shows "next_matching E S C J f height stack = Inr (Some (m, loc), stack') \<Longrightarrow>
    stack_ok E S C J root format root_id listed stack \<Longrightarrow> length stack \<le> MAX_BUNDLE_DEPTH \<Longrightarrow>
    (\<exists>item locs n. listed_item E S C J root format root_id listed n m loc item locs \<and> n < MAX_BUNDLE_DEPTH)
    \<and> stack_ok E S C J root format root_id (insert loc listed) stack'"
  using assms
proof (induction E S C J f height stack rule: next_matching.induct)
  case (2 E S C J f height parent below)
  note prems = "2.prems"(1-3) and laws = "2.prems"(4,5)
  let ?ok = "stack_ok E S C J root format root_id listed"
  from prems(1) obtain entry parent' where fn: "frame_next parent = Inr (entry, parent')"
    by (auto simp: bindE_eq_Inr)
  show ?case
  proof (cases entry)
    case None
    then show ?thesis using "2.IH"(1) [OF fn refl None] prems laws fn by simp
  next
    case (Some e)
    note fn = fn [unfolded Some]
    have pok: "frame_ok E S C J root format root_id listed (length below) parent" "?ok below" using prems(2) by auto
    have ok': "?ok (parent' # below)" using frame_ok_taken [OF pok(1) fn] pok(2) by simp
    have l': "length (parent' # below) \<le> MAX_BUNDLE_DEPTH" using prems(3) by simp
    show ?thesis
    proof (cases "entry_id e")
      case None
      then show ?thesis using "2.IH"(2) [OF fn refl refl None _ ok' l' laws] prems(1) fn by simp
    next
      case hid: (Some hid)
      from prems(1) obtain found where ex: "examine E S C J f height e hid = Inr found"
        using fn hid by (auto simp: bindE_eq_Inr)
      show ?thesis
      proof (cases found)
        case None
        then show ?thesis using "2.IH"(3) [OF fn refl refl hid ex None _ ok' l' laws] prems(1) fn hid ex by simp
      next
        case it: (Some item)
        let ?i = "item_id E item hid"
        have loc: "loc = item_location parent' e item ?i" "m = item_metadata E item ?i"
          and push: "push_nested E J item ?i (bl_path loc) (parent' # below) = Inr stack'"
          using prems(1) fn hid ex it by (auto simp: bindE_eq_Inr Let_def)
        from frame_ok_next [OF pok(1) fn] obtain locs content fmt pre rest where
          fr: "bf_id parent' = bf_id parent" "bf_path parent' = bf_path parent"
          "frame_at E S C J root format root_id locs content fmt (bf_id parent) (bf_path parent)" "length locs = length below"
          "set locs \<subseteq> listed" "bundle_entries E J content fmt = Inr (pre @ e # rest)" by auto
        have at: "item_at E S C J content fmt (bf_id parent') (bf_path parent') loc item"
          unfolding loc(1) by (rule entry_item_at [OF laws fr(6) hid ex [unfolded it]])
        have id: "bl_id loc = ?i" by (simp add: loc(1) item_location_def)
        have li: "listed_item E S C J root format root_id listed (length below) m loc item locs"
          unfolding listed_item_def using fr at loc(2) id by auto
        have "stack_ok E S C J root format root_id (insert loc listed) stack'"
          by (rule push_nested_ok [OF stack_ok_mono [OF ok'] _ listed_item_mono [OF li]]) (use push id in auto)
        moreover have "length below < MAX_BUNDLE_DEPTH" using prems(3) by simp
        ultimately show ?thesis using li by blast
      qed
    qed
  qed
qed simp

lemma traverse_listed:
  assumes "hash_widths E" "json_offsets E J"
  shows "traverse E S C J f height fuel stack = Some (Inr found) \<Longrightarrow> stack_ok E S C J root format root_id listed stack \<Longrightarrow>
    length stack \<le> MAX_BUNDLE_DEPTH \<Longrightarrow> (m, loc) \<in> set found \<Longrightarrow>
    \<exists>item locs n. listed_item E S C J root format root_id (listed \<union> snd ` set found) n m loc item locs \<and> n < MAX_BUNDLE_DEPTH"
proof (induction fuel arbitrary: stack found listed)
  case (Suc fuel)
  obtain nx st where nm: "next_matching E S C J f height stack = Inr (nx, st)"
    using Suc.prems(1) by (auto split: sum.splits)
  show ?case
  proof (cases nx)
    case None
    then show ?thesis using nm Suc.prems by auto
  next
    case (Some x)
    obtain m' loc' where x: "x = (m', loc')" by (cases x)
    obtain rest where r: "traverse E S C J f height fuel st = Some (Inr rest)" "found = x # rest"
      using Suc.prems(1) nm Some by (auto simp: bindE_eq_Inr)
    note nm = nm [unfolded Some x]
    note ok = next_matching_ok [OF assms nm Suc.prems(2,3)]
    have len: "length st \<le> MAX_BUNDLE_DEPTH" using next_matching_descends [OF nm Suc.prems(3)] by (auto simp: descends_def)
    show ?thesis
    proof (cases "(m, loc) = x")
      case True
      then show ?thesis using ok x listed_item_mono by blast
    next
      case False
      then have "(m, loc) \<in> set rest" using Suc.prems(4) r(2) by auto
      from Suc.IH [OF r(1) conjunct2 [OF ok] len this] show ?thesis using r(2) x by simp
    qed
  qed
qed simp


text \<open>C20. The index leads back to what it describes: every item the traversal of a root lists, at whatever depth, has a
  path of listed ancestors such that the gateway's retrieval along that path and the item's own location
  succeeds, checks every proof again from the root, and returns an item with exactly the recorded metadata.\<close>

theorem indexed_items_retrievable:
  assumes "hash_widths E" and "json_offsets E J" and "length root_id = 32"
    and "traversal_new E J root root_id format = Inr stack"
    and "traverse E S C J f height fuel stack = Some (Inr found)" and "(m, loc) \<in> set found"
  shows "\<exists>locs item. set locs \<subseteq> snd ` set found
    \<and> verify_indexed_bundle E S C J root format (om_id m)
        \<lparr>ib_root_id = root_id, ib_data_size = om_data_size m, ib_content_type = ctype, ib_locations = locs @ [loc]\<rparr> None = Inr item
    \<and> m = item_metadata E item (om_id m) \<and> bl_id loc = om_id m"
proof -
  obtain items where new: "items_checked E J root format = Inr items"
    "stack = [\<lparr>bf_items = items, bf_id = root_id, bf_path = [], bf_pending = None\<rparr>]"
    using assms(4) by (auto simp: traversal_new_def bindE_eq_Inr)
  then obtain es where es: "items_new E J root format = Inr items" "collect items = Inr es"
    using drain_collect by (auto simp: items_checked_def bindE_eq_Inr)
  have "frame_ok E S C J root format root_id {} 0 \<lparr>bf_items = items, bf_id = root_id, bf_path = [], bf_pending = None\<rparr>"
    unfolding frame_ok_def using es frame_at.root [of E S C J root format root_id]
    by (intro exI [of _ "[]"] exI [of _ root] exI [of _ format] exI [of _ es]) (auto simp: bundle_entries_def)
  then have "stack_ok E S C J root format root_id {} stack" "length stack \<le> MAX_BUNDLE_DEPTH"
    using new(2) by (simp_all add: MAX_BUNDLE_DEPTH_def)
  from traverse_listed [OF assms(1,2,5) this assms(6)] obtain item locs n where
    li: "listed_item E S C J root format root_id (snd ` set found) n m loc item locs" "n < MAX_BUNDLE_DEPTH" by auto
  then obtain content fmt parent_id path where f: "frame_at E S C J root format root_id locs content fmt parent_id path"
    "item_at E S C J content fmt parent_id path loc item" by (auto simp: listed_item_def)
  have m: "m = item_metadata E item (bl_id loc)" using li(1) by (simp add: listed_item_def)
  then have om: "om_id m = bl_id loc" "om_data_size m = length (vi_data item)" by (simp_all add: item_metadata_def)
  have deep: "length locs < MAX_BUNDLE_DEPTH" using li by (simp add: listed_item_def)
  have "verify_indexed_bundle E S C J root format (om_id m)
      \<lparr>ib_root_id = root_id, ib_data_size = om_data_size m, ib_content_type = ctype, ib_locations = locs @ [loc]\<rparr> None = Inr item"
    using walk_item [OF f] assms(3) deep by (simp add: verify_indexed_bundle_def om Suc_le_eq)
  then show ?thesis using li(1) m om by (auto simp: listed_item_def)
qed

section \<open>A root with one item\<close>

definition w_json :: json_reader where
  "w_json = \<lparr>jr_text = \<lambda>s. None, jr_events = \<lambda>b. RootFailed (Fail STR ''not JSON'')\<rparr>"

definition w_root :: bytes where "w_root = bundle_bytes [(replicate 32 7, w_item 9)]"

definition w_entry :: BundleEntry where "w_entry = BinaryEntry (replicate 32 7) (w_item 9) 96"

definition w_metadata :: ObjectMetadata where "w_metadata = item_metadata w_deps (w_verified 9) (replicate 32 0)"

definition w_location :: BundleLocation where
  "w_location = \<lparr>bl_id = replicate 32 0, bl_parent_id = replicate 32 3, bl_path = [96], bl_item_offset = 96,
     bl_item_size = 157, bl_data_offset = 154, bl_json = False\<rparr>"

lemma w_root_entries: "\<exists>s. items_new w_deps w_json w_root Binary = Inr s \<and> collect s = Inr [w_entry]"
proof -
  let ?xs = "[(replicate 32 7, w_item 9)]"
  have ne: "w_item 9 \<noteq> []" using w_item_length [of 9] by auto
  have "length w_root < USIZE" by (simp add: w_root_def bundle_bytes_def table_bytes_def w_item_length U64_def)
  from binary_bundle_entries [OF this, of w_deps w_json "[w_entry]"]
  have "bundle_entries w_deps w_json w_root Binary = Inr [w_entry]"
    using ne by (auto simp: w_root_def w_entry_def pair_ok_def intro!: exI [of _ ?xs])
  then show ?thesis by (auto simp: bundle_entries_def bindE_eq_Inr)
qed

lemma w_traversal:
  "\<exists>stack. traversal_new w_deps w_json w_root (replicate 32 3) Binary = Inr stack
     \<and> traverse w_deps (s_signers []) w_curves w_json filter_default 5 2 stack = Some (Inr [(w_metadata, w_location)])"
proof -
  obtain s where s: "items_new w_deps w_json w_root Binary = Inr s" "collect s = Inr [w_entry]" using w_root_entries by blast
  obtain s' where s': "items_next s = Inr (Some w_entry, s')" "collect s' = Inr []" using collect_Cons [OF s(2)] by blast
  obtain s'' where s'': "items_next s' = Inr (None, s'')"
    using s'(2) by (subst (asm) collect.simps) (auto simp: bindE_eq_Inr split: option.splits)
  have "drain s = Inr ()" using s(2) drain_collect by blast
  then have new: "traversal_new w_deps w_json w_root (replicate 32 3) Binary
      = Inr [\<lparr>bf_items = s, bf_id = replicate 32 3, bf_path = [], bf_pending = None\<rparr>]"
    using s(1) by (simp add: traversal_new_def items_checked_def)
  have np: "from_pairs (item_pairs w_tags) = Inl (Fail STR ''unsupported or ambiguous bundle format/version'')"
    by (simp add: from_pairs_def item_pairs_def w_tags_def format_step_def eq_ignore_ascii_case_def as_bytes_def)
  have ver: "verify_data_item_header w_deps (s_signers []) w_curves (w_item 9) (w_header 9) (replicate 32 7) = Inr (w_verified 9)"
    using w_item_verified [of "s_signers []" 9] by (simp add: verify_data_item_def w_header_read)
  have ex: "examine w_deps (s_signers []) w_curves w_json filter_default 5 w_entry (replicate 32 7) = Inr (Some (w_verified 9))"
    by (simp add: examine_def w_entry_def w_header_read ver filter_keeps_def filter_matches_def filter_default_def)
  have id: "item_id w_deps (w_verified 9) (replicate 32 7) = replicate 32 0"
    by (simp add: item_id_def w_verified_def w_sha)
  have push: "push_nested E J (w_verified 9) i path st = Inr st" for E J i path st
    by (simp add: push_nested_def bundle_format_def w_verified_def np)
  have "next_matching w_deps (s_signers []) w_curves w_json filter_default 5
      [\<lparr>bf_items = s, bf_id = replicate 32 3, bf_path = [], bf_pending = None\<rparr>]
    = Inr (Some (w_metadata, w_location), [\<lparr>bf_items = s', bf_id = replicate 32 3, bf_path = [], bf_pending = None\<rparr>])"
    using s'(1) ex id push
    by (simp add: frame_next_def w_entry_def Let_def w_metadata_def w_location_def item_location_def w_verified_def)
  moreover have "next_matching w_deps (s_signers []) w_curves w_json filter_default 5
      [\<lparr>bf_items = s', bf_id = replicate 32 3, bf_path = [], bf_pending = None\<rparr>] = Inr (None, [])"
    using s'' by (simp add: frame_next_def)
  ultimately show ?thesis using new by (simp add: numeral_2_eq_2)
qed

theorem indexed_items_retrievable_witness:
  "\<exists>locs item. set locs \<subseteq> {w_location}
    \<and> verify_indexed_bundle w_deps (s_signers []) w_curves w_json w_root Binary (om_id w_metadata)
        \<lparr>ib_root_id = replicate 32 3, ib_data_size = om_data_size w_metadata, ib_content_type = None, ib_locations = locs @ [w_location]\<rparr> None
      = Inr item \<and> w_metadata = item_metadata w_deps item (om_id w_metadata) \<and> bl_id w_location = om_id w_metadata"
proof -
  have w: "hash_widths w_deps" by (simp add: w_deps_def hash_widths_def sample_def sample_hash_def)
  have j: "json_offsets w_deps w_json" by (simp add: json_offsets_def json_bundle_new_def w_json_def)
  obtain stack where "traversal_new w_deps w_json w_root (replicate 32 3) Binary = Inr stack"
    "traverse w_deps (s_signers []) w_curves w_json filter_default 5 2 stack = Some (Inr [(w_metadata, w_location)])"
    using w_traversal by blast
  from indexed_items_retrievable [OF w j _ this, of w_metadata w_location None] show ?thesis by simp
qed

theorem bundle_traversal_terminates_witness:
  "\<exists>stack n batches failed. traversal_new w_deps w_json w_root (replicate 32 3) Binary = Inr stack
    \<and> persist_batches w_deps (s_signers []) w_curves w_json filter_default 5 7 n stack = Some (batches, failed)
    \<and> failed = None \<and> concat (map snd batches) = [w_location]"
proof -
  obtain stack where s: "traversal_new w_deps w_json w_root (replicate 32 3) Binary = Inr stack"
    "traverse w_deps (s_signers []) w_curves w_json filter_default 5 2 stack = Some (Inr [(w_metadata, w_location)])"
    using w_traversal by blast
  from bundle_traversal_terminates [OF s(1), of 7 "s_signers []" w_curves filter_default 5 2 "[(w_metadata, w_location)]"] s
  show ?thesis by fastforce
qed

end
