(* ===== verification/Gateway.thy ===== *)
theory Gateway
  imports HeaderJson Anchor Retrieval StreamProofs
begin

text \<open>
  The authentication of a transaction, \<open>Gateway\<close> of \<open>src/src/lib.rs\<close>: the header of its block from
  the trusted node or a bounded number of untrusted sources (\<open>authenticate_block\<close>), its metadata
  (\<open>fetch_transaction\<close>), for legacy transactions the whole block (\<open>verify_block_transactions\<close>), and
  the root they give (\<open>authenticate_root\<close>): the inline data, or the interval of the weave a streamed
  content is read from.  What the sources answer is the record \<open>sources\<close>, a parameter.
\<close>

definition MAX_BLOCK_TRANSACTION_BYTES :: nat where "MAX_BLOCK_TRANSACTION_BYTES = 64 * 1024 * 1024"
definition LEGACY_HASH_LIST_BYTES :: nat where "LEGACY_HASH_LIST_BYTES = 28290751"
definition LEGACY_HASH_LIST_SHA256 :: bytes where
  "LEGACY_HASH_LIST_SHA256 =
    [0xd1, 0x61, 0x50, 0x2a, 0x13, 0xe6, 0x4f, 0xa4, 0x9b, 0xcb, 0x24, 0x25, 0x42, 0x0b, 0xcd, 0xcd,
     0x6a, 0x44, 0x07, 0xe4, 0x88, 0xac, 0xa3, 0xe1, 0x4b, 0xa2, 0x54, 0xf1, 0x64, 0x18, 0xca, 0x6f]"

section \<open>Configuration and answers\<close>

record config =
  cfg_trusted_node_url :: str
  cfg_archive_url :: str
  cfg_chunk_sources :: "str list"
  cfg_max_peer_attempts :: nat
  cfg_max_data_size :: nat
  cfg_max_memory_data_size :: nat
  cfg_indexes :: bool                     \<comment> \<open>\<open>bundle_indexer.is_some()\<close>\<close>

text \<open>A response: whether it came from the origin that was asked, its declared length, the parts of its body.\<close>

datatype http_answer = HttpFailed error | HttpAnswer bool "nat option" "bytes res list"

record TxStatus =
  ts_block_height :: nat
  ts_block_indep_hash :: str

record TxOffset =
  to_size :: str
  to_offset :: str

record sources =
  a_anchors :: anchors
  a_placement :: "bytes \<Rightarrow> (nat \<times> bytes) option res"                 \<comment> \<open>\<open>store.transaction_placement\<close>\<close>
  a_sizes :: "bytes \<Rightarrow> (bytes \<times> int option \<times> nat) list res"          \<comment> \<open>\<open>store.block_transaction_sizes\<close>\<close>
  a_status :: "str \<Rightarrow> TxStatus res"                                  \<comment> \<open>\<open>tx/id/status\<close> of the archive\<close>
  a_block_index :: "nat \<Rightarrow> nat \<Rightarrow> BlockIndexEntry list res"          \<comment> \<open>\<open>block_index/start/end\<close> of the trusted node\<close>
  a_header :: "str \<Rightarrow> str \<Rightarrow> json res"                              \<comment> \<open>\<open>block/hash/h\<close> of a source\<close>
  a_legacy_table :: "bytes res"                                      \<comment> \<open>the table of hashes\<close>
  a_discovered :: "str list"                                         \<comment> \<open>\<open>peers.candidates\<close>\<close>
  a_tx :: "str \<Rightarrow> str \<Rightarrow> http_answer"                               \<comment> \<open>\<open>tx/id\<close> of a source\<close>
  a_offset :: "str \<Rightarrow> TxOffset res"                                  \<comment> \<open>\<open>tx/id/offset\<close> of the archive\<close>

text \<open>The text readers of \<open>serde_json\<close>, and serializations the model leaves open.\<close>

record texts =
  x_json :: "bytes \<Rightarrow> json option"
  x_strings :: "bytes \<Rightarrow> str list option"
  x_float :: float_text
  x_record :: "ObjectMetadata \<Rightarrow> bytes"
  x_headers :: headers

section \<open>Bodies within limits\<close>

text \<open>
  The bytes of all responses of a retrieval are taken off one counter; a part that exceeds it empties
  the counter.
\<close>

fun read_parts :: "nat \<Rightarrow> nat \<Rightarrow> bytes \<Rightarrow> bytes res list \<Rightarrow> bytes res \<times> nat" where
  "read_parts limit remaining body [] = (Inr body, remaining)"
| "read_parts limit remaining body (part # parts) =
     (case part of
        Inl _ \<Rightarrow> (Inl (Fail STR ''failed to read HTTP body''), remaining)
      | Inr bs \<Rightarrow>
          let left = remaining - length bs in
          if length bs \<le> remaining \<and> saturating_add USIZE (length body) (length bs) \<le> limit
          then read_parts limit left (body @ bs) parts
          else (Inl (Fail STR ''HTTP response exceeds size limit''), left))"

definition read_response_body_with_limit :: "nat \<Rightarrow> nat \<Rightarrow> nat option \<Rightarrow> bytes res list \<Rightarrow> bytes res \<times> nat" where
  "read_response_body_with_limit limit remaining content_length parts =
     (if (case content_length of None \<Rightarrow> True | Some n \<Rightarrow> n \<le> min limit remaining)
      then read_parts limit remaining [] parts
      else (Inl (Fail STR ''HTTP response exceeds size limit''), remaining))"

definition read_json_response_with_limit ::
  "texts \<Rightarrow> nat \<Rightarrow> nat \<Rightarrow> nat option \<Rightarrow> bytes res list \<Rightarrow> json res \<times> nat" where
  "read_json_response_with_limit X limit remaining content_length parts =
     (case read_response_body_with_limit limit remaining content_length parts of
        (body, left) \<Rightarrow>
          (bindE body (\<lambda>body. contextE (x_json X body) STR ''source returned malformed JSON''), left))"

section \<open>Headers\<close>

definition decode_legacy_hashes :: "deps \<Rightarrow> texts \<Rightarrow> bytes \<Rightarrow> bytes list res" where
  "decode_legacy_hashes E X body =
     ensure (length body = LEGACY_HASH_LIST_BYTES) STR ''historical H2 table length mismatch''
     (ensure (sha256 E [body] = LEGACY_HASH_LIST_SHA256) STR ''historical H2 table checksum mismatch''
      (bindE (contextE (x_strings X body) STR ''invalid historical H2 table JSON'') (\<lambda>encoded.
       ensure (length encoded = FORK_2_0_HEIGHT) STR ''historical H2 table entry count mismatch''
       (mapE (\<lambda>text. ensure (length text = 64) STR ''invalid historical H2 hash length''
          (contextE (x_b64_decode E text) STR ''invalid historical H2 hash'')) encoded))))"

definition verify_legacy_header :: "deps \<Rightarrow> texts \<Rightarrow> bytes res \<Rightarrow> BlockHeader \<Rightarrow> BlockIndexEntry \<Rightarrow> BlockHeader res" where
  "verify_legacy_header E X table block entry =
     bindE (legacy_hash_index (bh_height block)) (\<lambda>index.
     bindE table (\<lambda>body.
     bindE (cpu_work (decode_legacy_hashes E X body)) (\<lambda>hashes.
     bindE (nthE hashes index) (\<lambda>expected_h2.
     cpu_work (verify_legacy_header_hash E block entry expected_h2)))))"

definition fetch_and_authenticate_block ::
  "deps \<Rightarrow> texts \<Rightarrow> bytes res \<Rightarrow> json res \<Rightarrow> BlockIndexEntry \<Rightarrow> nat \<Rightarrow> str option \<Rightarrow> BlockHeader res" where
  "fetch_and_authenticate_block E X table response entry height transaction_id =
     bindE response (\<lambda>value.
     bindE (decode_header E value) (\<lambda>block.
     ensure (bh_height block = height \<and> bh_indep_hash block = bi_hash entry) STR ''block header identifier mismatch''
     (if height < 422250 then
        bindE (verify_legacy_header E X table block entry) (\<lambda>block.
        ensure (case transaction_id of None \<Rightarrow> True | Some t \<Rightarrow> t \<in> set (bh_txs block))
          STR ''transaction ID is absent from authenticated block'' (Inr block))
      else bindE (cpu_work (verify_block_header E (x_float X) block entry height transaction_id)) (\<lambda>_. Inr block))))"

text \<open>
  The sources after the trusted node: each is tried once, within the budget, the last place kept for
  a discovered peer.  The first component lists the sources that were asked.
\<close>

fun attempt_sources ::
  "str \<Rightarrow> nat \<Rightarrow> str list \<Rightarrow> (str \<Rightarrow> 'a res) \<Rightarrow> str list \<Rightarrow> str list \<Rightarrow> str list \<times> 'a res" where
  "attempt_sources trusted budget discovered fetch attempted [] =
     (attempted, Inl (Fail STR ''all bounded block header attempts failed''))"
| "attempt_sources trusted budget discovered fetch attempted (source # rest) =
     (if source = trusted \<or> source \<in> set attempted then attempt_sources trusted budget discovered fetch attempted rest
      else if length attempted \<ge> budget then
        (attempted, Inl (Fail STR ''all bounded block header attempts failed''))
      else if length attempted \<ge> budget - (if discovered = [] then 0 else 1) \<and> source \<notin> set discovered then
        attempt_sources trusted budget discovered fetch attempted rest
      else (case fetch source of
          Inr block \<Rightarrow> (attempted @ [source], Inr block)
        | Inl Panic \<Rightarrow> (attempted @ [source], Inl Panic)
        | Inl _ \<Rightarrow> attempt_sources trusted budget discovered fetch (attempted @ [source]) rest))"

definition authenticate_block ::
  "deps \<Rightarrow> texts \<Rightarrow> config \<Rightarrow> sources \<Rightarrow> BlockIndexEntry \<Rightarrow> nat \<Rightarrow> str option \<Rightarrow> BlockHeader res" where
  "authenticate_block E X C A entry height transaction_id =
     (let fetch = (\<lambda>source. fetch_and_authenticate_block E X (a_legacy_table A) (a_header A source (bi_hash entry))
            entry height transaction_id) in
      case fetch (cfg_trusted_node_url C) of
        Inr block \<Rightarrow> Inr block
      | Inl Panic \<Rightarrow> Inl Panic
      | Inl _ \<Rightarrow> snd (attempt_sources (cfg_trusted_node_url C) (cfg_max_peer_attempts C) (a_discovered A) fetch []
          (cfg_archive_url C # cfg_chunk_sources C @ a_discovered A)))"

definition verified_block :: "deps \<Rightarrow> texts \<Rightarrow> config \<Rightarrow> sources \<Rightarrow> IndexBlock \<Rightarrow> BlockHeader res" where
  "verified_block E X C A block =
     (let entry = \<lparr>bi_tx_root = x_b64_encode E (ib_tx_root block), bi_weave_size = show_nat (ib_weave_size block),
            bi_hash = x_b64_encode E (ib_hash block)\<rparr> in
      bindE (authenticate_block E X C A entry (ib_height block) None) (\<lambda>header.
      case ib_previous_hash block of
        None \<Rightarrow> Inr header
      | Some previous \<Rightarrow>
          bindE (decode_b64 E (bh_previous_block header) STR ''previous block'') (\<lambda>d.
          ensure (d = previous) STR ''block predecessor does not match trusted index'' (Inr header))))"

section \<open>Transactions\<close>

definition response_limit :: "config \<Rightarrow> nat res" where
  "response_limit C =
     contextE (Option.bind (checked_mul USIZE (min (cfg_max_data_size C) (cfg_max_memory_data_size C)) 4) (\<lambda>sz.
       checked_add USIZE (sz div 3) MAX_JSON_BYTES)) STR ''transaction response limit overflow''"

definition fetch_from ::
  "deps \<Rightarrow> texts \<Rightarrow> signers \<Rightarrow> config \<Rightarrow> str \<Rightarrow> nat \<Rightarrow> nat \<Rightarrow> nat \<Rightarrow> bool \<Rightarrow> http_answer
     \<Rightarrow> (Transaction \<times> VerifiedTransaction) res \<times> nat" where
  "fetch_from E X S C i height limit remaining trusted answer = (case answer of
     HttpFailed e \<Rightarrow> (Inl e, remaining)
   | HttpAnswer same_origin content_length parts \<Rightarrow>
       if trusted \<and> \<not> same_origin then
         (Inl (Fail STR ''trusted transaction source redirected outside its origin''), remaining)
       else (case read_json_response_with_limit X limit remaining content_length parts of
         (value, left) \<Rightarrow>
           (bindE value (\<lambda>value.
            bindE (decode_transaction E value) (\<lambda>transaction.
            ensure (trusted \<or> tr_owner transaction \<noteq> []) STR ''ECDSA transactions require trusted node metadata''
            (bindE (cpu_work (verify_transaction E S transaction i height)) (\<lambda>verified.
             ensure (case vt_inline_data verified of None \<Rightarrow> True | Some data \<Rightarrow> length data \<le> cfg_max_data_size C)
               STR ''transaction exceeds configured size limit''
             (Inr (transaction\<lparr>tr_data := []\<rparr>, verified)))))), left)))"

fun fetch_loop ::
  "deps \<Rightarrow> texts \<Rightarrow> signers \<Rightarrow> config \<Rightarrow> sources \<Rightarrow> str \<Rightarrow> nat \<Rightarrow> nat \<Rightarrow> nat \<Rightarrow> (str \<times> bool) list
     \<Rightarrow> (Transaction \<times> VerifiedTransaction) res \<times> nat" where
  "fetch_loop E X S C A i height limit remaining [] = (Inl (Fail STR ''transaction metadata unavailable''), remaining)"
| "fetch_loop E X S C A i height limit remaining ((source, trusted) # rest) =
     (if \<not> trusted \<and> source = cfg_trusted_node_url C then fetch_loop E X S C A i height limit remaining rest
      else (case fetch_from E X S C i height limit remaining trusted (a_tx A source i) of
          (Inr verified, left) \<Rightarrow> (Inr verified, left)
        | (Inl Panic, left) \<Rightarrow> (Inl Panic, left)
        | (Inl _, left) \<Rightarrow> fetch_loop E X S C A i height limit left rest))"

definition fetch_transaction ::
  "deps \<Rightarrow> texts \<Rightarrow> signers \<Rightarrow> config \<Rightarrow> sources \<Rightarrow> str \<Rightarrow> nat \<Rightarrow> nat \<Rightarrow> (Transaction \<times> VerifiedTransaction) res \<times> nat" where
  "fetch_transaction E X S C A i height remaining =
     (case bindE (decode_fixed E 32 i STR ''transaction ID'') (\<lambda>_. response_limit C) of
        Inl e \<Rightarrow> (Inl e, remaining)
      | Inr limit \<Rightarrow> fetch_loop E X S C A i height limit remaining
          [(cfg_trusted_node_url C, True), (cfg_archive_url C, False)])"

section \<open>The transactions of a block\<close>

text \<open>The transactions not known yet, fetched one after the other.\<close>

fun fetch_objects ::
  "deps \<Rightarrow> texts \<Rightarrow> signers \<Rightarrow> config \<Rightarrow> sources \<Rightarrow> nat \<Rightarrow> str list \<Rightarrow> nat \<Rightarrow> ObjectMetadata list \<Rightarrow> str list
     \<Rightarrow> ObjectMetadata list res \<times> nat" where
  "fetch_objects E X S C A height known remaining objects [] = (Inr objects, remaining)"
| "fetch_objects E X S C A height known remaining objects (i # pending) =
     (if i \<in> set known then fetch_objects E X S C A height known remaining objects pending
      else (case fetch_transaction E X S C A i height remaining of
          (Inl e, left) \<Rightarrow> (Inl e, left)
        | (Inr (_, verified), left) \<Rightarrow>
            fetch_objects E X S C A height known left (objects @ [vt_metadata verified]) pending))"

text \<open>\<open>admission\<close>: the counter shared with other blocks, if there is one; its new value is returned.\<close>

definition verify_block_transactions ::
  "deps \<Rightarrow> texts \<Rightarrow> signers \<Rightarrow> config \<Rightarrow> sources \<Rightarrow> BlockHeader \<Rightarrow> ObjectMetadata list \<Rightarrow> nat \<Rightarrow> nat option
     \<Rightarrow> (BlockHeader \<times> ObjectMetadata list) res \<times> nat option" where
  "verify_block_transactions E X S C A block objects fetched_bytes admission =
     (let known = map (\<lambda>object. x_b64_encode E (om_id object)) objects in
      case ensure (length (bh_txs block) \<le> MAX_BLOCK_TRANSACTIONS) STR ''block transaction count exceeds verification limit''
           (bindE (contextE (checked_sub MAX_BLOCK_TRANSACTION_BYTES fetched_bytes)
                     STR ''block transactions exceed aggregate response limit'') (\<lambda>own.
            ensure (distinct known \<and> set known \<subseteq> set (bh_txs block))
              STR ''transaction ID is absent from authenticated block or duplicated'' (Inr own))) of
        Inl e \<Rightarrow> (Inl e, admission)
      | Inr own \<Rightarrow>
          (case fetch_objects E X S C A (bh_height block) known
                  (case admission of None \<Rightarrow> own | Some shared \<Rightarrow> shared) objects (bh_txs block) of
             (fetched, left) \<Rightarrow>
               (bindE fetched (\<lambda>objects.
                bindE (cpu_work (verify_block_data_root E (x_record X) block objects)) (\<lambda>objects.
                Inr (block, objects))), map_option (\<lambda>_. left) admission)))"

section \<open>The root of a retrieval\<close>

record RootFacts =
  rf_block_hash :: bytes
  rf_timestamp :: nat
  rf_transaction_ids :: "bytes list"
  rf_object :: ObjectMetadata

text \<open>The content of a root: bytes, or a streamed content of a geometry and a length.\<close>

datatype root_content = InlineRoot bytes | StreamedRoot Geometry nat

record AuthenticatedRoot =
  ar_id :: str
  ar_bytes :: root_content
  ar_block_height :: nat
  ar_block_hash :: bytes
  ar_stable_anchor :: bool
  ar_tags :: "Tag list"
  ar_content_encoding :: "str option"
  ar_facts :: "RootFacts option"

definition transaction_status :: "deps \<Rightarrow> sources \<Rightarrow> (nat \<times> bytes) option \<Rightarrow> str \<Rightarrow> TxStatus res" where
  "transaction_status E A placement i =
     bindE (case placement of
         Some (block_height, block_hash) \<Rightarrow>
           Inr \<lparr>ts_block_height = block_height, ts_block_indep_hash = x_b64_encode E block_hash\<rparr>
       | None \<Rightarrow> a_status A i) (\<lambda>status.
     bindE (decode_fixed E 48 (ts_block_indep_hash status) STR ''status block hash'') (\<lambda>_. Inr status))"

definition stored_entry :: "deps \<Rightarrow> IndexBlock \<Rightarrow> BlockIndexEntry" where
  "stored_entry E entry = \<lparr>bi_tx_root = x_b64_encode E (ib_tx_root entry), bi_weave_size = show_nat (ib_weave_size entry),
     bi_hash = x_b64_encode E (ib_hash entry)\<rparr>"

text \<open>The trusted entries of the block and its predecessor: from the store when the block is stable, or from the trusted node.\<close>

definition trusted_entries :: "deps \<Rightarrow> sources \<Rightarrow> nat \<Rightarrow> (bool \<times> BlockIndexEntry list) res" where
  "trusted_entries E A height =
     bindE (stored (a_anchors A) (\<lambda>s. bindE (s_stable_hash s height) (\<lambda>hash.
       if hash = None then Inr None else s_pair s height))) (\<lambda>indexed. case indexed of
       Some (previous, block) \<Rightarrow> Inr (True, [stored_entry E block, stored_entry E previous])
     | None \<Rightarrow>
         bindE (t_info (a_anchors A)) (\<lambda>tip.
         ensure (tip \<ge> height) STR ''transaction block is above the trusted node tip''
         (bindE (a_block_index A (height - 1) height) (\<lambda>entries.
          Inr (tip - height \<ge> CONSENSUS_DEPTH, entries)))))"

definition previous_weave :: "BlockIndexEntry option \<Rightarrow> nat res" where
  "previous_weave previous = (case previous of
     None \<Rightarrow> Inr 0 | Some entry \<Rightarrow> parse_u128 (bi_weave_size entry) STR ''previous block weave size'')"

text \<open>Legacy signatures bind concatenated fields, not the boundary of the data: the whole block is checked.\<close>

definition check_legacy_block ::
  "deps \<Rightarrow> texts \<Rightarrow> signers \<Rightarrow> config \<Rightarrow> sources \<Rightarrow> BlockIndexEntry \<Rightarrow> BlockIndexEntry option \<Rightarrow> BlockHeader
     \<Rightarrow> ObjectMetadata \<Rightarrow> nat \<Rightarrow> BlockHeader res" where
  "check_legacy_block E X S C A block previous_block header metadata fetched_bytes =
     bindE (previous_weave previous_block) (\<lambda>previous_size.
     bindE (parse_u128 (bi_weave_size block) STR ''block weave size'') (\<lambda>weave_size.
     bindE (parse_u128 (bh_block_size header) STR ''block size'') (\<lambda>block_size.
     ensure (checked_sub weave_size previous_size = Some block_size)
       STR ''block size does not match trusted weave geometry''
     (ensure (case previous_block of None \<Rightarrow> True | Some previous \<Rightarrow> bh_previous_block header = bi_hash previous)
       STR ''block predecessor does not match trusted index''
      (bindE (fst (verify_block_transactions E X S C A header [metadata] fetched_bytes None)) (\<lambda>(header, _). Inr header))))))"

definition root_facts ::
  "deps \<Rightarrow> config \<Rightarrow> Transaction \<Rightarrow> ObjectMetadata \<Rightarrow> BlockIndexEntry \<Rightarrow> BlockHeader \<Rightarrow> RootFacts option res" where
  "root_facts E C transaction object block header =
     (if cfg_indexes C \<and> (case require_bundle_tags E (tr_tags transaction) of Inr _ \<Rightarrow> True | Inl _ \<Rightarrow> False) then
        bindE (decode_fixed E 48 (bi_hash block) STR ''bundle block hash'') (\<lambda>hash.
        bindE (mapE (\<lambda>i. decode_fixed E 32 i STR ''block transaction ID'') (bh_txs header)) (\<lambda>ids.
        Inr (Some \<lparr>rf_block_hash = hash, rf_timestamp = bh_timestamp header, rf_transaction_ids = ids, rf_object = object\<rparr>)))
      else Inr None)"

text \<open>The end of the transaction in the weave: from an index of the whole block, or from the archive.\<close>

definition transaction_end ::
  "sources \<Rightarrow> (nat \<times> bytes) option \<Rightarrow> BlockHeader \<Rightarrow> str \<Rightarrow> bytes \<Rightarrow> nat \<Rightarrow> nat \<Rightarrow> nat res" where
  "transaction_end A placement header i raw_id data_size previous_weave_size =
     bindE (case (t_store (a_anchors A), placement) of
         (Some _, Some (block_height, block_hash)) \<Rightarrow>
           bindE (a_sizes A block_hash) (\<lambda>sizes.
           if length sizes \<noteq> length (bh_txs header) then Inr None
           else transaction_end_offset block_height sizes raw_id)
       | _ \<Rightarrow> Inr None) (\<lambda>indexed_end. case indexed_end of
         Some (indexed_size, relative_end) \<Rightarrow>
           ensure (indexed_size = data_size) STR ''transaction size and indexed size differ''
           (contextE (checked_add U128 previous_weave_size relative_end) STR ''transaction offset overflow'')
       | None \<Rightarrow>
           bindE (a_offset A i) (\<lambda>offset.
           bindE (parse_u128 (to_size offset) STR ''offset data size'') (\<lambda>sz.
           ensure (sz = data_size) STR ''transaction size and offset size differ''
           (parse_u128 (to_offset offset) STR ''transaction end offset''))))"

definition root_geometry ::
  "deps \<Rightarrow> sources \<Rightarrow> (nat \<times> bytes) option \<Rightarrow> BlockIndexEntry \<Rightarrow> BlockIndexEntry option \<Rightarrow> BlockHeader \<Rightarrow> Transaction
     \<Rightarrow> str \<Rightarrow> bytes \<Rightarrow> nat \<Rightarrow> Geometry res" where
  "root_geometry E A placement block previous_block header transaction i raw_id data_size =
     bindE (parse_u128 (bi_weave_size block) STR ''block weave size'') (\<lambda>block_weave_size.
     bindE (previous_weave previous_block) (\<lambda>previous_weave_size.
     ensure (block_weave_size > previous_weave_size) STR ''invalid block weave geometry''
     (bindE (transaction_end A placement header i raw_id data_size previous_weave_size) (\<lambda>end_offset.
      bindE (subE data_size 1) (\<lambda>last.
      bindE (contextE (checked_sub end_offset last) STR ''transaction offset underflow'') (\<lambda>first_offset.
      ensure (first_offset > previous_weave_size) STR ''transaction starts before its block''
      (ensure (end_offset \<le> block_weave_size) STR ''transaction ends after its block''
       (bindE (decode_fixed E 32 (bi_tx_root block) STR ''block tx_root'') (\<lambda>tx_root.
        bindE (decode_fixed E 32 (tr_data_root transaction) STR ''transaction data root'') (\<lambda>data_root.
        Inr \<lparr>g_tx_root = tx_root, g_data_root = data_root, g_block_weave_size = block_weave_size,
             g_previous_weave_size = previous_weave_size, g_first_offset = first_offset,
             g_end_offset = end_offset, g_data_size = data_size\<rparr>))))))))))"

text \<open>The root under the trusted entries of its block and the predecessor.\<close>

definition root_in_block ::
  "deps \<Rightarrow> texts \<Rightarrow> signers \<Rightarrow> config \<Rightarrow> sources \<Rightarrow> str \<Rightarrow> bytes \<Rightarrow> (nat \<times> bytes) option \<Rightarrow> nat \<Rightarrow> bool
     \<Rightarrow> BlockIndexEntry \<Rightarrow> BlockIndexEntry option \<Rightarrow> AuthenticatedRoot res" where
  "root_in_block E X S C A i raw_id placement height stable_anchor block previous_block =
     bindE (authenticate_block E X C A block height (Some i)) (\<lambda>header.
     case fetch_transaction E X S C A i height (USIZE - 1) of (fetched, remaining) \<Rightarrow>
     bindE fetched (\<lambda>(transaction, verified).
     let metadata = vt_metadata verified; data_size = om_data_size metadata in
     bindE (response_content_encoding (x_headers X) (om_content_encoding metadata)) (\<lambda>content_encoding.
     bindE (if tr_format transaction = 1 \<and> tr_denomination transaction = 0
            then check_legacy_block E X S C A block previous_block header
              (metadata\<lparr>om_content_encoding := None\<rparr>) (USIZE - 1 - remaining)
            else Inr header) (\<lambda>header.
     bindE (root_facts E C transaction metadata block header) (\<lambda>facts.
     bindE (decode_fixed E 48 (bi_hash block) STR ''verified block hash'') (\<lambda>block_hash.
     let root = (\<lambda>content. \<lparr>ar_id = i, ar_bytes = content, ar_block_height = height, ar_block_hash = block_hash,
                 ar_stable_anchor = stable_anchor, ar_tags = tr_tags transaction,
                 ar_content_encoding = content_encoding, ar_facts = facts\<rparr>) in
     case vt_inline_data verified of
       Some data \<Rightarrow> Inr (root (InlineRoot data))
     | None \<Rightarrow>
         bindE (root_geometry E A placement block previous_block header transaction i raw_id data_size) (\<lambda>geometry.
         ensure (data_size < USIZE) STR ''parent size exceeds addressable range''
         (Inr (root (StreamedRoot geometry data_size))))))))))"

definition authenticate_root :: "deps \<Rightarrow> texts \<Rightarrow> signers \<Rightarrow> config \<Rightarrow> sources \<Rightarrow> str \<Rightarrow> AuthenticatedRoot res" where
  "authenticate_root E X S C A i =
     bindE (decode_fixed E 32 i STR ''transaction ID'') (\<lambda>raw_id.
     bindE (stored (a_anchors A) (\<lambda>_. a_placement A raw_id)) (\<lambda>placement.
     bindE (transaction_status E A placement i) (\<lambda>status.
     bindE (trusted_entries E A (ts_block_height status)) (\<lambda>(stable_anchor, entries).
     ensure (length entries = (if ts_block_height status = 0 then 1 else 2))
       STR ''trusted block index returned incomplete geometry''
     (bindE (nthE entries 0) (\<lambda>block.
      ensure (bi_hash block = ts_block_indep_hash status) STR ''archival status does not match the trusted block index''
      (root_in_block E X S C A i raw_id placement (ts_block_height status) stable_anchor block
         (if length entries = 2 then Some (entries ! 1) else None))))))))"

end
