(* ===== verification/GatewayProofs.thy ===== *)
theory GatewayProofs
  imports Gateway TransactionProofs TxProofs HeaderProofs
begin

text \<open>
  What an authenticated root rests on, whatever the untrusted sources answered: the trusted entry of
  its block, a header that hashes to it, a signature, and for streamed content chunk proofs under that
  entry for every byte; the sources of a header are asked within their budget, and a discovered peer is
  always heard.
\<close>

section \<open>Sources of a header\<close>

lemma attempt_sources_budget:
  assumes "distinct attempted" "trusted \<notin> set attempted" "length attempted \<le> budget"
    and "discovered \<noteq> [] \<longrightarrow> length (filter (\<lambda>s. s \<notin> set discovered) attempted) \<le> budget - 1"
    and "attempt_sources trusted budget discovered fetch attempted sources = (asked, r)"
  shows "distinct asked \<and> trusted \<notin> set asked \<and> set asked \<subseteq> set attempted \<union> set sources \<and> length asked \<le> budget
    \<and> (discovered \<noteq> [] \<longrightarrow> length (filter (\<lambda>s. s \<notin> set discovered) asked) \<le> budget - 1)
    \<and> (\<forall>b. r = Inr b \<longrightarrow> asked \<noteq> [] \<and> fetch (last asked) = Inr b)"
  using assms
proof (induction sources arbitrary: attempted)
  case (Cons source rest)
  consider (skip) "source = trusted \<or> source \<in> set attempted"
    | (full) "\<not> (source = trusted \<or> source \<in> set attempted)" "length attempted \<ge> budget"
    | (kept) "\<not> (source = trusted \<or> source \<in> set attempted)" "length attempted < budget"
        "length attempted \<ge> budget - (if discovered = [] then 0 else 1) \<and> source \<notin> set discovered"
    | (ask) "\<not> (source = trusted \<or> source \<in> set attempted)" "length attempted < budget"
        "\<not> (length attempted \<ge> budget - (if discovered = [] then 0 else 1) \<and> source \<notin> set discovered)"
    by linarith
  then show ?case
  proof cases
    case skip
    then show ?thesis using Cons.IH [of attempted] Cons.prems by auto
  next
    case full
    then show ?thesis using Cons.prems by auto
  next
    case kept
    then show ?thesis using Cons.IH [of attempted] Cons.prems by auto
  next
    case ask
    let ?a = "attempted @ [source]"
    have a: "distinct ?a" "trusted \<notin> set ?a" "length ?a \<le> budget" using ask Cons.prems by auto
    have f: "discovered \<noteq> [] \<longrightarrow> length (filter (\<lambda>s. s \<notin> set discovered) ?a) \<le> budget - 1"
      using ask Cons.prems(4) le_trans [OF length_filter_le [of "\<lambda>s. s \<notin> set discovered" attempted]]
      by (auto simp: not_le Suc_le_eq intro: le_less_trans [OF length_filter_le])
    show ?thesis
    proof (cases "\<exists>e. fetch source = Inl e \<and> e \<noteq> Panic")
      case True
      then obtain e where "fetch source = Inl e" "e \<noteq> Panic" by blast
      then have "attempt_sources trusted budget discovered fetch ?a rest = (asked, r)"
        using Cons.prems(5) ask by (cases e) auto
      from Cons.IH [OF a f this] show ?thesis by auto
    next
      case False
      then have "asked = ?a" "\<forall>b. r = Inr b \<longrightarrow> fetch source = Inr b"
        using Cons.prems(5) ask by (auto split: sum.splits error.splits)
      then show ?thesis using a f by auto
    qed
  qed
qed auto

lemma attempt_sources_heard:
  assumes "set pre \<inter> set discovered \<subseteq> {d}" "d \<in> set discovered" "d \<noteq> trusted" "d \<notin> set attempted"
    and "length attempted < budget" "set attempted \<inter> set discovered = {}"
    and "fetch d = Inr b" and "\<forall>s. fetch s \<noteq> Inl Panic"
    and "length attempted \<le> budget - 1"
  shows "\<exists>b. snd (attempt_sources trusted budget discovered fetch attempted (pre @ d # post)) = Inr b"
  using assms
proof (induction pre arbitrary: attempted)
  case Nil
  then show ?case by auto
next
  case (Cons source pre)
  show ?case
  proof (cases "source = d")
    case True
    then show ?thesis using Cons.prems by auto
  next
    case s: False
    then have new: "source \<notin> set discovered" using Cons.prems(1) by auto
    have step: "\<exists>b. snd (attempt_sources trusted budget discovered fetch attempted (pre @ d # post)) = Inr b"
      using Cons.IH [of attempted] Cons.prems by auto
    show ?thesis
    proof (cases "source = trusted \<or> source \<in> set attempted \<or> length attempted \<ge> budget - 1")
      case True
      then show ?thesis using step Cons.prems(2,5) s new by auto
    next
      case False
      then have "\<exists>b. snd (attempt_sources trusted budget discovered fetch (attempted @ [source]) (pre @ d # post)) = Inr b"
        using Cons.IH [of "attempted @ [source]"] Cons.prems s new by auto
      then show ?thesis using False Cons.prems(2,5,8) s new by (auto split: sum.splits error.splits)
    qed
  qed
qed

section \<open>No panic\<close>

lemma contextE_calm [simp]: "contextE x m \<noteq> Inl Panic"
  by (simp add: contextE_def split: option.splits)

lemma normalize_decimal_calm [simp]: "normalize_decimal v l \<noteq> Inl Panic"
  by (auto simp: normalize_decimal_def Let_def bindE_eq_Inl)

lemma normalize_field_calm [simp]: "normalize_field fs x \<noteq> Inl Panic"
  by (cases x) (auto simp: normalize_field_def bindE_eq_Inl)

lemma normalize_poa_calm [simp]: "normalize_poa fs \<noteq> Inl Panic"
  unfolding normalize_poa_def Let_def by (auto simp: bindE_eq_Inl split: if_splits)

lemma take_wallets_calm [simp]: "take_wallets E h fs \<noteq> Inl Panic"
  by (auto simp: take_wallets_def decode_wallets_def bindE_eq_Inl)

lemma header_txid_calm [simp]: "header_txid v \<noteq> Inl Panic"
  by (cases v) (auto simp: bindE_eq_Inl)

lemma decode_header_calm [simp]: "decode_header E v \<noteq> Inl Panic"
  by (auto simp: decode_header_def bindE_eq_Inl foldE_no_panic mapE_no_panic)

lemma cpu_work_calm [simp]: "cpu_work r \<noteq> Inl Panic"
  by (auto simp: cpu_work_def split: sum.splits error.splits)

lemma decode_legacy_hashes_length: "decode_legacy_hashes E X body = Inr hs \<Longrightarrow> length hs = FORK_2_0_HEIGHT"
  by (auto simp: decode_legacy_hashes_def bindE_eq_Inr dest!: mapE_length split: if_splits)

lemma verify_legacy_header_calm: "table \<noteq> Inl Panic \<Longrightarrow> verify_legacy_header E X table block entry \<noteq> Inl Panic"
  by (auto simp: verify_legacy_header_def legacy_hash_index_def bindE_eq_Inl contextE_eq_Inr checked_sub_eq
      nthE_eq_Inl FORK_2_0_HEIGHT_def dest!: decode_legacy_hashes_length)

lemma fetch_and_authenticate_block_calm:
  assumes "response \<noteq> Inl Panic" "table \<noteq> Inl Panic"
  shows "fetch_and_authenticate_block E X table response entry height t \<noteq> Inl Panic"
  using assms verify_legacy_header_calm [OF assms(2)]
  by (auto simp: fetch_and_authenticate_block_def bindE_eq_Inl)

text \<open>Answers that arrived or failed: no source makes the gateway panic by itself.\<close>

definition calm :: "sources \<Rightarrow> bool" where
  "calm A \<longleftrightarrow> a_legacy_table A \<noteq> Inl Panic \<and> (\<forall>s h. a_header A s h \<noteq> Inl Panic)"

section \<open>Headers\<close>

text \<open>A header the trusted entry vouches for.\<close>

definition header_trusted ::
  "deps \<Rightarrow> texts \<Rightarrow> BlockIndexEntry \<Rightarrow> nat \<Rightarrow> str option \<Rightarrow> BlockHeader \<Rightarrow> bool" where
  "header_trusted E X entry height t b \<longleftrightarrow> bh_height b = height \<and> (case t of None \<Rightarrow> True | Some i \<Rightarrow> i \<in> set (bh_txs b))
     \<and> (if height < 422250
        then \<exists>b0 body hashes. decode_legacy_hashes E X body = Inr hashes
               \<and> verify_legacy_header_hash E b0 entry (hashes ! (422249 - height)) = Inr b
        else verify_block_header E (x_float X) b entry height t = Inr ())"

lemma legacy_height: "verify_legacy_header_hash E b0 entry h2 = Inr b \<Longrightarrow> bh_height b = bh_height b0"
  unfolding verify_legacy_header_hash_def Let_def bindE_eq_Inr ensure_eq_Inr by auto

lemma fetched_header_trusted:
  assumes "fetch_and_authenticate_block E X table response entry height t = Inr b"
  shows "header_trusted E X entry height t b"
proof -
  obtain b0 where b0: "bh_height b0 = height" "(if height < 422250 then
        bindE (verify_legacy_header E X table b0 entry) (\<lambda>block.
        ensure (case t of None \<Rightarrow> True | Some t \<Rightarrow> t \<in> set (bh_txs block))
          STR ''transaction ID is absent from authenticated block'' (Inr block))
      else bindE (cpu_work (verify_block_header E (x_float X) b0 entry height t)) (\<lambda>_. Inr b0)) = Inr b"
    using assms unfolding fetch_and_authenticate_block_def bindE_eq_Inr ensure_eq_Inr by blast
  show ?thesis
  proof (cases "height < 422250")
    case True
    then have l: "verify_legacy_header E X table b0 entry = Inr b" "case t of None \<Rightarrow> True | Some i \<Rightarrow> i \<in> set (bh_txs b)"
      using b0(2) by (auto simp: bindE_eq_Inr split: if_splits)
    then obtain body hashes where d: "decode_legacy_hashes E X body = Inr hashes"
      "verify_legacy_header_hash E b0 entry (hashes ! (422249 - height)) = Inr b"
      using b0(1) by (auto simp: verify_legacy_header_def legacy_hash_index_def FORK_2_0_HEIGHT_def bindE_eq_Inr
          contextE_eq_Inr checked_sub_eq nthE_eq_Inr)
    then show ?thesis using True l(2) b0(1) legacy_height [OF d(2)] unfolding header_trusted_def by auto
  next
    case False
    then have b: "b0 = b" and v: "verify_block_header E (x_float X) b entry height t = Inr ()"
      using b0(2) by (auto simp: bindE_eq_Inr)
    have "case t of None \<Rightarrow> True | Some i \<Rightarrow> i \<in> set (bh_txs b)"
      using v unfolding verify_block_header_def bindE_eq_Inr ensure_eq_Inr by (cases t) (auto split: if_splits)
    then show ?thesis using False b0(1) b v by (simp add: header_trusted_def)
  qed
qed

lemma authenticate_block_source:
  assumes "authenticate_block E X C A entry height t = Inr b"
  shows "\<exists>source. fetch_and_authenticate_block E X (a_legacy_table A) (a_header A source (bi_hash entry)) entry height t = Inr b"
proof -
  define fetch where "fetch source = fetch_and_authenticate_block E X (a_legacy_table A) (a_header A source (bi_hash entry)) entry height t" for source
  obtain asked r where a: "attempt_sources (cfg_trusted_node_url C) (cfg_max_peer_attempts C) (a_discovered A) fetch []
      (cfg_archive_url C # cfg_chunk_sources C @ a_discovered A) = (asked, r)" by fastforce
  have "\<forall>b. r = Inr b \<longrightarrow> fetch (last asked) = Inr b"
    using attempt_sources_budget [OF _ _ _ _ a] by simp
  then have "\<exists>source. fetch source = Inr b"
    using assms a by (auto simp: authenticate_block_def Let_def fetch_def [abs_def] split: sum.splits error.splits)
  then show ?thesis by (simp add: fetch_def)
qed

lemma authenticate_block_trusted: "authenticate_block E X C A entry height t = Inr b \<Longrightarrow> header_trusted E X entry height t b"
  using authenticate_block_source fetched_header_trusted by blast

text \<open>C29. Beside the trusted node, at most the configured number of sources is asked for a header, each once.  And the first discovered peer, when it is not the trusted node itself, is always heard, as long as the number is positive and no other discovered peer is one of the configured sources: if its answer verifies, a header is authenticated, whatever the sources before it answered, given that no answer is a panic.\<close>

theorem bounded_sources_heard:
  assumes "fetch = (\<lambda>source. fetch_and_authenticate_block E X (a_legacy_table A) (a_header A source (bi_hash entry)) entry height t)"
    and "asked = fst (attempt_sources (cfg_trusted_node_url C) (cfg_max_peer_attempts C) (a_discovered A) fetch []
             (cfg_archive_url C # cfg_chunk_sources C @ a_discovered A))"
  shows "distinct asked \<and> length asked \<le> cfg_max_peer_attempts C \<and> cfg_trusted_node_url C \<notin> set asked
    \<and> (\<forall>d peers b. calm A \<and> 0 < cfg_max_peer_attempts C \<and> a_discovered A = d # peers \<and> d \<noteq> cfg_trusted_node_url C
        \<and> set (cfg_archive_url C # cfg_chunk_sources C) \<inter> set peers \<subseteq> {d} \<and> fetch d = Inr b \<longrightarrow>
        (\<exists>b'. authenticate_block E X C A entry height t = Inr b' \<and> header_trusted E X entry height t b'))"
proof -
  let ?run = "attempt_sources (cfg_trusted_node_url C) (cfg_max_peer_attempts C) (a_discovered A) fetch []
             (cfg_archive_url C # cfg_chunk_sources C @ a_discovered A)"
  have "distinct asked \<and> length asked \<le> cfg_max_peer_attempts C \<and> cfg_trusted_node_url C \<notin> set asked"
    using attempt_sources_budget [of "[]" "cfg_trusted_node_url C" "cfg_max_peer_attempts C" "a_discovered A" fetch
        "cfg_archive_url C # cfg_chunk_sources C @ a_discovered A" "fst ?run" "snd ?run"] assms(2) by simp
  moreover have "\<exists>b'. authenticate_block E X C A entry height t = Inr b' \<and> header_trusted E X entry height t b'"
    if h: "calm A" "0 < cfg_max_peer_attempts C" "a_discovered A = d # peers" "d \<noteq> cfg_trusted_node_url C"
      "set (cfg_archive_url C # cfg_chunk_sources C) \<inter> set peers \<subseteq> {d}" "fetch d = Inr b" for d peers b
  proof -
    have calm: "\<forall>s. fetch s \<noteq> Inl Panic"
      using h(1) fetch_and_authenticate_block_calm unfolding calm_def assms(1) by blast
    have "set (cfg_archive_url C # cfg_chunk_sources C) \<inter> set (a_discovered A) \<subseteq> {d}" using h(3,5) by auto
    then have "\<exists>b. snd ?run = Inr b"
      using attempt_sources_heard [of "cfg_archive_url C # cfg_chunk_sources C" "a_discovered A" d "cfg_trusted_node_url C" "[]"
          "cfg_max_peer_attempts C" fetch b peers] h(2,3,4,6) calm by simp
    then have "\<exists>b'. authenticate_block E X C A entry height t = Inr b'"
      using calm by (auto simp: authenticate_block_def Let_def assms(1) simp del: attempt_sources.simps split: sum.splits error.splits)
    then show ?thesis using authenticate_block_trusted by blast
  qed
  ultimately show ?thesis by blast
qed


section \<open>Transactions\<close>

lemma fetch_from_verified:
  assumes "fetch_from E X S C i h limit remaining trusted answer = (Inr (tx, v), left)"
  shows "\<exists>tx0. tx = tx0\<lparr>tr_data := []\<rparr> \<and> verify_transaction E S tx0 i h = Inr v \<and> (trusted \<or> tr_owner tx0 \<noteq> [])
    \<and> (\<forall>data. vt_inline_data v = Some data \<longrightarrow> length data \<le> cfg_max_data_size C)"
  using assms by (auto simp: fetch_from_def bindE_eq_Inr split: http_answer.splits prod.splits if_splits option.splits)

lemma fetch_loop_verified:
  "fetch_loop E X S C A i h limit remaining srcs = (Inr (tx, v), left) \<Longrightarrow>
     \<exists>tx0. tx = tx0\<lparr>tr_data := []\<rparr> \<and> verify_transaction E S tx0 i h = Inr v
       \<and> (\<forall>data. vt_inline_data v = Some data \<longrightarrow> length data \<le> cfg_max_data_size C)"
proof (induction srcs arbitrary: remaining)
  case (Cons source rest)
  obtain url trusted where s: "source = (url, trusted)" by (cases source)
  obtain r left' where f: "fetch_from E X S C i h limit remaining trusted (a_tx A url i) = (r, left')" by fastforce
  show ?case
  proof (cases "\<not> trusted \<and> url = cfg_trusted_node_url C")
    case True
    then show ?thesis using Cons s by auto
  next
    case False
    then consider "r = Inr (tx, v)" | "fetch_loop E X S C A i h limit left' rest = (Inr (tx, v), left)"
      using Cons.prems s f by (cases r) (auto split: error.splits)
    then show ?thesis
    proof cases
      case 1
      then show ?thesis using fetch_from_verified f by blast
    next
      case 2
      then show ?thesis by (rule Cons.IH)
    qed
  qed
qed simp

lemma fetch_transaction_verified:
  assumes "fetch_transaction E X S C A i h remaining = (Inr (tx, v), left)"
  shows "\<exists>tx0. tx = tx0\<lparr>tr_data := []\<rparr> \<and> verify_transaction E S tx0 i h = Inr v
       \<and> (\<forall>data. vt_inline_data v = Some data \<longrightarrow> length data \<le> cfg_max_data_size C)"
  using assms fetch_loop_verified unfolding fetch_transaction_def by (cases "bindE (decode_fixed E 32 i STR ''transaction ID'') (\<lambda>_. response_limit C)") (auto simp del: fetch_loop.simps)

lemma fetch_objects_verified:
  "fetch_objects E X S C A h known remaining objects pending = (Inr objs, left) \<Longrightarrow>
     \<exists>fetched. objs = objects @ fetched
       \<and> list_all2 (\<lambda>i ob. \<exists>tx v. verify_transaction E S tx i h = Inr v \<and> ob = vt_metadata v)
           (filter (\<lambda>i. i \<notin> set known) pending) fetched"
proof (induction pending arbitrary: remaining objects)
  case (Cons i pending)
  show ?case
  proof (cases "i \<in> set known")
    case True
    then show ?thesis using Cons by auto
  next
    case False
    obtain r left' where f: "fetch_transaction E X S C A i h remaining = (r, left')" by fastforce
    then obtain tx v where r: "r = Inr (tx, v)"
      "fetch_objects E X S C A h known left' (objects @ [vt_metadata v]) pending = (Inr objs, left)"
      using Cons.prems False by (cases r) auto
    from Cons.IH [OF r(2)] obtain fetched where "objs = (objects @ [vt_metadata v]) @ fetched"
      "list_all2 (\<lambda>i ob. \<exists>tx v. verify_transaction E S tx i h = Inr v \<and> ob = vt_metadata v)
           (filter (\<lambda>i. i \<notin> set known) pending) fetched" by blast
    moreover have "\<exists>tx0. verify_transaction E S tx0 i h = Inr v"
      using fetch_transaction_verified f r(1) by blast
    ultimately show ?thesis using False by (intro exI [of _ "vt_metadata v # fetched"]) auto
  qed
qed simp

lemma verify_block_transactions_elim:
  assumes "verify_block_transactions E X S C A block objects n adm = (Inr (block', objs), adm')"
  obtains fetched where "block' = block" "verify_block_data_root E (x_record X) block (objects @ fetched) = Inr objs"
    "list_all2 (\<lambda>i ob. \<exists>tx v. verify_transaction E S tx i (bh_height block) = Inr v \<and> ob = vt_metadata v)
       (filter (\<lambda>i. i \<notin> (\<lambda>ob. x_b64_encode E (om_id ob)) ` set objects) (bh_txs block)) fetched"
proof -
  let ?known = "map (\<lambda>ob. x_b64_encode E (om_id ob)) objects"
  obtain own where own: "checked_sub MAX_BLOCK_TRANSACTION_BYTES n = Some own"
    and ok: "length (bh_txs block) \<le> MAX_BLOCK_TRANSACTIONS" "distinct ?known" "set ?known \<subseteq> set (bh_txs block)"
    using assms by (auto simp: verify_block_transactions_def Let_def contextE_def split: if_splits option.splits)
  obtain r left where f: "fetch_objects E X S C A (bh_height block) ?known
      (case adm of None \<Rightarrow> own | Some shared \<Rightarrow> shared) objects (bh_txs block) = (r, left)" by fastforce
  then obtain all where a: "r = Inr all" "verify_block_data_root E (x_record X) block all = Inr objs" "block' = block"
    using assms own ok by (auto simp: verify_block_transactions_def Let_def bindE_eq_Inr)
  from fetch_objects_verified [OF f [unfolded a(1)]] show thesis using that a by auto
qed

text \<open>C30. A block whose transactions are verified together is complete, the genesis block included: there is exactly one object for every transaction id of the authenticated header, the objects hash to the block's root and fill its size (the genesis records hash to the official snapshot), and they are those that were given and one for each other id, fetched and verified under that id.\<close>

theorem block_transactions_complete:
  assumes "verify_block_transactions E X S C A block objects n adm = (Inr (block', objs), adm')"
  shows "block' = block \<and> block_contents E (x_record X) block objs
    \<and> (\<exists>fetched. mset objs = mset objects + mset fetched
      \<and> list_all2 (\<lambda>i ob. \<exists>tx v. verify_transaction E S tx i (bh_height block) = Inr v \<and> ob = vt_metadata v)
         (filter (\<lambda>i. i \<notin> (\<lambda>ob. x_b64_encode E (om_id ob)) ` set objects) (bh_txs block)) fetched)"
proof -
  obtain fetched where f: "block' = block" "verify_block_data_root E (x_record X) block (objects @ fetched) = Inr objs"
    "list_all2 (\<lambda>i ob. \<exists>tx v. verify_transaction E S tx i (bh_height block) = Inr v \<and> ob = vt_metadata v)
       (filter (\<lambda>i. i \<notin> (\<lambda>ob. x_b64_encode E (om_id ob)) ` set objects) (bh_txs block)) fetched"
    using verify_block_transactions_elim [OF assms] by blast
  from verified_contents [OF f(2)] f(1,3) show ?thesis by (intro conjI exI [of _ fetched]) simp_all
qed

section \<open>The root of a retrieval\<close>

text \<open>The interval of a streamed root: inside its block, of the signed size, under the signed data root.\<close>

definition geometry_trusted ::
  "deps \<Rightarrow> BlockIndexEntry \<Rightarrow> BlockIndexEntry option \<Rightarrow> Transaction \<Rightarrow> nat \<Rightarrow> Geometry \<Rightarrow> bool" where
  "geometry_trusted E entry previous tx n g \<longleftrightarrow>
     decode_fixed E 32 (bi_tx_root entry) STR ''block tx_root'' = Inr (g_tx_root g)
     \<and> decode_fixed E 32 (tr_data_root tx) STR ''transaction data root'' = Inr (g_data_root g)
     \<and> parse_u128 (bi_weave_size entry) STR ''block weave size'' = Inr (g_block_weave_size g)
     \<and> previous_weave previous = Inr (g_previous_weave_size g)
     \<and> g_data_size g = n \<and> 0 < n \<and> g_first_offset g + (n - 1) = g_end_offset g
     \<and> g_previous_weave_size g < g_first_offset g \<and> g_end_offset g \<le> g_block_weave_size g"

lemma root_geometry_trusted:
  assumes "root_geometry E A placement entry previous header tx i raw_id n = Inr g"
  shows "geometry_trusted E entry previous tx n g"
proof -
  obtain bws pws e last first r d where
    "parse_u128 (bi_weave_size entry) STR ''block weave size'' = Inr bws" "previous_weave previous = Inr pws"
    "last + 1 = n" "first + last = e" "pws < first" "e \<le> bws"
    "decode_fixed E 32 (bi_tx_root entry) STR ''block tx_root'' = Inr r"
    "decode_fixed E 32 (tr_data_root tx) STR ''transaction data root'' = Inr d"
    "g = \<lparr>g_tx_root = r, g_data_root = d, g_block_weave_size = bws, g_previous_weave_size = pws, g_first_offset = first,
          g_end_offset = e, g_data_size = n\<rparr>"
    using assms unfolding root_geometry_def bindE_eq_Inr ensure_eq_Inr contextE_eq_Inr checked_sub_eq subE_eq_Inr
    by (metis (no_types, lifting) Inr_inject le_add_diff_inverse2)
  then show ?thesis by (auto simp: geometry_trusted_def)
qed

text \<open>What a root rests on: the entry, its predecessor, the header, the transaction and its verification.\<close>

definition root_evidence ::
  "deps \<Rightarrow> texts \<Rightarrow> signers \<Rightarrow> config \<Rightarrow> str \<Rightarrow> AuthenticatedRoot \<Rightarrow> BlockIndexEntry \<Rightarrow> BlockIndexEntry option
     \<Rightarrow> BlockHeader \<Rightarrow> Transaction \<Rightarrow> VerifiedTransaction \<Rightarrow> bool" where
  "root_evidence E X S C i root entry previous header tx v \<longleftrightarrow>
     decode_fixed E 48 (bi_hash entry) STR ''verified block hash'' = Inr (ar_block_hash root)
     \<and> header_trusted E X entry (ar_block_height root) (Some i) header
     \<and> verify_transaction E S tx i (ar_block_height root) = Inr v \<and> ar_tags root = tr_tags tx
     \<and> (tr_format tx = 1 \<and> tr_denomination tx = 0 \<longrightarrow>
         (\<exists>objects objs. verify_block_data_root E (x_record X) header objects = Inr objs
            \<and> block_contents E (x_record X) header objs \<and> (vt_metadata v)\<lparr>om_content_encoding := None\<rparr> \<in> set objs))
     \<and> (case ar_bytes root of
          InlineRoot data \<Rightarrow> vt_inline_data v = Some data \<and> length data \<le> cfg_max_data_size C
        | StreamedRoot g n \<Rightarrow> vt_inline_data v = None \<and> n = om_data_size (vt_metadata v) \<and> n < USIZE
            \<and> geometry_trusted E entry previous tx n g)"

lemma root_in_block_evidence:
  assumes "root_in_block E X S C A i raw_id placement h anchored entry previous = Inr root"
  shows "ar_block_height root = h \<and> ar_stable_anchor root = anchored
    \<and> (\<exists>header tx v. root_evidence E X S C i root entry previous header tx v)"
proof -
  obtain fetched remaining where f: "fetch_transaction E X S C A i h (USIZE - 1) = (fetched, remaining)" by fastforce
  obtain header tx v ce header' facts hash where
    a: "authenticate_block E X C A entry h (Some i) = Inr header"
    and tv: "fetched = Inr (tx, v)"
    and leg: "(if tr_format tx = 1 \<and> tr_denomination tx = 0
              then check_legacy_block E X S C A entry previous header ((vt_metadata v)\<lparr>om_content_encoding := None\<rparr>) (USIZE - 1 - remaining)
              else Inr header) = Inr header'"
    and hash: "decode_fixed E 48 (bi_hash entry) STR ''verified block hash'' = Inr hash"
    and root: "(let root = (\<lambda>content. \<lparr>ar_id = i, ar_bytes = content, ar_block_height = h, ar_block_hash = hash,
                 ar_stable_anchor = anchored, ar_tags = tr_tags tx, ar_content_encoding = ce, ar_facts = facts\<rparr>) in
       case vt_inline_data v of
         Some data \<Rightarrow> Inr (root (InlineRoot data))
       | None \<Rightarrow>
           bindE (root_geometry E A placement entry previous header' tx i raw_id (om_data_size (vt_metadata v))) (\<lambda>geometry.
           ensure (om_data_size (vt_metadata v) < USIZE) STR ''parent size exceeds addressable range''
           (Inr (root (StreamedRoot geometry (om_data_size (vt_metadata v))))))) = Inr root"
    using assms unfolding root_in_block_def f prod.case Let_def [of "vt_metadata v" for v] Let_def [of "om_data_size m" for m]
      bindE_eq_Inr [of "authenticate_block E X C A entry h (Some i)"] bindE_eq_Inr [of fetched]
      bindE_eq_Inr [of "response_content_encoding H m" for H m] bindE_eq_Inr [of "root_facts E C t m b hd" for t m b hd]
      bindE_eq_Inr [of "decode_fixed E 48 (bi_hash entry) l" for l] bindE_eq_Inr [of "if c then l else Inr hd" for c l hd]
      split_paired_Ex
    by blast
  obtain tx0 where tx: "tx = tx0\<lparr>tr_data := []\<rparr>" and ver: "verify_transaction E S tx0 i h = Inr v"
    and small: "\<forall>data. vt_inline_data v = Some data \<longrightarrow> length data \<le> cfg_max_data_size C"
    using fetch_transaction_verified f tv by blast
  note trusted = authenticate_block_trusted [OF a]
  have legacy: "\<exists>objects objs. verify_block_data_root E (x_record X) header objects = Inr objs
      \<and> block_contents E (x_record X) header objs \<and> (vt_metadata v)\<lparr>om_content_encoding := None\<rparr> \<in> set objs"
    if "tr_format tx0 = 1 \<and> tr_denomination tx0 = 0"
  proof -
    have c: "check_legacy_block E X S C A entry previous header ((vt_metadata v)\<lparr>om_content_encoding := None\<rparr>)
        (USIZE - 1 - remaining) = Inr header'" using leg that(1) tx by simp
    obtain objs where "fst (verify_block_transactions E X S C A header [(vt_metadata v)\<lparr>om_content_encoding := None\<rparr>]
        (USIZE - 1 - remaining) None) = Inr (header', objs)"
      using c unfolding check_legacy_block_def bindE_eq_Inr ensure_eq_Inr by auto
    then obtain adm' where b: "verify_block_transactions E X S C A header [(vt_metadata v)\<lparr>om_content_encoding := None\<rparr>]
        (USIZE - 1 - remaining) None = (Inr (header', objs), adm')" by (metis prod.collapse)
    obtain fetched where d: "verify_block_data_root E (x_record X) header ([(vt_metadata v)\<lparr>om_content_encoding := None\<rparr>] @ fetched) = Inr objs"
      using verify_block_transactions_elim [OF b] by blast
    note contents = verified_contents [OF d]
    then have "set objs = set ([(vt_metadata v)\<lparr>om_content_encoding := None\<rparr>] @ fetched)" by (intro mset_eq_setD) simp
    then show ?thesis using d contents
      by (intro exI [of _ "[(vt_metadata v)\<lparr>om_content_encoding := None\<rparr>] @ fetched"] exI [of _ objs]) simp
  qed
  have g: "geometry_trusted E entry previous tx n g \<Longrightarrow> geometry_trusted E entry previous tx0 n g" for n g
    by (simp add: tx geometry_trusted_def)
  have bytes: "ar_block_height root = h \<and> ar_block_hash root = hash \<and> ar_stable_anchor root = anchored
      \<and> ar_tags root = tr_tags tx0 \<and> (case ar_bytes root of
          InlineRoot data \<Rightarrow> vt_inline_data v = Some data \<and> length data \<le> cfg_max_data_size C
        | StreamedRoot g n \<Rightarrow> vt_inline_data v = None \<and> n = om_data_size (vt_metadata v) \<and> n < USIZE
            \<and> geometry_trusted E entry previous tx0 n g)"
  proof (cases "vt_inline_data v")
    case None
    then show ?thesis using root g [OF root_geometry_trusted] by (auto simp: Let_def bindE_eq_Inr tx split: if_splits)
  next
    case (Some data)
    then show ?thesis using root small by (auto simp: tx)
  qed
  then show ?thesis
    using trusted ver legacy hash unfolding root_evidence_def
    by (intro conjI exI [of _ header] exI [of _ tx0] exI [of _ v]) simp_all
qed

lemma authenticate_root_evidence:
  assumes "authenticate_root E X S C A i = Inr root"
  shows "\<exists>entry previous header tx v. trusted_entries E A (ar_block_height root)
      = Inr (ar_stable_anchor root, entry # (case previous of None \<Rightarrow> [] | Some p \<Rightarrow> [p]))
    \<and> (previous = None \<longleftrightarrow> ar_block_height root = 0)
    \<and> root_evidence E X S C i root entry previous header tx v"
proof -
  obtain raw_id placement h anchored entries where
    e: "trusted_entries E A h = Inr (anchored, entries)" "length entries = (if h = 0 then 1 else 2)"
    and r: "root_in_block E X S C A i raw_id placement h anchored (entries ! 0)
         (if length entries = 2 then Some (entries ! 1) else None) = Inr root"
    using assms unfolding authenticate_root_def bindE_eq_Inr ensure_eq_Inr nthE_eq_Inr split_paired_Ex prod.case by blast
  define previous where "previous = (if length entries = 2 then Some (entries ! 1) else None)"
  have "entries = entries ! 0 # (case previous of None \<Rightarrow> [] | Some p \<Rightarrow> [p])" "previous = None \<longleftrightarrow> h = 0"
    using e(2) by (auto simp: previous_def length_Suc_conv numeral_2_eq_2 split: if_splits)
  then show ?thesis
    using e(1) root_in_block_evidence [OF r [folded previous_def]] by (intro exI [of _ "entries ! 0"] exI [of _ previous]) auto
qed


text \<open>C27. An authenticated root rests on trusted data, whatever the untrusted sources answered: the trusted entry of its block, a header that hashes to that entry and lists the id, and a transaction that verifies under the id; a legacy transaction, at whatever height, is one of a block that is verified as a whole (one object for every transaction of the header, hashing to its root, or to the snapshot of the genesis records), inline data is the signed data, and a streamed content has the signed data root and size and lies inside the block.\<close>

theorem authenticated_root_sound:
  assumes "authenticate_root E X S C A i = Inr root"
  shows "\<exists>entry previous header tx v. trusted_entries E A (ar_block_height root)
      = Inr (ar_stable_anchor root, entry # (case previous of None \<Rightarrow> [] | Some p \<Rightarrow> [p]))
    \<and> (previous = None \<longleftrightarrow> ar_block_height root = 0)
    \<and> root_evidence E X S C i root entry previous header tx v"
  using assms by (rule authenticate_root_evidence)

text \<open>C28. Every byte read from an authenticated streamed root, at any time and from whatever peers, belongs to a chunk that was proven from the trusted root of the block of the transaction down to the data root of a transaction verified under the requested id.\<close>

theorem authenticated_bytes_proven:
  assumes "authenticate_root E X S C A i = Inr root" and "ar_bytes root = StreamedRoot g n"
    and "((N, offset, m), Inr b) \<in> set (zip reads (stream_reads E (source_new g) reads))" and "q < m"
  shows "length b = m \<and> (\<exists>entry previous header tx v ck off job p.
      trusted_entries E A (ar_block_height root) = Inr (ar_stable_anchor root, entry # (case previous of None \<Rightarrow> [] | Some p \<Rightarrow> [p]))
    \<and> root_evidence E X S C i root entry previous header tx v
    \<and> decode_fixed E 32 (bi_tx_root entry) STR ''block tx_root'' = Inr (g_tx_root g)
    \<and> verify_chunk_proof E ck off (block_geometry g) job = Inr p
    \<and> decode_fixed E 32 (tr_data_root tx) STR ''transaction data root'' = Inr (tp_data_root (pc_transaction p))
    \<and> tp_size (pc_transaction p) = om_data_size (vt_metadata v)
    \<and> dp_start (pc_data p) \<le> offset + q \<and> offset + q < dp_start (pc_data p) + length (pc_bytes p)
    \<and> b ! q = pc_bytes p ! (offset + q - dp_start (pc_data p)))"
proof -
  obtain entry previous header tx v where
    t: "trusted_entries E A (ar_block_height root) = Inr (ar_stable_anchor root, entry # (case previous of None \<Rightarrow> [] | Some p \<Rightarrow> [p]))"
    and ev: "root_evidence E X S C i root entry previous header tx v"
    using authenticate_root_evidence [OF assms(1)] by blast
  have g: "geometry_trusted E entry previous tx n g" "n = om_data_size (vt_metadata v)"
    using ev assms(2) by (auto simp: root_evidence_def)
  have r: "length b = m \<and> read_from E g (fst ` set reads) offset b"
    using stream_reads_pieces [OF source_ok_new order_refl assms(3)] .
  then obtain start bs where p: "piece_of E g (fst ` set reads) start bs" "start \<le> offset + q" "offset + q < start + length bs"
    "b ! q = bs ! (offset + q - start)" using assms(4) unfolding read_from_def by metis
  then obtain N' pos pc where a: "accepted E N' (block_geometry g) (g_first_offset g + pos) pc"
    "check_chunk_geometry pc pos g = Inr ()" "start = dp_start (pc_data pc)" "bs = pc_bytes pc"
    unfolding piece_of_def by blast
  obtain ck job where "verify_chunk_proof E ck (g_first_offset g + pos) (block_geometry g) job = Inr pc"
    using accepted_paths [OF a(1)] by blast
  moreover have "tp_data_root (pc_transaction pc) = g_data_root g" "tp_size (pc_transaction pc) = n"
    using a(2) g(1) by (auto simp: check_chunk_geometry_def geometry_trusted_def split: if_splits)
  ultimately show ?thesis
    using t ev g r p a unfolding geometry_trusted_def
    by (intro conjI exI [of _ entry] exI [of _ previous] exI [of _ header] exI [of _ tx] exI [of _ v] exI [of _ ck]
        exI [of _ "g_first_offset g + pos"] exI [of _ job] exI [of _ pc]) simp_all
qed

section \<open>A transaction of one chunk\<close>


definition gw_txid :: str where "gw_txid = hex (sha256 sample [s_sig])"
definition gw_poa :: json where
  "gw_poa = JObject [(''option'', JString ''1''), (''tx_path'', JString []), (''data_path'', JString []), (''chunk'', JString [])]"

definition gw_fields :: "str \<Rightarrow> (str \<times> json) list" where
  "gw_fields i =
    [(''indep_hash'', JString i), (''height'', JNumber ''500000''), (''previous_block'', JString []), (''timestamp'', JNumber ''7''),
     (''nonce'', JString []), (''last_retarget'', JNumber ''0''), (''diff'', JString ''0''), (''cumulative_diff'', JString ''0''),
     (''reward_pool'', JString ''0''), (''wallet_list'', JString []), (''hash_list_merkle'', JString []), (''hash'', JString []),
     (''block_size'', JString ''5''), (''weave_size'', JString ''1005''), (''tx_root'', JString (hex s_tx_root)),
     (''reward_addr'', JString ''unclaimed''), (''tags'', JArray []), (''txs'', JArray [JString gw_txid]), (''poa'', gw_poa),
     (''packing_2_5_threshold'', JString []), (''strict_data_split_threshold'', JString []),
     (''usd_to_ar_rate'', JArray [JString [], JString []]), (''scheduled_usd_to_ar_rate'', JArray [JString [], JString []])]"

lemma gw_decimal: "normalize_decimal (JNumber ''0'') l = Inr (JString ''0'')" "normalize_decimal (JString ''0'') l = Inr (JString ''0'')"
  "normalize_decimal (JString ''5'') l = Inr (JString ''5'')" "normalize_decimal (JString ''1005'') l = Inr (JString ''1005'')"
  "normalize_decimal (JString ''1'') l = Inr (JString ''1'')"
  by (simp_all add: normalize_decimal_def is_ascii_digit_def)

lemma gw_numbers: "number_field U64 (JNumber ''500000'') = Some 500000" "number_field U64 (JNumber ''7'') = Some 7"
  "number_field U64 (JNumber ''0'') = Some 0"
  by (simp_all add: number_field_def parse_unsigned_def is_ascii_digit_def digits_value_def digit_value_def U64_def)

lemma gw_json_insert: "map_of fs k = Some v \<Longrightarrow> json_insert k v fs = fs"
  by (induction fs) (auto split: if_splits)

lemma gw_get:
  "map_of (gw_fields i) ''height'' = Some (JNumber ''500000'')" "map_of (gw_fields i) ''diff'' = Some (JString ''0'')"
  "map_of (gw_fields i) ''cumulative_diff'' = Some (JString ''0'')" "map_of (gw_fields i) ''reward_pool'' = Some (JString ''0'')"
  "map_of (gw_fields i) ''block_size'' = Some (JString ''5'')" "map_of (gw_fields i) ''weave_size'' = Some (JString ''1005'')"
  "map_of (gw_fields i) ''poa'' = Some gw_poa" "map_of (gw_fields i) ''wallet_list'' = Some (JString [])"
  "map_of (gw_fields i) ''txs'' = Some (JArray [JString gw_txid])"
  "map_of (gw_fields i) ''packing_2_5_threshold'' = Some (JString [])" "map_of (gw_fields i) ''strict_data_split_threshold'' = Some (JString [])"
  "map_of (gw_fields i) ''usd_to_ar_rate'' = Some (JArray [JString [], JString []])"
  "map_of (gw_fields i) ''scheduled_usd_to_ar_rate'' = Some (JArray [JString [], JString []])"
  by (simp_all add: gw_fields_def)

lemma gw_header_fields: "\<exists>b. header_of_fields (map_of (gw_fields i)) = Some b \<and> bh_indep_hash b = i \<and> bh_height b = 500000
   \<and> bh_txs b = [gw_txid] \<and> bh_weave_size b = ''1005'' \<and> bh_tx_root b = hex s_tx_root \<and> bh_previous_block b = [] \<and> bh_nonce b = []
   \<and> bh_diff b = ''0'' \<and> bh_cumulative_diff b = ''0'' \<and> bh_reward_pool b = ''0'' \<and> bh_block_size b = ''5''
   \<and> bh_wallet_list b = [] \<and> bh_hash_list_merkle b = [] \<and> bh_hash b = [] \<and> bh_reward_addr b = ''unclaimed''
   \<and> bh_timestamp b = 7 \<and> bh_last_retarget b = 0
   \<and> bh_poa b = \<lparr>poa_option = ''1'', poa_tx_path = [], poa_data_path = [], poa_chunk = []\<rparr>"
  unfolding header_of_fields_def
  by (simp add: required_def defaulted_def gw_fields_def gw_numbers text_list_def text_pair_def poa_of_json_def struct_fields_def gw_poa_def)

definition gw_header :: "str \<Rightarrow> BlockHeader" where
  "gw_header i = (the (header_of_fields (map_of (gw_fields i))))\<lparr>bh_legacy_wallets := None\<rparr>"

lemma gw_header_sel [simp]:
  "bh_indep_hash (gw_header i) = i" "bh_height (gw_header i) = 500000" "bh_txs (gw_header i) = [gw_txid]"
  "bh_weave_size (gw_header i) = ''1005''" "bh_tx_root (gw_header i) = hex s_tx_root" "bh_previous_block (gw_header i) = []"
  "bh_nonce (gw_header i) = []" "bh_diff (gw_header i) = ''0''" "bh_cumulative_diff (gw_header i) = ''0''"
  "bh_reward_pool (gw_header i) = ''0''" "bh_block_size (gw_header i) = ''5''" "bh_wallet_list (gw_header i) = []"
  "bh_hash_list_merkle (gw_header i) = []" "bh_hash (gw_header i) = []" "bh_reward_addr (gw_header i) = ''unclaimed''"
  "bh_timestamp (gw_header i) = 7" "bh_last_retarget (gw_header i) = 0"
  "bh_poa (gw_header i) = \<lparr>poa_option = ''1'', poa_tx_path = [], poa_data_path = [], poa_chunk = []\<rparr>"
  using gw_header_fields [of i] by (auto simp: gw_header_def)

lemma gw_decode: "decode_header sample (JObject (gw_fields i)) = Inr (gw_header i)"
proof -
  have c: "complete_fields 500000 (gw_fields i) = gw_fields i"
    by (simp add: complete_fields_def or_insert_def gw_get FORK_1_6_HEIGHT_def FORK_2_0_HEIGHT_def)
  have n: "foldE normalize_field (gw_fields i)
         [(''diff'', STR ''diff''), (''cumulative_diff'', STR ''cumulative_diff''), (''reward_pool'', STR ''reward_pool''),
          (''block_size'', STR ''block_size''), (''weave_size'', STR ''weave_size'')] = Inr (gw_fields i)"
    by (simp add: normalize_field_def gw_get gw_decimal gw_json_insert)
  have p: "normalize_poa (gw_fields i) = Inr (gw_fields i)"
    by (simp add: normalize_poa_def gw_get gw_poa_def gw_decimal gw_json_insert)
  have w: "take_wallets sample 500000 (gw_fields i) = Inr (None, gw_fields i)" by (simp add: take_wallets_def gw_get)
  obtain b where b: "header_of_fields (map_of (gw_fields i)) = Some b" using gw_header_fields [of i] by blast
  show ?thesis
    using c n p w b
    by (simp add: decode_header_def gw_get gw_numbers FORK_2_5_HEIGHT_def gw_json_insert gw_header_def del: foldE.simps map_of_json_insert)
qed

definition gw_hash :: bytes where
  "gw_hash = (case block_indep_hash sample (\<lambda>_. None) (gw_header []) of Inr h \<Rightarrow> h | Inl _ \<Rightarrow> [])"

lemma gw_big: "parse_biguint sample ''0'' l = Inr 0" "parse_biguint sample ''1'' l = Inr 1" "parse_biguint sample ''5'' l = Inr 5"
  "parse_biguint sample ''1005'' l = Inr 1005"
  by (simp_all add: parse_biguint_def sample_def sample_big_parse_def is_ascii_digit_def digits_value_def digit_value_def)

lemma gw_nothing: "decode_b64 sample [] l = Inr []"
  using sample_b64(1) [of "[]" l] by (simp add: hex_def)

lemma gw_list_length: "length (deep_hash_list sample (x # xs)) = 48"
proof -
  have "length (foldl (\<lambda>accumulator item. sha384 sample [accumulator, item]) a (x # xs)) = 48" for a
    by (induction xs arbitrary: a x) simp_all
  then show ?thesis by (simp add: deep_hash_list_def)
qed

lemma gw_indep: "\<exists>h. length h = 48 \<and> (\<forall>i F. block_indep_hash sample F (gw_header i) = Inr h)"
proof -
  have t: "deep_hash_b64_list sample [gw_txid] l = Inr (deep_hash_list sample [deep_hash_blob sample (sha256 sample [s_sig])])" for l
    by (simp add: deep_hash_b64_list_def deep_hash_b64_def gw_txid_def)
  have "\<exists>h. length h = 48 \<and> (\<forall>i. modern_indep_hash sample (gw_header i) tx = Inr h)" for tx
    by (simp add: gw_list_length modern_indep_hash_def deep_hash_decimal_def deep_hash_decimals_def deep_hash_b64_def gw_big gw_nothing reward_address_def
        FORK_2_4_HEIGHT_def)
  then show ?thesis
    by (simp add: block_indep_hash_def historical_indep_hash_def FORK_2_6_HEIGHT_def FORK_2_5_HEIGHT_def FORK_1_6_HEIGHT_def
        FORK_2_0_HEIGHT_def t)
qed
lemma gw_hash: "length gw_hash = 48" "block_indep_hash sample F (gw_header i) = Inr gw_hash"
  using gw_indep by (auto simp: gw_hash_def)

definition gw_entry_block :: BlockIndexEntry where
  "gw_entry_block = \<lparr>bi_tx_root = hex s_tx_root, bi_weave_size = ''1005'', bi_hash = hex gw_hash\<rparr>"
definition gw_previous :: BlockIndexEntry where
  "gw_previous = \<lparr>bi_tx_root = [], bi_weave_size = ''1000'', bi_hash = []\<rparr>"

definition gw_tx_json :: json where
  "gw_tx_json = JObject [(''format'', JNumber ''2''), (''id'', JString gw_txid), (''last_tx'', JString []), (''owner'', JString (hex s_owner)),
     (''tags'', JArray [JArray [JString (hex [65]), JString (hex [66])]]), (''target'', JString []), (''quantity'', JString ''0''),
     (''data_size'', JString ''3''), (''data_root'', JString (hex s_data_root)), (''reward'', JString ''7''),
     (''signature'', JString (hex s_sig)), (''data'', JString [])]"

text \<open>The trusted node and the archive have no header; a discovered peer has one.\<close>

definition gw_sources :: sources where
  "gw_sources = \<lparr>a_anchors = \<lparr>t_store = None, t_info = Inr 600000, t_index = \<lambda>from until. undefined\<rparr>,
     a_placement = \<lambda>i. Inr None, a_sizes = \<lambda>h. Inr [], a_status = \<lambda>i. Inr \<lparr>ts_block_height = 500000, ts_block_indep_hash = hex gw_hash\<rparr>,
     a_block_index = \<lambda>from until. Inr [gw_entry_block, gw_previous],
     a_header = \<lambda>source h. if source = ''peer'' then Inr (JObject (gw_fields h)) else Inl (Fail STR ''unavailable''),
     a_legacy_table = Inr [], a_discovered = [''peer''], a_tx = \<lambda>source i. HttpAnswer True None [Inr []],
     a_offset = \<lambda>i. Inr \<lparr>to_size = ''3'', to_offset = ''1005''\<rparr>\<rparr>"

definition gw_texts :: texts where
  "gw_texts = \<lparr>x_json = \<lambda>body. Some gw_tx_json, x_strings = \<lambda>body. None, x_float = \<lambda>text. None, x_record = \<lambda>ob. [],
     x_headers = undefined\<rparr>"

definition gw_config :: config where
  "gw_config = \<lparr>cfg_trusted_node_url = ''node'', cfg_archive_url = ''archive'', cfg_chunk_sources = [''slow''],
     cfg_max_peer_attempts = 2, cfg_max_data_size = 100, cfg_max_memory_data_size = 100, cfg_indexes = False\<rparr>"

lemma gw_parse: "parse_u128 ''1005'' l = Inr 1005" "parse_u128 ''1000'' l = Inr 1000" "parse_u128 ''3'' l = Inr 3"
  by (simp_all add: parse_u128_def parse_unsigned_def is_ascii_digit_def digits_value_def digit_value_def U128_value)

lemma gw_fixed: "length bs = n \<Longrightarrow> decode_fixed sample n (hex bs) l = Inr bs"
  by (simp add: decode_fixed_def)

lemma gw_header_verified: "verify_block_header sample F (gw_header (hex gw_hash)) gw_entry_block 500000 (Some gw_txid) = Inr ()"
  by (simp add: verify_block_header_def gw_entry_block_def gw_fixed gw_hash gw_parse)

lemma gw_fetched: "fetch_and_authenticate_block sample X table (Inr (JObject (gw_fields (hex gw_hash)))) gw_entry_block 500000 (Some gw_txid)
    = Inr (gw_header (hex gw_hash))"
  using gw_header_verified by (simp add: fetch_and_authenticate_block_def gw_decode gw_entry_block_def cpu_work_def)

lemma gw_authenticated: "authenticate_block sample X gw_config gw_sources gw_entry_block 500000 (Some gw_txid) = Inr (gw_header (hex gw_hash))"
proof -
  have b: "bi_hash gw_entry_block = hex gw_hash" by (simp add: gw_entry_block_def)
  have "fetch_and_authenticate_block sample X table (Inl (Fail e)) gw_entry_block 500000 (Some gw_txid) = Inl (Fail e)" for table e
    by (simp add: fetch_and_authenticate_block_def)
  then show ?thesis by (simp add: authenticate_block_def gw_sources_def gw_config_def b gw_fetched)
qed

lemma gw_decoded: "decode_transaction sample gw_tx_json = Inr (s_transaction ''7'')"
proof -
  have p: "parse_unsigned U8 ''2'' = Some 2" "canonical_unsigned ''2'' l = Inr ''2''" for l
    by (simp_all add: parse_unsigned_def canonical_unsigned_def strip_prefix_def Let_def is_ascii_digit_def
      digits_value_def digit_value_def U8_def)
  have n: "number_field U8 (JNumber (show_nat 2)) = Some 2" by (rule number_field_show) (simp add: U8_def)
  have h: "hex [] = []" by (simp add: hex_def)
  show ?thesis
    by (simp add: decode_transaction_def gw_tx_json_def p n s_numbers normalize_amount_def transaction_of_json_def
      string_field_def default_field_def Let_def s_transaction_def gw_txid_def h)
qed

lemma gw_transaction: "fetch_transaction sample gw_texts (s_signers s_tx_digest) gw_config gw_sources gw_txid 500000 (USIZE - 1)
    = (Inr (s_transaction ''7'', s_verified), USIZE - 1)"
proof -
  have l: "response_limit gw_config = Inr (133 + MAX_JSON_BYTES)"
    by (simp add: response_limit_def gw_config_def checked_mul_def checked_add_def U64_def MAX_JSON_BYTES_def)
  have v: "verify_transaction sample (s_signers s_tx_digest) (s_transaction ''7'') gw_txid 500000 = Inr s_verified"
    using s_transaction_verified [of "''7''"] by (simp add: gw_txid_def)
  have d: "(s_transaction ''7'')\<lparr>tr_data := []\<rparr> = s_transaction ''7''" by (simp add: s_transaction_def hex_def)
  have o: "tr_owner (s_transaction ''7'') \<noteq> []" by (simp add: s_transaction_def s_owner_def hex_def)
  have i: "vt_inline_data s_verified = None" by (simp add: s_verified_def)
  have w: "decode_fixed sample 32 gw_txid l = Inr (sha256 sample [s_sig])" for l by (simp add: gw_txid_def gw_fixed)
  have r: "read_json_response_with_limit gw_texts limit remaining None [Inr []] = (Inr gw_tx_json, remaining)" for limit remaining
    by (simp add: read_json_response_with_limit_def read_response_body_with_limit_def saturating_add_def gw_texts_def U64_def)
  have a: "a_tx gw_sources source i = HttpAnswer True None [Inr []]" for source i by (simp add: gw_sources_def)
  show ?thesis
    by (simp add: fetch_transaction_def l w fetch_from_def a r cpu_work_def gw_decoded v d o i)
qed

lemma s_geometry_root:
  "root_geometry sample gw_sources None gw_entry_block (Some gw_previous) (gw_header (hex gw_hash)) (s_transaction ''7'') gw_txid raw 3
     = Inr s_geometry"
proof -
  have "transaction_end gw_sources None (gw_header (hex gw_hash)) gw_txid raw 3 1000 = Inr 1005"
    by (simp add: transaction_end_def gw_sources_def gw_parse)
  then show ?thesis
    by (simp add: root_geometry_def checked_sub_def gw_entry_block_def gw_previous_def previous_weave_def gw_parse gw_fixed subE_def
        s_transaction_def s_geometry_def)
qed

definition gw_root_of :: AuthenticatedRoot where
  "gw_root_of = \<lparr>ar_id = gw_txid, ar_bytes = StreamedRoot s_geometry 3, ar_block_height = 500000, ar_block_hash = gw_hash,
     ar_stable_anchor = True, ar_tags = tr_tags (s_transaction ''7''), ar_content_encoding = None, ar_facts = None\<rparr>"

lemma gw_authenticate_root:
  "authenticate_root sample gw_texts (s_signers s_tx_digest) gw_config gw_sources gw_txid = Inr gw_root_of"
proof -
  have entries: "trusted_entries sample gw_sources 500000 = Inr (True, [gw_entry_block, gw_previous])"
    by (simp add: trusted_entries_def stored_def gw_sources_def CONSENSUS_DEPTH_def)
  have status: "transaction_status sample gw_sources None i = Inr \<lparr>ts_block_height = 500000, ts_block_indep_hash = hex gw_hash\<rparr>" for i
    by (simp add: transaction_status_def gw_sources_def gw_fixed gw_hash)
  have placed: "stored (a_anchors gw_sources) f = Inr None" for f by (simp add: stored_def gw_sources_def)
  have v: "om_data_size (vt_metadata s_verified) = 3" "om_content_encoding (vt_metadata s_verified) = None"
    "vt_inline_data s_verified = None" "tr_format (s_transaction ''7'') = 2"
    by (simp_all add: s_verified_def s_transaction_def)
  have facts: "root_facts sample gw_config t m b h = Inr None" for t m b h by (simp add: root_facts_def gw_config_def)
  have hash: "decode_fixed sample 48 (bi_hash gw_entry_block) l = Inr gw_hash" for l by (simp add: gw_entry_block_def gw_fixed gw_hash)
  have "root_in_block sample gw_texts (s_signers s_tx_digest) gw_config gw_sources gw_txid raw None 500000 True gw_entry_block (Some gw_previous)
     = Inr gw_root_of" for raw
    unfolding root_in_block_def gw_authenticated gw_transaction
    by (simp add: v facts hash s_geometry_root response_content_encoding_def gw_root_of_def U64_def Let_def)
  then show ?thesis
    using gw_fixed [of "sha256 sample [s_sig]" 32]
    by (simp add: authenticate_root_def placed status entries nthE_def gw_txid_def) (simp add: gw_entry_block_def gw_txid_def)
qed

theorem authenticated_root_sound_witness:
  "\<exists>entry previous header tx v. trusted_entries sample gw_sources 500000 = Inr (True, entry # (case previous of None \<Rightarrow> [] | Some p \<Rightarrow> [p]))
    \<and> previous \<noteq> None \<and> root_evidence sample gw_texts (s_signers s_tx_digest) gw_config gw_txid gw_root_of entry previous header tx v"
proof -
  have "ar_block_height gw_root_of = 500000" "ar_stable_anchor gw_root_of" by (simp_all add: gw_root_of_def)
  then show ?thesis using authenticated_root_sound [OF gw_authenticate_root] by auto
qed

theorem authenticated_bytes_proven_witness:
  "\<exists>ck off job p. verify_chunk_proof sample ck off s_block job = Inr p \<and> s_chunk ! 2 = pc_bytes p ! (2 - dp_start (pc_data p))"
proof -
  have b: "ar_bytes gw_root_of = StreamedRoot s_geometry 3" by (simp add: gw_root_of_def)
  have r: "((s_network, 0, 3), Inr s_chunk) \<in> set (zip [(s_network, 0, 3)] (stream_reads sample (source_new s_geometry) [(s_network, 0, 3)]))"
    unfolding s_reads(1) by simp
  show ?thesis
    using authenticated_bytes_proven [OF gw_authenticate_root b r, of 2] unfolding s_block_geometry by (metis add_0 lessI numeral_2_eq_2 numeral_3_eq_3)
qed

theorem bounded_sources_heard_witness:
  "\<exists>b. authenticate_block sample gw_texts gw_config gw_sources gw_entry_block 500000 (Some gw_txid) = Inr b
    \<and> header_trusted sample gw_texts gw_entry_block 500000 (Some gw_txid) b"
  using bounded_sources_heard [where A = gw_sources and C = gw_config and E = sample and X = gw_texts and entry = gw_entry_block
      and height = 500000 and t = "Some gw_txid", OF refl refl] gw_fetched [of gw_texts]
  by (auto simp: calm_def gw_sources_def gw_config_def gw_entry_block_def)
theorem block_transactions_complete_witness:
  "block_contents sample (x_record gw_texts) s_tx_block [s_first, s_second]"
proof -
  have sample_encode: "x_b64_encode sample = hex" by (simp add: sample_def)
  have "x_b64_decode sample (hex (replicate 32 7)) \<noteq> x_b64_decode sample (hex (replicate 32 8))"
    using s_ids_differ by (simp only: sample_b64_decode) simp
  then have hexes: "hex (replicate 32 8) \<noteq> hex (replicate 32 7)" by metis
  have "verify_block_transactions sample gw_texts (s_signers []) gw_config gw_sources s_tx_block [s_second, s_first] 0 None
      = (Inr (s_tx_block, [s_first, s_second]), None)"
    using s_block_verified hexes
    by (simp add: verify_block_transactions_def Let_def checked_sub_def MAX_BLOCK_TRANSACTION_BYTES_def MAX_BLOCK_TRANSACTIONS_def
        sample_encode cpu_work_def)
  from block_transactions_complete [OF this] show ?thesis by auto
qed


end
