(* ===== verification/JsonItemProofs.thy ===== *)
theory JsonItemProofs
  imports JsonItem
begin

text \<open>
  Properties of the decoder of JSON items: scanning in blocks decodes the whole string, and a range
  streamed from a checkpoint is the range of the decoded bytes.
\<close>

section \<open>Blocks and the whole string\<close>

text \<open>The reference: unescape the whole string, then decode it at once.\<close>

definition base64_value :: "deps \<Rightarrow> bytes \<Rightarrow> bytes res" where
  "base64_value E rs = bindE (fill_block (length rs) rs) (\<lambda>(encoded, rest).
     case b64_bytes E encoded of None \<Rightarrow> Inl invalid_item | Some p \<Rightarrow> Inr p)"

text \<open>Documented behaviour of base64 without padding: quads decode on their own, and decoding does not grow.\<close>

definition base64_quads :: "deps \<Rightarrow> bool" where
  "base64_quads E \<longleftrightarrow> b64_bytes E [] = Some []
     \<and> (\<forall>xs ys. 4 dvd length xs \<longrightarrow> b64_bytes E (xs @ ys) =
          Option.bind (b64_bytes E xs) (\<lambda>a. map_option ((@) a) (b64_bytes E ys)))
     \<and> (\<forall>xs p. b64_bytes E xs = Some p \<longrightarrow> length p \<le> length xs)"

lemma fill_block_Nil [simp]: "fill_block n [] = Inr ([], [])"
  by (cases n) simp_all

lemma bindE_assoc: "bindE (bindE m f) g = bindE m (\<lambda>x. bindE (f x) g)"
  by (cases m) simp_all

lemma fill_block_add:
  "fill_block (n + m) rs = bindE (fill_block n rs) (\<lambda>(e, rest). bindE (fill_block m rest) (\<lambda>(e', rest'). Inr (e @ e', rest')))"
proof (induction n rs rule: fill_block.induct)
  case (1 rs)
  show ?case by (cases "fill_block m rs") auto
next
  case (3 room b rs)
  show ?case
  proof (cases "b \<noteq> 92")
    case True
    then show ?thesis using "3.IH"(1) by (simp add: bindE_assoc split_beta)
  next
    case False
    then show ?thesis
    proof (cases "escape rs")
      case (Inr x)
      then show ?thesis using "3.IH"(2) [of x "fst x" "snd x"] False by (simp add: bindE_assoc split_beta)
    qed simp
  qed
qed simp

lemma fill_block_full: "fill_block n rs = Inr (e, rest) \<Longrightarrow> length e = n \<or> rest = []"
  by (induction n rs arbitrary: e rest rule: fill_block.induct) (auto simp: res_simps split: if_splits)


lemma fill_block_fuel: "length rs \<le> n \<Longrightarrow> fill_block n rs = fill_block (length rs) rs"
proof -
  assume "length rs \<le> n"
  then obtain k where n: "n = length rs + k" using le_Suc_ex by blast
  show ?thesis
  proof (cases "fill_block (length rs) rs")
    case (Inr x)
    then have "snd x = []" using fill_block_full [of "length rs" rs "fst x" "snd x"] fill_block_shorter [of "length rs" rs "fst x" "snd x"] by auto
    then show ?thesis using Inr by (cases x) (simp add: n fill_block_add)
  qed (simp add: n fill_block_add)
qed

lemma value_Nil: "base64_quads E \<Longrightarrow> base64_value E [] = Inr []"
  by (simp add: base64_value_def base64_quads_def)

text \<open>One block: its part of the string decodes on its own.\<close>

lemma value_block:
  assumes "base64_quads E" "4 dvd B" "fill_block B rs = Inr (e, rest)"
  shows "base64_value E rs = Inr p \<longleftrightarrow> (\<exists>a q. b64_bytes E e = Some a \<and> base64_value E rest = Inr q \<and> p = a @ q)"
proof (cases "rest = []")
  case True
  have "fill_block (length rs) rs = Inr (e, [])"
  proof (cases "length rs \<le> B")
    case True
    then show ?thesis using fill_block_fuel assms(3) \<open>rest = []\<close> by metis
  next
    case False
    then obtain k where "length rs = B + k" using nat_le_iff_add nat_le_linear by blast
    then show ?thesis using assms(3) \<open>rest = []\<close> by (simp add: fill_block_add)
  qed
  then show ?thesis using True value_Nil [OF assms(1)] by (auto simp: base64_value_def split: option.splits)
next
  case False
  then have B: "length e = B" using fill_block_full assms(3) by blast
  then have le: "B + length rest \<le> length rs" using fill_block_shorter [OF assms(3)] by simp
  then obtain k where k: "length rs = B + k" "length rest \<le> k"
    by (metis add_le_cancel_left le_Suc_ex le_add1 order_trans)
  have f: "fill_block (length rs) rs = bindE (fill_block (length rest) rest) (\<lambda>(e', r). Inr (e @ e', r))"
    using assms(3) fill_block_fuel [OF k(2)] by (simp add: k(1) fill_block_add)
  have d: "b64_bytes E (e @ e') = Option.bind (b64_bytes E e) (\<lambda>a. map_option ((@) a) (b64_bytes E e'))" for e'
    using assms(1,2) B by (simp add: base64_quads_def)
  show ?thesis
    unfolding base64_value_def f
    by (cases "fill_block (length rest) rest"; cases "b64_bytes E e") (auto simp: d split_beta split: option.splits)
qed

lemma value_error: "fill_block B rs = Inl err \<Longrightarrow> base64_value E rs \<noteq> Inr p"
proof -
  assume e: "fill_block B rs = Inl err"
  have "\<exists>err. fill_block (length rs) rs = Inl err"
  proof (cases "length rs \<le> B")
    case True
    then show ?thesis using e fill_block_fuel by metis
  next
    case False
    then obtain k where "length rs = B + k" using nat_le_iff_add nat_le_linear by blast
    then show ?thesis using e by (simp add: fill_block_add)
  qed
  then show ?thesis by (auto simp: base64_value_def)
qed

lemma fill_block_empty: "fill_block n rs = Inr ([], rest) \<Longrightarrow> 0 < n \<Longrightarrow> rs = []"
  by (induction n rs rule: fill_block.induct) (auto simp: res_simps split: if_splits)

lemma DECODE_BLOCK_quads: "4 dvd DECODE_BLOCK" "0 < DECODE_BLOCK"
  by (simp_all add: DECODE_BLOCK_def)

text \<open>A step of the decoder inside a string \<open>R\<close>.\<close>

definition inside :: "bytes \<Rightarrow> Decoder \<Rightarrow> bool" where
  "inside R d \<longleftrightarrow> de_raw_position d \<le> length R \<and> de_reader d = drop (de_raw_position d) R"

lemma inside_bound: "inside R d \<Longrightarrow> length R < USIZE \<Longrightarrow> de_raw_position d + length (de_reader d) < USIZE"
  by (auto simp: inside_def)

lemma decoder_next_value:
  assumes "base64_quads E" "base64_value E (de_reader d) = Inr q" "de_raw_position d + length (de_reader d) < USIZE"
  shows "(q = [] \<and> (\<exists>d'. decoder_next E d = Inr (None, d') \<and> de_reader d = [])) \<or>
    (\<exists>a q' d'. decoder_next E d = Inr (Some a, d') \<and> q = a @ q' \<and> base64_value E (de_reader d') = Inr q'
      \<and> de_raw_position d' + length (de_reader d') = de_raw_position d + length (de_reader d) \<and> length (de_reader d') < length (de_reader d))"
proof (cases "fill_block DECODE_BLOCK (de_reader d)")
  case (Inl err)
  then show ?thesis using value_error assms(2) by blast
next
  case (Inr x)
  obtain e rest where x: "x = (e, rest)" by (cases x)
  note f = Inr [unfolded x]
  note v = value_block [OF assms(1) DECODE_BLOCK_quads(1) f, of q]
  from v assms(2) obtain a q' where a: "b64_bytes E e = Some a" "base64_value E rest = Inr q'" "q = a @ q'" by blast
  note sh = fill_block_shorter [OF f]
  show ?thesis
  proof (cases "e = []")
    case True
    then have "rest = []" using fill_block_full [OF f] DECODE_BLOCK_quads(2) by auto
    moreover from this have "de_reader d = []"
      using True f DECODE_BLOCK_quads(2) fill_block_empty by blast
    ultimately show ?thesis
      using True f assms value_Nil [OF assms(1)] by (auto simp: decoder_next_def res_simps addE_def)
  next
    case False
    then have "length rest < length (de_reader d)" using sh by (cases e) auto
    then show ?thesis
      using False a f assms(3) by (auto simp: decoder_next_def addE_def)
  qed
qed

lemma decoder_next_inside:
  "inside R d \<Longrightarrow> de_raw_position d' + length (de_reader d') = de_raw_position d + length (de_reader d) \<Longrightarrow>
   (\<exists>k. de_reader d' = drop k (de_reader d)) \<Longrightarrow> inside R d'"
proof -
  assume a: "inside R d" "de_raw_position d' + length (de_reader d') = de_raw_position d + length (de_reader d)"
    "\<exists>k. de_reader d' = drop k (de_reader d)"
  then obtain k where k: "de_reader d' = drop k (de_reader d)" by blast
  let ?r = "de_raw_position d" and ?r' = "de_raw_position d'"
  have "de_reader d' = drop (length (de_reader d) - length (de_reader d')) (de_reader d)"
    using k by (cases "k \<le> length (de_reader d)") simp_all
  moreover have "length (de_reader d) - length (de_reader d') = ?r' - ?r \<and> ?r \<le> ?r'"
  proof -
    have "length (de_reader d') \<le> length (de_reader d)" using k by simp
    then show ?thesis using a(2) by arith
  qed
  ultimately show "inside R d'"
    using a(1,2) by (auto simp: inside_def)
qed

lemma escape_drop: "escape rs = Inr (c, rest) \<Longrightarrow> \<exists>k. rest = drop k rs"
proof -
  assume "escape rs = Inr (c, rest)"
  then have "\<exists>b bs. rs = b # bs \<and> (rest = bs \<or> rest = drop 4 bs)"
    by (auto simp: escape_def res_simps split: list.splits if_splits)
  then show ?thesis by (metis drop_Suc_Cons drop0)
qed

lemma fill_block_drop: "fill_block n rs = Inr (e, rest) \<Longrightarrow> \<exists>k. rest = drop k rs"
proof (induction n rs arbitrary: e rest rule: fill_block.induct)
  case (3 room b rs)
  show ?case
  proof (cases "b \<noteq> 92")
    case True
    then obtain e' where "fill_block room rs = Inr (e', rest)" using "3.prems" by (auto simp: res_simps)
    then show ?thesis using "3.IH"(1) True by (metis drop_Suc_Cons)
  next
    case False
    then obtain c rs' e' where r: "escape rs = Inr (c, rs')" "fill_block room rs' = Inr (e', rest)"
      using "3.prems" by (auto simp: res_simps)
    then obtain k where "rest = drop k rs'" using "3.IH"(2) False by blast
    moreover obtain j where "rs' = drop j rs" using escape_drop [OF r(1)] by blast
    ultimately show ?thesis by (metis drop_Suc_Cons drop_drop)
  qed
qed (auto intro: exI [of _ 0])

lemma decoder_next_drop: "decoder_next E d = Inr (Some a, d') \<Longrightarrow> \<exists>k. de_reader d' = drop k (de_reader d)"
  by (auto simp: decoder_next_def res_simps Let_def dest: fill_block_drop split: if_splits option.splits)


lemma decoder_step:
  assumes "base64_quads E" "base64_value E (de_reader d) = Inr q" "inside R d" "length R < USIZE"
  shows "(q = [] \<and> (\<exists>d'. decoder_next E d = Inr (None, d'))) \<or>
    (\<exists>a q' d'. decoder_next E d = Inr (Some a, d') \<and> q = a @ q' \<and> base64_value E (de_reader d') = Inr q'
      \<and> inside R d' \<and> length (de_reader d') < length (de_reader d))"
proof -
  from decoder_next_value [OF assms(1,2) inside_bound [OF assms(3,4)]] show ?thesis
  proof (elim disjE exE conjE)
    fix a q' d'
    assume n: "decoder_next E d = Inr (Some a, d')" "q = a @ q'" "base64_value E (de_reader d') = Inr q'"
      "de_raw_position d' + length (de_reader d') = de_raw_position d + length (de_reader d)"
      "length (de_reader d') < length (de_reader d)"
    have "inside R d'" by (rule decoder_next_inside [OF assms(3) n(4) decoder_next_drop [OF n(1)]])
    then show ?thesis using n by blast
  qed simp
qed

section \<open>Scanning\<close>

text \<open>A checkpoint is right when decoding from its position gives the rest of the payload.\<close>

definition checkpoint_ok :: "deps \<Rightarrow> bytes \<Rightarrow> bytes \<Rightarrow> nat \<times> nat \<Rightarrow> bool" where
  "checkpoint_ok E R p c \<longleftrightarrow> fst c \<le> length R \<and> snd c \<le> length p \<and> base64_value E (drop (fst c) R) = Inr (drop (snd c) p)"

lemma scan_loop_ok:
  assumes "base64_quads E" "length R < USIZE" "length p < USIZE"
  shows "inside R d \<Longrightarrow> base64_value E (de_reader d) = Inr (drop len p) \<Longrightarrow> len \<le> length p \<Longrightarrow> concat parts = take len p \<Longrightarrow>
    list_all (checkpoint_ok E R p) cps \<Longrightarrow> cps \<noteq> [] \<Longrightarrow>
    \<exists>cps' parts'. scan_loop E stride d cps nc len parts = Inr (cps', length p, parts') \<and> concat parts' = p
      \<and> list_all (checkpoint_ok E R p) cps' \<and> cps' \<noteq> [] \<and> hd cps' = hd cps"
proof (induction "length (de_reader d)" arbitrary: d len parts cps nc rule: less_induct)
  case less
  from decoder_step [OF assms(1) less.prems(2,1) assms(2)] show ?case
  proof (elim disjE exE conjE)
    fix d' assume "drop len p = []" "decoder_next E d = Inr (None, d')"
    then show ?thesis using less.prems by (subst scan_loop.simps) auto
  next
    fix a q' d'
    assume n: "decoder_next E d = Inr (Some a, d')" "drop len p = a @ q'" "base64_value E (de_reader d') = Inr q'"
      "inside R d'" "length (de_reader d') < length (de_reader d)"
    let ?len = "len + length a"
    have l: "?len \<le> length p" "drop ?len p = q'" "take ?len p = concat parts @ a"
    proof -
      have p: "p = take len p @ a @ q'" using n(2) by (metis append_take_drop_id)
      then show "?len \<le> length p" using less.prems(3) by (metis add_le_mono1 length_append le_add1 length_take min.absorb2 nat_add_left_cancel_le)
      have "drop ?len p = drop (length a) (drop len p)" by (simp add: add.commute)
      then show "drop ?len p = q'" unfolding n(2) by simp
      show "take ?len p = concat parts @ a" using n(2) less.prems(4) by (simp add: take_add)
    qed
    have ok: "checkpoint_ok E R p (de_raw_position d', ?len)"
      using n(3,4) l by (simp add: checkpoint_ok_def inside_def)
    have ca: "checked_add USIZE len (length a) = Some ?len" using l(1) assms(3) by (simp add: checked_add_def)
    have IH: "\<exists>cps' parts'. scan_loop E stride d' c nc' ?len (parts @ [a]) = Inr (cps', length p, parts') \<and> concat parts' = p
        \<and> list_all (checkpoint_ok E R p) cps' \<and> cps' \<noteq> [] \<and> hd cps' = hd c"
      if "list_all (checkpoint_ok E R p) c" "c \<noteq> []" for c nc'
      using less.hyps [OF n(5,4), of ?len "parts @ [a]" c nc'] n(3) l that by simp
    show ?thesis
    proof (cases "nc \<le> de_raw_position d'")
      case True
      from IH [of "cps @ [(de_raw_position d', ?len)]"] show ?thesis
        using n(1) True ca ok less.prems(5,6) by (subst scan_loop.simps) simp
    next
      case False
      from IH [of cps] show ?thesis
        using n(1) False ca less.prems(5,6) by (subst scan_loop.simps) simp
    qed
  qed
qed

lemma scan_loop_sound:
  assumes "base64_quads E" "scan_loop E stride d cps nc len parts = Inr r"
  shows "\<exists>q. base64_value E (de_reader d) = Inr q"
  using assms(2)
proof (induction "length (de_reader d)" arbitrary: d len parts cps nc rule: less_induct)
  case less
  note s = less.prems [unfolded scan_loop.simps [of E stride d]]
  then obtain e rest where f: "fill_block DECODE_BLOCK (de_reader d) = Inr (e, rest)"
    by (auto simp: res_simps decoder_next_def)
  show ?case
  proof (cases "e = []")
    case True
    then have "de_reader d = []" using fill_block_empty f DECODE_BLOCK_quads(2) by blast
    then show ?thesis using value_Nil [OF assms(1)] by simp
  next
    case False
    then obtain a d' where n: "decoder_next E d = Inr (Some a, d')" "b64_bytes E e = Some a" "de_reader d' = rest"
      using s f by (auto simp: res_simps decoder_next_def Let_def split: option.splits if_splits)
    have "\<exists>c n l p. scan_loop E stride d' c n l p = Inr r"
      using s n(1) by (auto simp: res_simps split: if_splits)
    then obtain q where "base64_value E rest = Inr q"
      using less.hyps [OF decoder_next_shorter [OF n(1)]] n(3) by blast
    then show ?thesis using value_block [OF assms(1) DECODE_BLOCK_quads(1) f] n(2) by blast
  qed
qed

section \<open>Streaming a range\<close>

lemma stream_loop_ok:
  assumes "base64_quads E" "length R < USIZE"
  shows "inside R d \<Longrightarrow> base64_value E (de_reader d) = Inr q \<Longrightarrow> skip + remaining \<le> length q \<Longrightarrow>
    \<exists>cs. stream_loop E d skip remaining = Inr cs \<and> concat cs = take remaining (drop skip q)"
proof (induction "length (de_reader d)" arbitrary: d q skip remaining rule: less_induct)
  case less
  show ?case
  proof (cases "remaining = 0")
    case True
    then show ?thesis by (subst stream_loop.simps) simp
  next
    case False
    then have "q \<noteq> []" using less.prems(3) by auto
    then obtain a q' d' where n: "decoder_next E d = Inr (Some a, d')" "q = a @ q'" "base64_value E (de_reader d') = Inr q'"
      "inside R d'" "length (de_reader d') < length (de_reader d)"
      using decoder_step [OF assms(1) less.prems(2,1) assms(2)] by blast
    note IH = less.hyps [OF n(5,4,3)]
    show ?thesis
    proof (cases "length a \<le> skip")
      case True
      then show ?thesis
        using IH [of "skip - length a" remaining] n(1,2) False less.prems(3) by (subst stream_loop.simps) auto
    next
      case skip: False
      let ?count = "min (length a - skip) remaining"
      have "?count \<le> remaining" "remaining - ?count \<le> length q'" using less.prems(3) n(2) skip by auto
      then obtain cs where cs: "stream_loop E d' 0 (remaining - ?count) = Inr cs" "concat cs = take (remaining - ?count) q'"
        using IH [of 0 "remaining - ?count"] by auto
      have "stream_loop E d skip remaining = Inr (sub_bytes a skip (skip + ?count) # cs)"
        using n(1) False skip cs(1) by (subst stream_loop.simps) (simp add: Let_def)
      moreover have "sub_bytes a skip (skip + ?count) @ take (remaining - ?count) q' = take remaining (drop skip q)"
        using skip n(2) by (auto simp: sub_bytes_def min_def)
      ultimately show ?thesis using cs(2) by simp
    qed
  qed
qed

lemma takeWhile_last:
  "xs \<noteq> [] \<Longrightarrow> P (hd xs) \<Longrightarrow> length (takeWhile P xs) - 1 < length xs \<and> P (xs ! (length (takeWhile P xs) - 1))"
proof -
  assume "xs \<noteq> []" "P (hd xs)"
  then have "takeWhile P xs \<noteq> []" by (cases xs) auto
  then have "length (takeWhile P xs) - 1 < length (takeWhile P xs)" by simp
  then show ?thesis
    by (metis le_trans length_takeWhile_le less_le_trans nth_mem set_takeWhileD takeWhile_nth)
qed

lemma value_length:
  assumes "base64_quads E" "length R < USIZE" "base64_value E R = Inr p"
  shows "length p < USIZE"
proof -
  from assms(3) obtain e rest where "fill_block (length R) R = Inr (e, rest)" "b64_bytes E e = Some p"
    by (auto simp: base64_value_def res_simps split: option.splits)
  moreover from this have "length p \<le> length e" using assms(1) by (simp add: base64_quads_def)
  ultimately show ?thesis using fill_block_shorter assms(2) by fastforce
qed

text \<open>C17. A JSON item's data: scanning the quoted string block by block succeeds exactly when unescaping and decoding it whole
  does; then the length and both hashes are those of the decoded payload, and streaming any range, from whatever
  checkpoint the scan left before it, yields exactly the bytes of the payload in that range.\<close>

theorem base64_scan_refines:
  assumes "base64_quads E" and "length R < USIZE"
  shows "((\<exists>r. base64_scan E R = Inr r) \<longleftrightarrow> (\<exists>p. base64_value E R = Inr p))
    \<and> (base64_value E R = Inr p \<longrightarrow> (\<exists>b. base64_scan E R = Inr (b, sha256 E [p], sha384 E [p]) \<and> bd_len b = length p
        \<and> (offset + len \<le> length p \<longrightarrow> (\<exists>cs. base64_stream E b offset len = Inr cs \<and> concat cs = take len (drop offset p)))))"
proof -
  let ?d = "\<lparr>de_reader = R, de_raw_position = 0\<rparr>"
  have fwd: "\<exists>b. base64_scan E R = Inr (b, sha256 E [p], sha384 E [p]) \<and> bd_len b = length p
        \<and> (offset + len \<le> length p \<longrightarrow> (\<exists>cs. base64_stream E b offset len = Inr cs \<and> concat cs = take len (drop offset p)))"
    if v: "base64_value E R = Inr p" for p
  proof -
    have start: "inside R ?d" "base64_value E (de_reader ?d) = Inr (drop 0 p)" "0 \<le> length p" "concat [] = take 0 p"
      "list_all (checkpoint_ok E R p) [(0, 0)]" "[(0::nat, 0::nat)] \<noteq> []"
      using v by (simp_all add: inside_def checkpoint_ok_def)
    let ?stride = "max (div_ceil (length R) 4096) DECODE_BLOCK"
    from scan_loop_ok [OF assms(1,2) value_length [OF assms v] start, of ?stride ?stride]
    obtain cps parts' where s: "scan_loop E ?stride ?d [(0, 0)] ?stride 0 [] = Inr (cps, length p, parts')"
      "concat parts' = p" "list_all (checkpoint_ok E R p) cps" "cps \<noteq> []" "hd cps = (0, 0)"
      by auto
    let ?b = "\<lparr>bd_encoded = R, bd_checkpoints = cps, bd_len = length p\<rparr>"
    have b: "base64_scan E R = Inr (?b, sha256 E [p], sha384 E [p])"
      using s(1,2) by (simp add: base64_scan_def Let_def sha256_def sha384_def)
    have "\<exists>cs. base64_stream E ?b offset len = Inr cs \<and> concat cs = take len (drop offset p)" if l: "offset + len \<le> length p"
    proof -
      let ?i = "length (takeWhile (\<lambda>(_, decoded). decoded \<le> offset) cps) - 1"
      obtain raw decoded where c: "cps ! ?i = (raw, decoded)" by fastforce
      have i: "?i < length cps" "decoded \<le> offset"
        using takeWhile_last [OF s(4), of "\<lambda>(_, decoded). decoded \<le> offset"] s(5) c by auto
      then have ok: "checkpoint_ok E R p (raw, decoded)" using s(3) c by (metis list_all_length)
      obtain cs where "stream_loop E \<lparr>de_reader = drop raw R, de_raw_position = 0\<rparr> (offset - decoded) len = Inr cs"
        "concat cs = take len (drop (offset - decoded) (drop decoded p))"
        using stream_loop_ok [OF assms(1), of "drop raw R" "\<lparr>de_reader = drop raw R, de_raw_position = 0\<rparr>" "drop decoded p" "offset - decoded" len]
          ok i(2) l assms(2) less_imp_diff_less [OF assms(2)] diff_le_mono [OF l, of decoded]
        by (auto simp: checkpoint_ok_def inside_def)
      then show ?thesis
        using i c ok by (simp add: base64_stream_def Let_def content_slice_def checkpoint_ok_def sub_bytes_def nthE_def subE_def)
    qed
    then show ?thesis using b by auto
  qed
  moreover have "\<exists>p. base64_value E R = Inr p" if "base64_scan E R = Inr r" for r
    using that scan_loop_sound [OF assms(1), of _ ?d] by (auto simp: base64_scan_def Let_def res_simps)
  ultimately show ?thesis by blast
qed


lemma sample_quads: "base64_quads sample"
proof -
  have nil: "map_option ((@) []) x = x" for x :: "bytes option" by (cases x) simp_all
  have app: "sample_decode (xs @ ys) = Option.bind (sample_decode xs) (\<lambda>a. map_option ((@) a) (sample_decode ys))"
    if "even (length xs)" for xs ys
    using that by (induction xs rule: sample_decode.induct) (auto simp: nil split: option.splits)
  have "sample_decode xs = Some p \<Longrightarrow> length p \<le> length xs" for xs p
    by (induction xs arbitrary: p rule: sample_decode.induct) (fastforce split: option.splits)+
  moreover have "even (length xs)" if "4 dvd length xs" for xs :: bytes
    using that by (metis dvd_trans even_numeral)
  ultimately show ?thesis
    using app by (fastforce simp: base64_quads_def b64_bytes_def sample_def)
qed

text \<open>The escaped text \<open>41\u0066f07\/\<close> without its last two characters.\<close>

definition w_escaped :: bytes where
  "w_escaped = [52, 49, 92, 117, 48, 48, 54, 54, 102, 48, 55]"

lemma w_value: "base64_value sample w_escaped = Inr [0x41, 0xff, 0x07]"
proof -
  have "length w_escaped = Suc (Suc (Suc (Suc (Suc (Suc (Suc (Suc (Suc (Suc (Suc 0))))))))))"
    by (simp add: w_escaped_def)
  then have "fill_block (length w_escaped) w_escaped = Inr ([52, 49, 102, 102, 48, 55], [])"
    by (simp add: w_escaped_def escape_def decode_hex_nibble_def mulE_def addE_def checked_mul_def checked_add_def U16_def)
  moreover have "sample_decode (map char_of_byte [52, 49, 102, 102, 48, 55]) = Some [0x41, 0xff, 0x07]"
    by (simp add: char_of_byte_def hex_value_def Let_def of_char_of)
  ultimately show ?thesis by (simp add: base64_value_def b64_bytes_def sample_def)
qed

theorem base64_scan_refines_witness:
  "\<exists>b cs. base64_scan sample w_escaped = Inr (b, sha256 sample [[0x41, 0xff, 0x07]], sha384 sample [[0x41, 0xff, 0x07]])
     \<and> base64_stream sample b 1 2 = Inr cs \<and> concat cs = [0xff, 0x07]"
proof -
  have "length w_escaped < USIZE" by (simp add: w_escaped_def U64_def)
  from base64_scan_refines [OF sample_quads this, of "[0x41, 0xff, 0x07]" 1 2] w_value
  obtain b where b: "base64_scan sample w_escaped = Inr (b, sha256 sample [[0x41, 0xff, 0x07]], sha384 sample [[0x41, 0xff, 0x07]])"
    "\<exists>cs. base64_stream sample b 1 2 = Inr cs \<and> concat cs = take 2 (drop 1 [0x41, 0xff, 0x07])"
    by auto
  then show ?thesis by auto
qed

end
