(* ===== verification/Admission.thy ===== *)
theory Admission
  imports Caches Bundle "HOL-Library.Option_ord" "HOL-Library.Product_Lexorder" "HOL-Library.List_Lexorder"
begin

text \<open>
  The bundle worker's bookkeeping, \<open>src/src/background.rs\<close>: the admission of jobs under limits of jobs
  and bytes (\<open>Admission\<close>, \<open>Reservation\<close>), the disk space pre-admitted for a download (\<open>SpoolBudget\<close> of
  \<open>src/src/content.rs\<close>), and the scan for pending bundles with its checkpoint (\<open>download_pending\<close>,
  \<open>BundleScan\<close> of \<open>src/src/database.rs\<close>).  The tasks that run concurrently are steps of a relation.
\<close>

definition MAX_JOBS :: nat where "MAX_JOBS = 8"

section \<open>Disk space\<close>

record SpoolBudget =
  sb_max_bytes :: nat
  sb_used_bytes :: nat

definition spool_reserve :: "SpoolBudget \<Rightarrow> nat \<Rightarrow> SpoolBudget res" where
  "spool_reserve budget bytes =
     (case checked_add USIZE (sb_used_bytes budget) bytes of
        Some tot \<Rightarrow> ensure (tot \<le> sb_max_bytes budget) STR ''content spool budget exhausted''
                        (Inr (budget\<lparr>sb_used_bytes := tot\<rparr>))
      | None \<Rightarrow> Inl (Fail STR ''content spool budget exhausted''))"

text \<open>\<open>fetch_sub\<close> wraps.\<close>

definition spool_release :: "SpoolBudget \<Rightarrow> nat \<Rightarrow> SpoolBudget" where
  "spool_release budget bytes = budget\<lparr>sb_used_bytes := (sb_used_bytes budget + (USIZE - bytes)) mod USIZE\<rparr>"

section \<open>The scan\<close>

record BundleCursor =
  bc_height :: int
  bc_position :: int
  bc_kind :: int
  bc_id :: bytes

record BundleScan =
  bs_boundary :: int
  bs_live :: "BundleCursor option"
  bs_backfill :: "BundleCursor option"

text \<open>The derived order of cursors: field by field.\<close>

definition cursor_key :: "BundleCursor \<Rightarrow> int \<times> int \<times> int \<times> bytes" where
  "cursor_key c = (bc_height c, bc_position c, bc_kind c, bc_id c)"

definition live_before :: "BundleScan \<Rightarrow> BundleScan \<Rightarrow> bool" where
  "live_before a b \<longleftrightarrow> map_option cursor_key (bs_live a) < map_option cursor_key (bs_live b)"

definition rewind_live :: "BundleScan \<Rightarrow> int \<Rightarrow> BundleScan" where
  "rewind_live scan stable_height = (case bs_live scan of
     Some cursor \<Rightarrow>
       if bc_height cursor > stable_height
       then scan\<lparr>bs_live := Some \<lparr>bc_height = stable_height, bc_position = 2 ^ 31 - 1, bc_kind = 1,
              bc_id = map (\<lambda>_. 255) (bc_id cursor)\<rparr>\<rparr>
       else scan
   | None \<Rightarrow> scan)"

section \<open>Admission\<close>

record Admission =
  ad_max_bytes :: nat
  ad_max_jobs :: nat
  ad_max_scheduled_jobs :: nat
  ad_max_scheduled_bytes :: nat
  ad_paused :: bool
  ad_ids :: "bytes set"
  ad_scan_cursors :: "(bytes \<times> nat \<times> BundleScan option) list"
  ad_bytes :: nat
  ad_scheduled_bytes :: nat
  ad_scheduled_jobs :: nat
  ad_closed :: bool

record Reservation =
  rv_id :: bytes
  rv_bytes :: nat
  rv_scheduled :: bool

definition admission_new :: "nat \<Rightarrow> nat \<Rightarrow> bool \<Rightarrow> Admission res" where
  "admission_new max_bytes max_jobs request_headroom =
     bindE (if request_headroom then subE max_jobs MAX_JOBS else Inr max_jobs) (\<lambda>scheduled_jobs.
     Inr \<lparr>ad_max_bytes = max_bytes, ad_max_jobs = max_jobs, ad_max_scheduled_jobs = scheduled_jobs,
          ad_max_scheduled_bytes = (if request_headroom then max_bytes div 2 else max_bytes),
          ad_paused = False, ad_ids = {}, ad_scan_cursors = [], ad_bytes = 0, ad_scheduled_bytes = 0,
          ad_scheduled_jobs = 0, ad_closed = False\<rparr>)"

text \<open>
  \<open>contended\<close>: another task holds the lock.  The conditions are evaluated in order; a subtraction
  is reached only when those before it are false.
\<close>

definition reserve_inner ::
  "Admission \<Rightarrow> bool \<Rightarrow> bytes \<Rightarrow> nat \<Rightarrow> bool \<Rightarrow> (Reservation option \<times> Admission) res" where
  "reserve_inner a contended i bytes scheduled =
     (if contended \<or> ad_paused a \<or> ad_closed a \<or> card (ad_ids a) = ad_max_jobs a \<or> i \<in> ad_ids a then Inr (None, a)
      else
        bindE (subE (ad_max_bytes a) (ad_bytes a)) (\<lambda>room.
        if bytes > room then Inr (None, a) else
        bindE (if scheduled then bindE (subE (ad_max_scheduled_bytes a) (ad_scheduled_bytes a)) (\<lambda>room. Inr (bytes > room))
               else Inr False) (\<lambda>full.
        if full \<or> scheduled \<and> ad_scheduled_jobs a = ad_max_scheduled_jobs a then Inr (None, a) else
        bindE (addE USIZE (ad_bytes a) bytes) (\<lambda>tot.
        bindE (if scheduled then addE USIZE (ad_scheduled_bytes a) bytes else Inr (ad_scheduled_bytes a)) (\<lambda>stotal.
        bindE (if scheduled then addE USIZE (ad_scheduled_jobs a) 1 else Inr (ad_scheduled_jobs a)) (\<lambda>sjobs.
        Inr (Some \<lparr>rv_id = i, rv_bytes = bytes, rv_scheduled = scheduled\<rparr>,
             a\<lparr>ad_ids := insert i (ad_ids a), ad_bytes := tot, ad_scheduled_bytes := stotal,
               ad_scheduled_jobs := sjobs\<rparr>)))))))"

definition reserve :: "Admission \<Rightarrow> bool \<Rightarrow> bytes \<Rightarrow> nat \<Rightarrow> (Reservation option \<times> Admission) res" where
  "reserve a contended i bytes = reserve_inner a contended i bytes False"

definition reserve_scheduled :: "Admission \<Rightarrow> bool \<Rightarrow> bytes \<Rightarrow> nat \<Rightarrow> (Reservation option \<times> Admission) res" where
  "reserve_scheduled a contended i data_size =
     (case checked_add USIZE data_size MAX_JSON_BYTES of
        None \<Rightarrow> Inr (None, a)
      | Some bytes \<Rightarrow> reserve_inner a contended i bytes True)"

definition track_scan :: "Admission \<Rightarrow> bytes \<Rightarrow> nat \<Rightarrow> BundleScan option \<Rightarrow> Admission" where
  "track_scan a i sequence after =
     (if i \<in> ad_ids a then
        a\<lparr>ad_scan_cursors := (case map_of (ad_scan_cursors a) i of
            Some (saved, _) \<Rightarrow> if sequence < saved then put_key i (sequence, after) (ad_scan_cursors a) else ad_scan_cursors a
          | None \<Rightarrow> put_key i (sequence, after) (ad_scan_cursors a))\<rparr>
      else a)"

definition scan_checkpoint :: "Admission \<Rightarrow> BundleScan option \<Rightarrow> BundleScan option" where
  "scan_checkpoint a boundary =
     (let checkpoint = (case oldest fst (ad_scan_cursors a) of
          Some (_, _, cursor) \<Rightarrow> cursor
        | None \<Rightarrow> boundary) in
      case (checkpoint, boundary) of
        (Some checkpoint, Some boundary) \<Rightarrow>
          Some (if live_before boundary checkpoint then checkpoint\<lparr>bs_live := bs_live boundary\<rparr> else checkpoint)
      | _ \<Rightarrow> checkpoint)"

definition shrink :: "Admission \<Rightarrow> Reservation \<Rightarrow> nat \<Rightarrow> (Reservation \<times> Admission) res" where
  "shrink a r bytes =
     ensure (bytes \<le> rv_bytes r) STR ''bundle exceeds retained-byte reservation''
     (bindE (subE (rv_bytes r) bytes) (\<lambda>freed.
      bindE (subE (ad_bytes a) freed) (\<lambda>tot.
      bindE (if rv_scheduled r then subE (ad_scheduled_bytes a) freed else Inr (ad_scheduled_bytes a)) (\<lambda>stotal.
      Inr (r\<lparr>rv_bytes := bytes\<rparr>, a\<lparr>ad_bytes := tot, ad_scheduled_bytes := stotal\<rparr>)))))"

definition drop_reservation :: "Admission \<Rightarrow> Reservation \<Rightarrow> Admission res" where
  "drop_reservation a r =
     bindE (subE (ad_bytes a) (rv_bytes r)) (\<lambda>tot.
     bindE (if rv_scheduled r then subE (ad_scheduled_bytes a) (rv_bytes r) else Inr (ad_scheduled_bytes a)) (\<lambda>stotal.
     bindE (if rv_scheduled r then subE (ad_scheduled_jobs a) 1 else Inr (ad_scheduled_jobs a)) (\<lambda>sjobs.
     Inr (a\<lparr>ad_ids := ad_ids a - {rv_id r}, ad_scan_cursors := del_key (rv_id r) (ad_scan_cursors a),
            ad_bytes := tot, ad_scheduled_bytes := stotal, ad_scheduled_jobs := sjobs\<rparr>))))"

section \<open>Scheduling a pending bundle\<close>

record Limits =
  li_max_data_size :: nat
  li_max_memory_data_size :: nat
  li_max_spool_bytes :: nat

text \<open>Whether a bundle is streamed, and the bytes its job is charged.\<close>

definition is_streamed :: "Limits \<Rightarrow> Admission \<Rightarrow> nat \<Rightarrow> bool" where
  "is_streamed L a n \<longleftrightarrow>
     n > li_max_data_size L \<or> n > li_max_memory_data_size L \<and> n > li_max_spool_bytes L
     \<or> (case checked_add USIZE n MAX_JSON_BYTES of None \<Rightarrow> True | Some bytes \<Rightarrow> bytes > ad_max_scheduled_bytes a)"

definition job_charge :: "bool \<Rightarrow> nat \<Rightarrow> nat" where
  "job_charge streamed n = (if streamed then 16 * MAX_JSON_BYTES else n)"

text \<open>What becomes of the pending bundle: in flight already, admitted with its reservations, or kept.\<close>

datatype scheduled = InFlight | Admitted Reservation "nat option" | Kept

definition schedule ::
  "Limits \<Rightarrow> SpoolBudget \<Rightarrow> Admission \<Rightarrow> bool \<Rightarrow> bytes \<Rightarrow> nat \<Rightarrow> (scheduled \<times> SpoolBudget \<times> Admission) res" where
  "schedule L spool a contended i data_size =
     ensure (length i = 32) STR ''invalid pending bundle ID''
     (ensure (data_size < USIZE) STR ''bundle exceeds addressable range''
     (let streamed = is_streamed L a data_size; charge = job_charge streamed data_size in
      ensure (case checked_add USIZE charge MAX_JSON_BYTES of None \<Rightarrow> False | Some bytes \<Rightarrow> bytes \<le> ad_max_scheduled_bytes a)
        STR ''indexing byte budget cannot hold the streaming working set''
      (if i \<in> ad_ids a then Inr (InFlight, spool, a)
       else if streamed \<or> data_size \<le> li_max_memory_data_size L then
         bindE (reserve_scheduled a contended i charge) (\<lambda>(r, a').
         Inr (case r of Some r \<Rightarrow> Admitted r None | None \<Rightarrow> Kept, spool, a'))
       else (case spool_reserve spool data_size of
           Inl _ \<Rightarrow> Inr (Kept, spool, a)
         | Inr spool' \<Rightarrow>
             bindE (reserve_scheduled a contended i charge) (\<lambda>(r, a').
             Inr (case r of
                Some r \<Rightarrow> (Admitted r (Some data_size), spool', a')
              | None \<Rightarrow> (Kept, spool_release spool' data_size, a')))))))"

section \<open>The worker and its steps\<close>

text \<open>
  The admitted jobs are their reservations, the spooled contents the disk space they hold; a content
  may outlive its job.  A pending bundle and a candidate are its id and its size.
\<close>

record Worker =
  wk_admission :: Admission
  wk_spool :: SpoolBudget
  wk_jobs :: "Reservation list"
  wk_spooled :: "nat list"
  wk_cursor :: "BundleScan option"
  wk_page_start :: "BundleScan option"
  wk_sequence :: nat
  wk_pending :: "(bytes \<times> nat) option"
  wk_candidates :: "(bytes \<times> nat) list"

definition worker_new :: "nat \<Rightarrow> nat \<Rightarrow> bool \<Rightarrow> nat \<Rightarrow> BundleScan option \<Rightarrow> Worker res" where
  "worker_new max_bytes max_jobs request_headroom max_spool saved =
     bindE (admission_new max_bytes max_jobs request_headroom) (\<lambda>a.
     Inr \<lparr>wk_admission = a, wk_spool = \<lparr>sb_max_bytes = max_spool, sb_used_bytes = 0\<rparr>, wk_jobs = [], wk_spooled = [],
          wk_cursor = saved, wk_page_start = saved, wk_sequence = 0, wk_pending = None, wk_candidates = []\<rparr>)"

definition idle :: "Worker \<Rightarrow> bool" where
  "idle w \<longleftrightarrow> wk_pending w = None \<and> wk_candidates w = []"

definition take_candidate :: "Worker \<Rightarrow> Worker" where
  "take_candidate w = (case (wk_pending w, wk_candidates w) of
     (None, c # cs) \<Rightarrow> w\<lparr>wk_pending := Some c, wk_candidates := cs\<rparr> | _ \<Rightarrow> w)"

text \<open>The scan notes the page of the bundle whatever became of it.\<close>

definition schedule_pending :: "Limits \<Rightarrow> bool \<Rightarrow> Worker \<Rightarrow> Worker res" where
  "schedule_pending L contended w = (case wk_pending w of
     None \<Rightarrow> Inr w
   | Some (i, n) \<Rightarrow>
       bindE (schedule L (wk_spool w) (wk_admission w) contended i n) (\<lambda>(outcome, spool, a).
       Inr (w\<lparr>wk_admission := track_scan a i (wk_sequence w) (wk_page_start w), wk_spool := spool,
              wk_jobs := (case outcome of Admitted r _ \<Rightarrow> r # wk_jobs w | _ \<Rightarrow> wk_jobs w),
              wk_spooled := (case outcome of Admitted _ (Some bytes) \<Rightarrow> bytes # wk_spooled w | _ \<Rightarrow> wk_spooled w),
              wk_pending := (case outcome of Kept \<Rightarrow> Some (i, n) | _ \<Rightarrow> None)\<rparr>)))"

definition start_scan :: "int \<Rightarrow> Worker \<Rightarrow> Worker" where
  "start_scan height w = (if wk_cursor w = None
     then w\<lparr>wk_cursor := Some \<lparr>bs_boundary = height, bs_live = None, bs_backfill = None\<rparr>\<rparr> else w)"

definition rewind_scan :: "int \<Rightarrow> Worker \<Rightarrow> Worker" where
  "rewind_scan height w = (if idle w
     then w\<lparr>wk_cursor := map_option (\<lambda>scan. rewind_live scan height) (wk_cursor w)\<rparr> else w)"

text \<open>A page with its end cursor, or the end of both scans.\<close>

definition page_found :: "bool \<Rightarrow> BundleCursor \<Rightarrow> (bytes \<times> nat) list \<Rightarrow> Worker \<Rightarrow> Worker" where
  "page_found backfill after roots w = (case wk_cursor w of
     Some cursor \<Rightarrow>
       if idle w
       then w\<lparr>wk_sequence := wk_sequence w + 1, wk_page_start := Some cursor,
              wk_cursor := Some (if backfill then cursor\<lparr>bs_backfill := Some after\<rparr> else cursor\<lparr>bs_live := Some after\<rparr>),
              wk_candidates := roots\<rparr>
       else w
   | None \<Rightarrow> w)"

definition scan_exhausted :: "Worker \<Rightarrow> Worker" where
  "scan_exhausted w = w\<lparr>wk_cursor := map_option (\<lambda>c. c\<lparr>bs_live := None, bs_backfill := None\<rparr>) (wk_cursor w)\<rparr>"

definition checkpoint :: "Worker \<Rightarrow> BundleScan option" where
  "checkpoint w = scan_checkpoint (wk_admission w) (if idle w then wk_cursor w else wk_page_start w)"

definition submit :: "bool \<Rightarrow> bytes \<Rightarrow> nat \<Rightarrow> Worker \<Rightarrow> Worker res" where
  "submit contended i bytes w =
     bindE (reserve (wk_admission w) contended i bytes) (\<lambda>(r, a).
     Inr (w\<lparr>wk_admission := a, wk_jobs := (case r of Some r \<Rightarrow> r # wk_jobs w | None \<Rightarrow> wk_jobs w)\<rparr>))"

definition shrink_job :: "nat \<Rightarrow> nat \<Rightarrow> Worker \<Rightarrow> Worker res" where
  "shrink_job k bytes w =
     bindE (nthE (wk_jobs w) k) (\<lambda>r.
     bindE (shrink (wk_admission w) r bytes) (\<lambda>(r, a).
     Inr (w\<lparr>wk_admission := a, wk_jobs := (wk_jobs w)[k := r]\<rparr>)))"

definition finish_job :: "nat \<Rightarrow> Worker \<Rightarrow> Worker res" where
  "finish_job k w =
     bindE (nthE (wk_jobs w) k) (\<lambda>r.
     bindE (drop_reservation (wk_admission w) r) (\<lambda>a.
     Inr (w\<lparr>wk_admission := a, wk_jobs := take k (wk_jobs w) @ drop (Suc k) (wk_jobs w)\<rparr>)))"

definition drop_spooled :: "nat \<Rightarrow> Worker \<Rightarrow> Worker res" where
  "drop_spooled k w =
     bindE (nthE (wk_spooled w) k) (\<lambda>bytes.
     Inr (w\<lparr>wk_spool := spool_release (wk_spool w) bytes, wk_spooled := take k (wk_spooled w) @ drop (Suc k) (wk_spooled w)\<rparr>))"

inductive worker_step :: "Limits \<Rightarrow> Worker \<Rightarrow> Worker \<Rightarrow> bool" for L where
  candidate: "worker_step L w (take_candidate w)"
| schedule: "schedule_pending L contended w = Inr w' \<Longrightarrow> worker_step L w w'"
| start: "worker_step L w (start_scan height w)"
| rewind: "worker_step L w (rewind_scan height w)"
| page: "worker_step L w (page_found backfill after roots w)"
| exhausted: "idle w \<Longrightarrow> worker_step L w (scan_exhausted w)"
| submit: "submit contended i bytes w = Inr w' \<Longrightarrow> worker_step L w w'"
| shrink: "shrink_job k bytes w = Inr w' \<Longrightarrow> worker_step L w w'"
| finish: "k < length (wk_jobs w) \<Longrightarrow> finish_job k w = Inr w' \<Longrightarrow> worker_step L w w'"
| spooled: "k < length (wk_spooled w) \<Longrightarrow> drop_spooled k w = Inr w' \<Longrightarrow> worker_step L w w'"
| pause: "worker_step L w (w\<lparr>wk_admission := (wk_admission w)\<lparr>ad_paused := paused\<rparr>\<rparr>)"
| close: "worker_step L w (w\<lparr>wk_admission := (wk_admission w)\<lparr>ad_closed := True\<rparr>\<rparr>)"

inductive reachable :: "Limits \<Rightarrow> Worker \<Rightarrow> Worker \<Rightarrow> bool" for L w0 where
  start: "reachable L w0 w0"
| step: "reachable L w0 w \<Longrightarrow> worker_step L w w' \<Longrightarrow> reachable L w0 w'"

end
