(* ===== verification/AdmissionProofs.thy ===== *)
theory AdmissionProofs
  imports Admission
begin

text \<open>
  Properties of the bundle worker: the counters of its admission are those of the reservations that
  are out, no step panics, and the checkpoint of the scan never passes a bundle that is still in
  flight.
\<close>

section \<open>The counters are those of the reservations\<close>

definition admitted :: "Admission \<Rightarrow> Reservation list \<Rightarrow> bool" where
  "admitted a rs \<longleftrightarrow> ad_bytes a = sum_list (map rv_bytes rs)
     \<and> ad_scheduled_bytes a = sum_list (map rv_bytes (filter rv_scheduled rs))
     \<and> ad_scheduled_jobs a = length (filter rv_scheduled rs)
     \<and> ad_ids a = rv_id ` set rs \<and> distinct (map rv_id rs)
     \<and> ad_bytes a \<le> ad_max_bytes a \<and> ad_scheduled_bytes a \<le> ad_max_scheduled_bytes a
     \<and> ad_scheduled_jobs a \<le> ad_max_scheduled_jobs a \<and> length rs \<le> ad_max_jobs a"

definition spool_held :: "SpoolBudget \<Rightarrow> nat list \<Rightarrow> bool" where
  "spool_held b ns \<longleftrightarrow> sb_used_bytes b = sum_list ns \<and> sb_used_bytes b \<le> sb_max_bytes b"

definition limits_ok :: "Admission \<Rightarrow> bool" where
  "limits_ok a \<longleftrightarrow> ad_max_bytes a < USIZE \<and> ad_max_jobs a < USIZE
     \<and> ad_max_scheduled_bytes a \<le> ad_max_bytes a \<and> ad_max_scheduled_jobs a \<le> ad_max_jobs a"

definition same_limits :: "Admission \<Rightarrow> Admission \<Rightarrow> bool" where
  "same_limits a a' \<longleftrightarrow> ad_max_bytes a' = ad_max_bytes a \<and> ad_max_jobs a' = ad_max_jobs a
     \<and> ad_max_scheduled_bytes a' = ad_max_scheduled_bytes a \<and> ad_max_scheduled_jobs a' = ad_max_scheduled_jobs a"

lemma same_limits_refl [simp]: "same_limits a a"
  by (simp add: same_limits_def)

lemma same_limits_ok: "same_limits a a' \<Longrightarrow> limits_ok a \<Longrightarrow> limits_ok a'"
  by (simp add: same_limits_def limits_ok_def)

lemma admitted_card: "admitted a rs \<Longrightarrow> card (ad_ids a) = length rs"
  using distinct_card [of "map rv_id rs"] by (simp add: admitted_def)

lemma reserve_inner_ok:
  assumes "admitted a rs" "limits_ok a"
  shows "\<exists>r a'. reserve_inner a contended i bytes sch = Inr (r, a') \<and> same_limits a a'
    \<and> admitted a' (case r of None \<Rightarrow> rs | Some r \<Rightarrow> r # rs) \<and> ad_scan_cursors a' = ad_scan_cursors a
    \<and> (case r of None \<Rightarrow> a' = a | Some r \<Rightarrow> rv_id r = i \<and> i \<notin> ad_ids a \<and> ad_ids a' = insert i (ad_ids a))"
proof (cases "contended \<or> ad_paused a \<or> ad_closed a \<or> card (ad_ids a) = ad_max_jobs a \<or> i \<in> ad_ids a
    \<or> ad_max_bytes a - ad_bytes a < bytes
    \<or> sch \<and> (ad_max_scheduled_bytes a - ad_scheduled_bytes a < bytes \<or> ad_scheduled_jobs a = ad_max_scheduled_jobs a)")
  case True
  then have "reserve_inner a contended i bytes sch = Inr (None, a)"
    using assms(1) by (auto simp: reserve_inner_def subE_def admitted_def)
  then show ?thesis using assms(1) by simp
next
  case False
  note room = this
  define a' where "a' = a\<lparr>ad_ids := insert i (ad_ids a), ad_bytes := ad_bytes a + bytes,
     ad_scheduled_bytes := ad_scheduled_bytes a + (if sch then bytes else 0),
     ad_scheduled_jobs := ad_scheduled_jobs a + (if sch then 1 else 0)\<rparr>"
  have b: "ad_bytes a + bytes \<le> ad_max_bytes a" "ad_bytes a + bytes < USIZE"
    "sch \<Longrightarrow> ad_scheduled_bytes a + bytes \<le> ad_max_scheduled_bytes a"
    "sch \<Longrightarrow> ad_scheduled_bytes a + bytes < USIZE"
    "sch \<Longrightarrow> ad_scheduled_jobs a + 1 \<le> ad_max_scheduled_jobs a" "sch \<Longrightarrow> ad_scheduled_jobs a + 1 < USIZE"
    using room assms by (auto simp: admitted_def limits_ok_def)
  have "reserve_inner a contended i bytes sch = Inr (Some \<lparr>rv_id = i, rv_bytes = bytes, rv_scheduled = sch\<rparr>, a')"
    using room b assms(1) by (cases sch) (auto simp: reserve_inner_def subE_def addE_def admitted_def a'_def)
  moreover have "length rs < ad_max_jobs a" using room assms(1) admitted_card [OF assms(1)] by (auto simp: admitted_def)
  then have "admitted a' (\<lparr>rv_id = i, rv_bytes = bytes, rv_scheduled = sch\<rparr> # rs)"
    using room assms(1) b by (cases sch) (auto simp: admitted_def a'_def)
  ultimately show ?thesis using room by (auto simp: same_limits_def a'_def)
qed

lemma split_at: "k < length xs \<Longrightarrow> xs = take k xs @ xs ! k # drop (Suc k) xs"
  by (simp add: id_take_nth_drop)

lemma drop_reservation_ok:
  assumes "admitted a rs" and "k < length rs"
  shows "\<exists>a'. drop_reservation a (rs ! k) = Inr a' \<and> same_limits a a' \<and> admitted a' (take k rs @ drop (Suc k) rs)
    \<and> ad_scan_cursors a' = del_key (rv_id (rs ! k)) (ad_scan_cursors a) \<and> ad_ids a' = ad_ids a - {rv_id (rs ! k)}"
proof -
  define r xs ys where "r = rs ! k" and "xs = take k rs" and "ys = drop (Suc k) rs"
  have rs: "rs = xs @ r # ys" using split_at [OF assms(2)] by (simp add: r_def xs_def ys_def)
  define a' where "a' = a\<lparr>ad_ids := ad_ids a - {rv_id r}, ad_scan_cursors := del_key (rv_id r) (ad_scan_cursors a),
     ad_bytes := ad_bytes a - rv_bytes r, ad_scheduled_bytes := ad_scheduled_bytes a - (if rv_scheduled r then rv_bytes r else 0),
     ad_scheduled_jobs := ad_scheduled_jobs a - (if rv_scheduled r then 1 else 0)\<rparr>"
  have "drop_reservation a r = Inr a'"
    using assms(1) unfolding rs by (auto simp: drop_reservation_def admitted_def subE_def a'_def)
  moreover have "admitted a' (xs @ ys)"
    using assms(1) unfolding rs by (cases "rv_scheduled r") (auto simp: admitted_def a'_def, (metis image_eqI)+)
  ultimately show ?thesis unfolding r_def [symmetric] xs_def [symmetric] ys_def [symmetric]
    by (auto simp: a'_def same_limits_def)
qed

lemma shrink_ok:
  assumes "admitted a rs" and "k < length rs" and "bytes \<le> rv_bytes (rs ! k)"
  shows "\<exists>r' a'. shrink a (rs ! k) bytes = Inr (r', a') \<and> same_limits a a' \<and> admitted a' (rs[k := r'])
    \<and> ad_scan_cursors a' = ad_scan_cursors a \<and> ad_ids a' = ad_ids a"
proof -
  define r xs ys where "r = rs ! k" and "xs = take k rs" and "ys = drop (Suc k) rs"
  have rs: "rs = xs @ r # ys" and k: "k = length xs"
    using split_at [OF assms(2)] assms(2) by (simp_all add: r_def xs_def ys_def)
  define r' where "r' = r\<lparr>rv_bytes := bytes\<rparr>"
  define a' where "a' = a\<lparr>ad_bytes := ad_bytes a - (rv_bytes r - bytes),
     ad_scheduled_bytes := ad_scheduled_bytes a - (if rv_scheduled r then rv_bytes r - bytes else 0)\<rparr>"
  have bytes: "bytes \<le> rv_bytes r" using assms(3) by (simp add: r_def)
  have s: "shrink a r bytes = Inr (r', a')"
    using assms(1) bytes unfolding rs by (auto simp: shrink_def admitted_def subE_def a'_def r'_def)
  have u: "rs[k := r'] = xs @ r' # ys" using rs k by simp
  have "admitted a' (xs @ r' # ys)"
    using assms(1) bytes unfolding rs by (auto simp: admitted_def a'_def r'_def image_Un)
  then show ?thesis using s unfolding r_def [symmetric]
    by (intro exI [of _ r'] exI [of _ a']) (simp add: u, simp add: a'_def same_limits_def)
qed

lemma spool_reserve_ok: "spool_held b ns \<Longrightarrow> spool_reserve b n = Inr b' \<Longrightarrow>
    spool_held b' (n # ns) \<and> sb_max_bytes b' = sb_max_bytes b"
  by (auto simp: spool_reserve_def spool_held_def checked_add_def split: if_splits)

lemma spool_release_ok:
  assumes "spool_held b ns" "sb_max_bytes b < USIZE" "k < length ns"
  shows "spool_held (spool_release b (ns ! k)) (take k ns @ drop (Suc k) ns)
    \<and> sb_max_bytes (spool_release b (ns ! k)) = sb_max_bytes b"
proof -
  define n xs ys where "n = ns ! k" and "xs = take k ns" and "ys = drop (Suc k) ns"
  have ns: "ns = xs @ n # ys" using split_at [OF assms(3)] by (simp add: n_def xs_def ys_def)
  have u: "n \<le> sb_used_bytes b" "sb_used_bytes b < USIZE" using assms(1,2) unfolding ns by (auto simp: spool_held_def)
  then have "(sb_used_bytes b + (USIZE - n)) mod USIZE = sb_used_bytes b - n"
    by (metis Nat.add_diff_assoc Nat.diff_add_assoc2 less_imp_diff_less less_imp_le mod_add_self2 mod_less order.strict_trans1)
  then show ?thesis using assms(1) unfolding n_def [symmetric] xs_def [symmetric] ys_def [symmetric] unfolding ns
    by (auto simp: spool_held_def spool_release_def)
qed

text \<open>The outcome of scheduling.\<close>

lemma schedule_ok:
  assumes "admitted a rs" "limits_ok a" "spool_held b ns" "sb_max_bytes b < USIZE"
  shows "schedule L b a contended i n \<noteq> Inl Panic \<and> (\<forall>out b' a'. schedule L b a contended i n = Inr (out, b', a') \<longrightarrow>
      same_limits a a' \<and> sb_max_bytes b' = sb_max_bytes b \<and> ad_scan_cursors a' = ad_scan_cursors a
      \<and> admitted a' (case out of Admitted r _ \<Rightarrow> r # rs | _ \<Rightarrow> rs)
      \<and> spool_held b' (case out of Admitted _ (Some m) \<Rightarrow> m # ns | _ \<Rightarrow> ns)
      \<and> (case out of Admitted r _ \<Rightarrow> i \<notin> ad_ids a \<and> ad_ids a' = insert i (ad_ids a) | InFlight \<Rightarrow> i \<in> ad_ids a \<and> a' = a
         | Kept \<Rightarrow> i \<notin> ad_ids a \<and> a' = a))"
proof -
  define streamed charge where "streamed = is_streamed L a n" and "charge = job_charge streamed n"
  have res: "\<exists>r a'. reserve_scheduled a contended i charge = Inr (r, a') \<and> same_limits a a'
    \<and> admitted a' (case r of None \<Rightarrow> rs | Some r \<Rightarrow> r # rs) \<and> ad_scan_cursors a' = ad_scan_cursors a
    \<and> (case r of None \<Rightarrow> a' = a | Some r \<Rightarrow> rv_id r = i \<and> i \<notin> ad_ids a \<and> ad_ids a' = insert i (ad_ids a))"
    using reserve_inner_ok [OF assms(1,2)] assms(1) by (auto simp: reserve_scheduled_def split: option.splits)
  then obtain r a' where r: "reserve_scheduled a contended i charge = Inr (r, a')" "same_limits a a'"
    "admitted a' (case r of None \<Rightarrow> rs | Some r \<Rightarrow> r # rs)" "ad_scan_cursors a' = ad_scan_cursors a"
    "case r of None \<Rightarrow> a' = a | Some r \<Rightarrow> rv_id r = i \<and> i \<notin> ad_ids a \<and> ad_ids a' = insert i (ad_ids a)" by blast
  have sp: "spool_held b' (n # ns) \<and> spool_held (spool_release b' n) ns \<and> sb_max_bytes b' = sb_max_bytes b
      \<and> sb_max_bytes (spool_release b' n) = sb_max_bytes b" if "spool_reserve b n = Inr b'" for b'
    using spool_reserve_ok [OF assms(3) that] spool_release_ok [of b' "n # ns" 0] assms(4) by simp
  define budget where "budget = (case checked_add USIZE charge MAX_JSON_BYTES of None \<Rightarrow> False
    | Some bytes \<Rightarrow> bytes \<le> ad_max_scheduled_bytes a)"
  have sch: "schedule L b a contended i n = ensure (length i = 32) STR ''invalid pending bundle ID''
     (ensure (n < USIZE) STR ''bundle exceeds addressable range''
     (ensure budget STR ''indexing byte budget cannot hold the streaming working set''
      (if i \<in> ad_ids a then Inr (InFlight, b, a)
       else if streamed \<or> n \<le> li_max_memory_data_size L then Inr (case r of Some r \<Rightarrow> Admitted r None | None \<Rightarrow> Kept, b, a')
       else (case spool_reserve b n of
           Inl _ \<Rightarrow> Inr (Kept, b, a)
         | Inr b' \<Rightarrow> Inr (case r of
                Some r \<Rightarrow> (Admitted r (Some n), b', a') | None \<Rightarrow> (Kept, spool_release b' n, a'))))))"
    unfolding schedule_def Let_def streamed_def [symmetric] charge_def [symmetric] budget_def [symmetric] r(1)
    by (cases "spool_reserve b n") simp_all
  consider "i \<in> ad_ids a" | "i \<notin> ad_ids a" "streamed \<or> n \<le> li_max_memory_data_size L"
    | "i \<notin> ad_ids a" "\<not> (streamed \<or> n \<le> li_max_memory_data_size L)" by blast
  then show ?thesis
  proof cases
    case 1
    then show ?thesis unfolding sch using assms by simp
  next
    case 2
    then show ?thesis unfolding sch using assms r by (cases r) simp_all
  next
    case 3
    show ?thesis
    proof (cases "spool_reserve b n")
      case (Inl e)
      then show ?thesis unfolding sch using assms 3 by simp
    next
      case (Inr b')
      then show ?thesis unfolding sch using assms 3 r sp [OF Inr] by (cases r) simp_all
    qed
  qed
qed

definition worker_ok :: "Worker \<Rightarrow> bool" where
  "worker_ok w \<longleftrightarrow> limits_ok (wk_admission w) \<and> sb_max_bytes (wk_spool w) < USIZE
     \<and> admitted (wk_admission w) (wk_jobs w) \<and> spool_held (wk_spool w) (wk_spooled w)"

lemma admitted_track [simp]: "admitted (track_scan a i s c) rs \<longleftrightarrow> admitted a rs"
  by (simp add: track_scan_def admitted_def)

lemma limits_track [simp]: "limits_ok (track_scan a i s c) \<longleftrightarrow> limits_ok a"
  by (simp add: track_scan_def limits_ok_def)

lemma ids_track [simp]: "ad_ids (track_scan a i s c) = ad_ids a"
  by (simp add: track_scan_def)

lemma worker_step_ok:
  assumes "worker_step L w w'" and "worker_ok w"
  shows "worker_ok w'"
  using assms(1)
proof cases
  case candidate
  then show ?thesis using assms(2) by (simp add: take_candidate_def worker_ok_def split: option.splits list.splits)
next
  case (schedule contended)
  show ?thesis
  proof (cases "wk_pending w")
    case None
    then show ?thesis using schedule assms(2) by (simp add: schedule_pending_def)
  next
    case (Some p)
    obtain i n where p: "p = (i, n)" by (cases p)
    obtain out b a where s: "schedule L (wk_spool w) (wk_admission w) contended i n = Inr (out, b, a)"
      and w': "w' = w\<lparr>wk_admission := track_scan a i (wk_sequence w) (wk_page_start w), wk_spool := b,
              wk_jobs := (case out of Admitted r _ \<Rightarrow> r # wk_jobs w | _ \<Rightarrow> wk_jobs w),
              wk_spooled := (case out of Admitted _ (Some bytes) \<Rightarrow> bytes # wk_spooled w | _ \<Rightarrow> wk_spooled w),
              wk_pending := (case out of Kept \<Rightarrow> Some (i, n) | _ \<Rightarrow> None)\<rparr>"
      using schedule Some p by (auto simp: schedule_pending_def bindE_eq_Inr)
    have "same_limits (wk_admission w) a \<and> sb_max_bytes b = sb_max_bytes (wk_spool w)
      \<and> admitted a (case out of Admitted r _ \<Rightarrow> r # wk_jobs w | _ \<Rightarrow> wk_jobs w)
      \<and> spool_held b (case out of Admitted _ (Some m) \<Rightarrow> m # wk_spooled w | _ \<Rightarrow> wk_spooled w)"
      using schedule_ok [of "wk_admission w" "wk_jobs w" "wk_spool w" "wk_spooled w" L contended i n] s assms(2)
      unfolding worker_ok_def by blast
    then show ?thesis using assms(2) same_limits_ok [of "wk_admission w" a] unfolding w' worker_ok_def by simp
  qed
next
  case (submit contended i bytes)
  then show ?thesis
    using reserve_inner_ok [of "wk_admission w" "wk_jobs w" contended i bytes False] assms(2) same_limits_ok
    by (auto simp: submit_def reserve_def worker_ok_def)
next
  case (shrink k bytes)
  then have k: "k < length (wk_jobs w)" "bytes \<le> rv_bytes (wk_jobs w ! k)"
    by (auto simp: shrink_job_def res_simps shrink_def split: if_splits)
  from shrink_ok [OF _ this] shrink assms(2) same_limits_ok show ?thesis
    by (fastforce simp: shrink_job_def worker_ok_def k)
next
  case (finish k)
  from drop_reservation_ok [OF _ finish(1)] finish assms(2) same_limits_ok show ?thesis
    by (fastforce simp: finish_job_def worker_ok_def)
next
  case (spooled k)
  then show ?thesis using spool_release_ok [OF _ _ spooled(1)] assms(2) by (auto simp: drop_spooled_def worker_ok_def)
qed (use assms(2) in \<open>auto simp: worker_ok_def start_scan_def rewind_scan_def page_found_def scan_exhausted_def
      admitted_def limits_ok_def split: option.splits\<close>)

lemma worker_new_ok:
  assumes "worker_new max_bytes max_jobs headroom max_spool saved = Inr w"
    and "max_bytes < USIZE" "max_jobs < USIZE" "max_spool < USIZE"
  shows "worker_ok w \<and> wk_sequence w = 0 \<and> wk_page_start w = saved \<and> wk_cursor w = saved \<and> idle w
    \<and> ad_scan_cursors (wk_admission w) = []"
  using assms by (auto simp: worker_new_def admission_new_def worker_ok_def limits_ok_def admitted_def spool_held_def
      idle_def res_simps split: if_splits)

lemma reachable_ok:
  assumes "reachable L w0 w" and "worker_ok w0"
  shows "worker_ok w"
  using assms by (induction rule: reachable.induct) (auto intro: worker_step_ok)

lemma worker_no_panic:
  assumes "worker_ok w"
  shows "schedule_pending L contended w \<noteq> Inl Panic" "submit contended i bytes w \<noteq> Inl Panic"
    "k < length (wk_jobs w) \<Longrightarrow> shrink_job k bytes w \<noteq> Inl Panic"
    "k < length (wk_jobs w) \<Longrightarrow> \<exists>w'. finish_job k w = Inr w'"
proof -
  have a: "admitted (wk_admission w) (wk_jobs w)" "limits_ok (wk_admission w)" "spool_held (wk_spool w) (wk_spooled w)"
    "sb_max_bytes (wk_spool w) < USIZE" using assms by (simp_all add: worker_ok_def)
  show "schedule_pending L contended w \<noteq> Inl Panic"
    using schedule_ok [OF a, of L contended] by (auto simp: schedule_pending_def bindE_eq_Inl split: option.splits)
  show "submit contended i bytes w \<noteq> Inl Panic"
    using reserve_inner_ok [OF a(1,2), of contended i bytes False] by (auto simp: submit_def reserve_def bindE_eq_Inl)
  show "k < length (wk_jobs w) \<Longrightarrow> shrink_job k bytes w \<noteq> Inl Panic"
    using shrink_ok [OF a(1), of k bytes] by (cases "bytes \<le> rv_bytes (wk_jobs w ! k)") (auto simp: shrink_job_def, simp add: shrink_def)
  show "k < length (wk_jobs w) \<Longrightarrow> \<exists>w'. finish_job k w = Inr w'"
    using drop_reservation_ok [OF a(1), of k] by (auto simp: finish_job_def)
qed

text \<open>C23. Admission is exact: after any interleaving of the worker's steps the counters of jobs and bytes are those of the
  reservations that are out, within every limit, each id at most once, and the disk space those of the spooled
  contents; no step of the bookkeeping panics, every reservation can be given back, and when the last one is,
  nothing is left charged.\<close>

theorem admission_exact:
  assumes "worker_new max_bytes max_jobs headroom max_spool saved = Inr w0"
    and "max_bytes < USIZE" and "max_jobs < USIZE" and "max_spool < USIZE" and "reachable L w0 w"
  shows "admitted (wk_admission w) (wk_jobs w) \<and> spool_held (wk_spool w) (wk_spooled w)
    \<and> schedule_pending L contended w \<noteq> Inl Panic \<and> submit contended i bytes w \<noteq> Inl Panic
    \<and> (\<forall>k < length (wk_jobs w). shrink_job k bytes w \<noteq> Inl Panic \<and> (\<exists>w'. finish_job k w = Inr w'))
    \<and> (wk_jobs w = [] \<longrightarrow> ad_bytes (wk_admission w) = 0 \<and> ad_scheduled_bytes (wk_admission w) = 0
        \<and> ad_scheduled_jobs (wk_admission w) = 0 \<and> ad_ids (wk_admission w) = {})"
proof -
  have w: "worker_ok w" using reachable_ok [OF assms(5)] worker_new_ok [OF assms(1-4)] by blast
  then show ?thesis using worker_no_panic [OF w] by (auto simp: worker_ok_def admitted_def)
qed

section \<open>The checkpoint of the scan\<close>

text \<open>
  The starts of the pages so far, by sequence number, and the bundles of the scan in flight: processed,
  their id not released since, with the sequence of the page that listed them.
\<close>

definition note_start :: "Worker \<Rightarrow> Worker \<Rightarrow> BundleScan option list \<Rightarrow> BundleScan option list" where
  "note_start w w' starts = (if wk_sequence w' = wk_sequence w then starts else starts @ [wk_page_start w'])"

definition note_flight :: "Worker \<Rightarrow> Worker \<Rightarrow> (bytes \<times> nat) list \<Rightarrow> (bytes \<times> nat) list" where
  "note_flight w w' flight =
     filter (\<lambda>(i, s). i \<in> ad_ids (wk_admission w'))
       (case (wk_pending w, wk_pending w') of
          (Some (i, n), None) \<Rightarrow> (i, wk_sequence w) # flight
        | _ \<Rightarrow> flight)"

inductive scan_run :: "Limits \<Rightarrow> Worker \<Rightarrow> Worker \<Rightarrow> BundleScan option list \<Rightarrow> (bytes \<times> nat) list \<Rightarrow> bool" for L w0 where
  start: "scan_run L w0 w0 [wk_page_start w0] []"
| step: "scan_run L w0 w starts flight \<Longrightarrow> worker_step L w w' \<Longrightarrow>
    scan_run L w0 w' (note_start w w' starts) (note_flight w w' flight)"

definition scan_ok :: "Worker \<Rightarrow> BundleScan option list \<Rightarrow> (bytes \<times> nat) list \<Rightarrow> bool" where
  "scan_ok w starts flight \<longleftrightarrow> length starts = Suc (wk_sequence w) \<and> starts ! wk_sequence w = wk_page_start w
     \<and> (\<forall>(i, s) \<in> set flight. s \<le> wk_sequence w \<and> i \<in> ad_ids (wk_admission w)
          \<and> (\<exists>s' c. (i, s', c) \<in> set (ad_scan_cursors (wk_admission w)) \<and> s' \<le> s))
     \<and> (\<forall>(i, s, c) \<in> set (ad_scan_cursors (wk_admission w)). s \<le> wk_sequence w \<and> c = starts ! s \<and> i \<in> fst ` set flight)
     \<and> distinct (map fst (ad_scan_cursors (wk_admission w)))"

lemma note_same:
  assumes "scan_ok w starts flight"
    and "wk_sequence w' = wk_sequence w" "wk_page_start w' = wk_page_start w" "wk_pending w = None \<or> wk_pending w' = wk_pending w"
    and "ad_scan_cursors (wk_admission w') = ad_scan_cursors (wk_admission w)"
    and "ad_ids (wk_admission w) \<subseteq> ad_ids (wk_admission w')"
  shows "scan_ok w' (note_start w w' starts) (note_flight w w' flight)"
proof -
  have "filter (\<lambda>(i, s). i \<in> ad_ids (wk_admission w')) flight = flight"
    using assms(1,6) by (auto simp: scan_ok_def intro!: filter_True)
  then have "note_flight w w' flight = flight"
    using assms(4) by (auto simp: note_flight_def split: option.splits)
  then show ?thesis using assms(1,2,3,5,6) by (auto simp: scan_ok_def note_start_def)
qed

lemma put_key_set: "set (put_key k e es) = insert (k, e) {x \<in> set es. fst x \<noteq> k}"
  by (auto simp: put_key_def del_key_def)

lemma del_key_distinct [simp]: "distinct (map fst es) \<Longrightarrow> distinct (map fst (del_key k es))"
  by (simp add: del_key_def distinct_map_filter)

lemma put_key_distinct: "distinct (map fst es) \<Longrightarrow> distinct (map fst (put_key k e es))"
  by (auto simp: put_key_def distinct_map_filter del_key_def)

text \<open>A processed bundle is tracked with its page, or an earlier one.\<close>

lemma track_scan_ok:
  assumes "scan_ok w starts flight" and "i \<in> ad_ids a" and "ad_ids (wk_admission w) \<subseteq> ad_ids a"
    and "ad_scan_cursors a = ad_scan_cursors (wk_admission w)"
    and w': "wk_admission w' = track_scan a i (wk_sequence w) (wk_page_start w)" "wk_sequence w' = wk_sequence w"
      "wk_page_start w' = wk_page_start w"
  shows "scan_ok w' starts ((i, wk_sequence w) # flight)"
proof -
  let ?es = "ad_scan_cursors (wk_admission w)"
  have d: "distinct (map fst ?es)" and old: "\<forall>(i, s, c) \<in> set ?es. s \<le> wk_sequence w \<and> c = starts ! s \<and> i \<in> fst ` set flight"
    and fl: "\<forall>(i, s) \<in> set flight. s \<le> wk_sequence w \<and> i \<in> ad_ids (wk_admission w)
          \<and> (\<exists>s' c. (i, s', c) \<in> set ?es \<and> s' \<le> s)"
    and st: "length starts = Suc (wk_sequence w)" "starts ! wk_sequence w = wk_page_start w"
    using assms(1) by (simp_all add: scan_ok_def)
  have seq: "\<not> wk_sequence w < s" if "map_of ?es i = Some (s, c)" for s c
    using old map_of_SomeD [OF that] by force
  define es' where "es' = (case map_of ?es i of Some (saved, _) \<Rightarrow> ?es | None \<Rightarrow> put_key i (wk_sequence w, wk_page_start w) ?es)"
  have e: "ad_scan_cursors (wk_admission w') = es'" "ad_ids (wk_admission w') = ad_ids a"
    using assms(2,4) seq by (auto simp: w'(1) track_scan_def es'_def split: option.splits)
  have fresh: "(if map_of ?es i = None then i \<notin> fst ` set ?es else \<exists>s c. (i, s, c) \<in> set ?es \<and> s \<le> wk_sequence w)"
  proof (cases "map_of ?es i")
    case None
    then show ?thesis by (simp add: map_of_eq_None_iff)
  next
    case (Some x)
    then have "(i, fst x, snd x) \<in> set ?es" by (simp add: map_of_SomeD)
    moreover from this have "fst x \<le> wk_sequence w" using old by blast
    ultimately show ?thesis using Some by (cases x) auto
  qed
  show ?thesis
  proof (cases "map_of ?es i")
    case None
    then have es': "es' = put_key i (wk_sequence w, wk_page_start w) ?es" and ni: "i \<notin> fst ` set ?es"
      using fresh by (simp_all add: es'_def)
    have set': "set es' = insert (i, wk_sequence w, wk_page_start w) (set ?es)"
      unfolding es' put_key_set using ni by force
    have "distinct (map fst es')" unfolding es' by (rule put_key_distinct [OF d])
    then show ?thesis using old fl st set' assms(2,3) unfolding scan_ok_def e w'(2,3) by fastforce
  next
    case (Some x)
    then have "es' = ?es" by (cases x) (simp add: es'_def)
    then show ?thesis using old fl st d fresh Some assms(2,3) unfolding scan_ok_def e w'(2,3) by fastforce
  qed
qed

lemma worker_step_scan:
  assumes "worker_step L w w'" and ok: "worker_ok w" and scan: "scan_ok w starts flight"
  shows "scan_ok w' (note_start w w' starts) (note_flight w w' flight)"
  using assms(1)
proof cases
  case candidate
  show ?thesis unfolding candidate
    by (rule note_same [OF scan]) (auto simp: take_candidate_def split: option.splits list.splits)
next
  case (schedule contended)
  show ?thesis
  proof (cases "wk_pending w")
    case None
    then have "w' = w" using schedule by (simp add: schedule_pending_def)
    then show ?thesis by (intro note_same [OF scan]) auto
  next
    case (Some p)
    obtain i n where p: "p = (i, n)" by (cases p)
    obtain out b a where s: "schedule L (wk_spool w) (wk_admission w) contended i n = Inr (out, b, a)"
      and w': "w' = w\<lparr>wk_admission := track_scan a i (wk_sequence w) (wk_page_start w), wk_spool := b,
              wk_jobs := (case out of Admitted r _ \<Rightarrow> r # wk_jobs w | _ \<Rightarrow> wk_jobs w),
              wk_spooled := (case out of Admitted _ (Some bytes) \<Rightarrow> bytes # wk_spooled w | _ \<Rightarrow> wk_spooled w),
              wk_pending := (case out of Kept \<Rightarrow> Some (i, n) | _ \<Rightarrow> None)\<rparr>"
      using schedule Some p by (auto simp: schedule_pending_def bindE_eq_Inr)
    have out: "ad_scan_cursors a = ad_scan_cursors (wk_admission w)"
      "case out of Admitted r _ \<Rightarrow> i \<notin> ad_ids (wk_admission w) \<and> ad_ids a = insert i (ad_ids (wk_admission w))
         | InFlight \<Rightarrow> i \<in> ad_ids (wk_admission w) \<and> a = wk_admission w | Kept \<Rightarrow> i \<notin> ad_ids (wk_admission w) \<and> a = wk_admission w"
      using schedule_ok [of "wk_admission w" "wk_jobs w" "wk_spool w" "wk_spooled w" L contended i n] s ok
      unfolding worker_ok_def by blast+
    show ?thesis
    proof (cases "out = Kept")
      case True
      then have "track_scan a i (wk_sequence w) (wk_page_start w) = wk_admission w" using out by (simp add: track_scan_def)
      then show ?thesis unfolding w' using True Some p by (intro note_same [OF scan]) auto
    next
      case False
      then have ids: "i \<in> ad_ids a" "ad_ids (wk_admission w) \<subseteq> ad_ids a" using out(2) by (cases out; auto)+
      have "scan_ok w' starts ((i, wk_sequence w) # flight)"
        by (rule track_scan_ok [OF scan ids out(1)]) (simp_all add: w')
      moreover have "filter (\<lambda>(j, s). j \<in> ad_ids a) flight = flight"
        using scan ids by (intro filter_True) (auto simp: scan_ok_def)
      then have "note_flight w w' flight = (i, wk_sequence w) # flight"
        using False Some p ids by (cases out) (simp_all add: note_flight_def w')
      moreover have "note_start w w' starts = starts" by (simp add: note_start_def w')
      ultimately show ?thesis by simp
    qed
  qed
next
  case (start height)
  show ?thesis unfolding start by (rule note_same [OF scan]) (simp_all add: start_scan_def)
next
  case (rewind height)
  show ?thesis unfolding rewind by (rule note_same [OF scan]) (simp_all add: rewind_scan_def)
next
  case (page backfill after roots)
  show ?thesis
  proof (cases "wk_cursor w")
    case None
    then show ?thesis unfolding page by (intro note_same [OF scan]) (simp_all add: page_found_def)
  next
    case (Some cursor)
    show ?thesis
    proof (cases "idle w")
      case False
      then show ?thesis unfolding page using Some by (intro note_same [OF scan]) (simp_all add: page_found_def)
    next
      case True
      have f: "note_flight w w' flight = flight"
        using True Some scan unfolding page
        by (auto simp: note_flight_def page_found_def idle_def scan_ok_def intro!: filter_True)
      have "note_start w w' starts = starts @ [Some cursor]"
        using True Some unfolding page by (simp add: note_start_def page_found_def)
      then show ?thesis unfolding f using scan True Some unfolding page
        by (fastforce simp: scan_ok_def page_found_def nth_append le_Suc_eq)
    qed
  qed
next
  case exhausted
  show ?thesis unfolding exhausted by (rule note_same [OF scan]) (simp_all add: scan_exhausted_def)
next
  case (submit contended i bytes)
  then show ?thesis
    using reserve_inner_ok [of "wk_admission w" "wk_jobs w" contended i bytes False] ok
    by (intro note_same [OF scan]) (auto simp: submit_def reserve_def worker_ok_def split: option.splits)
next
  case (shrink k bytes)
  then have k: "k < length (wk_jobs w)" "bytes \<le> rv_bytes (wk_jobs w ! k)"
    by (auto simp: shrink_job_def res_simps shrink_def split: if_splits)
  from shrink_ok [OF _ this] shrink ok show ?thesis
    by (intro note_same [OF scan]) (fastforce simp: shrink_job_def worker_ok_def k)+
next
  case (finish k)
  define j where "j = rv_id (wk_jobs w ! k)"
  obtain a where a: "w' = w\<lparr>wk_admission := a, wk_jobs := take k (wk_jobs w) @ drop (Suc k) (wk_jobs w)\<rparr>"
    "ad_scan_cursors a = del_key j (ad_scan_cursors (wk_admission w))" "ad_ids a = ad_ids (wk_admission w) - {j}"
  proof -
    obtain a where d: "drop_reservation (wk_admission w) (wk_jobs w ! k) = Inr a"
      "ad_scan_cursors a = del_key j (ad_scan_cursors (wk_admission w))" "ad_ids a = ad_ids (wk_admission w) - {j}"
      using drop_reservation_ok [OF _ finish(1), of "wk_admission w"] ok unfolding worker_ok_def j_def by blast
    then show thesis using finish by (intro that [of a]) (simp_all add: finish_job_def)
  qed
  have f: "note_flight w w' flight = filter (\<lambda>(i, s). i \<noteq> j) flight"
    using scan by (auto simp: note_flight_def a scan_ok_def split: option.splits intro!: filter_cong)
  have "note_start w w' starts = starts" by (simp add: note_start_def a)
  moreover have "scan_ok w' starts (filter (\<lambda>(i, s). i \<noteq> j) flight)"
    unfolding scan_ok_def
  proof (intro conjI ballI)
    fix x assume "x \<in> set (filter (\<lambda>(i, s). i \<noteq> j) flight)"
    then show "case x of (i, s) \<Rightarrow> s \<le> wk_sequence w' \<and> i \<in> ad_ids (wk_admission w')
        \<and> (\<exists>s' c. (i, s', c) \<in> set (ad_scan_cursors (wk_admission w')) \<and> s' \<le> s)"
      using scan by (fastforce simp: scan_ok_def a del_key_def)
  next
    fix x assume "x \<in> set (ad_scan_cursors (wk_admission w'))"
    then have x: "x \<in> set (ad_scan_cursors (wk_admission w))" "fst x \<noteq> j" by (auto simp: a del_key_def)
    then show "case x of (i, s, c) \<Rightarrow> s \<le> wk_sequence w' \<and> c = starts ! s \<and> i \<in> fst ` set (filter (\<lambda>(i, s). i \<noteq> j) flight)"
      using scan by (force simp: scan_ok_def a)
  qed (use scan in \<open>simp_all add: scan_ok_def a\<close>)
  ultimately show ?thesis unfolding f by simp
next
  case (spooled k)
  then show ?thesis by (intro note_same [OF scan]) (auto simp: drop_spooled_def)
next
  case (pause paused)
  show ?thesis unfolding pause by (rule note_same [OF scan]) simp_all
next
  case close
  show ?thesis unfolding close by (rule note_same [OF scan]) simp_all
qed

lemma scan_run_ok:
  assumes "scan_run L w0 w starts flight" and "worker_ok w0" "wk_sequence w0 = 0" "ad_scan_cursors (wk_admission w0) = []"
  shows "worker_ok w \<and> scan_ok w starts flight"
  using assms
proof (induction rule: scan_run.induct)
  case start
  then show ?case by (simp add: scan_ok_def)
next
  case (step w starts flight w')
  then show ?case using worker_step_ok worker_step_scan by blast
qed

text \<open>Where the scan stands: its cursor, or the start of a page that is not worked off.\<close>

definition scan_position :: "Worker \<Rightarrow> BundleScan option" where
  "scan_position w = (if idle w then wk_cursor w else wk_page_start w)"

text \<open>
  A cursor that resumes at the start of a page: its boundary and its backfill are those of the page, its live part is
  the earlier of the page's and the scan's, which a rewind may have set back.
\<close>

definition resumes :: "BundleScan option \<Rightarrow> BundleScan option \<Rightarrow> BundleScan option \<Rightarrow> bool" where
  "resumes start now saved = (case start of
     None \<Rightarrow> saved = None
   | Some c \<Rightarrow> (\<exists>live. saved = Some (c\<lparr>bs_live := live\<rparr>)
       \<and> map_option cursor_key live = (case now of
            None \<Rightarrow> map_option cursor_key (bs_live c)
          | Some b \<Rightarrow> min (map_option cursor_key (bs_live c)) (map_option cursor_key (bs_live b)))))"

lemma resumes_self: "resumes start None start"
  by (cases start) (auto simp: resumes_def intro!: exI [of _ "bs_live (the start)"])

lemma resumes_earlier:
  "resumes (Some c) (Some b) (Some (if live_before b c then c\<lparr>bs_live := bs_live b\<rparr> else c))"
proof (cases "live_before b c")
  case True
  then show ?thesis by (auto simp: resumes_def live_before_def min_def intro!: exI [of _ "bs_live b"])
next
  case False
  then show ?thesis by (auto simp: resumes_def live_before_def min_def not_less intro!: exI [of _ "bs_live c"])
qed

lemma resumes_checkpoint:
  "resumes (case oldest fst (ad_scan_cursors a) of Some (_, _, cursor) \<Rightarrow> cursor | None \<Rightarrow> boundary) boundary (scan_checkpoint a boundary)"
proof -
  define cp where "cp = (case oldest fst (ad_scan_cursors a) of Some (_, _, cursor) \<Rightarrow> cursor | None \<Rightarrow> boundary)"
  have r: "scan_checkpoint a boundary = (case (cp, boundary) of
      (Some cp, Some b) \<Rightarrow> Some (if live_before b cp then cp\<lparr>bs_live := bs_live b\<rparr> else cp) | _ \<Rightarrow> cp)"
    unfolding scan_checkpoint_def Let_def cp_def [symmetric] ..
  have "resumes None now None" for now by (simp add: resumes_def)
  then show ?thesis
    unfolding r cp_def [symmetric] by (cases cp; cases boundary) (simp_all add: resumes_self resumes_earlier del: if_split)
qed

text \<open>C24. The checkpoint of the scan loses no bundle: whatever is saved while downloads, request jobs, new pages, rewinds and
  releases interleave, for each bundle of a scanned page that is not processed yet, or whose job is still out, the
  saved cursor resumes at the start of a page no later than its own, its live part the earlier of that page's and of
  where the scan stands; and with nothing in flight exactly where the scan stands is saved: its cursor, or the start of
  the page it has not worked off.\<close>

theorem scan_checkpoint_covers:
  assumes "worker_new max_bytes max_jobs headroom max_spool saved = Inr w0"
    and "max_bytes < USIZE" and "max_jobs < USIZE" and "max_spool < USIZE"
    and "scan_run L w0 w starts flight"
  shows "(\<forall>(i, page) \<in> set flight. \<exists>j \<le> page. j < length starts \<and> resumes (starts ! j) (scan_position w) (checkpoint w))
    \<and> (\<not> idle w \<longrightarrow> (\<exists>j \<le> wk_sequence w. j < length starts \<and> resumes (starts ! j) (scan_position w) (checkpoint w)))
    \<and> (flight = [] \<longrightarrow> checkpoint w = scan_position w)"
proof -
  have new: "worker_ok w0 \<and> wk_sequence w0 = 0 \<and> ad_scan_cursors (wk_admission w0) = []"
    using worker_new_ok [OF assms(1-4)] by blast
  then have ok: "scan_ok w starts flight" using scan_run_ok [OF assms(5)] by blast
  let ?es = "ad_scan_cursors (wk_admission w)" and ?now = "scan_position w"
  note r = resumes_checkpoint [where a = "wk_admission w" and boundary = ?now, unfolded scan_position_def, folded checkpoint_def scan_position_def]
  have first: "\<exists>j \<le> s. j < length starts \<and> resumes (starts ! j) ?now (checkpoint w)" if e: "(i, s, c) \<in> set ?es" for i s c
  proof -
    obtain i' s' c' where m: "oldest fst ?es = Some (i', s', c')" using e by (cases "oldest fst ?es") (auto simp: oldest_None)
    have "s' \<le> s" using oldest_min [OF m e] by simp
    moreover have "c' = starts ! s'" "s' \<le> wk_sequence w" using ok oldest_in [OF m] by (auto simp: scan_ok_def)
    ultimately show ?thesis using r ok m by (intro exI [of _ s']) (simp add: scan_ok_def)
  qed
  have "\<exists>j \<le> page. j < length starts \<and> resumes (starts ! j) ?now (checkpoint w)" if "(i, page) \<in> set flight" for i page
  proof -
    obtain s' c where "(i, s', c) \<in> set ?es" "s' \<le> page" using ok \<open>(i, page) \<in> set flight\<close> by (fastforce simp: scan_ok_def)
    from first [OF this(1)] this(2) show ?thesis by (meson le_trans)
  qed
  moreover have "\<exists>j \<le> wk_sequence w. j < length starts \<and> resumes (starts ! j) ?now (checkpoint w)" if "\<not> idle w"
  proof (cases ?es)
    case Nil
    then show ?thesis using r that ok by (intro exI [of _ "wk_sequence w"]) (simp add: scan_ok_def scan_position_def)
  next
    case (Cons e es)
    obtain i s c where e: "e = (i, s, c)" by (cases e)
    then have "(i, s, c) \<in> set ?es" using Cons by simp
    moreover from this have "s \<le> wk_sequence w" using ok by (auto simp: scan_ok_def)
    ultimately show ?thesis using first le_trans by blast
  qed
  moreover have "checkpoint w = ?now" if "flight = []"
  proof -
    have "?es = []" using ok that(1) by (cases ?es) (auto simp: scan_ok_def)
    then show ?thesis unfolding checkpoint_def scan_position_def [symmetric]
      by (cases ?now) (simp_all add: scan_checkpoint_def live_before_def)
  qed
  ultimately show ?thesis by blast
qed

section \<open>Request slots\<close>

lemma sum_list_filter_split:
  "sum_list (map f xs) = sum_list (map f (filter P xs)) + sum_list (map f (filter (\<lambda>x. \<not> P x) xs))" for f :: "'a \<Rightarrow> nat"
  by (induction xs) auto

lemma worker_step_limits:
  assumes "worker_step L w w'" and ok: "worker_ok w"
  shows "same_limits (wk_admission w) (wk_admission w')"
  using assms(1)
proof cases
  case (schedule contended)
  have "same_limits (wk_admission w) a" if "schedule L (wk_spool w) (wk_admission w) contended i n = Inr (out, b, a)" for i n out b a
    using schedule_ok [of "wk_admission w" "wk_jobs w" "wk_spool w" "wk_spooled w" L contended i n] that ok
    unfolding worker_ok_def by blast
  then show ?thesis
    using schedule by (auto simp: schedule_pending_def bindE_eq_Inr same_limits_def track_scan_def split: option.splits)
next
  case (submit contended i bytes)
  then show ?thesis
    using reserve_inner_ok [of "wk_admission w" "wk_jobs w" contended i bytes False] ok
    by (auto simp: submit_def reserve_def worker_ok_def)
next
  case (shrink k bytes)
  then show ?thesis by (auto simp: shrink_job_def res_simps shrink_def same_limits_def split: if_splits)
next
  case (finish k)
  then show ?thesis by (auto simp: finish_job_def res_simps drop_reservation_def same_limits_def)
qed (auto simp: same_limits_def take_candidate_def start_scan_def rewind_scan_def page_found_def scan_exhausted_def
    drop_spooled_def res_simps split: option.splits list.splits)

lemma reachable_limits:
  assumes "reachable L w0 w" and "worker_ok w0"
  shows "same_limits (wk_admission w0) (wk_admission w)"
  using assms
proof (induction rule: reachable.induct)
  case (step w w')
  then have "worker_ok w" using reachable_ok by blast
  from worker_step_limits [OF step(2) this] step show ?case by (simp add: same_limits_def)
qed simp

text \<open>Requests keep their slots: with headroom, scheduled jobs leave half of the bytes and eight jobs to requests, and a
  new request that fits beside the other requests is admitted, however much is scheduled, after any interleaving.\<close>

theorem request_headroom:
  assumes "worker_new max_bytes max_jobs True max_spool saved = Inr w0"
    and "max_bytes < USIZE" and "max_jobs < USIZE" and "max_spool < USIZE" and "reachable L w0 w"
    and "\<not> ad_paused (wk_admission w)" "\<not> ad_closed (wk_admission w)" "i \<notin> ad_ids (wk_admission w)"
    and "length (filter (\<lambda>r. \<not> rv_scheduled r) (wk_jobs w)) < MAX_JOBS"
    and "sum_list (map rv_bytes (filter (\<lambda>r. \<not> rv_scheduled r) (wk_jobs w))) + bytes \<le> max_bytes - max_bytes div 2"
  shows "\<exists>r a. reserve (wk_admission w) False i bytes = Inr (Some r, a)"
proof -
  have ok0: "worker_ok w0" using worker_new_ok [OF assms(1-4)] by blast
  have ok: "worker_ok w" using reachable_ok [OF assms(5) ok0] .
  have lim: "ad_max_bytes (wk_admission w) = max_bytes" "ad_max_jobs (wk_admission w) = max_jobs"
      "ad_max_scheduled_bytes (wk_admission w) = max_bytes div 2" "ad_max_scheduled_jobs (wk_admission w) + MAX_JOBS = max_jobs"
    using reachable_limits [OF assms(5) ok0] assms(1)
    by (auto simp: same_limits_def worker_new_def admission_new_def res_simps)
  let ?rs = "wk_jobs w"
  have a: "admitted (wk_admission w) ?rs" "limits_ok (wk_admission w)" using ok by (simp_all add: worker_ok_def)
  have len: "length ?rs = length (filter rv_scheduled ?rs) + length (filter (\<lambda>r. \<not> rv_scheduled r) ?rs)"
    by (simp add: sum_length_filter_compl)
  note sum = sum_list_filter_split [of rv_bytes ?rs rv_scheduled]
  have jobs: "card (ad_ids (wk_admission w)) \<noteq> max_jobs"
    using admitted_card [OF a(1)] a(1) assms(9) len lim by (simp add: admitted_def)
  have room: "ad_bytes (wk_admission w) + bytes \<le> max_bytes"
  proof -
    have "ad_bytes (wk_admission w) = sum_list (map rv_bytes ?rs)"
      "sum_list (map rv_bytes (filter rv_scheduled ?rs)) \<le> max_bytes div 2"
      using a(1) lim by (auto simp: admitted_def)
    moreover have "max_bytes div 2 \<le> max_bytes" by simp
    ultimately show ?thesis using assms(10) sum by linarith
  qed
  then show ?thesis
    using jobs assms(6-8) a lim by (auto simp: reserve_def reserve_inner_def subE_def addE_def admitted_def limits_ok_def)
qed

section \<open>A worker with one download\<close>

definition a_limits :: Limits where "a_limits = \<lparr>li_max_data_size = 1000, li_max_memory_data_size = 100, li_max_spool_bytes = 5000\<rparr>"

definition a_saved :: BundleScan where "a_saved = \<lparr>bs_boundary = 50, bs_live = None, bs_backfill = None\<rparr>"

definition a_end :: BundleCursor where "a_end = \<lparr>bc_height = 60, bc_position = 0, bc_kind = 0, bc_id = replicate 32 9\<rparr>"

definition a_start :: Worker where
  "a_start = (case worker_new (2 ^ 30) 40 True 5000 (Some a_saved) of Inr w \<Rightarrow> w)"

lemma a_start: "worker_new (2 ^ 30) 40 True 5000 (Some a_saved) = Inr a_start"
  by (simp add: a_start_def worker_new_def admission_new_def subE_def MAX_JOBS_def)

definition a_page :: Worker where "a_page = page_found False a_end [(replicate 32 1, 500), (replicate 32 2, 50)] a_start"

definition a_busy :: Worker where
  "a_busy = (case schedule_pending a_limits False (take_candidate a_page) of Inr w \<Rightarrow> w)"

lemma a_start_eq: "a_start = \<lparr>wk_admission = \<lparr>ad_max_bytes = 2 ^ 30, ad_max_jobs = 40, ad_max_scheduled_jobs = 32,
       ad_max_scheduled_bytes = 2 ^ 29, ad_paused = False, ad_ids = {}, ad_scan_cursors = [], ad_bytes = 0,
       ad_scheduled_bytes = 0, ad_scheduled_jobs = 0, ad_closed = False\<rparr>,
     wk_spool = \<lparr>sb_max_bytes = 5000, sb_used_bytes = 0\<rparr>, wk_jobs = [], wk_spooled = [], wk_cursor = Some a_saved,
     wk_page_start = Some a_saved, wk_sequence = 0, wk_pending = None, wk_candidates = []\<rparr>"
  by (simp add: a_start_def worker_new_def admission_new_def subE_def MAX_JOBS_def)

definition a_reservation :: Reservation where
  "a_reservation = \<lparr>rv_id = replicate 32 1, rv_bytes = 500 + 2 ^ 20, rv_scheduled = True\<rparr>"

lemma a_taken_eq: "take_candidate a_page = a_start\<lparr>wk_cursor := Some (a_saved\<lparr>bs_live := Some a_end\<rparr>), wk_sequence := 1,
    wk_pending := Some (replicate 32 1, 500), wk_candidates := [(replicate 32 2, 50)]\<rparr>"
  by (simp add: a_page_def page_found_def take_candidate_def a_start_eq idle_def)

lemma a_schedule: "schedule_pending a_limits False (take_candidate a_page) = Inr (a_start\<lparr>
    wk_admission := (wk_admission a_start)\<lparr>ad_ids := {replicate 32 1}, ad_scan_cursors := [(replicate 32 1, 1, Some a_saved)],
      ad_bytes := 500 + 2 ^ 20, ad_scheduled_bytes := 500 + 2 ^ 20, ad_scheduled_jobs := 1\<rparr>,
    wk_spool := \<lparr>sb_max_bytes = 5000, sb_used_bytes = 500\<rparr>, wk_jobs := [a_reservation], wk_spooled := [500],
    wk_cursor := Some (a_saved\<lparr>bs_live := Some a_end\<rparr>), wk_sequence := 1,
    wk_pending := None, wk_candidates := [(replicate 32 2, 50)]\<rparr>)"
  unfolding a_taken_eq a_start_eq
  by (simp add: schedule_pending_def schedule_def is_streamed_def job_charge_def a_limits_def checked_add_def U64_def
      MAX_JSON_BYTES_def spool_reserve_def reserve_scheduled_def reserve_inner_def subE_def addE_def track_scan_def
      put_key_def del_key_def a_reservation_def Let_def)

lemma a_busy_eq: "a_busy = a_start\<lparr>
    wk_admission := (wk_admission a_start)\<lparr>ad_ids := {replicate 32 1}, ad_scan_cursors := [(replicate 32 1, 1, Some a_saved)],
      ad_bytes := 500 + 2 ^ 20, ad_scheduled_bytes := 500 + 2 ^ 20, ad_scheduled_jobs := 1\<rparr>,
    wk_spool := \<lparr>sb_max_bytes = 5000, sb_used_bytes = 500\<rparr>, wk_jobs := [a_reservation], wk_spooled := [500],
    wk_cursor := Some (a_saved\<lparr>bs_live := Some a_end\<rparr>), wk_sequence := 1,
    wk_pending := None, wk_candidates := [(replicate 32 2, 50)]\<rparr>"
  by (simp add: a_busy_def a_schedule)

lemma a_scheduled: "schedule_pending a_limits False (take_candidate a_page) = Inr a_busy"
  unfolding a_schedule a_busy_eq ..

lemma a_busy: "wk_pending (take_candidate a_page) = Some (replicate 32 1, 500)" "wk_pending a_busy = None" "ad_ids (wk_admission a_busy) = {replicate 32 1}"
  "wk_sequence a_page = 1" "wk_sequence (take_candidate a_page) = 1" "wk_sequence a_busy = 1" "wk_sequence a_start = 0"
  "wk_page_start a_start = Some a_saved" "wk_page_start a_page = Some a_saved" "wk_pending a_page = None" "wk_pending a_start = None"
  "checkpoint a_busy = Some a_saved" "length (wk_jobs a_busy) = 1" "wk_spooled a_busy = [500]"
  "\<not> ad_paused (wk_admission a_busy)" "\<not> ad_closed (wk_admission a_busy)" "filter (\<lambda>r. \<not> rv_scheduled r) (wk_jobs a_busy) = []"
  unfolding a_busy_eq a_taken_eq
  by (simp_all add: a_start_eq a_page_def page_found_def idle_def a_reservation_def
      checkpoint_def scan_checkpoint_def live_before_def a_saved_def)

lemma a_run: "scan_run a_limits a_start a_busy [Some a_saved, Some a_saved] [(replicate 32 1, 1)]"
proof -
  have 0: "scan_run a_limits a_start a_start [Some a_saved] []"
    using scan_run.start [of a_limits a_start] by (simp add: a_busy)
  have 1: "scan_run a_limits a_start a_page [Some a_saved, Some a_saved] []"
    using scan_run.step [OF 0 worker_step.page [of a_limits a_start False a_end "[(replicate 32 1, 500), (replicate 32 2, 50)]"]]
    by (simp add: note_start_def note_flight_def a_page_def [symmetric] a_busy)
  have 2: "scan_run a_limits a_start (take_candidate a_page) [Some a_saved, Some a_saved] []"
    using scan_run.step [OF 1 worker_step.candidate] by (simp add: note_start_def note_flight_def a_busy)
  show ?thesis
    using scan_run.step [OF 2 worker_step.schedule [OF a_scheduled]] by (simp add: note_start_def note_flight_def a_busy)
qed

lemma a_reachable: "reachable a_limits a_start a_busy"
proof -
  have 1: "reachable a_limits a_start a_page"
    unfolding a_page_def by (rule reachable.step [OF reachable.start worker_step.page])
  show ?thesis
    by (rule reachable.step [OF reachable.step [OF 1 worker_step.candidate] worker_step.schedule [OF a_scheduled]])
qed

theorem scan_checkpoint_covers_witness:
  "\<exists>j \<le> 1. j < length [Some a_saved, Some a_saved] \<and> resumes ([Some a_saved, Some a_saved] ! j) (scan_position a_busy) (checkpoint a_busy)"
  using scan_checkpoint_covers [OF a_start _ _ _ a_run] by (simp add: U64_def)

theorem admission_exact_witness:
  "admitted (wk_admission a_busy) (wk_jobs a_busy) \<and> spool_held (wk_spool a_busy) [500] \<and> (\<exists>w'. finish_job 0 a_busy = Inr w')"
  using admission_exact [OF a_start _ _ _ a_reachable, where contended = False and i = "[]" and bytes = 0] by (simp add: U64_def a_busy)

theorem request_headroom_witness: "\<exists>r a. reserve (wk_admission a_busy) False (replicate 32 3) (2 ^ 29) = Inr (Some r, a)"
  by (rule request_headroom [OF a_start _ _ _ a_reachable]) (simp_all add: U64_def a_busy MAX_JOBS_def)

end
