(* ===== verification/Hosts.thy ===== *)
theory Hosts
  imports DataItem
begin

text \<open>
  Names and hosts, \<open>src/src/server.rs\<close>: the root hosts of a configuration (\<open>root_host\<close>), the name a
  host asks for (\<open>arns_name\<close>, \<open>split_arns_name\<close>), the sandbox host of an id (\<open>sandbox_name\<close>,
  \<open>request_sandbox_id\<close>, \<open>sandbox_redirect\<close>) and the choice a request's path and host make
  (\<open>serve_raw\<close>, \<open>serve_path\<close>, \<open>serve_arns\<close>).  A text is the list of its bytes as characters.
\<close>

section \<open>Text\<close>

fun split_on :: "char \<Rightarrow> str \<Rightarrow> str list" where
  "split_on c [] = [[]]"
| "split_on c (x # xs) = (case split_on c xs of
     p # ps \<Rightarrow> if x = c then [] # p # ps else (x # p) # ps
   | [] \<Rightarrow> [])"

definition split_once :: "char \<Rightarrow> str \<Rightarrow> (str \<times> str) option" where
  "split_once c s = (if c \<in> set s then Some (takeWhile (\<lambda>x. x \<noteq> c) s, tl (dropWhile (\<lambda>x. x \<noteq> c) s)) else None)"

definition strip_suffix :: "str \<Rightarrow> str \<Rightarrow> str option" where
  "strip_suffix p s = map_option rev (strip_prefix (rev p) (rev s))"

definition trim_end_char :: "char \<Rightarrow> str \<Rightarrow> str" where
  "trim_end_char c s = rev (dropWhile (\<lambda>x. x = c) (rev s))"

definition lower_char :: "char \<Rightarrow> char" where
  "lower_char c = (if 65 \<le> (of_char c :: nat) \<and> (of_char c :: nat) \<le> 90 then char_of ((of_char c :: nat) + 32) else c)"

definition is_lower_char :: "char \<Rightarrow> bool" where
  "is_lower_char c \<longleftrightarrow> 97 \<le> (of_char c :: nat) \<and> (of_char c :: nat) \<le> 122"

definition is_alphanumeric :: "char \<Rightarrow> bool" where
  "is_alphanumeric c \<longleftrightarrow> is_lower_char (lower_char c) \<or> is_ascii_digit c"

section \<open>Configuration and requests\<close>

text \<open>\<open>hs_sign\<close> is \<open>SigningKey::sign\<close>.\<close>

record HttpSigner =
  hs_sign :: "bytes \<Rightarrow> bytes"
  hs_key_id :: str
  hs_bind_request :: bool

record RootHost =
  rh_host :: str
  rh_apex_name :: "str option"
  rh_wallet :: "str option"
  rh_signer :: "HttpSigner option"

record ServerConfig =
  sc_root_hosts :: "RootHost list"
  sc_apex_tx_id :: "str option"
  sc_apex_max_age :: nat
  sc_arns_program_id :: str
  sc_ant_program_id :: str
  sc_max_concurrent_requests :: nat

text \<open>
  A request: \<open>rq_authority\<close> is the host part of a \<open>Host\<close> header as \<open>http::uri::Authority\<close> parses it, if it
  does; \<open>rq_headers\<close> the values of a header in order.
\<close>

record request =
  rq_path :: str
  rq_query :: "str option"
  rq_method :: str
  rq_host :: "str option"
  rq_headers :: "str \<Rightarrow> bytes list"

definition request_host :: "request \<Rightarrow> str option" where
  "request_host R = map_option (\<lambda>authority. map lower_char (trim_end_char CHR ''.'' authority)) (rq_host R)"

text \<open>The longest root host that is the host or a parent of it; the last of equally long ones.\<close>

definition under_root :: "str \<Rightarrow> RootHost \<Rightarrow> bool" where
  "under_root host root = (case strip_suffix (rh_host root) host of
     None \<Rightarrow> False | Some prefix \<Rightarrow> prefix = [] \<or> last prefix = CHR ''.'')"

fun longest_root :: "(nat \<times> RootHost) list \<Rightarrow> (nat \<times> RootHost) option" where
  "longest_root [] = None"
| "longest_root (x # xs) = (case longest_root xs of
     None \<Rightarrow> Some x
   | Some m \<Rightarrow> Some (if length (rh_host (snd x)) > length (rh_host (snd m)) then x else m))"

definition root_host_index :: "ServerConfig \<Rightarrow> str \<Rightarrow> nat option" where
  "root_host_index C host =
     map_option fst (longest_root (filter (\<lambda>(_, root). under_root host root) (enumerate 0 (sc_root_hosts C))))"

definition root_host :: "ServerConfig \<Rightarrow> str \<Rightarrow> RootHost option" where
  "root_host C host = map_option (\<lambda>index. sc_root_hosts C ! index) (root_host_index C host)"

definition validate_host :: "str \<Rightarrow> unit res" where
  "validate_host host =
     ensure (host \<noteq> [] \<and> length host \<le> 253) STR ''invalid ARNS_ROOT_HOST''
     (foldE (\<lambda>_ label.
        ensure (label \<noteq> [] \<and> length label \<le> 63) STR ''invalid ARNS_ROOT_HOST''
        (ensure (list_all (\<lambda>c. is_lower_char c \<or> is_ascii_digit c \<or> c = CHR ''-'') label) STR ''invalid ARNS_ROOT_HOST''
         (ensure (hd label \<noteq> CHR ''-'' \<and> last label \<noteq> CHR ''-'') STR ''invalid ARNS_ROOT_HOST'' (Inr ())))) ()
        (split_on CHR ''.'' host))"

section \<open>Names\<close>

definition name_char :: "char \<Rightarrow> bool" where
  "name_char c \<longleftrightarrow> is_lower_char c \<or> is_ascii_digit c \<or> c = CHR ''-'' \<or> c = CHR ''_''"

fun join_with :: "str \<Rightarrow> str list \<Rightarrow> str" where
  "join_with sep [] = []"
| "join_with sep [x] = x"
| "join_with sep (x # y # xs) = x @ sep @ join_with sep (y # xs)"

definition split_arns_name :: "str \<Rightarrow> (str \<times> str) res" where
  "split_arns_name name =
     ensure (name \<noteq> [] \<and> length name \<le> 253) STR ''invalid ArNS name length''
     (ensure (list_all name_char name) STR ''invalid ArNS name characters''
      (ensure (hd name \<notin> {CHR ''-'', CHR ''_''} \<and> last name \<notin> {CHR ''-'', CHR ''_''}) STR ''invalid ArNS name boundary''
       (let parts = split_on CHR ''_'' name in
        ensure (list_all (\<lambda>part. part \<noteq> []) parts) STR ''invalid ArNS name''
        (Inr (last parts, if butlast parts = [] then ''@'' else join_with ''_'' (butlast parts))))))"

text \<open>The label in front of the root host: \<open>host.strip_suffix(root)?.strip_suffix('.')?\<close>, up to its first dot.\<close>

definition first_label :: "str \<Rightarrow> str \<Rightarrow> str option" where
  "first_label root host =
     Option.bind (strip_suffix root host) (\<lambda>prefix.
     map_option (\<lambda>label. hd (split_on CHR ''.'' label)) (strip_suffix ''.'' prefix))"

definition arns_name :: "ServerConfig \<Rightarrow> request \<Rightarrow> str option" where
  "arns_name C R =
     Option.bind (request_host R) (\<lambda>host.
     Option.bind (root_host C host) (\<lambda>root.
     if host = rh_host root then rh_apex_name root
     else Option.bind (first_label (rh_host root) host) (\<lambda>name.
       if name = ''www'' \<or> (length name > 51 \<and> CHR ''_'' \<notin> set name) then None
       else (case split_arns_name name of Inl _ \<Rightarrow> None | Inr _ \<Rightarrow> Some name))))"

section \<open>Sandboxes\<close>

definition ALPHABET :: str where "ALPHABET = ''abcdefghijklmnopqrstuvwxyz234567''"

text \<open>The inner loop: the five-bit groups of the buffer, and the bits left.\<close>

fun base32_groups :: "16 word \<Rightarrow> nat \<Rightarrow> str \<times> nat" where
  "base32_groups buffer bits =
     (if bits \<ge> 5 then
        (case base32_groups buffer (bits - 5) of (encoded, left) \<Rightarrow>
           (ALPHABET ! unat (drop_bit (bits - 5) buffer AND 31) # encoded, left))
      else ([], bits))"

declare base32_groups.simps [simp del]

fun sandbox_loop :: "16 word \<Rightarrow> nat \<Rightarrow> bytes \<Rightarrow> str" where
  "sandbox_loop buffer bits [] =
     (if bits > 0 then [ALPHABET ! unat (push_bit (5 - bits) buffer AND 31)] else [])"
| "sandbox_loop buffer bits (b # bs) =
     (let buffer = push_bit 8 buffer OR ucast b in
      case base32_groups buffer (bits + 8) of (encoded, left) \<Rightarrow>
        encoded @ sandbox_loop (buffer AND (push_bit left 1 - 1)) left bs)"

definition sandbox_name :: "bytes \<Rightarrow> str" where
  "sandbox_name i = sandbox_loop 0 0 i"

definition base32_value :: "char \<Rightarrow> nat option" where
  "base32_value c = (let n = (of_char c :: nat) in
     if 97 \<le> n \<and> n \<le> 122 then Some (n - 97) else if 50 \<le> n \<and> n \<le> 55 then Some (n - 50 + 26) else None)"

fun sandbox_decode :: "16 word \<Rightarrow> nat \<Rightarrow> bytes \<Rightarrow> str \<Rightarrow> bytes option" where
  "sandbox_decode buffer bits out [] = (if buffer = 0 then Some out else None)"
| "sandbox_decode buffer bits out (c # cs) =
     (case base32_value c of
        None \<Rightarrow> None
      | Some v \<Rightarrow>
          let buffer = push_bit 5 buffer OR word_of_nat v; bits = bits + 5 in
          if bits \<ge> 8 then
            sandbox_decode (buffer AND (push_bit (bits - 8) 1 - 1)) (bits - 8) (out @ [ucast (drop_bit (bits - 8) buffer)]) cs
          else sandbox_decode buffer bits out cs)"

definition request_sandbox_id :: "ServerConfig \<Rightarrow> request \<Rightarrow> bytes option" where
  "request_sandbox_id C R =
     Option.bind (request_host R) (\<lambda>host.
     Option.bind (root_host C host) (\<lambda>root.
     Option.bind (first_label (rh_host root) host) (\<lambda>label.
     if length label \<noteq> 52 then None else sandbox_decode 0 0 [] label)))"

text \<open>The location a request for an id is sent to, unless it came to the host of the id.\<close>

definition sandbox_redirect :: "ServerConfig \<Rightarrow> bytes \<Rightarrow> request \<Rightarrow> str option" where
  "sandbox_redirect C decoded_id R =
     (let host = request_host R in
      Option.bind (case Option.bind host (root_host C) of
          Some root \<Rightarrow> Some root
        | None \<Rightarrow> (case sc_root_hosts C of [] \<Rightarrow> None | root # _ \<Rightarrow> Some root)) (\<lambda>root.
      let sandbox_host = sandbox_name decoded_id @ ''.'' @ rh_host root in
      if host = Some sandbox_host then None
      else Some (''https://'' @ sandbox_host @ rq_path R @ ''?'' @ (case rq_query R of None \<Rightarrow> [] | Some q \<Rightarrow> q))))"

section \<open>Routes\<close>

text \<open>
  What a handler goes on to do: refuse (\<open>Busy\<close>, \<open>Unmatched\<close>, \<open>InvalidId\<close>, \<open>NoName\<close>), redirect, serve the content
  of an id as it is (\<open>RawContent\<close>) or through its manifest (\<open>PathContent\<close>: the id, the path in the manifest, whether
  a slash is added, and the query), the configured id of a root host (\<open>ApexContent\<close>), a name (\<open>NamedContent\<close>),
  the root of a sandbox, or the information about the gateway.
\<close>

datatype route =
    Busy | Unmatched | InvalidId str | NoName
  | Redirect str
  | RawContent str
  | PathContent str str bool "str option"
  | ApexContent str str
  | NamedContent str str
  | SandboxRoot str
  | Info "nat option"

definition is_data_id_shape :: "str \<Rightarrow> bool" where
  "is_data_id_shape i \<longleftrightarrow> length i = 43 \<and> list_all (\<lambda>c. is_alphanumeric c \<or> c = CHR ''-'' \<or> c = CHR ''_'') i"

definition is_root_host :: "ServerConfig \<Rightarrow> request \<Rightarrow> bool" where
  "is_root_host C R = (case request_host R of None \<Rightarrow> False
     | Some host \<Rightarrow> (case root_host C host of None \<Rightarrow> False | Some root \<Rightarrow> rh_host root = host))"

text \<open>The start of \<open>serve_arns_path\<close>.\<close>

definition arns_path_route :: "ServerConfig \<Rightarrow> request \<Rightarrow> str \<Rightarrow> route" where
  "arns_path_route C R path = (case sc_apex_tx_id C of
     Some i \<Rightarrow> if is_root_host C R then ApexContent i path
       else (case arns_name C R of None \<Rightarrow> NoName | Some name \<Rightarrow> NamedContent name path)
   | None \<Rightarrow> (case arns_name C R of None \<Rightarrow> NoName | Some name \<Rightarrow> NamedContent name path))"

definition serve_raw :: "deps \<Rightarrow> ServerConfig \<Rightarrow> bool \<Rightarrow> request \<Rightarrow> str \<Rightarrow> route" where
  "serve_raw E C permit R i =
     (if \<not> permit then Busy
      else if \<not> is_data_id_shape i then Unmatched
      else (case decode_fixed E 32 i STR ''data ID'' of
          Inl _ \<Rightarrow> InvalidId i
        | Inr decoded_id \<Rightarrow> (case sandbox_redirect C decoded_id R of
            Some location \<Rightarrow> Redirect location
          | None \<Rightarrow> RawContent i)))"

definition serve_path :: "deps \<Rightarrow> ServerConfig \<Rightarrow> bool \<Rightarrow> request \<Rightarrow> str \<Rightarrow> route" where
  "serve_path E C permit R path =
     (if \<not> permit then Busy
      else (case (case split_once CHR ''/'' path of None \<Rightarrow> (path, []) | Some p \<Rightarrow> p) of (i, manifest_path) \<Rightarrow>
        (case decode_fixed E 32 i STR ''data ID'' of
           Inr decoded_id \<Rightarrow> (case sandbox_redirect C decoded_id R of
               Some location \<Rightarrow> Redirect location
             | None \<Rightarrow> PathContent i manifest_path
                 (manifest_path = [] \<and> (rq_path R = [] \<or> last (rq_path R) \<noteq> CHR ''/'')) (rq_query R))
         | Inl _ \<Rightarrow>
             if is_data_id_shape i then InvalidId i
             else if \<not> (sc_apex_tx_id C \<noteq> None \<and> is_root_host C R) \<and> arns_name C R = None then Unmatched
             else arns_path_route C R path)))"

definition serve_arns :: "deps \<Rightarrow> ServerConfig \<Rightarrow> bool \<Rightarrow> request \<Rightarrow> route" where
  "serve_arns E C permit R =
     (if \<not> (is_root_host C R \<and> sc_apex_tx_id C \<noteq> None) \<and> arns_name C R = None then
        (case request_sandbox_id C R of
           Some i \<Rightarrow> if permit then SandboxRoot (x_b64_encode E i) else Busy
         | None \<Rightarrow> Info (Option.bind (request_host R) (root_host_index C)))
      else if permit then arns_path_route C R [] else Busy)"

end
