(* ===== verification/Arns.thy ===== *)
theory Arns
  imports Hosts Caches
begin

text \<open>
  The resolution of names, \<open>src/src/server.rs\<close>: the accounts of the registry and of a name's token as the
  chain stores them (\<open>decode_arns_config\<close>, \<open>decode_arns_record\<close>, \<open>decode_ant_record\<close>), the choice of the record of
  an undername (\<open>select_ant_record\<close>) and its use (\<open>resolve_arns_uncached\<close>, \<open>resolve_arns\<close>).  The chain's answers,
  its address derivation and the codecs of base 58 and 64 are the record \<open>solana\<close>; times are nanoseconds.
\<close>

definition ARNS_CONFIG_DISCRIMINATOR :: bytes where "ARNS_CONFIG_DISCRIMINATOR = [117, 20, 158, 16, 49, 85, 82, 24]"
definition ARNS_RECORD_DISCRIMINATOR :: bytes where "ARNS_RECORD_DISCRIMINATOR = [53, 158, 42, 125, 7, 132, 104, 188]"
definition ANT_RECORD_DISCRIMINATOR :: bytes where "ANT_RECORD_DISCRIMINATOR = [225, 94, 70, 240, 82, 45, 135, 81]"
definition ARNS_CONFIG_SEED :: bytes where "ARNS_CONFIG_SEED = as_bytes ''arns_config''"
definition ARNS_RECORD_SEED :: bytes where "ARNS_RECORD_SEED = as_bytes ''arns_record''"
definition ANT_RECORD_SEED :: bytes where "ANT_RECORD_SEED = as_bytes ''ant_record''"
definition MAX_SOLANA_ACCOUNT_BYTES :: nat where "MAX_SOLANA_ACCOUNT_BYTES = 4096"
definition MAX_ANT_RECORDS :: nat where "MAX_ANT_RECORDS = 1024"
definition SECOND :: nat where "SECOND = 1000000000"
definition ARNS_CONFIG_TTL :: nat where "ARNS_CONFIG_TTL = 3600 * SECOND"

section \<open>Answers of the chain\<close>

record SolanaAccount =
  sa_data :: "str \<times> str"
  sa_owner :: str
  sa_executable :: bool
  sa_space :: nat

record ProgramAccount =
  pa_pubkey :: str
  pa_account :: SolanaAccount

record 'result SolanaRpcResponse =
  sr_jsonrpc :: str
  sr_id :: nat
  sr_result :: "'result option"
  sr_error :: "int option"                \<comment> \<open>the code of the error\<close>

record solana =
  y_b58_decode :: "str \<Rightarrow> bytes option"
  y_b58_encode :: "bytes \<Rightarrow> str"
  y_standard_decode :: "str \<Rightarrow> bytes option"                       \<comment> \<open>base64 of the standard alphabet\<close>
  y_program_address :: "bytes list \<Rightarrow> bytes \<Rightarrow> (bytes \<times> nat) option"  \<comment> \<open>\<open>try_find_program_address\<close>: seeds and program\<close>
  y_account :: "str \<Rightarrow> SolanaAccount option SolanaRpcResponse res"      \<comment> \<open>\<open>getAccountInfo\<close>\<close>
  y_program_accounts :: "bytes \<Rightarrow> ProgramAccount list SolanaRpcResponse res"   \<comment> \<open>\<open>getProgramAccounts\<close> of a mint\<close>

definition into_result :: "'a SolanaRpcResponse \<Rightarrow> 'a res" where
  "into_result response =
     ensure (sr_jsonrpc response = ''2.0'' \<and> sr_id response = 1) STR ''invalid Solana RPC envelope''
     (case sr_error response of
        Some code \<Rightarrow> Inl (Fail STR ''Solana RPC rejected request'')
      | None \<Rightarrow> contextE (sr_result response) STR ''Solana RPC omitted result'')"

definition decode_pubkey :: "solana \<Rightarrow> str \<Rightarrow> String.literal \<Rightarrow> bytes res" where
  "decode_pubkey Y value label =
     bindE (contextE (y_b58_decode Y value) (STR ''invalid '' + label)) (\<lambda>bs.
     ensure (length bs = 32) (label + STR '' has the wrong size'') (Inr bs))"

definition decode_program_account :: "solana \<Rightarrow> SolanaAccount \<Rightarrow> str \<Rightarrow> bytes res" where
  "decode_program_account Y account program_id =
     ensure (sa_owner account = program_id) STR ''Solana account owner mismatch''
     (ensure (\<not> sa_executable account) STR ''Solana data account is executable''
      (ensure (snd (sa_data account) = ''base64'') STR ''unexpected Solana account encoding''
       (ensure (sa_space account \<le> MAX_SOLANA_ACCOUNT_BYTES
           \<and> length (fst (sa_data account)) \<le> div_ceil MAX_SOLANA_ACCOUNT_BYTES 3 * 4)
         STR ''Solana account exceeds size limit''
        (bindE (contextE (y_standard_decode Y (fst (sa_data account))) STR ''invalid Solana account base64'') (\<lambda>data.
         ensure (length data = sa_space account) STR ''Solana account size mismatch'' (Inr data))))))"

definition derive_pda :: "solana \<Rightarrow> str \<Rightarrow> bytes list \<Rightarrow> String.literal \<Rightarrow> (str \<times> nat) res" where
  "derive_pda Y program_id seeds label =
     bindE (decode_pubkey Y program_id STR ''Solana program ID'') (\<lambda>program.
     bindE (contextE (y_program_address Y seeds program) (STR ''failed to derive '' + label + STR '' PDA'')) (\<lambda>(address, bump).
     Inr (y_b58_encode Y address, bump)))"

definition account_info :: "solana \<Rightarrow> str \<Rightarrow> str \<Rightarrow> bytes option res" where
  "account_info Y address program_id =
     bindE (y_account Y address) (\<lambda>response.
     bindE (into_result response) (\<lambda>value. case value of
       None \<Rightarrow> Inr None
     | Some account \<Rightarrow> bindE (decode_program_account Y account program_id) (\<lambda>data. Inr (Some data))))"

section \<open>Borsh values\<close>

definition read_u8 :: "bytes \<Rightarrow> nat \<Rightarrow> String.literal \<Rightarrow> (nat \<times> nat) res" where
  "read_u8 bs cursor label = bindE (take_bytes bs cursor 1 label) (\<lambda>(b, c). Inr (le_nat b, c))"

definition read_u16 :: "bytes \<Rightarrow> nat \<Rightarrow> String.literal \<Rightarrow> (nat \<times> nat) res" where
  "read_u16 bs cursor label = bindE (take_bytes bs cursor 2 label) (\<lambda>(b, c). Inr (le_nat b, c))"

definition read_u32 :: "bytes \<Rightarrow> nat \<Rightarrow> String.literal \<Rightarrow> (nat \<times> nat) res" where
  "read_u32 bs cursor label = bindE (take_bytes bs cursor 4 label) (\<lambda>(b, c). Inr (le_nat b, c))"

definition read_u64 :: "bytes \<Rightarrow> nat \<Rightarrow> String.literal \<Rightarrow> (nat \<times> nat) res" where
  "read_u64 bs cursor label = bindE (take_bytes bs cursor 8 label) (\<lambda>(b, c). Inr (le_nat b, c))"

definition read_i64 :: "bytes \<Rightarrow> nat \<Rightarrow> String.literal \<Rightarrow> (int \<times> nat) res" where
  "read_i64 bs cursor label =
     bindE (take_bytes bs cursor 8 label) (\<lambda>(b, c). Inr (sint (word_of_nat (le_nat b) :: 64 word), c))"

definition read_string :: "bytes \<Rightarrow> nat \<Rightarrow> nat \<Rightarrow> String.literal \<Rightarrow> (str \<times> nat) res" where
  "read_string bs cursor maximum label =
     bindE (read_u32 bs cursor label) (\<lambda>(len, c).
     ensure (len \<le> maximum) (label + STR '' exceeds length limit'')
     (bindE (take_bytes bs c len label) (\<lambda>(b, c).
      bindE (contextE (from_utf8 b) (label + STR '' is not UTF-8'')) (\<lambda>text. Inr (text, c)))))"

definition read_option_i64 :: "bytes \<Rightarrow> nat \<Rightarrow> String.literal \<Rightarrow> (int option \<times> nat) res" where
  "read_option_i64 bs cursor label =
     bindE (read_u8 bs cursor label) (\<lambda>(flag, c).
     if flag = 0 then Inr (None, c)
     else if flag = 1 then bindE (read_i64 bs c label) (\<lambda>(v, c). Inr (Some v, c))
     else Inl (Fail (label + STR '' option is invalid'')))"

definition read_option_u32 :: "bytes \<Rightarrow> nat \<Rightarrow> String.literal \<Rightarrow> (nat option \<times> nat) res" where
  "read_option_u32 bs cursor label =
     bindE (read_u8 bs cursor label) (\<lambda>(flag, c).
     if flag = 0 then Inr (None, c)
     else if flag = 1 then bindE (read_u32 bs c label) (\<lambda>(v, c). Inr (Some v, c))
     else Inl (Fail (label + STR '' option is invalid'')))"

definition read_option_bytes32 :: "bytes \<Rightarrow> nat \<Rightarrow> String.literal \<Rightarrow> (unit \<times> nat) res" where
  "read_option_bytes32 bs cursor label =
     bindE (read_u8 bs cursor label) (\<lambda>(flag, c).
     if flag = 0 then Inr ((), c)
     else if flag = 1 then bindE (take_bytes bs c 32 label) (\<lambda>(_, c). Inr ((), c))
     else Inl (Fail (label + STR '' option is invalid'')))"

section \<open>Accounts\<close>

record ArnsRecord =
  an_name :: str
  an_ant :: bytes
  an_undername_limit :: nat
  an_end_timestamp :: "int option"
  an_bump :: nat

record AntRecord =
  at_undername :: str
  at_target :: str
  at_target_protocol :: nat
  at_ttl :: nat
  at_priority :: "nat option"
  at_bump :: nat

definition decode_arns_config :: "bytes \<Rightarrow> (int \<times> nat) res" where
  "decode_arns_config bs =
     bindE (take_bytes bs 0 8 STR ''ArNS config discriminator'') (\<lambda>(d, c).
     ensure (d = ARNS_CONFIG_DISCRIMINATOR) STR ''invalid ArNS config discriminator''
     (bindE (take_bytes bs c 96 STR ''ArNS config addresses'') (\<lambda>(_, c).
      bindE (read_i64 bs c STR ''ArNS grace period'') (\<lambda>(grace_period, c).
      ensure (grace_period \<ge> 0) STR ''invalid ArNS grace period''
      (bindE (read_i64 bs c STR ''ArNS return auction duration'') (\<lambda>(_, c).
       bindE (read_u8 bs c STR ''ArNS maximum lease length'') (\<lambda>(_, c).
       bindE (read_u64 bs c STR ''ArNS registered name count'') (\<lambda>(_, c).
       bindE (read_i64 bs c STR ''ArNS next record prune time'') (\<lambda>(_, c).
       bindE (read_i64 bs c STR ''ArNS next returned-name prune time'') (\<lambda>(_, c).
       bindE (read_u8 bs c STR ''ArNS migration flag'') (\<lambda>(flag, c).
       ensure (flag \<le> 1) STR ''invalid ArNS migration flag''
       (bindE (take_bytes bs c 32 STR ''ArNS migration authority'') (\<lambda>(_, c).
        bindE (read_u8 bs c STR ''ArNS config bump'') (\<lambda>(bump, c).
        bindE (take_bytes bs c 3 STR ''ArNS config schema version'') (\<lambda>(schema, c).
        ensure (schema = [1, 0, 0]) STR ''unsupported ArNS config schema version''
        (ensure (list_all (\<lambda>b. b = 0) (drop c bs)) STR ''ArNS config contains trailing data''
         (Inr (grace_period, bump))))))))))))))))))"

definition decode_arns_record :: "deps \<Rightarrow> bytes \<Rightarrow> ArnsRecord res" where
  "decode_arns_record E bs =
     bindE (take_bytes bs 0 8 STR ''ArNS discriminator'') (\<lambda>(d, c).
     ensure (d = ARNS_RECORD_DISCRIMINATOR) STR ''invalid ArNS record discriminator''
     (bindE (take_bytes bs c 32 STR ''ArNS name hash'') (\<lambda>(name_hash, c).
      bindE (take_bytes bs c 32 STR ''ArNS owner'') (\<lambda>(_, c).
      bindE (take_bytes bs c 32 STR ''ArNS ANT ID'') (\<lambda>(ant, c).
      bindE (read_u8 bs c STR ''ArNS purchase type'') (\<lambda>(purchase_type, c).
      bindE (read_i64 bs c STR ''ArNS start timestamp'') (\<lambda>(_, c).
      bindE (read_option_i64 bs c STR ''ArNS end timestamp'') (\<lambda>(end_timestamp, c).
      ensure ((purchase_type = 0 \<and> end_timestamp \<noteq> None) \<or> (purchase_type = 1 \<and> end_timestamp = None))
        STR ''invalid ArNS purchase type or end timestamp''
      (bindE (read_u16 bs c STR ''ArNS undername limit'') (\<lambda>(undername_limit, c).
       bindE (read_u64 bs c STR ''ArNS purchase price'') (\<lambda>(_, c).
       bindE (read_u8 bs c STR ''ArNS bump'') (\<lambda>(bump, c).
       bindE (read_string bs c 64 STR ''ArNS name'') (\<lambda>(name, c).
       ensure (sha256 E [as_bytes name] = name_hash) STR ''ArNS name hash mismatch''
       (bindE (take_bytes bs c 3 STR ''ArNS schema version'') (\<lambda>(schema, c).
        ensure (schema = [1, 0, 0]) STR ''unsupported ArNS schema version''
        (Inr \<lparr>an_name = name, an_ant = ant, an_undername_limit = undername_limit,
              an_end_timestamp = end_timestamp, an_bump = bump\<rparr>))))))))))))))))"

definition decode_ant_record :: "bytes \<Rightarrow> bytes \<Rightarrow> AntRecord res" where
  "decode_ant_record bs expected_mint =
     bindE (take_bytes bs 0 8 STR ''ANT discriminator'') (\<lambda>(d, c).
     ensure (d = ANT_RECORD_DISCRIMINATOR) STR ''invalid ANT record discriminator''
     (bindE (take_bytes bs c 32 STR ''ANT mint'') (\<lambda>(mint, c).
      ensure (mint = expected_mint) STR ''ANT mint mismatch''
      (bindE (read_string bs c 64 STR ''ANT undername'') (\<lambda>(undername, c).
       bindE (read_string bs c 128 STR ''ANT target'') (\<lambda>(target, c).
       bindE (read_u8 bs c STR ''ANT target protocol'') (\<lambda>(target_protocol, c).
       bindE (read_u32 bs c STR ''ANT TTL'') (\<lambda>(ttl, c).
       bindE (read_option_u32 bs c STR ''ANT priority'') (\<lambda>(priority, c).
       bindE (read_option_bytes32 bs c STR ''ANT owner'') (\<lambda>(_, c).
       bindE (take_bytes bs c 32 STR ''ANT reconciled owner'') (\<lambda>(_, c).
       bindE (read_u8 bs c STR ''ANT bump'') (\<lambda>(bump, c).
       bindE (take_bytes bs c 3 STR ''ANT schema version'') (\<lambda>(schema, c).
       ensure (schema = [1, 0, 0]) STR ''unsupported ANT schema version''
       (Inr \<lparr>at_undername = undername, at_target = target, at_target_protocol = target_protocol, at_ttl = ttl,
             at_priority = priority, at_bump = bump\<rparr>))))))))))))))"

section \<open>Undernames\<close>

text \<open>
  The root first, then the records with a priority in its order, then the others, each by undername; the
  iteration over the accounts keeps the addresses seen.
\<close>

definition ant_le :: "AntRecord \<Rightarrow> AntRecord \<Rightarrow> bool" where
  "ant_le a b = (
     if (at_undername a \<noteq> ''@'') \<noteq> (at_undername b \<noteq> ''@'') then at_undername a = ''@''
     else if (at_priority a = None) \<noteq> (at_priority b = None) then at_priority a \<noteq> None
     else if at_priority a \<noteq> at_priority b then the (at_priority a) < the (at_priority b)
     else bytes_le (as_bytes (at_undername a)) (as_bytes (at_undername b)))"

definition program_ant_record :: "deps \<Rightarrow> solana \<Rightarrow> str \<Rightarrow> bytes \<Rightarrow> bytes \<Rightarrow> ProgramAccount \<Rightarrow> (bytes \<times> AntRecord) res" where
  "program_ant_record E Y program_id program mint account =
     bindE (decode_pubkey Y (pa_pubkey account) STR ''ANT record address'') (\<lambda>address.
     bindE (decode_program_account Y (pa_account account) program_id) (\<lambda>data.
     bindE (decode_ant_record data mint) (\<lambda>entry.
     let entry = entry\<lparr>at_undername := map lower_char (at_undername entry)\<rparr> in
     bindE (if at_undername entry = ''@'' then Inr ([], []) else split_arns_name (at_undername entry @ ''_x'')) (\<lambda>_.
     bindE (contextE (y_program_address Y [ANT_RECORD_SEED, mint, sha256 E [as_bytes (at_undername entry)]] program)
              STR ''failed to derive ANT record PDA'') (\<lambda>(expected, bump).
     ensure (expected = address \<and> bump = at_bump entry) STR ''ANT record PDA mismatch'' (Inr (address, entry)))))))"

definition ant_records :: "deps \<Rightarrow> solana \<Rightarrow> str \<Rightarrow> bytes \<Rightarrow> bytes \<Rightarrow> ProgramAccount list \<Rightarrow> (bytes list \<times> AntRecord list) res" where
  "ant_records E Y program_id program mint accounts =
     foldE (\<lambda>(addresses, entries) account.
       bindE (program_ant_record E Y program_id program mint account) (\<lambda>(address, entry).
       ensure (address \<notin> set addresses) STR ''duplicate ANT record'' (Inr (addresses @ [address], entries @ [entry]))))
     ([], []) accounts"

definition select_ant_record ::
  "deps \<Rightarrow> solana \<Rightarrow> ProgramAccount list \<Rightarrow> str \<Rightarrow> bytes \<Rightarrow> str \<Rightarrow> (nat \<times> AntRecord) option res" where
  "select_ant_record E Y accounts program_id mint undername =
     ensure (length accounts \<le> MAX_ANT_RECORDS) STR ''ANT record count exceeds limit''
     (bindE (decode_pubkey Y program_id STR ''ANT program ID'') (\<lambda>program.
      bindE (ant_records E Y program_id program mint accounts) (\<lambda>(_, entries).
      let entries = sort_by ant_le entries in
      ensure (case entries of [] \<Rightarrow> True | entry # _ \<Rightarrow> at_undername entry = ''@'')
        STR ''ANT response is missing root record''
      (Inr (List.find (\<lambda>(_, entry). at_undername entry = undername) (enumerate 0 entries))))))"

section \<open>Names\<close>

text \<open>The clock of a resolution: wall time at its start, and instants at its start, when the grace period is looked up, and after.\<close>

record times =
  tm_wall :: nat
  tm_started :: nat
  tm_checked :: nat
  tm_fetched :: nat

definition arns_lease_remaining :: "int \<Rightarrow> int \<Rightarrow> nat \<Rightarrow> nat res" where
  "arns_lease_remaining end_timestamp grace_period now =
     (let expires_at = end_timestamp + grace_period in
      ensure (- (2 ^ 63) \<le> expires_at \<and> expires_at < 2 ^ 63) STR ''ArNS lease expiry overflow''
      (ensure (now div SECOND < 2 ^ 63) STR ''system time is too large''
       (Inr (if int (now div SECOND) \<ge> expires_at then 0 else nat expires_at * SECOND - now))))"

definition fetch_grace_period :: "solana \<Rightarrow> ServerConfig \<Rightarrow> int res" where
  "fetch_grace_period Y C =
     bindE (derive_pda Y (sc_arns_program_id C) [ARNS_CONFIG_SEED] STR ''ArNS config'') (\<lambda>(address, expected_bump).
     bindE (account_info Y address (sc_arns_program_id C)) (\<lambda>account.
     bindE (contextE account STR ''ArNS config account is missing'') (\<lambda>bs.
     bindE (decode_arns_config bs) (\<lambda>(grace_period, bump).
     ensure (bump = expected_bump) STR ''ArNS config bump mismatch'' (Inr grace_period)))))"

text \<open>The grace period is kept for an hour; the second component is the kept one, with the instant it expires.\<close>

definition arns_grace_period ::
  "solana \<Rightarrow> ServerConfig \<Rightarrow> times \<Rightarrow> (nat \<times> int) option \<Rightarrow> int res \<times> (nat \<times> int) option" where
  "arns_grace_period Y C now cached =
     (case (case cached of Some (expires_at, grace_period) \<Rightarrow> if expires_at > tm_checked now then Some grace_period else None
            | None \<Rightarrow> None) of
        Some grace_period \<Rightarrow> (Inr grace_period, cached)
      | None \<Rightarrow> (case fetch_grace_period Y C of
          Inl e \<Rightarrow> (Inl e, cached)
        | Inr grace_period \<Rightarrow> (Inr grace_period, Some (tm_fetched now + ARNS_CONFIG_TTL, grace_period))))"

definition ant_undername :: "deps \<Rightarrow> solana \<Rightarrow> str \<Rightarrow> bytes \<Rightarrow> str \<Rightarrow> (nat \<times> AntRecord) option res" where
  "ant_undername E Y program_id mint undername =
     bindE (y_program_accounts Y mint) (\<lambda>response.
     bindE (into_result response) (\<lambda>accounts. select_ant_record E Y accounts program_id mint undername))"

text \<open>The record of the root undername, by its own address, or of another, by its rank.\<close>

definition ant_entry :: "deps \<Rightarrow> solana \<Rightarrow> ServerConfig \<Rightarrow> bytes \<Rightarrow> str \<Rightarrow> (nat \<times> AntRecord) option res" where
  "ant_entry E Y C ant undername =
     (if undername = ''@'' then
        bindE (derive_pda Y (sc_ant_program_id C) [ANT_RECORD_SEED, ant, sha256 E [as_bytes ''@'']] STR ''ANT record'') (\<lambda>(address, bump).
        bindE (account_info Y address (sc_ant_program_id C)) (\<lambda>account. case account of
          None \<Rightarrow> Inr None
        | Some bs \<Rightarrow>
            bindE (decode_ant_record bs ant) (\<lambda>entry.
            ensure (at_bump entry = bump) STR ''ANT record bump mismatch''
            (ensure (at_undername entry = ''@'') STR ''ANT root record mismatch'' (Inr (Some (0, entry)))))))
      else ant_undername E Y (sc_ant_program_id C) ant undername)"

text \<open>What is left of a lease: \<open>None\<close> when the name is no longer leased, \<open>Some None\<close> when it is bought.\<close>

definition lease ::
  "solana \<Rightarrow> ServerConfig \<Rightarrow> times \<Rightarrow> int option \<Rightarrow> (nat \<times> int) option \<Rightarrow> nat option option res \<times> (nat \<times> int) option" where
  "lease Y C now end_timestamp cached = (case end_timestamp of
     None \<Rightarrow> (Inr (Some None), cached)
   | Some end_timestamp \<Rightarrow> (case arns_grace_period Y C now cached of (grace_period, cached) \<Rightarrow>
       (bindE grace_period (\<lambda>grace_period.
        bindE (arns_lease_remaining end_timestamp grace_period (tm_wall now)) (\<lambda>remaining.
        Inr (if remaining = 0 then None else Some (Some remaining)))), cached)))"

definition arns_account :: "deps \<Rightarrow> solana \<Rightarrow> ServerConfig \<Rightarrow> str \<Rightarrow> ArnsRecord option res" where
  "arns_account E Y C basename =
     bindE (derive_pda Y (sc_arns_program_id C) [ARNS_RECORD_SEED, sha256 E [as_bytes basename]] STR ''ArNS record'') (\<lambda>(address, bump).
     bindE (account_info Y address (sc_arns_program_id C)) (\<lambda>account. case account of
       None \<Rightarrow> Inr None
     | Some bs \<Rightarrow>
         bindE (decode_arns_record E bs) (\<lambda>arns.
         ensure (an_name arns = basename) STR ''ArNS account name mismatch''
         (ensure (an_bump arns = bump) STR ''ArNS record bump mismatch'' (Inr (Some arns))))))"

text \<open>The resolution of a name whose account and lease are known.\<close>

definition resolution_of ::
  "deps \<Rightarrow> solana \<Rightarrow> ServerConfig \<Rightarrow> times \<Rightarrow> str \<Rightarrow> str \<Rightarrow> str \<Rightarrow> ArnsRecord \<Rightarrow> nat option \<Rightarrow> Resolution option res" where
  "resolution_of E Y C now name basename undername arns lease_remaining =
     bindE (ant_entry E Y C (an_ant arns) undername) (\<lambda>selected. case selected of None \<Rightarrow> Inr None | Some (index, entry) \<Rightarrow>
     ensure (at_target_protocol entry = 0) STR ''ANT record does not target Arweave''
     (bindE (decode_fixed E 32 (at_target entry) STR ''resolved data ID'') (\<lambda>_.
      let ttl = at_ttl entry * SECOND; lifetime = (case lease_remaining of None \<Rightarrow> ttl | Some remaining \<Rightarrow> min remaining ttl) in
      Inr (Some \<lparr>rs_name = name, rs_basename = basename, rs_record = undername, rs_resolved_id = at_target entry,
             rs_ttl = at_ttl entry, rs_ant_id = y_b58_encode Y (an_ant arns), rs_limit = an_undername_limit arns,
             rs_index = index, rs_resolved_at = tm_wall now div 1000000, rs_expires_at = tm_started now + lifetime\<rparr>))))"

definition resolve_arns_uncached ::
  "deps \<Rightarrow> solana \<Rightarrow> ServerConfig \<Rightarrow> times \<Rightarrow> (nat \<times> int) option \<Rightarrow> str \<Rightarrow> Resolution option res \<times> (nat \<times> int) option" where
  "resolve_arns_uncached E Y C now cached name =
     (case bindE (split_arns_name name) (\<lambda>(basename, undername).
           bindE (arns_account E Y C basename) (\<lambda>arns. Inr (basename, undername, arns))) of
        Inl e \<Rightarrow> (Inl e, cached)
      | Inr (basename, undername, None) \<Rightarrow> (Inr None, cached)
      | Inr (basename, undername, Some arns) \<Rightarrow> (case lease Y C now (an_end_timestamp arns) cached of (leased, cached) \<Rightarrow>
          (bindE leased (\<lambda>leased. case leased of
             None \<Rightarrow> Inr None
           | Some lease_remaining \<Rightarrow> resolution_of E Y C now name basename undername arns lease_remaining), cached)))"

text \<open>
  \<open>first\<close> and \<open>again\<close> are the instants of the two lookups, \<open>kept\<close> that of the insertion; concurrent resolutions of one name share
  the work.  The second component of the state is \<open>grace_period\<close>.
\<close>

definition resolve_arns ::
  "deps \<Rightarrow> solana \<Rightarrow> ServerConfig \<Rightarrow> times \<Rightarrow> nat \<Rightarrow> nat \<Rightarrow> nat \<Rightarrow> str \<Rightarrow> ArnsCache \<times> (nat \<times> int) option
     \<Rightarrow> Resolution option res \<times> (ArnsCache \<times> (nat \<times> int) option)" where
  "resolve_arns E Y C now first again kept name st = (case st of (c, cached) \<Rightarrow>
     (case arns_get first name c of
        (Some resolution, c) \<Rightarrow> (Inr (Some resolution), (c, cached))
      | (None, c) \<Rightarrow> (case arns_get again name c of
          (Some resolution, c) \<Rightarrow> (Inr (Some resolution), (c, cached))
        | (None, c) \<Rightarrow> (case resolve_arns_uncached E Y C now cached name of
            (Inl e, cached) \<Rightarrow> (Inl e, (c, cached))
          | (Inr None, cached) \<Rightarrow> (Inr None, (c, cached))
          | (Inr (Some resolution), cached) \<Rightarrow> (case arns_insert kept resolution c of
              Inl e \<Rightarrow> (Inl e, (c, cached))
            | Inr c \<Rightarrow> (Inr (Some resolution), (c, cached)))))))"

end
