(* ===== verification/HostsProofs.thy ===== *)
theory HostsProofs
  imports Hosts Samples
begin

text \<open>
  Sandbox hosts and routing: the name of an id and the label of a host are inverse, and content leaves through the host
  of its own id.
\<close>

lemma split_on_ne [simp]: "split_on c s \<noteq> []" by (induction s) (auto split: list.splits)

lemma unat_push: "unat (b :: 16 word) * 2 ^ n < 2 ^ 16 \<Longrightarrow> n < 16 \<Longrightarrow> unat (push_bit n b) = unat b * 2 ^ n"
  by (subst unsigned_push_bit_eq) (simp_all add: push_bit_eq_mult take_bit_nat_eq_self)

lemma unat_join: "unat (c :: 16 word) < 2 ^ n \<Longrightarrow> n < 16 \<Longrightarrow> unat (b :: 16 word) * 2 ^ n < 2 ^ 16 \<Longrightarrow>
    unat (push_bit n b OR c) = unat b * 2 ^ n + unat c"
proof -
  assume a: "unat c < 2 ^ n" "n < 16" "unat b * 2 ^ n < 2 ^ 16"
  have p: "unat (push_bit n b) = push_bit n (unat b)" using unat_push [OF a(3,2)] by (simp add: push_bit_eq_mult)
  have "unat (push_bit n b OR c) = unat c OR push_bit n (unat b)" by (simp only: unsigned_or_eq p or.commute)
  then show ?thesis using nat_or_disjoint [OF a(1), of "unat b"] by (simp add: push_bit_eq_mult)
qed

lemma unat_step_5: "unat b < 2 ^ 11 \<Longrightarrow> v < 32 \<Longrightarrow> unat (push_bit 5 b OR word_of_nat v :: 16 word) = unat b * 32 + v"
  using unat_join [of "word_of_nat v" 5 b] by (simp add: unat_of_nat)

lemma unat_step_8: "unat b < 2 ^ 8 \<Longrightarrow> unat (push_bit 8 b OR ucast c :: 16 word) = unat b * 256 + unat (c :: byte)"
  using unat_join [of "ucast c" 8 b] unat_byte_less [of c] by (simp add: unsigned_ucast_eq take_bit_nat_eq_self)

lemma unat_low: "unat (b AND (push_bit n 1 - 1) :: 16 word) = unat b mod 2 ^ n"
proof -
  have "push_bit n 1 - 1 = (mask n :: 16 word)" by (simp add: mask_eq_exp_minus_1 push_bit_eq_mult)
  then have "unat (b AND (push_bit n 1 - 1)) = take_bit n (unat b)"
    by (simp only: take_bit_eq_mask [symmetric] unsigned_take_bit_eq)
  then show ?thesis by (simp only: take_bit_eq_mod)
qed

lemma unat_shift: "unat (drop_bit n b :: 16 word) = unat b div 2 ^ n"
proof -
  have "take_bit 16 (unat b) = unat b" using unsigned_less [of b, where ?'a = nat] by (simp add: take_bit_nat_eq_self)
  then show ?thesis by (simp only: drop_bit_eq_div [symmetric] unsigned_drop_bit_eq len_of_numeral_defs) (simp add: drop_bit_eq_div)
qed

lemma unat_group: "unat (drop_bit n b AND 31 :: 16 word) = unat b div 2 ^ n mod 32"
proof -
  have "(31 :: 16 word) = push_bit 5 1 - 1" by (simp add: push_bit_eq_mult)
  then show ?thesis by (simp only: unat_low unat_shift) simp
qed

section \<open>Labels are numbers in base 32\<close>

abbreviation digits32 :: "nat \<Rightarrow> str \<Rightarrow> nat" where
  "digits32 a s \<equiv> foldl (\<lambda>a c. a * 32 + the (base32_value c)) a s"

definition base32_text :: "str \<Rightarrow> bool" where
  "base32_text s \<longleftrightarrow> (\<forall>c \<in> set s. base32_value c \<noteq> None)"

lemma base32_text_simps [simp]: "base32_text []" "base32_text (c # s) \<longleftrightarrow> base32_value c \<noteq> None \<and> base32_text s"
  "base32_text (s @ t) \<longleftrightarrow> base32_text s \<and> base32_text t"
  by (auto simp: base32_text_def)

lemma alphabet_value: "v < 32 \<Longrightarrow> base32_value (ALPHABET ! v) = Some v"
proof -
  assume "v < 32"
  then have "v \<in> set [0..<32]" by simp
  moreover have "\<forall>v \<in> set [0..<32]. base32_value (ALPHABET ! v) = Some v" by code_simp
  ultimately show ?thesis by blast
qed

lemma base32_value_inj: "base32_value c = Some v \<Longrightarrow> base32_value d = Some v \<Longrightarrow> c = d"
proof -
  assume "base32_value c = Some v" "base32_value d = Some v"
  then have "of_char c = (of_char d :: nat)" by (auto simp: base32_value_def Let_def simp del: of_char_eq_iff split: if_splits)
  then show ?thesis by (simp only: of_char_eq_iff)
qed

lemma base32_value_less: "base32_value c = Some v \<Longrightarrow> v < 32"
  by (auto simp: base32_value_def Let_def split: if_splits)

lemma digits32_start: "digits32 a s = a * 32 ^ length s + digits32 0 s"
proof (induction s arbitrary: a)
  case (Cons c s)
  show ?case using Cons.IH [of "a * 32 + the (base32_value c)"] Cons.IH [of "the (base32_value c)"]
    by (simp add: algebra_simps)
qed simp

lemma digits32_bound: "base32_text s \<Longrightarrow> digits32 0 s < 32 ^ length s"
proof (induction s)
  case (Cons c s)
  then obtain v where v: "base32_value c = Some v" "v < 32" using base32_value_less by auto
  have "digits32 0 (c # s) = v * 32 ^ length s + digits32 0 s" using v digits32_start [of v s] by simp
  also have "\<dots> < (v + 1) * 32 ^ length s" using Cons by simp
  also have "\<dots> \<le> 32 * 32 ^ length s" using v(2) by (intro mult_right_mono) auto
  finally show ?case by simp
qed simp

lemma digits32_inj: "length s = length t \<Longrightarrow> base32_text s \<Longrightarrow> base32_text t \<Longrightarrow> digits32 0 s = digits32 0 t \<Longrightarrow> s = t"
proof (induction s t rule: list_induct2)
  case (Cons c s d t)
  obtain v w where vw: "base32_value c = Some v" "base32_value d = Some w" using Cons.prems by auto
  have e: "v * 32 ^ length s + digits32 0 s = w * 32 ^ length s + digits32 0 t"
    using Cons.prems vw digits32_start [of v s] digits32_start [of w t] Cons.hyps by simp
  have b: "digits32 0 s < 32 ^ length s" "digits32 0 t < 32 ^ length s"
    using digits32_bound Cons.prems(1,2) Cons.hyps by (metis base32_text_simps(2))+
  have "v = w" using arg_cong [OF e, of "\<lambda>n. n div 32 ^ length s"] b by (simp add: div_add1_eq)
  then show ?case using e vw Cons.IH Cons.prems base32_value_inj [of c v d] by auto
qed simp

section \<open>The sandbox label of an id\<close>

lemma base32_groups_value:
  assumes "base32_groups b bits = (s, left)"
  shows "left = bits mod 5 \<and> length s = bits div 5 \<and> base32_text s
    \<and> digits32 a s = a * 2 ^ (bits - left) + unat b mod 2 ^ bits div 2 ^ left"
  using assms
proof (induction bits arbitrary: s a rule: less_induct)
  case (less bits)
  show ?case
  proof (cases "bits \<ge> 5")
    case False
    then show ?thesis using less.prems by (simp add: base32_groups.simps)
  next
    case True
    define k where "k = bits - 5"
    have k: "bits = k + 5" using True by (simp add: k_def)
    obtain t where r: "base32_groups b k = (t, left)" and s: "s = ALPHABET ! unat (drop_bit k b AND 31) # t"
      using less.prems True by (subst (asm) base32_groups.simps) (auto simp: k_def split: prod.splits)
    define v where "v = unat b div 2 ^ k mod 32"
    have v: "unat (drop_bit k b AND 31) = v" "v < 32" by (simp_all add: v_def unat_group)
    have IH: "left = k mod 5 \<and> length t = k div 5 \<and> base32_text t
        \<and> digits32 (a * 32 + v) t = (a * 32 + v) * 2 ^ (k - left) + unat b mod 2 ^ k div 2 ^ left"
      using less.IH [OF _ r] True by (simp add: k_def)
    have l: "left \<le> k" using IH by simp
    have "unat b mod 2 ^ bits = unat b mod (2 ^ k * 2 ^ 5)" by (simp add: k power_add)
    also have "\<dots> = 2 ^ k * v + unat b mod 2 ^ k" by (simp add: mod_mult2_eq v_def)
    also have "\<dots> = 2 ^ left * (2 ^ (k - left) * v) + unat b mod 2 ^ k"
      using l by (simp add: mult.assoc [symmetric] power_add [symmetric])
    finally have "unat b mod 2 ^ bits div 2 ^ left = 2 ^ (k - left) * v + unat b mod 2 ^ k div 2 ^ left" by simp
    moreover have "2 ^ (bits - left) = (32 :: nat) * 2 ^ (k - left)"
    proof -
      have "bits - left = 5 + (k - left)" using l k by linarith
      then have "(2 :: nat) ^ (bits - left) = 2 ^ 5 * 2 ^ (k - left)" by (simp only: power_add)
      then show ?thesis by simp
    qed
    moreover have "digits32 a s = (a * 32 + v) * 2 ^ (k - left) + unat b mod 2 ^ k div 2 ^ left"
      using IH s v alphabet_value [OF v(2)] by simp
    moreover have "(a * 32 + v) * A + B = a * (32 * A) + (A * v + B)" for A B by (simp add: algebra_simps)
    ultimately have "digits32 a s = a * 2 ^ (bits - left) + unat b mod 2 ^ bits div 2 ^ left" by (simp only:)
    moreover have "left = bits mod 5" "length s = bits div 5" "base32_text s"
      using IH s v alphabet_value [OF v(2)] k by (simp_all del: foldl_Cons)
    ultimately show ?thesis by blast
  qed
qed

lemma sandbox_loop_value:
  assumes "unat b < 2 ^ bits" and "bits < 5"
  shows "base32_text (sandbox_loop b bits bs) \<and> length (sandbox_loop b bits bs) = (bits + 8 * length bs + 4) div 5
    \<and> digits32 a (sandbox_loop b bits bs) =
        (a * 2 ^ (bits + 8 * length bs) + unat b * 256 ^ length bs + be_nat bs) * 2 ^ ((5 - (bits + 8 * length bs) mod 5) mod 5)"
  using assms
proof (induction bs arbitrary: b bits a)
  case Nil
  show ?case
  proof (cases "bits = 0")
    case True
    then show ?thesis using Nil by simp
  next
    case False
    have "unat b * 2 ^ (5 - bits) < 2 ^ bits * 2 ^ (5 - bits)" using Nil by simp
    also have "\<dots> = 32" using Nil(2) by (simp add: power_add [symmetric])
    finally have p: "unat b * 2 ^ (5 - bits) < 32" .
    then have "unat (push_bit (5 - bits) b) = unat b * 2 ^ (5 - bits)" by (intro unat_push) auto
    then have v: "unat (push_bit (5 - bits) b AND 31) = unat b * 2 ^ (5 - bits)"
      using unat_group [of 0 "push_bit (5 - bits) b"] p by simp
    have "(5 - bits mod 5) mod 5 = 5 - bits" using False Nil(2) by simp
    moreover have "(32 :: nat) = 2 ^ bits * 2 ^ (5 - bits)" using Nil(2) by (simp add: power_add [symmetric])
    ultimately show ?thesis using alphabet_value [OF p] v False Nil(2) by (simp add: algebra_simps)
  qed
next
  case (Cons c bs)
  have b8: "unat b < 2 ^ 8" using Cons.prems power_increasing [of bits 8 "2 :: nat"] by simp
  obtain s left where g: "base32_groups (push_bit 8 b OR ucast c) (bits + 8) = (s, left)" by fastforce
  define w where "w = unat b * 256 + unat c"
  have w: "unat (push_bit 8 b OR ucast c :: 16 word) = w" using unat_step_8 [OF b8] by (simp add: w_def)
  have "w < (unat b + 1) * 256" using unat_byte_less [of c] by (simp add: w_def)
  also have "\<dots> \<le> 2 ^ bits * 256" using Cons.prems(1) by (intro mult_right_mono) simp_all
  finally have wb: "w < 2 ^ (bits + 8)" by (simp add: power_add)
  note G = base32_groups_value [OF g, unfolded w, of a]
  have gv: "left = (bits + 8) mod 5" "length s = (bits + 8) div 5" "base32_text s"
    "digits32 a s = a * 2 ^ (bits + 8 - left) + w div 2 ^ left" using G wb by simp_all
  define b' where "b' = (push_bit 8 b OR ucast c) AND (push_bit left 1 - 1 :: 16 word)"
  have b': "unat b' = w mod 2 ^ left" unfolding b'_def unat_low w ..
  have left: "left < 5" "left \<le> bits + 8" using gv(1) by simp_all
  have IH: "base32_text (sandbox_loop b' left bs) \<and> length (sandbox_loop b' left bs) = (left + 8 * length bs + 4) div 5
    \<and> digits32 (digits32 a s) (sandbox_loop b' left bs) =
        (digits32 a s * 2 ^ (left + 8 * length bs) + unat b' * 256 ^ length bs + be_nat bs) * 2 ^ ((5 - (left + 8 * length bs) mod 5) mod 5)"
    by (rule Cons.IH) (use b' left in simp_all)
  have loop: "sandbox_loop b bits (c # bs) = s @ sandbox_loop b' left bs" using g by (simp add: b'_def Let_def)
  have m: "(left + 8 * length bs) mod 5 = (bits + 8 * length (c # bs)) mod 5" using gv(1) by (simp add: mod_simps algebra_simps)
  have "(bits + 8) div 5 * 5 + left = bits + 8" using gv(1) by simp
  then have len: "(bits + 8) div 5 + (left + 8 * length bs + 4) div 5 = (bits + 8 * length (c # bs) + 4) div 5" by simp
  have p8: "(2 :: nat) ^ (8 * length bs) = 256 ^ length bs" by (simp add: power_mult)
  have p8': "(2 :: nat) ^ (length bs * 8) = 256 ^ length bs" using p8 by (simp only: mult.commute)
  have gen: "x * 2 ^ (left + 8 * length bs) + y * 256 ^ length bs = (x * 2 ^ left + y) * 256 ^ length bs" for x y :: nat
    by (simp add: power_add p8 add_mult_distrib)
  have "digits32 a s * 2 ^ (left + 8 * length bs) + unat b' * 256 ^ length bs
      = (a * 2 ^ (bits + 8 - left) * 2 ^ left + w) * 256 ^ length bs"
    by (simp only: gen gv(4) b' add_mult_distrib add.assoc div_mult_mod_eq)
  also have "\<dots> = (a * 2 ^ (bits + 8) + w) * 256 ^ length bs"
    using left(2) by (simp add: mult.assoc power_add [symmetric])
  finally have v: "digits32 a s * 2 ^ (left + 8 * length bs) + unat b' * 256 ^ length bs = (a * 2 ^ (bits + 8) + w) * 256 ^ length bs" .
  have be: "be_nat (c # bs) = unat c * 256 ^ length bs + be_nat bs"
    using be_nat_append [of "[c]" bs] be_nat_snoc [of "[]" c] by simp
  have "(a * 2 ^ (bits + 8) + w) * 256 ^ length bs + be_nat bs
     = a * 2 ^ (bits + 8 * length (c # bs)) + unat b * 256 ^ length (c # bs) + be_nat (c # bs)"
    by (simp add: be w_def p8 p8' power_add algebra_simps)
  then show ?case using IH v m len gv(2,3) unfolding loop by (simp add: foldl_append)
qed

lemma sandbox_name_value: "length i = 32 \<Longrightarrow> base32_text (sandbox_name i) \<and> length (sandbox_name i) = 52
    \<and> digits32 0 (sandbox_name i) = be_nat i * 16"
  using sandbox_loop_value [of 0 0 i 0] by (simp add: sandbox_name_def)

lemma sandbox_decode_value:
  assumes "unat b < 2 ^ bits" and "bits < 8"
  shows "sandbox_decode b bits out s = Some i \<longleftrightarrow> base32_text s \<and> (\<exists>w. i = out @ w \<and> length w = (bits + 5 * length s) div 8
    \<and> digits32 (unat b) s = be_nat w * 2 ^ ((bits + 5 * length s) mod 8))"
  using assms
proof (induction s arbitrary: b bits out)
  case Nil
  have "b = 0 \<longleftrightarrow> unat b = 0" by (simp add: unat_eq_0)
  then show ?case using Nil by auto
next
  case (Cons c s)
  show ?case
  proof (cases "base32_value c")
    case None
    then show ?thesis by simp
  next
    case (Some v)
    have v: "v < 32" using base32_value_less Some by simp
    define nb where "nb = push_bit 5 b OR (word_of_nat v :: 16 word)"
    have b11: "unat b < 2 ^ 11" using Cons.prems power_increasing [of bits 11 "2 :: nat"] by simp
    have nb: "unat nb = unat b * 32 + v" using unat_step_5 [OF b11 v] by (simp add: nb_def)
    have "unat nb < (unat b + 1) * 32" using v nb by simp
    also have "\<dots> \<le> 2 ^ bits * 32" using Cons.prems(1) by (intro mult_right_mono) simp_all
    finally have nbb: "unat nb < 2 ^ (bits + 5)" by (simp add: power_add)
    have d: "digits32 (unat b) (c # s) = digits32 (unat nb) s" using Some nb by simp
    show ?thesis
    proof (cases "bits + 5 \<ge> 8")
      case False
      then show ?thesis using Cons.IH [of nb "bits + 5" out] nbb Some d
        by (simp add: nb_def [symmetric] Let_def algebra_simps)
    next
      case True
      define k where "k = bits - 3"
      have k: "bits + 5 = k + 8" "k < 5" using True Cons.prems(2) by (simp_all add: k_def)
      define byte where "byte = (ucast (drop_bit k nb) :: byte)"
      define r where "r = nb AND (push_bit k 1 - 1)"
      have r: "unat r = unat nb mod 2 ^ k" unfolding r_def by (rule unat_low)
      have "unat nb div 2 ^ k < 256"
        using nbb by (simp add: k less_mult_imp_div_less power_add mult.commute)
      then have bv: "unat byte = unat nb div 2 ^ k"
        by (simp add: byte_def unsigned_ucast_eq unat_shift take_bit_nat_eq_self)
      have dec: "sandbox_decode b bits out (c # s) = sandbox_decode r k (out @ [byte]) s"
        using Some True by (simp add: nb_def [symmetric] Let_def k_def r_def byte_def)
      have IH: "sandbox_decode r k (out @ [byte]) s = Some i \<longleftrightarrow> base32_text s \<and> (\<exists>w. i = (out @ [byte]) @ w
          \<and> length w = (k + 5 * length s) div 8 \<and> digits32 (unat r) s = be_nat w * 2 ^ ((k + 5 * length s) mod 8))"
        by (rule Cons.IH) (use r k in simp_all)
      define T where "T = k + 5 * length s"
      have T: "bits + 5 * length (c # s) = T + 8" using k by (simp add: T_def)
      have p: "(32 :: nat) ^ length s = 2 ^ (5 * length s)" by (simp add: power_mult)
      have dig: "digits32 (unat nb) s = unat byte * 2 ^ T + digits32 (unat r) s"
      proof -
        have "digits32 (unat nb) s = (unat byte * 2 ^ k + unat r) * 2 ^ (5 * length s) + digits32 0 s"
          using digits32_start [of "unat nb" s] by (simp only: bv r p div_mult_mod_eq)
        then show ?thesis using digits32_start [of "unat r" s] by (simp add: T_def power_add p algebra_simps)
      qed
      have hd: "be_nat (byte # w) = unat byte * 256 ^ length w + be_nat w" for w
        using be_nat_append [of "[byte]" w] be_nat_snoc [of "[]" byte] by simp
      have split: "2 ^ T = (256 :: nat) ^ (T div 8) * 2 ^ (T mod 8)"
      proof -
        have "(256 :: nat) ^ (T div 8) = 2 ^ (8 * (T div 8))" by (simp add: power_mult)
        then show ?thesis by (simp add: power_add [symmetric])
      qed
      have eq: "length w = T div 8 \<Longrightarrow> digits32 (unat nb) s = be_nat (byte # w) * 2 ^ (T mod 8)
          \<longleftrightarrow> digits32 (unat r) s = be_nat w * 2 ^ (T mod 8)" for w
        by (simp add: dig hd split add_mult_distrib mult.assoc)
      show ?thesis
        unfolding dec IH T d
      proof (intro iffI conjI; elim conjE exE)
        fix w assume "base32_text s" "i = (out @ [byte]) @ w" "length w = (k + 5 * length s) div 8"
          "digits32 (unat r) s = be_nat w * 2 ^ ((k + 5 * length s) mod 8)"
        then show "\<exists>w. i = out @ w \<and> length w = (T + 8) div 8 \<and> digits32 (unat nb) s = be_nat w * 2 ^ ((T + 8) mod 8)"
          using eq [of w] by (intro exI [of _ "byte # w"]) (simp add: T_def)
      next
        fix w assume w: "i = out @ w" "length w = (T + 8) div 8" "digits32 (unat nb) s = be_nat w * 2 ^ ((T + 8) mod 8)"
          and s: "base32_text (c # s)"
        then obtain x w' where x: "w = x # w'" "length w' = T div 8" by (cases w) auto
        have "digits32 (unat r) s < 2 ^ T"
        proof -
          have "digits32 (unat r) s < (unat r + 1) * 32 ^ length s"
            using digits32_start [of "unat r" s] digits32_bound [of s] s by simp
          also have "\<dots> \<le> 2 ^ k * 32 ^ length s" using r by (intro mult_right_mono) (simp_all add: Suc_le_eq)
          finally show ?thesis by (simp add: T_def power_add p)
        qed
        then have "digits32 (unat nb) s div 2 ^ T = unat byte" by (simp add: dig)
        moreover have "be_nat w * 2 ^ (T mod 8) div 2 ^ T = unat x"
        proof -
          have "be_nat w = unat x * 256 ^ (T div 8) + be_nat w'"
            using x be_nat_append [of "[x]" w'] be_nat_snoc [of "[]" x] by simp
          moreover have "be_nat w' < 256 ^ (T div 8)" using be_nat_bound [of w'] x(2) by simp
          ultimately show ?thesis by (simp add: split)
        qed
        ultimately have "x = byte" using w(3) by (simp add: word_unat_eq_iff)
        then show "\<exists>w. i = (out @ [byte]) @ w \<and> length w = (k + 5 * length s) div 8
            \<and> digits32 (unat r) s = be_nat w * 2 ^ ((k + 5 * length s) mod 8)"
          using w x eq [OF x(2)] by (intro exI [of _ w']) (simp add: T_def)
      qed (use Some in simp_all)
    qed
  qed
qed

lemma sandbox_decode_iff: "length s = 52 \<Longrightarrow> sandbox_decode 0 0 [] s = Some i \<longleftrightarrow> length i = 32 \<and> s = sandbox_name i"
proof -
  assume s: "length s = 52"
  have v: "sandbox_decode 0 0 [] s = Some i \<longleftrightarrow> base32_text s \<and> length i = 32 \<and> digits32 0 s = be_nat i * 16"
    using sandbox_decode_value [of 0 0 "[]" s i] s by simp
  show ?thesis
    unfolding v using sandbox_name_value [of i] digits32_inj [of s "sandbox_name i"] s by auto
qed

section \<open>Hosts\<close>

lemma strip_suffix_eq: "strip_suffix p s = Some r \<longleftrightarrow> s = r @ p"
  by (auto simp: strip_suffix_def strip_prefix_eq) (metis rev_append rev_rev_ident)+

lemma hd_split_on: "hd (split_on c s) = takeWhile (\<lambda>x. x \<noteq> c) s"
  by (induction s) (auto split: list.splits)

lemma first_label_eq: "first_label root host = Some l \<longleftrightarrow>
    (\<exists>rest. host = l @ rest @ ''.'' @ root \<and> CHR ''.'' \<notin> set l \<and> (rest = [] \<or> hd rest = CHR ''.''))"
proof
  assume "first_label root host = Some l"
  then obtain label where h: "host = label @ ''.'' @ root" and l: "l = takeWhile (\<lambda>x. x \<noteq> CHR ''.'') label"
    by (auto simp: first_label_def bind_eq_Some_conv strip_suffix_eq hd_split_on)
  let ?rest = "dropWhile (\<lambda>x. x \<noteq> CHR ''.'') label"
  have "label = l @ ?rest" by (simp add: l)
  moreover have "CHR ''.'' \<notin> set l" using l by (auto dest: set_takeWhileD)
  moreover have "?rest = [] \<or> hd ?rest = CHR ''.''" using hd_dropWhile [of "\<lambda>x. x \<noteq> CHR ''.''" label] by blast
  ultimately show "\<exists>rest. host = l @ rest @ ''.'' @ root \<and> CHR ''.'' \<notin> set l \<and> (rest = [] \<or> hd rest = CHR ''.'')"
    using h by (intro exI [of _ ?rest]) (metis append.assoc)
next
  assume "\<exists>rest. host = l @ rest @ ''.'' @ root \<and> CHR ''.'' \<notin> set l \<and> (rest = [] \<or> hd rest = CHR ''.'')"
  then obtain rest where r: "host = (l @ rest) @ ''.'' @ root" "CHR ''.'' \<notin> set l" "rest = [] \<or> hd rest = CHR ''.''" by auto
  have "takeWhile (\<lambda>x. x \<noteq> CHR ''.'') (l @ rest) = l"
    using r(2,3) by (cases rest) (auto simp: takeWhile_append)
  moreover have "strip_suffix root host = Some ((l @ rest) @ ''.'')" using r(1) by (simp only: strip_suffix_eq append.assoc)
  moreover have "strip_suffix ''.'' ((l @ rest) @ ''.'') = Some (l @ rest)" by (simp only: strip_suffix_eq)
  ultimately show "first_label root host = Some l" by (simp add: first_label_def hd_split_on)
qed

lemma longest_root_in: "longest_root xs = Some x \<Longrightarrow> x \<in> set xs"
  by (induction xs arbitrary: x) (auto split: option.splits if_splits)

lemma longest_root_None: "longest_root xs = None \<longleftrightarrow> xs = []"
  by (cases xs) (auto split: option.splits)

lemma root_host_under: "root_host C host = Some root \<Longrightarrow> root \<in> set (sc_root_hosts C) \<and> under_root host root"
  by (auto simp: root_host_def root_host_index_def in_set_enumerate_eq dest!: longest_root_in)

lemma under_root_host: "root \<in> set (sc_root_hosts C) \<Longrightarrow> under_root host root \<Longrightarrow> \<exists>root'. root_host C host = Some root'"
proof -
  assume a: "root \<in> set (sc_root_hosts C)" "under_root host root"
  then obtain k where "k < length (sc_root_hosts C)" "sc_root_hosts C ! k = root" by (auto simp: in_set_conv_nth)
  then have "(k, root) \<in> set (filter (\<lambda>(_, root). under_root host root) (enumerate 0 (sc_root_hosts C)))"
    using a by (auto simp: in_set_enumerate_eq)
  then have "filter (\<lambda>(_, root). under_root host root) (enumerate 0 (sc_root_hosts C)) \<noteq> []" by (metis empty_iff empty_set)
  then obtain m where "longest_root (filter (\<lambda>(_, root). under_root host root) (enumerate 0 (sc_root_hosts C))) = Some m"
    using longest_root_None by (metis not_Some_eq)
  then show ?thesis by (simp add: root_host_def root_host_index_def)
qed

lemma base32_plain: "base32_text s \<Longrightarrow> CHR ''.'' \<notin> set s \<and> CHR ''_'' \<notin> set s"
  by (auto simp: base32_text_def base32_value_def Let_def)

lemma sandbox_label: "length i = 32 \<Longrightarrow> rest = [] \<or> hd rest = CHR ''.'' \<Longrightarrow>
    first_label root (sandbox_name i @ rest @ ''.'' @ root) = Some (sandbox_name i)"
  using sandbox_name_value [of i] base32_plain by (auto simp only: first_label_eq)

lemma sandbox_host_under: "under_root (label @ ''.'' @ rh_host root) root"
  using strip_suffix_eq [of "rh_host root" "label @ ''.'' @ rh_host root" "label @ ''.''"] by (simp add: under_root_def)

text \<open>Content that is not sent elsewhere came to the sandbox of its id, which is the host of no name.\<close>

lemma not_redirected:
  assumes "sandbox_redirect C d R = None" and "length d = 32" and "sc_root_hosts C \<noteq> []"
  shows "request_sandbox_id C R = Some d \<and> arns_name C R = None"
proof -
  obtain root where h: "request_host R = Some (sandbox_name d @ ''.'' @ rh_host root)"
    and sel: "(case Option.bind (request_host R) (root_host C) of Some root \<Rightarrow> Some root
        | None \<Rightarrow> (case sc_root_hosts C of [] \<Rightarrow> None | root # _ \<Rightarrow> Some root)) = Some root"
    using assms(1,3) by (auto simp: sandbox_redirect_def Let_def bind_eq_None_conv split: option.splits list.splits if_splits)
  define host where "host = sandbox_name d @ ''.'' @ rh_host root"
  have under: "under_root host root" unfolding host_def by (rule sandbox_host_under)
  have r: "root_host C host = Some root"
  proof (cases "root_host C host")
    case None
    then have "root \<in> set (sc_root_hosts C)" using sel unfolding h [folded host_def] by (cases "sc_root_hosts C") simp_all
    from under_root_host [OF this under] show ?thesis using None by simp
  qed (use sel [unfolded h [folded host_def]] in simp)
  have l: "first_label (rh_host root) host = Some (sandbox_name d)"
    using sandbox_label [OF assms(2), of "[]" "rh_host root"] by (simp add: host_def)
  have n: "host \<noteq> rh_host root" by (simp add: host_def)
  have m: "length (sandbox_name d) = 52" "CHR ''_'' \<notin> set (sandbox_name d)"
    using sandbox_name_value [OF assms(2)] base32_plain by auto
  have dec: "sandbox_decode 0 0 [] (sandbox_name d) = Some d"
    using sandbox_decode_iff [of "sandbox_name d" d] sandbox_name_value [OF assms(2)] assms(2) by blast
  have "request_sandbox_id C R = Some d"
    unfolding request_sandbox_id_def h [folded host_def] bind.bind_lunit r l m(1) dec by simp
  moreover have "arns_name C R = None"
    unfolding arns_name_def h [folded host_def] bind.bind_lunit r l if_not_P [OF n] using m by simp
  ultimately show ?thesis by blast
qed

text \<open>C31. Origins are exact: the host of a request is the sandbox of an id exactly if its first label below the root host is the name of that id, so two ids never share a host and an id has one name under a root.\<close>

theorem sandbox_origin_exact:
  "request_sandbox_id C R = Some d \<longleftrightarrow> length d = 32 \<and> (\<exists>host root rest. request_host R = Some host \<and> root_host C host = Some root
     \<and> host = sandbox_name d @ rest @ ''.'' @ rh_host root \<and> (rest = [] \<or> hd rest = CHR ''.''))"
proof
  assume "request_sandbox_id C R = Some d"
  then obtain host root label where r: "request_host R = Some host" "root_host C host = Some root"
    "first_label (rh_host root) host = Some label" "length label = 52" "sandbox_decode 0 0 [] label = Some d"
    by (auto simp: request_sandbox_id_def bind_eq_Some_conv split: if_splits)
  then show "length d = 32 \<and> (\<exists>host root rest. request_host R = Some host \<and> root_host C host = Some root
     \<and> host = sandbox_name d @ rest @ ''.'' @ rh_host root \<and> (rest = [] \<or> hd rest = CHR ''.''))"
    using sandbox_decode_iff [of label d] first_label_eq [of "rh_host root" host label] by auto
next
  assume "length d = 32 \<and> (\<exists>host root rest. request_host R = Some host \<and> root_host C host = Some root
     \<and> host = sandbox_name d @ rest @ ''.'' @ rh_host root \<and> (rest = [] \<or> hd rest = CHR ''.''))"
  then obtain host root rest where r: "length d = 32" "request_host R = Some host" "root_host C host = Some root"
    "host = sandbox_name d @ rest @ ''.'' @ rh_host root" "rest = [] \<or> hd rest = CHR ''.''" by blast
  then have "first_label (rh_host root) host = Some (sandbox_name d)" using sandbox_label by blast
  then show "request_sandbox_id C R = Some d"
    using r(1-3) sandbox_decode_iff [of "sandbox_name d" d] sandbox_name_value [OF r(1)] by (simp add: request_sandbox_id_def)
qed

text \<open>The id a path asks for is its first segment.\<close>

definition path_id :: "str \<Rightarrow> str" where
  "path_id path = takeWhile (\<lambda>c. c \<noteq> CHR ''/'') path"

text \<open>The host of the request is the sandbox of the id, and stands for no name.\<close>

definition sandbox_of :: "ServerConfig \<Rightarrow> request \<Rightarrow> bytes \<Rightarrow> bool" where
  "sandbox_of C R d \<longleftrightarrow> request_sandbox_id C R = Some d \<and> arns_name C R = None"

text \<open>A redirection to the host of the id under a root host, which is not the request's own.\<close>

definition sent_to_sandbox :: "ServerConfig \<Rightarrow> request \<Rightarrow> bytes \<Rightarrow> str \<Rightarrow> bool" where
  "sent_to_sandbox C R d location \<longleftrightarrow> (\<exists>root \<in> set (sc_root_hosts C).
     let host = sandbox_name d @ ''.'' @ rh_host root in request_host R \<noteq> Some host
     \<and> location = ''https://'' @ host @ rq_path R @ ''?'' @ (case rq_query R of None \<Rightarrow> [] | Some q \<Rightarrow> q))"

text \<open>
  What may become of a request for the id \<open>i\<close>: its content at its own host, a redirection to that host, or a
  refusal.  A text that is no id is never served, nor redirected, as one.
\<close>

definition sandboxed :: "deps \<Rightarrow> ServerConfig \<Rightarrow> bool \<Rightarrow> request \<Rightarrow> str \<Rightarrow> route \<Rightarrow> bool" where
  "sandboxed E C permit R i route = (case decode_fixed E 32 i STR ''data ID'' of
     Inl _ \<Rightarrow> (case route of RawContent _ \<Rightarrow> False | PathContent _ _ _ _ \<Rightarrow> False | Redirect _ \<Rightarrow> False | _ \<Rightarrow> True)
   | Inr d \<Rightarrow> (case route of
        RawContent i' \<Rightarrow> i' = i \<and> sandbox_of C R d
      | PathContent i' _ _ _ \<Rightarrow> i' = i \<and> sandbox_of C R d
      | Redirect location \<Rightarrow> sent_to_sandbox C R d location
      | Busy \<Rightarrow> \<not> permit
      | Unmatched \<Rightarrow> \<not> is_data_id_shape i
      | _ \<Rightarrow> False))"

lemma split_once_fst: "(case split_once CHR ''/'' path of None \<Rightarrow> (path, []) | Some p \<Rightarrow> p) = (i, rest) \<Longrightarrow> i = path_id path"
proof -
  have "CHR ''/'' \<notin> set path \<Longrightarrow> path_id path = path" unfolding path_id_def takeWhile_eq_all_conv by blast
  then show "(case split_once CHR ''/'' path of None \<Rightarrow> (path, []) | Some p \<Rightarrow> p) = (i, rest) \<Longrightarrow> i = path_id path"
    by (auto simp: split_once_def path_id_def [symmetric] split: if_splits)
qed

lemma redirect_location:
  assumes "sandbox_redirect C d R = Some location"
  shows "sent_to_sandbox C R d location"
proof -
  obtain root where r: "(case Option.bind (request_host R) (root_host C) of Some root \<Rightarrow> Some root
        | None \<Rightarrow> (case sc_root_hosts C of [] \<Rightarrow> None | root # _ \<Rightarrow> Some root)) = Some root"
    and l: "request_host R \<noteq> Some (sandbox_name d @ ''.'' @ rh_host root)"
      "location = ''https://'' @ (sandbox_name d @ ''.'' @ rh_host root) @ rq_path R @ ''?'' @ (case rq_query R of None \<Rightarrow> [] | Some q \<Rightarrow> q)"
    using assms by (auto simp: sandbox_redirect_def Let_def bind_eq_Some_conv split: if_splits)
  have "root \<in> set (sc_root_hosts C)"
  proof (cases "Option.bind (request_host R) (root_host C)")
    case None
    then show ?thesis using r by (cases "sc_root_hosts C") simp_all
  next
    case (Some root')
    then show ?thesis using r root_host_under by (auto simp: bind_eq_Some_conv)
  qed
  then show ?thesis using l unfolding sent_to_sandbox_def Let_def by blast
qed

text \<open>C32. Content stays in its sandbox: once root hosts are configured, a request for the content of an id, under its path or raw, is answered with that content only at the host that is the sandbox of the id and stands for no name; at every other host it is redirected, with its path and query, to the host of the id, and it is refused only for want of a permit or for an id that has not the shape of one.  It is never answered with the content of another id, of a name or of the apex; and what is no id is neither served nor redirected as one.\<close>

theorem content_stays_in_sandbox:
  assumes "sc_root_hosts C \<noteq> []"
  shows "sandboxed E C permit R (path_id path) (serve_path E C permit R path) \<and> sandboxed E C permit R i (serve_raw E C permit R i)"
proof -
  have here: "sandbox_of C R d" if "decode_fixed E 32 i l = Inr d" "sandbox_redirect C d R = None" for d i l
  proof -
    have "length d = 32" using that(1) by (simp add: decode_fixed_eq)
    then show ?thesis using not_redirected [OF that(2) _ assms] by (simp add: sandbox_of_def)
  qed
  obtain k rest where s: "(case split_once CHR ''/'' path of None \<Rightarrow> (path, []) | Some p \<Rightarrow> p) = (k, rest)" by fastforce
  have k: "k = path_id path" by (rule split_once_fst [OF s])
  have "sandboxed E C permit R (path_id path) (serve_path E C permit R path)"
  proof (cases "decode_fixed E 32 (path_id path) STR ''data ID''")
    case (Inl e)
    then show ?thesis unfolding serve_path_def s k prod.case Inl sum.case
      by (auto simp: sandboxed_def Inl arns_path_route_def split: option.splits)
  next
    case (Inr d)
    then show ?thesis unfolding serve_path_def s k prod.case Inr sum.case
      by (auto simp: sandboxed_def Inr here [OF Inr] dest: redirect_location split: option.splits)
  qed
  moreover have "sandboxed E C permit R i (serve_raw E C permit R i)"
    by (auto simp: serve_raw_def sandboxed_def here dest: redirect_location split: option.splits sum.splits)
  ultimately show ?thesis by blast
qed

section \<open>A sandboxed request\<close>

definition t_id :: bytes where "t_id = replicate 32 7"
definition t_root :: RootHost where
  "t_root = \<lparr>rh_host = ''ar'', rh_apex_name = None, rh_wallet = None, rh_signer = None\<rparr>"
definition t_config :: ServerConfig where
  "t_config = \<lparr>sc_root_hosts = [t_root], sc_apex_tx_id = None, sc_apex_max_age = 60, sc_arns_program_id = [],
     sc_ant_program_id = [], sc_max_concurrent_requests = 8\<rparr>"
definition t_request :: request where
  "t_request = \<lparr>rq_path = ''/'', rq_query = None, rq_method = ''GET'',
     rq_host = Some (sandbox_name t_id @ ''.ar''), rq_headers = \<lambda>name. []\<rparr>"

lemma t_sandbox: "sandbox_name t_id = ''a4dqobyha4dqobyha4dqobyha4dqobyha4dqobyha4dqobyha4dq''"
  unfolding t_id_def by code_simp

lemma t_host: "request_host t_request = Some (sandbox_name t_id @ ''.ar'')"
  by (simp add: request_host_def t_request_def trim_end_char_def t_sandbox) code_simp

lemma t_redirect: "sandbox_redirect t_config t_id t_request = None"
proof -
  have "under_root (sandbox_name t_id @ ''.ar'') t_root" using sandbox_host_under [of "sandbox_name t_id" t_root] by (simp add: t_root_def)
  then show ?thesis
    by (simp add: sandbox_redirect_def t_host root_host_def root_host_index_def t_config_def) (simp add: t_root_def)
qed

theorem content_stays_in_sandbox_witness:
  "serve_path sample t_config True t_request (hex t_id) = PathContent (hex t_id) [] False None \<and> sandbox_of t_config t_request t_id"
proof -
  have d: "decode_fixed sample 32 (hex t_id) STR ''data ID'' = Inr t_id" by (simp add: decode_fixed_def t_id_def)
  moreover have n: "CHR ''/'' \<notin> set (hex t_id)" unfolding t_id_def by code_simp
  ultimately have s: "serve_path sample t_config True t_request (hex t_id) = PathContent (hex t_id) [] False None"
    by (simp add: serve_path_def split_once_def t_redirect) (simp add: t_request_def)
  have "path_id (hex t_id) = hex t_id" using n by (auto simp: path_id_def takeWhile_eq_all_conv)
  then show ?thesis using content_stays_in_sandbox [of t_config sample True t_request "hex t_id"] s d
    by (simp add: sandboxed_def t_config_def)
qed
end
