(* ===== verification/ArnsProofs.thy ===== *)
theory ArnsProofs
  imports Arns CacheProofs HostsProofs "HOL-Library.Product_Lexorder"
begin

text \<open>
  The resolution of names: the rank of an undername, the lifetime of a resolution over a sequence of requests, and the
  decoding of the accounts against the serialization of the programs.
\<close>

section \<open>Undernames\<close>

definition ant_key :: "AntRecord \<Rightarrow> nat \<times> nat \<times> nat" where
  "ant_key a = (if at_undername a = ''@'' then 0 else 1, case at_priority a of None \<Rightarrow> (1, 0) | Some p \<Rightarrow> (0, p))"

lemma ant_le_key: "ant_le a b \<longleftrightarrow> ant_key a < ant_key b
    \<or> (ant_key a = ant_key b \<and> bytes_le (as_bytes (at_undername a)) (as_bytes (at_undername b)))"
  by (cases "at_undername a = ''@''"; cases "at_undername b = ''@''"; cases "at_priority a"; cases "at_priority b")
    (auto simp: ant_le_def ant_key_def)

lemma ant_le_total: "ant_le a b \<or> ant_le b a"
  unfolding ant_le_key using bytes_le_total less_linear by metis

lemma lex_trans: "(x :: 'a :: order) < y \<or> (x = y \<and> bytes_le u v) \<Longrightarrow> y < z \<or> (y = z \<and> bytes_le v w) \<Longrightarrow> x < z \<or> (x = z \<and> bytes_le u w)"
  by (auto intro: bytes_le_trans)

lemma ant_le_trans: "ant_le a b \<Longrightarrow> ant_le b c \<Longrightarrow> ant_le a c"
  unfolding ant_le_key by (rule lex_trans)

lemma ant_le_antisym: "ant_le a b \<Longrightarrow> ant_le b a \<Longrightarrow> at_undername a = at_undername b"
  unfolding ant_le_key using bytes_le_antisym as_bytes_inj less_asym less_irrefl by metis

text \<open>The records of an answer: each from an account of the program, at the address its undername derives.\<close>

lemma ant_records_iff:
  "ant_records E Y program_id program mint accounts = Inr (addresses, entries) \<longleftrightarrow>
     mapE (program_ant_record E Y program_id program mint) accounts = Inr (zip addresses entries)
     \<and> length addresses = length entries \<and> distinct addresses"
proof -
  define step where "step = (\<lambda>(addresses, entries) account.
       bindE (program_ant_record E Y program_id program mint account) (\<lambda>(address, entry).
       ensure (address \<notin> set addresses) STR ''duplicate ANT record'' (Inr (addresses @ [address], entries @ [entry]))))"
  have "foldE step (as0, es0) accounts = Inr (addresses, entries) \<longleftrightarrow>
     (\<exists>as es. addresses = as0 @ as \<and> entries = es0 @ es \<and> length as = length es
        \<and> mapE (program_ant_record E Y program_id program mint) accounts = Inr (zip as es) \<and> distinct as \<and> set as \<inter> set as0 = {})"
    for as0 es0
  proof (induction accounts arbitrary: as0 es0)
    case Nil
    then show ?case by auto
  next
    case (Cons x xs)
    show ?case
    proof (cases "program_ant_record E Y program_id program mint x")
      case (Inl e)
      then show ?thesis by (simp add: step_def)
    next
      case (Inr ae)
      obtain a e where ae: "ae = (a, e)" by (cases ae)
      show ?thesis
      proof (cases "a \<in> set as0")
        case True
        have "foldE step (as0, es0) (x # xs) = Inl (Fail STR ''duplicate ANT record'')" using True Inr ae by (simp add: step_def)
        moreover have "\<not> (mapE (program_ant_record E Y program_id program mint) (x # xs) = Inr (zip as es) \<and> set as \<inter> set as0 = {})" for as es
          using True Inr ae by (cases as; cases es) (auto simp: bindE_eq_Inr)
        ultimately show ?thesis by auto
      next
        case False
        then have step: "foldE step (as0, es0) (x # xs) = foldE step (as0 @ [a], es0 @ [e]) xs" using Inr ae by (simp add: step_def)
        show ?thesis unfolding step Cons.IH
        proof (intro iffI; elim exE conjE)
          fix as es assume "addresses = (as0 @ [a]) @ as" "entries = (es0 @ [e]) @ es" "length as = length es"
            "mapE (program_ant_record E Y program_id program mint) xs = Inr (zip as es)" "distinct as" "set as \<inter> set (as0 @ [a]) = {}"
          then show "\<exists>as es. addresses = as0 @ as \<and> entries = es0 @ es \<and> length as = length es
              \<and> mapE (program_ant_record E Y program_id program mint) (x # xs) = Inr (zip as es) \<and> distinct as \<and> set as \<inter> set as0 = {}"
            using Inr ae False by (intro exI [of _ "a # as"] exI [of _ "e # es"]) auto
        next
          fix as es assume h: "addresses = as0 @ as" "entries = es0 @ es" "length as = length es"
            "mapE (program_ant_record E Y program_id program mint) (x # xs) = Inr (zip as es)" "distinct as" "set as \<inter> set as0 = {}"
          then obtain as' es' where "as = a # as'" "es = e # es'" "mapE (program_ant_record E Y program_id program mint) xs = Inr (zip as' es')"
            using Inr ae by (cases as; cases es) (auto simp: bindE_eq_Inr)
          then show "\<exists>as es. addresses = (as0 @ [a]) @ as \<and> entries = (es0 @ [e]) @ es \<and> length as = length es
              \<and> mapE (program_ant_record E Y program_id program mint) xs = Inr (zip as es) \<and> distinct as \<and> set as \<inter> set (as0 @ [a]) = {}"
            using h by auto
        qed
      qed
    qed
  qed
  from this [of "[]" "[]"] show ?thesis by (auto simp: ant_records_def step_def [symmetric])
qed

lemma program_ant_record_address:
  assumes "program_ant_record E Y program_id program mint account = Inr (a, e)"
    and "program_ant_record E Y program_id program mint account' = Inr (a', e')" and "at_undername e = at_undername e'"
  shows "a = a'"
proof -
  have "\<exists>b. y_program_address Y [ANT_RECORD_SEED, mint, sha256 E [as_bytes (at_undername e)]] program = Some (a, b)"
    if "program_ant_record E Y program_id program mint account = Inr (a, e)" for account a e
    using that by (auto simp: program_ant_record_def bindE_eq_Inr contextE_eq_Inr Let_def split: if_splits)
  from this [OF assms(1)] this [OF assms(2)] assms(3) show ?thesis by auto
qed

lemma mapE_mset:
  assumes "mapE f xs = Inr ys" and "mset xs' = mset xs"
  shows "\<exists>ys'. mapE f xs' = Inr ys' \<and> mset ys' = mset ys"
proof -
  have "list_all2 (\<lambda>x y. f x = Inr y) xs ys" using assms(1) by (simp add: mapE_eq_Inr)
  then obtain ys' where "list_all2 (\<lambda>x y. f x = Inr y) xs' ys'" "mset ys' = mset ys"
    using list_all2_reorder_left_invariance [of "\<lambda>x y. f x = Inr y" xs ys xs'] assms(2) by auto
  then show ?thesis by (auto simp: mapE_eq_Inr)
qed

lemma ant_records_mset:
  assumes "ant_records E Y program_id program mint accounts = Inr (addresses, entries)" and "mset accounts' = mset accounts"
  shows "\<exists>addresses' entries'. ant_records E Y program_id program mint accounts' = Inr (addresses', entries')
    \<and> mset entries' = mset entries"
proof -
  have r: "mapE (program_ant_record E Y program_id program mint) accounts = Inr (zip addresses entries)"
    "length addresses = length entries" "distinct addresses" using assms(1) by (simp_all add: ant_records_iff)
  from mapE_mset [OF r(1) assms(2)] obtain ys where
    y: "mapE (program_ant_record E Y program_id program mint) accounts' = Inr ys" "mset ys = mset (zip addresses entries)" by blast
  have "mset (map fst ys) = mset (map fst (zip addresses entries))" "mset (map snd ys) = mset (map snd (zip addresses entries))"
    by (simp_all only: mset_map y(2))
  then have m: "mset (map fst ys) = mset addresses" "mset (map snd ys) = mset entries" using r(2) by simp_all
  then have "distinct (map fst ys)" using r(3) mset_eq_imp_distinct_iff by blast
  moreover have "ys = zip (map fst ys) (map snd ys)" by (simp add: zip_map_fst_snd)
  ultimately have "ant_records E Y program_id program mint accounts' = Inr (map fst ys, map snd ys)"
    using y(1) by (simp only: ant_records_iff length_map simp_thms)
  then show ?thesis using m(2) by blast
qed

lemma ant_records_distinct:
  assumes "ant_records E Y program_id program mint accounts = Inr (addresses, entries)"
  shows "distinct (map at_undername entries)"
proof -
  have r: "list_all2 (\<lambda>x y. program_ant_record E Y program_id program mint x = Inr y) accounts (zip addresses entries)"
    "length addresses = length entries" "distinct addresses" using assms by (simp_all add: ant_records_iff mapE_eq_Inr)
  have "addresses ! i = addresses ! j" if "i < length entries" "j < length entries"
    "at_undername (entries ! i) = at_undername (entries ! j)" for i j
  proof -
    have "program_ant_record E Y program_id program mint (accounts ! k) = Inr (addresses ! k, entries ! k)" if "k < length entries" for k
      using list_all2_nthD2 [OF r(1), of k] r(2) that by simp
    from program_ant_record_address [OF this [OF that(1)] this [OF that(2)] that(3)] show ?thesis .
  qed
  then show ?thesis
    using r(2,3) unfolding distinct_conv_nth length_map by (metis nth_map)
qed

lemma ant_sort_unique:
  assumes "distinct (map at_undername entries)" and "mset entries' = mset entries"
  shows "sort_by ant_le entries' = sort_by ant_le entries"
proof (rule sorted_unique_by [of ant_le])
  show "sorted_wrt ant_le (sort_by ant_le entries')" "sorted_wrt ant_le (sort_by ant_le entries)"
    by (rule sorted_sort_by [of ant_le, OF ant_le_total ant_le_trans]; assumption)+
  show "mset (sort_by ant_le entries') = mset (sort_by ant_le entries)" using assms(2) by simp
  have "set entries' = set entries" using assms(2) by (metis set_mset_mset)
  then show "x = y" if "x \<in> set (sort_by ant_le entries')" "y \<in> set (sort_by ant_le entries')" "ant_le x y" "ant_le y x" for x y
    using that(1,2) ant_le_antisym [OF that(3,4)] assms(1) by (auto simp: distinct_map inj_on_def)
qed

text \<open>The rank of an undername: the records before it.\<close>

lemma find_enumerate:
  "List.find (\<lambda>(_, x). P x) (enumerate n xs) = Some (k, x) \<Longrightarrow> n \<le> k \<and> k < n + length xs \<and> xs ! (k - n) = x \<and> P x"
proof (induction xs arbitrary: n)
  case (Cons y ys)
  show ?case
  proof (cases "P y")
    case True
    then show ?thesis using Cons.prems by auto
  next
    case False
    then have "Suc n \<le> k \<and> k < Suc n + length ys \<and> ys ! (k - Suc n) = x \<and> P x" using Cons.IH [of "Suc n"] Cons.prems by simp
    moreover from this have "k - n = Suc (k - Suc n)" by linarith
    ultimately show ?thesis by simp
  qed
qed simp

lemma rank_card:
  assumes "sorted_wrt ant_le xs" and "distinct (map at_undername xs)" and "k < length xs"
  shows "k = card {e \<in> set xs. ant_le e (xs ! k) \<and> e \<noteq> xs ! k}"
proof -
  have d: "distinct xs" using assms(2) by (simp add: distinct_map)
  have u: "ant_le e e' \<Longrightarrow> ant_le e' e \<Longrightarrow> e = e'" if "e \<in> set xs" "e' \<in> set xs" for e e'
    using inj_onD [of at_undername "set xs" e e'] ant_le_antisym [of e e'] that assms(2) unfolding distinct_map by blast
  have "{e \<in> set xs. ant_le e (xs ! k) \<and> e \<noteq> xs ! k} = set (take k xs)"
  proof (intro equalityI subsetI)
    fix e assume e: "e \<in> {e \<in> set xs. ant_le e (xs ! k) \<and> e \<noteq> xs ! k}"
    then obtain i where i: "i < length xs" "e = xs ! i" by (auto simp: in_set_conv_nth)
    have "i < k"
    proof (rule ccontr)
      assume "\<not> i < k"
      then have "i = k \<or> ant_le (xs ! k) (xs ! i)" using assms(1) i(1) by (auto simp: sorted_wrt_iff_nth_less not_less le_less)
      then show False using e i u [of "xs ! k" "xs ! i"] assms(3) by auto
    qed
    then show "e \<in> set (take k xs)" using i by (auto simp: in_set_conv_nth intro!: exI [of _ i])
  next
    fix e assume "e \<in> set (take k xs)"
    then obtain i where i: "i < k" "e = xs ! i" using assms(3) by (auto simp: in_set_conv_nth)
    then have "ant_le e (xs ! k)" using assms(1,3) by (simp add: sorted_wrt_iff_nth_less)
    moreover have "e \<noteq> xs ! k" using i d assms(3) nth_eq_iff_index_eq [OF d] by auto
    ultimately show "e \<in> {e \<in> set xs. ant_le e (xs ! k) \<and> e \<noteq> xs ! k}" using i assms(3) by simp
  qed
  moreover have "card (set (take k xs)) = k" using d assms(3) by (simp add: distinct_card)
  ultimately show ?thesis by simp
qed

text \<open>C33. The rank of an undername, which the gateway compares with the limit the owner paid for, does not depend on the order in which the chain lists the records: any other order gives the same answer, and a record's rank is the number of records before it, the root first, then those with a priority.\<close>

theorem undername_rank_canonical:
  assumes "select_ant_record E Y accounts program_id mint undername = Inr answer" and "mset accounts' = mset accounts"
  shows "select_ant_record E Y accounts' program_id mint undername = Inr answer
    \<and> (\<forall>k e. answer = Some (k, e) \<longrightarrow> at_undername e = undername \<and> (\<exists>program addresses entries.
         ant_records E Y program_id program mint accounts = Inr (addresses, entries) \<and> e \<in> set entries
         \<and> k = card {e' \<in> set entries. ant_le e' e \<and> e' \<noteq> e}))"
proof -
  obtain program addresses entries where
    len: "length accounts \<le> MAX_ANT_RECORDS" and p: "decode_pubkey Y program_id STR ''ANT program ID'' = Inr program"
    and e: "ant_records E Y program_id program mint accounts = Inr (addresses, entries)"
    and root: "case sort_by ant_le entries of [] \<Rightarrow> True | entry # _ \<Rightarrow> at_undername entry = ''@''"
    and ans: "answer = List.find (\<lambda>(_, entry). at_undername entry = undername) (enumerate 0 (sort_by ant_le entries))"
    using assms(1) unfolding select_ant_record_def Let_def bindE_eq_Inr ensure_eq_Inr split_paired_Ex prod.case by blast
  obtain addresses' entries' where e': "ant_records E Y program_id program mint accounts' = Inr (addresses', entries')"
    "mset entries' = mset entries" using ant_records_mset [OF e assms(2)] by blast
  note d = ant_records_distinct [OF e]
  have len': "length accounts' \<le> MAX_ANT_RECORDS" using len assms(2) by (metis size_mset)
  have sel: "select_ant_record E Y accounts' program_id mint undername = Inr answer"
    using len' p e'(1) root ans ant_sort_unique [OF d e'(2)] by (simp add: select_ant_record_def)
  have rank: "at_undername e0 = undername \<and> e0 \<in> set entries \<and> k = card {e' \<in> set entries. ant_le e' e0 \<and> e' \<noteq> e0}"
    if "answer = Some (k, e0)" for k e0
  proof -
    have f: "k < length entries" "sort_by ant_le entries ! k = e0" "at_undername e0 = undername"
      using find_enumerate [of "\<lambda>entry. at_undername entry = undername" 0 "sort_by ant_le entries" k e0] that ans by auto
    have "distinct (map at_undername (sort_by ant_le entries))" using d by (metis mset_eq_imp_distinct_iff mset_map mset_sort_by)
    from rank_card [OF sorted_sort_by [of ant_le, OF ant_le_total ant_le_trans] this, where k = k] f
    show ?thesis using nth_mem [of k "sort_by ant_le entries"] by simp
  qed
  show ?thesis using sel rank e by blast
qed

section \<open>Lifetimes\<close>

text \<open>One request for a name: its clock, the instants of its lookups and its insertion, and what the chain answers at that time.\<close>

record name_call =
  nc_chain :: solana
  nc_now :: times
  nc_first :: nat
  nc_again :: nat
  nc_kept :: nat
  nc_name :: str

text \<open>
  What the chain said for a resolution: the account of the name, its lease, and the record of the undername.  The
  resolution ends by its time to live, and by the end of the lease and the grace period, which the chain stated at
  this request or at one of \<open>S\<close> less than an hour before.
\<close>

definition grace_stated :: "ServerConfig \<Rightarrow> name_call set \<Rightarrow> name_call \<Rightarrow> int \<Rightarrow> bool" where
  "grace_stated C S q grace \<longleftrightarrow> fetch_grace_period (nc_chain q) C = Inr grace
     \<or> (\<exists>p \<in> S. fetch_grace_period (nc_chain p) C = Inr grace \<and> tm_checked (nc_now q) < tm_fetched (nc_now p) + ARNS_CONFIG_TTL)"

definition resolution_evidence :: "deps \<Rightarrow> ServerConfig \<Rightarrow> name_call set \<Rightarrow> name_call \<Rightarrow> Resolution \<Rightarrow> bool" where
  "resolution_evidence E C S q r \<longleftrightarrow> rs_name r = nc_name q \<and> (\<exists>arns entry.
     split_arns_name (rs_name r) = Inr (rs_basename r, rs_record r)
     \<and> arns_account E (nc_chain q) C (rs_basename r) = Inr (Some arns)
     \<and> ant_entry E (nc_chain q) C (an_ant arns) (rs_record r) = Inr (Some (rs_index r, entry))
     \<and> rs_resolved_id r = at_target entry \<and> at_target_protocol entry = 0 \<and> rs_limit r = an_undername_limit arns
     \<and> (\<exists>d. decode_fixed E 32 (rs_resolved_id r) STR ''resolved data ID'' = Inr d)
     \<and> tm_started (nc_now q) \<le> rs_expires_at r \<and> rs_expires_at r \<le> tm_started (nc_now q) + at_ttl entry * SECOND
     \<and> (\<forall>end_timestamp. an_end_timestamp arns = Some end_timestamp \<longrightarrow> (\<exists>grace. grace_stated C S q grace
          \<and> tm_wall (nc_now q) + (rs_expires_at r - tm_started (nc_now q)) \<le> nat (end_timestamp + grace) * SECOND)))"

lemma resolution_evidence_mono: "resolution_evidence E C S q r \<Longrightarrow> S \<subseteq> T \<Longrightarrow> resolution_evidence E C T q r"
  unfolding resolution_evidence_def grace_stated_def by blast

lemma resolution_evidence_name: "resolution_evidence E C S q r \<Longrightarrow> rs_name r = nc_name q"
  by (simp add: resolution_evidence_def)

text \<open>The grace period that is kept was stated by the chain.\<close>

definition grace_ok :: "ServerConfig \<Rightarrow> name_call set \<Rightarrow> (nat \<times> int) option \<Rightarrow> bool" where
  "grace_ok C S cached \<longleftrightarrow> (\<forall>x grace. cached = Some (x, grace) \<longrightarrow>
     (\<exists>p \<in> S. fetch_grace_period (nc_chain p) C = Inr grace \<and> x = tm_fetched (nc_now p) + ARNS_CONFIG_TTL))"

lemma arns_grace_period_ok:
  assumes "arns_grace_period (nc_chain q) C (nc_now q) cached = (r, cached')" and "grace_ok C S cached"
  shows "grace_ok C (insert q S) cached' \<and> (\<forall>grace. r = Inr grace \<longrightarrow> grace_stated C S q grace)"
  using assms by (auto simp: arns_grace_period_def grace_ok_def grace_stated_def split: option.splits sum.splits prod.splits if_splits)

lemma arns_lease_remaining_le:
  "arns_lease_remaining e grace now = Inr remaining \<Longrightarrow> remaining \<noteq> 0 \<Longrightarrow> now + remaining \<le> nat (e + grace) * SECOND"
  by (auto simp: arns_lease_remaining_def Let_def split: if_splits)

lemma lease_ok:
  assumes "lease (nc_chain q) C (nc_now q) end_timestamp cached = (r, cached')" and "grace_ok C S cached"
  shows "grace_ok C (insert q S) cached' \<and> (\<forall>remaining. r = Inr (Some remaining) \<longrightarrow> (case end_timestamp of None \<Rightarrow> remaining = None
     | Some e \<Rightarrow> (\<exists>n grace. remaining = Some n \<and> grace_stated C S q grace \<and> tm_wall (nc_now q) + n \<le> nat (e + grace) * SECOND)))"
proof (cases end_timestamp)
  case None
  then show ?thesis using assms by (auto simp: lease_def grace_ok_def)
next
  case (Some e)
  obtain g c where g: "arns_grace_period (nc_chain q) C (nc_now q) cached = (g, c)" by fastforce
  note ok = arns_grace_period_ok [OF g assms(2)]
  show ?thesis
    using assms(1) Some g ok arns_lease_remaining_le
    by (auto simp: lease_def bindE_eq_Inr split: if_splits) metis
qed

lemma resolution_of_eq:
  "resolution_of E Y C now name basename undername arns remaining = Inr (Some res) \<longleftrightarrow>
     (\<exists>index entry d. ant_entry E Y C (an_ant arns) undername = Inr (Some (index, entry)) \<and> at_target_protocol entry = 0
        \<and> decode_fixed E 32 (at_target entry) STR ''resolved data ID'' = Inr d
        \<and> res = \<lparr>rs_name = name, rs_basename = basename, rs_record = undername, rs_resolved_id = at_target entry,
             rs_ttl = at_ttl entry, rs_ant_id = y_b58_encode Y (an_ant arns), rs_limit = an_undername_limit arns,
             rs_index = index, rs_resolved_at = tm_wall now div 1000000,
             rs_expires_at = tm_started now + (case remaining of None \<Rightarrow> at_ttl entry * SECOND
               | Some n \<Rightarrow> min n (at_ttl entry * SECOND))\<rparr>)"
proof (cases "ant_entry E Y C (an_ant arns) undername")
  case (Inr sel)
  then show ?thesis
    by (cases sel; cases "the sel") (auto simp: resolution_of_def bindE_eq_Inr Let_def)
qed (simp add: resolution_of_def)

lemma resolve_uncached_evidence:
  assumes "resolve_arns_uncached E (nc_chain q) C (nc_now q) cached (nc_name q) = (r, cached')" and "grace_ok C S cached"
  shows "grace_ok C (insert q S) cached' \<and> (\<forall>res. r = Inr (Some res) \<longrightarrow> resolution_evidence E C S q res)"
proof (cases "bindE (split_arns_name (nc_name q)) (\<lambda>(basename, undername).
           bindE (arns_account E (nc_chain q) C basename) (\<lambda>arns. Inr (basename, undername, arns)))")
  case (Inl e)
  then show ?thesis using assms by (auto simp: resolve_arns_uncached_def grace_ok_def)
next
  case (Inr x)
  obtain basename undername account where x: "x = (basename, undername, account)" by (cases x)
  show ?thesis
  proof (cases account)
    case None
    then show ?thesis using assms Inr x by (auto simp: resolve_arns_uncached_def grace_ok_def)
  next
    case (Some arns)
    have n: "split_arns_name (nc_name q) = Inr (basename, undername)" "arns_account E (nc_chain q) C basename = Inr (Some arns)"
      using Inr x Some by (auto simp: bindE_eq_Inr)
    obtain l c where l: "lease (nc_chain q) C (nc_now q) (an_end_timestamp arns) cached = (l, c)" by fastforce
    have r: "cached' = c" "r = bindE l (\<lambda>leased. case leased of None \<Rightarrow> Inr None
           | Some lease_remaining \<Rightarrow> resolution_of E (nc_chain q) C (nc_now q) (nc_name q) basename undername arns lease_remaining)"
      using assms(1) Inr x Some l by (simp_all add: resolve_arns_uncached_def)
    note ok = lease_ok [OF l assms(2)]
    have "resolution_evidence E C S q res" if given: "r = Inr (Some res)" for res
    proof -
      obtain remaining where rem: "l = Inr (Some remaining)" and
        res: "resolution_of E (nc_chain q) C (nc_now q) (nc_name q) basename undername arns remaining = Inr (Some res)"
      proof -
        obtain y where "l = Inr y" "(case y of None \<Rightarrow> Inr None
           | Some lease_remaining \<Rightarrow> resolution_of E (nc_chain q) C (nc_now q) (nc_name q) basename undername arns lease_remaining) = Inr (Some res)"
          using given r(2) by (auto simp: bindE_eq_Inr)
        then show thesis using that by (cases y) auto
      qed
      obtain index entry d where e: "ant_entry E (nc_chain q) C (an_ant arns) undername = Inr (Some (index, entry))"
        "at_target_protocol entry = 0" "decode_fixed E 32 (at_target entry) STR ''resolved data ID'' = Inr d"
        "res = \<lparr>rs_name = nc_name q, rs_basename = basename, rs_record = undername, rs_resolved_id = at_target entry,
             rs_ttl = at_ttl entry, rs_ant_id = y_b58_encode (nc_chain q) (an_ant arns), rs_limit = an_undername_limit arns,
             rs_index = index, rs_resolved_at = tm_wall (nc_now q) div 1000000,
             rs_expires_at = tm_started (nc_now q) + (case remaining of None \<Rightarrow> at_ttl entry * SECOND
               | Some n \<Rightarrow> min n (at_ttl entry * SECOND))\<rparr>"
        using res unfolding resolution_of_eq by blast
      have "tm_started (nc_now q) \<le> rs_expires_at res" "rs_expires_at res \<le> tm_started (nc_now q) + at_ttl entry * SECOND"
        using e(4) by (auto split: option.splits)
      moreover have "\<exists>grace. grace_stated C S q grace \<and> tm_wall (nc_now q) + (rs_expires_at res - tm_started (nc_now q)) \<le> nat (end_timestamp + grace) * SECOND"
        if leased: "an_end_timestamp arns = Some end_timestamp" for end_timestamp
      proof -
        obtain n grace where "remaining = Some n" "grace_stated C S q grace" "tm_wall (nc_now q) + n \<le> nat (end_timestamp + grace) * SECOND"
          using ok rem leased by auto
        then show ?thesis using e(4) by (intro exI [of _ grace]) simp
      qed
      ultimately show ?thesis using n e by (auto simp: resolution_evidence_def)
    qed
    then show ?thesis using ok r(1) by blast
  qed
qed

text \<open>A sequence of requests over one cache.\<close>

fun resolve_all ::
  "deps \<Rightarrow> ServerConfig \<Rightarrow> ArnsCache \<times> (nat \<times> int) option \<Rightarrow> name_call list \<Rightarrow> Resolution option res list" where
  "resolve_all E C st [] = []"
| "resolve_all E C st (q # qs) =
     (case resolve_arns E (nc_chain q) C (nc_now q) (nc_first q) (nc_again q) (nc_kept q) (nc_name q) st of
        (r, st) \<Rightarrow> r # resolve_all E C st qs)"

definition names_ok :: "deps \<Rightarrow> ServerConfig \<Rightarrow> name_call set \<Rightarrow> ArnsCache \<times> (nat \<times> int) option \<Rightarrow> bool" where
  "names_ok E C S st \<longleftrightarrow> grace_ok C S (snd st) \<and> (\<forall>(n, r, used) \<in> set (ac_entries (fst st)).
     rs_name r = n \<and> (\<exists>q \<in> S. resolution_evidence E C S q r))"

lemma arns_get_ok:
  assumes "names_ok E C S (c, cached)" and "arns_get now name c = (r, c')"
  shows "names_ok E C S (c', cached) \<and> (\<forall>res. r = Some res \<longrightarrow> rs_name res = name \<and> now < rs_expires_at res
    \<and> (\<exists>q \<in> S. resolution_evidence E C S q res))"
proof (cases "map_of (ac_entries c) name")
  case None
  then show ?thesis using assms by (simp add: arns_get_def)
next
  case (Some e)
  then obtain res u where e: "e = (res, u)" "(name, res, u) \<in> set (ac_entries c)" by (cases e) (auto dest: map_of_SomeD)
  have ok: "rs_name res = name" "\<exists>q \<in> S. resolution_evidence E C S q res"
    using assms(1) e(2) by (auto simp: names_ok_def)
  have s: "set (del_key name (ac_entries c)) \<subseteq> set (ac_entries c)" by (auto simp: del_key_def)
  show ?thesis
  proof (cases "rs_expires_at res \<le> now")
    case True
    then have "r = None" "c' = c\<lparr>ac_entries := del_key name (ac_entries c)\<rparr>" using assms(2) Some e by (simp_all add: arns_get_def)
    then show ?thesis using assms(1) s by (auto simp: names_ok_def)
  next
    case False
    then have "r = Some res" "ac_entries c' = put_key name (res, ac_clock c + 1) (ac_entries c)"
      using assms(2) Some e by (auto simp: arns_get_def Let_def)
    then show ?thesis using assms(1) s ok False by (auto simp: names_ok_def put_key_def)
  qed
qed

lemma arns_insert_ok:
  assumes "names_ok E C S (c, cached)" and "arns_insert now res c = Inr c'"
    and "\<exists>q \<in> S. resolution_evidence E C S q res"
  shows "names_ok E C S (c', cached)"
proof -
  have "set (ac_entries c') \<subseteq> insert (rs_name res, res, ac_clock c + 1) (set (ac_entries c))"
    using assms(2) by (auto simp: arns_insert_def Let_def put_key_def del_key_def split: if_splits option.splits)
  then show ?thesis using assms(1,3) by (fastforce simp: names_ok_def)
qed

lemma names_ok_mono: "names_ok E C S st \<Longrightarrow> S \<subseteq> T \<Longrightarrow> names_ok E C T st"
proof -
  assume ok: "names_ok E C S st" and S: "S \<subseteq> T"
  have "grace_ok C T (snd st)" using ok S unfolding names_ok_def grace_ok_def by blast
  moreover have "(\<exists>q \<in> S. resolution_evidence E C S q r) \<Longrightarrow> (\<exists>q \<in> T. resolution_evidence E C T q r)" for r
    using resolution_evidence_mono S by blast
  ultimately show ?thesis using ok unfolding names_ok_def by blast
qed

lemma resolve_arns_ok:
  assumes "resolve_arns E (nc_chain q) C (nc_now q) (nc_first q) (nc_again q) (nc_kept q) (nc_name q) st = (r, st')"
    and "names_ok E C S st"
  shows "names_ok E C (insert q S) st' \<and> (\<forall>res. r = Inr (Some res) \<longrightarrow> rs_name res = nc_name q
    \<and> (resolution_evidence E C S q res
       \<or> ((nc_first q < rs_expires_at res \<or> nc_again q < rs_expires_at res)
          \<and> (\<exists>p \<in> S. resolution_evidence E C S p res))))"
proof -
  obtain c cached where st: "st = (c, cached)" by (cases st)
  obtain r1 c1 where g1: "arns_get (nc_first q) (nc_name q) c = (r1, c1)" by fastforce
  note ok1 = arns_get_ok [OF assms(2) [unfolded st] g1]
  show ?thesis
  proof (cases r1)
    case (Some res)
    then show ?thesis using assms(1) st g1 ok1 names_ok_mono [OF conjunct1 [OF ok1], of "insert q S"] by (auto simp: resolve_arns_def)
  next
    case None
    obtain r2 c2 where g2: "arns_get (nc_again q) (nc_name q) c1 = (r2, c2)" by fastforce
    note ok2 = arns_get_ok [OF conjunct1 [OF ok1] g2]
    show ?thesis
    proof (cases r2)
      case (Some res)
      then show ?thesis using assms(1) st g1 g2 None ok2 names_ok_mono [OF conjunct1 [OF ok2], of "insert q S"] by (auto simp: resolve_arns_def)
    next
      case none2: None
      obtain x cached' where u: "resolve_arns_uncached E (nc_chain q) C (nc_now q) cached (nc_name q) = (x, cached')" by fastforce
      have ev: "grace_ok C (insert q S) cached' \<and> (\<forall>res. x = Inr (Some res) \<longrightarrow> resolution_evidence E C S q res)"
        using resolve_uncached_evidence [OF u] assms(2) st by (simp add: names_ok_def)
      have ok: "names_ok E C (insert q S) (c2, cached')"
        using names_ok_mono [OF conjunct1 [OF ok2] subset_insertI [of S q]] ev by (simp add: names_ok_def)
      have step: "(r, st') = (case x of Inl e \<Rightarrow> (Inl e, (c2, cached')) | Inr None \<Rightarrow> (Inr None, (c2, cached'))
          | Inr (Some res) \<Rightarrow> (case arns_insert (nc_kept q) res c2 of Inl e \<Rightarrow> (Inl e, (c2, cached')) | Inr c \<Rightarrow> (Inr (Some res), (c, cached'))))"
        using assms(1) st g1 g2 None none2 u by (simp add: resolve_arns_def split: sum.splits option.splits)
      show ?thesis
      proof (cases "\<exists>res. x = Inr (Some res)")
        case False
        then show ?thesis using step ok by (auto split: sum.splits option.splits)
      next
        case True
        then obtain res where x: "x = Inr (Some res)" by blast
        show ?thesis
        proof (cases "arns_insert (nc_kept q) res c2")
          case (Inl e)
          then show ?thesis using step ok x by simp
        next
          case (Inr c3)
          have "names_ok E C (insert q S) (c3, cached')" 
            by (rule arns_insert_ok [OF ok Inr]) (use ev x resolution_evidence_mono [OF _ subset_insertI [of S q]] in blast)
          then show ?thesis using step x Inr ev resolution_evidence_name [of E C S q res] by simp
        qed
      qed
    qed
  qed
qed

lemma resolve_all_ok:
  assumes "names_ok E C S st" and "(q, Inr (Some res)) \<in> set (zip qs (resolve_all E C st qs))"
  shows "rs_name res = nc_name q \<and> (resolution_evidence E C (S \<union> set qs) q res
     \<or> ((nc_first q < rs_expires_at res \<or> nc_again q < rs_expires_at res)
        \<and> (\<exists>p \<in> S \<union> set qs. resolution_evidence E C (S \<union> set qs) p res)))"
  using assms
proof (induction qs arbitrary: S st)
  case (Cons x qs)
  obtain r st' where r: "resolve_arns E (nc_chain x) C (nc_now x) (nc_first x) (nc_again x) (nc_kept x) (nc_name x) st = (r, st')"
    by (cases "resolve_arns E (nc_chain x) C (nc_now x) (nc_first x) (nc_again x) (nc_kept x) (nc_name x) st")
  note ok = resolve_arns_ok [OF r Cons.prems(1)]
  show ?case
  proof (cases "(q, Inr (Some res)) = (x, r)")
    case True
    have "S \<subseteq> S \<union> set (x # qs)" by blast
    then have "resolution_evidence E C S p res \<Longrightarrow> resolution_evidence E C (S \<union> set (x # qs)) p res" for p
      by (rule resolution_evidence_mono [rotated])
    then show ?thesis using ok True by blast
  next
    case False
    then have "(q, Inr (Some res)) \<in> set (zip qs (resolve_all E C st' qs))" using Cons.prems(2) r by auto
    from Cons.IH [OF conjunct1 [OF ok] this] show ?thesis by auto
  qed
qed simp

text \<open>C34. A name is served with a target only while the chain's word for it holds: every resolution, fresh or cached, is one the chain's accounts gave for that name, at this request or an earlier one, with the rank and limit they state; a cached one is served before it expires; and none lasts longer than its time to live, or than the lease of the name and its grace period.\<close>

theorem resolved_names_sound:
  assumes "(q, Inr (Some res)) \<in> set (zip qs (resolve_all E C (empty_arns, None) qs))"
  shows "rs_name res = nc_name q \<and> (resolution_evidence E C (set qs) q res
     \<or> ((nc_first q < rs_expires_at res \<or> nc_again q < rs_expires_at res)
        \<and> (\<exists>p \<in> set qs. resolution_evidence E C (set qs) p res)))"
proof -
  have "names_ok E C {} (empty_arns, None)" by (simp add: names_ok_def grace_ok_def empty_arns_def)
  from resolve_all_ok [OF this assms] show ?thesis by simp
qed

section \<open>Accounts read back\<close>

definition rest_at :: "bytes \<Rightarrow> nat \<Rightarrow> bytes \<Rightarrow> bool" where
  "rest_at bs c xs \<longleftrightarrow> c \<le> length bs \<and> drop c bs = xs \<and> length bs < USIZE"

lemma rest_next: "rest_at bs c (v @ xs) \<Longrightarrow> rest_at bs (c + length v) xs"
proof -
  assume r: "rest_at bs c (v @ xs)"
  then have "length bs - c = length (v @ xs)" by (metis length_drop rest_at_def)
  moreover have "c \<le> length bs" using r by (simp add: rest_at_def)
  ultimately have "c + length v \<le> length bs" by (simp only: length_append)
  moreover have "drop (c + length v) bs = xs" using r by (metis add.commute append_eq_conv_conj drop_drop rest_at_def)
  ultimately show ?thesis using r by (simp add: rest_at_def)
qed

lemma take_at: "rest_at bs c (v @ xs) \<Longrightarrow> n = length v \<Longrightarrow> take_bytes bs c n l = Inr (v, c + n)"
proof -
  assume r: "rest_at bs c (v @ xs)" and n: "n = length v"
  then have "c + length v \<le> length bs" using rest_next [OF r] by (simp add: rest_at_def)
  then show ?thesis using r n by (simp add: take_bytes_eq rest_at_def)
qed

definition i64_bytes :: "int \<Rightarrow> bytes" where
  "i64_bytes x = le_bytes 8 (unat (word_of_int x :: 64 word))"

lemma i64_bytes_length [simp]: "length (i64_bytes x) = 8" by (simp add: i64_bytes_def)

lemma i64_read: "- (2 ^ 63) \<le> x \<Longrightarrow> x < 2 ^ 63 \<Longrightarrow> sint (word_of_nat (le_nat (i64_bytes x)) :: 64 word) = x"
proof -
  assume x: "- (2 ^ 63) \<le> x" "x < 2 ^ 63"
  have "unat (word_of_int x :: 64 word) < 256 ^ 8" using unsigned_less [of "word_of_int x :: 64 word", where ?'a = nat] by simp
  then have "le_nat (i64_bytes x) = unat (word_of_int x :: 64 word)" by (simp only: i64_bytes_def le_nat_le_bytes)
  then have "(word_of_nat (le_nat (i64_bytes x)) :: 64 word) = word_of_int x" by simp
  then show ?thesis using x by (simp add: signed_of_int signed_take_bit_int_eq_self)
qed

lemma le_nat_one: "le_nat [b] = unat b"
  using be_nat_snoc [of "[]" b] by (simp add: le_nat_def)

lemma read_u8_at: "rest_at bs c (b # xs) \<Longrightarrow> read_u8 bs c l = Inr (unat b, c + 1) \<and> rest_at bs (c + 1) xs"
  using take_at [of bs c "[b]" xs 1 l] rest_next [of bs c "[b]" xs] by (simp add: read_u8_def le_nat_one)

lemma read_u16_at: "rest_at bs c (le_bytes 2 n @ xs) \<Longrightarrow> n < 2 ^ 16 \<Longrightarrow> read_u16 bs c l = Inr (n, c + 2) \<and> rest_at bs (c + 2) xs"
  using take_at [of bs c "le_bytes 2 n" xs 2 l] rest_next [of bs c "le_bytes 2 n" xs] le_nat_le_bytes [of n 2] by (simp add: read_u16_def)

lemma read_u32_at: "rest_at bs c (le_bytes 4 n @ xs) \<Longrightarrow> n < 2 ^ 32 \<Longrightarrow> read_u32 bs c l = Inr (n, c + 4) \<and> rest_at bs (c + 4) xs"
  using take_at [of bs c "le_bytes 4 n" xs 4 l] rest_next [of bs c "le_bytes 4 n" xs] le_nat_le_bytes [of n 4] by (simp add: read_u32_def)

lemma read_u64_at: "rest_at bs c (le_bytes 8 n @ xs) \<Longrightarrow> n < 2 ^ 64 \<Longrightarrow> read_u64 bs c l = Inr (n, c + 8) \<and> rest_at bs (c + 8) xs"
  using take_at [of bs c "le_bytes 8 n" xs 8 l] rest_next [of bs c "le_bytes 8 n" xs] le_nat_le_bytes [of n 8] by (simp add: read_u64_def)

lemma read_i64_at: "rest_at bs c (i64_bytes x @ xs) \<Longrightarrow> - (2 ^ 63) \<le> x \<Longrightarrow> x < 2 ^ 63 \<Longrightarrow>
    read_i64 bs c l = Inr (x, c + 8) \<and> rest_at bs (c + 8) xs"
  using take_at [of bs c "i64_bytes x" xs 8 l] rest_next [of bs c "i64_bytes x" xs] i64_read [of x] by (simp add: read_i64_def)

definition text_bytes :: "str \<Rightarrow> bytes" where
  "text_bytes s = le_bytes 4 (length s) @ as_bytes s"

definition is_text :: "nat \<Rightarrow> str \<Rightarrow> bool" where
  "is_text maximum s \<longleftrightarrow> length s \<le> maximum \<and> maximum < 2 ^ 32 \<and> utf8_valid (as_bytes s)"

lemma char_of_as_bytes: "map char_of_byte (as_bytes s) = s"
proof -
  have "char_of_byte (byte_of_char c) = c" for c
  by (rule inj_byte_of_char) simp
  then show ?thesis by (induction s) (simp_all add: as_bytes_def)
qed

lemma read_string_at: "rest_at bs c (text_bytes s @ xs) \<Longrightarrow> is_text maximum s \<Longrightarrow>
    read_string bs c maximum l = Inr (s, c + length (text_bytes s)) \<and> rest_at bs (c + length (text_bytes s)) xs"
proof -
  assume r: "rest_at bs c (text_bytes s @ xs)" and t: "is_text maximum s"
  have l: "length (as_bytes s) = length s" by (simp add: as_bytes_def)
  have u: "read_u32 bs c l = Inr (length s, c + 4) \<and> rest_at bs (c + 4) (as_bytes s @ xs)" for l
    using read_u32_at [of bs c "length s" "as_bytes s @ xs"] r t by (auto simp: text_bytes_def is_text_def)
  have "take_bytes bs (c + 4) (length s) l = Inr (as_bytes s, c + 4 + length s)" for l
    using take_at [of bs "c + 4" "as_bytes s" xs "length s"] u l by simp
  moreover have "length (text_bytes s) = 4 + length s" by (simp add: text_bytes_def l)
  ultimately show ?thesis
    using u t rest_next [of bs "c + 4" "as_bytes s" xs] l
    by (simp add: read_string_def is_text_def from_utf8_def char_of_as_bytes add.assoc)
qed

definition is_i64 :: "int \<Rightarrow> bool" where "is_i64 x \<longleftrightarrow> - (2 ^ 63) \<le> x \<and> x < 2 ^ 63"

definition option_bytes :: "('a \<Rightarrow> bytes) \<Rightarrow> 'a option \<Rightarrow> bytes" where
  "option_bytes enc v = (case v of None \<Rightarrow> [0] | Some x \<Rightarrow> 1 # enc x)"

lemma option_at: "rest_at bs c (option_bytes enc v @ xs) \<Longrightarrow>
    (case v of None \<Rightarrow> read_u8 bs c l = Inr (0, c + 1) \<and> rest_at bs (c + 1) xs
     | Some x \<Rightarrow> read_u8 bs c l = Inr (1, c + 1) \<and> rest_at bs (c + 1) (enc x @ xs))"
  using read_u8_at [of bs c "hd (option_bytes enc v)" "tl (option_bytes enc v) @ xs" l]
  by (auto simp: option_bytes_def split: option.splits)

lemma read_option_i64_at: "rest_at bs c (option_bytes i64_bytes v @ xs) \<Longrightarrow> \<forall>e. v = Some e \<longrightarrow> is_i64 e \<Longrightarrow>
    read_option_i64 bs c l = Inr (v, c + length (option_bytes i64_bytes v)) \<and> rest_at bs (c + length (option_bytes i64_bytes v)) xs"
  using option_at [of bs c i64_bytes v xs l] read_i64_at [of bs "c + 1" "the v" xs l]
  by (cases v) (auto simp: read_option_i64_def option_bytes_def is_i64_def add.commute)

lemma read_option_u32_at: "rest_at bs c (option_bytes (le_bytes 4) v @ xs) \<Longrightarrow> \<forall>p. v = Some p \<longrightarrow> p < 2 ^ 32 \<Longrightarrow>
    read_option_u32 bs c l = Inr (v, c + length (option_bytes (le_bytes 4) v)) \<and> rest_at bs (c + length (option_bytes (le_bytes 4) v)) xs"
  using option_at [of bs c "le_bytes 4" v xs l] read_u32_at [of bs "c + 1" "the v" xs l]
  by (cases v) (auto simp: read_option_u32_def option_bytes_def add.commute)

lemma read_option_bytes32_at: "rest_at bs c (option_bytes id w @ xs) \<Longrightarrow> \<forall>b. w = Some b \<longrightarrow> length b = 32 \<Longrightarrow>
    read_option_bytes32 bs c l = Inr ((), c + length (option_bytes id w)) \<and> rest_at bs (c + length (option_bytes id w)) xs"
  using option_at [of bs c id w xs l] take_at [of bs "c + 1" "the w" xs 32 l] rest_next [of bs "c + 1" "the w" xs]
  by (cases w) (auto simp: read_option_bytes32_def option_bytes_def add.commute add.left_commute)

text \<open>The serializations of the two programs; \<open>junk\<close> is what an earlier, longer one left behind.\<close>

definition arns_record_bytes :: "deps \<Rightarrow> bytes \<Rightarrow> int \<Rightarrow> nat \<Rightarrow> ArnsRecord \<Rightarrow> bytes" where
  "arns_record_bytes E owner start price r =
     ARNS_RECORD_DISCRIMINATOR @ sha256 E [as_bytes (an_name r)] @ owner @ an_ant r
     @ (if an_end_timestamp r = None then 1 else 0) # i64_bytes start
     @ option_bytes i64_bytes (an_end_timestamp r)
     @ le_bytes 2 (an_undername_limit r) @ le_bytes 8 price @ word_of_nat (an_bump r) # text_bytes (an_name r) @ [1, 0, 0]"

definition ant_record_bytes :: "bytes \<Rightarrow> bytes option \<Rightarrow> bytes \<Rightarrow> AntRecord \<Rightarrow> bytes" where
  "ant_record_bytes mint owner reconciled r =
     ANT_RECORD_DISCRIMINATOR @ mint @ text_bytes (at_undername r) @ text_bytes (at_target r)
     @ word_of_nat (at_target_protocol r) # le_bytes 4 (at_ttl r)
     @ option_bytes (le_bytes 4) (at_priority r) @ option_bytes id owner @ reconciled @ word_of_nat (at_bump r) # [1, 0, 0]"

definition arns_record_fits :: "ArnsRecord \<Rightarrow> bool" where
  "arns_record_fits r \<longleftrightarrow> is_text 64 (an_name r) \<and> length (an_ant r) = 32 \<and> an_undername_limit r < 2 ^ 16 \<and> an_bump r < 256
     \<and> (\<forall>e. an_end_timestamp r = Some e \<longrightarrow> is_i64 e)"

definition ant_record_fits :: "AntRecord \<Rightarrow> bool" where
  "ant_record_fits r \<longleftrightarrow> is_text 64 (at_undername r) \<and> is_text 128 (at_target r) \<and> at_target_protocol r < 256 \<and> at_ttl r < 2 ^ 32
     \<and> (\<forall>p. at_priority r = Some p \<longrightarrow> p < 2 ^ 32) \<and> at_bump r < 256"

lemma byte_back: "n < 256 \<Longrightarrow> unat (word_of_nat n :: byte) = n"
  by (simp add: unat_of_nat)

lemma decode_arns_record_enc:
  assumes "hash_widths E" and "arns_record_fits r" and "length owner = 32" and "is_i64 start" and "price < 2 ^ 64"
    and "length (arns_record_bytes E owner start price r @ junk) < USIZE"
  shows "decode_arns_record E (arns_record_bytes E owner start price r @ junk) = Inr r"
proof -
  define bs where "bs = arns_record_bytes E owner start price r @ junk"
  let ?name = "text_bytes (an_name r) @ [1, 0, 0] @ junk"
  let ?tail = "le_bytes 2 (an_undername_limit r) @ le_bytes 8 price @ word_of_nat (an_bump r) # ?name"
  let ?expiry = "option_bytes i64_bytes (an_end_timestamp r)"
  let ?type = "(if an_end_timestamp r = None then 1 else 0) :: byte"
  have a0: "rest_at bs 0 (ARNS_RECORD_DISCRIMINATOR @ sha256 E [as_bytes (an_name r)] @ owner @ an_ant r @ ?type # i64_bytes start @ ?expiry @ ?tail)"
    using assms(6) by (simp add: rest_at_def bs_def arns_record_bytes_def)
  have l: "length ARNS_RECORD_DISCRIMINATOR = 8" "length (sha256 E [as_bytes (an_name r)]) = 32" "length (an_ant r) = 32"
    using assms(1,2) by (simp_all add: ARNS_RECORD_DISCRIMINATOR_def arns_record_fits_def)
  note a1 = rest_next [OF a0, unfolded l(1)]
  note a2 = rest_next [OF a1, unfolded l(2)]
  note a3 = rest_next [OF a2, unfolded assms(3)]
  note a4 = rest_next [OF a3, unfolded l(3)]
  note a5 = conjunct2 [OF read_u8_at [OF a4]]
  have s: "- (2 ^ 63) \<le> start" "start < 2 ^ 63" using assms(4) by (simp_all add: is_i64_def)
  note a6 = conjunct2 [OF read_i64_at [OF a5 s]]
  define c where "c = 0 + 8 + 32 + 32 + 32 + 1 + 8 + length ?expiry"
  have "\<forall>e. an_end_timestamp r = Some e \<longrightarrow> is_i64 e" using assms(2) by (simp add: arns_record_fits_def)
  note e = read_option_i64_at [OF a6 this, folded c_def]
  have f: "an_undername_limit r < 2 ^ 16" "is_text 64 (an_name r)" "unat (word_of_nat (an_bump r) :: byte) = an_bump r"
    using assms(2) byte_back by (simp_all add: arns_record_fits_def)
  note a8 = conjunct2 [OF read_u16_at [OF conjunct2 [OF e] f(1)]]
  note a9 = conjunct2 [OF read_u64_at [OF a8 assms(5)]]
  note a10 = conjunct2 [OF read_u8_at [OF a9]]
  note a11 = conjunct2 [OF read_string_at [OF a10 f(2)]]
  have t: "take_bytes bs 0 8 l = Inr (ARNS_RECORD_DISCRIMINATOR, 0 + 8)"
    "take_bytes bs (0 + 8) 32 l = Inr (sha256 E [as_bytes (an_name r)], 0 + 8 + 32)"
    "take_bytes bs (0 + 8 + 32) 32 l = Inr (owner, 0 + 8 + 32 + 32)"
    "take_bytes bs (0 + 8 + 32 + 32) 32 l = Inr (an_ant r, 0 + 8 + 32 + 32 + 32)"
    "take_bytes bs (c + 2 + 8 + 1 + length (text_bytes (an_name r))) 3 l = Inr ([1, 0, 0], c + 2 + 8 + 1 + length (text_bytes (an_name r)) + 3)" for l
    using take_at [OF a0] take_at [OF a1] take_at [OF a2] take_at [OF a3] take_at [OF a11, of 3] l assms(3) by simp_all
  have u: "unat ?type = (if an_end_timestamp r = None then 1 else 0)" by simp
  show ?thesis
    unfolding bs_def [symmetric] decode_arns_record_def t bindE_Inr prod.case conjunct1 [OF read_u8_at [OF a4]]
      conjunct1 [OF read_i64_at [OF a5 s]] conjunct1 [OF e] conjunct1 [OF read_u16_at [OF conjunct2 [OF e] f(1)]] conjunct1 [OF read_u64_at [OF a8 assms(5)]]
      conjunct1 [OF read_u8_at [OF a9]] conjunct1 [OF read_string_at [OF a10 f(2)]] f(3) u
    by simp
qed

lemma decode_ant_record_enc:
  assumes "ant_record_fits r" and "length mint = 32" and "\<forall>w. owner = Some w \<longrightarrow> length w = 32" and "length reconciled = 32"
    and "length (ant_record_bytes mint owner reconciled r @ junk) < USIZE"
  shows "decode_ant_record (ant_record_bytes mint owner reconciled r @ junk) mint = Inr r"
proof -
  define bs where "bs = ant_record_bytes mint owner reconciled r @ junk"
  let ?tail = "reconciled @ word_of_nat (at_bump r) # [1, 0, 0] @ junk"
  let ?owner = "option_bytes id owner @ ?tail"
  let ?priority = "option_bytes (le_bytes 4) (at_priority r) @ ?owner"
  have a0: "rest_at bs 0 (ANT_RECORD_DISCRIMINATOR @ mint @ text_bytes (at_undername r) @ text_bytes (at_target r)
      @ word_of_nat (at_target_protocol r) # le_bytes 4 (at_ttl r) @ ?priority)"
    using assms(5) by (simp add: rest_at_def bs_def ant_record_bytes_def)
  have l: "length ANT_RECORD_DISCRIMINATOR = 8" by (simp add: ANT_RECORD_DISCRIMINATOR_def)
  note a1 = rest_next [OF a0, unfolded l]
  note a2 = rest_next [OF a1, unfolded assms(2)]
  have f: "is_text 64 (at_undername r)" "is_text 128 (at_target r)" "at_ttl r < 2 ^ 32"
    "unat (word_of_nat (at_target_protocol r) :: byte) = at_target_protocol r" "unat (word_of_nat (at_bump r) :: byte) = at_bump r"
    using assms(1) byte_back by (simp_all add: ant_record_fits_def)
  note a3 = conjunct2 [OF read_string_at [OF a2 f(1)]]
  note a4 = conjunct2 [OF read_string_at [OF a3 f(2)]]
  note a5 = conjunct2 [OF read_u8_at [OF a4]]
  note a6 = conjunct2 [OF read_u32_at [OF a5 f(3)]]
  let ?c = "0 + 8 + 32 + length (text_bytes (at_undername r)) + length (text_bytes (at_target r)) + 1 + 4"
  define c where "c = ?c + length (option_bytes (le_bytes 4) (at_priority r))"
  have "\<forall>p. at_priority r = Some p \<longrightarrow> p < 2 ^ 32" using assms(1) by (simp add: ant_record_fits_def)
  note p = read_option_u32_at [OF a6 this, folded c_def]
  define d where "d = c + length (option_bytes id owner)"
  note w = read_option_bytes32_at [OF conjunct2 [OF p] assms(3), folded d_def]
  note a9 = rest_next [OF conjunct2 [OF w], unfolded assms(4)]
  note a10 = conjunct2 [OF read_u8_at [OF a9]]
  have t: "take_bytes bs 0 8 l = Inr (ANT_RECORD_DISCRIMINATOR, 0 + 8)" "take_bytes bs (0 + 8) 32 l = Inr (mint, 0 + 8 + 32)"
    "take_bytes bs d 32 l = Inr (reconciled, d + 32)" "take_bytes bs (d + 32 + 1) 3 l = Inr ([1, 0, 0], d + 32 + 1 + 3)" for l
    using take_at [OF a0] take_at [OF a1] take_at [OF conjunct2 [OF w]] take_at [OF a10, of 3] l assms(2,4) by simp_all
  show ?thesis
    unfolding bs_def [symmetric] decode_ant_record_def t bindE_Inr prod.case conjunct1 [OF read_string_at [OF a2 f(1)]]
      conjunct1 [OF read_string_at [OF a3 f(2)]] conjunct1 [OF read_u8_at [OF a4]] conjunct1 [OF read_u32_at [OF a5 f(3)]]
      conjunct1 [OF p] conjunct1 [OF w] conjunct1 [OF read_u8_at [OF a9]] f(4,5)
    by simp
qed

definition arns_config_bytes :: "bytes \<Rightarrow> int \<Rightarrow> int \<Rightarrow> byte \<Rightarrow> nat \<Rightarrow> int \<Rightarrow> int \<Rightarrow> bool \<Rightarrow> bytes \<Rightarrow> nat \<Rightarrow> bytes" where
  "arns_config_bytes addresses grace auction longest names prune returned migrated authority bump =
     ARNS_CONFIG_DISCRIMINATOR @ addresses @ i64_bytes grace @ i64_bytes auction @ longest # le_bytes 8 names
     @ i64_bytes prune @ i64_bytes returned @ (if migrated then 1 else 0) # authority @ word_of_nat bump # [1, 0, 0]"

lemma decode_arns_config_enc:
  assumes "length addresses = 96" and "0 \<le> grace" and "is_i64 grace" "is_i64 auction" and "names < 2 ^ 64"
    and "is_i64 prune" "is_i64 returned" and "length authority = 32" and "bump < 256"
    and "length (arns_config_bytes addresses grace auction longest names prune returned migrated authority bump @ replicate n 0) < USIZE"
  shows "decode_arns_config (arns_config_bytes addresses grace auction longest names prune returned migrated authority bump @ replicate n 0)
    = Inr (grace, bump)"
proof -
  define bs where "bs = arns_config_bytes addresses grace auction longest names prune returned migrated authority bump @ replicate n 0"
  let ?flag = "(if migrated then 1 else 0) :: byte"
  have a0: "rest_at bs 0 (ARNS_CONFIG_DISCRIMINATOR @ addresses @ i64_bytes grace @ i64_bytes auction @ longest # le_bytes 8 names
     @ i64_bytes prune @ i64_bytes returned @ ?flag # authority @ word_of_nat bump # [1, 0, 0] @ replicate n 0)"
    using assms(10) by (simp add: rest_at_def bs_def arns_config_bytes_def)
  have l: "length ARNS_CONFIG_DISCRIMINATOR = 8" by (simp add: ARNS_CONFIG_DISCRIMINATOR_def)
  note r = assms(3,4,6,7) [unfolded is_i64_def]
  note a1 = rest_next [OF a0, unfolded l]
  note a2 = rest_next [OF a1, unfolded assms(1)]
  note a3 = read_i64_at [OF a2 conjunct1 [OF r(1)] conjunct2 [OF r(1)]]
  note a4 = read_i64_at [OF conjunct2 [OF a3] conjunct1 [OF r(2)] conjunct2 [OF r(2)]]
  note a5 = read_u8_at [OF conjunct2 [OF a4]]
  note a6 = read_u64_at [OF conjunct2 [OF a5] assms(5)]
  note a7 = read_i64_at [OF conjunct2 [OF a6] conjunct1 [OF r(3)] conjunct2 [OF r(3)]]
  note a8 = read_i64_at [OF conjunct2 [OF a7] conjunct1 [OF r(4)] conjunct2 [OF r(4)]]
  note a9 = read_u8_at [OF conjunct2 [OF a8]]
  note a10 = rest_next [OF conjunct2 [OF a9], unfolded assms(8)]
  note a11 = read_u8_at [OF a10]
  note a12 = rest_next [OF conjunct2 [OF a11]]
  have t: "take_bytes bs 0 8 l = Inr (ARNS_CONFIG_DISCRIMINATOR, 0 + 8)" "take_bytes bs (0 + 8) 96 l = Inr (addresses, 0 + 8 + 96)" for l
    using take_at [OF a0] take_at [OF a1] l assms(1) by simp_all
  have u: "take_bytes bs (0 + 8 + 96 + 8 + 8 + 1 + 8 + 8 + 8 + 1) 32 l = Inr (authority, 0 + 8 + 96 + 8 + 8 + 1 + 8 + 8 + 8 + 1 + 32)"
    "take_bytes bs (0 + 8 + 96 + 8 + 8 + 1 + 8 + 8 + 8 + 1 + 32 + 1) 3 l = Inr ([1, 0, 0], 0 + 8 + 96 + 8 + 8 + 1 + 8 + 8 + 8 + 1 + 32 + 1 + 3)" for l
    using take_at [OF conjunct2 [OF a9]] take_at [OF conjunct2 [OF a11], of 3] assms(8) by simp_all
  have z: "drop (0 + 8 + 96 + 8 + 8 + 1 + 8 + 8 + 8 + 1 + 32 + 1 + 3) bs = replicate n 0" using a12 by (simp add: rest_at_def)
  have b: "unat ?flag \<le> 1" by simp
  show ?thesis
    unfolding bs_def [symmetric] decode_arns_config_def t u bindE_Inr prod.case conjunct1 [OF a3] conjunct1 [OF a4] conjunct1 [OF a5]
      conjunct1 [OF a6] conjunct1 [OF a7] conjunct1 [OF a8] conjunct1 [OF a9] conjunct1 [OF a11] byte_back [OF assms(9)]
    using assms(2) b z by simp
qed

text \<open>The accounts of the registry and of a name's token read back: whatever name, lease, limit, target and rank the chain's programs serialize, and whatever an earlier and longer serialization left behind them, the gateway decodes exactly that record.\<close>

theorem arns_accounts_roundtrip:
  assumes "hash_widths E" and "arns_record_fits r" and "length owner = 32" and "is_i64 start" and "price < 2 ^ 64"
    and "length (arns_record_bytes E owner start price r @ junk) < USIZE"
    and "ant_record_fits a" and "length mint = 32" and "\<forall>w. holder = Some w \<longrightarrow> length w = 32" and "length reconciled = 32"
    and "length (ant_record_bytes mint holder reconciled a @ junk') < USIZE"
    and "length addresses = 96" and "0 \<le> grace" and "is_i64 grace" "is_i64 auction" and "names < 2 ^ 64"
    and "is_i64 prune" "is_i64 returned" and "length authority = 32" and "bump < 256"
    and "length (arns_config_bytes addresses grace auction longest names prune returned migrated authority bump @ replicate n 0) < USIZE"
  shows "decode_arns_record E (arns_record_bytes E owner start price r @ junk) = Inr r
    \<and> decode_ant_record (ant_record_bytes mint holder reconciled a @ junk') mint = Inr a
    \<and> decode_arns_config (arns_config_bytes addresses grace auction longest names prune returned migrated authority bump
        @ replicate n 0) = Inr (grace, bump)"
  using decode_arns_record_enc [OF assms(1-6)] decode_ant_record_enc [OF assms(7-11)] decode_arns_config_enc [OF assms(12-21)] by blast

section \<open>A name and an undername\<close>

definition t_arns :: ArnsRecord where
  "t_arns = \<lparr>an_name = ''ab'', an_ant = replicate 32 1, an_undername_limit = 10, an_end_timestamp = Some 1000, an_bump = 255\<rparr>"
definition t_ant :: "str \<Rightarrow> AntRecord" where
  "t_ant undername = \<lparr>at_undername = undername, at_target = hex t_id, at_target_protocol = 0, at_ttl = 60, at_priority = None, at_bump = 255\<rparr>"
definition t_name_bytes :: bytes where "t_name_bytes = arns_record_bytes sample (replicate 32 0) 0 5 t_arns"
definition t_ant_bytes :: "str \<Rightarrow> bytes" where "t_ant_bytes undername = ant_record_bytes (replicate 32 1) None (replicate 32 0) (t_ant undername)"
definition t_config_bytes :: bytes where
  "t_config_bytes = arns_config_bytes (replicate 96 0) 7 0 0 0 0 0 False (replicate 32 0) 255"

definition t_account :: "str \<Rightarrow> bytes \<Rightarrow> SolanaAccount" where
  "t_account name data = \<lparr>sa_data = (name, ''base64''), sa_owner = [], sa_executable = False, sa_space = length data\<rparr>"

definition t_accounts :: "(str \<times> bytes) list" where
  "t_accounts = [(''n'', t_name_bytes), (''r'', t_ant_bytes ''@''), (''u'', t_ant_bytes ''u''), (''c'', t_config_bytes)]"

definition t_address :: "bytes list \<Rightarrow> bytes" where
  "t_address seeds = (if length seeds = 3 then seeds ! 2 else replicate 32 (word_of_nat (length seeds)))"

definition t_chain :: solana where
  "t_chain = \<lparr>y_b58_decode = (\<lambda>s. Some (if s = ''r'' then sha256 sample [as_bytes ''@''] else if s = ''u'' then sha256 sample [as_bytes ''u'']
       else replicate 32 9)),
     y_b58_encode = (\<lambda>b. if b = replicate 32 2 then ''n'' else if b = replicate 32 1 then ''c'' else ''r''), y_standard_decode = map_of t_accounts,
     y_program_address = (\<lambda>seeds program. Some (t_address seeds, 255)),
     y_account = (\<lambda>address. Inr \<lparr>sr_jsonrpc = ''2.0'', sr_id = 1, sr_result = Some (map_option (t_account address) (map_of t_accounts address)),
       sr_error = None\<rparr>),
     y_program_accounts = (\<lambda>mint. Inl Panic)\<rparr>"

lemma t_hex: "length (hex t_id) = 64" "utf8_valid (as_bytes (hex t_id))"
  "utf8_valid (as_bytes ''ab'')" "utf8_valid (as_bytes ''@'')" "utf8_valid (as_bytes ''u'')"
  by (simp add: t_id_def) (unfold t_id_def, code_simp+)

lemma t_fits: "arns_record_fits t_arns" "u = ''@'' \<or> u = ''u'' \<Longrightarrow> ant_record_fits (t_ant u)"
  using t_hex by (auto simp: arns_record_fits_def ant_record_fits_def t_arns_def t_ant_def is_text_def is_i64_def)

lemma t_lengths: "length t_name_bytes = 142" "length (t_ant_bytes u) = 155 + length u" "length t_config_bytes = 182"
  by (simp_all add: t_name_bytes_def t_ant_bytes_def t_config_bytes_def arns_config_bytes_def arns_record_bytes_def ant_record_bytes_def ARNS_RECORD_DISCRIMINATOR_def
      ANT_RECORD_DISCRIMINATOR_def ARNS_CONFIG_DISCRIMINATOR_def option_bytes_def t_arns_def t_ant_def text_bytes_def as_bytes_def t_hex)

theorem arns_accounts_roundtrip_witness:
  "decode_arns_record sample t_name_bytes = Inr t_arns \<and> decode_ant_record (t_ant_bytes ''u'') (replicate 32 1) = Inr (t_ant ''u'')
   \<and> decode_arns_config t_config_bytes = Inr (7, 255)"
  using arns_accounts_roundtrip [OF sample_widths t_fits(1), of "replicate 32 0" 0 5 "[]" "t_ant ''u''" "replicate 32 1" None "replicate 32 0" "[]"
      "replicate 96 0" 7 0 0 0 0 "replicate 32 0" 255 0 False 0]
    t_fits(2) [of "''u''"] t_lengths by (simp add: t_name_bytes_def t_ant_bytes_def t_config_bytes_def is_i64_def U64_def)

lemma t_decoded: "decode_arns_record sample t_name_bytes = Inr t_arns"
  "u = ''@'' \<or> u = ''u'' \<Longrightarrow> decode_ant_record (t_ant_bytes u) (replicate 32 1) = Inr (t_ant u)"
  "decode_arns_config t_config_bytes = Inr (7, 255)"
  subgoal using decode_arns_record_enc [OF sample_widths t_fits(1), of "replicate 32 0" 0 5 "[]"] t_lengths
    by (simp add: t_name_bytes_def is_i64_def U64_def)
  subgoal using decode_ant_record_enc [OF t_fits(2), of u "replicate 32 1" None "replicate 32 0" "[]"] t_lengths
    by (auto simp: t_ant_bytes_def U64_def)
  subgoal using decode_arns_config_enc [of "replicate 96 0" 7 0 0 0 0 "replicate 32 0" 255 0 False 0] t_lengths
    by (simp add: t_config_bytes_def is_i64_def U64_def)
  done

lemma t_sha: "sha256 sample [as_bytes ''@''] \<noteq> replicate 32 2" "sha256 sample [as_bytes ''@''] \<noteq> replicate 32 1"
  by (simp_all add: sample_sha replicate_numeral)

lemma t_rpc: "y_account t_chain address = Inr \<lparr>sr_jsonrpc = ''2.0'', sr_id = 1,
    sr_result = Some (map_option (t_account address) (map_of t_accounts address)), sr_error = None\<rparr>"
  "y_standard_decode t_chain = map_of t_accounts"
  by (simp_all only: t_chain_def solana.simps)

lemma t_account_info: "map_of t_accounts name = Some bs \<Longrightarrow> length bs \<le> 4096 \<Longrightarrow> length name = 1 \<Longrightarrow>
    account_info t_chain name [] = Inr (Some bs)"
  by (simp add: account_info_def into_result_def decode_program_account_def t_rpc t_account_def MAX_SOLANA_ACCOUNT_BYTES_def
      div_ceil_def)

lemma t_pda: "derive_pda t_chain [] seeds label = Inr (y_b58_encode t_chain (t_address seeds), 255)"
  by (simp add: derive_pda_def decode_pubkey_def t_chain_def)

lemma t_pubkeys: "y_b58_encode t_chain (replicate 32 2) = ''n''" "y_b58_encode t_chain (replicate 32 1) = ''c''"
  "y_b58_encode t_chain (sha256 sample [as_bytes ''@'']) = ''r''"
  using t_sha by (simp_all add: t_chain_def)

definition t_call :: name_call where
  "t_call = \<lparr>nc_chain = t_chain, nc_now = \<lparr>tm_wall = 0, tm_started = 0, tm_checked = 0, tm_fetched = 0\<rparr>, nc_first = 0, nc_again = 0,
     nc_kept = 0, nc_name = ''ab''\<rparr>"

definition t_resolution :: Resolution where
  "t_resolution = \<lparr>rs_name = ''ab'', rs_basename = ''ab'', rs_record = ''@'', rs_resolved_id = hex t_id, rs_ttl = 60, rs_ant_id = ''c'',
     rs_limit = 10, rs_index = 0, rs_resolved_at = 0, rs_expires_at = 60 * SECOND\<rparr>"

lemma t_name: "split_arns_name ''ab'' = Inr (''ab'', ''@'')"
  by code_simp

lemma t_name_account: "arns_account sample t_chain t_config ''ab'' = Inr (Some t_arns)"
  using t_account_info [of "''n''" t_name_bytes] t_lengths
  by (simp add: arns_account_def t_config_def t_pda t_address_def t_pubkeys t_accounts_def t_decoded) (simp add: t_arns_def)

lemma t_entry: "ant_entry sample t_chain t_config (replicate 32 1) ''@'' = Inr (Some (0, t_ant ''@''))"
  using t_account_info [of "''r''" "t_ant_bytes ''@''"] t_lengths
  by (simp add: ant_entry_def t_config_def t_pda t_address_def t_pubkeys t_accounts_def t_decoded) (simp add: t_ant_def)

lemma t_grace: "fetch_grace_period t_chain t_config = Inr 7"
  using t_account_info [of "''c''" t_config_bytes] t_lengths
  by (simp add: fetch_grace_period_def t_config_def t_pda t_address_def t_pubkeys t_accounts_def t_decoded)

lemma t_resolved: "resolution_of sample t_chain t_config (nc_now t_call) ''ab'' ''ab'' ''@'' t_arns (Some (1007 * SECOND)) = Inr (Some t_resolution)"
  unfolding resolution_of_eq using t_entry t_pubkeys(2)
  by (intro exI [of _ 0] exI [of _ "t_ant ''@''"] exI [of _ t_id])
    (simp add: t_arns_def t_ant_def t_resolution_def t_call_def decode_fixed_def SECOND_def, simp add: t_id_def)

lemma t_resolve: "resolve_all sample t_config (empty_arns, None) [t_call] = [Inr (Some t_resolution)]"
proof -
  have "lease t_chain t_config (nc_now t_call) (Some 1000) None = (Inr (Some (Some (1007 * SECOND))), Some (ARNS_CONFIG_TTL, 7))"
    by (simp add: lease_def arns_grace_period_def t_grace arns_lease_remaining_def t_call_def SECOND_def)
  then have "resolve_arns_uncached sample t_chain t_config (nc_now t_call) None ''ab'' = (Inr (Some t_resolution), Some (ARNS_CONFIG_TTL, 7))"
    using t_resolved by (simp add: resolve_arns_uncached_def t_name t_name_account) (simp add: t_arns_def)
  moreover have "\<exists>c. arns_insert 0 t_resolution empty_arns = Inr c"
    by (simp add: arns_insert_def empty_arns_def Let_def put_key_def del_key_def MAX_CACHED_ARNS_RESOLUTIONS_def)
  moreover have "arns_get now ''ab'' empty_arns = (None, empty_arns)" for now by (simp add: arns_get_def empty_arns_def)
  ultimately show ?thesis
    by (auto simp: resolve_arns_def t_call_def)
qed

theorem resolved_names_sound_witness:
  "resolve_all sample t_config (empty_arns, None) [t_call] = [Inr (Some t_resolution)]
   \<and> resolution_evidence sample t_config {t_call} t_call t_resolution"
  using resolved_names_sound [of t_call t_resolution "[t_call]" sample t_config] t_resolve
  by (auto simp del: resolve_all.simps)

definition t_program_account :: "str \<Rightarrow> str \<Rightarrow> ProgramAccount" where
  "t_program_account address undername = \<lparr>pa_pubkey = address, pa_account = t_account address (t_ant_bytes undername)\<rparr>"

lemma t_undername: "map lower_char ''@'' = ''@''" "map lower_char ''u'' = ''u''" "split_arns_name ''u_x'' = Inr (''x'', ''u'')"
  "sha256 sample [as_bytes ''u''] \<noteq> sha256 sample [as_bytes ''@'']" "ant_le (t_ant ''@'') (t_ant ''u'')" "\<not> ant_le (t_ant ''u'') (t_ant ''@'')"
  subgoal by (simp add: lower_char_def)
  subgoal by (simp add: lower_char_def)
  subgoal by code_simp
  subgoal by (simp add: sample_sha checksum_def as_bytes_def byte_of_char_def)
  subgoal by (simp add: ant_le_def t_ant_def)
  subgoal by (simp add: ant_le_def t_ant_def)
  done

lemma t_program_record: "(address, undername) \<in> {(''r'', ''@''), (''u'', ''u'')} \<Longrightarrow>
    program_ant_record sample t_chain [] (replicate 32 9) (replicate 32 1) (t_program_account address undername)
      = Inr (sha256 sample [as_bytes undername], t_ant undername)"
  using t_undername t_decoded(2) [of undername] t_lengths(2)
  by (auto simp: program_ant_record_def t_program_account_def decode_pubkey_def decode_program_account_def t_account_def t_accounts_def
      MAX_SOLANA_ACCOUNT_BYTES_def div_ceil_def t_address_def) (auto simp: t_chain_def t_accounts_def t_address_def t_ant_def sample_widths)

lemma t_ranked: "select_ant_record sample t_chain [t_program_account ''u'' ''u'', t_program_account ''r'' ''@''] [] (replicate 32 1) ''u''
    = Inr (Some (1, t_ant ''u''))"
proof -
  have "decode_pubkey t_chain [] l = Inr (replicate 32 9)" for l by (simp add: decode_pubkey_def t_chain_def)
  moreover have "sort_by ant_le [t_ant ''u'', t_ant ''@''] = [t_ant ''@'', t_ant ''u'']" using t_undername by (simp add: sort_by_def)
  ultimately show ?thesis
    using t_undername by (simp add: select_ant_record_def ant_records_def t_program_record MAX_ANT_RECORDS_def) (simp add: t_ant_def)
qed

theorem undername_rank_canonical_witness:
  "select_ant_record sample t_chain [t_program_account ''r'' ''@'', t_program_account ''u'' ''u''] [] (replicate 32 1) ''u''
    = Inr (Some (1, t_ant ''u''))"
  using undername_rank_canonical [OF t_ranked, of "[t_program_account ''r'' ''@'', t_program_account ''u'' ''u'']"] by simp

end
