(* ===== verification/Respond.thy ===== *)
theory Respond
  imports Arns HeaderJson
begin

text \<open>
  Responses, \<open>src/src/server.rs\<close>: byte ranges (\<open>parse_byte_ranges\<close>, \<open>multipart_content\<close>), the response for verified
  content (\<open>verified_response\<close>), manifests (\<open>resolve_manifest\<close>), the blocking policy, and the handlers of content from
  a route to a response (\<open>retrieve_response\<close>, \<open>serve_raw\<close>, \<open>serve_arns_path\<close>).  A content is its bytes, a response its
  status, its headers in order, and its body.
\<close>

section \<open>Responses\<close>

record response =
  re_status :: nat
  re_headers :: "(str \<times> str) list"
  re_body :: bytes

definition QUOTE :: char where "QUOTE = CHR 0x22"
definition CRLF :: str where "CRLF = [CHR 0x0D, CHR 0x0A]"
definition LF :: str where "LF = [CHR 0x0A]"

text \<open>\<open>HeaderMap::insert\<close>, and \<open>Builder::body\<close>, which fails when a value was no header value.\<close>

definition insert_header :: "str \<Rightarrow> str \<Rightarrow> response \<Rightarrow> response" where
  "insert_header name val r = r\<lparr>re_headers := filter (\<lambda>(n, _). n \<noteq> name) (re_headers r) @ [(name, val)]\<rparr>"

definition build :: "headers \<Rightarrow> nat \<Rightarrow> (str \<times> str) list \<Rightarrow> bytes \<Rightarrow> String.literal \<Rightarrow> response res" where
  "build H status hs body label =
     ensure (list_all (\<lambda>(_, v). h_from_bytes H (as_bytes v)) hs) label (Inr \<lparr>re_status = status, re_headers = hs, re_body = body\<rparr>)"

definition error_response :: "nat \<Rightarrow> str \<Rightarrow> response" where
  "error_response status message = \<lparr>re_status = status,
     re_headers = (if status = 404 then [(''cache-control'', ''public, max-age=60, must-revalidate'')] else [])
       @ [(''content-type'', if status = 404 then ''text/html; charset=utf-8'' else ''text/plain; charset=utf-8''),
          (''content-length'', show_nat (length message))],
     re_body = as_bytes message\<rparr>"

definition empty_error_response :: "nat \<Rightarrow> response" where
  "empty_error_response status = \<lparr>re_status = status, re_headers = [(''content-length'', ''0'')], re_body = []\<rparr>"

definition replace_char :: "char \<Rightarrow> str \<Rightarrow> str \<Rightarrow> str" where
  "replace_char c r s = concat (map (\<lambda>x. if x = c then r else [x]) s)"

definition escape_html :: "str \<Rightarrow> str" where
  "escape_html s = replace_char CHR ''>'' ''&gt;'' (replace_char CHR ''<'' ''&lt;'' (replace_char CHR 0x27 ''&#39;''
     (replace_char QUOTE ''&quot;'' (replace_char CHR ''&'' ''&amp;'' s))))"

definition html_error_response :: "nat \<Rightarrow> str \<Rightarrow> response" where
  "html_error_response status message =
     (let body = ''<!DOCTYPE html>'' @ LF @ ''<html lang='' @ [QUOTE] @ ''en'' @ [QUOTE] @ ''>'' @ LF @ ''<head>'' @ LF
        @ ''<meta charset='' @ [QUOTE] @ ''utf-8'' @ [QUOTE] @ ''>'' @ LF @ ''<title>Error</title>'' @ LF @ ''</head>'' @ LF
        @ ''<body>'' @ LF @ ''<pre>'' @ escape_html message @ ''</pre>'' @ LF @ ''</body>'' @ LF @ ''</html>'' @ LF in
      \<lparr>re_status = status,
       re_headers = [(''content-type'', ''text/html; charset=utf-8''), (''content-length'', show_nat (length body))],
       re_body = as_bytes body\<rparr>)"

definition unavailable_response :: "str \<Rightarrow> str \<Rightarrow> response" where
  "unavailable_response context_text public_text =
     insert_header ''cache-control'' ''no-store'' (html_error_response 503 (context_text @ '': '' @ public_text))"

definition invalid_id_response :: "str \<Rightarrow> response" where
  "invalid_id_response i = \<lparr>re_status = 400, re_headers = [(''content-type'', ''text/html; charset=utf-8'')],
     re_body = as_bytes (''Invalid ID: '' @ i)\<rparr>"

definition unmatched_response :: "request \<Rightarrow> response" where
  "unmatched_response R = html_error_response 404 (''Cannot '' @ rq_method R @ '' '' @ rq_path R)"

section \<open>Byte ranges\<close>

definition MAX_RANGE_HEADER_BYTES :: nat where "MAX_RANGE_HEADER_BYTES = 8 * 1024"
definition MAX_BYTE_RANGES :: nat where "MAX_BYTE_RANGES = 16"

datatype ByteRangeError = Malformed | Unsatisfiable

text \<open>\<open>str::trim\<close>, on the ASCII text of a header value.\<close>

definition is_space :: "char \<Rightarrow> bool" where
  "is_space c \<longleftrightarrow> c = CHR '' '' \<or> (9 \<le> (of_char c :: nat) \<and> (of_char c :: nat) \<le> 13)"

definition trim_space :: "str \<Rightarrow> str" where
  "trim_space s = rev (dropWhile is_space (rev (dropWhile is_space s)))"

definition uses_byte_range :: "headers \<Rightarrow> request \<Rightarrow> bool" where
  "uses_byte_range H R = (case rq_headers R ''range'' of
     [] \<Rightarrow> False
   | v # _ \<Rightarrow> (case h_to_str H v of
       None \<Rightarrow> True
     | Some s \<Rightarrow> (case split_once CHR ''='' s of
         None \<Rightarrow> True
       | Some (u, _) \<Rightarrow> trim_space u = [] \<or> map lower_char (trim_space u) = ''bytes'')))"

definition parse_byte_range :: "str \<Rightarrow> nat \<Rightarrow> ByteRangeError + nat \<times> nat" where
  "parse_byte_range s len = (case split_once CHR ''-'' s of
     None \<Rightarrow> Inl Malformed
   | Some (first, final) \<Rightarrow>
       if first = [] then
         (case parse_unsigned USIZE final of
            None \<Rightarrow> Inl Malformed
          | Some suffix \<Rightarrow> if suffix = 0 \<or> len = 0 then Inl Unsatisfiable else Inr (len - suffix, len - 1))
       else
         (case parse_unsigned USIZE first of
            None \<Rightarrow> Inl Malformed
          | Some start \<Rightarrow>
              (case (if final = [] then Some (len - 1) else parse_unsigned USIZE final) of
                 None \<Rightarrow> Inl Malformed
               | Some end \<Rightarrow>
                   if len = 0 \<or> start \<ge> len \<or> start > end then Inl Unsatisfiable else Inr (start, min end (len - 1)))))"

fun byte_ranges :: "nat \<Rightarrow> str list \<Rightarrow> nat \<Rightarrow> ByteRangeError + (nat \<times> nat) list" where
  "byte_ranges index [] len = Inr []"
| "byte_ranges index (s # ss) len =
     (if index = MAX_BYTE_RANGES then Inl Unsatisfiable
      else (case parse_byte_range (trim_space s) len of
          Inr r \<Rightarrow> (case byte_ranges (index + 1) ss len of Inl e \<Rightarrow> Inl e | Inr rs \<Rightarrow> Inr (r # rs))
        | Inl Unsatisfiable \<Rightarrow> byte_ranges (index + 1) ss len
        | Inl Malformed \<Rightarrow> Inl Malformed))"

definition parse_byte_ranges :: "str \<Rightarrow> nat \<Rightarrow> ByteRangeError + (nat \<times> nat) list" where
  "parse_byte_ranges s len =
     (if length s > MAX_RANGE_HEADER_BYTES then Inl Malformed
      else (case split_once CHR ''='' s of
          None \<Rightarrow> Inl Malformed
        | Some (u, ranges) \<Rightarrow>
            if map lower_char (trim_space u) \<noteq> ''bytes'' then Inl Malformed
            else (case byte_ranges 0 (split_on CHR '','' ranges) len of
                Inl e \<Rightarrow> Inl e
              | Inr [] \<Rightarrow> Inl Unsatisfiable
              | Inr rs \<Rightarrow> Inr rs)))"

definition part_header :: "nat \<Rightarrow> str \<Rightarrow> str \<Rightarrow> nat \<times> nat \<Rightarrow> nat \<Rightarrow> str" where
  "part_header index boundary ctype r len =
     (if index = 0 then [] else CRLF) @ ''--'' @ boundary @ CRLF @ ''Content-Type: '' @ ctype @ CRLF
       @ ''Content-Range: bytes '' @ show_nat (fst r) @ ''-'' @ show_nat (snd r) @ ''/'' @ show_nat len @ CRLF @ CRLF"

text \<open>One turn of the loop: the number of the part, the parts so far and their length.\<close>

definition multipart_part ::
  "bytes \<Rightarrow> str \<Rightarrow> str \<Rightarrow> nat \<times> bytes list \<times> nat \<Rightarrow> nat \<times> nat \<Rightarrow> (nat \<times> bytes list \<times> nat) res" where
  "multipart_part content ctype boundary = (\<lambda>(index, parts, len) (start, end).
     let header = part_header index boundary ctype (start, end) (length content) in
     bindE (addE USIZE end 1) (\<lambda>stop.
     bindE (content_slice content start stop) (\<lambda>part.
     bindE (contextE (Option.bind (checked_add USIZE len (length header)) (\<lambda>l. checked_add USIZE l (length part)))
              STR ''multipart response length overflow'') (\<lambda>len.
     Inr (index + 1, parts @ [as_bytes header, part], len)))))"

definition multipart_content ::
  "headers \<Rightarrow> bytes \<Rightarrow> (nat \<times> nat) list \<Rightarrow> str \<Rightarrow> str \<Rightarrow> (bytes list \<times> nat) res" where
  "multipart_content H content ranges ctype boundary =
     ensure (h_from_bytes H (as_bytes ctype)) STR ''invalid multipart content type''
     (bindE (foldE (multipart_part content ctype boundary) (0, [], 0) ranges) (\<lambda>(_, parts, len).
      let closing = CRLF @ ''--'' @ boundary @ ''--'' @ CRLF in
      bindE (contextE (checked_add USIZE len (length closing)) STR ''multipart response length overflow'') (\<lambda>len.
      Inr (parts @ [as_bytes closing], len))))"

section \<open>Verified content\<close>

definition served_content_encoding :: "str \<Rightarrow> bytes \<Rightarrow> str option res" where
  "served_content_encoding tagged body =
     (let t = map lower_char (trim_space tagged) in
      case (if t = ''gzip'' then Some (''gzip'', [0x1F, 0x8B]) else if t = ''zstd'' then Some (''zstd'', [0x28, 0xB5, 0x2F, 0xFD])
            else if t = ''br'' then Some (''br'', []) else if t = ''deflate'' then Some (''deflate'', []) else None) of
        None \<Rightarrow> Inr None
      | Some (coding, magic) \<Rightarrow>
          bindE (content_read_at body 0 (min (length body) (length magic))) (\<lambda>head.
          Inr (if head = take (length head) magic then Some coding else None)))"

definition response_content_type :: "str \<Rightarrow> str" where
  "response_content_type s = (case split_on CHR '';'' s of
     [] \<Rightarrow> s
   | media_type # parts \<Rightarrow>
       if \<not> list_ex (\<lambda>p. case split_once CHR ''='' p of None \<Rightarrow> False | Some (name, _) \<Rightarrow> trim_space name = ''charset'') parts
          \<and> (strip_prefix ''text/'' media_type \<noteq> None \<or> strip_prefix ''application/javascript'' media_type \<noteq> None)
       then s @ ''; charset=utf-8'' else s)"

text \<open>What a response depends on besides the request: base64 of the standard alphabet, header values, the instant it is made.\<close>

record serving =
  w_headers :: headers
  w_standard_encode :: "bytes \<Rightarrow> str"
  w_instant :: nat

definition unquoted :: "str \<Rightarrow> str option" where
  "unquoted etag = Option.bind (strip_prefix [QUOTE] etag) (strip_suffix [QUOTE])"

definition served_etag :: "bytes VerifiedData \<Rightarrow> str \<Rightarrow> Resolution option \<Rightarrow> str" where
  "served_etag V digest resolution = (case resolution of
     Some r \<Rightarrow> [QUOTE] @ digest @ ''.'' @ rs_resolved_id r @ [QUOTE] | None \<Rightarrow> vd_etag V)"

definition range_header :: "headers \<Rightarrow> request \<Rightarrow> str \<Rightarrow> bytes option" where
  "range_header H R etag = (case rq_headers R ''range'' of
     [] \<Rightarrow> None
   | v # _ \<Rightarrow>
       if (case rq_headers R ''if-range'' of [] \<Rightarrow> True | w # _ \<Rightarrow> w = as_bytes etag) \<and> uses_byte_range H R then Some v else None)"

definition verified_headers ::
  "'e serving_scheme \<Rightarrow> bytes VerifiedData \<Rightarrow> str \<Rightarrow> bytes \<Rightarrow> Resolution option \<Rightarrow> bool \<Rightarrow> (str \<times> str) list" where
  "verified_headers W V digest digest_bytes resolution ranged =
     [(''accept-ranges'', ''bytes''), (''etag'', served_etag V digest resolution),
      (if ranged then ''repr-digest'' else ''content-digest'', ''sha-256=:'' @ w_standard_encode W digest_bytes @ '':''),
      (''x-ar-io-data-id'', vd_id V), (''x-ar-io-digest'', digest),
      (''x-ar-io-stable'', if vd_stable_anchor V then ''true'' else ''false''),
      (''x-ar-io-verified'', ''true''), (''x-ar-io-trusted'', ''true''),
      (''x-cache'', if vd_cache_hit V then ''HIT'' else ''MISS''), (''x-ar-io-hops'', ''1''),
      (''cache-control'', case resolution of
         Some r \<Rightarrow> ''public, max-age='' @ show_nat ((rs_expires_at r - w_instant W) div SECOND)
       | None \<Rightarrow> (if vd_content_length V > 100 * 1024 * 1024 then ''private'' else ''public'') @ '', ''
           @ (if vd_stable_anchor V then ''max-age=2592000, immutable'' else ''max-age=43200''))]"

text \<open>What follows the choice of the ranges.\<close>

definition ranged_response ::
  "'e serving_scheme \<Rightarrow> bytes VerifiedData \<Rightarrow> str \<Rightarrow> (str \<times> str) list \<Rightarrow> (nat \<times> nat) list option \<Rightarrow> response res" where
  "ranged_response W V digest hs ranges =
     (let ctype = response_content_type (vd_content_type V) in
      case ranges of
        None \<Rightarrow> build (w_headers W) 200 (hs @ [(''content-type'', ctype), (''content-length'', show_nat (vd_content_length V))])
            (vd_bytes V) STR ''failed to construct HTTP response''
      | Some ranges \<Rightarrow>
          if length ranges > 1 then
            (let boundary = ''ar-io-'' @ digest in
             bindE (multipart_content (w_headers W) (vd_bytes V) ranges (vd_content_type V) boundary) (\<lambda>(parts, len).
             build (w_headers W) 206 (hs @ [(''content-type'', ''multipart/byteranges; boundary='' @ boundary),
                 (''content-length'', show_nat len)]) (concat parts) STR ''failed to construct multipart response''))
          else
            (case ranges of
               [] \<Rightarrow> Inl Panic
             | (start, end) # _ \<Rightarrow>
                 bindE (addE USIZE end 1) (\<lambda>stop.
                 bindE (content_slice (vd_bytes V) start stop) (\<lambda>part.
                 build (w_headers W) 206 (hs @ [(''content-type'', ctype), (''content-length'', show_nat (end - start + 1)),
                   (''content-range'', ''bytes '' @ show_nat start @ ''-'' @ show_nat end @ ''/'' @ show_nat (vd_content_length V))])
                   part STR ''failed to construct partial response''))))"

definition requested_ranges :: "headers \<Rightarrow> request \<Rightarrow> str \<Rightarrow> nat \<Rightarrow> ByteRangeError + (nat \<times> nat) list option" where
  "requested_ranges H R etag len = (case range_header H R etag of
     None \<Rightarrow> Inr None
   | Some v \<Rightarrow> (case h_to_str H v of None \<Rightarrow> Inl Malformed | Some s \<Rightarrow> map_sum id Some (parse_byte_ranges s len)))"

definition range_answer ::
  "'e serving_scheme \<Rightarrow> bytes VerifiedData \<Rightarrow> str \<Rightarrow> (str \<times> str) list \<Rightarrow> str \<Rightarrow> request
     \<Rightarrow> ByteRangeError + (nat \<times> nat) list option \<Rightarrow> response res" where
  "range_answer W V digest hs etag R ranges = (case ranges of
     Inl Malformed \<Rightarrow> build (w_headers W) 400 (hs @ [(''content-type'', ''text/plain; charset=utf-8''),
         (''content-length'', show_nat (length ''Malformed 'range' header''))]) (as_bytes ''Malformed 'range' header'')
         STR ''failed to construct range error response''
   | Inl Unsatisfiable \<Rightarrow> build (w_headers W) 416 (hs @ [(''content-range'', ''bytes */'' @ show_nat (vd_content_length V)),
         (''content-type'', ''text/plain; charset=utf-8''), (''content-length'', show_nat (length ''Range not satisfiable''))])
         (as_bytes ''Range not satisfiable'') STR ''failed to construct range error response''
   | Inr ranges \<Rightarrow>
       if (case rq_headers R ''if-none-match'' of [] \<Rightarrow> False | w # _ \<Rightarrow> w = as_bytes etag) then
         build (w_headers W) 304 hs [] STR ''failed to construct not-modified response''
       else
         bindE (case vd_content_encoding V of None \<Rightarrow> Inr None | Some tagged \<Rightarrow> served_content_encoding tagged (vd_bytes V))
           (\<lambda>encoding.
         ranged_response W V digest
           (hs @ (case encoding of None \<Rightarrow> [] | Some coding \<Rightarrow> [(''content-encoding'', coding)])) ranges))"

definition verified_response ::
  "deps \<Rightarrow> 'e serving_scheme \<Rightarrow> bytes VerifiedData \<Rightarrow> Resolution option \<Rightarrow> request \<Rightarrow> response res" where
  "verified_response E W V resolution R =
     ensure (length (vd_bytes V) = vd_content_length V) STR ''verified content length mismatch''
     (bindE (contextE (unquoted (vd_etag V)) STR ''verified ETag is malformed'') (\<lambda>digest.
      bindE (contextE (x_b64_decode E digest) STR ''verified ETag digest is malformed'') (\<lambda>digest_bytes.
      ensure (length digest_bytes = 32) STR ''verified digest has the wrong size''
      (let etag = served_etag V digest resolution;
           hs = verified_headers W V digest digest_bytes resolution (range_header (w_headers W) R etag \<noteq> None) in
       range_answer W V digest hs etag R (requested_ranges (w_headers W) R etag (vd_content_length V))))))"

end
