(* ===== verification/Serve.thy ===== *)
theory Serve
  imports Respond
begin

text \<open>
  The content handlers, \<open>src/src/server.rs\<close>, from the route of a request to its response: the blocking policy
  (\<open>Gateway::blocking_reason\<close>, \<open>blocked_response\<close>), manifests and their cache (\<open>resolve_manifest\<close>,
  \<open>resolve_manifest_content\<close>), \<open>retrieve_response\<close>, \<open>serve_arns_path\<close>, redirects, the signature of a response
  (\<open>HttpSigner::sign\<close>, \<open>sign_response\<close>) and \<open>cors_response\<close>.
\<close>

section \<open>Manifests\<close>

definition MANIFEST_CONTENT_TYPE :: str where "MANIFEST_CONTENT_TYPE = ''application/x.arweave-manifest+json''"
definition MAX_MANIFEST_BYTES :: nat where "MAX_MANIFEST_BYTES = 10 * 1024 * 1024"
definition MAX_MANIFEST_PATH_BYTES :: nat where "MAX_MANIFEST_PATH_BYTES = 4096"

record Manifest =
  mf_manifest :: str
  mf_version :: str
  mf_index :: json
  mf_fallback :: json
  mf_paths :: "(str \<times> json) list"

definition manifest_of_json :: "json \<Rightarrow> Manifest option" where
  "manifest_of_json v =
     Option.bind (struct_fields [''manifest'', ''version'', ''index'', ''fallback'', ''paths''] v) (\<lambda>fs.
     Option.bind (required as_str fs ''manifest'') (\<lambda>manifest.
     Option.bind (required as_str fs ''version'') (\<lambda>version.
     Option.bind (defaulted JNull Some fs ''index'') (\<lambda>index.
     Option.bind (defaulted JNull Some fs ''fallback'') (\<lambda>fallback.
     Option.bind (defaulted [] as_object fs ''paths'') (\<lambda>paths.
     Some \<lparr>mf_manifest = manifest, mf_version = version, mf_index = index, mf_fallback = fallback, mf_paths = paths\<rparr>))))))"

definition is_manifest_content_type :: "str \<Rightarrow> bool" where
  "is_manifest_content_type s \<longleftrightarrow>
     map lower_char (trim_space (hd (split_on CHR '';'' s))) = map lower_char MANIFEST_CONTENT_TYPE"

definition manifest_field :: "json \<Rightarrow> str \<Rightarrow> String.literal \<Rightarrow> str option res" where
  "manifest_field v field label = (case json_get v field of
     None \<Rightarrow> Inr None
   | Some x \<Rightarrow> bindE (contextE (as_str x) (label + STR '' must be a string'')) (\<lambda>s. Inr (Some s)))"

definition required_manifest_id :: "json \<Rightarrow> String.literal \<Rightarrow> str res" where
  "required_manifest_id v label =
     bindE (manifest_field v ''id'' label) (\<lambda>i. contextE i (label + STR '' is missing an ID''))"

definition manifest_index :: "Manifest \<Rightarrow> (str \<times> bool) option res" where
  "manifest_index m =
     bindE (if mf_version m = ''0.2.0'' then
         bindE (manifest_field (mf_index m) ''id'' STR ''manifest index ID'') (\<lambda>i. Inr (map_option (\<lambda>i. (i, False)) i))
       else Inr None) (\<lambda>resolved.
     case resolved of Some r \<Rightarrow> Inr (Some r) | None \<Rightarrow>
       bindE (manifest_field (mf_index m) ''path'' STR ''manifest index path'') (\<lambda>index_path. case index_path of
         None \<Rightarrow> Inr None
       | Some index_path \<Rightarrow> (case map_of (mf_paths m) index_path of
           None \<Rightarrow> Inr None
         | Some target \<Rightarrow>
             bindE (required_manifest_id target STR ''manifest index target'') (\<lambda>i. Inr (Some (i, False))))))"

definition manifest_path :: "Manifest \<Rightarrow> str \<Rightarrow> (str \<times> bool) option res" where
  "manifest_path m path = (case List.find (\<lambda>(p, _). trim_end_char CHR ''/'' p = path) (mf_paths m) of
     None \<Rightarrow> Inr None
   | Some (_, target) \<Rightarrow> bindE (required_manifest_id target STR ''manifest path target'') (\<lambda>i. Inr (Some (i, False))))"

definition resolve_manifest :: "deps \<Rightarrow> (bytes \<Rightarrow> json option) \<Rightarrow> bytes \<Rightarrow> str \<Rightarrow> ManifestResolution option res" where
  "resolve_manifest E J bs path =
     ensure (length bs \<le> MAX_MANIFEST_BYTES) STR ''manifest exceeds size limit''
     (ensure (length path \<le> MAX_MANIFEST_PATH_BYTES) STR ''manifest path exceeds size limit''
      (bindE (contextE (Option.bind (J bs) manifest_of_json) STR ''invalid manifest JSON'') (\<lambda>m.
       ensure (mf_manifest m = ''arweave/paths'') STR ''invalid manifest type''
       (ensure (mf_version m = ''0.1.0'' \<or> mf_version m = ''0.2.0'') STR ''unsupported manifest version''
        (let path = trim_end_char CHR ''/'' path in
         bindE (if path = [] then manifest_index m else manifest_path m path) (\<lambda>resolved.
         bindE (if resolved = None \<and> mf_version m = ''0.2.0'' \<and> mf_fallback m \<noteq> JNull
             then bindE (required_manifest_id (mf_fallback m) STR ''manifest fallback'') (\<lambda>i. Inr (Some (i, True)))
             else Inr resolved) (\<lambda>resolved. case resolved of
           None \<Rightarrow> Inr None
         | Some (i, fallback) \<Rightarrow>
             bindE (decode_fixed E 32 i STR ''manifest target ID'') (\<lambda>_.
             Inr (Some \<lparr>mr_id = i, mr_fallback = fallback\<rparr>)))))))))"

definition resolve_manifest_content ::
  "deps \<Rightarrow> (bytes \<Rightarrow> json option) \<Rightarrow> bytes VerifiedData \<Rightarrow> str \<Rightarrow> ManifestCache \<Rightarrow> ManifestResolution option res \<times> ManifestCache" where
  "resolve_manifest_content E J V path c =
     (if \<not> length (vd_bytes V) \<le> MAX_MANIFEST_BYTES then (Inl (Fail STR ''manifest exceeds size limit''), c)
      else if \<not> length path \<le> MAX_MANIFEST_PATH_BYTES then (Inl (Fail STR ''manifest path exceeds size limit''), c)
      else
        let path = trim_end_char CHR ''/'' path in
        (case manifest_get V path c of
           (Some target, c) \<Rightarrow> (Inr target, c)
         | (None, c) \<Rightarrow>
             (case bindE (content_read_at (vd_bytes V) 0 (length (vd_bytes V))) (\<lambda>bs. resolve_manifest E J bs path) of
                Inl e \<Rightarrow> (Inl e, c)
              | Inr target \<Rightarrow> (case manifest_insert V path target c of
                  Inl e \<Rightarrow> (Inl e, c) | Inr c \<Rightarrow> (Inr target, c)))))"

section \<open>The environment of a request\<close>

text \<open>
  What \<open>Gateway::retrieve\<close> makes of an id that it does not return: the content is missing, it may be missing, or another failure,
  with the public text of the error; or the task of the retrieval failed.
\<close>

datatype failure = NotFound | Unconfirmed | Broken str | TaskFailed str

text \<open>
  Policy lookups and retrievals are numbered in the order in which one request makes them, since their answers may change in between;
  \<open>w_quality\<close> is the order of the qualities of an \<open>Accept\<close> header: 0 for the number 0, for what is no number and what is out of range.
\<close>

record environment = serving +
  w_policy :: "(nat \<Rightarrow> str \<Rightarrow> str \<Rightarrow> str option \<Rightarrow> str option res) option"
  w_retrieve :: "nat \<Rightarrow> str \<Rightarrow> failure + bytes VerifiedData"
  w_json :: "bytes \<Rightarrow> json option"
  w_text :: "error \<Rightarrow> str"
  w_quality :: "str \<Rightarrow> nat"
  w_full_quality :: nat
  w_info :: "nat option \<Rightarrow> response"
  w_chain :: solana
  w_now :: times
  w_first :: nat
  w_again :: nat
  w_kept :: nat
  w_created :: "nat option"

section \<open>The blocking policy\<close>

definition blocking_reason :: "deps \<Rightarrow> environment \<Rightarrow> nat \<Rightarrow> str \<Rightarrow> str option \<Rightarrow> str option res" where
  "blocking_reason E W n target hash = (case w_policy W of
     None \<Rightarrow> Inr None
   | Some store \<Rightarrow> (case decode_fixed E 32 target STR ''data ID'' of
       Inr _ \<Rightarrow> store n ''id'' target hash
     | Inl _ \<Rightarrow> store n ''name'' (map lower_char target) hash))"

definition blocked_message :: "str \<Rightarrow> str \<Rightarrow> str" where
  "blocked_message i reason = ''Requested content blocked by this node'' @ [CHR 0x27] @ ''s content policy. Blocked ID: '' @ i
     @ (if reason = [] then [] else LF @ ''Reason: '' @ reason)"

definition blocked_page :: "str \<Rightarrow> str \<Rightarrow> response" where
  "blocked_page i reason = insert_header ''cache-control'' ''no-store'' (html_error_response 451 (blocked_message i reason))"

definition blocked_response :: "deps \<Rightarrow> environment \<Rightarrow> nat \<Rightarrow> str \<Rightarrow> str option \<Rightarrow> response option" where
  "blocked_response E W n i hash = (case blocking_reason E W n i hash of
     Inr None \<Rightarrow> None
   | Inr (Some reason) \<Rightarrow> Some (blocked_page i reason)
   | Inl _ \<Rightarrow> Some (error_response 503 ''Content policy unavailable''))"

section \<open>Redirects\<close>

text \<open>A rank: how specific the range is, its quality, and its place in the header.\<close>

definition rank_gt :: "nat \<times> nat \<times> nat \<Rightarrow> nat \<times> nat \<times> nat \<Rightarrow> bool" where
  "rank_gt a b \<longleftrightarrow> (case (a, b) of ((s, q, i), (s', q', i')) \<Rightarrow> s > s' \<or> (s = s' \<and> (q > q' \<or> (q = q' \<and> i < i'))))"

definition accept_rank :: "environment \<Rightarrow> str \<Rightarrow> nat \<Rightarrow> str \<Rightarrow> (nat \<times> nat \<times> nat) option" where
  "accept_rank W offer index range_text = (let parts = split_on CHR '';'' range_text; media_type = trim_space (hd parts) in
     Option.bind (if map lower_char media_type = offer then Some 2 else if map lower_char media_type = ''text/*'' then Some 1
         else if media_type = ''*/*'' then Some 0 else None) (\<lambda>specificity.
     case tl parts of
       [] \<Rightarrow> Some (specificity, w_full_quality W, index)
     | parameter # _ \<Rightarrow> (case split_once CHR ''='' parameter of
         None \<Rightarrow> None
       | Some (name, val) \<Rightarrow> if map lower_char (trim_space name) = ''q'' then Some (specificity, w_quality W (trim_space val), index) else None)))"

definition accept_priority :: "environment \<Rightarrow> str list \<Rightarrow> str \<Rightarrow> (nat \<times> nat \<times> nat) option" where
  "accept_priority W ranges offer = foldl (\<lambda>priority (index, range_text). case accept_rank W offer index range_text of
       None \<Rightarrow> priority
     | Some rank \<Rightarrow> (case priority of None \<Rightarrow> Some rank | Some current \<Rightarrow> if rank_gt rank current then Some rank else priority))
     None (enumerate 0 ranges)"

text \<open>The better of two offers: quality, then specificity, then place; the first of equal ones.\<close>

definition redirect_content_type :: "environment \<Rightarrow> request \<Rightarrow> str option" where
  "redirect_content_type W R =
     (if rq_headers R ''accept'' = [] then Some ''text/plain''
      else
        let ranges = concat (map (split_on CHR '','') (List.map_filter (h_to_str (w_headers W)) (rq_headers R ''accept''))) in
        map_option snd (foldl (\<lambda>selected offer. case accept_priority W ranges offer of
            None \<Rightarrow> selected
          | Some (specificity, quality, order) \<Rightarrow>
              if quality = 0 then selected
              else (case selected of
                  None \<Rightarrow> Some ((quality, specificity, order), offer)
                | Some (current, _) \<Rightarrow> if rank_gt (quality, specificity, order) current then Some ((quality, specificity, order), offer)
                    else selected)) None [''text/plain'', ''text/html'']))"

definition redirect_response :: "environment \<Rightarrow> nat \<Rightarrow> str \<Rightarrow> request \<Rightarrow> response res" where
  "redirect_response W status location R =
     (let reason = (if status = 301 then ''Moved Permanently'' else ''Found'');
          ctype = redirect_content_type W R;
          body = (if ctype = Some ''text/plain'' then reason @ ''. Redirecting to '' @ location
            else if ctype = Some ''text/html'' then ''<p>'' @ reason @ ''. Redirecting to '' @ escape_html location @ ''</p>'' else []) in
      if list_all (\<lambda>(_, v). h_from_bytes (w_headers W) (as_bytes v))
           ([(''location'', location), (''vary'', ''Accept''), (''content-length'', show_nat (length body))]
            @ (case ctype of None \<Rightarrow> [] | Some t \<Rightarrow> [(''content-type'', t @ ''; charset=utf-8'')]))
      then Inr \<lparr>re_status = status,
        re_headers = [(''location'', location), (''vary'', ''Accept''), (''content-length'', show_nat (length body))]
            @ (case ctype of None \<Rightarrow> [] | Some t \<Rightarrow> [(''content-type'', t @ ''; charset=utf-8'')]),
        re_body = as_bytes body\<rparr>
      else Inl Panic)"

section \<open>Content\<close>

definition retrieval_error_response :: "failure \<Rightarrow> response" where
  "retrieval_error_response failure = (case failure of
     NotFound \<Rightarrow> error_response 404 ''Not found''
   | Unconfirmed \<Rightarrow> insert_header ''cache-control'' ''no-store'' (error_response 404 ''Not found'')
   | Broken text \<Rightarrow> unavailable_response ''verified retrieval failed'' text
   | TaskFailed text \<Rightarrow> unavailable_response ''retrieval task failed'' text)"

text \<open>The content of an id between the lookups \<open>n\<close> and \<open>n + 1\<close> of the policy; the second is asked for \<open>name_of\<close> the content.\<close>

definition allowed_content ::
  "deps \<Rightarrow> environment \<Rightarrow> nat \<Rightarrow> nat \<Rightarrow> str \<Rightarrow> (bytes VerifiedData \<Rightarrow> str) \<Rightarrow> response + bytes VerifiedData" where
  "allowed_content E W n k i name_of = (case blocked_response E W n i None of
     Some r \<Rightarrow> Inl r
   | None \<Rightarrow> (case w_retrieve W k i of
       Inl failure \<Rightarrow> Inl (retrieval_error_response failure)
     | Inr V \<Rightarrow> (case blocked_response E W (n + 1) (name_of V)
           (Some (trim_end_char QUOTE (dropWhile (\<lambda>c. c = QUOTE) (vd_etag V)))) of
         Some r \<Rightarrow> Inl r
       | None \<Rightarrow> Inr V)))"

definition served :: "deps \<Rightarrow> environment \<Rightarrow> bytes VerifiedData \<Rightarrow> Resolution option \<Rightarrow> request \<Rightarrow> response" where
  "served E W V resolution R = (case verified_response E W V resolution R of
     Inr r \<Rightarrow> r | Inl _ \<Rightarrow> error_response 500 ''Internal Server Error'')"

definition retrieve_response ::
  "deps \<Rightarrow> environment \<Rightarrow> str \<Rightarrow> str \<Rightarrow> bool \<Rightarrow> str option \<Rightarrow> Resolution option \<Rightarrow> request \<Rightarrow> ManifestCache
     \<Rightarrow> response res \<times> ManifestCache" where
  "retrieve_response E W i path slash query resolution R c = (case allowed_content E W 1 0 i (\<lambda>_. i) of
     Inl r \<Rightarrow> (Inr r, c)
   | Inr V \<Rightarrow>
       if \<not> is_manifest_content_type (vd_content_type V) then (Inr (served E W V resolution R), c)
       else (case resolve_manifest_content E (w_json W) V path c of
           (Inl e, c) \<Rightarrow> (Inr (unavailable_response ''manifest resolution failed'' (w_text W e)), c)
         | (Inr None, c) \<Rightarrow> (Inr (error_response 404 ''Not found''), c)
         | (Inr (Some target), c) \<Rightarrow>
             if slash then
               (redirect_response W 301 (''/'' @ vd_id V @ ''/'' @ (case query of None \<Rightarrow> [] | Some q \<Rightarrow> ''?'' @ q)) R, c)
             else (case allowed_content E W 3 1 (mr_id target) (\<lambda>_. mr_id target) of
                 Inl r \<Rightarrow> (Inr r, c)
               | Inr T \<Rightarrow> let r = served E W T resolution R in
                   (Inr (if mr_fallback target \<and> re_status r \<noteq> 451
                     then insert_header ''cache-control'' ''public, max-age=60, must-revalidate'' r else r), c))))"

definition apex_response :: "ServerConfig \<Rightarrow> response \<Rightarrow> response" where
  "apex_response C r =
     (if (200 \<le> re_status r \<and> re_status r < 300) \<or> re_status r \<in> {304, 400, 416}
      then insert_header ''cache-control'' (''public, max-age='' @ show_nat (sc_apex_max_age C) @ '', must-revalidate'') r else r)"

definition arns_headers :: "ServerConfig \<Rightarrow> Resolution \<Rightarrow> (str \<times> str) list" where
  "arns_headers C r =
     [(''x-arns-name'', rs_name r), (''x-arns-basename'', rs_basename r), (''x-arns-record'', rs_record r),
      (''x-arns-resolved-id'', rs_resolved_id r), (''x-arns-ttl-seconds'', show_nat (rs_ttl r)),
      (''x-arns-ant-program-id'', sc_ant_program_id C), (''x-arns-ant-id'', rs_ant_id r),
      (''x-arns-resolved-at'', show_nat (rs_resolved_at r)), (''x-arns-undername-limit'', show_nat (rs_limit r)),
      (''x-arns-record-index'', show_nat (rs_index r))]"

definition insert_arns :: "environment \<Rightarrow> ServerConfig \<Rightarrow> Resolution \<Rightarrow> response \<Rightarrow> response res" where
  "insert_arns W C resolution r = foldE (\<lambda>r (name, val).
     if h_from_bytes (w_headers W) (as_bytes val) then Inr (insert_header name val r) else Inl Panic) r (arns_headers C resolution)"

text \<open>The state of the handlers: the cached names with the grace period, and the cached manifest paths.\<close>

type_synonym state = "(ArnsCache \<times> (nat \<times> int) option) \<times> ManifestCache"

definition named_response ::
  "deps \<Rightarrow> environment \<Rightarrow> ServerConfig \<Rightarrow> request \<Rightarrow> str \<Rightarrow> str \<Rightarrow> state \<Rightarrow> response res \<times> state" where
  "named_response E W C R name path st = (case st of (names, c) \<Rightarrow>
     (case blocked_response E W 0 name None of
        Some r \<Rightarrow> (Inr r, st)
      | None \<Rightarrow> (case resolve_arns E (w_chain W) C (w_now W) (w_first W) (w_again W) (w_kept W) name names of
          (Inl e, names) \<Rightarrow> (Inr (unavailable_response ''ArNS resolution failed'' (w_text W e)), (names, c))
        | (Inr None, names) \<Rightarrow> (Inr (error_response 404 ''Not found''), (names, c))
        | (Inr (Some resolution), names) \<Rightarrow>
            if rs_index resolution > rs_limit resolution then (Inr (error_response 402 ''Payment Required''), (names, c))
            else (case retrieve_response E W (rs_resolved_id resolution) path False None (Some resolution) R c of
                (r, c) \<Rightarrow> (bindE r (insert_arns W C resolution), (names, c))))))"

definition content_response ::
  "deps \<Rightarrow> environment \<Rightarrow> ServerConfig \<Rightarrow> request \<Rightarrow> route \<Rightarrow> state \<Rightarrow> response res \<times> state" where
  "content_response E W C R r st = (case r of
     Busy \<Rightarrow> (Inr (error_response 503 ''Service Unavailable''), st)
   | Unmatched \<Rightarrow> (Inr (unmatched_response R), st)
   | InvalidId i \<Rightarrow> (Inr (invalid_id_response i), st)
   | NoName \<Rightarrow> (Inr (error_response 404 ''Not found''), st)
   | Redirect location \<Rightarrow> (redirect_response W 302 location R, st)
   | RawContent i \<Rightarrow> (case allowed_content E W 1 0 i vd_id of
       Inl r \<Rightarrow> (Inr r, st) | Inr V \<Rightarrow> (Inr (served E W V None R), st))
   | PathContent i path slash query \<Rightarrow> (case retrieve_response E W i path slash query None R (snd st) of (r, c) \<Rightarrow> (r, (fst st, c)))
   | ApexContent i path \<Rightarrow> (case retrieve_response E W i path False None None R (snd st) of
       (r, c) \<Rightarrow> (bindE r (\<lambda>r. Inr (apex_response C r)), (fst st, c)))
   | NamedContent name path \<Rightarrow> named_response E W C R name path st
   | SandboxRoot i \<Rightarrow> (Inr (case blocked_response E W 0 i None of
       Some r \<Rightarrow> r | None \<Rightarrow> error_response 404 ''Not found''), st)
   | Info identity \<Rightarrow> (Inr (w_info W identity), st))"

section \<open>Signatures\<close>

definition SIGNATURE_TRIGGERS :: "str list" where
  "SIGNATURE_TRIGGERS = [''x-ar-io-data-id'', ''x-ar-io-verified'', ''x-ar-io-stable'', ''x-ar-io-trusted'',
     ''x-ar-io-root-transaction-id'', ''x-arweave-owner-address'', ''x-arweave-tags-truncated'', ''x-arweave-chunk-data-root'',
     ''x-arweave-chunk-tx-id'', ''x-ar-io-chunk-source-type'', ''x-ar-io-index-publication'', ''x-ar-io-index-file'',
     ''x-ar-io-index-torrent'', ''x-ar-io-index-feed'']"

definition SIGNATURE_EXTRA_HEADERS :: "str list" where
  "SIGNATURE_EXTRA_HEADERS = [''content-type'', ''content-digest'', ''repr-digest'', ''x-ar-io-root-data-item-offset'',
     ''x-ar-io-root-data-offset'', ''x-ar-io-root-item-offset'', ''x-ar-io-root-item-size'', ''x-ar-io-root-path'']"

definition starts_with :: "str \<Rightarrow> str \<Rightarrow> bool" where
  "starts_with p s \<longleftrightarrow> strip_prefix p s \<noteq> None"

definition is_trigger :: "str \<Rightarrow> bool" where
  "is_trigger name \<longleftrightarrow> name \<in> set SIGNATURE_TRIGGERS \<or> starts_with ''x-arns-'' name"

definition is_covered :: "str \<Rightarrow> bool" where
  "is_covered name \<longleftrightarrow> name \<in> set SIGNATURE_TRIGGERS \<or> name \<in> set SIGNATURE_EXTRA_HEADERS
     \<or> starts_with ''x-arweave-tag-'' name \<or> starts_with ''x-arns-'' name"

definition covered_headers :: "response \<Rightarrow> str list" where
  "covered_headers r = sort_by (\<lambda>a b. bytes_le (as_bytes a) (as_bytes b)) (remdups (filter is_covered (map fst (re_headers r))))"

definition header_value :: "response \<Rightarrow> str \<Rightarrow> str" where
  "header_value r name = join_with '', '' (map snd (filter (\<lambda>(n, _). n = name) (re_headers r)))"

definition quoted :: "str \<Rightarrow> str" where "quoted s = [QUOTE] @ s @ [QUOTE]"

definition signature_components :: "bool \<Rightarrow> str list \<Rightarrow> str list" where
  "signature_components bind_request covered =
     quoted ''@status'' # map quoted covered
       @ (if bind_request then [quoted ''@method'' @ '';req'', quoted ''@path'' @ '';req''] else [])"

definition signature_params :: "HttpSigner \<Rightarrow> str list \<Rightarrow> nat \<Rightarrow> str" where
  "signature_params S covered created =
     ''('' @ join_with '' '' (signature_components (hs_bind_request S) covered) @ '');created='' @ show_nat created
       @ '';keyid='' @ quoted (hs_key_id S) @ '';alg='' @ quoted ''ed25519''"

definition signature_base :: "HttpSigner \<Rightarrow> response \<Rightarrow> str \<Rightarrow> str \<Rightarrow> str list \<Rightarrow> nat \<Rightarrow> str" where
  "signature_base S r meth path covered created =
     quoted ''@status'' @ '': '' @ show_nat (re_status r)
       @ concat (map (\<lambda>name. LF @ quoted name @ '': '' @ header_value r name) covered)
       @ (if hs_bind_request S then LF @ quoted ''@method'' @ '';req: '' @ meth @ LF @ quoted ''@path'' @ '';req: '' @ path else [])
       @ LF @ quoted ''@signature-params'' @ '': '' @ signature_params S covered created"

definition sign :: "environment \<Rightarrow> HttpSigner \<Rightarrow> response \<Rightarrow> str \<Rightarrow> str \<Rightarrow> response res" where
  "sign W S r meth path =
     (let r = r\<lparr>re_headers := filter (\<lambda>(n, _). n \<noteq> ''signature'' \<and> n \<noteq> ''signature-input'') (re_headers r)\<rparr> in
      if \<not> list_ex is_trigger (map fst (re_headers r)) then Inr r
      else
        let covered = covered_headers r in
        bindE (contextE (w_created W) STR ''system clock is before Unix epoch'') (\<lambda>created.
        let params = signature_params S covered created;
            signature = hs_sign S (as_bytes (signature_base S r meth path covered created));
            input = ''sig1='' @ params; val = ''sig1=:'' @ w_standard_encode W signature @ '':'' in
        ensure (h_from_bytes (w_headers W) (as_bytes input)) STR ''invalid header value''
        (let r = insert_header ''signature-input'' input r in
         ensure (h_from_bytes (w_headers W) (as_bytes val)) STR ''invalid header value'' (Inr (insert_header ''signature'' val r)))))"

definition sign_response :: "environment \<Rightarrow> ServerConfig \<Rightarrow> request \<Rightarrow> response \<Rightarrow> response" where
  "sign_response W C R r =
     (case Option.bind (Option.bind (request_host R) (root_host_index C)) (\<lambda>index. rh_signer (sc_root_hosts C ! index)) of
        None \<Rightarrow> r
      | Some S \<Rightarrow> (case sign W S r (rq_method R) (rq_path R) of Inr r \<Rightarrow> r | Inl _ \<Rightarrow> empty_error_response 500))"

text \<open>\<open>cors_response\<close> around the other layers.\<close>

definition append_header :: "str \<Rightarrow> str \<Rightarrow> response \<Rightarrow> response" where
  "append_header name val r = r\<lparr>re_headers := re_headers r @ [(name, val)]\<rparr>"

definition cors_response :: "request \<Rightarrow> response \<Rightarrow> response" where
  "cors_response R r = insert_header ''access-control-expose-headers'' ''*'' (insert_header ''access-control-allow-origin'' ''*''
     (if rq_method R = ''OPTIONS'' then
        foldl (\<lambda>r v. if v = [] then r else append_header ''access-control-allow-headers'' (map char_of_byte v) r)
          \<lparr>re_status = 204, re_headers = [(''content-length'', ''0''),
              (''access-control-allow-methods'', ''GET,HEAD,PUT,PATCH,POST,DELETE''), (''vary'', ''Access-Control-Request-Headers'')],
            re_body = []\<rparr> (rq_headers R ''access-control-request-headers'')
      else r))"

end
