(* ===== verification/RespondProofs.thy ===== *)
theory RespondProofs
  imports Respond ArnsProofs
begin

text \<open>
  Responses for verified content: byte ranges against the positions they state, and the bodies of range requests against a
  reader of multipart responses.
\<close>

section \<open>Ranges\<close>

text \<open>The positions a range asks for, by what the range says: from a first one on, up to a last one, or so many at the end.\<close>

definition asked :: "str \<Rightarrow> nat \<Rightarrow> nat set option" where
  "asked s len = (case split_once CHR ''-'' s of
     None \<Rightarrow> None
   | Some (first, final) \<Rightarrow>
       if first = [] then map_option (\<lambda>n. {i. i < len \<and> len \<le> i + n}) (parse_unsigned USIZE final)
       else Option.bind (parse_unsigned USIZE first) (\<lambda>a.
         if final = [] then Some {i. i < len \<and> a \<le> i}
         else map_option (\<lambda>b. {i. i < len \<and> a \<le> i \<and> i \<le> b}) (parse_unsigned USIZE final)))"

lemma interval_Min_Max: "a \<le> b \<Longrightarrow> Min {a..b :: nat} = a \<and> Max {a..b} = b"
  by (auto intro!: Min_eqI Max_eqI)

lemma positions: "{i. i < len \<and> a \<le> i \<and> i \<le> b} = (if len = 0 \<or> len \<le> a \<or> b < a then {} else {a..min b (len - 1)})"
  "{i. i < len \<and> len \<le> i + n} = (if n = 0 \<or> len = 0 then {} else {len - n..len - 1})"
  "{i. i < len \<and> a \<le> i} = (if len = 0 \<or> len \<le> a then {} else {a..len - 1})" for len a b n :: nat
  by auto

text \<open>C36. A byte range is read exactly: whatever its text, the result is malformed when it states no positions, unsatisfiable when none of the positions it states is in the content, and otherwise the first and the last of those that are.\<close>

theorem byte_range_positions:
  "parse_byte_range s len = (case asked s len of
     None \<Rightarrow> Inl Malformed
   | Some X \<Rightarrow> if X = {} then Inl Unsatisfiable else Inr (Min X, Max X))"
proof (cases "split_once CHR ''-'' s")
  case (Some p)
  obtain first final where p: "p = (first, final)" by (cases p)
  have e: "(if X = {} then Inl Unsatisfiable else Inr (Min X, Max X)) = Inr (a, b)" if "X = {a..b}" "a \<le> b" for X and a b :: nat
    using that interval_Min_Max by auto
  show ?thesis
  proof (cases "first = []")
    case True
    then show ?thesis using Some p e [of "{len - n..len - 1}" "len - n" "len - 1" for n]
      by (cases "parse_unsigned USIZE final") (auto simp: parse_byte_range_def asked_def positions interval_Min_Max)
  next
    case False
    then show ?thesis using Some p
      by (cases "parse_unsigned USIZE first"; cases "parse_unsigned USIZE final"; cases "final = []")
        (auto simp: parse_byte_range_def asked_def positions interval_Min_Max not_le not_less)
  qed
qed (simp add: parse_byte_range_def asked_def)

lemma parse_byte_range_bounds: "parse_byte_range s len = Inr (a, b) \<Longrightarrow> a \<le> b \<and> b < len"
  by (auto simp: parse_byte_range_def split: option.splits if_splits prod.splits)

lemma byte_ranges_bounds:
  "byte_ranges index ss len = Inr rs \<Longrightarrow> index \<le> MAX_BYTE_RANGES \<Longrightarrow> (\<forall>(a, b) \<in> set rs. a \<le> b \<and> b < len) \<and> length rs + index \<le> MAX_BYTE_RANGES"
proof (induction index ss len arbitrary: rs rule: byte_ranges.induct)
  case (2 index s ss len)
  then have i: "index \<noteq> MAX_BYTE_RANGES" by (auto split: if_splits)
  show ?case
  proof (cases "parse_byte_range (trim_space s) len")
    case (Inl e)
    then have "e = Unsatisfiable" "byte_ranges (index + 1) ss len = Inr rs" using 2(3) i by (cases e; auto)+
    then show ?thesis using 2(1) [OF i] Inl 2(4) i by fastforce
  next
    case (Inr r)
    obtain rs' where rs': "byte_ranges (index + 1) ss len = Inr rs'" "rs = r # rs'"
      using 2(3) i Inr by (auto split: sum.splits)
    then show ?thesis using 2(2) [OF i Inr rs'(1)] 2(4) i Inr parse_byte_range_bounds by (cases r) fastforce
  qed
qed simp

lemma parse_byte_ranges_bounds:
  assumes "parse_byte_ranges s len = Inr rs"
  shows "rs \<noteq> []" and "length rs \<le> MAX_BYTE_RANGES" and "(a, b) \<in> set rs \<Longrightarrow> a \<le> b \<and> b < len"
proof -
  obtain u ranges where "byte_ranges 0 (split_on CHR '','' ranges) len = Inr rs" "rs \<noteq> []"
    using assms by (auto simp: parse_byte_ranges_def split: if_splits option.splits sum.splits list.splits)
  then show "rs \<noteq> []" "length rs \<le> MAX_BYTE_RANGES" "(a, b) \<in> set rs \<Longrightarrow> a \<le> b \<and> b < len"
    using byte_ranges_bounds by (fastforce)+
qed

section \<open>Reading a response of ranges\<close>

definition read_number :: "str \<Rightarrow> nat \<times> str" where
  "read_number s = (digits_value (takeWhile is_ascii_digit s), dropWhile is_ascii_digit s)"

text \<open>\<open>first-last/length\<close>.\<close>

definition read_range :: "str \<Rightarrow> ((nat \<times> nat) \<times> str) option" where
  "read_range s = (case read_number s of (a, s) \<Rightarrow>
     Option.bind (strip_prefix ''-'' s) (\<lambda>s. case read_number s of (b, s) \<Rightarrow>
     Option.bind (strip_prefix ''/'' s) (\<lambda>s. case read_number s of (_, s) \<Rightarrow> Some ((a, b), s))))"

definition read_part :: "str \<Rightarrow> bool \<Rightarrow> str \<Rightarrow> ((nat \<times> nat) \<times> str \<times> str) option" where
  "read_part boundary first s =
     Option.bind (strip_prefix ((if first then [] else CRLF) @ ''--'' @ boundary @ CRLF @ ''Content-Type: '') s) (\<lambda>s.
     Option.bind (strip_prefix (CRLF @ ''Content-Range: bytes '') (dropWhile (\<lambda>c. c \<noteq> CHR 0x0D) s)) (\<lambda>s.
     Option.bind (read_range s) (\<lambda>((a, b), s).
     Option.bind (strip_prefix (CRLF @ CRLF) s) (\<lambda>s. Some ((a, b), take (b - a + 1) s, drop (b - a + 1) s)))))"

fun read_multipart :: "nat \<Rightarrow> str \<Rightarrow> bool \<Rightarrow> str \<Rightarrow> ((nat \<times> nat) \<times> str) list option" where
  "read_multipart 0 boundary first s = None"
| "read_multipart (Suc fuel) boundary first s =
     (if s = CRLF @ ''--'' @ boundary @ ''--'' @ CRLF then Some []
      else Option.bind (read_part boundary first s) (\<lambda>(r, part, s).
        map_option ((#) (r, part)) (read_multipart fuel boundary False s)))"

text \<open>A client's reading of a response of status 206.\<close>

definition read_ranges :: "response \<Rightarrow> ((nat \<times> nat) \<times> bytes) list option" where
  "read_ranges r = (case Option.bind (map_of (re_headers r) ''content-range'') (strip_prefix ''bytes '') of
     Some s \<Rightarrow> map_option (\<lambda>(r0, _). [(r0, re_body r)]) (read_range s)
   | None \<Rightarrow> Option.bind (Option.bind (map_of (re_headers r) ''content-type'') (strip_prefix ''multipart/byteranges; boundary='')) (\<lambda>boundary.
       map_option (map (map_prod id as_bytes)) (read_multipart (Suc MAX_BYTE_RANGES) boundary True (map char_of_byte (re_body r)))))"


lemma read_number_show: "s = [] \<or> \<not> is_ascii_digit (hd s) \<Longrightarrow> read_number (show_nat n @ s) = (n, s)"
proof -
  assume s: "s = [] \<or> \<not> is_ascii_digit (hd s)"
  have d: "\<forall>c \<in> set (show_nat n). is_ascii_digit c" "digits_value (show_nat n) = n" using show_nat_ok [of n] by (simp_all add: list_all_iff)
  have "takeWhile is_ascii_digit (show_nat n @ s) = show_nat n @ takeWhile is_ascii_digit s"
    "dropWhile is_ascii_digit (show_nat n @ s) = dropWhile is_ascii_digit s" using d(1) by simp_all
  moreover have "takeWhile is_ascii_digit s = []" "dropWhile is_ascii_digit s = s" using s by (cases s; auto)+
  ultimately show ?thesis using d(2) by (simp add: read_number_def)
qed

lemma read_range_show: "s = [] \<or> \<not> is_ascii_digit (hd s) \<Longrightarrow>
    read_range (show_nat a @ ''-'' @ show_nat b @ ''/'' @ show_nat len @ s) = Some ((a, b), s)"
  using read_number_show [of "''-'' @ show_nat b @ ''/'' @ show_nat len @ s" a] read_number_show [of "''/'' @ show_nat len @ s" b]
    read_number_show [of s len]
  by (simp add: read_range_def is_ascii_digit_def strip_prefix_def)

lemma char_bytes: "as_bytes (map char_of_byte bs) = bs"
proof -
  have "byte_of_char (char_of_byte b) = b" for b
    using unsigned_less [of b, where ?'a = nat] by (simp add: byte_of_char_def char_of_byte_def)
  then show ?thesis by (induction bs) (simp_all add: as_bytes_def)
qed

lemma read_part_header:
  assumes "CHR 0x0D \<notin> set ctype" and "length part = b - a + 1"
  shows "read_part boundary (index = 0) (part_header index boundary ctype (a, b) len @ part @ rest) = Some ((a, b), part, rest)"
proof -
  have sp: "strip_prefix p (p @ s) = Some s" for p s :: str by (simp add: strip_prefix_def)
  have dw: "dropWhile (\<lambda>c. c \<noteq> CHR 0x0D) (ctype @ CRLF @ s) = CRLF @ s" for s
    using assms(1) by (subst dropWhile_append2) (auto simp: CRLF_def)
  have rr: "read_range (show_nat a @ ''-'' @ show_nat b @ ''/'' @ show_nat len @ CRLF @ CRLF @ part @ rest)
      = Some ((a, b), CRLF @ CRLF @ part @ rest)"
    by (rule read_range_show) (simp add: CRLF_def is_ascii_digit_def)
  have "part_header index boundary ctype (a, b) len @ part @ rest =
     ((if index = 0 then [] else CRLF) @ ''--'' @ boundary @ CRLF @ ''Content-Type: '') @ ctype @ CRLF @ ''Content-Range: bytes ''
       @ show_nat a @ ''-'' @ show_nat b @ ''/'' @ show_nat len @ CRLF @ CRLF @ part @ rest"
    by (simp add: part_header_def)
  then have "read_part boundary (index = 0) (part_header index boundary ctype (a, b) len @ part @ rest) =
     Option.bind (strip_prefix (CRLF @ ''Content-Range: bytes '') (CRLF @ ''Content-Range: bytes ''
       @ show_nat a @ ''-'' @ show_nat b @ ''/'' @ show_nat len @ CRLF @ CRLF @ part @ rest)) (\<lambda>s.
     Option.bind (read_range s) (\<lambda>((a, b), s).
     Option.bind (strip_prefix (CRLF @ CRLF) s) (\<lambda>s. Some ((a, b), take (b - a + 1) s, drop (b - a + 1) s))))"
    unfolding read_part_def by (simp only: sp dw Option.bind.simps)
  also have "\<dots> = Some ((a, b), part, rest)"
    using sp [of "CRLF @ ''Content-Range: bytes ''" "show_nat a @ ''-'' @ show_nat b @ ''/'' @ show_nat len @ CRLF @ CRLF @ part @ rest"]
      rr sp [of "CRLF @ CRLF" "part @ rest"] assms(2) by simp
  finally show ?thesis .
qed

lemma multipart_fold:
  assumes "foldE (multipart_part content ctype boundary) (i, ps0, n0) ranges = Inr (j, ps, n)"
    and "\<forall>(a, b) \<in> set ranges. a \<le> b" and "CHR 0x0D \<notin> set ctype"
  shows "\<exists>body. concat ps = concat ps0 @ body \<and> n = n0 + length body
    \<and> (\<forall>fuel > length ranges. (i = 0 \<longrightarrow> ranges \<noteq> []) \<longrightarrow>
        read_multipart fuel boundary (i = 0) (map char_of_byte body @ CRLF @ ''--'' @ boundary @ ''--'' @ CRLF)
          = Some (map (\<lambda>(a, b). ((a, b), map char_of_byte (sub_bytes content a (b + 1)))) ranges))"
  using assms(1,2)
proof (induction ranges arbitrary: i ps0 n0)
  case Nil
  have "read_multipart fuel boundary False (CRLF @ ''--'' @ boundary @ ''--'' @ CRLF) = Some []" if "0 < fuel" for fuel
    using that by (cases fuel) simp_all
  then show ?case using Nil by auto
next
  case (Cons r ranges)
  obtain a b where r: "r = (a, b)" "a \<le> b" using Cons.prems(2) by (cases r) auto
  let ?h = "part_header i boundary ctype (a, b) (length content)" and ?p = "sub_bytes content a (b + 1)"
  let ?closing = "CRLF @ ''--'' @ boundary @ ''--'' @ CRLF"
  have step: "b + 1 \<le> length content" and rest: "foldE (multipart_part content ctype boundary) (i + 1, ps0 @ [as_bytes ?h, ?p], n0 + length ?h + length ?p) ranges
      = Inr (j, ps, n)"
    using Cons.prems(1) r by (auto simp: multipart_part_def bindE_eq_Inr contextE_eq_Inr content_slice_def addE_def checked_add_def Let_def bind_eq_Some_conv split: if_splits)
  have tl: "\<forall>(a, b) \<in> set ranges. a \<le> b" using Cons.prems(2) by simp
  from Cons.IH [OF rest tl] obtain body where body: "concat ps = concat (ps0 @ [as_bytes ?h, ?p]) @ body"
    "n = n0 + length ?h + length ?p + length body"
    "\<And>fuel. fuel > length ranges \<Longrightarrow> read_multipart fuel boundary False (map char_of_byte body @ ?closing)
          = Some (map (\<lambda>(a, b). ((a, b), map char_of_byte (sub_bytes content a (b + 1)))) ranges)" by auto
  have read: "read_multipart fuel boundary (i = 0) (map char_of_byte (as_bytes ?h @ ?p @ body) @ ?closing)
      = Some (map (\<lambda>(a, b). ((a, b), map char_of_byte (sub_bytes content a (b + 1)))) (r # ranges))" if f: "fuel > length (r # ranges)" for fuel
  proof -
    obtain fuel' where fuel': "fuel = Suc fuel'" "fuel' > length ranges" using f by (cases fuel) auto
    have e: "map char_of_byte (as_bytes ?h @ ?p @ body) @ ?closing = ?h @ map char_of_byte ?p @ map char_of_byte body @ ?closing"
      by (simp add: char_of_as_bytes)
    have "?h @ map char_of_byte ?p @ map char_of_byte body @ ?closing \<noteq> ?closing"
      by (simp add: part_header_def CRLF_def)
    moreover have "length (map char_of_byte ?p) = b - a + 1" using step r(2) by (simp add: sub_bytes_def)
    ultimately show ?thesis
      unfolding e using read_part_header [OF assms(3), of "map char_of_byte ?p" b a boundary i "length content"] body(3) [OF fuel'(2)] r(1) fuel'(1)
      by simp
  qed
  have "length ?h + length ?p + length body = length (as_bytes ?h @ ?p @ body)" by (simp add: as_bytes_def)
  then show ?case using body(1,2) read by (intro exI [of _ "as_bytes ?h @ ?p @ body"]) (simp add: as_bytes_def)
qed

lemma multipart_read:
  assumes "multipart_content H content ranges ctype boundary = Inr (parts, n)" and "ranges \<noteq> []" and "length ranges \<le> MAX_BYTE_RANGES"
    and "\<forall>(a, b) \<in> set ranges. a \<le> b" and "\<forall>b. h_from_bytes H b \<longrightarrow> 13 \<notin> set b"
  shows "n = length (concat parts) \<and> read_multipart (Suc MAX_BYTE_RANGES) boundary True (map char_of_byte (concat parts))
    = Some (map (\<lambda>(a, b). ((a, b), map char_of_byte (sub_bytes content a (b + 1)))) ranges)"
proof -
  have "13 \<notin> set (as_bytes ctype)" using assms(1,5) unfolding multipart_content_def ensure_eq_Inr by blast
  moreover have "byte_of_char (CHR 0x0D) = 13" by (simp add: byte_of_char_def)
  ultimately have c: "CHR 0x0D \<notin> set ctype" by (auto simp: as_bytes_def image_iff)
  obtain j ps m where f: "foldE (multipart_part content ctype boundary) (0, [], 0) ranges = Inr (j, ps, m)"
    and p: "parts = ps @ [as_bytes (CRLF @ ''--'' @ boundary @ ''--'' @ CRLF)]" "n = m + length (CRLF @ ''--'' @ boundary @ ''--'' @ CRLF)"
    using assms(1) unfolding multipart_content_def by (auto simp: bindE_eq_Inr contextE_eq_Inr checked_add_def Let_def split: if_splits)
  let ?rest = "CRLF @ ''--'' @ boundary @ ''--'' @ CRLF"
  from multipart_fold [OF f assms(4) c] obtain body where b: "concat ps = body" "m = length body"
    "\<And>fuel. fuel > length ranges \<Longrightarrow> read_multipart fuel boundary True (map char_of_byte body @ ?rest)
          = Some (map (\<lambda>(a, b). ((a, b), map char_of_byte (sub_bytes content a (b + 1)))) ranges)" using assms(2) by auto
  have "length ranges < Suc MAX_BYTE_RANGES" using assms(3) by simp
  note read = b(3) [OF this]
  have "concat parts = body @ as_bytes ?rest" "n = length (concat parts)" using p b(1,2) by (simp_all add: as_bytes_def)
  moreover from this(1) have "map char_of_byte (concat parts) = map char_of_byte body @ ?rest" by (simp only: map_append char_of_as_bytes)
  ultimately show ?thesis using read by (simp only: simp_thms)
qed

lemma build_eq: "build H status hs body l = Inr r \<longleftrightarrow>
    list_all (\<lambda>(_, v). h_from_bytes H (as_bytes v)) hs \<and> r = \<lparr>re_status = status, re_headers = hs, re_body = body\<rparr>"
  by (auto simp: build_def)

definition no_range :: "(str \<times> str) list \<Rightarrow> bool" where
  "no_range hs \<longleftrightarrow> map_of hs ''content-range'' = None \<and> map_of hs ''content-type'' = None"

lemma verified_no_range: "no_range (verified_headers W V digest db resolution ranged @ (case encoding of None \<Rightarrow> [] | Some c \<Rightarrow> [(''content-encoding'', c)]))"
  by (auto simp: no_range_def verified_headers_def split: option.splits)

lemma ranged_whole:
  assumes "ranged_response W V digest hs None = Inr r" and "vd_content_length V = length (vd_bytes V)"
  shows "re_status r = 200 \<and> re_body r = vd_bytes V \<and> (''content-length'', show_nat (length (re_body r))) \<in> set (re_headers r)"
  using assms by (auto simp: ranged_response_def build_eq Let_def)

lemma ranged_parts:
  assumes "ranged_response W V digest hs (Some ranges) = Inr r" and "vd_content_length V = length (vd_bytes V)"
    and "no_range hs" and "ranges \<noteq> []" and "length ranges \<le> MAX_BYTE_RANGES" and "\<forall>(a, b) \<in> set ranges. a \<le> b"
    and "\<forall>b. h_from_bytes (w_headers W) b \<longrightarrow> 13 \<notin> set b"
  shows "re_status r = 206 \<and> (''content-length'', show_nat (length (re_body r))) \<in> set (re_headers r)
    \<and> read_ranges r = Some (map (\<lambda>(a, b). ((a, b), sub_bytes (vd_bytes V) a (b + 1))) ranges)"
proof (cases "length ranges > 1")
  case True
  obtain parts n where m: "multipart_content (w_headers W) (vd_bytes V) ranges (vd_content_type V) (''ar-io-'' @ digest) = Inr (parts, n)"
    and r: "r = \<lparr>re_status = 206, re_headers = hs @ [(''content-type'', ''multipart/byteranges; boundary='' @ ''ar-io-'' @ digest),
                 (''content-length'', show_nat n)], re_body = concat parts\<rparr>"
    using assms(1) True by (auto simp: ranged_response_def bindE_eq_Inr build_eq Let_def)
  note read = multipart_read [OF m assms(4,5,6,7)]
  have "read_ranges r = map_option (map (map_prod id as_bytes)) (read_multipart (Suc MAX_BYTE_RANGES) (''ar-io-'' @ digest) True (map char_of_byte (concat parts)))"
  proof -
    have "map_of (re_headers r) ''content-range'' = None" "re_body r = concat parts"
      "map_of (re_headers r) ''content-type'' = Some (''multipart/byteranges; boundary='' @ ''ar-io-'' @ digest)"
      using assms(3) by (simp_all add: r no_range_def map_add_def)
    moreover have "strip_prefix p (p @ s) = Some s" for p s :: str by (simp add: strip_prefix_eq)
    ultimately show ?thesis unfolding read_ranges_def by (simp only: Option.bind.simps option.case)
  qed
  also have "\<dots> = Some (map (\<lambda>(a, b). ((a, b), sub_bytes (vd_bytes V) a (b + 1))) ranges)"
    using conjunct2 [OF read] by (auto simp: char_bytes simp del: read_multipart.simps)
  finally show ?thesis using r read by simp
next
  case False
  then obtain a b where ranges: "ranges = [(a, b)]" using assms(4) by (cases ranges) (auto simp: Suc_le_eq)
  then have ab: "a \<le> b" using assms(6) by simp
  have r: "b + 1 \<le> length (vd_bytes V)" "r = \<lparr>re_status = 206, re_headers = hs @ [(''content-type'', response_content_type (vd_content_type V)),
      (''content-length'', show_nat (b - a + 1)),
      (''content-range'', ''bytes '' @ show_nat a @ ''-'' @ show_nat b @ ''/'' @ show_nat (vd_content_length V))],
      re_body = sub_bytes (vd_bytes V) a (b + 1)\<rparr>"
    using assms(1) ranges by (auto simp: ranged_response_def bindE_eq_Inr build_eq Let_def content_slice_def addE_def split: if_splits)
  have "read_ranges r = Some [((a, b), sub_bytes (vd_bytes V) a (b + 1))]"
    using read_range_show [of "[]" a b "vd_content_length V"] assms(3) unfolding read_ranges_def r
    by (simp add: strip_prefix_def no_range_def map_add_def)
  moreover have "length (re_body r) = b - a + 1" using r ab by (simp add: sub_bytes_def)
  ultimately show ?thesis using ranges r by simp
qed

text \<open>The parts of a response for verified content.\<close>

lemma verified_response_parts:
  assumes "verified_response E W V resolution R = Inr r"
  shows "\<exists>digest db hs. vd_content_length V = length (vd_bytes V) \<and> unquoted (vd_etag V) = Some digest
    \<and> x_b64_decode E digest = Some db \<and> (\<exists>ranged. hs = verified_headers W V digest db resolution ranged)
    \<and> range_answer W V digest hs (served_etag V digest resolution) R
        (requested_ranges (w_headers W) R (served_etag V digest resolution) (length (vd_bytes V))) = Inr r"
  using assms unfolding verified_response_def Let_def ensure_eq_Inr bindE_eq_Inr contextE_eq_Inr by metis

text \<open>C35. What a range request is given is what it asked for: a response of status 206 states the ranges that the request named, all inside the content, and a client reading it, whether one part or the parts of a multipart body, finds at each the bytes of the content at those positions; a response of status 200 is the whole content, any other carries none of it; and the stated length is that of the body.\<close>

theorem served_ranges_exact:
  assumes "verified_response E W V resolution R = Inr r" and "\<forall>b. h_from_bytes (w_headers W) b \<longrightarrow> 13 \<notin> set b"
  shows "(re_status r \<noteq> 304 \<longrightarrow> (''content-length'', show_nat (length (re_body r))) \<in> set (re_headers r))
    \<and> ((re_status r = 200 \<and> re_body r = vd_bytes V)
     \<or> (re_status r = 206 \<and> (\<exists>digest v s ranges. unquoted (vd_etag V) = Some digest
          \<and> range_header (w_headers W) R (served_etag V digest resolution) = Some v \<and> h_to_str (w_headers W) v = Some s
          \<and> parse_byte_ranges s (length (vd_bytes V)) = Inr ranges \<and> (\<forall>(a, b) \<in> set ranges. a \<le> b \<and> b < length (vd_bytes V))
          \<and> read_ranges r = Some (map (\<lambda>(a, b). ((a, b), sub_bytes (vd_bytes V) a (b + 1))) ranges)))
     \<or> (re_status r \<in> {304, 400, 416} \<and> re_body r \<in> {[], as_bytes ''Malformed 'range' header'', as_bytes ''Range not satisfiable''}))"
proof -
  obtain digest db hs where d: "vd_content_length V = length (vd_bytes V)" "unquoted (vd_etag V) = Some digest"
    and hs: "\<exists>ranged. hs = verified_headers W V digest db resolution ranged"
    and v: "range_answer W V digest hs (served_etag V digest resolution) R
      (requested_ranges (w_headers W) R (served_etag V digest resolution) (length (vd_bytes V))) = Inr r"
    using verified_response_parts [OF assms(1)] by blast
  define x where "x = requested_ranges (w_headers W) R (served_etag V digest resolution) (length (vd_bytes V))"
  show ?thesis
  proof (cases x)
    case (Inl e)
    then show ?thesis using v x_def by (cases e) (auto simp: range_answer_def build_eq as_bytes_def)
  next
    case (Inr ranges)
    show ?thesis
    proof (cases "case rq_headers R ''if-none-match'' of [] \<Rightarrow> False | w # _ \<Rightarrow> w = as_bytes (served_etag V digest resolution)")
      case True
      then show ?thesis using v Inr x_def by (simp add: range_answer_def build_eq)
    next
      case False
      then obtain encoding where e: "ranged_response W V digest
          (hs @ (case encoding of None \<Rightarrow> [] | Some coding \<Rightarrow> [(''content-encoding'', coding)])) ranges = Inr r"
        using v Inr x_def by (auto simp: range_answer_def bindE_eq_Inr)
      show ?thesis
      proof (cases ranges)
        case None
        then show ?thesis using ranged_whole [OF e [unfolded None] d(1)] by blast
      next
        case (Some rs)
        have m: "map_sum id Some y = Inr (Some rs) \<longleftrightarrow> y = Inr rs" for y :: "ByteRangeError + (nat \<times> nat) list" by (cases y) auto
        obtain w s where w: "range_header (w_headers W) R (served_etag V digest resolution) = Some w" "h_to_str (w_headers W) w = Some s"
          "parse_byte_ranges s (length (vd_bytes V)) = Inr rs"
          using Inr Some m by (auto simp: x_def requested_ranges_def split: option.splits intro: that)
        note b = parse_byte_ranges_bounds [OF w(3)]
        have "no_range (hs @ (case encoding of None \<Rightarrow> [] | Some coding \<Rightarrow> [(''content-encoding'', coding)]))"
          using hs verified_no_range by blast
        from ranged_parts [OF e [unfolded Some] d(1) this b(1,2) _ assms(2)] b(3) have parts:
          "re_status r = 206" "(''content-length'', show_nat (length (re_body r))) \<in> set (re_headers r)"
          "read_ranges r = Some (map (\<lambda>(a, b). ((a, b), sub_bytes (vd_bytes V) a (b + 1))) rs)" by blast+
        have "\<forall>(a, b) \<in> set rs. a \<le> b \<and> b < length (vd_bytes V)" using b(3) by blast
        then have "\<exists>digest v s ranges. unquoted (vd_etag V) = Some digest
          \<and> range_header (w_headers W) R (served_etag V digest resolution) = Some v \<and> h_to_str (w_headers W) v = Some s
          \<and> parse_byte_ranges s (length (vd_bytes V)) = Inr ranges \<and> (\<forall>(a, b) \<in> set ranges. a \<le> b \<and> b < length (vd_bytes V))
          \<and> read_ranges r = Some (map (\<lambda>(a, b). ((a, b), sub_bytes (vd_bytes V) a (b + 1))) ranges)" using d(2) w parts(3) by blast
        then show ?thesis using parts(1,2) by blast
      qed
    qed
  qed
qed

text \<open>Content is marked as verified whatever its status.\<close>

lemma range_answer_headers: "range_answer W V digest hs etag R x = Inr r \<Longrightarrow> set hs \<subseteq> set (re_headers r)"
proof -
  have "ranged_response W V digest hs ranges = Inr r \<Longrightarrow> set hs \<subseteq> set (re_headers r)" for hs ranges
    by (auto simp: ranged_response_def bindE_eq_Inr build_eq Let_def split: option.splits if_splits list.splits)
  then show "range_answer W V digest hs etag R x = Inr r \<Longrightarrow> ?thesis"
    by (fastforce simp: range_answer_def build_eq bindE_eq_Inr split: sum.splits ByteRangeError.splits if_splits)
qed

lemma verified_response_marks:
  assumes "verified_response E W V resolution R = Inr r"
  shows "(''x-ar-io-verified'', ''true'') \<in> set (re_headers r)"
proof -
  obtain digest db ranged where "set (verified_headers W V digest db resolution ranged) \<subseteq> set (re_headers r)"
    using verified_response_parts [OF assms] range_answer_headers by blast
  then show ?thesis by (auto simp: verified_headers_def)
qed

definition t_headers :: headers where
  "t_headers = \<lparr>h_from_bytes = (\<lambda>b. 13 \<notin> set b), h_to_str = (\<lambda>b. Some (map char_of_byte b))\<rparr>"
definition t_serving :: serving where
  "t_serving = \<lparr>w_headers = t_headers, w_standard_encode = (\<lambda>b. ''digest''), w_instant = 0\<rparr>"
definition t_content :: "bytes VerifiedData" where
  "t_content = \<lparr>vd_bytes = [10, 11, 12, 13, 14], vd_cache_hit = False, vd_id = ''x'', vd_block_height = 0, vd_block_hash = None,
     vd_stable_anchor = True, vd_content_type = ''a/b'', vd_content_encoding = None, vd_content_length = 5,
     vd_etag = [QUOTE] @ hex (replicate 32 7) @ [QUOTE], vd_sha256 = [], vd_indexing_root = None\<rparr>"
definition t_range_request :: request where
  "t_range_request = \<lparr>rq_path = ''/'', rq_query = None, rq_method = ''GET'', rq_host = None,
     rq_headers = (\<lambda>name. if name = ''range'' then [as_bytes ''bytes=1-2,-1''] else [])\<rparr>"

lemma cr_bytes: "13 \<in> set (as_bytes s) \<longleftrightarrow> CHR 0x0D \<in> set s"
proof -
  have "byte_of_char c = 13 \<longleftrightarrow> c = CHR 0x0D" for c
    using inj_byte_of_char [of c "CHR 0x0D"] by (auto simp: byte_of_char_def)
  then show ?thesis by (auto simp: as_bytes_def image_iff)
qed

lemma cr_show [simp]: "CHR 0x0D \<notin> set (show_nat n)"
  using show_nat_ok [of n] by (auto simp: list_all_iff is_ascii_digit_def)

lemma t_etag: "unquoted (vd_etag t_content) = Some (hex (replicate 32 7))"
  by (simp add: unquoted_def t_content_def strip_suffix_def strip_prefix_def)

lemma cr_hex: "CHR 0x0D \<notin> set (hex (replicate 32 7))"
  by code_simp

lemma t_split: "split_once CHR ''='' ''bytes=1-2,-1'' = Some (''bytes'', ''1-2,-1'')" "map lower_char (trim_space ''bytes'') = ''bytes''"
  by (simp_all add: split_once_def trim_space_def is_space_def lower_char_def)

lemma t_range_header: "range_header t_headers t_range_request etag = Some (as_bytes ''bytes=1-2,-1'')"
  by (simp add: range_header_def t_range_request_def uses_byte_range_def t_headers_def char_of_as_bytes t_split)

lemma t_range: "parse_byte_range (trim_space ''1-2'') 5 = Inr (1, 2)" "parse_byte_range (trim_space ''-1'') 5 = Inr (4, 4)"
  by (simp_all add: trim_space_def is_space_def parse_byte_range_def split_once_def parse_unsigned_def is_ascii_digit_def
      digits_value_def digit_value_def U64_def)

lemma t_ranges: "parse_byte_ranges ''bytes=1-2,-1'' 5 = Inr [(1, 2), (4, 4)]"
  using t_range by (simp add: parse_byte_ranges_def t_split MAX_RANGE_HEADER_BYTES_def MAX_BYTE_RANGES_def)

lemma t_multipart: "\<exists>parts n. multipart_content t_headers (vd_bytes t_content) [(1, 2), (4, 4)] (vd_content_type t_content) boundary = Inr (parts, n)"
  if "length boundary < 100"
proof -
  have "length (show_nat 1) = 1" "length (show_nat 2) = 1" "length (show_nat 4) = 1" "length (show_nat 5) = 1"
    by (simp_all add: show_nat.simps)
  moreover have "length (vd_bytes t_content) = 5" by (simp add: t_content_def)
  ultimately have h: "length (part_header i boundary ''a/b'' (1, 2) (length (vd_bytes t_content))) < 300"
    "length (part_header i boundary ''a/b'' (4, 4) (length (vd_bytes t_content))) < 300" for i
    using that by (simp_all add: part_header_def CRLF_def)
  show ?thesis
    using that cr_bytes [of "''a/b''"] h(1) [of 0] h(2) [of 1]
    by (simp add: multipart_content_def multipart_part_def t_headers_def t_content_def addE_def content_slice_def checked_add_def U64_def
        Let_def CRLF_def)
qed

lemma t_served:
  assumes "w_headers W = t_headers" and "w_standard_encode W = (\<lambda>b. ''digest'')" and "resolution = None \<or> resolution = Some t_resolution"
  shows "\<exists>r. verified_response sample W t_content resolution t_range_request = Inr r \<and> re_status r = 206"
proof -
  let ?d = "hex (replicate 32 7)"
  have len: "length (vd_bytes t_content) = vd_content_length t_content" "vd_content_length t_content = 5" by (simp_all add: t_content_def)
  have req: "requested_ranges t_headers t_range_request etag 5 = Inr (Some [(1, 2), (4, 4)])" for etag
    by (simp add: requested_ranges_def t_range_header char_of_as_bytes t_ranges) (simp add: t_headers_def char_of_as_bytes t_ranges)
  obtain parts n where m: "multipart_content t_headers (vd_bytes t_content) [(1, 2), (4, 4)] (vd_content_type t_content) (''ar-io-'' @ ?d) = Inr (parts, n)"
    using t_multipart [of "''ar-io-'' @ ?d"] t_hex(1) by (auto simp: t_id_def)
  have "list_all (\<lambda>(_, v). h_from_bytes t_headers (as_bytes v)) (verified_headers W t_content ?d (replicate 32 7) resolution True)"
    using cr_hex assms(2,3)
    by (auto simp: verified_headers_def t_headers_def cr_bytes t_content_def served_etag_def QUOTE_def t_resolution_def t_id_def)
  then have "\<exists>r. ranged_response W t_content ?d (verified_headers W t_content ?d (replicate 32 7) resolution True)
      (Some [(1, 2), (4, 4)]) = Inr r \<and> re_status r = 206"
    using m cr_hex assms(1) by (simp add: ranged_response_def build_def Let_def) (simp add: t_headers_def cr_bytes)
  moreover have "x_b64_decode sample ?d = Some (replicate 32 7)" by (simp add: sample_def sample_decode_hex)
  moreover have "vd_content_encoding t_content = None" "rq_headers t_range_request ''if-none-match'' = []"
    by (simp_all add: t_content_def t_range_request_def)
  ultimately show ?thesis using assms(1) by (simp add: verified_response_def len t_etag range_answer_def t_range_header req)
qed

theorem served_ranges_exact_witness:
  "\<exists>r. verified_response sample t_serving t_content None t_range_request = Inr r \<and> re_status r = 206
    \<and> read_ranges r = Some [((1, 2), [11, 12]), ((4, 4), [14])]"
proof -
  obtain r where r: "verified_response sample t_serving t_content None t_range_request = Inr r" "re_status r = 206"
    using t_served [of t_serving None] by (auto simp: t_serving_def)
  have w: "w_headers t_serving = t_headers" "length (vd_bytes t_content) = 5" by (simp_all add: t_serving_def t_content_def)
  have h: "h_to_str t_headers b = Some (map char_of_byte b)" "h_from_bytes t_headers b \<longleftrightarrow> 13 \<notin> set b" for b by (simp_all add: t_headers_def)
  have "\<forall>b. h_from_bytes (w_headers t_serving) b \<longrightarrow> 13 \<notin> set b" by (simp add: w h)
  from served_ranges_exact [OF r(1) this] obtain v s ranges digest where
    "range_header t_headers t_range_request (served_etag t_content digest None) = Some v" "h_to_str t_headers v = Some s"
    "parse_byte_ranges s 5 = Inr ranges" "read_ranges r = Some (map (\<lambda>(a, b). ((a, b), sub_bytes (vd_bytes t_content) a (b + 1))) ranges)"
    unfolding w using r(2) by auto
  then have "read_ranges r = Some (map (\<lambda>(a, b). ((a, b), sub_bytes (vd_bytes t_content) a (b + 1))) [(1, 2), (4, 4)])"
    by (auto simp: t_range_header h char_of_as_bytes t_ranges)
  then show ?thesis using r by (simp add: sub_bytes_def t_content_def)
qed

end
