(* ===== verification/ServeProofs.thy ===== *)
theory ServeProofs
  imports Serve RespondProofs
begin

text \<open>
  The content handlers: the cache of manifest paths against the manifests, the blocking policy and the undername limit over
  every route, and what the signature of a response binds.
\<close>

section \<open>Manifests\<close>

text \<open>What a manifest says about a path: the reference the cache is measured against.\<close>

definition manifest_answer :: "deps \<Rightarrow> (bytes \<Rightarrow> json option) \<Rightarrow> bytes VerifiedData \<Rightarrow> str \<Rightarrow> ManifestResolution option res" where
  "manifest_answer E J V path =
     (if length path \<le> MAX_MANIFEST_PATH_BYTES \<or> \<not> length (vd_bytes V) \<le> MAX_MANIFEST_BYTES
      then resolve_manifest E J (vd_bytes V) (trim_end_char CHR ''/'' path)
      else Inl (Fail STR ''manifest path exceeds size limit''))"

text \<open>Every cached path was read from a manifest of that id and digest.\<close>

definition paths_ok ::
  "deps \<Rightarrow> (bytes \<Rightarrow> json option) \<Rightarrow> bytes VerifiedData set \<Rightarrow> (str \<times> manifest_entry) list \<Rightarrow> bool" where
  "paths_ok E J S L \<longleftrightarrow> (\<forall>(i, etag, ps) \<in> set L. \<forall>(p, target) \<in> set ps.
     \<exists>V \<in> S. vd_id V = i \<and> vd_etag V = etag \<and> resolve_manifest E J (vd_bytes V) p = Inr target)"

lemma paths_ok_put:
  assumes "paths_ok E J S L" and "\<forall>(p, target) \<in> set ps. \<exists>V \<in> S. vd_id V = i \<and> vd_etag V = etag
     \<and> resolve_manifest E J (vd_bytes V) p = Inr target"
  shows "paths_ok E J S (put_key i (etag, ps) L)"
  using assms by (auto simp: paths_ok_def put_key_def del_key_def)

lemma paths_ok_spec:
  assumes "paths_ok E J S L"
  shows "paths_ok E J S (snd (manifest_spec (Get (V, p)) L))"
    and "V \<in> S \<Longrightarrow> resolve_manifest E J (vd_bytes V) p = Inr target \<Longrightarrow> paths_ok E J S (snd (manifest_spec (Insert (V, p, target)) L))"
    and "fst (manifest_spec (Get (V, p)) L) = Some target \<Longrightarrow>
      \<exists>V' \<in> S. vd_id V' = vd_id V \<and> vd_etag V' = vd_etag V \<and> resolve_manifest E J (vd_bytes V') p = Inr target"
proof -
  have ps: "\<forall>(p, target) \<in> set ps. \<exists>V' \<in> S. vd_id V' = vd_id V \<and> vd_etag V' = etag \<and> resolve_manifest E J (vd_bytes V') p = Inr target"
    if "map_of L (vd_id V) = Some (etag, ps)" for etag ps
    using assms map_of_SomeD [OF that] by (fastforce simp: paths_ok_def)
  show "paths_ok E J S (snd (manifest_spec (Get (V, p)) L))"
    using assms ps paths_ok_put [OF assms] by (auto split: option.splits)
  show "\<exists>V' \<in> S. vd_id V' = vd_id V \<and> vd_etag V' = vd_etag V \<and> resolve_manifest E J (vd_bytes V') p = Inr target"
    if "fst (manifest_spec (Get (V, p)) L) = Some target"
    using that ps by (fastforce split: option.splits prod.splits if_splits dest: map_of_SomeD)
  show "paths_ok E J S (snd (manifest_spec (Insert (V, p, target)) L))"
    if V: "V \<in> S" "resolve_manifest E J (vd_bytes V) p = Inr target"
  proof -
    define old where "old = (case map_of L (vd_id V) of None \<Rightarrow> [] | Some (digest, ps) \<Rightarrow> if digest = vd_etag V then ps else [])"
    have "\<forall>(p, target) \<in> set old. \<exists>V' \<in> S. vd_id V' = vd_id V \<and> vd_etag V' = vd_etag V \<and> resolve_manifest E J (vd_bytes V') p = Inr target"
      by (auto simp: old_def split: option.splits if_splits dest: ps [OF sym])
    then have "\<forall>(q, t) \<in> set (put_key p target old). \<exists>V' \<in> S. vd_id V' = vd_id V \<and> vd_etag V' = vd_etag V
        \<and> resolve_manifest E J (vd_bytes V') q = Inr t"
      using V by (auto simp: put_key_def del_key_def)
    from paths_ok_put [OF assms this] have "paths_ok E J S (put_key (vd_id V) (vd_etag V, put_key p target old) L)" .
    moreover have "paths_ok E J S L' \<Longrightarrow> paths_ok E J S (trim c s r L')" for c s r L'
      using trim_subset [of c s r L'] unfolding paths_ok_def by blast
    ultimately show ?thesis by (simp add: old_def Let_def)
  qed
qed

lemma resolve_manifest_content_ok:
  assumes "resolve_manifest_content E J V path c = (r, c')" and "manifest_rel c L" and "paths_ok E J S L"
  shows "\<exists>L'. manifest_rel c' L' \<and> paths_ok E J (insert V S) L'
    \<and> (r = manifest_answer E J V path
       \<or> (\<exists>V' \<in> S. vd_id V' = vd_id V \<and> vd_etag V' = vd_etag V \<and> vd_bytes V' \<noteq> vd_bytes V))"
proof -
  have ok: "paths_ok E J (insert V S) L" using assms(3) unfolding paths_ok_def by blast
  let ?p = "trim_end_char CHR ''/'' path"
  consider (big) "\<not> length (vd_bytes V) \<le> MAX_MANIFEST_BYTES" | (long) "length (vd_bytes V) \<le> MAX_MANIFEST_BYTES" "\<not> length path \<le> MAX_MANIFEST_PATH_BYTES"
    | (fits) "length (vd_bytes V) \<le> MAX_MANIFEST_BYTES" "length path \<le> MAX_MANIFEST_PATH_BYTES" by blast
  then show ?thesis
  proof cases
    case big
    then show ?thesis using assms(1,2) ok by (auto simp: resolve_manifest_content_def manifest_answer_def resolve_manifest_def)
  next
    case long
    then show ?thesis using assms(1,2) ok by (auto simp: resolve_manifest_content_def manifest_answer_def)
  next
    case fits
    obtain c1 where g: "manifest_get V ?p c = (fst (manifest_spec (Get (V, ?p)) L), c1)"
      "manifest_rel c1 (snd (manifest_spec (Get (V, ?p)) L))" using manifest_get_rel [OF assms(2)] by blast
    note ok1 = paths_ok_spec(1) [OF ok, of V ?p]
    have ref: "manifest_answer E J V path = resolve_manifest E J (vd_bytes V) ?p" using fits by (simp add: manifest_answer_def)
    show ?thesis
    proof (cases "fst (manifest_spec (Get (V, ?p)) L)")
      case (Some target)
      obtain V' where V': "V' \<in> S" "vd_id V' = vd_id V" "vd_etag V' = vd_etag V" "resolve_manifest E J (vd_bytes V') ?p = Inr target"
        using paths_ok_spec(3) [OF assms(3) Some] by blast
      have "r = Inr target" "c' = c1" using assms(1) fits g(1) Some by (simp_all add: resolve_manifest_content_def)
      then show ?thesis using V' ref g(2) ok1 by (cases "vd_bytes V' = vd_bytes V") auto
    next
      case None
      have read: "content_read_at (vd_bytes V) 0 (length (vd_bytes V)) = Inr (vd_bytes V)"
        using fits by (simp add: content_read_at_def content_slice_def checked_add_def MAX_MANIFEST_BYTES_def U64_def sub_bytes_def)
      show ?thesis
      proof (cases "resolve_manifest E J (vd_bytes V) ?p")
        case (Inl e)
        then have "r = Inl e" "c' = c1" using assms(1) fits g(1) None read by (simp_all add: resolve_manifest_content_def)
        then show ?thesis using g(2) ok1 ref Inl by auto
      next
        case (Inr target)
        obtain c2 where c2: "manifest_insert V ?p target c1 = Inr c2"
          "manifest_rel c2 (snd (manifest_spec (Insert (V, ?p, target)) (snd (manifest_spec (Get (V, ?p)) L))))"
          using manifest_insert_rel [OF g(2)] by blast
        have "r = Inr target" "c' = c2" using assms(1) fits g(1) None read Inr c2(1) by (simp_all add: resolve_manifest_content_def)
        then show ?thesis using c2(2) paths_ok_spec(2) [OF ok1 insertI1 Inr] ref Inr by auto
      qed
    qed
  qed
qed

text \<open>The requests for paths that one gateway answers, in order.\<close>

fun resolve_paths ::
  "deps \<Rightarrow> (bytes \<Rightarrow> json option) \<Rightarrow> ManifestCache \<Rightarrow> (bytes VerifiedData \<times> str) list \<Rightarrow> ManifestResolution option res list" where
  "resolve_paths E J c [] = []"
| "resolve_paths E J c ((V, path) # qs) =
     (case resolve_manifest_content E J V path c of (r, c) \<Rightarrow> r # resolve_paths E J c qs)"

lemma resolve_paths_ok:
  assumes "manifest_rel c L" and "paths_ok E J S L" and "((V, path), r) \<in> set (zip qs (resolve_paths E J c qs))"
  shows "r = manifest_answer E J V path
    \<or> (\<exists>V' \<in> S \<union> fst ` set qs. vd_id V' = vd_id V \<and> vd_etag V' = vd_etag V \<and> vd_bytes V' \<noteq> vd_bytes V)"
  using assms
proof (induction qs arbitrary: c L S)
  case (Cons q qs)
  obtain X p where q: "q = (X, p)" by (cases q)
  obtain r1 c1 where r1: "resolve_manifest_content E J X p c = (r1, c1)" by fastforce
  obtain L1 where L1: "manifest_rel c1 L1" "paths_ok E J (insert X S) L1" "r1 = manifest_answer E J X p
       \<or> (\<exists>V' \<in> S. vd_id V' = vd_id X \<and> vd_etag V' = vd_etag X \<and> vd_bytes V' \<noteq> vd_bytes X)"
    using resolve_manifest_content_ok [OF r1 Cons.prems(1,2)] by blast
  show ?case
  proof (cases "((V, path), r) = ((X, p), r1)")
    case True
    then show ?thesis using L1(3) by blast
  next
    case False
    then have "((V, path), r) \<in> set (zip qs (resolve_paths E J c1 qs))" using Cons.prems(3) q r1 by auto
    from Cons.IH [OF L1(1,2) this] q show ?thesis by auto
  qed
qed simp

text \<open>The etag of verified content is its SHA-256, quoted.\<close>

definition etag_ok :: "deps \<Rightarrow> bytes VerifiedData \<Rightarrow> bool" where
  "etag_ok E V \<longleftrightarrow> vd_etag V = [QUOTE] @ x_b64_encode E (sha256 E [vd_bytes V]) @ [QUOTE]"

text \<open>C40. The cache of manifest paths is transparent: over any sequence of requests, with its eviction and its entries of outdated digests, every path is resolved as the manifest itself says, errors included, unless two of the contents have the same SHA-256.\<close>

theorem manifest_cache_transparent:
  assumes "((V, path), r) \<in> set (zip qs (resolve_paths E J empty_manifest qs))"
    and "\<forall>(X, p) \<in> set qs. etag_ok E X" and "hash_widths E"
    and "\<forall>h. length h = 32 \<longrightarrow> x_b64_decode E (x_b64_encode E h) = Some h"
  shows "r = manifest_answer E J V path
    \<or> (\<exists>X p. (X, p) \<in> set qs \<and> vd_bytes X \<noteq> vd_bytes V \<and> sha256 E [vd_bytes X] = sha256 E [vd_bytes V])"
proof (cases "r = manifest_answer E J V path")
  case False
  then obtain X p where X: "(X, p) \<in> set qs" "vd_etag X = vd_etag V" "vd_bytes X \<noteq> vd_bytes V"
    using resolve_paths_ok [OF empty_rels(3) _ assms(1), of "{}"] by (auto simp: paths_ok_def)
  have "(V, path) \<in> set qs" using assms(1) by (auto dest: set_zip_leftD)
  then have "etag_ok E X" "etag_ok E V" using assms(2) X(1) by auto
  then have "x_b64_encode E (sha256 E [vd_bytes X]) = x_b64_encode E (sha256 E [vd_bytes V])" using X(2) by (simp add: etag_ok_def)
  moreover have "length (sha256 E [b]) = 32" for b using assms(3) by simp
  ultimately have "sha256 E [vd_bytes X] = sha256 E [vd_bytes V]" using assms(4) by (metis option.inject)
  then show ?thesis using X by blast
qed simp

section \<open>What is served\<close>

text \<open>A response that carries content says so in a header no other response of the handlers has.\<close>

definition is_content :: "response \<Rightarrow> bool" where
  "is_content r \<longleftrightarrow> (''x-ar-io-verified'', ''true'') \<in> set (re_headers r)"

definition delivers :: "deps \<Rightarrow> environment \<Rightarrow> request \<Rightarrow> bytes VerifiedData \<Rightarrow> response \<Rightarrow> bool" where
  "delivers E W R V r \<longleftrightarrow> (\<exists>resolution r0. verified_response E W V resolution R = Inr r0 \<and> re_status r = re_status r0 \<and> re_body r = re_body r0)"

lemma insert_header_simps [simp]:
  "re_status (insert_header n v r) = re_status r" "re_body (insert_header n v r) = re_body r"
  "(m, x) \<in> set (re_headers (insert_header n v r)) \<longleftrightarrow> (if m = n then x = v else (m, x) \<in> set (re_headers r))"
  by (auto simp: insert_header_def)

lemma is_content_insert [simp]: "n \<noteq> ''x-ar-io-verified'' \<Longrightarrow> is_content (insert_header n v r) \<longleftrightarrow> is_content r"
  by (simp add: is_content_def)

lemma error_not_content [simp]: "\<not> is_content (error_response s m)" "\<not> is_content (html_error_response s m)"
  "\<not> is_content (invalid_id_response i)" "\<not> is_content (unmatched_response R)"
  by (simp_all add: is_content_def error_response_def html_error_response_def Let_def invalid_id_response_def unmatched_response_def)

lemma page_not_content [simp]: "\<not> is_content (unavailable_response c t)" "\<not> is_content (blocked_page i reason)"
  by (simp_all add: unavailable_response_def blocked_page_def)

lemma redirect_not_content: "redirect_response W s l R = Inr r \<Longrightarrow> \<not> is_content r"
  by (auto simp: redirect_response_def Let_def is_content_def split: if_splits option.splits)

lemma blocked_not_content: "blocked_response E W n i h = Some r \<Longrightarrow> \<not> is_content r"
  by (auto simp: blocked_response_def split: sum.splits option.splits)

lemma allowed_not_content: "allowed_content E W n k i nm = Inl r \<Longrightarrow> \<not> is_content r"
  by (auto simp: allowed_content_def retrieval_error_response_def blocked_not_content split: option.splits sum.splits failure.splits)

lemma served_delivers: "is_content (served E W V resolution R) \<Longrightarrow> delivers E W R V (served E W V resolution R)"
  unfolding delivers_def by (cases "verified_response E W V resolution R") (auto simp: served_def)

lemma delivers_cong: "delivers E W R V r \<Longrightarrow> re_status r' = re_status r \<Longrightarrow> re_body r' = re_body r \<Longrightarrow> delivers E W R V r'"
  by (simp add: delivers_def)

section \<open>The blocking policy\<close>

text \<open>What the policy knows a target by; a policy enforces a list when it answers \<open>None\<close> for nothing on it.\<close>

definition policy_key :: "deps \<Rightarrow> str \<Rightarrow> str \<times> str" where
  "policy_key E target = (case decode_fixed E 32 target STR ''data ID'' of
     Inr _ \<Rightarrow> (''id'', target) | Inl _ \<Rightarrow> (''name'', map lower_char target))"

definition content_hash :: "bytes VerifiedData \<Rightarrow> str" where
  "content_hash V = trim_end_char QUOTE (dropWhile (\<lambda>c. c = QUOTE) (vd_etag V))"

definition enforces :: "environment \<Rightarrow> (str \<times> str) set \<Rightarrow> bool" where
  "enforces W B \<longleftrightarrow> (\<exists>store. w_policy W = Some store \<and> (\<forall>n kind target hash. store n kind target hash = Inr None \<longrightarrow>
     (kind, target) \<notin> B \<and> (\<forall>h. hash = Some h \<longrightarrow> (''hash'', h) \<notin> B)))"

lemma not_blocked:
  "blocked_response E W n i hash = None \<Longrightarrow> enforces W B \<Longrightarrow> policy_key E i \<notin> B \<and> (\<forall>h. hash = Some h \<longrightarrow> (''hash'', h) \<notin> B)"
  by (fastforce simp: blocked_response_def blocking_reason_def enforces_def policy_key_def split: sum.splits option.splits)

lemma allowed_content_ok:
  assumes "allowed_content E W n k i nm = Inr V"
  shows "w_retrieve W k i = Inr V"
    and "enforces W B \<Longrightarrow> policy_key E i \<notin> B \<and> (''hash'', content_hash V) \<notin> B"
  using assms not_blocked [of E W n i None B] not_blocked [of E W "n + 1" "nm V" "Some (content_hash V)" B]
  by (auto simp: allowed_content_def content_hash_def split: option.splits sum.splits)

text \<open>Where the content of \<open>retrieve_response\<close> comes from: the id itself, or the target of its manifest.\<close>

definition allowed_source :: "deps \<Rightarrow> environment \<Rightarrow> (str \<times> str) set \<Rightarrow> request \<Rightarrow> str \<Rightarrow> response \<Rightarrow> bool" where
  "allowed_source E W B R i r \<longleftrightarrow> policy_key E i \<notin> B \<and> (\<exists>V. w_retrieve W 0 i = Inr V \<and> (''hash'', content_hash V) \<notin> B \<and>
     (delivers E W R V r \<or> (\<exists>path c target c' T. is_manifest_content_type (vd_content_type V)
        \<and> resolve_manifest_content E (w_json W) V path c = (Inr (Some target), c')
        \<and> w_retrieve W 1 (mr_id target) = Inr T \<and> policy_key E (mr_id target) \<notin> B \<and> (''hash'', content_hash T) \<notin> B
        \<and> delivers E W R T r)))"

lemma allowed_source_cong:
  "allowed_source E W B R i r \<Longrightarrow> re_status r' = re_status r \<Longrightarrow> re_body r' = re_body r \<Longrightarrow> allowed_source E W B R i r'"
  by (auto simp: allowed_source_def delivers_def)

lemma retrieve_response_allowed:
  assumes "retrieve_response E W i path slash query resolution R c = (Inr r, c')" and "is_content r" and "enforces W B"
  shows "allowed_source E W B R i r"
proof (cases "allowed_content E W 1 0 i (\<lambda>_. i)")
  case (Inl r0)
  then show ?thesis using assms(1,2) allowed_not_content [OF Inl] by (simp add: retrieve_response_def)
next
  case (Inr V)
  note ok = allowed_content_ok(1) [OF Inr] allowed_content_ok(2) [OF Inr assms(3)]
  show ?thesis
  proof (cases "is_manifest_content_type (vd_content_type V)")
    case False
    then have "r = served E W V resolution R" using assms(1) Inr by (simp add: retrieve_response_def)
    then show ?thesis using ok assms(2) served_delivers unfolding allowed_source_def by blast
  next
    case True
    obtain m c1 where m: "resolve_manifest_content E (w_json W) V path c = (m, c1)" by fastforce
    obtain target where t: "m = Inr (Some target)"
      using assms(1,2) Inr True m by (cases m) (auto simp: retrieve_response_def split: option.splits)
    have "\<not> slash"
      using assms(1,2) Inr True m t redirect_not_content by (auto simp: retrieve_response_def)
    then have r: "(case allowed_content E W 3 1 (mr_id target) (\<lambda>_. mr_id target) of Inl r \<Rightarrow> (Inr r, c1)
        | Inr T \<Rightarrow> let r = served E W T resolution R in
            (Inr (if mr_fallback target \<and> re_status r \<noteq> 451
              then insert_header ''cache-control'' ''public, max-age=60, must-revalidate'' r else r), c1)) = (Inr r :: response res, c')"
      using assms(1) Inr True m t by (simp add: retrieve_response_def)
    obtain T where T: "allowed_content E W 3 1 (mr_id target) (\<lambda>_. mr_id target) = Inr T"
      using r assms(2) allowed_not_content by (fastforce split: sum.splits)
    note okT = allowed_content_ok(1) [OF T] allowed_content_ok(2) [OF T assms(3)]
    have "is_content (served E W T resolution R)" "re_status r = re_status (served E W T resolution R)"
      "re_body r = re_body (served E W T resolution R)"
      using r T assms(2) by (auto simp: Let_def split: if_splits)
    then have "delivers E W R T r" using served_delivers delivers_cong by blast
    then show ?thesis using ok okT True m t unfolding allowed_source_def by blast
  qed
qed

lemma insert_arns_content:
  assumes "insert_arns W C resolution r = Inr r'"
  shows "re_status r' = re_status r \<and> re_body r' = re_body r \<and> (is_content r' \<longleftrightarrow> is_content r)
    \<and> set (arns_headers C resolution) \<subseteq> set (re_headers r')"
  using assms unfolding insert_arns_def arns_headers_def
  by (auto simp: bindE_eq_Inr split: if_splits)

fun requested :: "route \<Rightarrow> str option" where
  "requested (RawContent i) = Some i"
| "requested (PathContent i path slash query) = Some i"
| "requested (ApexContent i path) = Some i"
| "requested (NamedContent name path) = Some name"
| "requested _ = None"

text \<open>C37. The blocking policy covers whatever is served: content leaves through a route only when the policy, asked at this request, blocks neither the id or name that was asked for, nor the digest of what was retrieved, nor, behind a manifest, the id or the digest of the target; and the bytes served are those of the content that passed.\<close>

theorem blocked_content_never_served:
  assumes "content_response E W C R rt st = (Inr r, st')" and "is_content r" and "\<forall>identity. rt \<noteq> Info identity"
    and "enforces W B"
  shows "\<exists>i. allowed_source E W B R i r \<and> (\<exists>target. requested rt = Some target \<and> policy_key E target \<notin> B
    \<and> (case rt of NamedContent name path \<Rightarrow> (\<exists>res names. resolve_arns E (w_chain W) C (w_now W) (w_first W) (w_again W) (w_kept W) name (fst st)
          = (Inr (Some res), names) \<and> i = rs_resolved_id res) | _ \<Rightarrow> i = target))"
proof (cases rt)
  case (RawContent i)
  obtain V where V: "allowed_content E W 1 0 i vd_id = Inr V" "r = served E W V None R"
    using assms(1,2) RawContent allowed_not_content by (fastforce simp: content_response_def split: sum.splits)
  note ok = allowed_content_ok(1) [OF V(1)] allowed_content_ok(2) [OF V(1) assms(4)]
  have "allowed_source E W B R i r" using ok V(2) assms(2) served_delivers unfolding allowed_source_def by blast
  then show ?thesis using RawContent ok by simp
next
  case (PathContent i path slash query)
  then obtain c' where "retrieve_response E W i path slash query None R (snd st) = (Inr r, c')"
    using assms(1) by (auto simp: content_response_def split: prod.splits)
  from retrieve_response_allowed [OF this assms(2,4)] show ?thesis using PathContent by (simp add: allowed_source_def)
next
  case (ApexContent i path)
  then obtain r0 c' where r0: "retrieve_response E W i path False None None R (snd st) = (Inr r0, c')" "r = apex_response C r0"
    using assms(1) by (auto simp: content_response_def bindE_eq_Inr split: prod.splits)
  have "is_content r0" "re_status r = re_status r0" "re_body r = re_body r0"
    using r0(2) assms(2) by (auto simp: apex_response_def split: if_splits)
  then have "allowed_source E W B R i r" using retrieve_response_allowed [OF r0(1) _ assms(4)] allowed_source_cong by blast
  then show ?thesis using ApexContent by (simp add: allowed_source_def)
next
  case (NamedContent name path)
  then have n: "named_response E W C R name path st = (Inr r, st')" using assms(1) by (simp add: content_response_def)
  have key: "policy_key E name \<notin> B"
    using n assms(2) blocked_not_content not_blocked [OF _ assms(4)]
    by (cases "blocked_response E W 0 name None") (auto simp: named_response_def split: prod.splits)
  obtain x names where x: "resolve_arns E (w_chain W) C (w_now W) (w_first W) (w_again W) (w_kept W) name (fst st) = (x, names)" by (rule prod.exhaust)
  obtain res c' r0 where res: "x = Inr (Some res)" "retrieve_response E W (rs_resolved_id res) path False None (Some res) R (snd st) = (Inr r0, c')"
    "insert_arns W C res r0 = Inr r"
    using n x assms(2) blocked_not_content
    by (cases st) (auto simp: named_response_def bindE_eq_Inr split: option.splits sum.splits if_splits prod.splits)
  note ins = insert_arns_content [OF res(3)]
  have "allowed_source E W B R (rs_resolved_id res) r"
    using retrieve_response_allowed [OF res(2) _ assms(4)] ins assms(2) allowed_source_cong by blast
  then show ?thesis using NamedContent key x res(1) by auto
qed (use assms redirect_not_content blocked_not_content in \<open>auto simp: content_response_def split: option.splits\<close>)

text \<open>C38. The limit a name's owner paid for holds at the response: content under a name is served only for a record whose rank does not exceed the limit of the resolution the chain gave, it is the content of that record's target, and the response states the resolution.\<close>

theorem undername_limit_enforced:
  assumes "content_response E W C R (NamedContent name path) st = (Inr r, st')" and "is_content r"
  shows "\<exists>res names r0 c. resolve_arns E (w_chain W) C (w_now W) (w_first W) (w_again W) (w_kept W) name (fst st) = (Inr (Some res), names)
    \<and> rs_index res \<le> rs_limit res \<and> set (arns_headers C res) \<subseteq> set (re_headers r)
    \<and> retrieve_response E W (rs_resolved_id res) path False None (Some res) R (snd st) = (Inr r0, c) \<and> is_content r0
    \<and> re_status r = re_status r0 \<and> re_body r = re_body r0"
proof -
  have n: "named_response E W C R name path st = (Inr r, st')" using assms(1) by (simp add: content_response_def)
  obtain x names where x: "resolve_arns E (w_chain W) C (w_now W) (w_first W) (w_again W) (w_kept W) name (fst st) = (x, names)" by (rule prod.exhaust)
  obtain res c r0 where res: "x = Inr (Some res)" "rs_index res \<le> rs_limit res"
    "retrieve_response E W (rs_resolved_id res) path False None (Some res) R (snd st) = (Inr r0, c)" "insert_arns W C res r0 = Inr r"
    using n x assms(2) blocked_not_content
    by (cases st) (auto simp: named_response_def bindE_eq_Inr not_less split: option.splits sum.splits if_splits prod.splits)
  show ?thesis using x res insert_arns_content [OF res(4)] assms(2) by auto
qed

section \<open>Signatures\<close>

lemma split_on_none [simp]: "c \<notin> set s \<Longrightarrow> split_on c s = [s]"
  by (induction s) auto

lemma split_on_append: "c \<notin> set s \<Longrightarrow> split_on c (s @ c # t) = s # split_on c t"
  by (induction s) (auto split: list.splits)

lemma split_on_join: "\<forall>x \<in> set xs. c \<notin> set x \<Longrightarrow> xs \<noteq> [] \<Longrightarrow> split_on c (join_with [c] xs) = xs"
  by (induction "[c]" xs rule: join_with.induct) (auto simp: split_on_append)

text \<open>The lines of the signed text.\<close>

definition base_lines :: "HttpSigner \<Rightarrow> response \<Rightarrow> str \<Rightarrow> str \<Rightarrow> str list \<Rightarrow> nat \<Rightarrow> str list" where
  "base_lines S r meth path covered created =
     (quoted ''@status'' @ '': '' @ show_nat (re_status r)) # map (\<lambda>name. quoted name @ '': '' @ header_value r name) covered
       @ (if hs_bind_request S then [quoted ''@method'' @ '';req: '' @ meth, quoted ''@path'' @ '';req: '' @ path] else [])
       @ [quoted ''@signature-params'' @ '': '' @ signature_params S covered created]"

lemma join_with_concat: "join_with sep (x # xs) = x @ concat (map (\<lambda>y. sep @ y) xs)"
  by (induction xs arbitrary: x) simp_all

lemma signature_base_lines: "signature_base S r meth path covered created = join_with LF (base_lines S r meth path covered created)"
  by (simp add: signature_base_def base_lines_def join_with_concat comp_def)

definition plain :: "str \<Rightarrow> bool" where "plain s \<longleftrightarrow> CHR 0x0A \<notin> set s"

text \<open>What a header map holds: names without quotes, and no line feeds.\<close>

definition plain_headers :: "response \<Rightarrow> bool" where
  "plain_headers r \<longleftrightarrow> (\<forall>(n, v) \<in> set (re_headers r). plain n \<and> plain v \<and> QUOTE \<notin> set n)"

lemma show_nat_plain: "plain (show_nat n)"
proof -
  have "is_ascii_digit c \<Longrightarrow> c \<noteq> CHR 0x0A" for c by (auto simp: is_ascii_digit_def)
  then show ?thesis using show_nat_ok [of n] by (auto simp: plain_def list_all_iff)
qed

lemma plain_append [simp]: "plain (s @ t) \<longleftrightarrow> plain s \<and> plain t" "plain []" "plain (c # s) \<longleftrightarrow> c \<noteq> CHR 0x0A \<and> plain s"
  by (auto simp: plain_def)

lemma plain_join: "plain sep \<Longrightarrow> \<forall>x \<in> set xs. plain x \<Longrightarrow> plain (join_with sep xs)"
  by (induction sep xs rule: join_with.induct) auto

lemma covered_plain: "plain_headers r \<Longrightarrow> name \<in> set (covered_headers r) \<Longrightarrow> plain name \<and> QUOTE \<notin> set name"
  by (auto simp: covered_headers_def plain_headers_def)

lemma header_value_plain: "plain_headers r \<Longrightarrow> plain (header_value r name)"
  unfolding header_value_def by (rule plain_join) (auto simp: plain_headers_def)

lemma quoted_plain [simp]: "plain (quoted s) \<longleftrightarrow> plain s"
  by (simp add: quoted_def QUOTE_def)

lemma params_plain: "plain (hs_key_id S) \<Longrightarrow> \<forall>x \<in> set covered. plain x \<Longrightarrow> plain (signature_params S covered created)"
  by (auto simp: signature_params_def signature_components_def show_nat_plain intro!: plain_join)

lemma base_lines_plain:
  assumes "plain_headers r" "plain meth" "plain path" "plain (hs_key_id S)" and "x \<in> set (base_lines S r meth path (covered_headers r) created)"
  shows "CHR 0x0A \<notin> set x"
proof -
  have "plain x"
    using assms covered_plain [OF assms(1)] header_value_plain [OF assms(1)] params_plain [OF assms(4), of "covered_headers r" created]
    by (auto simp: base_lines_def show_nat_plain split: if_splits)
  then show ?thesis by (simp add: plain_def)
qed

lemma base_lines_split:
  assumes "plain_headers r" "plain meth" "plain path" "plain (hs_key_id S)"
  shows "split_on (CHR 0x0A) (signature_base S r meth path (covered_headers r) created)
    = base_lines S r meth path (covered_headers r) created"
  unfolding signature_base_lines LF_def
proof (rule split_on_join)
  show "\<forall>x \<in> set (base_lines S r meth path (covered_headers r) created). CHR 0x0A \<notin> set x"
    using base_lines_plain [OF assms] by blast
qed (simp add: base_lines_def)

lemma quoted_inj: "quoted a @ s = quoted b @ t \<Longrightarrow> QUOTE \<notin> set a \<Longrightarrow> QUOTE \<notin> set b \<Longrightarrow> a = b \<and> s = t"
proof -
  assume h: "quoted a @ s = quoted b @ t" "QUOTE \<notin> set a" "QUOTE \<notin> set b"
  then have e: "a @ QUOTE # s = b @ QUOTE # t" by (simp add: quoted_def)
  have "takeWhile (\<lambda>c. c \<noteq> QUOTE) (a @ QUOTE # s) = a" "takeWhile (\<lambda>c. c \<noteq> QUOTE) (b @ QUOTE # t) = b"
    using h(2,3) by (subst takeWhile_append2; auto)+
  then have "a = b" using e by simp
  then show ?thesis using e by simp
qed

lemma header_value_uncovered: "is_covered name \<Longrightarrow> name \<notin> set (covered_headers r) \<Longrightarrow> header_value r name = []"
proof -
  assume "is_covered name" "name \<notin> set (covered_headers r)"
  then have "name \<notin> fst ` set (re_headers r)" by (simp add: covered_headers_def)
  then have "\<forall>(n, v) \<in> set (re_headers r). n \<noteq> name" by force
  then have "filter (\<lambda>(n, v). n = name) (re_headers r) = []" by (auto simp: filter_empty_conv)
  then show ?thesis by (simp add: header_value_def)
qed

lemma signature_base_inj:
  assumes eq: "signature_base S r meth path (covered_headers r) created = signature_base S r' meth' path' (covered_headers r') created'"
    and p: "plain_headers r" "plain_headers r'" "plain meth" "plain path" "plain meth'" "plain path'" "plain (hs_key_id S)"
  shows "re_status r = re_status r' \<and> created = created' \<and> covered_headers r = covered_headers r'
    \<and> (\<forall>name. is_covered name \<longrightarrow> header_value r name = header_value r' name)
    \<and> (hs_bind_request S \<longrightarrow> meth = meth' \<and> path = path')"
proof -
  let ?l = "base_lines S r meth path (covered_headers r) created" and ?l' = "base_lines S r' meth' path' (covered_headers r') created'"
  have l: "?l = ?l'" using eq base_lines_split [OF p(1,3,4,7)] base_lines_split [OF p(2,5,6,7)] by metis
  let ?f = "\<lambda>r name. quoted name @ '': '' @ header_value r name"
  have heads: "re_status r = re_status r'" using l show_nat_inj by (simp add: base_lines_def)
  have len: "length (covered_headers r) = length (covered_headers r')"
    using arg_cong [OF l, of length] by (simp add: base_lines_def split: if_splits)
  then have m: "map (?f r) (covered_headers r) = map (?f r') (covered_headers r')"
    and tl: "(if hs_bind_request S then [quoted ''@method'' @ '';req: '' @ meth, quoted ''@path'' @ '';req: '' @ path] else [])
      = (if hs_bind_request S then [quoted ''@method'' @ '';req: '' @ meth', quoted ''@path'' @ '';req: '' @ path'] else [])"
    and ps: "signature_params S (covered_headers r) created = signature_params S (covered_headers r') created'"
    using l by (auto simp: base_lines_def split: if_splits)
  have nth: "covered_headers r ! i = covered_headers r' ! i
      \<and> header_value r (covered_headers r ! i) = header_value r' (covered_headers r' ! i)" if i: "i < length (covered_headers r)" for i
  proof -
    have "?f r (covered_headers r ! i) = ?f r' (covered_headers r' ! i)" using arg_cong [OF m, of "\<lambda>xs. xs ! i"] i len by simp
    moreover have "QUOTE \<notin> set (covered_headers r ! i)" "QUOTE \<notin> set (covered_headers r' ! i)"
      using covered_plain p(1,2) i len by (metis nth_mem)+
    ultimately have "covered_headers r ! i = covered_headers r' ! i
        \<and> '': '' @ header_value r (covered_headers r ! i) = '': '' @ header_value r' (covered_headers r' ! i)" by (rule quoted_inj)
    then show ?thesis by (metis same_append_eq)
  qed
  then have cov: "covered_headers r = covered_headers r'" using len by (simp add: list_eq_iff_nth_eq)
  have vals: "header_value r name = header_value r' name" if "is_covered name" for name
  proof (cases "name \<in> set (covered_headers r)")
    case True
    then show ?thesis using nth cov by (auto simp: in_set_conv_nth)
  next
    case False
    then show ?thesis using header_value_uncovered that cov by metis
  qed
  have "created = created'" using ps cov show_nat_inj by (simp add: signature_params_def)
  then show ?thesis using heads cov vals tl by (cases "hs_bind_request S") simp_all
qed

text \<open>What the header fields of a signature leave as it was.\<close>

lemma covered_not_signature: "is_covered name \<Longrightarrow> name \<noteq> ''signature'' \<and> name \<noteq> ''signature-input''"
  by (auto simp: is_covered_def SIGNATURE_TRIGGERS_def SIGNATURE_EXTRA_HEADERS_def starts_with_def strip_prefix_def)

definition same_covered :: "response \<Rightarrow> response \<Rightarrow> bool" where
  "same_covered r s \<longleftrightarrow> re_status s = re_status r \<and> re_body s = re_body r
     \<and> filter (\<lambda>(n, _). is_covered n) (re_headers s) = filter (\<lambda>(n, _). is_covered n) (re_headers r)"

lemma same_covered_insert: "\<not> is_covered name \<Longrightarrow> same_covered r s \<Longrightarrow> same_covered r (insert_header name v s)"
proof -
  assume h: "\<not> is_covered name" "same_covered r s"
  have "filter (\<lambda>(n, _). is_covered n) (filter (\<lambda>(n, _). n \<noteq> name) hs) = filter (\<lambda>(n, _). is_covered n) hs" for hs :: "(str \<times> str) list"
    using h(1) by (induction hs) auto
  then show ?thesis using h by (simp add: same_covered_def insert_header_def)
qed

lemma same_covered_eq:
  assumes "same_covered r s"
  shows "covered_headers s = covered_headers r" and "is_covered name \<Longrightarrow> header_value s name = header_value r name"
proof -
  have "filter is_covered (map fst hs) = map fst (filter (\<lambda>(n, _). is_covered n) hs)" for hs :: "(str \<times> str) list"
    by (induction hs) auto
  then show "covered_headers s = covered_headers r" using assms by (simp add: covered_headers_def same_covered_def)
  have f: "filter (\<lambda>(n, _). n = name) hs = filter (\<lambda>(n, _). n = name) (filter (\<lambda>(n, _). is_covered n) hs)"
    if "is_covered name" for hs :: "(str \<times> str) list" using that by (induction hs) auto
  show "header_value s name = header_value r name" if "is_covered name"
    unfolding header_value_def f [OF that, of "re_headers s"] f [OF that, of "re_headers r"] using assms by (simp only: same_covered_def)
qed

lemma signature_base_same: "same_covered r s \<Longrightarrow>
    signature_base S s meth path (covered_headers s) created = signature_base S r meth path (covered_headers r) created"
proof -
  assume h: "same_covered r s"
  have "map (\<lambda>name. LF @ quoted name @ '': '' @ header_value s name) (covered_headers r)
      = map (\<lambda>name. LF @ quoted name @ '': '' @ header_value r name) (covered_headers r)"
    using same_covered_eq(2) [OF h] by (auto simp: covered_headers_def)
  moreover have "re_status s = re_status r" using h by (simp add: same_covered_def)
  ultimately show ?thesis unfolding signature_base_def same_covered_eq(1) [OF h] by (simp only:)
qed

text \<open>C39. A signature over a response binds it: it verifies over the response as it is sent, the headers of the signature themselves included, and any response, method and path that a verifier checks with the same signed text have the same status and the same values of every covered header, among them the id, the digest and the marks of verification, and, where requests are bound, the same method and path.\<close>

theorem signed_response_binding:
  assumes "sign W S r meth path = Inr s" and "list_ex is_trigger (map fst (re_headers r))"
    and "plain_headers r" and "plain meth" and "plain path" and "plain (hs_key_id S)"
  shows "\<exists>created signed. w_created W = Some created
    \<and> signed = signature_base S s meth path (covered_headers s) created
    \<and> (''signature'', ''sig1=:'' @ w_standard_encode W (hs_sign S (as_bytes signed)) @ '':'') \<in> set (re_headers s)
    \<and> (''signature-input'', ''sig1='' @ signature_params S (covered_headers s) created) \<in> set (re_headers s)
    \<and> re_status s = re_status r \<and> re_body s = re_body r
    \<and> (\<forall>r' meth' path' created'. plain_headers r' \<and> plain meth' \<and> plain path'
        \<and> signature_base S r' meth' path' (covered_headers r') created' = signed \<longrightarrow>
        re_status r' = re_status s \<and> created' = created
        \<and> (\<forall>name. is_covered name \<longrightarrow> header_value r' name = header_value s name)
        \<and> (hs_bind_request S \<longrightarrow> meth' = meth \<and> path' = path))"
proof -
  define r1 where "r1 = r\<lparr>re_headers := filter (\<lambda>(n, _). n \<noteq> ''signature'' \<and> n \<noteq> ''signature-input'') (re_headers r)\<rparr>"
  have not: "\<not> is_covered ''signature''" "\<not> is_covered ''signature-input''" using covered_not_signature by blast+
  have trig: "list_ex is_trigger (map fst (re_headers r1))"
  proof -
    have "is_trigger n \<Longrightarrow> n \<noteq> ''signature'' \<and> n \<noteq> ''signature-input''" for n
      using covered_not_signature [of n] by (auto simp: is_trigger_def is_covered_def)
    then show ?thesis using assms(2) by (fastforce simp: list_ex_iff r1_def)
  qed
  have same1: "same_covered r r1"
  proof -
    have "filter (\<lambda>(n, _). is_covered n) (filter (\<lambda>(n, _). n \<noteq> ''signature'' \<and> n \<noteq> ''signature-input'') hs)
        = filter (\<lambda>(n, _). is_covered n) hs" for hs :: "(str \<times> str) list"
      using not by (induction hs) auto
    then show ?thesis by (simp add: same_covered_def r1_def)
  qed
  obtain created where created: "w_created W = Some created"
    and s: "s = insert_header ''signature'' (''sig1=:'' @ w_standard_encode W (hs_sign S (as_bytes
        (signature_base S r1 meth path (covered_headers r1) created))) @ '':'')
      (insert_header ''signature-input'' (''sig1='' @ signature_params S (covered_headers r1) created) r1)"
    using assms(1) trig unfolding sign_def Let_def r1_def [symmetric] by (auto simp: bindE_eq_Inr contextE_eq_Inr split: if_splits)
  have same: "same_covered r s" unfolding s using same_covered_insert not same1 by blast
  have base: "signature_base S r1 meth path (covered_headers r1) created = signature_base S r meth path (covered_headers r) created"
    "signature_base S s meth path (covered_headers s) created = signature_base S r meth path (covered_headers r) created"
    using signature_base_same same1 same by blast+
  have bind: "re_status r' = re_status s \<and> created' = created \<and> (\<forall>name. is_covered name \<longrightarrow> header_value r' name = header_value s name)
      \<and> (hs_bind_request S \<longrightarrow> meth' = meth \<and> path' = path)"
    if r': "plain_headers r'" "plain meth'" "plain path'"
      "signature_base S r' meth' path' (covered_headers r') created' = signature_base S s meth path (covered_headers s) created"
    for r' meth' path' created'
    using signature_base_inj [OF r'(4) [unfolded base(2)] r'(1) assms(3) r'(2,3) assms(4-6)] same_covered_eq(2) [OF same] same
    by (auto simp: same_covered_def)
  have heads: "(''signature'', ''sig1=:'' @ w_standard_encode W (hs_sign S (as_bytes
        (signature_base S s meth path (covered_headers s) created))) @ '':'') \<in> set (re_headers s)"
    "(''signature-input'', ''sig1='' @ signature_params S (covered_headers s) created) \<in> set (re_headers s)"
    using base same_covered_eq(1) [OF same] same_covered_eq(1) [OF same1] by (simp_all add: s insert_header_def)
  have "re_status s = re_status r" "re_body s = re_body r" using same by (simp_all add: same_covered_def)
  then show ?thesis using created heads bind by blast
qed

section \<open>A request\<close>

definition t_list :: "(str \<times> str) set" where "t_list = {(''id'', ''bad'')}"

definition t_policy :: "nat \<Rightarrow> str \<Rightarrow> str \<Rightarrow> str option \<Rightarrow> str option res" where
  "t_policy n kind target hash =
     (if (kind, target) \<in> t_list \<or> (case hash of None \<Rightarrow> False | Some h \<Rightarrow> (''hash'', h) \<in> t_list) then Inr (Some ''listed'') else Inr None)"

definition t_env :: environment where
  "t_env = \<lparr>w_headers = t_headers, w_standard_encode = (\<lambda>b. ''digest''), w_instant = 0, w_policy = Some t_policy,
     w_retrieve = (\<lambda>n i. Inr t_content), w_json = (\<lambda>b. None), w_text = (\<lambda>e. []), w_quality = (\<lambda>s. 0), w_full_quality = 1,
     w_info = (\<lambda>i. empty_error_response 200), w_chain = t_chain, w_now = nc_now t_call, w_first = 0, w_again = 0, w_kept = 0,
     w_created = Some 7\<rparr>"

definition t_state :: state where "t_state = ((empty_arns, None), empty_manifest)"

lemma t_enforces: "enforces t_env t_list"
  by (auto simp: enforces_def t_env_def t_policy_def split: if_splits)

lemma t_env_served: "resolution = None \<or> resolution = Some t_resolution \<Longrightarrow>
    is_content (served sample t_env t_content resolution t_range_request)
    \<and> re_status (served sample t_env t_content resolution t_range_request) = 206"
  using t_served [of t_env resolution] verified_response_marks by (fastforce simp: served_def is_content_def t_env_def)

lemma t_id_good: "hex t_id \<noteq> ''bad''"
proof
  assume "hex t_id = ''bad''"
  then show False using t_hex(1) by simp
qed

lemma t_allowed: "i = ''x'' \<or> i = hex t_id \<Longrightarrow> nm t_content = i \<Longrightarrow> allowed_content sample t_env n k i nm = Inr t_content"
  using t_id_good by (auto simp: allowed_content_def blocked_response_def blocking_reason_def t_env_def t_policy_def t_list_def decode_fixed_def
      decode_b64_def sample_def split: sum.splits)

theorem blocked_content_never_served_witness:
  "\<exists>r. content_response sample t_env t_config t_range_request (RawContent ''x'') t_state = (Inr r, t_state) \<and> re_status r = 206
    \<and> allowed_source sample t_env t_list t_range_request ''x'' r"
proof -
  let ?r = "served sample t_env t_content None t_range_request"
  have "vd_id t_content = ''x''" by (simp add: t_content_def)
  then have r: "content_response sample t_env t_config t_range_request (RawContent ''x'') t_state = (Inr ?r, t_state)"
    by (simp add: content_response_def t_allowed)
  from blocked_content_never_served [OF r _ _ t_enforces] t_env_served [of None] r show ?thesis by auto
qed

lemma t_resolve_arns: "\<exists>names. resolve_arns sample t_chain t_config (nc_now t_call) 0 0 0 ''ab'' (empty_arns, None) = (Inr (Some t_resolution), names)"
  using t_resolve by (auto simp: t_call_def split: prod.splits)

lemma t_insert: "\<exists>r'. insert_arns t_env t_config t_resolution r = Inr r'"
proof -
  have "CHR 0x0D \<notin> set (hex t_id)" using cr_hex by (simp add: t_id_def)
  then show ?thesis by (simp add: insert_arns_def arns_headers_def t_resolution_def t_config_def t_env_def t_headers_def cr_bytes)
qed

theorem undername_limit_enforced_witness:
  "\<exists>r st. content_response sample t_env t_config t_range_request (NamedContent ''ab'' []) t_state = (Inr r, st) \<and> re_status r = 206
    \<and> set (arns_headers t_config t_resolution) \<subseteq> set (re_headers r)"
proof -
  let ?s = "served sample t_env t_content (Some t_resolution) t_range_request"
  have plain: "\<not> is_manifest_content_type (vd_content_type t_content)"
    by (simp add: t_content_def is_manifest_content_type_def MANIFEST_CONTENT_TYPE_def trim_space_def is_space_def)
  have w: "w_chain t_env = t_chain" "w_now t_env = nc_now t_call" "w_first t_env = 0" "w_again t_env = 0" "w_kept t_env = 0"
    by (simp_all add: t_env_def)
  have t: "rs_resolved_id t_resolution = hex t_id" "\<not> rs_limit t_resolution < rs_index t_resolution" by (simp_all add: t_resolution_def)
  have ret: "retrieve_response sample t_env (hex t_id) [] False None (Some t_resolution) t_range_request empty_manifest = (Inr ?s, empty_manifest)"
    using plain by (simp add: retrieve_response_def t_allowed)
  obtain names where names: "resolve_arns sample t_chain t_config (nc_now t_call) 0 0 0 ''ab'' (empty_arns, None) = (Inr (Some t_resolution), names)"
    using t_resolve_arns by blast
  obtain r where r: "insert_arns t_env t_config t_resolution ?s = Inr r" using t_insert by blast
  have b: "blocked_response sample t_env 0 ''ab'' None = None"
    by (simp add: blocked_response_def blocking_reason_def t_env_def t_policy_def t_list_def split: sum.splits)
  have c: "content_response sample t_env t_config t_range_request (NamedContent ''ab'' []) t_state = (Inr r, (names, empty_manifest))"
    by (simp add: content_response_def named_response_def t_state_def b w names t ret r)
  have "is_content r" "re_status r = 206" using insert_arns_content [OF r] t_env_served [of "Some t_resolution"] by simp_all
  with undername_limit_enforced [OF c] c w names show ?thesis by (auto simp: t_state_def)
qed

definition t_signer :: HttpSigner where
  "t_signer = \<lparr>hs_sign = (\<lambda>b. b), hs_key_id = ''k'', hs_bind_request = True\<rparr>"
definition t_response :: response where
  "t_response = \<lparr>re_status = 200, re_headers = [(''x-ar-io-data-id'', ''x'')], re_body = [1]\<rparr>"

theorem signed_response_binding_witness:
  "\<exists>s. sign t_env t_signer t_response ''GET'' ''/'' = Inr s \<and> re_body s = [1] \<and> (''signature'', ''sig1=:digest:'') \<in> set (re_headers s)"
proof -
  have c: "covered_headers t_response = [''x-ar-io-data-id'']"
    by (simp add: covered_headers_def t_response_def is_covered_def SIGNATURE_TRIGGERS_def sort_by_def)
  have "list_ex is_trigger (map fst (re_headers t_response))" by (simp add: t_response_def is_trigger_def SIGNATURE_TRIGGERS_def)
  moreover obtain s where "sign t_env t_signer t_response ''GET'' ''/'' = Inr s"
  proof -
    have "CHR 0x0D \<notin> set (signature_params t_signer [''x-ar-io-data-id''] 7)"
      by (auto simp: signature_params_def signature_components_def t_signer_def quoted_def QUOTE_def)
    moreover have "t_response\<lparr>re_headers := filter (\<lambda>(n, _). n \<noteq> ''signature'' \<and> n \<noteq> ''signature-input'') (re_headers t_response)\<rparr> = t_response"
      by (simp add: t_response_def)
    moreover have "\<exists>s. sign t_env t_signer t_response ''GET'' ''/'' = Inr s"
      using calculation c by (simp add: sign_def Let_def t_env_def t_headers_def cr_bytes)
    ultimately show thesis using that by blast
  qed
  moreover have "plain_headers t_response" "plain ''GET''" "plain ''/''" "plain (hs_key_id t_signer)"
    by (simp_all add: plain_headers_def t_response_def t_signer_def QUOTE_def)
  ultimately show ?thesis using signed_response_binding [of t_env t_signer t_response "''GET''" "''/''" s]
    by (fastforce simp: t_env_def t_response_def)
qed

definition t_manifest :: "bytes VerifiedData" where
  "t_manifest = t_content\<lparr>vd_etag := [QUOTE] @ hex (sha256 sample [[10, 11, 12, 13, 14]]) @ [QUOTE]\<rparr>"
definition t_json :: "bytes \<Rightarrow> json option" where
  "t_json bs = Some (JObject [(''manifest'', JString ''arweave/paths''), (''version'', JString ''0.1.0''),
     (''paths'', JObject [(''p'', JObject [(''id'', JString (hex t_id))])])])"

theorem manifest_cache_transparent_witness:
  "\<exists>r r'. resolve_paths sample t_json empty_manifest [(t_manifest, ''p''), (t_manifest, ''p/'')] = [r, r']
    \<and> r' = Inr (Some \<lparr>mr_id = hex t_id, mr_fallback = False\<rparr>)"
proof -
  obtain r c where a: "resolve_manifest_content sample t_json t_manifest ''p'' empty_manifest = (r, c)" by (rule prod.exhaust)
  obtain r' c' where b: "resolve_manifest_content sample t_json t_manifest ''p/'' c = (r', c')" by (rule prod.exhaust)
  have r: "resolve_paths sample t_json empty_manifest [(t_manifest, ''p''), (t_manifest, ''p/'')] = [r, r']" by (simp add: a b)
  have law: "\<forall>h. length h = 32 \<longrightarrow> x_b64_decode sample (x_b64_encode sample h) = Some h" by (simp add: sample_def sample_decode_hex)
  have "etag_ok sample t_manifest" by (simp add: etag_ok_def t_manifest_def t_content_def)
  then have "r' = manifest_answer sample t_json t_manifest ''p/''"
    using manifest_cache_transparent [of t_manifest "''p/''" r' "[(t_manifest, ''p''), (t_manifest, ''p/'')]" sample t_json, OF _ _ sample_widths law] r
    by (auto simp del: resolve_paths.simps)
  also have "\<dots> = Inr (Some \<lparr>mr_id = hex t_id, mr_fallback = False\<rparr>)"
    by (simp add: manifest_answer_def resolve_manifest_def t_json_def manifest_of_json_def struct_fields_def required_def defaulted_def
        manifest_path_def trim_end_char_def required_manifest_id_def manifest_field_def t_manifest_def t_content_def
        MAX_MANIFEST_BYTES_def MAX_MANIFEST_PATH_BYTES_def decode_fixed_def) (simp add: t_id_def)
  finally show ?thesis using r by blast
qed

end
