(* ===== verification/Spec2Isabelle.thy ===== *)
theory Spec2Isabelle
  imports AnchorProofs GatewayProofs HeaderProofs TransactionProofs CacheProofs IndexFilter JsonItemProofs Retrieval AdmissionProofs ArnsProofs ServeProofs
begin

text \<open>
  A verification library for the AR.IO gateway (crate \<open>ar-io-gateway\<close>, directory \<open>src/src/\<close>).

  \<^bold>\<open>The program.\<close>  The gateway serves data of the Arweave network without trusting the peers it
  fetches it from.  Everything starts from a block index the operator trusts (\<open>decode_block_index\<close>):
  the hash, the transaction root and the weave size of every block.  A header fetched from a peer is
  accepted when its independent hash is the trusted one (\<open>verify_block_header\<close>); a transaction when
  its id and its signature are (\<open>verify_transaction\<close>); a chunk of data when a transaction path leads
  to it from the block's root and a data path from the transaction's (\<open>verify_chunk_proof\<close>); a chunk
  stored in replica format is first unpacked (\<open>Job::unpack\<close>).  \<open>authenticate_root\<close> puts these together: from
  an id to a content whose chunks are fetched, verified and anchored as they are read (\<open>streaming.rs\<close>,
  \<open>trusted_chunk_anchor\<close>).  The data of a transaction may be a bundle of
  data items (ANS-104 binary or JSON) that nest; an item is found in its parent's table, checked by its
  signature (\<open>verify_bundle_item\<close>, \<open>verify_data_item\<close>), and reached through indexed ancestors
  (\<open>verify_indexed_bundle\<close>).  The indexer walks the bundles of a root (\<open>BundleTraversal\<close>), keeps the
  items its filter accepts (\<open>IndexFilter\<close>) and commits them in batches.  Its bundle workers run under shared admission limits and
  resume from checkpoints (\<open>background.rs\<close>).  Over HTTP a request's host and path choose an id, a sandbox or a
  name; names resolve through accounts of a chain; what is found passes the blocking policy, may be a manifest, and
  leaves as a response, whole or in ranges, signed for the host (\<open>server.rs\<close>).  Verified content, name
  resolutions and manifest paths are kept in bounded caches.  The model follows this order: each theory
  imports those of the components it calls.

  \<^bold>\<open>Conventions.\<close>  \<open>anyhow::Result\<close> is \<open>error + 'a\<close> (\<open>'a res\<close>, theory \<open>Prelude\<close>): \<open>Fail\<close> carries the
  message of an error, \<open>Panic\<close> stands for a slice out of range, an overflow or an underflow, which the
  checked profile turns into a panic and the release profile into a wrap; that it is not reached is a
  theorem, never an assumption.  \<open>?\<close> is \<open>bindE\<close>, \<open>ensure!\<close> is \<open>ensure\<close>, \<open>.context\<close> is
  \<open>with_context\<close> or \<open>contextE\<close>.  Machine integers are natural numbers with every operation checked
  against their type (\<open>addE\<close>, \<open>subE\<close>, \<open>mulE\<close>, \<open>checked_add\<close>, \<open>saturating_add\<close> with the bound \<open>U128\<close>,
  \<open>U64\<close>, \<open>USIZE\<close> of 64 bits), or words where the code works bitwise.  Bytes are \<open>8 word\<close>, text is a
  list of bytes or \<open>str\<close>.  Asynchrony is sequential in the model: an \<open>await\<close> returns its value; yields to the scheduler, logging,
  profiling and progress reports have no counterpart.

  \<^bold>\<open>Third-party code\<close> is a parameter of the definitions that use it, a record of functions: \<open>deps\<close>
  (SHA-256, SHA-384, Keccak, base64, big integers), \<open>signers\<close> (modular exponentiation, aws-lc,
  secp256k1 recovery), \<open>curves\<close> (Ed25519 and secp256k1 verification), \<open>headers\<close> (HTTP header values),
  \<open>replica\<close> (the native entropy generator, its worker and its cancellation), \<open>json_reader\<close> (the events
  of \<open>serde_json\<close>'s streaming deserializer), a reader of JSON text (\<open>json\<close> of theory \<open>Json\<close> is its
  result), functions for the shortest text of a float or the retained bytes of a value,
  \<open>network\<close>, \<open>anchors\<close> and \<open>sources\<close> (what peers and the stored index answer), \<open>texts\<close> (dates and big numbers of
  old headers), \<open>solana\<close> (the chain's accounts, its addresses, base 58) and \<open>serving\<close> with \<open>environment\<close> (header values, the
  answers of the policy and of a retrieval, the instants of a request).  What the proofs use
  of them is a named hypothesis: \<open>hash_widths\<close>, \<open>decimal_codec\<close>, \<open>aws_lc_law\<close>, \<open>json_offsets\<close>, \<open>honest\<close> and \<open>chain_ok\<close> (the stored
  index is the operator's), \<open>calm\<close> (no answer of a source is a panic), \<open>enforces\<close> (a policy store
  answers nothing for what is not on its list) and \<open>plain_headers\<close> (no line feeds in headers) state documented
  behaviour, and \<open>w_deps\<close>, \<open>w_curves\<close> and their siblings are instances for which the witnesses hold.  One hypothesis
  restricts what untrusted peers answer: \<open>same_headers\<close>, needed only for a content that ends at or behind the
  rebase threshold, where a data root can be read with and without rebase headers and could be built to prove two
  chunks for one byte.  Where binding depends on a hash, a theorem either assumes that the hash has no collision among
  inputs it names (\<open>collision_free\<close> on the nodes of the computations compared, \<open>hashed_inputs\<close> for all that was accepted
  of a content), or its conclusion offers the colliding inputs.

  \<^bold>\<open>Theories and code.\<close>
  \<^item> \<open>Prelude\<close>, \<open>Codec\<close>, \<open>Json\<close>, \<open>Samples\<close>: results, checked arithmetic, byte strings; the readers and
    decoders of \<open>lib.rs\<close> (locale \<open>reader\<close>, interpreted on each); JSON values; instances of the
    parameters for the witnesses.
  \<^item> \<open>Merkle\<close>, \<open>Packing\<close>, \<open>Chunk\<close>, \<open>ChunkProofs\<close>: \<open>validate_tx_path\<close>, \<open>validate_data_path\<close> and their
    helpers, \<open>packing.rs\<close>, \<open>decode_binary_chunk\<close>, \<open>verify_chunk_proof\<close>, \<open>check_chunk_geometry\<close>.  Both
    walks refine one abstract descent (\<open>descend\<close>), where bounds and binding are proved once; an accepted path
    is one of the relations \<open>committed\<close> and \<open>data_committed\<close>, which say what a root commits to.
  \<^item> \<open>DeepHash\<close>, \<open>Header\<close>, \<open>Historical\<close>, \<open>HeaderCheck\<close>, \<open>HeaderProofs\<close>: the deep hash, the header
    preimages of every fork (\<open>historical.rs\<close> before 2.5), the encoders of the signed segment
    (locale \<open>writer\<close>, interpreted on each encoder: what it appends determines the value), and the
    check of a header against the index.
  \<^item> \<open>TxRoot\<close>, \<open>TxProofs\<close>: the tree of a block's transactions and of inline data (\<open>merkle_root\<close>,
    \<open>inline_data_root\<close>, \<open>verify_block_data_root\<close>, \<open>transaction_end_offset\<close> of \<open>transactions.rs\<close>); the
    in-place builder equals a functional reference, its trees are what \<open>Merkle\<close> verifies, and \<open>block_contents\<close> says
    what an accepted block holds, the genesis block included.
  \<^item> \<open>Rsa\<close>, \<open>Transaction\<close>, \<open>TransactionProofs\<close>: RSA-PSS against the EMSA-PSS encoding of RFC 8017, the
    decoding and verification of transactions.
  \<^item> \<open>Caches\<close>, \<open>CacheProofs\<close>: \<open>ContentCache\<close> (\<open>lib.rs\<close>), \<open>ArnsCache\<close> and \<open>ManifestCache\<close>
    (\<open>server.rs\<close>); each implements a least-recently-used list (locale \<open>bounded_cache\<close>).
  \<^item> \<open>IndexFilter\<close>: parser and evaluation of \<open>index_filter.rs\<close>; the parser's range is characterised.
  \<^item> \<open>DataItem\<close>, \<open>DataItemProofs\<close>: binary data items, their Avro tags, ids and signatures.
  \<^item> \<open>JsonItem\<close>, \<open>JsonItemProofs\<close>: JSON bundles (\<open>json_bundle.rs\<close>): the visitors with their caps, the
    block decoder of escaped base64 with checkpoints, the verification of an entry.
  \<^item> \<open>Bundle\<close>, \<open>BundleProofs\<close>, \<open>Traversal\<close>, \<open>TraversalProofs\<close>, \<open>Retrieval\<close>: the framing of bundles, the
    search for an item, the walk along an indexed path, and the indexer's traversal with its batches;
    indexing and retrieval agree.
  \<^item> \<open>Stream\<close>, \<open>StreamProofs\<close>: reads of a streamed content over its chunks, their memory of two chunks, and the
    reader that fetches ahead; whatever the peers answer, two reads agree on the bytes they share.
  \<^item> \<open>Anchor\<close>, \<open>AnchorProofs\<close>: the search for the block of a weave offset in the trusted index, and the chunk cache
    behind \<open>retrieve_chunk\<close>, whose entries are served only while their anchor holds.
  \<^item> \<open>HeaderJson\<close>, \<open>Gateway\<close>, \<open>GatewayProofs\<close>: headers from JSON, the choice among sources, the fetch of
    transactions within shared limits and \<open>authenticate_root\<close>; what it accepts is proven down to the bytes.
  \<^item> \<open>Admission\<close>, \<open>AdmissionProofs\<close>: reservations, spooling and the pages of a bundle worker as a step relation
    with its reachable states; the counters are exact and a checkpoint never skips unfinished work.  Spool space taken by other writers is not a step.
  \<^item> \<open>Hosts\<close>, \<open>HostsProofs\<close>: root hosts, names and sandbox labels of a request and the route it takes; the label of a
    sandbox is the base 32 text of exactly one id, and an id's content is served nowhere else.
  \<^item> \<open>Arns\<close>, \<open>ArnsProofs\<close>: accounts of the name registry, the rank of an undername, leases and the cached
    resolution, over sequences of requests.
  \<^item> \<open>Respond\<close>, \<open>RespondProofs\<close>: byte ranges, multipart bodies and the response of verified content, read back
    by a client's reader.
  \<^item> \<open>Serve\<close>, \<open>ServeProofs\<close>: the policy, manifests and their cache, redirects, the content handlers and the
    signature over a response.

  \<^bold>\<open>Bounds and fuel.\<close>  Recursion is structural or has a measure.  \<open>read_avro_loop\<close> is the
  code's own loop over at most ten bytes.  \<open>persist_batches\<close> and the reference listing \<open>traverse\<close> take
  fuel because the loop around the traversal has no bound of its own; \<open>bundle_traversal_terminates\<close>
  shows that some fuel reaches the result for every root.  The traversal itself terminates by the lexicographic
  order of the entries left on its stack, bounded by \<open>MAX_BUNDLE_DEPTH\<close> frames.

  Policy lookups and retrievals of one request are numbered by their place in the handler.  A multipart body has at most
  \<open>MAX_BYTE_RANGES\<close> parts, which bounds its reader.

  \<^bold>\<open>Not modelled.\<close>  Sockets, deadlines and hedged requests (\<open>peers.rs\<close>, the request methods of \<open>lib.rs\<close>,
  the idle deadlines of a response body), the information and status pages and the chunk routes of \<open>server.rs\<close>, SQL
  (\<open>database.rs\<close>, \<open>database/\<close>, \<open>migrations/\<close>), disk I/O (\<open>disk_cache.rs\<close> beyond the lookups of the chunk cache), the
  scheduling of threads and shared futures (\<open>shared.rs\<close>), publication and inspection, diagnostics and profiling, and the
  C++ entropy generator under \<open>native/\<close>: they are I/O or scheduling around the logic above.  The clocks of the caches
  (\<open>u128\<close>) and the page counter of the scan (\<open>u64\<close>), which count operations, are unbounded natural numbers, and a
  manifest is read from its JSON value, where equal keys have collapsed and are no error as they are in the derived reader.
\<close>

end
